(* ===== verification/Prelude.thy ===== *)
theory Prelude
  imports Main
begin

section \<open>Shared vocabulary of the backend model\<close>

text \<open>
  What every component of the model uses: the HTTP exceptions a NestJS handler throws, the result
  of a handler as a sum, the outside effects a handler leaves behind (audit lines, inbox items,
  notices, queued jobs), finite tables as partial maps, and sums over lists.
\<close>

named_theorems handler_simps \<open>equations that unfold a handler's guards\<close>

subsection \<open>Exceptions and results\<close>

text \<open>
  The exceptions of \<open>@nestjs/common\<close> the services throw, each with its message code.
  \<open>Unhandled\<close> is any other thrown value, which the exception filter answers as a 500.
\<close>

datatype http_error =
    BadRequest string
  | Unauthorized string
  | Forbidden string
  | NotFound string
  | Conflict string
  | TooManyRequests string
  | Gone string
  | Unhandled string

type_synonym 'a result = "http_error + 'a"

definition bindR :: "'a result \<Rightarrow> ('a \<Rightarrow> 'b result) \<Rightarrow> 'b result" where
  "bindR r k = (case r of Inl e \<Rightarrow> Inl e | Inr x \<Rightarrow> k x)"

lemma bindR_simps [simp]:
  "bindR (Inl e) k = Inl e"
  "bindR (Inr x) k = k x"
  by (simp_all add: bindR_def)

lemma bindR_eq_Inr: "bindR r k = Inr y \<longleftrightarrow> (\<exists>x. r = Inr x \<and> k x = Inr y)"
  by (cases r) simp_all

lemma bindR_eq_Inl: "bindR r k = Inl e \<longleftrightarrow> r = Inl e \<or> (\<exists>x. r = Inr x \<and> k x = Inl e)"
  by (cases r) simp_all

lemma bindR_assoc: "bindR (bindR r f) g = bindR r (\<lambda>x. bindR (f x) g)"
  by (cases r) simp_all

text \<open>A guard of the source: \<open>if (bad) throw e\<close>.\<close>

definition refuse :: "bool \<Rightarrow> http_error \<Rightarrow> unit result" where
  "refuse bad e = (if bad then Inl e else Inr ())"

lemma refuse_eq [simp]:
  "refuse bad e = Inr u \<longleftrightarrow> \<not> bad"
  "refuse bad e = Inl e' \<longleftrightarrow> bad \<and> e' = e"
  by (auto simp: refuse_def)

lemma refuse_bool [simp]: "refuse True e = Inl e" "refuse False e = Inr ()"
  by (simp_all add: refuse_def)

lemma bindR_refuse_eq_Inr [simp]:
  "bindR (refuse bad e) k = Inr y \<longleftrightarrow> \<not> bad \<and> k () = Inr y"
  by (cases bad) simp_all

lemma bindR_refuse_eq_Inl:
  "bindR (refuse bad e) k = Inl e' \<longleftrightarrow> (bad \<and> e' = e) \<or> (\<not> bad \<and> k () = Inl e')"
  by (cases bad) auto

definition isOk :: "'a result \<Rightarrow> bool" where
  "isOk r \<longleftrightarrow> (case r of Inl _ \<Rightarrow> False | Inr _ \<Rightarrow> True)"

lemma isOk_simps [simp]: "\<not> isOk (Inl e)" "isOk (Inr x)"
  by (simp_all add: isOk_def)

lemma isOk_iff: "isOk r \<longleftrightarrow> (\<exists>x. r = Inr x)"
  by (cases r) simp_all

text \<open>A row the source reads with \<open>findUnique\<close> and refuses when it is absent.\<close>

definition found :: "'a option \<Rightarrow> http_error \<Rightarrow> 'a result" where
  "found r e = (case r of None \<Rightarrow> Inl e | Some x \<Rightarrow> Inr x)"

lemma found_simps [simp]:
  "found None e = Inl e"
  "found (Some x) e = Inr x"
  by (simp_all add: found_def)

lemma found_eq_Inr [simp]: "found r e = Inr x \<longleftrightarrow> r = Some x"
  by (cases r) simp_all

lemma found_eq_Inl [simp]: "found r e = Inl e' \<longleftrightarrow> r = None \<and> e' = e"
  by (cases r) auto

lemma bindR_found_eq_Inr [simp]:
  "bindR (found r e) k = Inr y \<longleftrightarrow> (\<exists>x. r = Some x \<and> k x = Inr y)"
  by (cases r) simp_all

text \<open>\<open>a ?? b\<close>.\<close>

definition orElse :: "'a option \<Rightarrow> 'a \<Rightarrow> 'a" where
  "orElse v d = (case v of None \<Rightarrow> d | Some x \<Rightarrow> x)"

lemma orElse_simps [simp]: "orElse None d = d" "orElse (Some x) d = x"
  by (simp_all add: orElse_def)

text \<open>\<open>String.trim() === ""\<close>, on the ASCII white space.\<close>

definition blank :: "string \<Rightarrow> bool" where
  "blank t \<longleftrightarrow> (\<forall>c \<in> set t. (of_char c :: nat) \<in> {9, 10, 11, 12, 13, 32})"

subsection \<open>Outside effects\<close>

text \<open>
  What a handler leaves outside its own tables, in order: audit lines, inbox items, notices to a
  person, queued jobs, and the closing of attendance notices that lost their reason.
\<close>

datatype effect =
    Audited string string string
  | ItemOpened string string
  | ItemClosed string string string
  | Noticed int string
  | VanishedClosed int
  | VanishedSwept
  | Rebuild int int
  | Enqueued string string

subsection \<open>Several decisions at once\<close>

text \<open>\<open>decideMany\<close> goes on past a refusal and stops at anything that is not an HTTP exception.\<close>

record DecideManyResult =
  dm_decided :: "string list"
  dm_skipped :: "(string \<times> string) list"

fun httpMessage :: "http_error \<Rightarrow> string option" where
  "httpMessage (BadRequest m) = Some m"
| "httpMessage (Unauthorized m) = Some m"
| "httpMessage (Forbidden m) = Some m"
| "httpMessage (NotFound m) = Some m"
| "httpMessage (Conflict m) = Some m"
| "httpMessage (TooManyRequests m) = Some m"
| "httpMessage (Gone m) = Some m"
| "httpMessage (Unhandled m) = None"

fun decideLoop ::
  "('s \<Rightarrow> string \<Rightarrow> 's result) \<Rightarrow> string list \<Rightarrow> 's \<Rightarrow> DecideManyResult \<Rightarrow> 's \<times> DecideManyResult result" where
  "decideLoop one [] s res = (s, Inr res)"
| "decideLoop one (i # is) s res =
     (case one s i of
        Inr s' \<Rightarrow> decideLoop one is s' (res\<lparr>dm_decided := dm_decided res @ [i]\<rparr>)
      | Inl err \<Rightarrow>
          (case httpMessage err of
             None \<Rightarrow> (s, Inl err)
           | Some m \<Rightarrow> decideLoop one is s (res\<lparr>dm_skipped := dm_skipped res @ [(i, m)]\<rparr>)))"

text \<open>The insertion order of \<open>new Set(ids)\<close> keeps the first of each.\<close>

definition firsts :: "'a list \<Rightarrow> 'a list" where
  "firsts xs = rev (remdups (rev xs))"

definition blankNote :: "string option \<Rightarrow> bool" where
  "blankNote note \<longleftrightarrow> (case note of None \<Rightarrow> True | Some t \<Rightarrow> blank t)"


lemma firsts_set [simp]: "set (firsts xs) = set xs" "distinct (firsts xs)"
  by (simp_all add: firsts_def)

text \<open>Every id is answered once: decided or skipped, in order, unless something else was thrown.\<close>

lemma decideLoop_ids:
  "decideLoop one is s res = (s', Inr res') \<Longrightarrow>
   \<exists>ds ss. dm_decided res' = dm_decided res @ ds \<and> dm_skipped res' = dm_skipped res @ ss
     \<and> set ds \<union> fst ` set ss = set is \<and> length ds + length ss = length is"
proof (induction "is" arbitrary: s res)
  case Nil
  then show ?case by auto
next
  case (Cons i "is")
  show ?case
  proof (cases "one s i")
    case (Inl err)
    with Cons.prems obtain m where m: "httpMessage err = Some m" by (auto split: option.splits)
    with Cons.prems Inl obtain ds ss where
      "dm_decided res' = dm_decided res @ ds" "dm_skipped res' = dm_skipped res @ (i, m) # ss"
      "set ds \<union> fst ` set ss = set is" "length ds + length ss = length is"
      by (auto dest!: Cons.IH)
    then show ?thesis by (intro exI [of _ ds] exI [of _ "(i, m) # ss"]) auto
  next
    case (Inr s2)
    with Cons.prems obtain ds ss where
      "dm_decided res' = dm_decided res @ i # ds" "dm_skipped res' = dm_skipped res @ ss"
      "set ds \<union> fst ` set ss = set is" "length ds + length ss = length is"
      by (auto dest!: Cons.IH)
    then show ?thesis by (intro exI [of _ "i # ds"] exI [of _ ss]) auto
  qed
qed

lemma decideLoop_inv:
  assumes "P s" "\<And>s i s'. P s \<Longrightarrow> one s i = Inr s' \<Longrightarrow> P s'"
  shows "P (fst (decideLoop one is s res))"
  using assms by (induction "one" "is" s res rule: decideLoop.induct) (auto split: sum.splits option.splits)

subsection \<open>Tables\<close>

text \<open>
  A table is a partial map from its key to its row. \<open>claim\<close> is Prisma's guarded
  \<open>updateMany({ where: { id, ...guard }, data })\<close>: the count of rows it wrote, 0 or 1, and the
  table afterwards.
\<close>

definition claim :: "('k \<rightharpoonup> 'r) \<Rightarrow> 'k \<Rightarrow> ('r \<Rightarrow> bool) \<Rightarrow> ('r \<Rightarrow> 'r) \<Rightarrow> nat \<times> ('k \<rightharpoonup> 'r)" where
  "claim t k guard upd =
     (case t k of
        None \<Rightarrow> (0, t)
      | Some r \<Rightarrow> if guard r then (1, t(k \<mapsto> upd r)) else (0, t))"

lemma claim_won: "t k = Some r \<Longrightarrow> guard r \<Longrightarrow> claim t k guard upd = (1, t(k \<mapsto> upd r))"
  by (simp add: claim_def)

lemma claim_lost: "t k = Some r \<Longrightarrow> \<not> guard r \<Longrightarrow> claim t k guard upd = (0, t)"
  by (simp add: claim_def)

lemma claim_none: "t k = None \<Longrightarrow> claim t k guard upd = (0, t)"
  by (simp add: claim_def)

lemma claim_cases:
  obtains (won) r where "t k = Some r" "guard r" "claim t k guard upd = (1, t(k \<mapsto> upd r))"
  | (lost) "claim t k guard upd = (0, t)" "\<And>r. t k = Some r \<Longrightarrow> \<not> guard r"
  by (cases "t k") (auto simp: claim_def split: if_splits)

lemma claim_fst_1: "fst (claim t k guard upd) = 1 \<longleftrightarrow> (\<exists>r. t k = Some r \<and> guard r)"
  by (auto simp: claim_def split: option.splits)

lemma claim_other: "k' \<noteq> k \<Longrightarrow> snd (claim t k guard upd) k' = t k'"
  by (auto simp: claim_def split: option.splits)

lemma claim_dom: "dom (snd (claim t k guard upd)) = dom t"
  by (auto simp: claim_def split: option.splits)

text \<open>A write of a transaction that must hit its row: \<open>update({ where: key, data })\<close>.\<close>

definition updateRow :: "('k \<rightharpoonup> 'r) \<Rightarrow> 'k \<Rightarrow> ('r \<Rightarrow> 'r) \<Rightarrow> ('k \<rightharpoonup> 'r) result" where
  "updateRow t k f = (case t k of None \<Rightarrow> Inl (Unhandled ''P2025'') | Some r \<Rightarrow> Inr (t(k \<mapsto> f r)))"

lemma updateRow_eq_Inr [simp]: "updateRow t k f = Inr t' \<longleftrightarrow> (\<exists>r. t k = Some r \<and> t' = t(k \<mapsto> f r))"
  by (auto simp: updateRow_def split: option.splits)

lemma updateRow_Some [simp]: "t k = Some r \<Longrightarrow> updateRow t k f = Inr (t(k \<mapsto> f r))"
  by (simp add: updateRow_def)

text \<open>
  Handlers that answer a pending row race on it: each reads the row, and its write is a \<open>claim\<close>
  guarded by the state it read. \<open>race\<close> is any order those writes reach the database in: the
  attempts that won, and the table they leave. The contract of such a handler is that a settled row
  no longer passes the guard; the law its users draw is that exactly one attempt wins.
\<close>

fun race :: "('k \<rightharpoonup> 'r) \<Rightarrow> 'k \<Rightarrow> ('r \<Rightarrow> bool) \<Rightarrow> ('a \<Rightarrow> 'r \<Rightarrow> 'r) \<Rightarrow> 'a list \<Rightarrow> 'a list \<times> ('k \<rightharpoonup> 'r)" where
  "race t k guard upd [] = ([], t)"
| "race t k guard upd (a # as) =
     (let (n, t') = claim t k guard (upd a);
          (won, t'') = race t' k guard upd as
      in (if n = 1 then a # won else won, t''))"

locale one_winner =
  fixes pending :: "'r \<Rightarrow> bool" and settle :: "'a \<Rightarrow> 'r \<Rightarrow> 'r"
  assumes settled: "pending r \<Longrightarrow> \<not> pending (settle a r)"
begin

lemma race_settled: "t k = Some r \<Longrightarrow> \<not> pending r \<Longrightarrow> race t k pending settle as = ([], t)"
  by (induction as) (simp_all add: claim_lost)

lemma race_none: "t k = None \<Longrightarrow> race t k pending settle as = ([], t)"
  by (induction as) (simp_all add: claim_none)

lemma race_first:
  "t k = Some r \<Longrightarrow> pending r \<Longrightarrow> race t k pending settle (a # as) = ([a], t(k \<mapsto> settle a r))"
  by (simp add: claim_won race_settled settled)

lemma race_one: "length (fst (race t k pending settle as)) \<le> 1"
proof (cases "\<exists>r. t k = Some r \<and> pending r")
  case True
  then obtain r where r: "t k = Some r" "pending r" by blast
  show ?thesis
  proof (cases as)
    case (Cons a as')
    show ?thesis unfolding Cons race_first [of t k r a as', OF r] by simp
  qed simp
next
  case False
  then show ?thesis
    by (cases "t k") (simp_all add: race_none race_settled)
qed

lemma race_other: "k' \<noteq> k \<Longrightarrow> snd (race t k pending settle as) k' = t k'"
proof (induction as arbitrary: t)
  case (Cons a as)
  then show ?case by (simp add: split_beta claim_other)
qed simp

end

text \<open>
  A table whose rows are scanned is a list of rows in the order they were made. \<open>updateMany\<close> and
  \<open>deleteMany\<close> are Prisma's; \<open>firstWhere\<close> is \<open>findUnique\<close> on a key column.
\<close>

definition updateMany :: "('r \<Rightarrow> bool) \<Rightarrow> ('r \<Rightarrow> 'r) \<Rightarrow> 'r list \<Rightarrow> 'r list" where
  "updateMany P f rows = map (\<lambda>r. if P r then f r else r) rows"

definition deleteMany :: "('r \<Rightarrow> bool) \<Rightarrow> 'r list \<Rightarrow> 'r list" where
  "deleteMany P rows = filter (\<lambda>r. \<not> P r) rows"

definition firstWhere :: "('r \<Rightarrow> 'k) \<Rightarrow> 'k \<Rightarrow> 'r list \<Rightarrow> 'r option" where
  "firstWhere key k rows = find (\<lambda>r. key r = k) rows"

text \<open>\<open>ORDER BY c DESC LIMIT 1\<close>: the newest row, the first made of those that tie.\<close>

fun newest :: "('r \<Rightarrow> 'r \<Rightarrow> bool) \<Rightarrow> 'r list \<Rightarrow> 'r option" where
  "newest later [] = None"
| "newest later (r # rs) =
     (case newest later rs of None \<Rightarrow> Some r | Some s \<Rightarrow> if later s r then Some s else Some r)"

text \<open>The guarded write on such a table: the number of rows it hit, and the table afterwards.\<close>

definition claimWhere :: "('r \<Rightarrow> bool) \<Rightarrow> ('r \<Rightarrow> 'r) \<Rightarrow> 'r list \<Rightarrow> nat \<times> 'r list" where
  "claimWhere P f rows = (length (filter P rows), updateMany P f rows)"

lemma updateMany_simps [simp]:
  "updateMany P f [] = []"
  "updateMany P f (r # rs) = (if P r then f r else r) # updateMany P f rs"
  "length (updateMany P f rows) = length rows"
  by (simp_all add: updateMany_def)

lemma updateMany_append [simp]: "updateMany P f (xs @ ys) = updateMany P f xs @ updateMany P f ys"
  by (simp add: updateMany_def)

lemma updateMany_set: "set (updateMany P f rows) = (\<lambda>r. if P r then f r else r) ` set rows"
  by (simp add: updateMany_def)

lemma updateMany_mem: "r \<in> set (updateMany P f rows) \<longleftrightarrow>
    r \<in> set rows \<and> \<not> P r \<or> (\<exists>o' \<in> set rows. P o' \<and> r = f o')"
  by (auto simp: updateMany_def)

lemma updateMany_bounded:
  "(\<exists>r \<in> set (updateMany P f rows). Q r) \<longleftrightarrow> (\<exists>r \<in> set rows. Q (if P r then f r else r))"
  "(\<forall>r \<in> set (updateMany P f rows). Q r) \<longleftrightarrow> (\<forall>r \<in> set rows. Q (if P r then f r else r))"
  by (auto simp: updateMany_set)

lemma updateMany_none: "(\<And>r. r \<in> set rows \<Longrightarrow> \<not> P r) \<Longrightarrow> updateMany P f rows = rows"
  by (induction rows) simp_all

lemma updateMany_keys: "(\<And>r. P r \<Longrightarrow> key (f r) = key r) \<Longrightarrow> map key (updateMany P f rows) = map key rows"
  by (induction rows) simp_all

lemma deleteMany_simps [simp]:
  "deleteMany P [] = []"
  "deleteMany P (r # rs) = (if P r then deleteMany P rs else r # deleteMany P rs)"
  "set (deleteMany P rows) = {r \<in> set rows. \<not> P r}"
  by (auto simp: deleteMany_def)

lemma firstWhere_key: "firstWhere key k rows = Some r \<Longrightarrow> r \<in> set rows \<and> key r = k"
  by (induction rows) (auto simp: firstWhere_def split: if_splits)

lemma firstWhere_unique:
  "distinct (map key rows) \<Longrightarrow> r \<in> set rows \<Longrightarrow> firstWhere key (key r) rows = Some r"
  by (induction rows) (auto simp: firstWhere_def image_iff)

lemma firstWhere_updateMany:
  "(\<And>r. key (f r) = key r) \<Longrightarrow>
     firstWhere key k (updateMany P f rows) = map_option (\<lambda>r. if P r then f r else r) (firstWhere key k rows)"
  by (induction rows) (auto simp: firstWhere_def)

lemma firstWhere_append: "firstWhere key k (xs @ ys) = (case firstWhere key k xs of None \<Rightarrow> firstWhere key k ys | Some r \<Rightarrow> Some r)"
  by (induction xs) (auto simp: firstWhere_def)

lemma in_map_filter: "y \<in> set (List.map_filter f xs) \<longleftrightarrow> (\<exists>x \<in> set xs. f x = Some y)"
  by (induction xs) (auto simp: List.map_filter_simps split: option.splits)

lemma firstWhere_none: "firstWhere key k rows = None \<longleftrightarrow> (\<forall>r \<in> set rows. key r \<noteq> k)"
  by (induction rows) (auto simp: firstWhere_def)

lemma newest_mem: "newest later rs = Some r \<Longrightarrow> r \<in> set rs"
  by (induction rs arbitrary: r) (auto split: option.splits if_splits)

lemma newest_None [simp]: "newest later rs = None \<longleftrightarrow> rs = []"
  by (cases rs) (auto split: option.splits)

lemma newest_max:
  assumes "newest later rs = Some r" "s \<in> set rs" "\<And>x y z. later x y \<Longrightarrow> later y z \<Longrightarrow> later x z"
    "\<And>x. \<not> later x x" "\<And>x y z. later x y \<Longrightarrow> later x z \<or> later z y"
  shows "\<not> later s r"
  using assms(1,2)
proof (induction rs arbitrary: r s)
  case (Cons x xs)
  show ?case
  proof (cases "newest later xs")
    case None
    with Cons.prems assms(4) show ?thesis by auto
  next
    case (Some y)
    have IH: "z \<in> set xs \<Longrightarrow> \<not> later z y" for z using Cons.IH [OF Some] by blast
    show ?thesis
    proof (cases "later y x")
      case True
      with Some Cons.prems have "r = y" by simp
      with True Cons.prems IH show ?thesis using assms(3,4) by (metis set_ConsD)
    next
      case False
      with Some Cons.prems have "r = x" by simp
      with False Cons.prems IH show ?thesis using assms(4,5) by (metis set_ConsD)
    qed
  qed
qed simp

text \<open>
  A table row that is settled once: the write is guarded on a state the settled row has left, so of any
  number of writers racing on the row one succeeds.
\<close>

locale settled_once =
  fixes key :: "'r \<Rightarrow> 'k" and waiting :: "'r \<Rightarrow> bool" and settle :: "'a \<Rightarrow> 'r \<Rightarrow> 'r"
  assumes key_kept: "key (settle a r) = key r" and settled: "\<not> waiting (settle a r)"
begin

abbreviation press :: "'k \<Rightarrow> 'a \<Rightarrow> 'r list \<Rightarrow> nat \<times> 'r list" where
  "press k a rows \<equiv> claimWhere (\<lambda>r. key r = k \<and> waiting r) (settle a) rows"

lemma press_keys: "map key (snd (press k a rows)) = map key rows"
  by (simp add: claimWhere_def updateMany_keys key_kept)

lemma press_other: "k' \<noteq> k \<Longrightarrow> firstWhere key k' (snd (press k a rows)) = firstWhere key k' rows"
  by (induction rows) (auto simp: claimWhere_def firstWhere_def key_kept)

lemma press_row:
  "firstWhere key k (snd (press k a rows)) = map_option (\<lambda>r. if waiting r then settle a r else r) (firstWhere key k rows)"
  by (induction rows) (auto simp: claimWhere_def firstWhere_def key_kept)

lemma press_waits: "distinct (map key rows) \<Longrightarrow>
    fst (press k a rows) = (if \<exists>r. firstWhere key k rows = Some r \<and> waiting r then 1 else 0)"
proof (induction rows)
  case (Cons r rows)
  show ?case
  proof (cases "key r = k")
    case True
    with Cons.prems have "filter (\<lambda>r. key r = k \<and> waiting r) rows = []" by (auto simp: filter_empty_conv image_iff)
    with True show ?thesis by (simp add: claimWhere_def firstWhere_def)
  next
    case False
    with Cons show ?thesis by (simp add: claimWhere_def firstWhere_def)
  qed
qed (simp add: claimWhere_def firstWhere_def)

lemma press_again: "fst (press k b (snd (press k a rows))) = 0"
  by (induction rows) (auto simp: claimWhere_def key_kept settled)

lemma press_lost: "fst (press k a rows) = 0 \<Longrightarrow> snd (press k a rows) = rows"
  by (induction rows) (auto simp: claimWhere_def split: if_splits)

end

subsection \<open>Searching lists\<close>

lemma find_isNone: "find P xs = None \<longleftrightarrow> (\<forall>x \<in> set xs. \<not> P x)"
  by (induction xs) auto

lemma find_append: "find P (xs @ ys) = (case find P xs of None \<Rightarrow> find P ys | Some x \<Rightarrow> Some x)"
  by (induction xs) auto

lemma find_mem: "find P xs = Some x \<Longrightarrow> x \<in> set xs \<and> P x"
  by (induction xs) (auto split: if_splits)

lemma find_key: "distinct (map f xs) \<Longrightarrow> x \<in> set xs \<Longrightarrow> find (\<lambda>y. f y = f x) xs = Some x"
  by (induction xs) (auto simp: image_iff)

subsection \<open>Sums over lists\<close>

lemma sum_list_filter_map_append:
  "sum_list (map f (filter P (xs @ ys))) =
   sum_list (map f (filter P xs)) + sum_list (map f (filter P ys))"
  by simp

lemma sum_list_map_le:
  fixes f g :: "'a \<Rightarrow> int"
  shows "(\<And>x. x \<in> set xs \<Longrightarrow> f x \<le> g x) \<Longrightarrow> sum_list (map f xs) \<le> sum_list (map g xs)"
  by (induction xs) (simp_all add: add_mono)

lemma sum_list_map_bounded:
  fixes f g :: "'a \<Rightarrow> int"
  assumes "\<And>x. x \<in> set xs \<Longrightarrow> \<bar>f x - g x\<bar> \<le> c"
  shows "\<bar>sum_list (map f xs) - sum_list (map g xs)\<bar> \<le> c * int (length xs)"
  using assms
proof (induction xs)
  case Nil
  then show ?case by simp
next
  case (Cons x xs)
  then have "\<bar>sum_list (map f xs) - sum_list (map g xs)\<bar> \<le> c * int (length xs)"
    and "\<bar>f x - g x\<bar> \<le> c" by simp_all
  then show ?case by (simp add: algebra_simps)
qed

lemma sum_list_map_upd:
  fixes g :: "'a \<Rightarrow> int"
  shows "distinct xs \<Longrightarrow> i \<in> set xs \<Longrightarrow> sum_list (map (g(i := v)) xs) = sum_list (map g xs) - g i + v"
proof (induction xs)
  case (Cons x xs)
  show ?case
  proof (cases "x = i")
    case True
    with Cons.prems have "map (g(i := v)) xs = map g xs" by auto
    then have "sum_list (map (g(i := v)) xs) = sum_list (map g xs)" by (simp only:)
    with True show ?thesis by (simp del: fun_upd_apply) simp
  next
    case False
    with Cons show ?thesis by simp
  qed
qed simp

lemma sum_list_map_upd_other: "i \<notin> set xs \<Longrightarrow> map (g(i := v)) xs = map g xs"
  by auto

subsection \<open>Text codecs\<close>

text \<open>
  Several parts of the backend write a value as text that another part reads back (day counts on a
  payslip, cursors, one-time secrets). The contract of such a pair, and what its users draw from it.
\<close>

locale codec =
  fixes enc :: "'a \<Rightarrow> 'b"
    and dec :: "'b \<Rightarrow> 'a result"
    and wf :: "'a \<Rightarrow> bool"
  assumes dec_enc: "wf x \<Longrightarrow> dec (enc x) = Inr x"
begin

lemma enc_inject: "wf x \<Longrightarrow> wf y \<Longrightarrow> enc x = enc y \<longleftrightarrow> x = y"
  by (metis dec_enc sum.inject(2))

lemma enc_inj_on: "inj_on enc {x. wf x}"
  by (rule inj_onI) (simp add: enc_inject)

lemma dec_only: "wf x \<Longrightarrow> dec (enc x) = Inr y \<Longrightarrow> y = x"
  by (simp add: dec_enc)

end

end
