(* ===== verification/Calendar.thy ===== *)
theory Calendar
  imports Prelude
begin

section \<open>Days, years and the working calendar\<close>

text \<open>
  Dates and the business calendar: \<open>timesheet/local-day.ts\<close>, \<open>calendarOn\<close>, \<open>workdaysOutside\<close>
  and \<open>workdays\<close> of \<open>timesheet/timesheet.service.ts\<close>, \<open>everyDay\<close> of \<open>leave/leave.service.ts\<close>.
  A date column or a \<open>Date\<close> at UTC midnight is its number of days since 1970-01-01, an instant its
  milliseconds since then. Years are read off a day number by the ECMAScript definition of
  \<open>YearFromTime\<close>. The zone database behind \<open>Intl.DateTimeFormat\<close> is a parameter: the offset of the
  zone, in minutes, at an instant.
\<close>

type_synonym day = int
type_synonym instant = int

subsection \<open>Years\<close>

definition dayFromYear :: "int \<Rightarrow> day" where
  "dayFromYear y = 365 * (y - 1970) + (y - 1969) div 4 - (y - 1901) div 100 + (y - 1601) div 400"

lemma div_plus1:
  fixes x n :: int
  assumes "0 < n"
  shows "(x + 1) div n = x div n + (if n dvd x + 1 then 1 else 0)"
proof -
  have r: "0 \<le> x mod n" "x mod n < n" using assms by simp_all
  have x: "x = n * (x div n) + x mod n" by simp
  show ?thesis
  proof (cases "x mod n + 1 = n")
    case True
    then have "x + 1 = n * (x div n + 1)" using x by (simp only: distrib_left mult_1_right)
    then have "n dvd x + 1" by (rule dvdI)
    moreover have "(x + 1) div n = x div n + 1"
      using \<open>x + 1 = n * (x div n + 1)\<close> assms by simp
    ultimately show ?thesis by simp
  next
    case False
    have "(x + 1) div n = x div n"
      by (rule int_div_pos_eq [where r = "x mod n + 1"]) (use x r False in simp_all)
    moreover have "(x + 1) mod n = x mod n + 1"
      by (rule int_mod_pos_eq [where q = "x div n"]) (use x r False in simp_all)
    then have "\<not> n dvd x + 1" using r by (simp add: dvd_eq_mod_eq_0)
    ultimately show ?thesis by simp
  qed
qed

lemma div_window:
  fixes x m d :: int
  assumes "0 < m"
  shows "d * m \<le> x \<and> x < (d + 1) * m \<longleftrightarrow> x div m = d"
proof
  assume "d * m \<le> x \<and> x < (d + 1) * m"
  then show "x div m = d"
    by (intro int_div_pos_eq [where r = "x - d * m"]) (simp_all add: algebra_simps)
next
  assume "x div m = d"
  then have "x = d * m + x mod m" using div_mult_mod_eq [of x m] by simp
  moreover have "0 \<le> x mod m" "x mod m < m" using assms by simp_all
  ultimately show "d * m \<le> x \<and> x < (d + 1) * m" by (simp only: distrib_right) linarith
qed

lemma dayFromYear_step: "365 \<le> dayFromYear (y + 1) - dayFromYear y \<and> dayFromYear (y + 1) - dayFromYear y \<le> 366"
proof -
  have a: "y + 1 - 1969 = (y - 1969) + 1" "y + 1 - 1901 = (y - 1901) + 1" "y + 1 - 1601 = (y - 1601) + 1"
    by simp_all
  have "100 dvd y - 1901 + 1 \<Longrightarrow> 4 dvd y - 1969 + 1" by presburger
  moreover have "400 dvd y - 1601 + 1 \<Longrightarrow> 100 dvd y - 1901 + 1"
  proof -
    assume "400 dvd y - 1601 + 1"
    then obtain k where "y - 1601 + 1 = 400 * k" by (rule dvdE)
    then have "y - 1901 + 1 = 100 * (4 * k - 3)" by simp
    then show ?thesis by (rule dvdI)
  qed
  ultimately show ?thesis
    unfolding dayFromYear_def a by (simp only: div_plus1 zero_less_numeral) auto
qed

lemma dayFromYear_less: "y < y' \<Longrightarrow> dayFromYear y < dayFromYear y'"
proof (induction y' rule: int_gr_induct)
  case base
  then show ?case using dayFromYear_step [of y] by simp
next
  case (step i)
  then show ?case using dayFromYear_step [of i] by simp
qed

lemma dayFromYear_mono: "y \<le> y' \<Longrightarrow> dayFromYear y \<le> dayFromYear y'"
  using dayFromYear_less [of y y'] by (cases "y = y'") auto

function yearUp :: "int \<Rightarrow> day \<Rightarrow> int" where
  "yearUp y d = (if dayFromYear (y + 1) \<le> d then yearUp (y + 1) d else y)"
  by pat_completeness auto
termination
proof (relation "measure (\<lambda>(y, d). nat (d - dayFromYear y))", goal_cases)
  case (2 y d)
  with dayFromYear_less [of y "y + 1"] show ?case by simp
qed simp

declare yearUp.simps [simp del]

text \<open>\<open>getUTCFullYear\<close>: the search starts at a year that is not after the day.\<close>

definition yearOf :: "day \<Rightarrow> int" where
  "yearOf d = yearUp (1970 + (if d \<ge> 0 then d div 366 else d div 365)) d"

lemma yearUp_spec: "dayFromYear y \<le> d \<Longrightarrow> dayFromYear (yearUp y d) \<le> d \<and> d < dayFromYear (yearUp y d + 1)"
proof (induction y d rule: yearUp.induct)
  case (1 y d)
  then show ?case by (subst (1 2) yearUp.simps) auto
qed

lemma dayFromYear_bound:
  "0 \<le> k \<Longrightarrow> dayFromYear (1970 + k) \<le> 366 * k"
  "0 \<le> k \<Longrightarrow> dayFromYear (1970 - k) \<le> - 365 * k"
proof -
  show "0 \<le> k \<Longrightarrow> dayFromYear (1970 + k) \<le> 366 * k"
  proof (induction k rule: int_ge_induct)
    case base
    then show ?case by (simp add: dayFromYear_def)
  next
    case (step i)
    then show ?case using dayFromYear_step [of "1970 + i"] by (simp add: algebra_simps)
  qed
  show "0 \<le> k \<Longrightarrow> dayFromYear (1970 - k) \<le> - 365 * k"
  proof (induction k rule: int_ge_induct)
    case base
    then show ?case by (simp add: dayFromYear_def)
  next
    case (step i)
    then show ?case using dayFromYear_step [of "1969 - i"] by (simp add: algebra_simps)
  qed
qed

lemma yearOf_spec: "dayFromYear (yearOf d) \<le> d \<and> d < dayFromYear (yearOf d + 1)"
proof -
  have "dayFromYear (1970 + (if d \<ge> 0 then d div 366 else d div 365)) \<le> d"
  proof (cases "d \<ge> 0")
    case True
    then have "dayFromYear (1970 + d div 366) \<le> 366 * (d div 366)"
      by (intro dayFromYear_bound) (simp add: pos_imp_zdiv_nonneg_iff)
    also have "\<dots> \<le> d" by simp
    finally show ?thesis using True by simp
  next
    case False
    then have "dayFromYear (1970 - (- (d div 365))) \<le> - 365 * (- (d div 365))"
      by (intro dayFromYear_bound) (simp add: div_nonpos_pos_le0)
    also have "\<dots> \<le> d" by simp
    finally show ?thesis using False by simp
  qed
  then show ?thesis unfolding yearOf_def by (rule yearUp_spec)
qed

lemma yearOf_unique: "dayFromYear y \<le> d \<Longrightarrow> d < dayFromYear (y + 1) \<Longrightarrow> yearOf d = y"
  using yearOf_spec [of d] dayFromYear_mono [of "yearOf d + 1" y] dayFromYear_mono [of "y + 1" "yearOf d"]
  by linarith

lemma yearOf_mono: "d \<le> d' \<Longrightarrow> yearOf d \<le> yearOf d'"
  using yearOf_spec [of d] yearOf_spec [of d'] dayFromYear_mono [of "yearOf d' + 1" "yearOf d"]
  by linarith

lemma yearOf_iff: "y \<le> yearOf d \<longleftrightarrow> dayFromYear y \<le> d"
  using yearOf_spec [of d] dayFromYear_mono [of "yearOf d + 1" y] dayFromYear_mono [of y "yearOf d"]
  by linarith

subsection \<open>Local days\<close>

definition msPerDay :: int where
  "msPerDay = 86400000"

text \<open>\<open>localDay\<close>: the calendar day of an instant in the zone; \<open>minutesIntoDay\<close>: the minutes past
  its local midnight. \<open>off\<close> is the zone's offset in minutes at an instant.\<close>

definition localDay :: "(instant \<Rightarrow> int) \<Rightarrow> instant \<Rightarrow> day" where
  "localDay off at = (at + off at * 60000) div msPerDay"

definition minutesIntoDay :: "(instant \<Rightarrow> int) \<Rightarrow> instant \<Rightarrow> int" where
  "minutesIntoDay off at = ((at + off at * 60000) mod msPerDay) div 60000"

definition dayAsDate :: "day \<Rightarrow> instant" where
  "dayAsDate d = d * msPerDay"

text \<open>\<open>asDay\<close>: the UTC calendar day of an instant.\<close>

definition asDay :: "instant \<Rightarrow> day" where
  "asDay at = at div msPerDay"

definition startOfLocalDay :: "(instant \<Rightarrow> int) \<Rightarrow> day \<Rightarrow> instant" where
  "startOfLocalDay off d =
     (let naive = dayAsDate d;
          guess = naive - off naive * 60000
      in naive - off guess * 60000)"

definition dayWindow :: "(instant \<Rightarrow> int) \<Rightarrow> day \<Rightarrow> instant \<times> instant" where
  "dayWindow off d = (startOfLocalDay off d, startOfLocalDay off (d + 1))"

definition leapYear :: "int \<Rightarrow> bool" where
  "leapYear y \<longleftrightarrow> y mod 4 = 0 \<and> y mod 100 \<noteq> 0 \<or> y mod 400 = 0"

text \<open>\<open>Date.UTC(year, month - 1, 1)\<close> as a day, for months 1 to 13.\<close>

definition monthStart :: "int \<Rightarrow> int \<Rightarrow> day" where
  "monthStart y m =
     dayFromYear y + [0, 31, 59, 90, 120, 151, 181, 212, 243, 273, 304, 334, 365] ! nat (m - 1)
       + (if m > 2 \<and> leapYear y then 1 else 0)"

subsection \<open>Working days\<close>

datatype DayCalendar = WORKDAY | WEEKEND | HOLIDAY | UNPAID_HOLIDAY

record Holiday =
  hol_date :: day
  hol_entity :: "string option"
  hol_paid :: bool

definition getUTCDay :: "day \<Rightarrow> int" where
  "getUTCDay d = (d + 4) mod 7"

definition calendarOn :: "day \<Rightarrow> Holiday list \<Rightarrow> string option \<Rightarrow> DayCalendar" where
  "calendarOn d hs entity =
     (let own = find (\<lambda>h. hol_entity h \<noteq> None \<and> hol_entity h = entity) hs;
          holiday = (case own of Some h \<Rightarrow> Some h | None \<Rightarrow> find (\<lambda>h. hol_entity h = None) hs)
      in case holiday of
           Some h \<Rightarrow> if hol_paid h then HOLIDAY else UNPAID_HOLIDAY
         | None \<Rightarrow> if getUTCDay d \<in> {6, 0} then WEEKEND else WORKDAY)"

text \<open>The loop \<open>for (at = from; at <= to; at += 1 day)\<close> the module walks ranges with.\<close>

function everyDay :: "day \<Rightarrow> day \<Rightarrow> day list" where
  "everyDay from until = (if from \<le> until then from # everyDay (from + 1) until else [])"
  by pat_completeness auto
termination
  by (relation "measure (\<lambda>(f, t). nat (t + 1 - f))") auto

declare everyDay.simps [simp del]

lemma everyDay_upto: "everyDay f t = [f..t]"
proof (induction f t rule: everyDay.induct)
  case (1 f t)
  then show ?case by (subst everyDay.simps) (simp add: upto.simps)
qed

record HiredPerson =
  hp_entity :: string
  hp_hireDate :: "day option"
  hp_leaveDate :: "day option"

fun outsideLoop :: "HiredPerson \<Rightarrow> Holiday list \<Rightarrow> day list \<Rightarrow> nat \<Rightarrow> nat" where
  "outsideLoop p hs [] days = days"
| "outsideLoop p hs (at # ats) days =
     (let outside = (case hp_hireDate p of None \<Rightarrow> False | Some h \<Rightarrow> at < h)
                  \<or> (case hp_leaveDate p of None \<Rightarrow> False | Some l \<Rightarrow> at > l);
          declared = filter (\<lambda>h. hol_date h = at) hs
      in outsideLoop p hs ats
           (if outside \<and> calendarOn at declared (Some (hp_entity p)) = WORKDAY then days + 1 else days))"

definition workdaysOutside :: "day \<Rightarrow> day \<Rightarrow> HiredPerson \<Rightarrow> Holiday list \<Rightarrow> nat" where
  "workdaysOutside from until p hs = outsideLoop p hs (everyDay from until) 0"

text \<open>\<open>workdays\<close> of a person of \<open>entity\<close>; the holiday read is the range's own.\<close>

definition workdays :: "Holiday list \<Rightarrow> string option \<Rightarrow> day \<Rightarrow> day \<Rightarrow> day list" where
  "workdays holidays entity from until =
     (let read = filter (\<lambda>h. from \<le> hol_date h \<and> hol_date h \<le> until) holidays
      in filter (\<lambda>at. calendarOn at (filter (\<lambda>h. hol_date h = at) read) entity = WORKDAY)
           (everyDay from until))"

subsection \<open>Lemmas\<close>

definition declaredFor :: "Holiday list \<Rightarrow> string option \<Rightarrow> day \<Rightarrow> bool" where
  "declaredFor hs entity d \<longleftrightarrow> (\<exists>h \<in> set hs. hol_date h = d \<and> (hol_entity h = None \<or> hol_entity h = entity))"

lemma calendarOn_WORKDAY:
  "calendarOn d hs entity = WORKDAY \<longleftrightarrow>
     getUTCDay d \<notin> {6, 0} \<and> (\<forall>h \<in> set hs. hol_entity h \<noteq> None \<and> hol_entity h \<noteq> entity)"
proof (cases "find (\<lambda>h. hol_entity h \<noteq> None \<and> hol_entity h = entity) hs")
  case (Some h)
  then have "h \<in> set hs" "hol_entity h = entity" by (auto simp: find_Some_iff)
  then show ?thesis unfolding calendarOn_def Let_def Some option.case by auto
next
  case None
  note own = None
  then have no: "\<And>h. h \<in> set hs \<Longrightarrow> hol_entity h = None \<or> hol_entity h \<noteq> entity"
    by (auto simp: find_isNone)
  show ?thesis
  proof (cases "find (\<lambda>h. hol_entity h = None) hs")
    case None
    then have "\<And>h. h \<in> set hs \<Longrightarrow> hol_entity h \<noteq> None" by (simp add: find_isNone)
    with no show ?thesis unfolding calendarOn_def Let_def own None option.case by auto
  next
    case (Some h)
    then have "h \<in> set hs" "hol_entity h = None" by (auto simp: find_Some_iff)
    then show ?thesis unfolding calendarOn_def Let_def own Some option.case by auto
  qed
qed

lemma calendarOn_declared:
  "calendarOn d (filter (\<lambda>h. hol_date h = d) hs) entity = WORKDAY \<longleftrightarrow>
     getUTCDay d \<notin> {6, 0} \<and> \<not> declaredFor hs entity d"
  by (auto simp: calendarOn_WORKDAY declaredFor_def)

lemma workdays_filter:
  "workdays hs entity f t = filter (\<lambda>d. getUTCDay d \<notin> {6, 0} \<and> \<not> declaredFor hs entity d) [f..t]"
  unfolding workdays_def Let_def everyDay_upto
proof (rule filter_cong [OF refl])
  fix d assume "d \<in> set [f..t]"
  then have "filter (\<lambda>h. hol_date h = d) (filter (\<lambda>h. f \<le> hol_date h \<and> hol_date h \<le> t) hs)
      = filter (\<lambda>h. hol_date h = d) hs"
    by (auto intro: filter_cong)
  then show "calendarOn d (filter (\<lambda>h. hol_date h = d)
        (filter (\<lambda>h. f \<le> hol_date h \<and> hol_date h \<le> t) hs)) entity = WORKDAY
      \<longleftrightarrow> getUTCDay d \<notin> {6, 0} \<and> \<not> declaredFor hs entity d"
    by (simp only: calendarOn_declared)
qed

lemma workdays_sorted: "sorted (workdays hs entity f t)" "distinct (workdays hs entity f t)"
  by (simp_all add: workdays_filter sorted_wrt_filter)

definition employedOn :: "HiredPerson \<Rightarrow> day \<Rightarrow> bool" where
  "employedOn p d \<longleftrightarrow>
     (case hp_hireDate p of None \<Rightarrow> True | Some h \<Rightarrow> h \<le> d)
     \<and> (case hp_leaveDate p of None \<Rightarrow> True | Some l \<Rightarrow> d \<le> l)"

lemma outsideLoop_count:
  "outsideLoop p hs ds n =
     n + length (filter (\<lambda>d. \<not> employedOn p d \<and> getUTCDay d \<notin> {6, 0}
                            \<and> \<not> declaredFor hs (Some (hp_entity p)) d) ds)"
  by (induction p hs ds n rule: outsideLoop.induct)
    (auto simp: calendarOn_declared employedOn_def Let_def split: option.splits)

subsection \<open>Properties\<close>

text \<open>The working days of a range, in order and once each: exactly the weekdays of the range on
  which neither the company nor the person's own entity declares a holiday.\<close>

theorem workdays_exact:
  "sorted (workdays hs entity f t) \<and> distinct (workdays hs entity f t)
   \<and> (\<forall>d. d \<in> set (workdays hs entity f t) \<longleftrightarrow>
        f \<le> d \<and> d \<le> t \<and> getUTCDay d \<noteq> 0 \<and> getUTCDay d \<noteq> 6
        \<and> \<not> (\<exists>h \<in> set hs. hol_date h = d \<and> (hol_entity h = None \<or> hol_entity h = entity)))"
  using workdays_sorted by (auto simp: workdays_filter declaredFor_def)

text \<open>The days the insurance rule counts outside the employment are the working days of the
  range that leave filing would not count as employed: the two counts split the range.\<close>

theorem workdaysOutside_splits:
  "length (workdays hs (Some (hp_entity p)) f t) =
     workdaysOutside f t p hs + length (filter (employedOn p) (workdays hs (Some (hp_entity p)) f t))"
proof -
  have "length (filter P xs) = length (filter (\<lambda>d. \<not> Q d \<and> P d) xs) + length (filter Q (filter P xs))"
    for P Q :: "day \<Rightarrow> bool" and xs by (induction xs) auto
  then show ?thesis
    by (simp only: workdays_filter workdaysOutside_def outsideLoop_count everyDay_upto add_0)
qed

text \<open>In a zone of fixed offset the window of a local day holds exactly the instants whose local
  day it is, windows of consecutive days meet, and the minutes into the day count from its start.\<close>

theorem dayWindow_exact:
  assumes "\<And>at. off at = k"
  shows "(fst (dayWindow off d) \<le> at \<and> at < snd (dayWindow off d) \<longleftrightarrow> localDay off at = d)
    \<and> snd (dayWindow off d) = fst (dayWindow off (d + 1))
    \<and> (localDay off at = d \<longrightarrow> minutesIntoDay off at = (at - fst (dayWindow off d)) div 60000)"
proof -
  have start: "fst (dayWindow off d) = d * msPerDay - k * 60000"
    "snd (dayWindow off d) = (d + 1) * msPerDay - k * 60000" for d
    by (simp_all add: dayWindow_def startOfLocalDay_def dayAsDate_def assms Let_def)
  have "d * msPerDay \<le> at + k * 60000 \<and> at + k * 60000 < (d + 1) * msPerDay
      \<longleftrightarrow> (at + k * 60000) div msPerDay = d"
    by (rule div_window) (simp add: msPerDay_def)
  then have window: "fst (dayWindow off d) \<le> at \<and> at < snd (dayWindow off d) \<longleftrightarrow> localDay off at = d"
    by (simp add: start localDay_def assms algebra_simps)
  have "(at + k * 60000) mod msPerDay = at + k * 60000 - d * msPerDay" if "localDay off at = d"
    using that by (simp add: localDay_def assms minus_div_mult_eq_mod [symmetric])
  then have "minutesIntoDay off at = (at - fst (dayWindow off d)) div 60000" if "localDay off at = d"
    using that by (simp add: minutesIntoDay_def start assms algebra_simps)
  with window show ?thesis by (simp add: start)
qed

theorem dayWindow_exact_witness:
  "dayWindow (\<lambda>_. 420) 20000 = (1727974800000, 1728061200000) \<and> localDay (\<lambda>_. 420) 1727974800000 = 20000"
proof -
  have "dayWindow (\<lambda>_. 420) 20000 = (1727974800000, 1728061200000)"
    by (simp add: dayWindow_def startOfLocalDay_def dayAsDate_def msPerDay_def)
  moreover have "localDay (\<lambda>_. 420) 1727974800000 = 20000"
    using dayWindow_exact [of "\<lambda>_. 420" 420 20000 1727974800000] calculation by simp
  ultimately show ?thesis by simp
qed

end
