(* ===== verification/Records.thy ===== *)
theory Records
  imports Calendar "HOL-Library.Char_ord" "HOL-Library.List_Lexorder" "HOL-Library.Product_Lexorder"
begin

section \<open>Rows the components share\<close>

text \<open>
  The enumerations and table rows of \<open>backend/prisma/schema.prisma\<close> that more than one component
  reads. Enumerators that several enums share carry their enum's initials. A table that a handler
  claims rows of is a partial map from its key; what a query returned is the list of its rows.
\<close>

datatype DayState = DS_WORKED | DS_LEAVE | DS_HOLIDAY | DS_WEEKEND | DS_ABSENT

datatype DayPart = MORNING | AFTERNOON

datatype RequestKind = RK_LEAVE | RK_OVERTIME | RK_ATTENDANCE_FIX | RK_BUSINESS_TRIP | RK_REMOTE_WORK

datatype RequestState = RS_DRAFT | RS_PENDING | RS_APPROVED | RS_REJECTED | RS_CANCELLED

datatype PunchReview = PR_PENDING | PR_ACCEPTED | PR_REJECTED

datatype PunchHold = LATE | CLOSED_PERIOD

text \<open>Days and half days of leave are counted in tenths, the scale of their decimal columns.\<close>

record Request =
  rq_employeeId :: int
  rq_kind :: RequestKind
  rq_state :: RequestState
  rq_leaveTypeId :: "string option"
  rq_fromDate :: day
  rq_toDate :: day
  rq_fromAt :: "instant option"
  rq_toAt :: "instant option"
  rq_halfDay :: bool
  rq_dayPart :: "DayPart option"
  rq_days :: int
  rq_nextYearDays :: int
  rq_minutes :: int
  rq_reason :: string
  rq_attachmentUrl :: "string option"
  rq_clientKey :: "string option"
  rq_approverId :: "int option"
  rq_decidedById :: "string option"
  rq_decidedAt :: "instant option"
  rq_decisionNote :: "string option"

record AttendanceDay =
  ad_state :: DayState
  ad_calendar :: DayCalendar
  ad_shiftId :: "string option"
  ad_firstIn :: "instant option"
  ad_lastOut :: "instant option"
  ad_worked :: int
  ad_late :: int
  ad_early :: int
  ad_over :: int
  ad_punchCount :: nat
  ad_unsynced :: bool
  ad_measured :: "int option"
  ad_adjustedById :: "string option"
  ad_adjustReason :: "string option"
  ad_adjustedAt :: "instant option"

type_synonym days = "int \<times> day \<rightharpoonup> AttendanceDay"

record AttendanceRecord =
  pu_deviceId :: string
  pu_localId :: string
  pu_employeeId :: int
  pu_ts :: instant
  pu_receivedAt :: "instant option"
  pu_clockUnsynced :: bool
  pu_questionable :: bool
  pu_hold :: "PunchHold option"
  pu_review :: "PunchReview option"
  pu_reviewedById :: "string option"
  pu_reviewedAt :: "instant option"
  pu_reviewNote :: "string option"

record Employee =
  em_id :: int
  em_legalEntityId :: string
  em_managerId :: "int option"
  em_active :: bool
  em_hireDate :: "day option"
  em_leaveDate :: "day option"
  em_departmentId :: "string option"
  em_bankName :: "string option"
  em_bankAccount :: "string option"

end
