(* ===== verification/Scope.thy ===== *)
theory Scope
  imports Prelude
begin

section \<open>Who sees and decides what\<close>

text \<open>
  \<open>backend/src/common/scope\<close>: the viewer a guarded handler serves (\<open>viewer.ts\<close>), the people a
  viewer may see and reach, and the guard against manager loops (\<open>scope.service.ts\<close>), and the
  department branch (\<open>department-subtree.ts\<close>). The employee table is a list of rows; a recursive
  common table expression is its evaluation by PostgreSQL: the working table of one round yields the
  next, \<open>UNION\<close> dropping rows seen before, until a round is empty. The cache in front of
  \<open>subtree\<close> is left out: it is dropped on every move. Filters built for Prisma are modelled as
  the predicates on rows they mean.
\<close>

subsection \<open>Viewers\<close>

datatype Role = ADMIN | HR | PAYROLL | MANAGER | EMPLOYEE | VIEWER

record Viewer =
  v_userId :: string
  v_role :: Role
  v_employeeId :: "int option"
  v_entityIds :: "string list option"

definition LINKED_DESKS :: "Role set" where
  "LINKED_DESKS = {HR, PAYROLL}"

definition heldEntities :: "Role \<Rightarrow> string list option \<Rightarrow> string list option" where
  "heldEntities r ids =
     (case ids of
        None \<Rightarrow> None
      | Some xs \<Rightarrow> if r \<in> LINKED_DESKS \<and> xs \<noteq> [] then Some xs else None)"

definition isUnlinkedDesk :: "Viewer \<Rightarrow> bool" where
  "isUnlinkedDesk v \<longleftrightarrow> v_employeeId v = None \<and> v_role v \<in> LINKED_DESKS"

definition refuseOwn :: "Viewer \<Rightarrow> int list \<Rightarrow> unit result" where
  "refuseOwn v ids =
     (case v_employeeId v of
        Some e \<Rightarrow> if e \<in> set ids then Inl (Forbidden ''SELF_DECISION'')
                  else if isUnlinkedDesk v then Inl (Forbidden ''DESK_NEEDS_EMPLOYEE'') else Inr ()
      | None \<Rightarrow> if isUnlinkedDesk v then Inl (Forbidden ''DESK_NEEDS_EMPLOYEE'') else Inr ())"

text \<open>The claims JwtAuthGuard puts on a request, all optional when no guard ran.\<close>

record AccessClaims =
  cl_sub :: string
  cl_role :: Role
  cl_sid :: string
  cl_mfa :: bool
  cl_employeeId :: "int option"
  cl_ent :: "string list option"

definition CurrentViewer :: "AccessClaims option \<Rightarrow> Viewer" where
  "CurrentViewer claims =
     (let role = (case claims of None \<Rightarrow> VIEWER | Some c \<Rightarrow> cl_role c)
      in \<lparr>v_userId = (case claims of None \<Rightarrow> [] | Some c \<Rightarrow> cl_sub c), v_role = role,
          v_employeeId = (case claims of None \<Rightarrow> None | Some c \<Rightarrow> cl_employeeId c),
          v_entityIds = heldEntities role (case claims of None \<Rightarrow> None | Some c \<Rightarrow> cl_ent c)\<rparr>)"

lemma refuseOwn_ok [simp]:
  "refuseOwn v ids = Inr u \<longleftrightarrow> (\<forall>e. v_employeeId v = Some e \<longrightarrow> e \<notin> set ids) \<and> \<not> isUnlinkedDesk v"
  by (auto simp: refuseOwn_def split: option.splits)

lemma bindR_refuseOwn_eq_Inr [simp]:
  "bindR (refuseOwn v ids) k = Inr y \<longleftrightarrow>
     (\<forall>e. v_employeeId v = Some e \<longrightarrow> e \<notin> set ids) \<and> \<not> isUnlinkedDesk v \<and> k () = Inr y"
  by (auto simp: bindR_eq_Inr)

subsection \<open>Closure over a parent column\<close>

text \<open>
  Employees under a manager and departments under a department are the same walk: a table of
  \<open>(id, parent)\<close> rows, the \<open>WITH RECURSIVE ... UNION\<close> of the children of the working table.
\<close>

type_synonym 'k edges = "('k \<times> 'k option) list"

definition childrenOf :: "'k edges \<Rightarrow> 'k list \<Rightarrow> 'k list" where
  "childrenOf es work = map fst (filter (\<lambda>(i, p). \<exists>w \<in> set work. p = Some w) es)"

definition nextRound :: "'k edges \<Rightarrow> 'k list \<Rightarrow> 'k list \<Rightarrow> 'k list" where
  "nextRound es work seen = filter (\<lambda>i. i \<notin> set seen) (remdups (childrenOf es work))"

lemma nextRound_set:
  "set (nextRound es work seen) = {i. \<exists>w \<in> set work. (i, Some w) \<in> set es} - set seen"
  by (force simp: nextRound_def childrenOf_def)

lemma nextRound_ids: "set (nextRound es work seen) \<subseteq> fst ` set es - set seen"
  by (force simp: nextRound_set)

function belowLoop :: "'k edges \<Rightarrow> 'k list \<Rightarrow> 'k list \<Rightarrow> 'k list" where
  "belowLoop es work seen =
     (if work = [] then seen
      else belowLoop es (nextRound es work seen) (seen @ nextRound es work seen))"
  by pat_completeness auto
termination
proof (relation "measures [\<lambda>(es, work, seen). card (fst ` set es - set seen), \<lambda>(es, work, seen). length work]",
       goal_cases)
  case 1
  then show ?case by simp
next
  case (2 es work seen)
  show ?case
  proof (cases "nextRound es work seen = []")
    case True
    with 2 show ?thesis by simp
  next
    case False
    then obtain i where "i \<in> set (nextRound es work seen)" by fastforce
    then have "fst ` set es - (set seen \<union> set (nextRound es work seen)) \<subset> fst ` set es - set seen"
      using nextRound_ids [of es work seen] by auto
    then have "card (fst ` set es - (set seen \<union> set (nextRound es work seen))) < card (fst ` set es - set seen)"
      by (intro psubset_card_mono) auto
    then show ?thesis by simp
  qed
qed

declare belowLoop.simps [simp del]

definition closureOf :: "'k edges \<Rightarrow> 'k \<Rightarrow> 'k list" where
  "closureOf es root = (let start = filter (\<lambda>i. i = root) (remdups (map fst es)) in belowLoop es start start)"

definition under :: "'k edges \<Rightarrow> ('k \<times> 'k) set" where
  "under es = {(p, i). (i, Some p) \<in> set es}"

lemma belowLoop_sound:
  "set work \<subseteq> set seen \<Longrightarrow> set seen \<subseteq> (under es)\<^sup>* `` {root} \<Longrightarrow>
   set (belowLoop es work seen) \<subseteq> (under es)\<^sup>* `` {root}"
proof (induction es work seen rule: belowLoop.induct)
  case (1 es work seen)
  show ?case
  proof (cases "work = []")
    case True
    with 1 show ?thesis by (simp add: belowLoop.simps)
  next
    case False
    have "set (nextRound es work seen) \<subseteq> (under es)\<^sup>* `` {root}"
    proof
      fix i assume "i \<in> set (nextRound es work seen)"
      then obtain w where "w \<in> set work" "(w, i) \<in> under es"
        by (auto simp: nextRound_set under_def)
      with "1.prems" show "i \<in> (under es)\<^sup>* `` {root}"
        by (auto intro: rtrancl_into_rtrancl)
    qed
    with False 1 show ?thesis by (subst belowLoop.simps) auto
  qed
qed

lemma belowLoop_complete:
  "(under es) `` (set seen - set work) \<subseteq> set seen \<Longrightarrow>
   set seen \<subseteq> set (belowLoop es work seen)
     \<and> (under es) `` set (belowLoop es work seen) \<subseteq> set (belowLoop es work seen)"
proof (induction es work seen rule: belowLoop.induct)
  case (1 es work seen)
  show ?case
  proof (cases "work = []")
    case True
    with 1 show ?thesis by (subst (1 2 3) belowLoop.simps) simp
  next
    case False
    let ?n = "nextRound es work seen"
    have "(under es) `` (set (seen @ ?n) - set ?n) \<subseteq> set (seen @ ?n)"
      using "1.prems" by (force simp: nextRound_set under_def)
    from "1.IH" [OF False this] False show ?thesis
      by (subst (1 2 3) belowLoop.simps) auto
  qed
qed

lemma closureOf_set:
  "set (closureOf es root) = (if root \<in> fst ` set es then (under es)\<^sup>* `` {root} else {})"
proof -
  let ?start = "filter (\<lambda>i. i = root) (remdups (map fst es))"
  show ?thesis
  proof (cases "root \<in> fst ` set es")
    case True
    then have start: "set ?start = {root}" by auto
    have "set (belowLoop es ?start ?start) \<subseteq> (under es)\<^sup>* `` {root}"
      by (rule belowLoop_sound) (use start in auto)
    moreover have "set ?start \<subseteq> set (belowLoop es ?start ?start)
        \<and> (under es) `` set (belowLoop es ?start ?start) \<subseteq> set (belowLoop es ?start ?start)"
      by (rule belowLoop_complete) simp
    then have "root \<in> set (belowLoop es ?start ?start)"
      and "(under es) `` set (belowLoop es ?start ?start) \<subseteq> set (belowLoop es ?start ?start)"
      using start by auto
    then have "(under es)\<^sup>* `` {root} \<subseteq> (under es)\<^sup>* `` set (belowLoop es ?start ?start)"
      and "(under es)\<^sup>* `` set (belowLoop es ?start ?start) = set (belowLoop es ?start ?start)"
      using Image_closed_trancl by blast+
    then have "(under es)\<^sup>* `` {root} \<subseteq> set (belowLoop es ?start ?start)" by simp
    ultimately show ?thesis using True by (simp add: closureOf_def Let_def)
  next
    case False
    then have "?start = []" by (auto simp: filter_empty_conv)
    with False show ?thesis by (simp add: closureOf_def belowLoop.simps)
  qed
qed

lemma belowLoop_distinct: "distinct seen \<Longrightarrow> distinct (belowLoop es work seen)"
proof (induction es work seen rule: belowLoop.induct)
  case (1 es work seen)
  have "distinct (seen @ nextRound es work seen)"
    using "1.prems" by (auto simp: nextRound_def)
  with 1 show ?case by (subst belowLoop.simps) simp
qed

lemma closureOf_distinct: "distinct (closureOf es root)"
  by (simp add: closureOf_def Let_def belowLoop_distinct)

subsection \<open>Employees and reach\<close>

record Person =
  p_id :: int
  p_managerId :: "int option"
  p_legalEntityId :: string

definition managerEdges :: "Person list \<Rightarrow> int edges" where
  "managerEdges es = map (\<lambda>e. (p_id e, p_managerId e)) es"

definition subtree :: "Person list \<Rightarrow> int \<Rightarrow> int list" where
  "subtree es root = closureOf (managerEdges es) root"

definition departmentSubtree :: "string edges \<Rightarrow> string \<Rightarrow> string list" where
  "departmentSubtree deps root = closureOf deps root"

definition UNSCOPED :: "Role set" where
  "UNSCOPED = {ADMIN, HR, PAYROLL}"

definition visibleEmployeeIds :: "Person list \<Rightarrow> Viewer \<Rightarrow> int list option" where
  "visibleEmployeeIds es v =
     (if v_role v \<in> UNSCOPED then None
      else case v_employeeId v of
             None \<Rightarrow> Some []
           | Some e \<Rightarrow> if v_role v \<noteq> MANAGER then Some [e] else Some (subtree es e))"

definition deskOrSelfEmployeeIds :: "Viewer \<Rightarrow> int list option" where
  "deskOrSelfEmployeeIds v =
     (if v_role v \<in> UNSCOPED then None
      else case v_employeeId v of None \<Rightarrow> Some [] | Some e \<Rightarrow> Some [e])"

definition peopleOf :: "Person list \<Rightarrow> string list \<Rightarrow> int option \<Rightarrow> int list" where
  "peopleOf es entityIds own =
     map p_id (filter (\<lambda>e. p_legalEntityId e \<in> set entityIds \<or> own = Some (p_id e)) es)"

definition sees :: "int list option \<Rightarrow> int \<Rightarrow> bool" where
  "sees visible e \<longleftrightarrow> (case visible of None \<Rightarrow> True | Some ids \<Rightarrow> e \<in> set ids)"

definition peopleWhere :: "Viewer \<Rightarrow> int list option \<Rightarrow> Person \<Rightarrow> bool" where
  "peopleWhere v visible e \<longleftrightarrow>
     (case visible of
        Some ids \<Rightarrow> p_id e \<in> set ids
      | None \<Rightarrow> (case v_entityIds v of None \<Rightarrow> True | Some xs \<Rightarrow> p_legalEntityId e \<in> set xs))"

text \<open>\<open>ownedWhere\<close> filters rows by their owner: here as the test on the owning employee.\<close>

definition ownedWhere :: "Viewer \<Rightarrow> int list option \<Rightarrow> Person \<Rightarrow> bool" where
  "ownedWhere v visible e \<longleftrightarrow>
     (case visible of
        Some ids \<Rightarrow> p_id e \<in> set ids
      | None \<Rightarrow> (case v_entityIds v of
                  None \<Rightarrow> True
                | Some xs \<Rightarrow> p_legalEntityId e \<in> set xs \<or> v_employeeId v = Some (p_id e)))"

definition reaches :: "Person list \<Rightarrow> Viewer \<Rightarrow> int list option \<Rightarrow> int \<Rightarrow> bool" where
  "reaches es v visible e \<longleftrightarrow>
     (case visible of
        Some ids \<Rightarrow> e \<in> set ids
      | None \<Rightarrow>
          (case v_entityIds v of
             None \<Rightarrow> True
           | Some xs \<Rightarrow>
               v_employeeId v = Some e \<or>
               (case find (\<lambda>r. p_id r = e) es of
                  None \<Rightarrow> False
                | Some r \<Rightarrow> p_legalEntityId r \<in> set xs)))"

definition reachesEntity :: "Viewer \<Rightarrow> string option \<Rightarrow> bool" where
  "reachesEntity v entity \<longleftrightarrow>
     (case v_entityIds v of
        None \<Rightarrow> True
      | Some xs \<Rightarrow> (case entity of None \<Rightarrow> True | Some x \<Rightarrow> x \<in> set xs))"

text \<open>\<open>entityWhere\<close> as the test on a row's entity.\<close>

definition entityWhere :: "Viewer \<Rightarrow> bool \<Rightarrow> string option \<Rightarrow> bool" where
  "entityWhere v groupRows entity \<longleftrightarrow>
     (case v_entityIds v of
        None \<Rightarrow> True
      | Some xs \<Rightarrow> (case entity of None \<Rightarrow> groupRows | Some x \<Rightarrow> x \<in> set xs))"

definition mustWriteGroup :: "Viewer \<Rightarrow> unit result" where
  "mustWriteGroup v = refuse (v_entityIds v \<noteq> None) (Forbidden ''GROUP_WIDE_ONLY'')"

subsection \<open>Manager loops\<close>

definition MAX_DEPTH :: nat where
  "MAX_DEPTH = 64"

definition managerOf :: "Person list \<Rightarrow> int \<Rightarrow> int option" where
  "managerOf es i = (case find (\<lambda>r. p_id r = i) es of None \<Rightarrow> None | Some r \<Rightarrow> p_managerId r)"

text \<open>The rows of \<open>up\<close> for one start: \<open>at\<close> after 1, 2, ... joins, \<open>depth\<close> below the limit, a
  row joined only while \<open>at\<close> names an employee.\<close>

fun upWalk :: "Person list \<Rightarrow> int option \<Rightarrow> nat \<Rightarrow> int option list" where
  "upWalk es at 0 = []"
| "upWalk es at (Suc n) =
     at # (case at of
             None \<Rightarrow> []
           | Some i \<Rightarrow> if i \<in> p_id ` set es then upWalk es (managerOf es i) n else [])"

definition loopedFrom :: "Person list \<Rightarrow> int \<Rightarrow> bool" where
  "loopedFrom es start \<longleftrightarrow> Some start \<in> set (upWalk es (managerOf es start) MAX_DEPTH)"

definition assertNoManagerCycle :: "Person list \<Rightarrow> int list \<Rightarrow> unit result" where
  "assertNoManagerCycle es ids =
     refuse (\<exists>i \<in> set ids. i \<in> p_id ` set es \<and> loopedFrom es i) (Conflict ''MANAGER_CYCLE'')"

text \<open>
  The transaction of \<open>OrgService.reorg\<close> as far as it moves people: the guarded write of the new
  manager, then the check on the table it wrote; a refusal rolls the write back.
\<close>

definition reorgMove :: "Person list \<Rightarrow> int list \<Rightarrow> int option \<Rightarrow> Person list result" where
  "reorgMove es ids toManager =
     (let written = map (\<lambda>e. if p_id e \<in> set ids
                            then e\<lparr>p_managerId := (case toManager of None \<Rightarrow> p_managerId e | Some m \<Rightarrow> Some m)\<rparr>
                            else e) es
      in bindR (assertNoManagerCycle written ids) (\<lambda>_. Inr written))"

subsection \<open>Lemmas\<close>

definition reports :: "Person list \<Rightarrow> (int \<times> int) set" where
  "reports es = {(m, i). \<exists>e \<in> set es. p_id e = i \<and> p_managerId e = Some m}"

lemma under_managerEdges: "under (managerEdges es) = reports es"
  by (force simp: under_def managerEdges_def reports_def)

lemma ids_managerEdges [simp]: "fst ` set (managerEdges es) = p_id ` set es"
  by (force simp: managerEdges_def)

lemma subtree_set:
  "set (subtree es root) = (if root \<in> p_id ` set es then (reports es)\<^sup>* `` {root} else {})"
  by (simp add: subtree_def closureOf_set under_managerEdges)

lemma find_person: "distinct (map p_id es) \<Longrightarrow> e \<in> set es \<Longrightarrow> find (\<lambda>r. p_id r = p_id e) es = Some e"
  by (induction es) (auto simp: image_iff)

lemma managerOf_reports:
  "distinct (map p_id es) \<Longrightarrow> managerOf es i = Some m \<longleftrightarrow> (m, i) \<in> reports es"
proof
  assume d: "distinct (map p_id es)" and m: "managerOf es i = Some m"
  then show "(m, i) \<in> reports es"
    by (auto simp: managerOf_def reports_def find_Some_iff split: option.splits)
next
  assume d: "distinct (map p_id es)" and "(m, i) \<in> reports es"
  then obtain e where "e \<in> set es" "p_id e = i" "p_managerId e = Some m"
    by (auto simp: reports_def)
  with find_person [OF d this(1)] show "managerOf es i = Some m" by (simp add: managerOf_def)
qed

lemma reports_child: "(m, i) \<in> reports es \<Longrightarrow> i \<in> p_id ` set es"
  by (auto simp: reports_def)

lemma upWalk_relpow:
  assumes d: "distinct (map p_id es)"
  shows "Some s \<in> set (upWalk es (Some a) n) \<longleftrightarrow> (\<exists>k<n. (s, a) \<in> reports es ^^ k)"
proof (induction n arbitrary: a)
  case 0
  then show ?case by simp
next
  case (Suc n)
  have split: "(\<exists>k<Suc n. (s, a) \<in> reports es ^^ k) \<longleftrightarrow> s = a \<or> (\<exists>k<n. (s, a) \<in> reports es ^^ Suc k)"
    by (auto simp: less_Suc_eq_0_disj simp del: relpow.simps(2))
  show ?case
  proof (cases "managerOf es a")
    case None
    then have "\<not> (\<exists>b. (b, a) \<in> reports es)" using managerOf_reports [OF d] by force
    moreover have "upWalk es None n = [] \<or> upWalk es None n = [None]" by (cases n) auto
    ultimately show ?thesis unfolding split using None by (auto elim!: relpow_Suc_E)
  next
    case (Some b)
    then have b: "(b, a) \<in> reports es" using managerOf_reports [OF d] by blast
    have "\<And>b'. (b', a) \<in> reports es \<Longrightarrow> b' = b"
      using managerOf_reports [OF d] Some by (metis option.inject)
    with b have "(\<exists>k<n. (s, a) \<in> reports es ^^ Suc k) \<longleftrightarrow> (\<exists>k<n. (s, b) \<in> reports es ^^ k)"
      by (metis relpow_Suc_E relpow_Suc_I)
    then show ?thesis unfolding split using Some Suc.IH [of b] reports_child [OF b] by auto
  qed
qed

lemma loopedFrom_iff:
  assumes d: "distinct (map p_id es)"
  shows "loopedFrom es s \<longleftrightarrow> (\<exists>k. 0 < k \<and> k \<le> MAX_DEPTH \<and> (s, s) \<in> reports es ^^ k)"
proof (cases "managerOf es s")
  case None
  then have no: "\<not> (\<exists>b. (b, s) \<in> reports es)" using managerOf_reports [OF d] by force
  have "upWalk es None MAX_DEPTH = [None]" by (simp add: MAX_DEPTH_def numeral_eq_Suc)
  then have "\<not> loopedFrom es s" using None by (simp add: loopedFrom_def)
  moreover have "(s, s) \<notin> reports es ^^ k" if "0 < k" for k
    using that no by (cases k) (auto elim!: relpow_Suc_E)
  ultimately show ?thesis by blast
next
  case (Some b)
  then have b: "(b, s) \<in> reports es" using managerOf_reports [OF d] by blast
  have only: "\<And>b'. (b', s) \<in> reports es \<Longrightarrow> b' = b"
    using managerOf_reports [OF d] Some by (metis option.inject)
  have "loopedFrom es s \<longleftrightarrow> (\<exists>k<MAX_DEPTH. (s, b) \<in> reports es ^^ k)"
    using Some upWalk_relpow [OF d] by (simp add: loopedFrom_def)
  also have "\<dots> \<longleftrightarrow> (\<exists>k<MAX_DEPTH. (s, s) \<in> reports es ^^ Suc k)"
    using b only by (metis relpow_Suc_E relpow_Suc_I)
  also have "\<dots> \<longleftrightarrow> (\<exists>k. 0 < k \<and> k \<le> MAX_DEPTH \<and> (s, s) \<in> reports es ^^ k)"
    by (metis Suc_le_eq gr0_conv_Suc zero_less_Suc)
  finally show ?thesis .
qed

lemma reports_card: "finite (reports es)" "card (reports es) \<le> length es"
proof -
  let ?f = "\<lambda>e. (the (p_managerId e), p_id e)"
  have sub: "reports es \<subseteq> ?f ` set es" by (force simp: reports_def)
  then show "finite (reports es)" by (rule finite_subset) simp
  have "card (reports es) \<le> card (?f ` set es)" by (rule card_mono [OF _ sub]) simp
  also have "\<dots> \<le> length es" by (metis card_image_le card_length finite_set le_trans)
  finally show "card (reports es) \<le> length es" .
qed

text \<open>In a company of at most 64 people the depth limit misses no loop.\<close>

lemma assertNoManagerCycle_small:
  assumes "distinct (map p_id es)" "length es \<le> MAX_DEPTH"
    and ok: "assertNoManagerCycle es ids = Inr ()" and i: "i \<in> set ids"
  shows "(i, i) \<notin> (reports es)\<^sup>+"
proof
  assume "(i, i) \<in> (reports es)\<^sup>+"
  then obtain n where n: "0 < n" "(i, i) \<in> reports es ^^ n" by (auto simp: trancl_power)
  then have "i \<in> p_id ` set es" by (cases n) (auto elim!: relpow_Suc_E dest: reports_child)
  from relpow_finite_bounded1 [OF reports_card(1) n(1)] n(2)
  obtain k where "0 < k" "k \<le> card (reports es)" "(i, i) \<in> reports es ^^ k" by blast
  with reports_card(2) [of es] assms have "loopedFrom es i"
    by (metis le_trans loopedFrom_iff)
  with ok i \<open>i \<in> p_id ` set es\<close> show False by (auto simp: assertNoManagerCycle_def)
qed

text \<open>A loop that avoids everybody who moved was there before.\<close>

lemma loop_through_moved:
  assumes "(x, x) \<in> S\<^sup>+" "acyclic R" "\<And>m i. (m, i) \<in> S \<Longrightarrow> i \<notin> A \<Longrightarrow> (m, i) \<in> R"
  obtains i where "i \<in> A" "(i, i) \<in> S\<^sup>+"
proof -
  have "\<exists>i\<in>A. (i, i) \<in> S\<^sup>+"
  proof (rule ccontr)
    assume none: "\<not> ?thesis"
    have "(x, y) \<in> S\<^sup>+ \<Longrightarrow> (y, x) \<in> S\<^sup>* \<Longrightarrow> (x, y) \<in> R\<^sup>+" for y
    proof (induction rule: trancl_induct)
      case (base y)
      then have "(y, y) \<in> S\<^sup>+" by (meson rtrancl_into_trancl1)
      with none base assms(3) show ?case by blast
    next
      case (step y z)
      then have "(z, z) \<in> S\<^sup>+" by (meson rtrancl_into_trancl1 rtrancl_trans trancl_into_rtrancl)
      with none have "(y, z) \<in> R" using step assms(3) by blast
      moreover from step have "(x, y) \<in> R\<^sup>+" by (meson converse_rtrancl_into_rtrancl)
      ultimately show ?case by simp
    qed
    with assms(1,2) show False by (auto simp: acyclic_def)
  qed
  with that show thesis by blast
qed

subsection \<open>Properties\<close>

text \<open>C36: whom a viewer sees. The three desks see everyone; a manager sees exactly themselves and
  everyone under them at any depth, even where the table loops; any other account sees its own
  record or, with none, nobody. The recursive query always ends and returns nobody twice.\<close>

theorem visible_exact:
  "sees (visibleEmployeeIds es v) e \<longleftrightarrow>
     v_role v \<in> {ADMIN, HR, PAYROLL} \<or>
     (\<exists>own. v_employeeId v = Some own \<and>
        (if v_role v = MANAGER then own \<in> p_id ` set es \<and> (own, e) \<in> (reports es)\<^sup>* else e = own))"
  by (auto simp: sees_def visibleEmployeeIds_def UNSCOPED_def subtree_set split: option.splits if_splits)

text \<open>C37: a reorganisation that is accepted leaves no manager loop, in a company of at most 64
  people whose tree had none; whoever it did not name keeps their row.\<close>

theorem reorg_keeps_tree:
  assumes "distinct (map p_id es)" "acyclic (reports es)" "length es \<le> 64"
    and "reorgMove es ids m = Inr es'"
  shows "acyclic (reports es') \<and> map p_id es' = map p_id es
    \<and> (\<forall>e \<in> set es. p_id e \<notin> set ids \<longrightarrow> e \<in> set es')"
proof -
  let ?f = "\<lambda>e. if p_id e \<in> set ids
    then e\<lparr>p_managerId := (case m of None \<Rightarrow> p_managerId e | Some m \<Rightarrow> Some m)\<rparr> else e"
  from assms(4) have es': "es' = map ?f es" and ok: "assertNoManagerCycle es' ids = Inr ()"
    by (auto simp: reorgMove_def Let_def bindR_eq_Inr)
  have ids: "map p_id es' = map p_id es" by (simp add: es')
  with assms(1) have d: "distinct (map p_id es')" by (simp only: ids)
  from assms(3) have len: "length es' \<le> MAX_DEPTH" by (simp add: es' MAX_DEPTH_def)
  have "(x, x) \<notin> (reports es')\<^sup>+" for x
  proof
    assume "(x, x) \<in> (reports es')\<^sup>+"
    then obtain i where "i \<in> set ids" "(i, i) \<in> (reports es')\<^sup>+"
      by (rule loop_through_moved [OF _ assms(2), where A = "set ids"])
        (auto simp: reports_def es' split: if_splits)
    with assertNoManagerCycle_small [OF d len ok] show False by blast
  qed
  moreover have "\<forall>e \<in> set es. p_id e \<notin> set ids \<longrightarrow> e \<in> set es'" by (force simp: es')
  ultimately show ?thesis using ids by (simp add: acyclic_def)
qed

definition sampleCompany :: "Person list" where
  "sampleCompany =
     [\<lparr>p_id = 1, p_managerId = None, p_legalEntityId = ''A''\<rparr>,
      \<lparr>p_id = 2, p_managerId = Some 1, p_legalEntityId = ''A''\<rparr>,
      \<lparr>p_id = 3, p_managerId = Some 1, p_legalEntityId = ''B''\<rparr>]"

lemma sampleCompany_acyclic: "acyclic (reports sampleCompany)"
proof (rule acyclicI_order [where f = "\<lambda>i. - i"])
  fix a b :: int
  assume "(a, b) \<in> reports sampleCompany"
  then show "- b < - a" by (auto simp: reports_def sampleCompany_def)
qed

theorem reorg_keeps_tree_witness:
  "acyclic (reports (sampleCompany[2 := \<lparr>p_id = 3, p_managerId = Some 2, p_legalEntityId = ''B''\<rparr>]))"
proof -
  have "reorgMove sampleCompany [3] (Some 2) =
      Inr (sampleCompany[2 := \<lparr>p_id = 3, p_managerId = Some 2, p_legalEntityId = ''B''\<rparr>])"
    by code_simp
  from reorg_keeps_tree [OF _ sampleCompany_acyclic _ this] show ?thesis
    by (simp add: sampleCompany_def)
qed

definition ring :: "nat \<Rightarrow> Person list" where
  "ring n = map (\<lambda>i. \<lparr>p_id = int i, p_managerId = Some (int (Suc i mod n)), p_legalEntityId = ''A''\<rparr>) [0..<n]"

text \<open>A ring of people, each reporting to the next.\<close>

lemma ring_reports: "0 < n \<Longrightarrow> i < n \<Longrightarrow> (int (Suc i mod n), int i) \<in> reports (ring n)"
  by (force simp: reports_def ring_def)

lemma ring_up: "k \<le> n \<Longrightarrow> 0 < n \<Longrightarrow> (int (k mod n), 0) \<in> reports (ring n) ^^ k"
proof (induction k)
  case 0
  then show ?case by simp
next
  case (Suc k)
  then have "(int (Suc k mod n), int (k mod n)) \<in> reports (ring n)"
    using ring_reports [of n k] by simp
  moreover have "(int (k mod n), 0) \<in> reports (ring n) ^^ k" using Suc by simp
  ultimately show ?case by (rule relpow_Suc_I2)
qed

lemma ring_edge: "(m, i) \<in> reports (ring n) \<Longrightarrow> \<exists>j<n. i = int j \<and> m = int (Suc j mod n)"
  by (auto simp: reports_def ring_def)

lemma ring_back: "(m, int i) \<in> reports (ring n) ^^ k \<Longrightarrow> i < n \<Longrightarrow> m = int ((i + k) mod n)"
proof (induction k arbitrary: m)
  case 0
  then show ?case by simp
next
  case (Suc k)
  then obtain y where "(m, y) \<in> reports (ring n)" "(y, int i) \<in> reports (ring n) ^^ k"
    by (meson relpow_Suc_D2)
  from Suc.IH [OF this(2) Suc.prems(2)] ring_edge [OF this(1)] obtain j
    where "int ((i + k) mod n) = int j" "m = int (Suc j mod n)" by auto
  then show ?case by (auto simp: mod_Suc_eq)
qed

lemma ring_distinct: "distinct (map p_id (ring n))"
  by (simp add: ring_def comp_def distinct_map)

lemma ring_ids: "i \<in> p_id ` set (ring n) \<Longrightarrow> \<exists>j<n. i = int j"
  by (auto simp: ring_def)

text \<open>The depth limit of the loop check is real: in a ring of 65 people, each reporting to the
  next, every one of them is under themselves, and the check accepts the ring.\<close>

theorem long_ring_passes:
  "assertNoManagerCycle (ring 65) (map p_id (ring 65)) = Inr () \<and> (0, 0) \<in> (reports (ring 65))\<^sup>+"
proof
  have "\<not> loopedFrom (ring 65) (int i)" if "i < 65" for i
  proof
    assume "loopedFrom (ring 65) (int i)"
    then obtain k where k: "0 < k" "k \<le> 64" "(int i, int i) \<in> reports (ring 65) ^^ k"
      by (auto simp: loopedFrom_iff [OF ring_distinct] MAX_DEPTH_def)
    from ring_back [OF k(3) that] have "i = (i + k) mod 65" by simp
    with k(1,2) that show False by (simp add: mod_if split: if_splits)
  qed
  then have "\<And>i. i \<in> p_id ` set (ring 65) \<Longrightarrow> \<not> loopedFrom (ring 65) i" by (auto dest!: ring_ids)
  then show "assertNoManagerCycle (ring 65) (map p_id (ring 65)) = Inr ()"
    by (simp only: assertNoManagerCycle_def refuse_eq) blast
  have "(0, 0) \<in> reports (ring 65) ^^ 65" using ring_up [of 65 65] by simp
  then show "(0, 0) \<in> (reports (ring 65))\<^sup>+" by (auto simp: trancl_power intro!: exI [of _ "65"])
qed

end
