(* ===== verification/Timesheet.thy ===== *)
theory Timesheet
  imports Records Scope
begin

section \<open>The timesheet\<close>

text \<open>
  \<open>backend/src/modules/timesheet/timesheet.service.ts\<close>: folding one finished local day's counted
  punches into a row per person, the guarded upsert of those rows, hand corrections and the writes
  an approved request makes. Queries are the filters and orders of the source on the rows of the
  table; the day table maps (employee, date) to its row, so a row's id is its key here. The columns
  \<open>builtAt\<close> and \<open>updatedAt\<close> are left out. The zone offset and today's date are arguments.
\<close>

subsection \<open>What a day is made of\<close>

definition COUNTED_PUNCH :: "AttendanceRecord \<Rightarrow> bool" where
  "COUNTED_PUNCH p \<longleftrightarrow> \<not> pu_questionable p \<and> (pu_review p = None \<or> pu_review p = Some PR_ACCEPTED)"

record ShiftClock =
  sc_shiftId :: string
  sc_startMinutes :: int
  sc_endMinutes :: int
  sc_graceMinutes :: int

definition owedPart :: "ShiftClock \<Rightarrow> DayPart option \<Rightarrow> ShiftClock" where
  "owedPart shift halfOff =
     (let midpoint = sc_startMinutes shift + (sc_endMinutes shift - sc_startMinutes shift) div 2
      in case halfOff of
           Some MORNING \<Rightarrow> shift\<lparr>sc_startMinutes := midpoint\<rparr>
         | Some AFTERNOON \<Rightarrow> shift\<lparr>sc_endMinutes := midpoint\<rparr>
         | None \<Rightarrow> shift)"

record Marks =
  mk_first :: instant
  mk_last :: instant
  mk_count :: nat
  mk_unsynced :: bool

text \<open>The columns of \<open>DayRow\<close> the source leaves undefined are \<open>None\<close>.\<close>

record DayRow =
  dr_employeeId :: int
  dr_date :: day
  dr_state :: DayState
  dr_calendar :: DayCalendar
  dr_shiftId :: "string option"
  dr_firstIn :: "instant option"
  dr_lastOut :: "instant option"
  dr_worked :: "int option"
  dr_late :: "int option"
  dr_early :: "int option"
  dr_over :: "int option"
  dr_punchCount :: nat
  dr_unsynced :: "bool option"
  dr_measured :: "int option"

record DayFacts =
  df_calendar :: DayCalendar
  df_leave :: bool
  df_offSite :: bool
  df_halfOff :: "DayPart option"

definition stateUnseen :: "DayFacts \<Rightarrow> DayState" where
  "stateUnseen f =
     (if df_calendar f = HOLIDAY \<or> df_calendar f = UNPAID_HOLIDAY then DS_HOLIDAY
      else if df_calendar f = WEEKEND then DS_WEEKEND
      else if df_leave f then DS_LEAVE
      else if df_offSite f then DS_WORKED
      else DS_ABSENT)"

definition dayOf ::
  "(instant \<Rightarrow> int) \<Rightarrow> int \<Rightarrow> day \<Rightarrow> Marks option \<Rightarrow> ShiftClock option \<Rightarrow> DayFacts \<Rightarrow> DayRow" where
  "dayOf off employeeId date marks shift f =
     (case marks of
        None \<Rightarrow>
          \<lparr>dr_employeeId = employeeId, dr_date = date, dr_state = stateUnseen f, dr_calendar = df_calendar f,
           dr_shiftId = map_option sc_shiftId shift, dr_firstIn = None, dr_lastOut = None, dr_worked = None,
           dr_late = None, dr_early = None, dr_over = None, dr_punchCount = 0, dr_unsynced = None,
           dr_measured = None\<rparr>
      | Some m \<Rightarrow>
          let inAt = minutesIntoDay off (mk_first m);
              outAt = minutesIntoDay off (mk_last m);
              worked = max 0 (outAt - inAt);
              owed = (if df_calendar f = WORKDAY then shift else None);
              part = map_option (\<lambda>o'. owedPart o' (df_halfOff f)) owed;
              late = (case part of None \<Rightarrow> 0
                      | Some p \<Rightarrow> max 0 (inAt - (sc_startMinutes p + sc_graceMinutes p)));
              early = (case part of None \<Rightarrow> 0 | Some p \<Rightarrow> max 0 (sc_endMinutes p - outAt));
              over = (case owed of Some o' \<Rightarrow> max 0 (outAt - sc_endMinutes o')
                      | None \<Rightarrow> if df_calendar f = WORKDAY then 0 else worked)
          in \<lparr>dr_employeeId = employeeId, dr_date = date, dr_state = DS_WORKED, dr_calendar = df_calendar f,
              dr_shiftId = map_option sc_shiftId shift, dr_firstIn = Some (mk_first m),
              dr_lastOut = Some (mk_last m), dr_worked = Some worked, dr_late = Some late,
              dr_early = Some early, dr_over = Some over, dr_punchCount = mk_count m,
              dr_unsynced = Some (mk_unsynced m), dr_measured = Some worked\<rparr>)"

subsection \<open>Reading the day\<close>

text \<open>The loop over the counted punches of the day, oldest first, with its map \<open>seen\<close>.\<close>

fun seenLoop :: "AttendanceRecord list \<Rightarrow> (int \<rightharpoonup> Marks) \<Rightarrow> int \<rightharpoonup> Marks" where
  "seenLoop [] seen = seen"
| "seenLoop (p # ps) seen =
     seenLoop ps
       (seen(pu_employeeId p \<mapsto>
          (case seen (pu_employeeId p) of
             Some held \<Rightarrow> held\<lparr>mk_last := pu_ts p, mk_count := mk_count held + 1,
                              mk_unsynced := mk_unsynced held \<or> pu_clockUnsynced p\<rparr>
           | None \<Rightarrow> \<lparr>mk_first = pu_ts p, mk_last = pu_ts p, mk_count = 1,
                      mk_unsynced = pu_clockUnsynced p\<rparr>)))"

definition punchesOf :: "(instant \<Rightarrow> int) \<Rightarrow> AttendanceRecord list \<Rightarrow> day \<Rightarrow> int option \<Rightarrow> AttendanceRecord list" where
  "punchesOf off punches d only =
     (let (from, until) = dayWindow off d
      in sort_key pu_ts
           (filter (\<lambda>p. from \<le> pu_ts p \<and> pu_ts p < until \<and> COUNTED_PUNCH p
                       \<and> (case only of None \<Rightarrow> True | Some e \<Rightarrow> pu_employeeId p = e)) punches))"

definition staffOn :: "Employee list \<Rightarrow> day \<Rightarrow> int option \<Rightarrow> string list option \<Rightarrow> Employee list" where
  "staffOn employees d only entityIds =
     filter (\<lambda>e. (em_active e \<or> (case em_leaveDate e of None \<Rightarrow> False | Some l \<Rightarrow> d \<le> l))
               \<and> (case em_hireDate e of None \<Rightarrow> True | Some h \<Rightarrow> h \<le> d)
               \<and> (case only of None \<Rightarrow> True | Some i \<Rightarrow> em_id e = i)
               \<and> (case entityIds of None \<Rightarrow> True | Some xs \<Rightarrow> em_legalEntityId e \<in> set xs)) employees"

definition approvedOn :: "Request list \<Rightarrow> day \<Rightarrow> int option \<Rightarrow> Request list" where
  "approvedOn requests d only =
     filter (\<lambda>r. rq_kind r \<in> {RK_LEAVE, RK_BUSINESS_TRIP, RK_REMOTE_WORK} \<and> rq_state r = RS_APPROVED
               \<and> rq_fromDate r \<le> d \<and> d \<le> rq_toDate r
               \<and> (case only of None \<Rightarrow> True | Some e \<Rightarrow> rq_employeeId r = e)) requests"

text \<open>A validated \<open>HH:MM\<close> clock is the pair of its two numbers.\<close>

type_synonym clock = "int \<times> int"

definition clockToMinutes :: "clock \<Rightarrow> int" where
  "clockToMinutes c = fst c * 60 + snd c"

record ShiftAssignment =
  sa_id :: string
  sa_employeeId :: int
  sa_shiftId :: string
  sa_validFrom :: day
  sa_validTo :: "day option"
  sa_startTime :: clock
  sa_endTime :: clock
  sa_graceMinutes :: int

definition shiftClockOf :: "ShiftAssignment \<Rightarrow> ShiftClock" where
  "shiftClockOf r =
     \<lparr>sc_shiftId = sa_shiftId r, sc_startMinutes = clockToMinutes (sa_startTime r),
      sc_endMinutes = clockToMinutes (sa_endTime r), sc_graceMinutes = sa_graceMinutes r\<rparr>"

definition shiftsOn :: "ShiftAssignment list \<Rightarrow> day \<Rightarrow> int option \<Rightarrow> int \<rightharpoonup> ShiftClock" where
  "shiftsOn assignments d only =
     (let rows = sort_key (\<lambda>r. (sa_validFrom r, sa_id r))
                   (filter (\<lambda>r. sa_validFrom r \<le> d \<and> (case sa_validTo r of None \<Rightarrow> True | Some u \<Rightarrow> d \<le> u)
                              \<and> (case only of None \<Rightarrow> True | Some e \<Rightarrow> sa_employeeId r = e)) assignments)
      in foldl (\<lambda>m r. m(sa_employeeId r \<mapsto> shiftClockOf r)) Map.empty rows)"

text \<open>The halves of the day each person has on approved leave, the set as the list of its parts.\<close>

definition halvesOf :: "Request list \<Rightarrow> int \<Rightarrow> DayPart list" where
  "halvesOf approved e =
     remdups (map (\<lambda>r. the (rq_dayPart r))
       (filter (\<lambda>r. rq_employeeId r = e \<and> rq_halfDay r \<and> rq_kind r = RK_LEAVE \<and> rq_dayPart r \<noteq> None) approved))"

definition factsOf :: "Holiday list \<Rightarrow> Request list \<Rightarrow> day \<Rightarrow> Employee \<Rightarrow> DayFacts" where
  "factsOf holidays approved d person =
     (let e = em_id person;
          whole = filter (\<lambda>r. \<not> rq_halfDay r) approved;
          halves = halvesOf approved e
      in \<lparr>df_calendar = calendarOn d holidays (Some (em_legalEntityId person)),
          df_leave = (\<exists>r \<in> set whole. rq_kind r = RK_LEAVE \<and> rq_employeeId r = e) \<or> length halves = 2,
          df_offSite = (\<exists>r \<in> set whole. rq_kind r \<noteq> RK_LEAVE \<and> rq_employeeId r = e),
          df_halfOff = (if length halves = 1 then Some (hd halves) else None)\<rparr>)"

subsection \<open>Building days\<close>

record TimesheetDb =
  ts_punches :: "AttendanceRecord list"
  ts_employees :: "Employee list"
  ts_holidays :: "Holiday list"
  ts_requests :: "Request list"
  ts_assignments :: "ShiftAssignment list"
  ts_days :: days

definition rowsOf :: "(instant \<Rightarrow> int) \<Rightarrow> TimesheetDb \<Rightarrow> day \<Rightarrow> int option \<Rightarrow> string list option \<Rightarrow> DayRow list" where
  "rowsOf off db d only entityIds =
     (let seen = seenLoop (punchesOf off (ts_punches db) d only) Map.empty;
          staff = staffOn (ts_employees db) d only entityIds;
          holidays = filter (\<lambda>h. hol_date h = d) (ts_holidays db);
          approved = approvedOn (ts_requests db) d only;
          shifts = shiftsOn (ts_assignments db) d only
      in map (\<lambda>person. dayOf off (em_id person) d (seen (em_id person)) (shifts (em_id person))
                        (factsOf holidays approved d person)) staff)"

text \<open>The columns of the upsert, with the defaults the arrays of \<open>write\<close> fill in.\<close>

definition freshDay :: "DayRow \<Rightarrow> AttendanceDay" where
  "freshDay r =
     (let orZ = (\<lambda>v. case v of None \<Rightarrow> 0 | Some x \<Rightarrow> x)
      in \<lparr>ad_state = dr_state r, ad_calendar = dr_calendar r, ad_shiftId = dr_shiftId r,
          ad_firstIn = dr_firstIn r, ad_lastOut = dr_lastOut r, ad_worked = orZ (dr_worked r),
          ad_late = orZ (dr_late r), ad_early = orZ (dr_early r), ad_over = orZ (dr_over r),
          ad_punchCount = dr_punchCount r,
          ad_unsynced = (case dr_unsynced r of None \<Rightarrow> False | Some b \<Rightarrow> b),
          ad_measured = dr_measured r, ad_adjustedById = None, ad_adjustReason = None, ad_adjustedAt = None\<rparr>)"

definition sameColumns :: "AttendanceDay \<Rightarrow> AttendanceDay \<Rightarrow> bool" where
  "sameColumns a b \<longleftrightarrow>
     (ad_state a, ad_calendar a, ad_shiftId a, ad_firstIn a, ad_lastOut a, ad_worked a, ad_late a,
      ad_early a, ad_over a, ad_punchCount a, ad_unsynced a, ad_measured a) =
     (ad_state b, ad_calendar b, ad_shiftId b, ad_firstIn b, ad_lastOut b, ad_worked b, ad_late b,
      ad_early b, ad_over b, ad_punchCount b, ad_unsynced b, ad_measured b)"

definition upsertDay :: "day \<Rightarrow> days \<Rightarrow> DayRow \<Rightarrow> days" where
  "upsertDay d days r =
     (let k = (dr_employeeId r, d); new = freshDay r
      in case days k of
           None \<Rightarrow> days(k \<mapsto> new)
         | Some held \<Rightarrow>
             if ad_adjustedById held = None \<and> \<not> sameColumns held new
             then days(k \<mapsto> new\<lparr>ad_adjustedById := ad_adjustedById held,
                                ad_adjustReason := ad_adjustReason held,
                                ad_adjustedAt := ad_adjustedAt held\<rparr>)
             else days)"

text \<open>The join on \<open>Employee\<close> drops the rows of people deleted since the read.\<close>

definition writeDays :: "Employee list \<Rightarrow> day \<Rightarrow> days \<Rightarrow> DayRow list \<Rightarrow> days" where
  "writeDays employees d days rows =
     foldl (upsertDay d) days (filter (\<lambda>r. dr_employeeId r \<in> em_id ` set employees) rows)"

definition build ::
  "(instant \<Rightarrow> int) \<Rightarrow> day \<Rightarrow> TimesheetDb \<Rightarrow> day \<Rightarrow> int option \<Rightarrow> string list option \<Rightarrow> nat \<times> TimesheetDb" where
  "build off today db d only entityIds =
     (if d \<ge> today then (0, db)
      else let rows = rowsOf off db d only entityIds
           in (length rows, db\<lparr>ts_days := writeDays (ts_employees db) d (ts_days db) rows\<rparr>))"

record BuildReport =
  rep_days :: nat
  rep_rows :: nat

fun buildLoop ::
  "(instant \<Rightarrow> int) \<Rightarrow> day \<Rightarrow> string list option \<Rightarrow> day list \<Rightarrow> BuildReport \<times> TimesheetDb \<Rightarrow> BuildReport \<times> TimesheetDb" where
  "buildLoop off today entityIds [] acc = acc"
| "buildLoop off today entityIds (d # ds) (rep, db) =
     (let (built, db') = build off today db d None entityIds
      in buildLoop off today entityIds ds
           ((if built > 0 then rep\<lparr>rep_days := rep_days rep + 1, rep_rows := rep_rows rep + built\<rparr> else rep), db'))"

definition buildRange ::
  "(instant \<Rightarrow> int) \<Rightarrow> day \<Rightarrow> TimesheetDb \<Rightarrow> day \<Rightarrow> day \<Rightarrow> string list option \<Rightarrow> BuildReport \<times> TimesheetDb" where
  "buildRange off today db from until entityIds =
     buildLoop off today entityIds (everyDay from until) (\<lparr>rep_days = 0, rep_rows = 0\<rparr>, db)"

datatype TimesheetJob = NightlyJob | RebuildJob int day | BuildJob day day "string list option"

definition runJob :: "(instant \<Rightarrow> int) \<Rightarrow> day \<Rightarrow> TimesheetDb \<Rightarrow> TimesheetJob \<Rightarrow> BuildReport \<times> TimesheetDb" where
  "runJob off today db job =
     (case job of
        NightlyJob \<Rightarrow> buildRange off today db (today - 1) (today - 1) None
      | RebuildJob e d \<Rightarrow>
          (let (rows, db') = build off today db d (Some e) None
           in (\<lparr>rep_days = (if rows > 0 then 1 else 0), rep_rows = rows\<rparr>, db'))
      | BuildJob from until entityIds \<Rightarrow> buildRange off today db from until entityIds)"

subsection \<open>Corrections and approvals\<close>

record CorrectDayDto =
  cd_state :: "DayState option"
  cd_worked :: "int option"
  cd_reason :: string

text \<open>\<open>correct\<close>: \<open>key\<close> is the row its id names, or nothing when the id is no number.\<close>

definition correctedDay :: "string \<Rightarrow> instant \<Rightarrow> CorrectDayDto \<Rightarrow> AttendanceDay \<Rightarrow> AttendanceDay" where
  "correctedDay by' now body held =
     held\<lparr>ad_state := orElse (cd_state body) (ad_state held),
          ad_worked := orElse (cd_worked body) (ad_worked held),
          ad_measured := Some (orElse (ad_measured held) (ad_worked held)),
          ad_adjustedById := Some by', ad_adjustReason := Some (cd_reason body),
          ad_adjustedAt := Some now\<rparr>"

definition correct ::
  "Person list \<Rightarrow> instant \<Rightarrow> days \<Rightarrow> Viewer \<Rightarrow> (int \<times> day) option \<Rightarrow> CorrectDayDto \<Rightarrow> (AttendanceDay \<times> days) result" where
  "correct people now days v key body =
     (let visible = visibleEmployeeIds people v;
          held = (case key of
                    None \<Rightarrow> None
                  | Some k \<Rightarrow>
                      (case (days k, find (\<lambda>r. p_id r = fst k) people) of
                         (Some row, Some owner) \<Rightarrow> if ownedWhere v visible owner then Some (k, row) else None
                       | _ \<Rightarrow> None))
      in bindR (found held (NotFound ''DAY_NOT_FOUND'')) (\<lambda>(k, row).
         bindR (refuseOwn v [fst k]) (\<lambda>_.
         bindR (refuse (cd_worked body = None \<and> cd_state body = None) (BadRequest ''NOTHING_TO_CORRECT'')) (\<lambda>_.
           let row' = correctedDay (v_userId v) now body row
           in Inr (row', days(k \<mapsto> row'))))))"

text \<open>The guarded \<open>UPDATE\<close> of \<open>markApproved\<close>, on every row of the person in the range.\<close>

definition markable :: "AttendanceDay \<Rightarrow> bool" where
  "markable r \<longleftrightarrow> ad_state r = DS_ABSENT \<and> ad_punchCount r = 0 \<and> ad_adjustedById r = None"

definition markApproved :: "days \<Rightarrow> int \<Rightarrow> day \<Rightarrow> day \<Rightarrow> DayState \<Rightarrow> days" where
  "markApproved days e from until s =
     (\<lambda>k. case days k of
            None \<Rightarrow> None
          | Some r \<Rightarrow> if fst k = e \<and> from \<le> snd k \<and> snd k \<le> until \<and> markable r
                      then Some (r\<lparr>ad_state := s\<rparr>) else Some r)"

text \<open>The subquery of \<open>markHalvesApproved\<close> counts the distinct parts on the requests it sees.\<close>

definition markHalvesApproved :: "Request list \<Rightarrow> days \<Rightarrow> int \<Rightarrow> day \<Rightarrow> days" where
  "markHalvesApproved requests days e d =
     (let parts = remdups (map the (filter (\<lambda>p. p \<noteq> None) (map rq_dayPart
            (filter (\<lambda>r. rq_employeeId r = e \<and> rq_kind r = RK_LEAVE \<and> rq_state r = RS_APPROVED
                        \<and> rq_halfDay r \<and> rq_fromDate r = d) requests))))
      in (\<lambda>k. case days k of
               None \<Rightarrow> None
             | Some r \<Rightarrow> if k = (e, d) \<and> markable r \<and> length parts = 2
                         then Some (r\<lparr>ad_state := DS_LEAVE\<rparr>) else Some r))"

definition fixedDay :: "int \<Rightarrow> string \<Rightarrow> string \<Rightarrow> instant \<Rightarrow> AttendanceDay \<Rightarrow> AttendanceDay" where
  "fixedDay minutes by' reason now held =
     held\<lparr>ad_state := DS_WORKED, ad_worked := minutes,
          ad_measured := Some (orElse (ad_measured held) (ad_worked held)),
          ad_adjustedById := Some by', ad_adjustReason := Some reason, ad_adjustedAt := Some now\<rparr>"

definition applyFix :: "days \<Rightarrow> int \<Rightarrow> day \<Rightarrow> int \<Rightarrow> string \<Rightarrow> string \<Rightarrow> instant \<Rightarrow> days" where
  "applyFix days e d minutes by' reason now =
     (case days (e, d) of
        None \<Rightarrow> days((e, d) \<mapsto>
          \<lparr>ad_state = DS_WORKED, ad_calendar = WORKDAY, ad_shiftId = None, ad_firstIn = None,
           ad_lastOut = None, ad_worked = minutes, ad_late = 0, ad_early = 0, ad_over = 0,
           ad_punchCount = 0, ad_unsynced = False, ad_measured = Some 0, ad_adjustedById = Some by',
           ad_adjustReason = Some reason, ad_adjustedAt = Some now\<rparr>)
      | Some held \<Rightarrow> days((e, d) \<mapsto> fixedDay minutes by' reason now held))"

subsection \<open>Lemmas\<close>

lemma dayOf_who [simp]:
  "dr_employeeId (dayOf off e d m sh f) = e" "dr_date (dayOf off e d m sh f) = d"
  by (simp_all add: dayOf_def Let_def split: option.splits)

lemma owedPart_halves:
  "sc_startMinutes (owedPart sh (Some AFTERNOON)) = sc_startMinutes sh"
  "sc_endMinutes (owedPart sh (Some AFTERNOON)) = sc_startMinutes (owedPart sh (Some MORNING))"
  "sc_endMinutes (owedPart sh (Some MORNING)) = sc_endMinutes sh"
  by (simp_all add: owedPart_def Let_def)

lemma sort_mem [simp]: "set (punchesOf off ps d only) =
   {p \<in> set ps. fst (dayWindow off d) \<le> pu_ts p \<and> pu_ts p < snd (dayWindow off d) \<and> COUNTED_PUNCH p
      \<and> (case only of None \<Rightarrow> True | Some e \<Rightarrow> pu_employeeId p = e)}"
  by (auto simp: punchesOf_def split_beta)

text \<open>What \<open>seen\<close> holds for a person: first, last, count and flag of their punches in the list.\<close>

definition marksOf :: "AttendanceRecord list \<Rightarrow> Marks option" where
  "marksOf ps =
     (if ps = [] then None
      else Some \<lparr>mk_first = pu_ts (hd ps), mk_last = pu_ts (last ps), mk_count = length ps,
                 mk_unsynced = (\<exists>p \<in> set ps. pu_clockUnsynced p)\<rparr>)"

lemma seenLoop_append: "seenLoop (xs @ ys) m = seenLoop ys (seenLoop xs m)"
  by (induction xs arbitrary: m) simp_all

lemma seenLoop_marks: "seenLoop ps Map.empty e = marksOf (filter (\<lambda>p. pu_employeeId p = e) ps)"
proof (induction ps rule: rev_induct)
  case Nil
  then show ?case by (simp add: marksOf_def)
next
  case (snoc p ps)
  show ?case
  proof (cases "pu_employeeId p = e")
    case True
    with snoc show ?thesis
      by (cases "filter (\<lambda>p. pu_employeeId p = e) ps = []") (auto simp: seenLoop_append marksOf_def)
  next
    case False
    with snoc show ?thesis by (simp add: seenLoop_append)
  qed
qed

lemma sorted_hd_last:
  assumes "sorted (map f xs)" "x \<in> set xs"
  shows "f (hd xs) \<le> f x" "f x \<le> f (last xs)"
  using assms
proof (induction xs)
  case (Cons y ys)
  {
    case 1
    with Cons show ?case by auto
  next
    case 2
    with Cons show ?case by (cases ys) (auto intro: order_trans)
  }
qed simp_all

lemma sort_key_ends:
  fixes f :: "'a \<Rightarrow> 'b::linorder"
  assumes "xs \<noteq> []"
  shows "f (hd (sort_key f xs)) = Min (f ` set xs)" "f (last (sort_key f xs)) = Max (f ` set xs)"
proof -
  have ne: "sort_key f xs \<noteq> []" using assms by (metis length_0_conv length_sort)
  have "sorted (map f (sort_key f xs))" by simp
  note ends = sorted_hd_last [OF this]
  have "hd (sort_key f xs) \<in> set xs" "last (sort_key f xs) \<in> set xs"
    using hd_in_set [OF ne] last_in_set [OF ne] by simp_all
  with ends show "f (hd (sort_key f xs)) = Min (f ` set xs)" "f (last (sort_key f xs)) = Max (f ` set xs)"
    by (auto intro!: Min_eqI [symmetric] Max_eqI [symmetric])
qed

text \<open>The upserts of one day: what each key holds afterwards.\<close>

definition upsertedOver :: "AttendanceDay option \<Rightarrow> DayRow \<Rightarrow> AttendanceDay" where
  "upsertedOver held r =
     (case held of
        None \<Rightarrow> freshDay r
      | Some h \<Rightarrow> if ad_adjustedById h = None
                 then (freshDay r)\<lparr>ad_adjustedById := ad_adjustedById h, ad_adjustReason := ad_adjustReason h,
                                   ad_adjustedAt := ad_adjustedAt h\<rparr> else h)"

lemma sameColumns_fresh:
  "sameColumns h n \<Longrightarrow> h = n\<lparr>ad_adjustedById := ad_adjustedById h, ad_adjustReason := ad_adjustReason h,
     ad_adjustedAt := ad_adjustedAt h\<rparr>"
  by (cases h; cases n) (simp add: sameColumns_def)

lemma freshDay_adjusted [simp]: "ad_adjustedById (freshDay r) = None"
  by (simp add: freshDay_def Let_def)

lemma upsertDay_at:
  "upsertDay d days r k =
     (if k = (dr_employeeId r, d) then Some (upsertedOver (days k) r) else days k)"
proof (cases "k = (dr_employeeId r, d)")
  case True
  show ?thesis
  proof (cases "days k")
    case None
    with True show ?thesis by (simp add: upsertDay_def Let_def upsertedOver_def)
  next
    case (Some h)
    with True sameColumns_fresh [of h "freshDay r"] show ?thesis
      by (auto simp: upsertDay_def Let_def upsertedOver_def)
  qed
next
  case False
  then show ?thesis by (auto simp: upsertDay_def Let_def split: option.splits)
qed

lemma upserts_at:
  assumes "distinct (map dr_employeeId rows)"
  shows "foldl (upsertDay d) days rows k =
     (case find (\<lambda>r. (dr_employeeId r, d) = k) rows of
        None \<Rightarrow> days k | Some r \<Rightarrow> Some (upsertedOver (days k) r))"
  using assms
proof (induction rows rule: rev_induct)
  case Nil
  then show ?case by simp
next
  case (snoc r rows)
  show ?case
  proof (cases "k = (dr_employeeId r, d)")
    case True
    with snoc.prems have "find (\<lambda>r. (dr_employeeId r, d) = k) rows = None"
      by (auto simp: find_isNone image_iff)
    with True snoc show ?thesis by (simp add: upsertDay_at find_append)
  next
    case False
    with snoc show ?thesis by (auto simp: upsertDay_at find_append split: option.splits)
  qed
qed

lemma staffOn_distinct:
  "distinct (map em_id employees) \<Longrightarrow> distinct (map em_id (staffOn employees d only entityIds))"
  by (simp add: staffOn_def distinct_map inj_on_def)

lemma rowsOf_ids: "map dr_employeeId (rowsOf off db d only ents) = map em_id (staffOn (ts_employees db) d only ents)"
  by (simp add: rowsOf_def Let_def comp_def)

lemma rowsOf_known: "r \<in> set (rowsOf off db d only ents) \<Longrightarrow> dr_employeeId r \<in> em_id ` set (ts_employees db)"
  by (auto simp: rowsOf_def Let_def staffOn_def)

lemma build_days:
  assumes "distinct (map em_id (ts_employees db))"
  shows "ts_days (snd (build off today db d only ents)) k =
     (if d < today
      then case find (\<lambda>r. (dr_employeeId r, d) = k) (rowsOf off db d only ents) of
             None \<Rightarrow> ts_days db k | Some r \<Rightarrow> Some (upsertedOver (ts_days db k) r)
      else ts_days db k)"
proof -
  have all: "filter (\<lambda>r. dr_employeeId r \<in> em_id ` set (ts_employees db)) (rowsOf off db d only ents)
      = rowsOf off db d only ents"
    by (rule filter_True) (simp add: rowsOf_known)
  have "distinct (map dr_employeeId (rowsOf off db d only ents))"
    by (simp add: rowsOf_ids staffOn_distinct assms)
  from upserts_at [OF this] show ?thesis
    by (simp add: build_def writeDays_def all Let_def)
qed

lemma build_reads [simp]:
  "ts_employees (snd (build off today db d only ents)) = ts_employees db"
  "rowsOf off (snd (build off today db d only ents)) = rowsOf off db"
  by (simp_all add: build_def rowsOf_def [abs_def] Let_def)

lemma fst_build: "fst (build off today db d only ents) = (if d \<ge> today then 0 else length (rowsOf off db d only ents))"
  by (simp add: build_def Let_def)

lemma upsertedOver_twice [simp]: "upsertedOver (Some (upsertedOver h r)) r = upsertedOver h r"
  by (cases h) (simp_all add: upsertedOver_def)

lemma build_adjusted:
  assumes "distinct (map em_id (ts_employees db))" "ts_days db k = Some r" "ad_adjustedById r \<noteq> None"
  shows "ts_days (snd (build off today db d only ents)) k = Some r"
  using assms by (auto simp: build_days upsertedOver_def split: option.splits)

lemma buildLoop_inv:
  assumes "P db" and step: "\<And>db d. P db \<Longrightarrow> d \<in> set ds \<Longrightarrow> P (snd (build off today db d None ents))"
  shows "P (snd (buildLoop off today ents ds (rep, db)))"
  using assms
proof (induction ds arbitrary: rep db)
  case (Cons d ds)
  have "P (snd (build off today db d None ents))" using Cons.prems by simp
  with Cons show ?case by (simp add: split_beta)
qed simp

subsection \<open>Properties\<close>

text \<open>C35: a build never overwrites a hand. A day row somebody corrected, or an approved correction
  request fixed, is the same row after any job the queue runs.\<close>

theorem build_keeps_corrections:
  assumes "distinct (map em_id (ts_employees db))" "ts_days db k = Some r" "ad_adjustedById r \<noteq> None"
  shows "ts_days (snd (runJob off today db job)) k = Some r"
proof -
  let ?P = "\<lambda>db. distinct (map em_id (ts_employees db)) \<and> ts_days db k = Some r"
  have "?P (snd (buildRange off today db f t ents))" for f t ents
    unfolding buildRange_def by (rule buildLoop_inv) (use assms in \<open>auto simp: build_adjusted\<close>)
  with assms show ?thesis
    by (auto simp: runJob_def split_beta build_adjusted split: TimesheetJob.split)
qed

text \<open>Building a day again from the same punches, staff, calendar and requests changes nothing, so
  a redelivered job is harmless; a day that has not finished is never written.\<close>

theorem build_idempotent:
  assumes "distinct (map em_id (ts_employees db))"
  shows "let db' = snd (build off today db d only ents) in
    ts_days (snd (build off today db' d only ents)) = ts_days db'
    \<and> fst (build off today db' d only ents) = fst (build off today db d only ents)
    \<and> (d \<ge> today \<longrightarrow> db' = db)
    \<and> (\<forall>k. snd k \<noteq> d \<longrightarrow> ts_days db' k = ts_days db k)"
proof -
  let ?b = "build off today db d only ents"
  have "ts_days (snd (build off today (snd ?b) d only ents)) k = ts_days (snd ?b) k" for k
    using assms by (auto simp: build_days split: option.splits)
  moreover have "fst (build off today (snd ?b) d only ents) = fst ?b"
    by (simp add: fst_build)
  moreover have "ts_days (snd ?b) k = ts_days db k" if "snd k \<noteq> d" for k
    using assms that by (auto simp: build_days find_Some_iff split: option.splits)
  ultimately show ?thesis by (auto simp: Let_def build_def)
qed

definition sampleDb :: TimesheetDb where
  "sampleDb =
     \<lparr>ts_punches = [\<lparr>pu_deviceId = ''K1'', pu_localId = ''1'', pu_employeeId = 7, pu_ts = 1727976600000,
        pu_receivedAt = None, pu_clockUnsynced = False, pu_questionable = False, pu_hold = None,
        pu_review = None, pu_reviewedById = None, pu_reviewedAt = None, pu_reviewNote = None\<rparr>],
      ts_employees = [\<lparr>em_id = 7, em_legalEntityId = ''A'', em_managerId = None, em_active = True,
        em_hireDate = None, em_leaveDate = None, em_departmentId = None, em_bankName = None, em_bankAccount = None\<rparr>],
      ts_holidays = [], ts_requests = [], ts_assignments = [],
      ts_days = [(7, 20000) \<mapsto>
        \<lparr>ad_state = DS_WORKED, ad_calendar = WORKDAY, ad_shiftId = None, ad_firstIn = None,
         ad_lastOut = None, ad_worked = 480, ad_late = 0, ad_early = 0, ad_over = 0, ad_punchCount = 0,
         ad_unsynced = False, ad_measured = Some 0, ad_adjustedById = Some ''hr'',
         ad_adjustReason = Some ''forgot'', ad_adjustedAt = Some 0\<rparr>]\<rparr>"

theorem build_keeps_corrections_witness:
  "ts_days (snd (runJob (\<lambda>_. 420) 20001 sampleDb NightlyJob)) (7, 20000) = ts_days sampleDb (7, 20000)"
proof -
  have "distinct (map em_id (ts_employees sampleDb))" by (simp add: sampleDb_def)
  from build_keeps_corrections [OF this, of "(7, 20000)"] show ?thesis by (simp add: sampleDb_def)
qed

theorem build_idempotent_witness:
  "ts_days (snd (build (\<lambda>_. 420) 20001 (snd (build (\<lambda>_. 420) 20001 sampleDb 19999 None None)) 19999 None None))
   = ts_days (snd (build (\<lambda>_. 420) 20001 sampleDb 19999 None None))"
proof -
  have "distinct (map em_id (ts_employees sampleDb))" by (simp add: sampleDb_def)
  from build_idempotent [OF this] show ?thesis by (simp add: Let_def)
qed

text \<open>What one day's punches make of a person's row: only counted punches inside the local day
  are folded; the row keeps the earliest as arrival, the latest as departure, their number, and an
  unsynced mark if any carried it; with none there is no mark at all.\<close>

theorem marks_of_the_day:
  "seenLoop (punchesOf off ps d None) Map.empty e =
     (let mine = filter (\<lambda>p. pu_employeeId p = e \<and> COUNTED_PUNCH p
                   \<and> fst (dayWindow off d) \<le> pu_ts p \<and> pu_ts p < snd (dayWindow off d)) ps
      in if mine = [] then None
         else Some \<lparr>mk_first = Min (pu_ts ` set mine), mk_last = Max (pu_ts ` set mine),
                    mk_count = length mine, mk_unsynced = (\<exists>p \<in> set mine. pu_clockUnsynced p)\<rparr>)"
proof -
  let ?read = "filter (\<lambda>p. fst (dayWindow off d) \<le> pu_ts p \<and> pu_ts p < snd (dayWindow off d)
    \<and> COUNTED_PUNCH p) ps"
  let ?mine = "filter (\<lambda>p. pu_employeeId p = e \<and> COUNTED_PUNCH p
    \<and> fst (dayWindow off d) \<le> pu_ts p \<and> pu_ts p < snd (dayWindow off d)) ps"
  let ?own = "sort_key pu_ts ?mine"
  have "filter (\<lambda>p. pu_employeeId p = e) (punchesOf off ps d None) = ?own"
    by (simp add: punchesOf_def split_beta filter_sort conj_commute conj_left_commute)
  then have seen: "seenLoop (punchesOf off ps d None) Map.empty e = marksOf ?own"
    by (simp add: seenLoop_marks)
  have "?own = [] \<longleftrightarrow> ?mine = []" by (simp only: length_0_conv [symmetric] length_sort)
  moreover note sort_key_ends [of ?mine pu_ts]
  ultimately show ?thesis unfolding seen by (simp add: marksOf_def Let_def)
qed

text \<open>The state of a built day: a person seen has worked it, whatever the calendar; unseen, the
  calendar decides before any leave does, so a holiday or weekend spends nobody's leave, and absence
  is left for a working day that neither leave nor an off-site request covers. On a day off every
  minute is overtime and nobody is late; a working day's overtime starts at the end of the shift.\<close>

theorem dayOf_rules:
  "let r = dayOf off e d marks sh f in
     (dr_state r = DS_WORKED \<longleftrightarrow> marks \<noteq> None \<or> df_calendar f = WORKDAY \<and> \<not> df_leave f \<and> df_offSite f)
     \<and> (dr_state r = DS_LEAVE \<longleftrightarrow> marks = None \<and> df_calendar f = WORKDAY \<and> df_leave f)
     \<and> (dr_state r = DS_ABSENT \<longleftrightarrow>
          marks = None \<and> df_calendar f = WORKDAY \<and> \<not> df_leave f \<and> \<not> df_offSite f)
     \<and> ad_over (freshDay r) = (if marks = None then 0
          else if df_calendar f \<noteq> WORKDAY then ad_worked (freshDay r)
          else case sh of None \<Rightarrow> 0
               | Some s \<Rightarrow> max 0 (minutesIntoDay off (mk_last (the marks)) - sc_endMinutes s))
     \<and> (df_calendar f \<noteq> WORKDAY \<or> sh = None \<or> marks = None
          \<longrightarrow> ad_late (freshDay r) = 0 \<and> ad_early (freshDay r) = 0)
     \<and> 0 \<le> ad_worked (freshDay r) \<and> 0 \<le> ad_late (freshDay r) \<and> 0 \<le> ad_early (freshDay r)
     \<and> 0 \<le> ad_over (freshDay r)"
  by (cases marks; cases sh; cases "df_calendar f")
    (auto simp: dayOf_def stateUnseen_def freshDay_def Let_def)

theorem dayOf_rules_witness:
  "ad_late (freshDay (dayOf (\<lambda>_. 0) 1 2 None None
     \<lparr>df_calendar = WEEKEND, df_leave = False, df_offSite = False, df_halfOff = None\<rparr>)) = 0"
  using dayOf_rules [of "\<lambda>_. 0" 1 2 None None
     "\<lparr>df_calendar = WEEKEND, df_leave = False, df_offSite = False, df_halfOff = None\<rparr>"]
  by (simp add: Let_def)

text \<open>Half a day of approved leave only ever shortens what is owed: the two owed halves meet at
  one midpoint and make up the shift, neither late nor early minutes grow, worked and overtime
  minutes stay.\<close>

theorem half_leave_helps:
  assumes "sc_startMinutes sh \<le> sc_endMinutes sh"
  shows "let whole = freshDay (dayOf off e d (Some m) (Some sh) (f\<lparr>df_halfOff := None\<rparr>));
             half = freshDay (dayOf off e d (Some m) (Some sh) (f\<lparr>df_halfOff := Some part\<rparr>)) in
    ad_late half \<le> ad_late whole \<and> ad_early half \<le> ad_early whole
    \<and> ad_worked half = ad_worked whole \<and> ad_over half = ad_over whole
    \<and> sc_endMinutes (owedPart sh (Some AFTERNOON)) = sc_startMinutes (owedPart sh (Some MORNING))
    \<and> sc_startMinutes sh \<le> sc_endMinutes (owedPart sh (Some AFTERNOON))
    \<and> sc_startMinutes (owedPart sh (Some MORNING)) \<le> sc_endMinutes sh"
proof -
  have mid: "0 \<le> (sc_endMinutes sh - sc_startMinutes sh) div 2"
    "(sc_endMinutes sh - sc_startMinutes sh) div 2 \<le> sc_endMinutes sh - sc_startMinutes sh"
    using assms by auto
  then show ?thesis
    by (cases part) (auto simp: dayOf_def freshDay_def owedPart_def Let_def)
qed

theorem half_leave_helps_witness:
  "ad_late (freshDay (dayOf (\<lambda>_. 0) 1 0 (Some \<lparr>mk_first = 46800000, mk_last = 61200000, mk_count = 2, mk_unsynced = False\<rparr>)
     (Some \<lparr>sc_shiftId = ''S'', sc_startMinutes = 480, sc_endMinutes = 1020, sc_graceMinutes = 5\<rparr>)
     \<lparr>df_calendar = WORKDAY, df_leave = False, df_offSite = False, df_halfOff = Some MORNING\<rparr>)) \<le> 295"
proof -
  let ?m = "\<lparr>mk_first = 46800000, mk_last = 61200000, mk_count = 2, mk_unsynced = False\<rparr>"
  let ?sh = "\<lparr>sc_shiftId = ''S'', sc_startMinutes = 480, sc_endMinutes = 1020, sc_graceMinutes = 5\<rparr>"
  let ?f = "\<lparr>df_calendar = WORKDAY, df_leave = False, df_offSite = False, df_halfOff = None\<rparr>"
  have "ad_late (freshDay (dayOf (\<lambda>_. 0) 1 0 (Some ?m) (Some ?sh) ?f)) = 295"
    by (simp add: dayOf_def freshDay_def owedPart_def minutesIntoDay_def msPerDay_def Let_def)
  moreover have "ad_late (freshDay (dayOf (\<lambda>_. 0) 1 0 (Some ?m) (Some ?sh) (?f\<lparr>df_halfOff := Some MORNING\<rparr>)))
      \<le> ad_late (freshDay (dayOf (\<lambda>_. 0) 1 0 (Some ?m) (Some ?sh) (?f\<lparr>df_halfOff := None\<rparr>)))"
    using half_leave_helps [of ?sh "\<lambda>_. 0" 1 0 ?m ?f MORNING] by (simp only: Let_def) simp
  ultimately show ?thesis by simp
qed

text \<open>Approving after the build gives what building after the approval would: the row of a day
  nobody was seen on, marked, is the row \<open>dayOf\<close> makes with the leave, or with the off-site work;
  a weekend or holiday stays what it was.\<close>

theorem markApproved_as_rebuild:
  "let facts = (\<lambda>leave offSite. \<lparr>df_calendar = cal, df_leave = leave, df_offSite = offSite, df_halfOff = None\<rparr>);
       row = (\<lambda>leave offSite. freshDay (dayOf off e d None sh (facts leave offSite)));
       built = days((e, d) \<mapsto> row False False) in
     markApproved built e (d - int a) (d + int b) DS_LEAVE (e, d) = Some (row True False)
     \<and> markApproved built e (d - int a) (d + int b) DS_WORKED (e, d) = Some (row False True)"
  by (cases cal)
    (simp_all add: markApproved_def markable_def dayOf_def stateUnseen_def freshDay_def Let_def)

datatype Hand = HandCorrection string instant CorrectDayDto | HandFix int string string instant

definition applyHand :: "AttendanceDay \<Rightarrow> Hand \<Rightarrow> AttendanceDay" where
  "applyHand row h =
     (case h of
        HandCorrection by' now body \<Rightarrow> correctedDay by' now body row
      | HandFix minutes by' reason now \<Rightarrow> fixedDay minutes by' reason now row)"

lemma applyHand_keeps:
  "ad_measured (applyHand row h) = Some (orElse (ad_measured row) (ad_worked row))"
  "ad_firstIn (applyHand row h) = ad_firstIn row" "ad_lastOut (applyHand row h) = ad_lastOut row"
  "ad_punchCount (applyHand row h) = ad_punchCount row" "\<exists>y. ad_adjustedById (applyHand row h) = Some y"
  by (cases h; simp add: applyHand_def correctedDay_def fixedDay_def)+

text \<open>However many corrections and approved fixes land on a day, what the device measured is
  kept: \<open>measuredMinutes\<close> is the figure held before the first of them, the punches and their times
  stay, and the row names a corrector.\<close>

theorem corrections_keep_measured:
  "let r = foldl applyHand row (h # hs) in
     ad_measured r = Some (orElse (ad_measured row) (ad_worked row))
     \<and> ad_firstIn r = ad_firstIn row \<and> ad_lastOut r = ad_lastOut row
     \<and> ad_punchCount r = ad_punchCount row \<and> ad_adjustedById r \<noteq> None"
  by (induction hs rule: rev_induct) (simp_all add: applyHand_keeps Let_def)

text \<open>Who may correct a day: the viewer must reach the day's owner, not be that owner nor a desk
  account without an employee, and say something; the write then touches that row alone.\<close>

theorem correct_guarded:
  "correct people now days v (Some (e, d)) body = Inr (row', days') \<longleftrightarrow>
     (\<exists>row owner. days (e, d) = Some row \<and> find (\<lambda>r. p_id r = e) people = Some owner
        \<and> ownedWhere v (visibleEmployeeIds people v) owner
        \<and> v_employeeId v \<noteq> Some e \<and> \<not> isUnlinkedDesk v
        \<and> \<not> (cd_worked body = None \<and> cd_state body = None)
        \<and> row' = correctedDay (v_userId v) now body row \<and> days' = days((e, d) \<mapsto> row'))"
  by (auto simp: correct_def Let_def split: option.splits)

end
