(* ===== verification/Money.thy ===== *)
theory Money
  imports Prelude
begin

section \<open>Dong arithmetic\<close>

text \<open>
  \<open>backend/src/modules/payroll/money.ts\<close>: a dong amount is a JavaScript BigInt, hence an
  unbounded \<open>int\<close>; BigInt division truncates towards zero and is only used here on non-negative
  operands. \<open>toDong\<close> and \<open>toHundredths\<close> read the string form of a Prisma Decimal.
\<close>

type_synonym dong = int

definition kBasisPointScale :: int where
  "kBasisPointScale = 10000"

definition mulDiv :: "dong \<Rightarrow> int \<Rightarrow> int \<Rightarrow> dong" where
  "mulDiv amount numerator denominator =
     (if denominator = 0 then 0
      else
        let scaled = amount * numerator;
            negative = ((scaled < 0) \<noteq> (denominator < 0));
            top = (if scaled < 0 then - scaled else scaled);
            bottom = (if denominator < 0 then - denominator else denominator);
            rounded = (top * 2 + bottom) div (bottom * 2)
        in if negative then - rounded else rounded)"

definition byBasisPoints :: "dong \<Rightarrow> int \<Rightarrow> dong" where
  "byBasisPoints amount basisPoints = mulDiv amount basisPoints kBasisPointScale"

definition atMost :: "dong \<Rightarrow> dong \<Rightarrow> dong" where
  "atMost amount ceiling = (if amount > ceiling then ceiling else amount)"

definition atLeastZero :: "dong \<Rightarrow> dong" where
  "atLeastZero amount = (if amount > 0 then amount else 0)"

lemma atMost_min: "atMost a c = min a c"
  by (simp add: atMost_def min_def)

lemma atLeastZero_max: "atLeastZero a = max 0 a"
  by (simp add: atLeastZero_def max_def)

subsection \<open>Rounding\<close>

text \<open>
  The specification: \<open>q\<close> is \<open>n / d\<close> rounded to the nearest integer, ties away from zero.
  For a positive \<open>d\<close> this fixes \<open>q\<close>.
\<close>

definition roundedHalfAway :: "int \<Rightarrow> int \<Rightarrow> int \<Rightarrow> bool" where
  "roundedHalfAway n d q \<longleftrightarrow>
     (if n \<ge> 0 then 2 * n - d < 2 * q * d \<and> 2 * q * d \<le> 2 * n + d
      else 2 * n - d \<le> 2 * q * d \<and> 2 * q * d < 2 * n + d)"

lemma half_up_div:
  fixes t b :: int
  assumes "0 < b"
  shows "2 * t - b < 2 * ((t * 2 + b) div (b * 2)) * b"
    and "2 * ((t * 2 + b) div (b * 2)) * b \<le> 2 * t + b"
proof -
  let ?q = "(t * 2 + b) div (b * 2)" and ?r = "(t * 2 + b) mod (b * 2)"
  have "b * 2 * ?q + ?r = t * 2 + b" by simp
  moreover have "0 \<le> ?r" "?r < b * 2" using assms by simp_all
  ultimately show "2 * t - b < 2 * ?q * b" "2 * ?q * b \<le> 2 * t + b"
    by (simp_all add: algebra_simps)
qed

lemma mulDiv_pos:
  assumes "0 < d"
  shows "mulDiv a n d =
    (if a * n < 0 then - ((- (a * n) * 2 + d) div (d * 2)) else (a * n * 2 + d) div (d * 2))"
  using assms by (simp add: mulDiv_def Let_def)

lemma mulDiv_rounded: "0 < d \<Longrightarrow> roundedHalfAway (a * n) d (mulDiv a n d)"
  using half_up_div [of d "a * n"] half_up_div [of d "- (a * n)"]
  by (auto simp: mulDiv_pos roundedHalfAway_def)

lemma roundedHalfAway_unique:
  assumes "0 < d" "roundedHalfAway n d q" "roundedHalfAway n d q'"
  shows "q = q'"
proof -
  have "2 * q * d < 2 * q' * d + 2 * d \<and> 2 * q' * d < 2 * q * d + 2 * d"
    using assms by (auto simp: roundedHalfAway_def split: if_splits)
  then have "2 * d * q < 2 * d * (q' + 1)" "2 * d * q' < 2 * d * (q + 1)"
    by (simp_all add: algebra_simps)
  with assms(1) have "q < q' + 1" "q' < q + 1"
    by (simp_all add: mult_less_cancel_left_pos)
  then show ?thesis by simp
qed

lemma mulDiv_exact: "0 < d \<Longrightarrow> mulDiv (q * d) 1 d = q"
proof -
  assume d: "0 < d"
  have "roundedHalfAway (q * d) d q" using d by (simp add: roundedHalfAway_def)
  moreover have "roundedHalfAway (q * d) d (mulDiv (q * d) 1 d)"
    using mulDiv_rounded [OF d, of "q * d" 1] by simp
  ultimately show ?thesis using roundedHalfAway_unique [OF d] by blast
qed

lemma mulDiv_zero [simp]: "mulDiv 0 n d = 0" "mulDiv a 0 d = 0"
  by (cases "d = 0"; simp add: mulDiv_def Let_def)+

lemma mulDiv_neg: "mulDiv (- a) n d = - mulDiv a n d"
  by (cases "a * n = 0") (auto simp: mulDiv_def Let_def)

lemma mulDiv_mono:
  assumes "0 < d" "a * n \<le> b * m"
  shows "mulDiv a n d \<le> mulDiv b m d"
proof -
  let ?h = "\<lambda>x. (x * 2 + d) div (d * 2)"
  have mono: "?h x \<le> ?h y" if "x \<le> y" for x y
    using that assms(1) by (intro zdiv_mono1) auto
  have nonneg: "0 \<le> ?h x" if "0 \<le> x" for x
    using that assms(1) by (simp add: pos_imp_zdiv_nonneg_iff)
  show ?thesis
    using assms mono [of "a * n" "b * m"] mono [of "- (b * m)" "- (a * n)"]
      nonneg [of "- (a * n)"] nonneg [of "b * m"]
    by (auto simp: mulDiv_pos)
qed

lemma mulDiv_nonneg: "0 < d \<Longrightarrow> 0 \<le> a \<Longrightarrow> 0 \<le> n \<Longrightarrow> 0 \<le> mulDiv a n d"
  using mulDiv_mono [of d 0 n a n] by simp

lemma mulDiv_error:
  "0 < d \<Longrightarrow> \<bar>2 * (mulDiv a n d * d) - 2 * (a * n)\<bar> \<le> d"
  using mulDiv_rounded [of d a n] by (auto simp: roundedHalfAway_def split: if_splits)

lemma byBasisPoints_mono: "a \<le> b \<Longrightarrow> 0 \<le> r \<Longrightarrow> byBasisPoints a r \<le> byBasisPoints b r"
  by (simp add: byBasisPoints_def kBasisPointScale_def mulDiv_mono mult_right_mono)

lemma byBasisPoints_nonneg: "0 \<le> a \<Longrightarrow> 0 \<le> r \<Longrightarrow> 0 \<le> byBasisPoints a r"
  by (simp add: byBasisPoints_def kBasisPointScale_def mulDiv_nonneg)

lemma byBasisPoints_zero [simp]: "byBasisPoints 0 r = 0"
  by (simp add: byBasisPoints_def)

lemma byBasisPoints_le:
  assumes "0 \<le> a" "r \<le> 10000"
  shows "byBasisPoints a r \<le> a"
proof -
  have "byBasisPoints a r \<le> mulDiv (a * 10000) 1 10000"
    unfolding byBasisPoints_def kBasisPointScale_def
    using assms by (intro mulDiv_mono) (simp_all add: mult_left_mono)
  then show ?thesis by (simp add: mulDiv_exact)
qed

text \<open>Twelve equal months against the year they make: each rounding moves at most half a dong.\<close>

lemma byBasisPoints_twelve:
  "\<bar>byBasisPoints (12 * a) r - 12 * byBasisPoints a r\<bar> \<le> 6"
  using mulDiv_error [of 10000 "12 * a" r] mulDiv_error [of 10000 a r]
  by (simp add: byBasisPoints_def kBasisPointScale_def)

subsection \<open>Decimals as text\<close>

text \<open>
  The characters \<open>BigInt\<close> and \<open>Number\<close> read here are those of a Decimal's string form: digits, a
  sign and a dot. \<open>bigInt\<close> is the \<open>BigInt\<close> constructor on them; it throws a SyntaxError on
  anything but an optional sign and digits, and reads the empty text as 0.
\<close>

definition digitVal :: "char \<Rightarrow> int option" where
  "digitVal c = (let n = (of_char c :: nat) in if 48 \<le> n \<and> n \<le> 57 then Some (int n - 48) else None)"

fun readDigits :: "string \<Rightarrow> int \<Rightarrow> int option" where
  "readDigits [] acc = Some acc"
| "readDigits (c # cs) acc =
     (case digitVal c of None \<Rightarrow> None | Some d \<Rightarrow> readDigits cs (acc * 10 + d))"

definition bigInt :: "string \<Rightarrow> int result" where
  "bigInt t =
     (let neg = (t \<noteq> [] \<and> hd t = CHR ''-'');
          signed = (t \<noteq> [] \<and> (hd t = CHR ''-'' \<or> hd t = CHR ''+''));
          body = (if signed then tl t else t)
      in if signed \<and> body = [] then Inl (Unhandled ''SyntaxError'')
         else case readDigits body 0 of
                None \<Rightarrow> Inl (Unhandled ''SyntaxError'')
              | Some v \<Rightarrow> Inr (if neg then - v else v))"

definition wholeOf :: "string \<Rightarrow> string" where
  "wholeOf t = takeWhile (\<lambda>c. c \<noteq> CHR ''.'') t"

definition hasDot :: "string \<Rightarrow> bool" where
  "hasDot t \<longleftrightarrow> CHR ''.'' \<in> set t"

definition fractionOf :: "string \<Rightarrow> string" where
  "fractionOf t = drop 1 (dropWhile (\<lambda>c. c \<noteq> CHR ''.'') t)"

definition orZero :: "string \<Rightarrow> string" where
  "orZero t = (if t = [] then ''0'' else t)"

text \<open>\<open>Number(fraction[0]) < 5\<close>; a character that is no digit reads as NaN, which is not below 5.\<close>

definition firstBelowFive :: "string \<Rightarrow> bool" where
  "firstBelowFive t =
     (case digitVal (hd t) of None \<Rightarrow> False | Some d \<Rightarrow> d < 5)"

definition toDong :: "string option \<Rightarrow> dong result" where
  "toDong value =
     (case value of
        None \<Rightarrow> Inr 0
      | Some text \<Rightarrow>
          let whole = wholeOf text; fraction = fractionOf text
          in bindR (bigInt (orZero whole)) (\<lambda>rounded.
               if fraction = [] \<or> firstBelowFive fraction then Inr rounded
               else Inr (if rounded < 0 then rounded - 1 else rounded + 1)))"

fun dropFirst :: "char \<Rightarrow> string \<Rightarrow> string" where
  "dropFirst c [] = []"
| "dropFirst c (x # xs) = (if x = c then xs else x # dropFirst c xs)"

definition toHundredths :: "string option \<Rightarrow> int result" where
  "toHundredths value =
     (case value of
        None \<Rightarrow> Inr 0
      | Some text \<Rightarrow>
          let whole = wholeOf text;
              fraction = (if hasDot text then take 2 (fractionOf text @ ''00'') else []);
              sign = (if whole \<noteq> [] \<and> hd whole = CHR ''-'' then -1 else 1)
          in bindR (bigInt (orZero (dropFirst (CHR ''-'') whole))) (\<lambda>w.
             bindR (bigInt (orZero fraction)) (\<lambda>f. Inr (sign * (w * 100 + f)))))"

text \<open>
  The other side of the day columns, \<open>daysOf\<close> of \<open>payroll.service.ts\<close>: hundredths written with
  \<open>toFixed(2)\<close>.
\<close>

definition digitChar :: "nat \<Rightarrow> char" where
  "digitChar d = char_of (48 + d)"

fun showNat :: "nat \<Rightarrow> string" where
  "showNat n = (if n < 10 then [digitChar n] else showNat (n div 10) @ [digitChar (n mod 10)])"

declare showNat.simps [simp del]

definition daysOf :: "int \<Rightarrow> string" where
  "daysOf hundredths =
     (let m = nat \<bar>hundredths\<bar>
      in (if hundredths < 0 then ''-'' else []) @ showNat (m div 100) @
         [CHR ''.'', digitChar (m mod 100 div 10), digitChar (m mod 10)])"

lemma digitVal_digitChar [simp]: "d < 10 \<Longrightarrow> digitVal (digitChar d) = Some (int d)"
  by (simp add: digitVal_def digitChar_def Let_def)

lemma digitChar_neq:
  assumes "d < 10"
  shows "digitChar d \<noteq> CHR ''-''" "digitChar d \<noteq> CHR ''+''" "digitChar d \<noteq> CHR ''.''"
proof -
  have "digitVal (CHR ''-'') = None" "digitVal (CHR ''+'') = None" "digitVal (CHR ''.'') = None"
    by (simp_all add: digitVal_def)
  with assms show "digitChar d \<noteq> CHR ''-''" "digitChar d \<noteq> CHR ''+''" "digitChar d \<noteq> CHR ''.''"
    by (metis digitVal_digitChar option.discI)+
qed

lemma readDigits_append:
  "readDigits (xs @ ys) acc =
     (case readDigits xs acc of None \<Rightarrow> None | Some v \<Rightarrow> readDigits ys v)"
  by (induction xs arbitrary: acc) (auto split: option.splits)

lemma showNat_nonempty [simp]: "showNat n \<noteq> []"
  by (subst showNat.simps) simp

lemma showNat_chars: "c \<in> set (showNat n) \<Longrightarrow> \<exists>d < 10. c = digitChar d"
proof (induction n rule: showNat.induct)
  case (1 n)
  show ?case
  proof (cases "n < 10")
    case True
    with "1.prems" show ?thesis by (auto simp: showNat.simps [of n])
  next
    case False
    with "1.prems" consider "c \<in> set (showNat (n div 10))" | "c = digitChar (n mod 10)"
      by (auto simp: showNat.simps [of n])
    then show ?thesis
    proof cases
      case 1
      then show ?thesis by (rule "1.IH" [OF False])
    next
      case 2
      moreover have "n mod 10 < 10" by simp
      ultimately show ?thesis by blast
    qed
  qed
qed

lemma showNat_no_punct [simp]:
  "CHR ''-'' \<notin> set (showNat n)" "CHR ''+'' \<notin> set (showNat n)" "CHR ''.'' \<notin> set (showNat n)"
  using showNat_chars digitChar_neq by metis+

lemma readDigits_showNat: "readDigits (showNat n) 0 = Some (int n)"
proof (induction n rule: showNat.induct)
  case (1 n)
  have "int (n div 10) * 10 + int (n mod 10) = int n"
    by (metis div_mult_mod_eq of_nat_add of_nat_mult of_nat_numeral)
  with 1 show ?case
    by (cases "n < 10") (simp_all add: showNat.simps [of n] readDigits_append)
qed

lemma hd_showNat_sign:
  "hd (showNat n) \<noteq> CHR ''-''" "hd (showNat n) \<noteq> CHR ''+''"
  using hd_in_set [OF showNat_nonempty, of n] showNat_no_punct [of n] by metis+

lemma bigInt_showNat [simp]: "bigInt (showNat n) = Inr (int n)"
  using hd_showNat_sign [of n] by (simp add: bigInt_def readDigits_showNat)

lemma bigInt_two:
  assumes "a < 10" "b < 10"
  shows "bigInt [digitChar a, digitChar b] = Inr (int (a * 10 + b))"
  using digitChar_neq [OF assms(1)] assms by (simp add: bigInt_def)

lemma dropFirst_absent: "c \<notin> set xs \<Longrightarrow> dropFirst c xs = xs"
  by (induction xs) auto

lemma takeWhile_upto: "x \<notin> set xs \<Longrightarrow> takeWhile (\<lambda>c. c \<noteq> x) (xs @ x # ys) = xs"
  by (induction xs) auto

lemma dropWhile_upto: "x \<notin> set xs \<Longrightarrow> dropWhile (\<lambda>c. c \<noteq> x) (xs @ x # ys) = x # ys"
  by (induction xs) auto

text \<open>The parts of a decimal \<open>sign whole . d1 d2\<close>, as both readers split it.\<close>

lemma split_decimal:
  assumes "CHR ''.'' \<notin> set w"
  shows "wholeOf (w @ CHR ''.'' # f) = w" "fractionOf (w @ CHR ''.'' # f) = f"
    "hasDot (w @ CHR ''.'' # f)"
  using assms by (simp_all add: wholeOf_def fractionOf_def hasDot_def takeWhile_upto dropWhile_upto)

lemma toHundredths_daysOf: "toHundredths (Some (daysOf h)) = Inr h"
proof -
  define m where "m = nat \<bar>h\<bar>"
  define w where "w = (if h < 0 then ''-'' else []) @ showNat (m div 100)"
  have form: "daysOf h = w @ CHR ''.'' # [digitChar (m mod 100 div 10), digitChar (m mod 10)]"
    by (simp add: daysOf_def Let_def w_def m_def)
  have dot: "CHR ''.'' \<notin> set w" by (simp add: w_def)
  have digits: "m mod 100 div 10 < 10" "m mod 10 < 10" by simp_all
  have total: "int (m div 100) * 100 + int (m mod 100 div 10 * 10 + m mod 10) = int m"
  proof -
    have "m mod 10 = m mod 100 mod 10" by (simp add: mod_mod_cancel)
    then have "m mod 100 div 10 * 10 + m mod 10 = m mod 100"
      by (simp only: div_mult_mod_eq)
    then show ?thesis
      by (metis div_mult_mod_eq of_nat_add of_nat_mult of_nat_numeral)
  qed
  have sgn: "(w \<noteq> [] \<and> hd w = CHR ''-'') = (h < 0)"
    using hd_showNat_sign [of "m div 100"] by (simp add: w_def)
  have "dropFirst (CHR ''-'') w = showNat (m div 100)"
    by (simp add: w_def dropFirst_absent)
  then have b1: "bigInt (orZero (dropFirst (CHR ''-'') w)) = Inr (int (m div 100))"
    by (simp add: orZero_def)
  have b2: "bigInt (orZero [digitChar (m mod 100 div 10), digitChar (m mod 10)])
      = Inr (int (m mod 100 div 10 * 10 + m mod 10))"
    using bigInt_two [OF digits] by (simp add: orZero_def)
  have "toHundredths (Some (daysOf h)) = Inr ((if h < 0 then -1 else 1) * int m)"
    by (simp only: form toHundredths_def option.case Let_def split_decimal [OF dot] if_True sgn
        append_Cons append_Nil take_Suc_Cons take_0 numeral_2_eq_2 b1 b2 bindR_simps total)
  then show ?thesis by (simp add: m_def)
qed

interpretation dayText: codec daysOf "\<lambda>t. toHundredths (Some t)" "\<lambda>_. True"
  by unfold_locales (rule toHundredths_daysOf)

subsection \<open>Properties\<close>

lemma bigInt_signed:
  "bigInt ((if b then ''-'' else []) @ showNat n) = Inr (if b then - int n else int n)"
  using hd_showNat_sign [of n] by (simp add: bigInt_def readDigits_showNat)

lemma rounded_by_parts:
  fixes m :: nat
  shows "mulDiv (int m) 1 100 = int (m div 100) + (if m mod 100 div 10 < 5 then 0 else 1)"
proof -
  let ?q = "int (m div 100) + (if m mod 100 div 10 < 5 then 0 else 1)"
  have m: "int m = 100 * int (m div 100) + int (m mod 100)" "m mod 100 < 100"
    by (metis mult_div_mod_eq of_nat_add of_nat_mult of_nat_numeral) simp
  have "m mod 100 div 10 < 5 \<longleftrightarrow> m mod 100 < 50"
    by (simp add: div_less_iff_less_mult)
  with m have "roundedHalfAway (int m * 1) 100 ?q"
    by (auto simp: roundedHalfAway_def)
  then show ?thesis
    using mulDiv_rounded [of 100 "int m" 1] roundedHalfAway_unique [of 100] by simp
qed

text \<open>\<open>mulDiv\<close> is the exact quotient rounded to the nearest integer, ties away from zero,
  for a positive denominator, and 0 for a zero denominator.\<close>

theorem mulDiv_correct:
  "mulDiv a n 0 = 0 \<and> (\<forall>d > 0. roundedHalfAway (a * n) d q \<longleftrightarrow> mulDiv a n d = q)"
proof -
  have "mulDiv a n 0 = 0" by (simp add: mulDiv_def)
  then show ?thesis using mulDiv_rounded [of _ a n] roundedHalfAway_unique by blast
qed

theorem mulDiv_correct_witness:
  "mulDiv 5 1 2 = 3 \<and> mulDiv (-5) 1 2 = -3 \<and> mulDiv 5 1 0 = 0"
  using mulDiv_correct [THEN conjunct2, rule_format, of 2 5 1 3]
    mulDiv_correct [THEN conjunct2, rule_format, of 2 "-5" 1 "-3"]
    mulDiv_correct [THEN conjunct1, of 5 1]
  by (simp add: roundedHalfAway_def)

text \<open>A day count written to a payslip's day column is read back exactly, sign and halves kept.\<close>

theorem day_count_roundtrip: "toHundredths (Some (daysOf h)) = Inr h"
  by (rule dayText.dec_enc) simp

text \<open>Reading a decimal amount with two places rounds it half away from zero, except
  between -0.99 and -0.50, where the whole part reads as 0 and loses its sign: those amounts
  come out as plus one dong.\<close>

theorem toDong_rounds:
  "toDong (Some (daysOf h)) =
     Inr (if -100 < h \<and> h \<le> -50 then 1 else mulDiv h 1 100)"
proof -
  define m where "m = nat \<bar>h\<bar>"
  define w where "w = (if h < 0 then ''-'' else []) @ showNat (m div 100)"
  have form: "daysOf h = w @ CHR ''.'' # [digitChar (m mod 100 div 10), digitChar (m mod 10)]"
    by (simp add: daysOf_def Let_def w_def m_def)
  have dot: "CHR ''.'' \<notin> set w" by (simp add: w_def)
  have below: "firstBelowFive [digitChar (m mod 100 div 10), digitChar (m mod 10)]
      = (m mod 100 div 10 < 5)"
    by (simp add: firstBelowFive_def)
  have whole: "bigInt (orZero w) = Inr (if h < 0 then - int (m div 100) else int (m div 100))"
    using bigInt_signed [of "h < 0" "m div 100"] by (simp add: orZero_def w_def)
  have sgn: "mulDiv h 1 100 = (if h < 0 then - mulDiv (int m) 1 100 else mulDiv (int m) 1 100)"
    using mulDiv_neg [of "int m" 1 100] by (cases "h < 0") (simp_all add: m_def)
  have small: "- 100 < h \<and> h \<le> - 50 \<longleftrightarrow> h < 0 \<and> m div 100 = 0 \<and> \<not> m mod 100 div 10 < 5"
    by (auto simp: m_def div_eq_0_iff div_less_iff_less_mult)
  show ?thesis
    unfolding toDong_def form option.case Let_def split_decimal [OF dot] whole bindR_simps below
      small sgn rounded_by_parts
    by auto
qed

subsection \<open>Parts of a text\<close>

text \<open>\<open>t.split(c)\<close> for a separator of one character.\<close>

fun splitOn :: "char \<Rightarrow> string \<Rightarrow> string list" where
  "splitOn c [] = [[]]"
| "splitOn c (x # xs) = (if x = c then [] # splitOn c xs else (x # hd (splitOn c xs)) # tl (splitOn c xs))"

lemma splitOn_nonempty [simp]: "splitOn c t \<noteq> []"
  by (cases t) auto

lemma splitOn_part: "c \<notin> set t \<Longrightarrow> splitOn c t = [t]"
  by (induction t) auto

lemma splitOn_join: "c \<notin> set t \<Longrightarrow> splitOn c (t @ c # ts) = t # splitOn c ts"
  by (induction t) auto

end
