(* ===== verification/LeaveYear.thy ===== *)
theory LeaveYear
  imports Records Money
begin

section \<open>Leave balances and the turn of the year\<close>

text \<open>
  \<open>backend/src/modules/leave/leave-year.service.ts\<close> and the balance arithmetic of
  \<open>leave.service.ts\<close>. A balance row belongs to (employee, leave type, year); its counts are tenths of
  a day, the scale of the \<open>Decimal(5,1)\<close> columns. The set-based statements act on every row of the
  table at once, so they are functions on the map; the row counts they return only feed a log line
  and, for one key, the \<open>created === 1\<close> test.
\<close>

record LeaveType =
  lt_paid :: bool
  lt_daysPerYear :: int
  lt_carryOverMax :: int
  lt_calendarDays :: bool
  lt_active :: bool

record LeaveBalance =
  lb_entitled :: int
  lb_carriedOver :: int
  lb_taken :: int
  lb_pending :: int
  lb_carriedOut :: int
  lb_closed :: bool

type_synonym balkey = "int \<times> string \<times> int"
type_synonym balances = "balkey \<rightharpoonup> LeaveBalance"
type_synonym types = "string \<rightharpoonup> LeaveType"

definition freeDays :: "LeaveBalance \<Rightarrow> int" where
  "freeDays b = lb_entitled b + lb_carriedOver b - lb_taken b - lb_pending b - lb_carriedOut b"

definition employeeOf :: "Employee list \<Rightarrow> int \<Rightarrow> Employee option" where
  "employeeOf es e = find (\<lambda>r. em_id r = e) es"

text \<open>The entitlement of a full year, prorated from the hire date in the hire year, rounded to half days:
  \<open>round(d * left / whole * 2) / 2\<close> on \<open>d\<close> tenths.\<close>

definition entitledIn :: "int \<Rightarrow> day option \<Rightarrow> int \<Rightarrow> int" where
  "entitledIn year hire daysPerYear =
     (case hire of
        None \<Rightarrow> daysPerYear
      | Some h \<Rightarrow>
          if h < dayFromYear year then daysPerYear
          else if h \<ge> dayFromYear (year + 1) then 0
          else 5 * mulDiv daysPerYear (2 * (dayFromYear (year + 1) - h))
                     (10 * (dayFromYear (year + 1) - dayFromYear year)))"

definition openingRow :: "int \<Rightarrow> Employee \<Rightarrow> LeaveType \<Rightarrow> LeaveBalance" where
  "openingRow year e t =
     \<lparr>lb_entitled = entitledIn year (em_hireDate e) (lt_daysPerYear t), lb_carriedOver = 0, lb_taken = 0,
      lb_pending = 0, lb_carriedOut = 0, lb_closed = False\<rparr>"

definition rowsFor :: "Employee list \<Rightarrow> types \<Rightarrow> int \<Rightarrow> (int \<times> string) option \<Rightarrow> balances \<Rightarrow> balances" where
  "rowsFor es types year key b =
     (\<lambda>(e, t, y).
        case b (e, t, y) of
          Some r \<Rightarrow> Some r
        | None \<Rightarrow>
            if y \<noteq> year then None
            else case (employeeOf es e, types t) of
                   (Some em, Some ty) \<Rightarrow>
                     if (case key of
                           Some k \<Rightarrow> k = (e, t)
                         | None \<Rightarrow> lt_active ty \<and>
                             (em_active em \<or> (case em_leaveDate em of None \<Rightarrow> False | Some l \<Rightarrow> dayFromYear year \<le> l)))
                     then Some (openingRow year em ty) else None
                 | _ \<Rightarrow> None)"

definition rowCreated :: "Employee list \<Rightarrow> types \<Rightarrow> int \<Rightarrow> int \<times> string \<Rightarrow> balances \<Rightarrow> bool" where
  "rowCreated es types year key b \<longleftrightarrow>
     b (fst key, snd key, year) = None \<and> employeeOf es (fst key) \<noteq> None \<and> types (snd key) \<noteq> None"

text \<open>A closing year's row: what the \<open>closed\<close> statement selects, and what it carries out.\<close>

definition closing :: "types \<Rightarrow> int \<Rightarrow> (int \<times> string) option \<Rightarrow> balances \<Rightarrow> int \<times> string \<Rightarrow> LeaveBalance option" where
  "closing types year key b k =
     (case b (fst k, snd k, year - 1) of
        None \<Rightarrow> None
      | Some o' \<Rightarrow>
          if types (snd k) \<noteq> None \<and> \<not> lb_closed o' \<and> b (fst k, snd k, year) \<noteq> None
             \<and> (case key of None \<Rightarrow> True | Some k' \<Rightarrow> k' = k)
          then Some o' else None)"

definition carriedOutOf :: "types \<Rightarrow> string \<Rightarrow> LeaveBalance \<Rightarrow> int" where
  "carriedOutOf types t o' =
     (case types t of
        None \<Rightarrow> 0
      | Some ty \<Rightarrow> min (lt_carryOverMax ty)
                     (max 0 (lb_entitled o' + lb_carriedOver o' - lb_taken o' - lb_pending o')))"

definition carryInto :: "types \<Rightarrow> int \<Rightarrow> (int \<times> string) option \<Rightarrow> balances \<Rightarrow> balances" where
  "carryInto types year key b =
     (\<lambda>(e, t, y).
        case b (e, t, y) of
          None \<Rightarrow> None
        | Some r \<Rightarrow>
            (case closing types year key b (e, t) of
               None \<Rightarrow> Some r
             | Some o' \<Rightarrow>
                 if y = year - 1 then Some (r\<lparr>lb_carriedOut := carriedOutOf types t o', lb_closed := True\<rparr>)
                 else if y = year then Some (r\<lparr>lb_carriedOver := lb_carriedOver r + carriedOutOf types t o'\<rparr>)
                 else Some r))"

definition openYear :: "Employee list \<Rightarrow> types \<Rightarrow> int \<Rightarrow> balances \<Rightarrow> balances" where
  "openYear es types year b = carryInto types year None (rowsFor es types year None b)"

definition ensure :: "Employee list \<Rightarrow> types \<Rightarrow> int \<Rightarrow> balances \<Rightarrow> int \<times> string \<Rightarrow> int \<Rightarrow> balances" where
  "ensure es types thisYear b key year =
     (if rowCreated es types year key b \<and> year \<le> thisYear
      then carryInto types year (Some key) (rowsFor es types year (Some key) b)
      else rowsFor es types year (Some key) b)"

definition projected :: "Employee list \<Rightarrow> types \<Rightarrow> int \<times> string \<Rightarrow> int \<Rightarrow> int" where
  "projected es types key year =
     (case (employeeOf es (fst key), types (snd key)) of
        (Some em, Some ty) \<Rightarrow> entitledIn year (em_hireDate em) (lt_daysPerYear ty)
      | _ \<Rightarrow> 0)"

subsection \<open>Rows\<close>

lemma rowsFor_keeps: "b k = Some r \<Longrightarrow> rowsFor es types year key b k = Some r"
  by (cases k) (simp add: rowsFor_def)

lemma rowsFor_new:
  "rowsFor es types year key b k = Some r \<Longrightarrow>
     b k = Some r \<or> b k = None \<and> snd (snd k) = year \<and>
       (\<exists>em ty. types (fst (snd k)) = Some ty \<and> r = openingRow year em ty)"
  by (cases k) (auto simp: rowsFor_def split: option.splits if_splits)

lemma rowsFor_dom: "dom b \<subseteq> dom (rowsFor es types year key b)"
  using rowsFor_keeps by fastforce

lemma carryInto_dom [simp]: "dom (carryInto types year key b) = dom b"
  by (auto simp: carryInto_def dom_def split: option.splits if_splits)

lemma openingRow_simps [simp]:
  "lb_carriedOver (openingRow y e t) = 0" "lb_taken (openingRow y e t) = 0"
  "lb_pending (openingRow y e t) = 0" "lb_carriedOut (openingRow y e t) = 0"
  "\<not> lb_closed (openingRow y e t)"
  by (simp_all add: openingRow_def)

lemma carryInto_at:
  "carryInto types year key b (e, t, y) =
     map_option (\<lambda>r. case closing types year key b (e, t) of
         None \<Rightarrow> r
       | Some o' \<Rightarrow> if y = year - 1 then r\<lparr>lb_carriedOut := carriedOutOf types t o', lb_closed := True\<rparr>
                   else if y = year then r\<lparr>lb_carriedOver := lb_carriedOver r + carriedOutOf types t o'\<rparr>
                   else r) (b (e, t, y))"
  by (auto simp: carryInto_def split: option.splits)

lemma carryInto_keeps:
  assumes "carryInto types year key b k = Some r"
  shows "\<exists>r0. b k = Some r0 \<and> lb_taken r = lb_taken r0 \<and> lb_pending r = lb_pending r0
    \<and> lb_entitled r = lb_entitled r0"
  using assms by (cases k) (auto simp: carryInto_at split: option.splits if_splits)

text \<open>
  The invariant of the year chain. What a year carried in is what the year before carried out, an
  open year has carried nothing out, a closed year has a next one, and no more left a year than its
  type lets.
\<close>

definition outOf :: "balances \<Rightarrow> balkey \<Rightarrow> int" where
  "outOf b k = (case b k of None \<Rightarrow> 0 | Some r \<Rightarrow> lb_carriedOut r)"

definition yearChain :: "types \<Rightarrow> balances \<Rightarrow> bool" where
  "yearChain types b \<longleftrightarrow>
     (\<forall>e t y r. b (e, t, y) = Some r \<longrightarrow>
        lb_carriedOver r = outOf b (e, t, y - 1)
        \<and> (\<not> lb_closed r \<longrightarrow> lb_carriedOut r = 0)
        \<and> (lb_closed r \<longrightarrow> b (e, t, y + 1) \<noteq> None)
        \<and> 0 \<le> lb_carriedOut r
        \<and> (\<exists>ty. types t = Some ty \<and> lb_carriedOut r \<le> lt_carryOverMax ty))"

definition typesOk :: "types \<Rightarrow> bool" where
  "typesOk types \<longleftrightarrow> (\<forall>t ty. types t = Some ty \<longrightarrow> 0 \<le> lt_carryOverMax ty)"

lemma yearChainD:
  assumes "yearChain types b" "b (e, t, y) = Some r"
  shows "lb_carriedOver r = outOf b (e, t, y - 1)" "\<not> lb_closed r \<Longrightarrow> lb_carriedOut r = 0"
    "lb_closed r \<Longrightarrow> b (e, t, y + 1) \<noteq> None" "0 \<le> lb_carriedOut r"
    "\<exists>ty. types t = Some ty \<and> lb_carriedOut r \<le> lt_carryOverMax ty"
  using assms unfolding yearChain_def by blast+

lemma outOf_missing: "yearChain types b \<Longrightarrow> b (e, t, y + 1) = None \<Longrightarrow> outOf b (e, t, y) = 0"
  by (cases "b (e, t, y)") (auto simp: outOf_def dest: yearChainD(2,3))

lemma rowsFor_chain:
  assumes c: "yearChain types b" and ok: "typesOk types"
  shows "yearChain types (rowsFor es types year key b)"
  unfolding yearChain_def
proof (intro allI impI)
  fix e t y r
  assume r: "rowsFor es types year key b (e, t, y) = Some r"
  let ?b = "rowsFor es types year key b"
  have out: "outOf ?b k = outOf b k" for k
    using rowsFor_new [of es types year key b k] rowsFor_keeps [of b k]
    by (cases "?b k"; cases "b k") (auto simp: outOf_def)
  from rowsFor_new [OF r] show "lb_carriedOver r = outOf ?b (e, t, y - 1)
      \<and> (\<not> lb_closed r \<longrightarrow> lb_carriedOut r = 0) \<and> (lb_closed r \<longrightarrow> ?b (e, t, y + 1) \<noteq> None)
      \<and> 0 \<le> lb_carriedOut r \<and> (\<exists>ty. types t = Some ty \<and> lb_carriedOut r \<le> lt_carryOverMax ty)"
  proof
    assume b: "b (e, t, y) = Some r"
    have "b (e, t, y + 1) \<noteq> None \<Longrightarrow> ?b (e, t, y + 1) \<noteq> None"
      using rowsFor_dom [of b es types year key] by blast
    with yearChainD [OF c b] show ?thesis by (simp add: out)
  next
    assume "b (e, t, y) = None \<and> snd (snd (e, t, y)) = year \<and>
      (\<exists>em ty. types (fst (snd (e, t, y))) = Some ty \<and> r = openingRow year em ty)"
    with ok outOf_missing [OF c, of e t "y - 1"] show ?thesis
      by (auto simp: out typesOk_def)
  qed
qed

lemma closingD:
  assumes "closing types year key b (e, t) = Some o'"
  shows "b (e, t, year - 1) = Some o'" "\<not> lb_closed o'" "b (e, t, year) \<noteq> None" "types t \<noteq> None"
  using assms by (auto simp: closing_def split: option.splits if_splits)

lemma carriedOutOf_bounds:
  assumes "types t = Some ty" "0 \<le> lt_carryOverMax ty"
  shows "0 \<le> carriedOutOf types t o'" "carriedOutOf types t o' \<le> lt_carryOverMax ty"
  using assms by (simp_all add: carriedOutOf_def)

lemma carryInto_out:
  "outOf (carryInto types year key b) (e, t, y) =
     (case closing types year key b (e, t) of
        None \<Rightarrow> outOf b (e, t, y)
      | Some o' \<Rightarrow> if y = year - 1 then carriedOutOf types t o' else outOf b (e, t, y))"
  by (auto simp: outOf_def carryInto_at closing_def split: option.splits if_splits)

lemma carryInto_chain:
  assumes c: "yearChain types b" and ok: "typesOk types"
  shows "yearChain types (carryInto types year key b)"
  unfolding yearChain_def
proof (intro allI impI)
  fix e t y r
  assume r: "carryInto types year key b (e, t, y) = Some r"
  let ?b = "carryInto types year key b"
  obtain r0 where r0: "b (e, t, y) = Some r0" using r by (auto simp: carryInto_at)
  note r0c = yearChainD [OF c r0]
  have next': "?b (e, t, y + 1) = None \<longleftrightarrow> b (e, t, y + 1) = None" by (simp add: carryInto_at)
  show "lb_carriedOver r = outOf ?b (e, t, y - 1)
      \<and> (\<not> lb_closed r \<longrightarrow> lb_carriedOut r = 0) \<and> (lb_closed r \<longrightarrow> ?b (e, t, y + 1) \<noteq> None)
      \<and> 0 \<le> lb_carriedOut r \<and> (\<exists>ty. types t = Some ty \<and> lb_carriedOut r \<le> lt_carryOverMax ty)"
  proof (cases "closing types year key b (e, t)")
    case None
    then have "r = r0" using r r0 by (simp add: carryInto_at)
    with r0c show ?thesis unfolding next' by (simp add: carryInto_out None)
  next
    case (Some o')
    note cl = closingD [OF Some]
    obtain ty where ty: "types t = Some ty" "0 \<le> lt_carryOverMax ty"
      using cl(4) ok by (auto simp: typesOk_def)
    note bounds = carriedOutOf_bounds [of types t ty o', OF ty]
    have out0: "outOf b (e, t, year - 1) = 0"
      using cl(1,2) yearChainD(2) [OF c cl(1)] by (simp add: outOf_def)
    consider "y = year - 1" | "y = year" | "y \<noteq> year - 1" "y \<noteq> year" by blast
    then show ?thesis
    proof cases
      case 1
      then have "r = r0\<lparr>lb_carriedOut := carriedOutOf types t o', lb_closed := True\<rparr>"
        using r r0 Some by (simp add: carryInto_at)
      with 1 r0c bounds ty cl(3) show ?thesis unfolding next' by (simp add: carryInto_out Some)
    next
      case 2
      then have "r = r0\<lparr>lb_carriedOver := lb_carriedOver r0 + carriedOutOf types t o'\<rparr>"
        using r r0 Some by (simp add: carryInto_at)
      with 2 r0c out0 show ?thesis unfolding next' by (simp add: carryInto_out Some)
    next
      case 3
      then have "r = r0" using r r0 Some by (simp add: carryInto_at)
      with 3 r0c show ?thesis unfolding next' by (simp add: carryInto_out Some)
    qed
  qed
qed

lemma openYear_chain: "yearChain types b \<Longrightarrow> typesOk types \<Longrightarrow> yearChain types (openYear es types year b)"
  by (simp add: openYear_def rowsFor_chain carryInto_chain)

lemma ensure_chain: "yearChain types b \<Longrightarrow> typesOk types \<Longrightarrow> yearChain types (ensure es types now b key year)"
  by (simp add: ensure_def rowsFor_chain carryInto_chain)

text \<open>Nothing here touches what is held or taken, and every row stays.\<close>

definition usedOf :: "balances \<Rightarrow> balkey \<Rightarrow> int \<times> int" where
  "usedOf b k = (case b k of None \<Rightarrow> (0, 0) | Some r \<Rightarrow> (lb_pending r, lb_taken r))"

definition sameUse :: "balances \<Rightarrow> balances \<Rightarrow> bool" where
  "sameUse b b' \<longleftrightarrow> dom b \<subseteq> dom b' \<and> usedOf b' = usedOf b"

lemma sameUse_rowsFor: "sameUse b (rowsFor es types year key b)"
  unfolding sameUse_def
proof
  show "usedOf (rowsFor es types year key b) = usedOf b"
  proof
    fix k
    show "usedOf (rowsFor es types year key b) k = usedOf b k"
      using rowsFor_new [of es types year key b k] rowsFor_keeps [of b k]
      by (cases "rowsFor es types year key b k"; cases "b k") (auto simp: usedOf_def)
  qed
qed (rule rowsFor_dom)

lemma sameUse_carryInto: "sameUse b (carryInto types year key b)"
  by (auto simp: sameUse_def usedOf_def carryInto_at fun_eq_iff split: option.splits)

lemma sameUse_trans: "sameUse b c \<Longrightarrow> sameUse c d \<Longrightarrow> sameUse b d"
  unfolding sameUse_def by auto

lemma sameUse_openYear: "sameUse b (openYear es types year b)"
  unfolding openYear_def by (rule sameUse_trans [OF sameUse_rowsFor sameUse_carryInto])

lemma sameUse_ensure: "sameUse b (ensure es types now b key year)"
  using sameUse_trans [OF sameUse_rowsFor sameUse_carryInto] by (simp add: ensure_def sameUse_rowsFor)

text \<open>The free days of a paid type never go negative through a close, whatever is still waiting.\<close>

definition noneShort :: "types \<Rightarrow> balances \<Rightarrow> bool" where
  "noneShort types b \<longleftrightarrow>
     (\<forall>e t y r ty. b (e, t, y) = Some r \<and> types t = Some ty \<and> lt_paid ty \<longrightarrow> 0 \<le> freeDays r)"

lemma entitledIn_nonneg:
  assumes "0 \<le> d"
  shows "0 \<le> entitledIn year hire d"
proof -
  have "0 \<le> mulDiv d (2 * (dayFromYear (year + 1) - h)) (10 * (dayFromYear (year + 1) - dayFromYear year))"
    if "h < dayFromYear (year + 1)" for h
    by (rule mulDiv_nonneg) (use assms that dayFromYear_less [of year "year + 1"] in simp_all)
  with assms show ?thesis by (auto simp: entitledIn_def split: option.splits)
qed

lemma rowsFor_noneShort:
  assumes "noneShort types b" "\<And>t ty. types t = Some ty \<Longrightarrow> 0 \<le> lt_daysPerYear ty"
  shows "noneShort types (rowsFor es types year key b)"
  unfolding noneShort_def
proof (intro allI impI, elim conjE)
  fix e t y r ty
  assume r: "rowsFor es types year key b (e, t, y) = Some r" and ty: "types t = Some ty" "lt_paid ty"
  from rowsFor_new [OF r] show "0 \<le> freeDays r"
  proof
    assume "b (e, t, y) = Some r"
    with assms(1) ty show ?thesis unfolding noneShort_def by blast
  next
    assume "b (e, t, y) = None \<and> snd (snd (e, t, y)) = year \<and>
      (\<exists>em ty'. types (fst (snd (e, t, y))) = Some ty' \<and> r = openingRow year em ty')"
    then obtain em where "r = openingRow year em ty" using ty by auto
    with entitledIn_nonneg [OF assms(2) [OF ty(1)]] show ?thesis by (simp add: freeDays_def openingRow_def)
  qed
qed

lemma carryInto_noneShort:
  assumes n: "noneShort types b" and c: "yearChain types b" and ok: "typesOk types"
  shows "noneShort types (carryInto types year key b)"
  unfolding noneShort_def
proof (intro allI impI, elim conjE)
  fix e t y r ty
  assume r: "carryInto types year key b (e, t, y) = Some r" and ty: "types t = Some ty" "lt_paid ty"
  obtain r0 where r0: "b (e, t, y) = Some r0" using r by (auto simp: carryInto_at)
  with n ty have free: "0 \<le> freeDays r0" unfolding noneShort_def by blast
  have max: "0 \<le> lt_carryOverMax ty" using ok ty by (simp add: typesOk_def)
  show "0 \<le> freeDays r"
  proof (cases "closing types year key b (e, t)")
    case None
    then show ?thesis using r r0 free by (simp add: carryInto_at)
  next
    case (Some o')
    note cl = closingD [OF Some]
    from yearChainD(2) [OF c cl(1) cl(2)] have "lb_carriedOut o' = 0" .
    with Some r r0 free cl(1) max ty carriedOutOf_bounds(1) [of types t ty o', OF ty(1) max] show ?thesis
      by (auto simp: carryInto_at freeDays_def carriedOutOf_def split: if_splits)
  qed
qed

lemma carryInto_closes: "closing types year None (carryInto types year None b) (e, t) = None"
proof (rule ccontr)
  assume "closing types year None (carryInto types year None b) (e, t) \<noteq> None"
  then obtain o' where o': "closing types year None (carryInto types year None b) (e, t) = Some o'" by blast
  note cl = closingD [OF o']
  then obtain r0 where r0: "b (e, t, year - 1) = Some r0" by (auto simp: carryInto_at)
  show False
  proof (cases "closing types year None b (e, t)")
    case None
    then have "r0 = o'" using cl(1) r0 by (simp add: carryInto_at)
    with None cl r0 show False by (auto simp: closing_def carryInto_at split: option.splits)
  next
    case (Some x)
    then show False using cl(1,2) r0 by (auto simp: carryInto_at)
  qed
qed

lemma carryInto_id:
  assumes "\<And>e t. closing types year key b (e, t) = None"
  shows "carryInto types year key b = b"
proof
  fix k :: balkey
  obtain e t y where "k = (e, t, y)" by (cases k)
  then show "carryInto types year key b k = b k" by (cases "b k") (simp_all add: carryInto_at assms)
qed

lemma rowsFor_again:
  assumes "dom c = dom (rowsFor es types year key b)"
  shows "rowsFor es types year key c = c"
proof
  fix k :: balkey
  obtain e t y where k: "k = (e, t, y)" by (cases k)
  show "rowsFor es types year key c k = c k"
  proof (cases "c k")
    case (Some r)
    then show ?thesis by (simp add: rowsFor_keeps)
  next
    case None
    with assms have "rowsFor es types year key b k = None" by (metis domIff)
    with None k show ?thesis by (auto simp: rowsFor_def split: option.splits if_splits)
  qed
qed

subsection \<open>Properties\<close>

text \<open>Opening a year is safe to run again: the second run finds every row made and every row of
  the year before closed, so nothing is carried twice; no row is lost, and what is held and taken
  stays.\<close>

theorem year_opens_once:
  "openYear es types year (openYear es types year b) = openYear es types year b
   \<and> dom b \<subseteq> dom (openYear es types year b)
   \<and> usedOf (openYear es types year b) = usedOf b"
proof -
  have "rowsFor es types year None (openYear es types year b) = openYear es types year b"
    by (rule rowsFor_again [where b = b]) (simp add: openYear_def)
  moreover have "carryInto types year None (openYear es types year b) = openYear es types year b"
    unfolding openYear_def by (rule carryInto_id) (rule carryInto_closes)
  ultimately show ?thesis
    using sameUse_openYear [of b es types year] by (simp add: openYear_def sameUse_def)
qed

end
