(* ===== verification/Leave.thy ===== *)
theory Leave
  imports Timesheet LeaveYear
begin

section \<open>Requests and leave\<close>

text \<open>
  \<open>backend/src/modules/leave/leave.service.ts\<close>: filing, deciding and cancelling requests, the days
  they hold on a balance, and who may decide. A handler first reads and then commits in a
  transaction; the two are apart here, because between them another handler may commit. \<open>today\<close> is
  the business day, \<open>now\<close> the clock. Counts of days are tenths. The queries for lists, badges and
  files are not modelled.
\<close>

subsection \<open>State\<close>

record Delegation =
  dg_fromId :: int
  dg_toId :: int
  dg_fromDate :: day
  dg_toDate :: day

text \<open>\<open>lv_order\<close> lists the ids of the request table in the order they were made, so that the
  table can be scanned.\<close>

record LeaveDb =
  lv_requests :: "string \<rightharpoonup> Request"
  lv_order :: "string list"
  lv_balances :: balances
  lv_types :: types
  lv_delegations :: "Delegation list"
  lv_ts :: TimesheetDb

definition requestRows :: "LeaveDb \<Rightarrow> Request list" where
  "requestRows db = List.map_filter (lv_requests db) (lv_order db)"

definition personOf :: "Employee \<Rightarrow> Person" where
  "personOf e = \<lparr>p_id = em_id e, p_managerId = em_managerId e, p_legalEntityId = em_legalEntityId e\<rparr>"

definition peopleIn :: "LeaveDb \<Rightarrow> Person list" where
  "peopleIn db = map personOf (ts_employees (lv_ts db))"

subsection \<open>Filing\<close>

record SubmitRequestDto =
  sb_clientKey :: "string option"
  sb_kind :: RequestKind
  sb_leaveTypeId :: "string option"
  sb_fromDate :: day
  sb_toDate :: day
  sb_halfDay :: bool
  sb_dayPart :: "DayPart option"
  sb_minutes :: "int option"
  sb_fromAt :: "instant option"
  sb_toAt :: "instant option"
  sb_reason :: string
  sb_attachmentUrl :: "string option"

definition HALF :: int where
  "HALF = 5"

definition WHOLE_DAY :: int where
  "WHOLE_DAY = 10"

definition TIMED :: "RequestKind set" where
  "TIMED = {RK_OVERTIME, RK_ATTENDANCE_FIX}"

definition partsOf :: "day \<Rightarrow> int \<Rightarrow> int \<Rightarrow> (int \<times> int) list" where
  "partsOf from days next' =
     filter (\<lambda>(y, d). d > 0) [(yearOf from, days - next'), (yearOf from + 1, next')]"

definition checkFixable :: "day \<Rightarrow> day \<Rightarrow> day \<Rightarrow> unit result" where
  "checkFixable today from until =
     bindR (refuse (from \<noteq> until) (BadRequest ''FIX_ONE_DAY_ONLY'')) (\<lambda>_.
     refuse (from \<ge> today) (BadRequest ''FIX_DAY_NOT_FINISHED''))"

definition fileableType :: "types \<Rightarrow> string option \<Rightarrow> (string \<times> LeaveType) result" where
  "fileableType types id' =
     (case id' of
        None \<Rightarrow> Inl (BadRequest ''LEAVE_TYPE_REQUIRED'')
      | Some t \<Rightarrow>
          if t = [] then Inl (BadRequest ''LEAVE_TYPE_REQUIRED'')
          else case types t of
                 None \<Rightarrow> Inl (NotFound ''LEAVE_TYPE_NOT_FOUND'')
               | Some ty \<Rightarrow> if lt_active ty then Inr (t, ty) else Inl (NotFound ''LEAVE_TYPE_NOT_FOUND''))"

definition charge :: "LeaveDb \<Rightarrow> int \<Rightarrow> day \<Rightarrow> day \<Rightarrow> bool \<Rightarrow> bool \<Rightarrow> (int \<times> int) result" where
  "charge db e from until halfDay calendarDays =
     bindR (refuse (yearOf until > yearOf from + 1) (BadRequest ''LEAVE_SPANS_YEARS'')) (\<lambda>_.
       let working = (if calendarDays then everyDay from until
                      else workdays (ts_holidays (lv_ts db))
                             (map_option em_legalEntityId (employeeOf (ts_employees (lv_ts db)) e)) from until)
       in if halfDay then bindR (refuse (working = []) (BadRequest ''HALF_DAY_NOT_WORKING'')) (\<lambda>_. Inr (HALF, 0))
          else bindR (refuse (working = []) (BadRequest ''LEAVE_NO_WORKING_DAY'')) (\<lambda>_.
                 Inr (WHOLE_DAY * int (length working),
                      WHOLE_DAY * int (length (filter (\<lambda>d. yearOf d > yearOf from) working)))))"

definition approverFor :: "LeaveDb \<Rightarrow> int \<Rightarrow> int option" where
  "approverFor db e =
     (case employeeOf (ts_employees (lv_ts db)) e of None \<Rightarrow> None | Some p \<Rightarrow> em_managerId p)"

definition byClientKey :: "LeaveDb \<Rightarrow> string \<Rightarrow> Request option" where
  "byClientKey db key = find (\<lambda>r. rq_clientKey r = Some key) (requestRows db)"

text \<open>A redelivery ends where the first delivery did, for the one who filed it.\<close>

definition alreadyFiled :: "int \<Rightarrow> Request \<Rightarrow> Request result" where
  "alreadyFiled e r =
     (if rq_employeeId r \<noteq> e then Inl (Forbidden ''CLIENT_KEY_NOT_YOURS'') else Inr r)"

definition minutesOf :: "SubmitRequestDto \<Rightarrow> int" where
  "minutesOf body =
     (case (sb_fromAt body, sb_toAt body) of
        (Some f, Some t) \<Rightarrow>
          if sb_kind body \<in> TIMED then (2 * (t - f) + 60000) div 120000 else orElse (sb_minutes body) 0
      | _ \<Rightarrow> orElse (sb_minutes body) 0)"

text \<open>The read phase of \<open>submit\<close> after the redelivery check: every refusal, then the row to file and
  the leave type to hold days on.\<close>

definition prepareRequest ::
  "day \<Rightarrow> LeaveDb \<Rightarrow> int \<Rightarrow> SubmitRequestDto \<Rightarrow> ((string \<times> LeaveType) option \<times> Request) result" where
  "prepareRequest today db e body =
     (let from = sb_fromDate body; until = sb_toDate body in
      bindR (refuse (until < from) (BadRequest ''DATE_RANGE_BACKWARDS'')) (\<lambda>_.
      bindR (if sb_kind body = RK_ATTENDANCE_FIX then checkFixable today from until else Inr ()) (\<lambda>_.
      bindR (refuse (sb_halfDay body \<and> from \<noteq> until) (BadRequest ''HALF_DAY_ONE_DAY_ONLY'')) (\<lambda>_.
      bindR (refuse (case (sb_fromAt body, sb_toAt body) of (Some f, Some t) \<Rightarrow> t \<le> f | _ \<Rightarrow> False)
               (BadRequest ''TIME_RANGE_BACKWARDS'')) (\<lambda>_.
      bindR (if sb_kind body = RK_LEAVE
             then bindR (fileableType (lv_types db) (sb_leaveTypeId body)) (\<lambda>t. Inr (Some t))
             else Inr None) (\<lambda>type.
      bindR (case type of
               Some t \<Rightarrow> charge db e from until (sb_halfDay body) (lt_calendarDays (snd t))
             | None \<Rightarrow> Inr (if sb_halfDay body then HALF else WHOLE_DAY * (until - from + 1), 0)) (\<lambda>(days', next').
      Inr (type,
           \<lparr>rq_employeeId = e, rq_kind = sb_kind body, rq_state = RS_PENDING,
            rq_leaveTypeId = sb_leaveTypeId body, rq_fromDate = from, rq_toDate = until,
            rq_fromAt = sb_fromAt body, rq_toAt = sb_toAt body, rq_halfDay = sb_halfDay body,
            rq_dayPart = (if sb_halfDay body then sb_dayPart body else None),
            rq_days = days', rq_nextYearDays = next', rq_minutes = minutesOf body,
            rq_reason = sb_reason body, rq_attachmentUrl = sb_attachmentUrl body,
            rq_clientKey = sb_clientKey body, rq_approverId = approverFor db e,
            rq_decidedById = None, rq_decidedAt = None, rq_decisionNote = None\<rparr>))))))))"

text \<open>\<open>hold\<close>: for each year the request touches, the row is made, and the check and the hold are one
  guarded statement.\<close>

fun hold ::
  "Employee list \<Rightarrow> types \<Rightarrow> int \<Rightarrow> int \<Rightarrow> string \<Rightarrow> bool \<Rightarrow> (int \<times> int) list \<Rightarrow> balances \<Rightarrow> balances result" where
  "hold es types thisYear e t paid [] b = Inr b"
| "hold es types thisYear e t paid ((y, d) # parts) b =
     (let b1 = ensure es types thisYear b (e, t) y;
          (held, b2) = claim b1 (e, t, y) (\<lambda>r. \<not> paid \<or> freeDays r \<ge> d)
                         (\<lambda>r. r\<lparr>lb_pending := lb_pending r + d\<rparr>)
      in if held \<noteq> 1 then Inl (Conflict ''LEAVE_BALANCE_SHORT'')
         else hold es types thisYear e t paid parts b2)"

text \<open>The exclusion constraint of the request table: a date is two slots, and leave that waits or is
  granted may not share a slot with other such leave of the person.\<close>

definition slotFrom :: "Request \<Rightarrow> int" where
  "slotFrom r = rq_fromDate r * 2 + (if rq_halfDay r \<and> rq_dayPart r = Some AFTERNOON then 1 else 0)"

definition slotUntil :: "Request \<Rightarrow> int" where
  "slotUntil r = rq_toDate r * 2 + (if rq_halfDay r \<and> rq_dayPart r = Some MORNING then 1 else 2)"

definition reserves :: "Request \<Rightarrow> bool" where
  "reserves r \<longleftrightarrow> rq_kind r = RK_LEAVE \<and> (rq_state r = RS_PENDING \<or> rq_state r = RS_APPROVED)"

definition clashes :: "Request \<Rightarrow> Request \<Rightarrow> bool" where
  "clashes a b \<longleftrightarrow> reserves a \<and> reserves b \<and> rq_employeeId a = rq_employeeId b
     \<and> slotFrom a < slotUntil b \<and> slotFrom b < slotUntil a"

text \<open>\<open>file\<close>, the transaction: the hold, then the insert under its constraints.\<close>

definition fileRequest ::
  "int \<Rightarrow> LeaveDb \<Rightarrow> string \<Rightarrow> (string \<times> LeaveType) option \<Rightarrow> Request \<Rightarrow> LeaveDb result" where
  "fileRequest thisYear db id' type r =
     bindR (case type of
              None \<Rightarrow> Inr (lv_balances db)
            | Some (t, ty) \<Rightarrow>
                hold (ts_employees (lv_ts db)) (lv_types db) thisYear (rq_employeeId r) t (lt_paid ty)
                  (partsOf (rq_fromDate r) (rq_days r) (rq_nextYearDays r)) (lv_balances db)) (\<lambda>b.
     bindR (refuse (lv_requests db id' \<noteq> None
              \<or> (\<exists>key. rq_clientKey r = Some key \<and> byClientKey db key \<noteq> None)) (Unhandled ''P2002'')) (\<lambda>_.
     bindR (refuse (\<exists>o' \<in> set (requestRows db). clashes r o') (Conflict ''LEAVE_OVERLAP'')) (\<lambda>_.
       Inr (db\<lparr>lv_balances := b, lv_requests := (lv_requests db)(id' \<mapsto> r), lv_order := lv_order db @ [id']\<rparr>))))"

text \<open>\<open>submit\<close>, reading \<open>db0\<close> and committing on \<open>db1\<close>, which is \<open>db0\<close> unless others committed in
  between.\<close>

definition submit ::
  "day \<Rightarrow> LeaveDb \<Rightarrow> LeaveDb \<Rightarrow> Viewer \<Rightarrow> SubmitRequestDto \<Rightarrow> string \<Rightarrow> (LeaveDb \<times> Request \<times> effect list) result" where
  "submit today db0 db1 v body id' =
     (case v_employeeId v of
        None \<Rightarrow> Inl (Forbidden ''NOT_AN_EMPLOYEE'')
      | Some e \<Rightarrow>
          (case (case sb_clientKey body of None \<Rightarrow> None | Some key \<Rightarrow> byClientKey db0 key) of
             Some already \<Rightarrow> bindR (alreadyFiled e already) (\<lambda>r. Inr (db1, r, []))
           | None \<Rightarrow>
               bindR (prepareRequest today db0 e body) (\<lambda>(type, r).
                 case fileRequest (yearOf today) db1 id' type r of
                   Inr db2 \<Rightarrow> Inr (db2, r, [ItemOpened ''REQUESTS'' id'])
                 | Inl err \<Rightarrow>
                     (case (if err = Unhandled ''P2002''
                            then (case sb_clientKey body of None \<Rightarrow> None | Some key \<Rightarrow> byClientKey db1 key)
                            else None) of
                        None \<Rightarrow> Inl err
                      | Some raced \<Rightarrow> bindR (alreadyFiled e raced) (\<lambda>r. Inr (db1, r, []))))))"

subsection \<open>Who may decide\<close>

definition THE_DESK :: "Role set" where
  "THE_DESK = {ADMIN, HR}"

definition INBOX_ROLES :: "Role set" where
  "INBOX_ROLES = {ADMIN, HR, PAYROLL, MANAGER}"

definition OFF_SITE :: "RequestKind set" where
  "OFF_SITE = {RK_BUSINESS_TRIP, RK_REMOTE_WORK}"

definition standingInFor :: "LeaveDb \<Rightarrow> day \<Rightarrow> int \<Rightarrow> int list" where
  "standingInFor db today e =
     map dg_fromId (filter (\<lambda>d. dg_toId d = e \<and> dg_fromDate d \<le> today \<and> today \<le> dg_toDate d) (lv_delegations db))"

datatype Refusal = SELF_DECISION | DESK_NEEDS_EMPLOYEE | NOT_YOUR_REQUEST | REQUEST_NOT_FOUND

definition answersFor :: "LeaveDb \<Rightarrow> day \<Rightarrow> Viewer \<Rightarrow> Request \<Rightarrow> bool" where
  "answersFor db today v r \<longleftrightarrow>
     (case (v_employeeId v, rq_approverId r) of
        (Some e, Some a) \<Rightarrow> v_role v \<in> INBOX_ROLES \<and> (a = e \<or> a \<in> set (standingInFor db today e))
      | _ \<Rightarrow> False)"

definition refusal :: "LeaveDb \<Rightarrow> day \<Rightarrow> Viewer \<Rightarrow> Request \<Rightarrow> Refusal option" where
  "refusal db today v r =
     (let inEntities = reaches (peopleIn db) v None (rq_employeeId r) in
      if v_employeeId v = Some (rq_employeeId r) then Some SELF_DECISION
      else if isUnlinkedDesk v then Some DESK_NEEDS_EMPLOYEE
      else if v_role v \<in> THE_DESK \<and> inEntities then None
      else if answersFor db today v r then None
      else if \<not> inEntities then Some REQUEST_NOT_FOUND
      else case visibleEmployeeIds (peopleIn db) v of
             None \<Rightarrow> Some NOT_YOUR_REQUEST
           | Some ids \<Rightarrow> if rq_employeeId r \<in> set ids then None else Some NOT_YOUR_REQUEST)"

subsection \<open>Deciding and cancelling\<close>

definition requestParts :: "Request \<Rightarrow> (int \<times> int) list" where
  "requestParts r = partsOf (rq_fromDate r) (rq_days r) (rq_nextYearDays r)"

text \<open>\<open>settle\<close> and \<open>release\<close>: the held days leave \<open>pending\<close>, into \<open>taken\<close> when approved.\<close>

fun settleParts :: "int \<Rightarrow> string \<Rightarrow> bool \<Rightarrow> (int \<times> int) list \<Rightarrow> balances \<Rightarrow> balances result" where
  "settleParts e t approved [] b = Inr b"
| "settleParts e t approved ((y, d) # parts) b =
     bindR (updateRow b (e, t, y)
              (\<lambda>r. r\<lparr>lb_pending := lb_pending r - d,
                    lb_taken := (if approved then lb_taken r + d else lb_taken r)\<rparr>))
       (settleParts e t approved parts)"

definition settle :: "Request \<Rightarrow> bool \<Rightarrow> balances \<Rightarrow> balances result" where
  "settle held approved b =
     (case rq_leaveTypeId held of
        Some t \<Rightarrow> if rq_kind held = RK_LEAVE then settleParts (rq_employeeId held) t approved (requestParts held) b
                  else Inr b
      | None \<Rightarrow> Inr b)"

definition release :: "Request \<Rightarrow> balances \<Rightarrow> balances result" where
  "release held b = settle held False b"

definition isPending :: "Request \<Rightarrow> bool" where
  "isPending r \<longleftrightarrow> rq_state r = RS_PENDING"

definition decidedRequest :: "string \<Rightarrow> instant \<Rightarrow> bool \<Rightarrow> string option \<Rightarrow> Request \<Rightarrow> Request" where
  "decidedRequest by' now approve note r =
     r\<lparr>rq_state := (if approve then RS_APPROVED else RS_REJECTED), rq_decidedById := Some by',
       rq_decidedAt := Some now, rq_decisionNote := note\<rparr>"

text \<open>What an approval does to the days already built, by the kind of request.\<close>

definition approvedDays :: "Request list \<Rightarrow> Request \<Rightarrow> bool \<Rightarrow> string \<Rightarrow> instant \<Rightarrow> days \<Rightarrow> days" where
  "approvedDays rows held approve by' now days =
     (let e = rq_employeeId held;
          days1 = (if rq_kind held = RK_LEAVE \<and> approve
                   then if rq_halfDay held then markHalvesApproved rows days e (rq_fromDate held)
                        else markApproved days e (rq_fromDate held) (rq_toDate held) DS_LEAVE
                   else days);
          days2 = (if rq_kind held \<in> OFF_SITE \<and> approve
                   then markApproved days1 e (rq_fromDate held) (rq_toDate held) DS_WORKED else days1)
      in if rq_kind held = RK_ATTENDANCE_FIX \<and> approve
         then applyFix days2 e (rq_fromDate held) (rq_minutes held) by' (rq_reason held) now else days2)"

definition commitDecision ::
  "LeaveDb \<Rightarrow> Request \<Rightarrow> Viewer \<Rightarrow> string \<Rightarrow> instant \<Rightarrow> bool \<Rightarrow> string option \<Rightarrow> LeaveDb result" where
  "commitDecision db held v id' now approve note =
     (let (claimed, requests) =
            claim (lv_requests db) id' isPending (decidedRequest (v_userId v) now approve note)
      in bindR (refuse (claimed \<noteq> 1) (Conflict ''REQUEST_ALREADY_DECIDED'')) (\<lambda>_.
         bindR (settle held approve (lv_balances db)) (\<lambda>b.
           let db1 = db\<lparr>lv_requests := requests, lv_balances := b\<rparr>
           in Inr (db1\<lparr>lv_ts := (lv_ts db1)\<lparr>ts_days :=
                 approvedDays (requestRows db1) held approve (v_userId v) now (ts_days (lv_ts db1))\<rparr>\<rparr>))))"

definition mayDecide :: "LeaveDb \<Rightarrow> day \<Rightarrow> Viewer \<Rightarrow> Request \<Rightarrow> unit result" where
  "mayDecide db today v held =
     (let no = refusal db today v held in
      bindR (refuse (no = Some REQUEST_NOT_FOUND) (NotFound ''REQUEST_NOT_FOUND'')) (\<lambda>_.
      bindR (refuse (rq_state held \<noteq> RS_PENDING) (Conflict ''REQUEST_ALREADY_DECIDED'')) (\<lambda>_.
      bindR (refuse (no = Some SELF_DECISION) (Forbidden ''SELF_DECISION'')) (\<lambda>_.
      bindR (refuse (no = Some DESK_NEEDS_EMPLOYEE) (Forbidden ''DESK_NEEDS_EMPLOYEE'')) (\<lambda>_.
      refuse (no \<noteq> None) (Forbidden ''NOT_YOUR_REQUEST''))))))"

definition decideEffects :: "Viewer \<Rightarrow> string \<Rightarrow> bool \<Rightarrow> Request \<Rightarrow> effect list" where
  "decideEffects v id' approve held =
     [Audited (v_userId v) (if approve then ''REQUEST_APPROVE'' else ''REQUEST_REJECT'') id',
      ItemClosed ''REQUESTS'' id' (if approve then ''APPROVED'' else ''REJECTED'')]
     @ (if approve then [VanishedClosed (rq_employeeId held)] else [])
     @ [Noticed (rq_employeeId held) ''REQUEST_DECIDED'']"

definition decide ::
  "day \<Rightarrow> instant \<Rightarrow> LeaveDb \<Rightarrow> LeaveDb \<Rightarrow> Viewer \<Rightarrow> string \<Rightarrow> bool \<Rightarrow> string option \<Rightarrow> (LeaveDb \<times> effect list) result" where
  "decide today now db0 db1 v id' approve note =
     bindR (found (lv_requests db0 id') (NotFound ''REQUEST_NOT_FOUND'')) (\<lambda>held.
     bindR (mayDecide db0 today v held) (\<lambda>_.
     bindR (commitDecision db1 held v id' now approve note) (\<lambda>db2.
       Inr (db2, decideEffects v id' approve held))))"

definition decideMany ::
  "day \<Rightarrow> instant \<Rightarrow> LeaveDb \<Rightarrow> Viewer \<Rightarrow> string list \<Rightarrow> bool \<Rightarrow> string option
    \<Rightarrow> (LeaveDb \<times> effect list) \<times> DecideManyResult result" where
  "decideMany today now db v ids approve note =
     (if \<not> approve \<and> blankNote note then ((db, []), Inl (BadRequest ''DECISION_NOTE_REQUIRED''))
      else decideLoop
             (\<lambda>(db, log) i. bindR (decide today now db db v i approve note) (\<lambda>(db', more). Inr (db', log @ more)))
             (firsts ids) (db, []) \<lparr>dm_decided = [], dm_skipped = []\<rparr>)"

definition cancel :: "LeaveDb \<Rightarrow> LeaveDb \<Rightarrow> Viewer \<Rightarrow> string \<Rightarrow> (LeaveDb \<times> effect list) result" where
  "cancel db0 db1 v id' =
     bindR (found (lv_requests db0 id') (NotFound ''REQUEST_NOT_FOUND'')) (\<lambda>held.
     bindR (refuse (v_employeeId v \<noteq> Some (rq_employeeId held)) (NotFound ''REQUEST_NOT_FOUND'')) (\<lambda>_.
     bindR (refuse (rq_state held \<noteq> RS_PENDING) (Conflict ''REQUEST_ALREADY_DECIDED'')) (\<lambda>_.
       let (claimed, requests) = claim (lv_requests db1) id' isPending (\<lambda>r. r\<lparr>rq_state := RS_CANCELLED\<rparr>)
       in bindR (refuse (claimed \<noteq> 1) (Conflict ''REQUEST_ALREADY_DECIDED'')) (\<lambda>_.
          bindR (release held (lv_balances db1)) (\<lambda>b.
            Inr (db1\<lparr>lv_requests := requests, lv_balances := b\<rparr>, [ItemClosed ''REQUESTS'' id' ''WITHDRAWN'']))))))"

subsection \<open>The ledger\<close>

text \<open>What a request charges to a balance row, and what all waiting and all granted requests do.\<close>

definition partsSum :: "(int \<times> int) list \<Rightarrow> int \<Rightarrow> int" where
  "partsSum parts y = sum_list (map snd (filter (\<lambda>p. fst p = y) parts))"

definition chargeOn :: "Request \<Rightarrow> balkey \<Rightarrow> int" where
  "chargeOn r k =
     (if rq_kind r = RK_LEAVE \<and> rq_employeeId r = fst k \<and> rq_leaveTypeId r = Some (fst (snd k))
      then partsSum (requestParts r) (snd (snd k)) else 0)"

definition tally :: "(Request \<Rightarrow> bool) \<Rightarrow> LeaveDb \<Rightarrow> balkey \<Rightarrow> int" where
  "tally P db k =
     sum_list (map (\<lambda>i. case lv_requests db i of None \<Rightarrow> 0 | Some r \<Rightarrow> if P r then chargeOn r k else 0) (lv_order db))"

definition isApproved :: "Request \<Rightarrow> bool" where
  "isApproved r \<longleftrightarrow> rq_state r = RS_APPROVED"

definition ledgerOk :: "LeaveDb \<Rightarrow> bool" where
  "ledgerOk db \<longleftrightarrow>
     distinct (lv_order db) \<and> set (lv_order db) = dom (lv_requests db)
     \<and> (\<forall>k. usedOf (lv_balances db) k = (tally isPending db k, tally isApproved db k))"

lemma partsSum_simps [simp]:
  "partsSum [] y = 0"
  "partsSum ((y', d) # ps) y = (if y' = y then d else 0) + partsSum ps y"
  by (simp_all add: partsSum_def)

definition addUse :: "int \<Rightarrow> int \<Rightarrow> int \<times> int \<Rightarrow> int \<times> int" where
  "addUse p t u = (fst u + p, snd u + t)"

lemma addUse_simps [simp]: "addUse 0 0 u = u" "addUse p t (addUse p' t' u) = addUse (p' + p) (t' + t) u"
  "fst (addUse p t u) = fst u + p" "snd (addUse p t u) = snd u + t"
  by (simp_all add: addUse_def)

definition partsOn :: "(int \<times> int) list \<Rightarrow> int \<Rightarrow> string \<Rightarrow> balkey \<Rightarrow> int" where
  "partsOn parts e t k = (if fst k = e \<and> fst (snd k) = t then partsSum parts (snd (snd k)) else 0)"

lemma partsOn_simps [simp]:
  "partsOn [] e t k = 0"
  "partsOn ((y, d) # ps) e t k = (if k = (e, t, y) then d else 0) + partsOn ps e t k"
  by (cases k; auto simp: partsOn_def)+

lemma usedOf_upd:
  "b k0 = Some r \<Longrightarrow> usedOf (b(k0 \<mapsto> r\<lparr>lb_pending := lb_pending r + p, lb_taken := lb_taken r + t\<rparr>)) k =
     addUse (if k = k0 then p else 0) (if k = k0 then t else 0) (usedOf b k)"
  by (simp add: usedOf_def addUse_def)

lemma usedOf_hold:
  "b k0 = Some r \<Longrightarrow> usedOf (b(k0 \<mapsto> r\<lparr>lb_pending := lb_pending r + p\<rparr>)) k =
     addUse (if k = k0 then p else 0) 0 (usedOf b k)"
  by (simp add: usedOf_def addUse_def)

abbreviation heldRow :: "int \<Rightarrow> LeaveBalance \<Rightarrow> LeaveBalance" where
  "heldRow d r \<equiv> r\<lparr>lb_pending := lb_pending r + d\<rparr>"

lemma hold_Cons:
  "hold es types now e t paid ((y, d) # parts) b = Inr b' \<longleftrightarrow>
     (\<exists>r. ensure es types now b (e, t) y (e, t, y) = Some r \<and> (paid \<longrightarrow> d \<le> freeDays r)
        \<and> hold es types now e t paid parts ((ensure es types now b (e, t) y)((e, t, y) \<mapsto> heldRow d r)) = Inr b')"
  by (auto simp: claim_def Let_def split: option.splits if_splits)

declare hold.simps(2) [simp del]

lemma hold_used:
  "hold es types now e t paid parts b = Inr b' \<Longrightarrow> usedOf b' k = addUse (partsOn parts e t k) 0 (usedOf b k)"
proof (induction parts arbitrary: b)
  case Nil
  then show ?case by simp
next
  case (Cons p parts)
  obtain y d where p: "p = (y, d)" by (cases p)
  let ?b1 = "ensure es types now b (e, t) y"
  from Cons.prems obtain r where r: "?b1 (e, t, y) = Some r"
    and rest: "hold es types now e t paid parts (?b1((e, t, y) \<mapsto> heldRow d r)) = Inr b'"
    unfolding p hold_Cons by blast
  have "usedOf ?b1 = usedOf b" using sameUse_ensure [of b es types now "(e, t)" y] by (simp add: sameUse_def)
  with Cons.IH [OF rest] show ?case by (simp add: p usedOf_hold [where b = ?b1, OF r] del: fun_upd_apply)
qed

text \<open>The columns the year chain rests on, which only the turn of the year writes.\<close>

definition carryCols :: "balances \<Rightarrow> balkey \<Rightarrow> (int \<times> int \<times> bool) option" where
  "carryCols b k = map_option (\<lambda>r. (lb_carriedOver r, lb_carriedOut r, lb_closed r)) (b k)"

lemma carryCols_None: "carryCols b k = None \<longleftrightarrow> b k = None"
  by (simp add: carryCols_def)

lemma yearChain_cols:
  assumes "carryCols b' = carryCols b" "yearChain types b"
  shows "yearChain types b'"
  unfolding yearChain_def
proof (intro allI impI)
  fix e t y r'
  assume r': "b' (e, t, y) = Some r'"
  have same: "carryCols b' k = carryCols b k" for k using assms(1) by simp
  have out: "outOf b' k = outOf b k" for k
    using same [of k] by (cases "b' k"; cases "b k") (auto simp: carryCols_def outOf_def)
  obtain r where r: "b (e, t, y) = Some r" "lb_carriedOver r' = lb_carriedOver r"
    "lb_carriedOut r' = lb_carriedOut r" "lb_closed r' = lb_closed r"
    using same [of "(e, t, y)"] r' by (cases "b (e, t, y)") (auto simp: carryCols_def)
  have "b' (e, t, y + 1) = None \<longleftrightarrow> b (e, t, y + 1) = None"
    using same [of "(e, t, y + 1)"] by (metis carryCols_None)
  with yearChainD [OF assms(2) r(1)] r(2-4) show "lb_carriedOver r' = outOf b' (e, t, y - 1)
      \<and> (\<not> lb_closed r' \<longrightarrow> lb_carriedOut r' = 0) \<and> (lb_closed r' \<longrightarrow> b' (e, t, y + 1) \<noteq> None)
      \<and> 0 \<le> lb_carriedOut r' \<and> (\<exists>ty. types t = Some ty \<and> lb_carriedOut r' \<le> lt_carryOverMax ty)"
    by (simp add: out)
qed

lemma carryCols_upd:
  "b k0 = Some r \<Longrightarrow> lb_carriedOver r' = lb_carriedOver r \<Longrightarrow> lb_carriedOut r' = lb_carriedOut r \<Longrightarrow>
   lb_closed r' = lb_closed r \<Longrightarrow> carryCols (b(k0 \<mapsto> r')) = carryCols b"
  by (auto simp: carryCols_def fun_eq_iff)

text \<open>The invariant of the balance table, whatever is filed.\<close>

definition ratesOk :: "types \<Rightarrow> bool" where
  "ratesOk types \<longleftrightarrow> typesOk types \<and> (\<forall>t ty. types t = Some ty \<longrightarrow> 0 \<le> lt_daysPerYear ty)"

definition balancesOk :: "types \<Rightarrow> balances \<Rightarrow> bool" where
  "balancesOk types b \<longleftrightarrow> yearChain types b \<and> noneShort types b"

lemma ensure_ok: "ratesOk types \<Longrightarrow> balancesOk types b \<Longrightarrow> balancesOk types (ensure es types now b key y)"
  unfolding balancesOk_def ratesOk_def ensure_def
  by (auto simp: rowsFor_chain carryInto_chain rowsFor_noneShort carryInto_noneShort)

lemma openYear_ok: "ratesOk types \<Longrightarrow> balancesOk types b \<Longrightarrow> balancesOk types (openYear es types y b)"
  unfolding balancesOk_def ratesOk_def openYear_def
  by (auto simp: rowsFor_chain carryInto_chain rowsFor_noneShort carryInto_noneShort)

lemma noneShort_upd:
  assumes "noneShort types b" "\<And>ty. types (fst (snd k0)) = Some ty \<Longrightarrow> lt_paid ty \<Longrightarrow> 0 \<le> freeDays r'"
  shows "noneShort types (b(k0 \<mapsto> r'))"
  using assms unfolding noneShort_def by (cases k0) auto

lemma hold_ok:
  assumes "ratesOk types" "types t = Some ty" "paid = lt_paid ty"
  shows "hold es types now e t paid parts b = Inr b' \<Longrightarrow> balancesOk types b \<Longrightarrow> balancesOk types b'"
proof (induction parts arbitrary: b)
  case Nil
  then show ?case by simp
next
  case (Cons p parts)
  obtain y d where p: "p = (y, d)" by (cases p)
  let ?b1 = "ensure es types now b (e, t) y"
  from Cons.prems(1) obtain r where r: "?b1 (e, t, y) = Some r" "paid \<longrightarrow> d \<le> freeDays r"
    and rest: "hold es types now e t paid parts (?b1((e, t, y) \<mapsto> heldRow d r)) = Inr b'"
    unfolding p hold_Cons by blast
  have ok: "balancesOk types ?b1" by (rule ensure_ok [OF assms(1) Cons.prems(2)])
  have "carryCols (?b1((e, t, y) \<mapsto> heldRow d r)) = carryCols ?b1"
    by (rule carryCols_upd [where b = ?b1, OF r(1)]) simp_all
  then have "yearChain types (?b1((e, t, y) \<mapsto> heldRow d r))"
    by (rule yearChain_cols) (use ok in \<open>simp add: balancesOk_def\<close>)
  moreover have "noneShort types (?b1((e, t, y) \<mapsto> heldRow d r))"
    by (rule noneShort_upd) (use ok r(2) assms in \<open>auto simp: balancesOk_def freeDays_def\<close>)
  ultimately show ?case using Cons.IH [OF rest] by (simp add: balancesOk_def del: fun_upd_apply)
qed

lemma settleParts_used:
  "settleParts e t approved parts b = Inr b' \<Longrightarrow>
   usedOf b' k = addUse (- partsOn parts e t k) (if approved then partsOn parts e t k else 0) (usedOf b k)"
proof (induction parts arbitrary: b)
  case Nil
  then show ?case by simp
next
  case (Cons p parts)
  obtain y d where p: "p = (y, d)" by (cases p)
  from Cons.prems obtain r where r: "b (e, t, y) = Some r"
    and rest: "settleParts e t approved parts (b((e, t, y) \<mapsto> r\<lparr>lb_pending := lb_pending r + (- d),
        lb_taken := lb_taken r + (if approved then d else 0)\<rparr>)) = Inr b'"
    unfolding p by (cases approved) (auto simp: bindR_eq_Inr)
  have "usedOf b' k = addUse (- partsOn parts e t k) (if approved then partsOn parts e t k else 0)
      (addUse (if k = (e, t, y) then - d else 0) (if k = (e, t, y) then if approved then d else 0 else 0)
        (usedOf b k))"
    unfolding Cons.IH [OF rest] by (simp only: usedOf_upd [where b = b and t = "if approved then d else 0", OF r])
  then show ?case by (simp add: p)
qed

lemma settleParts_ok:
  "settleParts e t approved parts b = Inr b' \<Longrightarrow> balancesOk types b \<Longrightarrow> \<forall>p \<in> set parts. 0 \<le> snd p \<Longrightarrow> balancesOk types b'"
proof (induction parts arbitrary: b)
  case Nil
  then show ?case by simp
next
  case (Cons p parts)
  obtain y d where p: "p = (y, d)" by (cases p)
  let ?r = "\<lambda>r. r\<lparr>lb_pending := lb_pending r - d, lb_taken := (if approved then lb_taken r + d else lb_taken r)\<rparr>"
  from Cons.prems(1) obtain r where r: "b (e, t, y) = Some r"
    and rest: "settleParts e t approved parts (b((e, t, y) \<mapsto> ?r r)) = Inr b'"
    unfolding p by (auto simp: bindR_eq_Inr)
  have "carryCols (b((e, t, y) \<mapsto> ?r r)) = carryCols b"
    by (rule carryCols_upd [where b = b, OF r]) simp_all
  then have "yearChain types (b((e, t, y) \<mapsto> ?r r))"
    by (rule yearChain_cols) (use Cons.prems(2) in \<open>simp add: balancesOk_def\<close>)
  moreover have "noneShort types (b((e, t, y) \<mapsto> ?r r))"
  proof (rule noneShort_upd)
    show "noneShort types b" using Cons.prems(2) by (simp add: balancesOk_def)
    fix ty assume "types (fst (snd (e, t, y))) = Some ty" "lt_paid ty"
    with Cons.prems(2) r have "0 \<le> freeDays r" unfolding balancesOk_def noneShort_def by fastforce
    with Cons.prems(3) show "0 \<le> freeDays (?r r)" by (simp add: p freeDays_def)
  qed
  ultimately show ?case using Cons.IH [OF rest] Cons.prems(3)
    by (simp add: balancesOk_def del: fun_upd_apply)
qed

lemma requestParts_nonneg: "p \<in> set (requestParts r) \<Longrightarrow> 0 \<le> snd p"
  by (simp only: requestParts_def partsOf_def set_filter) auto

lemma partsOn_charge:
  "rq_kind r = RK_LEAVE \<Longrightarrow> rq_leaveTypeId r = Some t \<Longrightarrow>
   partsOn (requestParts r) (rq_employeeId r) t k = chargeOn r k"
  by (auto simp: partsOn_def chargeOn_def)

lemma chargeOn_none: "rq_kind r \<noteq> RK_LEAVE \<or> rq_leaveTypeId r = None \<Longrightarrow> chargeOn r k = 0"
  by (auto simp: chargeOn_def)

lemma settle_used:
  "settle held approved b = Inr b' \<Longrightarrow>
   usedOf b' k = addUse (- chargeOn held k) (if approved then chargeOn held k else 0) (usedOf b k)"
  by (auto simp: settle_def settleParts_used partsOn_charge chargeOn_none split: option.splits if_splits)

lemma settle_ok: "settle held approved b = Inr b' \<Longrightarrow> balancesOk types b \<Longrightarrow> balancesOk types b'"
  unfolding settle_def
  by (auto split: option.splits if_splits intro: settleParts_ok [OF _ _ ballI [OF requestParts_nonneg]])

text \<open>What one filing says, which no later handler changes.\<close>

definition sameFiling :: "Request \<Rightarrow> Request \<Rightarrow> bool" where
  "sameFiling a b \<longleftrightarrow>
     rq_employeeId a = rq_employeeId b \<and> rq_kind a = rq_kind b \<and> rq_leaveTypeId a = rq_leaveTypeId b
     \<and> rq_fromDate a = rq_fromDate b \<and> rq_toDate a = rq_toDate b \<and> rq_halfDay a = rq_halfDay b
     \<and> rq_dayPart a = rq_dayPart b \<and> rq_days a = rq_days b \<and> rq_nextYearDays a = rq_nextYearDays b"

lemma sameFiling_charge: "sameFiling a b \<Longrightarrow> chargeOn a k = chargeOn b k"
  by (simp add: sameFiling_def chargeOn_def requestParts_def)

lemma sameFiling_trans: "sameFiling a b \<Longrightarrow> sameFiling b c \<Longrightarrow> sameFiling a c"
  by (simp add: sameFiling_def)

lemma tally_upd:
  assumes "ledgerOk db" "lv_requests db i = Some r"
  shows "tally P (db\<lparr>lv_requests := (lv_requests db)(i \<mapsto> r')\<rparr>) k =
     tally P db k - (if P r then chargeOn r k else 0) + (if P r' then chargeOn r' k else 0)"
proof -
  let ?g = "\<lambda>j. case lv_requests db j of None \<Rightarrow> 0 | Some r \<Rightarrow> if P r then chargeOn r k else 0"
  have "i \<in> set (lv_order db)" "distinct (lv_order db)" using assms by (auto simp: ledgerOk_def)
  moreover have "(\<lambda>j. case ((lv_requests db)(i \<mapsto> r')) j of None \<Rightarrow> 0 | Some r \<Rightarrow> if P r then chargeOn r k else 0)
      = ?g(i := if P r' then chargeOn r' k else 0)" by auto
  ultimately show ?thesis using assms(2) by (simp add: tally_def sum_list_map_upd del: fun_upd_apply)
qed

lemma tally_new:
  assumes "ledgerOk db" "lv_requests db i = None"
  shows "tally P (db\<lparr>lv_balances := b, lv_requests := (lv_requests db)(i \<mapsto> r), lv_order := lv_order db @ [i]\<rparr>) k =
     tally P db k + (if P r then chargeOn r k else 0)"
proof -
  have "i \<notin> set (lv_order db)" using assms by (auto simp: ledgerOk_def)
  then have "map (\<lambda>j. case ((lv_requests db)(i \<mapsto> r)) j of None \<Rightarrow> 0 | Some r \<Rightarrow> if P r then chargeOn r k else 0) (lv_order db)
      = map (\<lambda>j. case lv_requests db j of None \<Rightarrow> 0 | Some r \<Rightarrow> if P r then chargeOn r k else 0) (lv_order db)"
    by auto
  from arg_cong [where f = sum_list, OF this] show ?thesis by (simp add: tally_def)
qed

lemma tally_ts [simp]: "tally P (db\<lparr>lv_ts := x\<rparr>) k = tally P db k" "tally P (db\<lparr>lv_balances := b\<rparr>) k = tally P db k"
  by (simp_all add: tally_def)

subsection \<open>Every handler keeps the ledger\<close>

definition noClash :: "LeaveDb \<Rightarrow> bool" where
  "noClash db \<longleftrightarrow>
     (\<forall>i j a b. i \<noteq> j \<and> lv_requests db i = Some a \<and> lv_requests db j = Some b \<longrightarrow> \<not> clashes a b)"

definition leaveOk :: "LeaveDb \<Rightarrow> bool" where
  "leaveOk db \<longleftrightarrow> ratesOk (lv_types db) \<and> ledgerOk db \<and> balancesOk (lv_types db) (lv_balances db) \<and> noClash db"

lemma requestRows_mem: "ledgerOk db \<Longrightarrow> r \<in> set (requestRows db) \<longleftrightarrow> (\<exists>i. lv_requests db i = Some r)"
  by (force simp: requestRows_def List.map_filter_def ledgerOk_def dom_def)

lemma clashes_sym: "clashes a b \<longleftrightarrow> clashes b a"
  by (auto simp: clashes_def)

lemma noClash_upd:
  assumes clash: "noClash db" and apart: "\<And>m x. lv_requests db m = Some x \<Longrightarrow> m \<noteq> i \<Longrightarrow> \<not> clashes r x"
    and db': "lv_requests db' = (lv_requests db)(i \<mapsto> r)"
  shows "noClash db'"
  unfolding noClash_def
proof (intro allI impI, elim conjE)
  fix j l a c
  assume jl: "j \<noteq> l" "lv_requests db' j = Some a" "lv_requests db' l = Some c"
  consider "j = i" | "l = i" | "j \<noteq> i" "l \<noteq> i" by blast
  then show "\<not> clashes a c"
  proof cases
    case 1
    with jl apart [of l c] show ?thesis by (simp add: db')
  next
    case 2
    with jl apart [of j a] show ?thesis using clashes_sym by (simp add: db')
  next
    case 3
    with jl clash show ?thesis unfolding noClash_def by (simp add: db')
  qed
qed

lemma clashes_same:
  "sameFiling a a' \<Longrightarrow> (reserves a' \<Longrightarrow> reserves a) \<Longrightarrow> clashes a' b \<Longrightarrow> clashes a b"
  by (auto simp: clashes_def sameFiling_def slotFrom_def slotUntil_def)

text \<open>What \<open>prepareRequest\<close> returns: a pending row, and the leave type exactly for leave.\<close>

definition prepared :: "types \<Rightarrow> (string \<times> LeaveType) option \<Rightarrow> Request \<Rightarrow> bool" where
  "prepared types type r \<longleftrightarrow> rq_state r = RS_PENDING \<and>
     (case type of
        None \<Rightarrow> rq_kind r \<noteq> RK_LEAVE
      | Some (t, ty) \<Rightarrow> rq_kind r = RK_LEAVE \<and> rq_leaveTypeId r = Some t \<and> types t = Some ty)"

lemma prepareRequest_prepared:
  "prepareRequest today db e body = Inr (type, r) \<Longrightarrow> prepared (lv_types db) type r \<and> rq_employeeId r = e"
  by (auto simp: prepareRequest_def Let_def bindR_eq_Inr prepared_def fileableType_def
      split: option.splits if_splits)

lemma fileRequest_eq:
  "fileRequest thisYear db i type r = Inr db' \<longleftrightarrow>
     (\<exists>b. (case type of
             None \<Rightarrow> b = lv_balances db
           | Some (t, ty) \<Rightarrow>
               hold (ts_employees (lv_ts db)) (lv_types db) thisYear (rq_employeeId r) t (lt_paid ty)
                 (requestParts r) (lv_balances db) = Inr b)
        \<and> lv_requests db i = None \<and> (\<forall>key. rq_clientKey r = Some key \<longrightarrow> byClientKey db key = None)
        \<and> (\<forall>o' \<in> set (requestRows db). \<not> clashes r o')
        \<and> db' = db\<lparr>lv_balances := b, lv_requests := (lv_requests db)(i \<mapsto> r), lv_order := lv_order db @ [i]\<rparr>)"
  by (auto simp: fileRequest_def bindR_eq_Inr requestParts_def split: option.splits)

lemma fileRequest_ok:
  assumes ok: "leaveOk db" and prep: "prepared (lv_types db) type r"
    and filed: "fileRequest thisYear db i type r = Inr db'"
  shows "leaveOk db'"
proof -
  from filed obtain b where
    held: "case type of None \<Rightarrow> b = lv_balances db
           | Some (t, ty) \<Rightarrow> hold (ts_employees (lv_ts db)) (lv_types db) thisYear (rq_employeeId r) t (lt_paid ty)
                 (requestParts r) (lv_balances db) = Inr b"
    and new: "lv_requests db i = None" and apart: "\<forall>o' \<in> set (requestRows db). \<not> clashes r o'"
    and db': "db' = db\<lparr>lv_balances := b, lv_requests := (lv_requests db)(i \<mapsto> r), lv_order := lv_order db @ [i]\<rparr>"
    by (auto simp: fileRequest_eq)
  have rates: "ratesOk (lv_types db)" and ledger: "ledgerOk db"
    and bal: "balancesOk (lv_types db) (lv_balances db)" and clash: "noClash db"
    using ok by (simp_all add: leaveOk_def)
  have used: "usedOf b k = addUse (chargeOn r k) 0 (usedOf (lv_balances db) k)" for k
  proof (cases type)
    case None
    with held prep show ?thesis by (simp add: prepared_def chargeOn_none)
  next
    case (Some tt)
    then obtain t ty where t: "type = Some (t, ty)" by (cases tt) simp
    with held have "hold (ts_employees (lv_ts db)) (lv_types db) thisYear (rq_employeeId r) t (lt_paid ty)
        (requestParts r) (lv_balances db) = Inr b" by simp
    from hold_used [OF this] t prep show ?thesis by (simp add: prepared_def partsOn_charge)
  qed
  have bal': "balancesOk (lv_types db) b"
  proof (cases type)
    case None
    with held bal show ?thesis by simp
  next
    case (Some tt)
    then obtain t ty where t: "type = Some (t, ty)" by (cases tt) simp
    with held prep show ?thesis by (auto simp: prepared_def intro: hold_ok [OF rates _ refl _ bal])
  qed
  have "i \<notin> set (lv_order db)" using ledger new by (auto simp: ledgerOk_def)
  then have "ledgerOk db'"
    using ledger prep
    by (auto simp: ledgerOk_def db' tally_new [OF ledger new] used addUse_def isPending_def isApproved_def prepared_def)
  moreover have "noClash db'"
    by (rule noClash_upd [OF clash, where i = i and r = r])
      (use apart requestRows_mem [OF ledger] in \<open>auto simp: db'\<close>)
  ultimately show ?thesis using rates bal' by (simp add: leaveOk_def db')
qed

text \<open>A claimed row changes its state only, and only to a state that reserves no more than before.\<close>

definition settling :: "(Request \<Rightarrow> Request) \<Rightarrow> bool \<Rightarrow> bool" where
  "settling upd approved \<longleftrightarrow>
     (\<forall>r. sameFiling r (upd r) \<and> \<not> isPending (upd r) \<and> (isApproved (upd r) \<longleftrightarrow> approved))"

lemma settled_ok:
  assumes ok: "leaveOk db" and now: "lv_requests db i = Some r" "isPending r"
    and held: "sameFiling held r" and upd: "settling upd approved"
    and b: "settle held approved (lv_balances db) = Inr b"
  shows "leaveOk (db\<lparr>lv_requests := (lv_requests db)(i \<mapsto> upd r), lv_balances := b\<rparr>)" (is "leaveOk ?db")
proof -
  have rates: "ratesOk (lv_types db)" and ledger: "ledgerOk db"
    and bal: "balancesOk (lv_types db) (lv_balances db)" and clash: "noClash db"
    using ok by (simp_all add: leaveOk_def)
  have same: "sameFiling r (upd r)" and st: "\<not> isPending (upd r)" "isApproved (upd r) \<longleftrightarrow> approved"
    using upd by (simp_all add: settling_def)
  have charge: "chargeOn held k = chargeOn r k" "chargeOn (upd r) k = chargeOn r k" for k
    using sameFiling_charge [OF held] sameFiling_charge [OF same] by simp_all
  have "\<not> isApproved r" using now(2) by (simp add: isPending_def isApproved_def)
  with ledger now st have "ledgerOk ?db"
    by (auto simp: ledgerOk_def tally_upd [OF ledger now(1)] settle_used [OF b] charge addUse_def)
  moreover have "balancesOk (lv_types db) b" by (rule settle_ok [OF b bal])
  moreover have res: "reserves r" if "reserves (upd r)"
    using that same now(2) by (auto simp: reserves_def sameFiling_def isPending_def)
  have "noClash ?db"
  proof (rule noClash_upd [OF clash, where i = i and r = "upd r"])
    fix m x assume "lv_requests db m = Some x" "m \<noteq> i"
    with clash now(1) have "\<not> clashes r x" unfolding noClash_def by metis
    then show "\<not> clashes (upd r) x" using clashes_same [OF same res] by blast
  qed simp
  ultimately show ?thesis using rates by (simp add: leaveOk_def)
qed

lemma leaveOk_ts [simp]: "leaveOk (db\<lparr>lv_ts := x\<rparr>) \<longleftrightarrow> leaveOk db"
  by (simp add: leaveOk_def ledgerOk_def noClash_def)

text \<open>\<open>db\<close> is a later state of \<open>db0\<close> as far as a handler that read \<open>db0\<close> is concerned: the leave types
  are the same and every filing it saw is still there, whatever became of it.\<close>

definition laterThan :: "LeaveDb \<Rightarrow> LeaveDb \<Rightarrow> bool" where
  "laterThan db0 db \<longleftrightarrow> lv_types db = lv_types db0 \<and>
     (\<forall>i a. lv_requests db0 i = Some a \<longrightarrow> (\<exists>b. lv_requests db i = Some b \<and> sameFiling a b))"

lemma laterThan_refl [simp]: "laterThan db db"
  by (simp add: laterThan_def sameFiling_def)

lemma laterThanD:
  "laterThan db0 db \<Longrightarrow> lv_requests db0 i = Some a \<Longrightarrow> lv_requests db i = Some r \<Longrightarrow> sameFiling a r"
  unfolding laterThan_def by fastforce

lemma settling_decided: "settling (decidedRequest by' now approve note) approve"
  by (simp add: settling_def decidedRequest_def sameFiling_def isPending_def isApproved_def)

lemma settling_cancelled: "settling (\<lambda>r. r\<lparr>rq_state := RS_CANCELLED\<rparr>) False"
  by (simp add: settling_def sameFiling_def isPending_def isApproved_def)

lemma commitDecision_eq:
  "commitDecision db held v i now approve note = Inr db' \<longleftrightarrow>
     (\<exists>r b. lv_requests db i = Some r \<and> isPending r \<and> settle held approve (lv_balances db) = Inr b
        \<and> db' = (let db1 = db\<lparr>lv_requests := (lv_requests db)(i \<mapsto> decidedRequest (v_userId v) now approve note r),
                              lv_balances := b\<rparr>
                in db1\<lparr>lv_ts := (lv_ts db1)\<lparr>ts_days :=
                     approvedDays (requestRows db1) held approve (v_userId v) now (ts_days (lv_ts db1))\<rparr>\<rparr>))"
  by (rule claim_cases [of "lv_requests db" i isPending "decidedRequest (v_userId v) now approve note"])
    (auto simp: commitDecision_def bindR_eq_Inr Let_def)

lemma decide_ok:
  assumes "leaveOk db" "laterThan db0 db" "decide today now db0 db v i approve note = Inr (db', fx)"
  shows "leaveOk db'"
proof -
  from assms(3) obtain held r b where held: "lv_requests db0 i = Some held"
    and r: "lv_requests db i = Some r" "isPending r" and b: "settle held approve (lv_balances db) = Inr b"
    and db': "\<exists>x. db' = (db\<lparr>lv_requests := (lv_requests db)(i \<mapsto> decidedRequest (v_userId v) now approve note r),
       lv_balances := b\<rparr>)\<lparr>lv_ts := x\<rparr>"
    by (auto simp: decide_def bindR_eq_Inr commitDecision_eq Let_def)
  have "sameFiling held r" by (rule laterThanD [OF assms(2) held r(1)])
  from settled_ok [OF assms(1) r this settling_decided b] db' show ?thesis by auto
qed

lemma cancel_eq:
  "cancel db0 db v i = Inr (db', fx) \<longleftrightarrow>
     (\<exists>held r b. lv_requests db0 i = Some held \<and> v_employeeId v = Some (rq_employeeId held)
        \<and> rq_state held = RS_PENDING \<and> lv_requests db i = Some r \<and> isPending r
        \<and> release held (lv_balances db) = Inr b \<and> fx = [ItemClosed ''REQUESTS'' i ''WITHDRAWN'']
        \<and> db' = db\<lparr>lv_requests := (lv_requests db)(i \<mapsto> r\<lparr>rq_state := RS_CANCELLED\<rparr>), lv_balances := b\<rparr>)"
  by (rule claim_cases [of "lv_requests db" i isPending "\<lambda>r. r\<lparr>rq_state := RS_CANCELLED\<rparr>"])
    (auto simp: cancel_def bindR_eq_Inr Let_def)

lemma cancel_ok:
  assumes "leaveOk db" "laterThan db0 db" "cancel db0 db v i = Inr (db', fx)"
  shows "leaveOk db'"
proof -
  from assms(3) obtain held r b where held: "lv_requests db0 i = Some held"
    and r: "lv_requests db i = Some r" "isPending r" and b: "settle held False (lv_balances db) = Inr b"
    and db': "db' = db\<lparr>lv_requests := (lv_requests db)(i \<mapsto> r\<lparr>rq_state := RS_CANCELLED\<rparr>), lv_balances := b\<rparr>"
    unfolding cancel_eq release_def by blast
  have "sameFiling held r" by (rule laterThanD [OF assms(2) held r(1)])
  from settled_ok [OF assms(1) r this settling_cancelled b] show ?thesis by (simp add: db')
qed

lemma submit_ok:
  assumes "leaveOk db" "laterThan db0 db" "submit today db0 db v body i = Inr (db', r, fx)"
  shows "leaveOk db'"
proof -
  have types: "lv_types db = lv_types db0" using assms(2) by (simp add: laterThan_def)
  from assms(3) have "db' = db \<or> (\<exists>e type r'. prepareRequest today db0 e body = Inr (type, r')
      \<and> fileRequest (yearOf today) db i type r' = Inr db')"
    by (auto simp: submit_def bindR_eq_Inr alreadyFiled_def split: option.splits sum.splits if_splits)
  then show ?thesis
    using assms(1) fileRequest_ok [OF assms(1)] prepareRequest_prepared types by metis
qed

lemma openYear_leaveOk:
  assumes "leaveOk db"
  shows "leaveOk (db\<lparr>lv_balances := openYear es (lv_types db) year (lv_balances db)\<rparr>)"
proof -
  have "usedOf (openYear es (lv_types db) year (lv_balances db)) = usedOf (lv_balances db)"
    using sameUse_openYear by (simp add: sameUse_def)
  then show ?thesis using assms by (simp add: leaveOk_def ledgerOk_def openYear_ok noClash_def)
qed

text \<open>
  The step relation: any handler may have read an earlier state than the one it commits on; the
  year opens; the queue builds days.
\<close>

inductive leaveStep :: "LeaveDb \<Rightarrow> LeaveDb \<Rightarrow> bool" where
  filing: "laterThan db0 db \<Longrightarrow> submit today db0 db v body i = Inr (db', r, fx) \<Longrightarrow> leaveStep db db'"
| deciding: "laterThan db0 db \<Longrightarrow> decide today now db0 db v i approve note = Inr (db', fx) \<Longrightarrow> leaveStep db db'"
| cancelling: "laterThan db0 db \<Longrightarrow> cancel db0 db v i = Inr (db', fx) \<Longrightarrow> leaveStep db db'"
| yearOpening: "leaveStep db (db\<lparr>lv_balances := openYear (ts_employees (lv_ts db)) (lv_types db) year (lv_balances db)\<rparr>)"
| building: "leaveStep db (db\<lparr>lv_ts := snd (runJob off today ((lv_ts db)\<lparr>ts_requests := requestRows db\<rparr>) job)\<rparr>)"

inductive_cases leaveStepE: "leaveStep db db'"

inductive leaveReach :: "LeaveDb \<Rightarrow> bool" where
  start: "ratesOk (lv_types db) \<Longrightarrow> lv_requests db = Map.empty \<Longrightarrow> lv_order db = [] \<Longrightarrow>
    lv_balances db = Map.empty \<Longrightarrow> leaveReach db"
| step: "leaveReach db \<Longrightarrow> leaveStep db db' \<Longrightarrow> leaveReach db'"

lemma leaveStep_ok: "leaveStep db db' \<Longrightarrow> leaveOk db \<Longrightarrow> leaveOk db'"
  by (erule leaveStepE) (auto intro: submit_ok decide_ok cancel_ok openYear_leaveOk)

lemma leaveReach_ok: "leaveReach db \<Longrightarrow> leaveOk db"
proof (induction rule: leaveReach.induct)
  case (start db)
  then show ?case
    by (auto simp: leaveOk_def ledgerOk_def balancesOk_def yearChain_def noneShort_def noClash_def
        usedOf_def tally_def)
next
  case (step db db')
  then show ?case by (simp add: leaveStep_ok)
qed

subsection \<open>Answers\<close>

text \<open>A pending request is answered by the write of a decision or of a cancellation.\<close>

datatype Answer = Decision string instant bool "string option" | Cancellation

definition answer :: "Answer \<Rightarrow> Request \<Rightarrow> Request" where
  "answer a r =
     (case a of
        Decision by' now approve note \<Rightarrow> decidedRequest by' now approve note r
      | Cancellation \<Rightarrow> r\<lparr>rq_state := RS_CANCELLED\<rparr>)"

interpretation answers: one_winner isPending answer
  by unfold_locales (auto simp: answer_def isPending_def decidedRequest_def split: Answer.splits)

lemma workdays_range: "d \<in> set (workdays hs ent f t) \<Longrightarrow> f \<le> d \<and> d \<le> t"
  by (auto simp: workdays_filter)

definition workingDays :: "LeaveDb \<Rightarrow> int \<Rightarrow> day \<Rightarrow> day \<Rightarrow> bool \<Rightarrow> day list" where
  "workingDays db e f t calendarDays =
     (if calendarDays then everyDay f t
      else workdays (ts_holidays (lv_ts db))
             (map_option em_legalEntityId (employeeOf (ts_employees (lv_ts db)) e)) f t)"

lemma workingDays_range: "d \<in> set (workingDays db e f t cal) \<Longrightarrow> f \<le> d \<and> d \<le> t"
  by (auto simp: workingDays_def everyDay_upto dest: workdays_range split: if_splits)

lemma charge_whole:
  "charge db e f t False cal = Inr (d, n) \<longleftrightarrow>
     yearOf t \<le> yearOf f + 1 \<and> workingDays db e f t cal \<noteq> []
     \<and> d = WHOLE_DAY * int (length (workingDays db e f t cal))
     \<and> n = WHOLE_DAY * int (length (filter (\<lambda>x. yearOf x > yearOf f) (workingDays db e f t cal)))"
  by (auto simp: charge_def workingDays_def Let_def)

lemma partsOf_sum:
  "0 \<le> n \<Longrightarrow> n \<le> d \<Longrightarrow> partsSum (partsOf f d n) y = (if y = yearOf f then d - n else if y = yearOf f + 1 then n else 0)"
  by (auto simp: partsOf_def)

subsection \<open>Properties\<close>

text \<open>C2: the leave ledger. However filings, decisions, cancellations, year openings and day builds
  interleave, each acting on what it read earlier: what a balance row holds is the sum of the
  charges of the waiting requests, what it counts taken the sum of the granted ones; nobody's paid
  leave is overbooked; each year carried in what the year before carried out; and no two requests
  that wait or are granted share half a day.\<close>

theorem leave_ledger:
  assumes "leaveReach db"
  shows "(\<forall>e t y r. lv_balances db (e, t, y) = Some r \<longrightarrow>
            lb_pending r = tally isPending db (e, t, y) \<and> lb_taken r = tally isApproved db (e, t, y)
            \<and> lb_carriedOver r = outOf (lv_balances db) (e, t, y - 1)
            \<and> (\<forall>ty. lv_types db t = Some ty \<and> lt_paid ty \<longrightarrow> 0 \<le> freeDays r))
    \<and> (\<forall>k. lv_balances db k = None \<longrightarrow> tally isPending db k = 0 \<and> tally isApproved db k = 0)
    \<and> noClash db"
proof -
  from leaveReach_ok [OF assms] have ledger: "ledgerOk db" and chain: "yearChain (lv_types db) (lv_balances db)"
    and short: "noneShort (lv_types db) (lv_balances db)" and clash: "noClash db"
    by (simp_all add: leaveOk_def balancesOk_def)
  have used: "usedOf (lv_balances db) k = (tally isPending db k, tally isApproved db k)" for k
    using ledger unfolding ledgerOk_def by blast
  have "lb_pending r = tally isPending db (e, t, y) \<and> lb_taken r = tally isApproved db (e, t, y)
      \<and> lb_carriedOver r = outOf (lv_balances db) (e, t, y - 1)
      \<and> (\<forall>ty. lv_types db t = Some ty \<and> lt_paid ty \<longrightarrow> 0 \<le> freeDays r)"
    if r: "lv_balances db (e, t, y) = Some r" for e t y r
    using used [of "(e, t, y)"] r yearChainD(1) [OF chain r] short
    unfolding noneShort_def by (auto simp: usedOf_def)
  moreover have "tally isPending db k = 0 \<and> tally isApproved db k = 0" if "lv_balances db k = None" for k
    using used [of k] that by (simp add: usedOf_def)
  ultimately show ?thesis using clash by blast
qed


text \<open>Who a decision comes from: never the person who asked, never a desk account without an
  employee; a desk that reaches the person's entity, the named approver or today's stand-in for them
  holding an inbox, or a manager above the person.\<close>

theorem decide_authorised:
  assumes "decide today now db0 db v i approve note = Inr (db', fx)"
  shows "\<exists>held. lv_requests db0 i = Some held \<and> rq_state held = RS_PENDING
    \<and> v_employeeId v \<noteq> Some (rq_employeeId held) \<and> \<not> isUnlinkedDesk v
    \<and> (v_role v \<in> {ADMIN, HR} \<and> reaches (peopleIn db0) v None (rq_employeeId held)
       \<or> answersFor db0 today v held
       \<or> (\<exists>own. v_role v = MANAGER \<and> v_employeeId v = Some own
            \<and> (own, rq_employeeId held) \<in> (reports (peopleIn db0))\<^sup>+))"
proof -
  from assms obtain held where held: "lv_requests db0 i = Some held"
    and may: "mayDecide db0 today v held = Inr ()" by (auto simp: decide_def bindR_eq_Inr)
  from may have none: "refusal db0 today v held = None" and pending: "rq_state held = RS_PENDING"
    by (auto simp: mayDecide_def Let_def)
  from none have other: "v_employeeId v \<noteq> Some (rq_employeeId held)" "\<not> isUnlinkedDesk v"
    by (auto simp: refusal_def Let_def split: if_splits)
  from none consider "v_role v \<in> THE_DESK" "reaches (peopleIn db0) v None (rq_employeeId held)"
    | "answersFor db0 today v held"
    | ids where "visibleEmployeeIds (peopleIn db0) v = Some ids" "rq_employeeId held \<in> set ids"
    by (auto simp: refusal_def Let_def split: if_splits option.splits)
  then show ?thesis
  proof cases
    case 3
    with other obtain own where own: "v_employeeId v = Some own" "v_role v = MANAGER"
      "rq_employeeId held \<in> set (subtree (peopleIn db0) own)"
      by (auto simp: visibleEmployeeIds_def split: if_splits option.splits)
    then have "(own, rq_employeeId held) \<in> (reports (peopleIn db0))\<^sup>+"
      using other(1) by (auto simp: subtree_set rtrancl_eq_or_trancl split: if_splits)
    with own held pending other show ?thesis by blast
  qed (use held pending other in \<open>auto simp: THE_DESK_def\<close>)
qed

text \<open>What leave of whole days is charged: ten tenths for each working day of the range (each day,
  for a calendar-day type), in the year the day falls in; at least one day, and no third year.\<close>

theorem charge_by_year:
  assumes "charge db e f t False cal = Inr (d, n)" "f \<le> t"
  shows "partsSum (partsOf f d n) y =
      WHOLE_DAY * int (length (filter (\<lambda>x. yearOf x = y) (workingDays db e f t cal)))
    \<and> 0 \<le> n \<and> n \<le> d \<and> 0 < d"
proof -
  let ?w = "workingDays db e f t cal"
  from assms(1) have t: "yearOf t \<le> yearOf f + 1" and ne: "?w \<noteq> []"
    and d: "d = WHOLE_DAY * int (length ?w)"
    and n: "n = WHOLE_DAY * int (length (filter (\<lambda>x. yearOf x > yearOf f) ?w))"
    by (simp_all add: charge_whole)
  have years: "yearOf f \<le> yearOf x \<and> yearOf x \<le> yearOf f + 1" if "x \<in> set ?w" for x
    using workingDays_range [OF that] yearOf_mono [of f x] yearOf_mono [of x t] t by linarith
  have next': "filter (\<lambda>x. yearOf x > yearOf f) ?w = filter (\<lambda>x. yearOf x = yearOf f + 1) ?w"
    by (rule filter_cong [OF refl]) (use years in fastforce)
  have first: "length ?w - length (filter (\<lambda>x. yearOf x > yearOf f) ?w) = length (filter (\<lambda>x. yearOf x = yearOf f) ?w)"
  proof -
    have "filter (\<lambda>x. \<not> yearOf x > yearOf f) ?w = filter (\<lambda>x. yearOf x = yearOf f) ?w"
      by (rule filter_cong [OF refl]) (use years in fastforce)
    then show ?thesis using sum_length_filter_compl [of "\<lambda>x. yearOf x > yearOf f" ?w] by simp
  qed
  have none: "filter (\<lambda>x. yearOf x = y) ?w = []" if "y \<noteq> yearOf f" "y \<noteq> yearOf f + 1"
    using years that by (fastforce simp: filter_empty_conv)
  have le: "length (filter (\<lambda>x. yearOf x > yearOf f) ?w) \<le> length ?w" by simp
  then have dn: "d - n = WHOLE_DAY * int (length (filter (\<lambda>x. yearOf x = yearOf f) ?w))"
    unfolding d n first [symmetric] by (simp add: of_nat_diff right_diff_distrib)
  have bounds: "0 \<le> n" "n \<le> d" "0 < d" using le ne by (simp_all add: d n WHOLE_DAY_def)
  then show ?thesis using dn none by (auto simp: partsOf_sum n next')
qed

subsection \<open>A small company\<close>

text \<open>Employee 7 reports to 3; the one leave type grants a single day a year. Day 20003 is a Monday.\<close>

definition sampleStaff :: "Employee list" where
  "sampleStaff =
     [\<lparr>em_id = 3, em_legalEntityId = ''A'', em_managerId = None, em_active = True, em_hireDate = None,
       em_leaveDate = None, em_departmentId = None, em_bankName = None, em_bankAccount = None\<rparr>,
      \<lparr>em_id = 7, em_legalEntityId = ''A'', em_managerId = Some 3, em_active = True, em_hireDate = None,
       em_leaveDate = None, em_departmentId = None, em_bankName = None, em_bankAccount = None\<rparr>]"

definition sampleTypes :: types where
  "sampleTypes = [''AL'' \<mapsto> \<lparr>lt_paid = True, lt_daysPerYear = 10, lt_carryOverMax = 0, lt_calendarDays = False, lt_active = True\<rparr>]"

definition emptyLeave :: LeaveDb where
  "emptyLeave =
     \<lparr>lv_requests = Map.empty, lv_order = [], lv_balances = Map.empty, lv_types = sampleTypes,
      lv_delegations = [],
      lv_ts = \<lparr>ts_punches = [], ts_employees = sampleStaff, ts_holidays = [], ts_requests = [],
               ts_assignments = [], ts_days = Map.empty\<rparr>\<rparr>"

definition sampleBody :: SubmitRequestDto where
  "sampleBody =
     \<lparr>sb_clientKey = Some ''k1'', sb_kind = RK_LEAVE, sb_leaveTypeId = Some ''AL'', sb_fromDate = 20003,
      sb_toDate = 20003, sb_halfDay = False, sb_dayPart = None, sb_minutes = None, sb_fromAt = None,
      sb_toAt = None, sb_reason = ''family'', sb_attachmentUrl = None\<rparr>"

definition sampleAsker :: Viewer where
  "sampleAsker = \<lparr>v_userId = ''u7'', v_role = EMPLOYEE, v_employeeId = Some 7, v_entityIds = None\<rparr>"

definition sampleManager :: Viewer where
  "sampleManager = \<lparr>v_userId = ''u3'', v_role = MANAGER, v_employeeId = Some 3, v_entityIds = None\<rparr>"

lemma yearOf_samples: "yearOf 20003 = 2024" "yearOf 20000 = 2024"
  by (rule yearOf_unique; simp add: dayFromYear_def)+

lemma prepare_sample:
  "\<exists>r. prepareRequest 20000 emptyLeave 7 sampleBody = Inr (Some (''AL'', the (sampleTypes ''AL'')), r)
     \<and> rq_state r = RS_PENDING \<and> rq_employeeId r = 7 \<and> rq_clientKey r = Some ''k1''
     \<and> requestParts r = [(2024, 10)] \<and> rq_days r = 10 \<and> rq_kind r = RK_LEAVE"
proof -
  have "charge emptyLeave 7 20003 20003 False False = Inr (10, 0)"
    by (simp add: charge_whole workingDays_def workdays_filter emptyLeave_def declaredFor_def getUTCDay_def
        WHOLE_DAY_def employeeOf_def sampleStaff_def)
  then show ?thesis
    by (simp add: prepareRequest_def Let_def sampleBody_def emptyLeave_def fileableType_def sampleTypes_def
        requestParts_def partsOf_def yearOf_samples)
qed

lemma ensure_sample:
  "ensure sampleStaff sampleTypes 2024 Map.empty (7, ''AL'') 2024 (7, ''AL'', 2024) =
     Some \<lparr>lb_entitled = 10, lb_carriedOver = 0, lb_taken = 0, lb_pending = 0, lb_carriedOut = 0, lb_closed = False\<rparr>"
  by (simp add: ensure_def rowCreated_def carryInto_at rowsFor_def closing_def employeeOf_def sampleStaff_def
      sampleTypes_def openingRow_def entitledIn_def)

lemma file_sample:
  "\<exists>db1 r. prepareRequest 20000 emptyLeave 7 sampleBody = Inr (Some (''AL'', the (sampleTypes ''AL'')), r)
     \<and> fileRequest 2024 emptyLeave ''r1'' (Some (''AL'', the (sampleTypes ''AL''))) r = Inr db1
     \<and> lv_requests db1 = [''r1'' \<mapsto> r] \<and> lv_order db1 = [''r1''] \<and> isPending r \<and> rq_employeeId r = 7
     \<and> rq_clientKey r = Some ''k1'' \<and> requestParts r = [(2024, 10)] \<and> rq_kind r = RK_LEAVE
     \<and> (\<exists>b. lv_balances db1 (7, ''AL'', 2024) = Some b \<and> freeDays b = 0)
     \<and> lv_ts db1 = lv_ts emptyLeave \<and> lv_types db1 = sampleTypes"
proof -
  from prepare_sample obtain r where r: "prepareRequest 20000 emptyLeave 7 sampleBody
      = Inr (Some (''AL'', the (sampleTypes ''AL'')), r)" "rq_state r = RS_PENDING" "rq_employeeId r = 7"
    "rq_clientKey r = Some ''k1''" "requestParts r = [(2024, 10)]" "rq_kind r = RK_LEAVE" by blast
  have rows: "requestRows emptyLeave = []" by (simp add: requestRows_def emptyLeave_def List.map_filter_def)
  obtain b where b: "hold sampleStaff sampleTypes 2024 7 ''AL'' True [(2024, 10)] Map.empty = Inr b"
    "\<exists>x. b (7, ''AL'', 2024) = Some x \<and> freeDays x = 0"
    by (simp add: hold_Cons ensure_sample freeDays_def)
  have "fileRequest 2024 emptyLeave ''r1'' (Some (''AL'', the (sampleTypes ''AL''))) r =
      Inr (emptyLeave\<lparr>lv_balances := b, lv_requests := (lv_requests emptyLeave)(''r1'' \<mapsto> r),
            lv_order := lv_order emptyLeave @ [''r1'']\<rparr>)"
    unfolding fileRequest_eq using b(1) r
    by (simp add: rows byClientKey_def) (simp add: emptyLeave_def sampleTypes_def)
  with r b(2) show ?thesis by (simp add: isPending_def) (simp add: emptyLeave_def)
qed

text \<open>A redelivery that races its first delivery and misses it in the read is not always answered
  with the row the first one filed: when the first took the last free days, the second's hold fails
  before its insert can meet the client key, and it is refused for want of balance; read after the
  first committed, the same delivery is answered with the filed row.\<close>

theorem raced_redelivery_short:
  "\<exists>db1 r. submit 20000 emptyLeave emptyLeave sampleAsker sampleBody ''r1'' = Inr (db1, r, [ItemOpened ''REQUESTS'' ''r1''])
     \<and> submit 20000 emptyLeave db1 sampleAsker sampleBody ''r2'' = Inl (Conflict ''LEAVE_BALANCE_SHORT'')
     \<and> submit 20000 db1 db1 sampleAsker sampleBody ''r2'' = Inr (db1, r, [])"
proof -
  from file_sample obtain db1 r where prep: "prepareRequest 20000 emptyLeave 7 sampleBody
        = Inr (Some (''AL'', the (sampleTypes ''AL'')), r)"
    and filed: "fileRequest 2024 emptyLeave ''r1'' (Some (''AL'', the (sampleTypes ''AL''))) r = Inr db1"
    and db1: "lv_requests db1 = [''r1'' \<mapsto> r]" "lv_order db1 = [''r1'']" "lv_ts db1 = lv_ts emptyLeave"
      "lv_types db1 = sampleTypes"
    and r: "rq_employeeId r = 7" "rq_clientKey r = Some ''k1''" "requestParts r = [(2024, 10)]"
    and free: "\<exists>b. lv_balances db1 (7, ''AL'', 2024) = Some b \<and> freeDays b = 0" by blast
  have none: "byClientKey emptyLeave ''k1'' = None"
    by (simp add: byClientKey_def requestRows_def emptyLeave_def List.map_filter_def)
  have there: "byClientKey db1 ''k1'' = Some r"
    by (simp add: byClientKey_def requestRows_def db1 List.map_filter_def r)
  from free obtain b where b: "lv_balances db1 (7, ''AL'', 2024) = Some b" "freeDays b = 0" by blast
  have ens: "ensure es types y (lv_balances db1) (7, ''AL'') 2024 (7, ''AL'', 2024) = Some b" for es types y
    using b(1) by (simp add: ensure_def rowCreated_def rowsFor_keeps)
  have short: "hold es types y 7 ''AL'' True [(2024, 10)] (lv_balances db1) = Inl (Conflict ''LEAVE_BALANCE_SHORT'')"
    for es types y
    by (simp add: hold.simps(2) claim_def ens b(2) Let_def)
  have "fileRequest 2024 db1 ''r2'' (Some (''AL'', the (sampleTypes ''AL''))) r = Inl (Conflict ''LEAVE_BALANCE_SHORT'')"
    using short r by (simp add: fileRequest_def requestParts_def [symmetric] sampleTypes_def)
  with prep filed none there r show ?thesis
    by (intro exI [of _ db1] exI [of _ r])
      (simp add: submit_def sampleAsker_def sampleBody_def [THEN arg_cong [where f = sb_clientKey], simplified]
        yearOf_samples alreadyFiled_def)
qed

lemma ratesOk_sample: "ratesOk (lv_types emptyLeave)"
  by (simp add: ratesOk_def typesOk_def emptyLeave_def sampleTypes_def)

lemma sampleBody_key [simp]: "sb_clientKey sampleBody = Some ''k1''"
  by (simp add: sampleBody_def)

lemma submit_sample:
  "\<exists>db1 r. submit 20000 emptyLeave emptyLeave sampleAsker sampleBody ''r1'' = Inr (db1, r, [ItemOpened ''REQUESTS'' ''r1''])
     \<and> lv_requests db1 = [''r1'' \<mapsto> r] \<and> isPending r \<and> leaveReach db1"
proof -
  from file_sample obtain db1 r where prep: "prepareRequest 20000 emptyLeave 7 sampleBody
        = Inr (Some (''AL'', the (sampleTypes ''AL'')), r)"
    and filed: "fileRequest 2024 emptyLeave ''r1'' (Some (''AL'', the (sampleTypes ''AL''))) r = Inr db1"
    and db1: "lv_requests db1 = [''r1'' \<mapsto> r]" "isPending r" by blast
  have "byClientKey emptyLeave ''k1'' = None"
    by (simp add: byClientKey_def requestRows_def emptyLeave_def List.map_filter_def)
  with prep filed have sub: "submit 20000 emptyLeave emptyLeave sampleAsker sampleBody ''r1''
      = Inr (db1, r, [ItemOpened ''REQUESTS'' ''r1''])"
    by (simp add: submit_def sampleAsker_def yearOf_samples)
  have "leaveReach emptyLeave" by (rule leaveReach.start [OF ratesOk_sample]) (simp_all add: emptyLeave_def)
  then have "leaveReach db1" by (rule leaveReach.step) (rule leaveStep.filing [OF laterThan_refl sub])
  with sub db1 show ?thesis by blast
qed

theorem leave_ledger_witness: "\<exists>db. leaveReach db \<and> lv_requests db \<noteq> Map.empty \<and> noClash db"
proof -
  from submit_sample obtain db r where "lv_requests db = [''r1'' \<mapsto> r]" "leaveReach db" by blast
  with leave_ledger [of db] show ?thesis by (intro exI [of _ db]) simp
qed


theorem decide_authorised_witness:
  "\<exists>db0 db' fx. decide 20000 0 db0 db0 sampleManager ''r1'' True None = Inr (db', fx)
     \<and> (\<exists>held. lv_requests db0 ''r1'' = Some held \<and> v_employeeId sampleManager \<noteq> Some (rq_employeeId held))"
proof -
  let ?r = "\<lparr>rq_employeeId = 7, rq_kind = RK_OVERTIME, rq_state = RS_PENDING, rq_leaveTypeId = None,
     rq_fromDate = 20003, rq_toDate = 20003, rq_fromAt = None, rq_toAt = None, rq_halfDay = False,
     rq_dayPart = None, rq_days = 10, rq_nextYearDays = 0, rq_minutes = 60, rq_reason = ''late shift'',
     rq_attachmentUrl = None, rq_clientKey = None, rq_approverId = Some 3, rq_decidedById = None,
     rq_decidedAt = None, rq_decisionNote = None\<rparr>"
  let ?db = "emptyLeave\<lparr>lv_requests := [''r1'' \<mapsto> ?r], lv_order := [''r1'']\<rparr>"
  have "mayDecide ?db 20000 sampleManager ?r = Inr ()"
    by (simp add: mayDecide_def refusal_def sampleManager_def answersFor_def INBOX_ROLES_def isUnlinkedDesk_def
        LINKED_DESKS_def THE_DESK_def)
  then obtain db' fx where "decide 20000 0 ?db ?db sampleManager ''r1'' True None = Inr (db', fx)"
    by (simp add: decide_def commitDecision_def claim_def isPending_def settle_def Let_def)
  with decide_authorised [OF this] show ?thesis by blast
qed

theorem charge_by_year_witness:
  "partsSum (partsOf 20003 10 0) 2024 = 10"
proof -
  have charged: "charge emptyLeave 7 20003 20003 False False = Inr (10, 0)"
    and days: "workingDays emptyLeave 7 20003 20003 False = [20003]"
    by (simp_all add: charge_whole workingDays_def workdays_filter emptyLeave_def declaredFor_def getUTCDay_def
        WHOLE_DAY_def employeeOf_def sampleStaff_def)
  from charge_by_year [OF charged, of 2024] days show ?thesis by (simp add: yearOf_samples WHOLE_DAY_def)
qed

end
