(* ===== verification/Attendance.thy ===== *)
theory Attendance
  imports Leave
begin

section \<open>Punches\<close>

text \<open>
  \<open>backend/src/modules/attendance/attendance.service.ts\<close> with \<open>outsideFleetAt\<close> and \<open>seen\<close> of
  \<open>devices/devices.service.ts\<close>: what becomes of a punch a kiosk sends, and the review of held ones.
  The punch table maps (device, localId), its unique key, to its row, so the id a reviewer names is
  that key here. A delivery reads one state and inserts on a later one, as a racing delivery makes
  it. The lists and counts are not modelled.
\<close>

definition kDayMs :: int where
  "kDayMs = 86400000"

definition kAheadOfReceiptMs :: int where
  "kAheadOfReceiptMs = kDayMs"

definition EARLIEST_BELIEVABLE_MS :: instant where
  "EARLIEST_BELIEVABLE_MS = dayAsDate (dayFromYear 2020)"

definition isQuestionable :: "instant \<Rightarrow> instant \<Rightarrow> bool" where
  "isQuestionable ts receivedAt \<longleftrightarrow> ts < EARLIEST_BELIEVABLE_MS \<or> ts > receivedAt + kAheadOfReceiptMs"

record FleetRow =
  fl_lastSeenAt :: "instant option"
  fl_online :: bool
  fl_revokedAt :: "instant option"
  fl_readmittedAt :: "instant option"

datatype EnrollmentState = ASSIGNED | ENROLLED | RETAKE | REVOKED

record DoorPair =
  dp_state :: EnrollmentState
  dp_revokedAt :: "instant option"

datatype PeriodState = OPEN | LOCKED | PAID

record PeriodSpan =
  ps_state :: PeriodState
  ps_startDate :: day
  ps_endDate :: day
  ps_entity :: string

record AttendanceDb =
  at_devices :: "string \<rightharpoonup> FleetRow"
  at_doors :: "string \<times> int \<rightharpoonup> DoorPair"
  at_punches :: "string \<times> string \<rightharpoonup> AttendanceRecord"
  at_employees :: "Employee list"
  at_periods :: "PeriodSpan list"

text \<open>The environment: zone offset, today, the review window of the configuration in days.\<close>

record PunchEnv =
  pe_offset :: "instant \<Rightarrow> int"
  pe_today :: day
  pe_reviewAfterDays :: int

definition outsideFleetAt :: "AttendanceDb \<Rightarrow> string \<Rightarrow> instant \<Rightarrow> bool" where
  "outsideFleetAt db dev ts \<longleftrightarrow>
     (case at_devices db dev of
        None \<Rightarrow> False
      | Some held \<Rightarrow>
          (case fl_revokedAt held of
             None \<Rightarrow> False
           | Some r \<Rightarrow> if ts < r then False
                      else (case fl_readmittedAt held of None \<Rightarrow> True | Some b \<Rightarrow> ts < b)))"

definition seen :: "AttendanceDb \<Rightarrow> string \<Rightarrow> instant \<Rightarrow> AttendanceDb" where
  "seen db dev now =
     db\<lparr>at_devices := (at_devices db)(dev \<mapsto>
        (case at_devices db dev of
           Some held \<Rightarrow> held\<lparr>fl_lastSeenAt := Some now, fl_online := True\<rparr>
         | None \<Rightarrow> \<lparr>fl_lastSeenAt = Some now, fl_online = True, fl_revokedAt = None, fl_readmittedAt = None\<rparr>))\<rparr>"

definition onDoor :: "AttendanceDb \<Rightarrow> string \<Rightarrow> int \<Rightarrow> instant \<Rightarrow> bool" where
  "onDoor db dev e t \<longleftrightarrow>
     (case at_doors db (dev, e) of
        None \<Rightarrow> False
      | Some pair \<Rightarrow> dp_state pair \<noteq> REVOKED \<or> (case dp_revokedAt pair of None \<Rightarrow> False | Some r \<Rightarrow> t < r))"

definition holdFor :: "PunchEnv \<Rightarrow> AttendanceDb \<Rightarrow> int \<Rightarrow> instant \<Rightarrow> instant \<Rightarrow> day \<Rightarrow> PunchHold option" where
  "holdFor env db e ts receivedAt d =
     (if receivedAt - ts > pe_reviewAfterDays env * kDayMs then Some LATE
      else case employeeOf (at_employees db) e of
             None \<Rightarrow> None
           | Some person \<Rightarrow>
               if (\<exists>p \<in> set (at_periods db). ps_state p \<in> {LOCKED, PAID} \<and> ps_startDate p \<le> d \<and> d \<le> ps_endDate p
                     \<and> ps_entity p = em_legalEntityId person)
               then Some CLOSED_PERIOD else None)"

datatype PunchOutcome = Stored | Held | Duplicate | UnknownEmployee | WhileRevoked | NotOnDevice

record PunchMessage =
  pm_deviceId :: string
  pm_localId :: string
  pm_employeeId :: int
  pm_ts :: instant
  pm_clockUnsynced :: bool

definition punchRow :: "PunchEnv \<Rightarrow> AttendanceDb \<Rightarrow> PunchMessage \<Rightarrow> instant \<Rightarrow> AttendanceRecord" where
  "punchRow env db m receivedAt =
     (let ts = pm_ts m;
          q = isQuestionable ts receivedAt;
          d = localDay (pe_offset env) ts;
          hold = (if q then None else holdFor env db (pm_employeeId m) ts receivedAt d)
      in \<lparr>pu_deviceId = pm_deviceId m, pu_localId = pm_localId m, pu_employeeId = pm_employeeId m, pu_ts = ts,
          pu_receivedAt = Some receivedAt, pu_clockUnsynced = pm_clockUnsynced m, pu_questionable = q,
          pu_hold = hold, pu_review = (case hold of None \<Rightarrow> None | Some _ \<Rightarrow> Some PR_PENDING),
          pu_reviewedById = None, pu_reviewedAt = None, pu_reviewNote = None\<rparr>)"

text \<open>The insert under the foreign key and the unique key, then what the outcome says.\<close>

definition createPunch :: "PunchEnv \<Rightarrow> AttendanceDb \<Rightarrow> AttendanceRecord \<Rightarrow> PunchOutcome \<times> AttendanceDb \<times> effect list" where
  "createPunch env db row =
     (let key = (pu_deviceId row, pu_localId row) in
      if at_punches db key \<noteq> None then (Duplicate, db, [])
      else if employeeOf (at_employees db) (pu_employeeId row) = None then (UnknownEmployee, db, [])
      else let db' = db\<lparr>at_punches := (at_punches db)(key \<mapsto> row)\<rparr>;
               d = localDay (pe_offset env) (pu_ts row)
           in if pu_hold row \<noteq> None then (Held, db', [])
              else (Stored, db', if \<not> pu_questionable row \<and> d < pe_today env
                                 then [Rebuild (pu_employeeId row) d] else []))"

definition recordPunch ::
  "PunchEnv \<Rightarrow> AttendanceDb \<Rightarrow> AttendanceDb \<Rightarrow> PunchMessage \<Rightarrow> instant \<Rightarrow> PunchOutcome \<times> AttendanceDb \<times> effect list" where
  "recordPunch env db0 db1 m receivedAt =
     (let db = seen db1 (pm_deviceId m) receivedAt; ts = pm_ts m in
      if outsideFleetAt db0 (pm_deviceId m) ts then (WhileRevoked, db, [])
      else if at_punches db0 (pm_deviceId m, pm_localId m) \<noteq> None then (Duplicate, db, [])
      else if \<not> onDoor db0 (pm_deviceId m) (pm_employeeId m) (if isQuestionable ts receivedAt then receivedAt else ts)
      then (NotOnDevice, db, [])
      else createPunch env db (punchRow env db0 m receivedAt))"

subsection \<open>Review\<close>

definition PUNCH_DESKS :: "Role set" where
  "PUNCH_DESKS = {ADMIN, HR}"

definition awaitsReview :: "AttendanceRecord \<Rightarrow> bool" where
  "awaitsReview p \<longleftrightarrow> pu_review p = Some PR_PENDING"

record Verdict =
  vd_by :: string
  vd_at :: instant
  vd_approve :: bool
  vd_note :: "string option"

definition reviewed :: "Verdict \<Rightarrow> AttendanceRecord \<Rightarrow> AttendanceRecord" where
  "reviewed vd p =
     p\<lparr>pu_review := Some (if vd_approve vd then PR_ACCEPTED else PR_REJECTED), pu_reviewedById := Some (vd_by vd),
       pu_reviewedAt := Some (vd_at vd), pu_reviewNote := vd_note vd\<rparr>"

text \<open>\<open>note?.trim() || null\<close>; the trimming itself only shortens the stored text.\<close>

definition trimmedNote :: "string option \<Rightarrow> string option" where
  "trimmedNote note = (if blankNote note then None else note)"

text \<open>\<open>decide\<close>: the guards on the row read, then the guarded write.\<close>

definition punchToDecide ::
  "Person list \<Rightarrow> AttendanceDb \<Rightarrow> Viewer \<Rightarrow> (string \<times> string) option \<Rightarrow> bool \<Rightarrow> string option
    \<Rightarrow> ((string \<times> string) \<times> AttendanceRecord) result" where
  "punchToDecide people db v key approve note =
     bindR (refuse (v_role v \<notin> PUNCH_DESKS) (Forbidden ''HR_ONLY'')) (\<lambda>_.
     bindR (refuse (\<not> approve \<and> trimmedNote note = None) (BadRequest ''DECISION_NOTE_REQUIRED'')) (\<lambda>_.
     bindR (found key (NotFound ''PUNCH_NOT_FOUND'')) (\<lambda>k.
     bindR (found (at_punches db k) (NotFound ''PUNCH_NOT_FOUND'')) (\<lambda>p.
     bindR (refuse (pu_review p = None \<or> \<not> reaches people v (visibleEmployeeIds people v) (pu_employeeId p))
              (NotFound ''PUNCH_NOT_FOUND'')) (\<lambda>_.
     bindR (refuseOwn v [pu_employeeId p]) (\<lambda>_. Inr (k, p)))))))"

definition commitReview ::
  "PunchEnv \<Rightarrow> AttendanceDb \<Rightarrow> string \<times> string \<Rightarrow> AttendanceRecord \<Rightarrow> Verdict
    \<Rightarrow> (AttendanceRecord \<times> AttendanceDb \<times> effect list) result" where
  "commitReview env db k p vd =
     (let (claimed, punches) = claim (at_punches db) k awaitsReview (reviewed vd);
          d = localDay (pe_offset env) (pu_ts p)
      in bindR (refuse (claimed \<noteq> 1) (Conflict ''PUNCH_ALREADY_DECIDED'')) (\<lambda>_.
           Inr (reviewed vd p, db\<lparr>at_punches := punches\<rparr>,
                Audited (vd_by vd) (if vd_approve vd then ''PUNCH_ACCEPT'' else ''PUNCH_REJECT'') (pu_localId p)
                # (if vd_approve vd \<and> \<not> pu_questionable p \<and> d < pe_today env
                   then [Rebuild (pu_employeeId p) d] else []))))"

definition decidePunch ::
  "PunchEnv \<Rightarrow> instant \<Rightarrow> Person list \<Rightarrow> AttendanceDb \<Rightarrow> AttendanceDb \<Rightarrow> Viewer \<Rightarrow> (string \<times> string) option
    \<Rightarrow> bool \<Rightarrow> string option \<Rightarrow> (AttendanceRecord \<times> AttendanceDb \<times> effect list) result" where
  "decidePunch env now people db0 db1 v key approve note =
     bindR (punchToDecide people db0 v key approve note) (\<lambda>(k, p).
       commitReview env db1 k p \<lparr>vd_by = v_userId v, vd_at = now, vd_approve = approve, vd_note = trimmedNote note\<rparr>)"

definition decidePunches ::
  "PunchEnv \<Rightarrow> instant \<Rightarrow> Person list \<Rightarrow> AttendanceDb \<Rightarrow> Viewer \<Rightarrow> (string \<Rightarrow> (string \<times> string) option) \<Rightarrow> string list
    \<Rightarrow> bool \<Rightarrow> string option \<Rightarrow> (AttendanceDb \<times> effect list) \<times> DecideManyResult result" where
  "decidePunches env now people db v keyOf ids approve note =
     (if \<not> approve \<and> blankNote note then ((db, []), Inl (BadRequest ''DECISION_NOTE_REQUIRED''))
      else decideLoop
             (\<lambda>(db, log) i. bindR (decidePunch env now people db db v (keyOf i) approve note)
                              (\<lambda>(p, db', more). Inr (db', log @ more)))
             (firsts ids) (db, []) \<lparr>dm_decided = [], dm_skipped = []\<rparr>)"

subsection \<open>Lemmas\<close>

interpretation reviews: one_winner awaitsReview reviewed
  by unfold_locales (simp add: awaitsReview_def reviewed_def)

lemma seen_punches [simp]: "at_punches (seen db dev now) = at_punches db" "at_employees (seen db dev now) = at_employees db"
  by (simp_all add: seen_def)

lemma recordPunch_table:
  "recordPunch env db0 db1 m at' = (out, db', fx) \<Longrightarrow>
     (if out \<in> {Stored, Held}
      then at_punches db1 (pm_deviceId m, pm_localId m) = None
        \<and> at_punches db' = (at_punches db1)((pm_deviceId m, pm_localId m) \<mapsto> punchRow env db0 m at')
      else at_punches db' = at_punches db1 \<and> fx = [])"
  by (auto simp: recordPunch_def createPunch_def Let_def punchRow_def split: if_splits)

lemma punchRow_counted:
  "COUNTED_PUNCH (punchRow env db m at') \<longleftrightarrow> pu_hold (punchRow env db m at') = None \<and> \<not> pu_questionable (punchRow env db m at')"
  by (auto simp: COUNTED_PUNCH_def punchRow_def Let_def split: option.splits)

lemma punchToDecide_eq:
  "punchToDecide people db v key approve note = Inr (k, p) \<longleftrightarrow>
     v_role v \<in> {ADMIN, HR} \<and> (approve \<or> trimmedNote note \<noteq> None) \<and> key = Some k \<and> at_punches db k = Some p
     \<and> pu_review p \<noteq> None \<and> reaches people v (visibleEmployeeIds people v) (pu_employeeId p)
     \<and> v_employeeId v \<noteq> Some (pu_employeeId p) \<and> \<not> isUnlinkedDesk v"
  by (cases k) (auto simp: punchToDecide_def PUNCH_DESKS_def)

lemma commitReview_eq:
  "commitReview env db k p vd = Inr (p', db', fx) \<longleftrightarrow>
     (\<exists>r. at_punches db k = Some r \<and> awaitsReview r \<and> p' = reviewed vd p
        \<and> db' = db\<lparr>at_punches := (at_punches db)(k \<mapsto> reviewed vd r)\<rparr>
        \<and> fx = Audited (vd_by vd) (if vd_approve vd then ''PUNCH_ACCEPT'' else ''PUNCH_REJECT'') (pu_localId p)
                # (if vd_approve vd \<and> \<not> pu_questionable p \<and> localDay (pe_offset env) (pu_ts p) < pe_today env
                   then [Rebuild (pu_employeeId p) (localDay (pe_offset env) (pu_ts p))] else []))"
  by (rule claim_cases [of "at_punches db" k awaitsReview "reviewed vd"])
    (auto simp: commitReview_def Let_def)

lemma reviewed_counted:
  "COUNTED_PUNCH (reviewed vd p) \<longleftrightarrow> vd_approve vd \<and> \<not> pu_questionable p"
  by (simp add: COUNTED_PUNCH_def reviewed_def)

subsection \<open>Properties\<close>

text \<open>C39: a punch is stored once. Whatever a delivery read before, it adds at most the one row of its
  own key and never touches a row already there; it answers stored or held exactly when it added the
  row, and the row counts toward a day at once exactly when it was stored with a believable time, in
  which case a finished day is queued to be built again.\<close>

theorem punch_stored_once:
  "let (out, db', fx) = recordPunch env db0 db1 m receivedAt;
       k = (pm_deviceId m, pm_localId m) in
     (\<forall>k' row. at_punches db1 k' = Some row \<longrightarrow> at_punches db' k' = Some row)
     \<and> (\<forall>k'. k' \<noteq> k \<longrightarrow> at_punches db' k' = at_punches db1 k')
     \<and> (out \<in> {Stored, Held} \<longleftrightarrow> at_punches db1 k = None \<and> at_punches db' k \<noteq> None)
     \<and> (\<forall>row. at_punches db1 k = None \<and> at_punches db' k = Some row \<longrightarrow>
          (COUNTED_PUNCH row \<longleftrightarrow> out = Stored \<and> \<not> isQuestionable (pm_ts m) receivedAt)
          \<and> (COUNTED_PUNCH row \<and> localDay (pe_offset env) (pm_ts m) < pe_today env
              \<longrightarrow> fx = [Rebuild (pm_employeeId m) (localDay (pe_offset env) (pm_ts m))]))"
proof -
  obtain out db' fx where run: "recordPunch env db0 db1 m receivedAt = (out, db', fx)"
    by (cases "recordPunch env db0 db1 m receivedAt") auto
  let ?row = "punchRow env db0 m receivedAt"
  have row: "pu_questionable ?row = isQuestionable (pm_ts m) receivedAt" "pu_ts ?row = pm_ts m"
    "pu_employeeId ?row = pm_employeeId m"
    by (simp_all add: punchRow_def Let_def)
  have outcome: "out = (if pu_hold ?row = None then Stored else Held)
      \<and> fx = (if pu_hold ?row = None \<and> \<not> pu_questionable ?row \<and> localDay (pe_offset env) (pu_ts ?row) < pe_today env
             then [Rebuild (pu_employeeId ?row) (localDay (pe_offset env) (pu_ts ?row))] else [])"
    if "out \<in> {Stored, Held}"
    using run that by (auto simp: recordPunch_def createPunch_def Let_def split: if_splits)
  show ?thesis
    using recordPunch_table [OF run] outcome row punchRow_counted [of env db0 m receivedAt]
    by (auto simp: run Let_def split: if_splits)
qed

theorem punch_stored_once_witness:
  "\<exists>db' fx. recordPunch \<lparr>pe_offset = (\<lambda>_. 420), pe_today = 20000, pe_reviewAfterDays = 3\<rparr>
      \<lparr>at_devices = Map.empty, at_doors = [(''K1'', 7) \<mapsto> \<lparr>dp_state = ENROLLED, dp_revokedAt = None\<rparr>],
       at_punches = Map.empty, at_employees = sampleStaff, at_periods = []\<rparr>
      \<lparr>at_devices = Map.empty, at_doors = Map.empty, at_punches = Map.empty, at_employees = sampleStaff, at_periods = []\<rparr>
      \<lparr>pm_deviceId = ''K1'', pm_localId = ''1'', pm_employeeId = 7, pm_ts = 1727950000000, pm_clockUnsynced = False\<rparr>
      1727950001000 = (Stored, db', fx) \<and> at_punches db' (''K1'', ''1'') \<noteq> None"
proof -
  let ?env = "\<lparr>pe_offset = (\<lambda>_. 420), pe_today = 20000, pe_reviewAfterDays = 3\<rparr>"
  let ?db0 = "\<lparr>at_devices = Map.empty, at_doors = [(''K1'', 7) \<mapsto> \<lparr>dp_state = ENROLLED, dp_revokedAt = None\<rparr>],
       at_punches = Map.empty, at_employees = sampleStaff, at_periods = []\<rparr>"
  let ?db1 = "\<lparr>at_devices = Map.empty, at_doors = Map.empty, at_punches = Map.empty, at_employees = sampleStaff, at_periods = []\<rparr>"
  let ?m = "\<lparr>pm_deviceId = ''K1'', pm_localId = ''1'', pm_employeeId = 7, pm_ts = 1727950000000, pm_clockUnsynced = False\<rparr>"
  have "fst (recordPunch ?env ?db0 ?db1 ?m 1727950001000) = Stored"
    by (simp add: recordPunch_def createPunch_def punchRow_def holdFor_def outsideFleetAt_def onDoor_def
        employeeOf_def sampleStaff_def isQuestionable_def EARLIEST_BELIEVABLE_MS_def kAheadOfReceiptMs_def
        kDayMs_def dayAsDate_def msPerDay_def dayFromYear_def Let_def)
  with punch_stored_once [of ?env ?db0 ?db1 ?m 1727950001000] show ?thesis
    by (cases "recordPunch ?env ?db0 ?db1 ?m 1727950001000") (simp add: Let_def)
qed

text \<open>A review is final and made by another: only ADMIN or HR reaching the person, and not that
  person, with a note when turning down, moves a punch out of waiting; from then on it counts
  exactly if it was let count and its time is believable, a finished day it counts toward is queued
  again, and no second review of it succeeds.\<close>

theorem review_final:
  assumes "decidePunch env now people db0 db1 v key approve note = Inr (p', db', fx)"
  shows "\<exists>k p r row. key = Some k \<and> at_punches db0 k = Some p \<and> at_punches db1 k = Some r
      \<and> pu_review r = Some PR_PENDING \<and> at_punches db' = (at_punches db1)(k \<mapsto> row)
      \<and> (COUNTED_PUNCH row \<longleftrightarrow> approve \<and> \<not> pu_questionable r)
      \<and> v_role v \<in> {ADMIN, HR} \<and> v_employeeId v \<noteq> Some (pu_employeeId p) \<and> (approve \<or> \<not> blankNote note)
      \<and> (approve \<and> \<not> pu_questionable p \<and> localDay (pe_offset env) (pu_ts p) < pe_today env
          \<longrightarrow> Rebuild (pu_employeeId p) (localDay (pe_offset env) (pu_ts p)) \<in> set fx)
      \<and> (\<forall>db2 v' now' approve' note'. \<not> isOk (decidePunch env now' people db2 db' v' key approve' note'))"
proof -
  let ?vd = "\<lparr>vd_by = v_userId v, vd_at = now, vd_approve = approve, vd_note = trimmedNote note\<rparr>"
  from assms obtain k p where may: "punchToDecide people db0 v key approve note = Inr (k, p)"
    and commit: "commitReview env db1 k p ?vd = Inr (p', db', fx)"
    by (auto simp: decidePunch_def bindR_eq_Inr)
  from commit obtain r where r: "at_punches db1 k = Some r" "awaitsReview r"
    and db': "db' = db1\<lparr>at_punches := (at_punches db1)(k \<mapsto> reviewed ?vd r)\<rparr>"
    and fx: "approve \<and> \<not> pu_questionable p \<and> localDay (pe_offset env) (pu_ts p) < pe_today env
        \<longrightarrow> Rebuild (pu_employeeId p) (localDay (pe_offset env) (pu_ts p)) \<in> set fx"
    unfolding commitReview_eq by auto
  have key: "key = Some k" using may by (simp add: punchToDecide_eq)
  have again: "\<not> isOk (decidePunch env now' people db2 db' v' key approve' note')" for db2 v' now' approve' note'
    using reviews.settled [OF r(2), of ?vd]
    by (auto simp: isOk_iff decidePunch_def bindR_eq_Inr commitReview_eq punchToDecide_eq key db')
  show ?thesis
    by (rule exI [of _ k], rule exI [of _ p], rule exI [of _ r], rule exI [of _ "reviewed ?vd r"])
      (use may r fx again key in \<open>auto simp: punchToDecide_eq db' reviewed_counted awaitsReview_def trimmedNote_def split: if_splits\<close>)
qed

definition sampleHeld :: AttendanceRecord where
  "sampleHeld =
     \<lparr>pu_deviceId = ''K1'', pu_localId = ''1'', pu_employeeId = 7, pu_ts = 0, pu_receivedAt = None,
      pu_clockUnsynced = False, pu_questionable = False, pu_hold = Some LATE, pu_review = Some PR_PENDING,
      pu_reviewedById = None, pu_reviewedAt = None, pu_reviewNote = None\<rparr>"

theorem review_final_witness:
  "\<exists>db' fx row. decidePunch \<lparr>pe_offset = (\<lambda>_. 420), pe_today = 20000, pe_reviewAfterDays = 3\<rparr> 1 []
        \<lparr>at_devices = Map.empty, at_doors = Map.empty, at_punches = [(''K1'', ''1'') \<mapsto> sampleHeld],
         at_employees = [], at_periods = []\<rparr>
        \<lparr>at_devices = Map.empty, at_doors = Map.empty, at_punches = [(''K1'', ''1'') \<mapsto> sampleHeld],
         at_employees = [], at_periods = []\<rparr>
        \<lparr>v_userId = ''hr'', v_role = HR, v_employeeId = Some 3, v_entityIds = None\<rparr>
        (Some (''K1'', ''1'')) True None = Inr (row, db', fx)
     \<and> Rebuild 7 0 \<in> set fx"
proof -
  let ?env = "\<lparr>pe_offset = (\<lambda>_. 420), pe_today = 20000, pe_reviewAfterDays = 3\<rparr>"
  let ?db = "\<lparr>at_devices = Map.empty, at_doors = Map.empty, at_punches = [(''K1'', ''1'') \<mapsto> sampleHeld],
         at_employees = [], at_periods = []\<rparr>"
  let ?v = "\<lparr>v_userId = ''hr'', v_role = HR, v_employeeId = Some 3, v_entityIds = None\<rparr>"
  have "punchToDecide [] ?db ?v (Some (''K1'', ''1'')) True None = Inr ((''K1'', ''1''), sampleHeld)"
    by (simp add: punchToDecide_eq sampleHeld_def reaches_def visibleEmployeeIds_def UNSCOPED_def
        isUnlinkedDesk_def)
  moreover have "at_punches ?db (''K1'', ''1'') = Some sampleHeld" "awaitsReview sampleHeld"
    by (simp_all add: sampleHeld_def awaitsReview_def)
  ultimately obtain row db' fx where
    run: "decidePunch ?env 1 [] ?db ?db ?v (Some (''K1'', ''1'')) True None = Inr (row, db', fx)"
    by (simp add: decidePunch_def commitReview_def claim_won Let_def)
  from review_final [OF run] have "Rebuild 7 0 \<in> set fx"
    by (auto simp: sampleHeld_def localDay_def msPerDay_def)
  with run show ?thesis by blast
qed

end
