(* ===== verification/Calculate.thy ===== *)
theory Calculate
  imports Money Complex_Main
begin

section \<open>The payslip calculation\<close>

text \<open>
  \<open>backend/src/modules/payroll/calculate.ts\<close>: one person's month from pay record, allowances,
  day counts and overtime to the lines and totals of a payslip. Money is \<open>dong\<close>; a line's
  \<open>quantity\<close> is a JavaScript number (days with two decimals, or minutes), here a rational. The
  loops push lines in source order; each loop is a function on its list with the accumulators of
  the source.
\<close>

subsection \<open>Data\<close>

datatype LineKind = EARNING | DEDUCTION | EMPLOYER_COST | INFO

record CalcLine =
  ln_kind :: LineKind
  ln_code :: string
  ln_label :: "string option"
  ln_amount :: dong
  ln_quantity :: "rat option"
  ln_rateBp :: "int option"

record CalcBracket =
  upToAmount :: "dong option"
  br_rateBp :: int

record CalcPolicy =
  selfDeduction :: dong
  dependentDeduction :: dong
  socialRateBp :: int
  healthRateBp :: int
  unemploymentRateBp :: int
  employerSocialRateBp :: int
  employerHealthRateBp :: int
  employerUnemploymentRateBp :: int
  referenceWage :: dong
  socialCapMultiple :: int
  regionalMinimumWage :: dong
  unemploymentCapMultiple :: int
  standardDayHundredths :: int
  noContributionUnpaidDays :: int
  overtimeWeekdayBp :: int
  overtimeWeekendBp :: int
  overtimeHolidayBp :: int
  nightPremiumBp :: int
  brackets :: "CalcBracket list"

record CalcAllowance =
  alw_code :: string
  alw_label :: string
  alw_amount :: dong
  alw_taxable :: bool
  alw_insurable :: bool
  alw_taxFreeCap :: "dong option"

record CalcExtra =
  ext_code :: string
  ext_label :: "string option"
  ext_amount :: dong
  ext_taxable :: bool

record CalcDeduction =
  ded_code :: string
  ded_label :: "string option"
  ded_amount :: dong

record CalcOvertime =
  weekdayMinutes :: int
  weekendMinutes :: int
  holidayMinutes :: int
  nightMinutes :: int

record CalcInput =
  in_policy :: CalcPolicy
  baseSalary :: dong
  insuranceSalary :: dong
  allowances :: "CalcAllowance list"
  dependentCount :: int
  paidDayHundredths :: int
  unpaidDayHundredths :: int
  overtime :: CalcOvertime
  extras :: "CalcExtra list"
  deductions :: "CalcDeduction list"
  carryShortfall :: bool

text \<open>A result's lines carry their ordinal, the position from 1 they get at the end.\<close>

record CalcResult =
  res_lines :: "(nat \<times> CalcLine) list"
  grossPay :: dong
  taxableIncome :: dong
  insuranceEmployee :: dong
  insuranceEmployer :: dong
  personalIncomeTax :: dong
  deductionsTotal :: dong
  netPay :: dong

definition LINE_RELIEF_SELF :: string where "LINE_RELIEF_SELF = ''DEDUCT_SELF''"
definition LINE_RELIEF_DEPENDENT :: string where "LINE_RELIEF_DEPENDENT = ''DEDUCT_DEPENDENT''"
definition LINE_TAX :: string where "LINE_TAX = ''PIT''"
definition LINE_EXEMPT_OVERTIME :: string where "LINE_EXEMPT_OVERTIME = ''OT_EXEMPT''"
definition LINE_LEAVE_PAYOUT :: string where "LINE_LEAVE_PAYOUT = ''LEAVE_PAYOUT''"
definition LINE_SEVERANCE :: string where "LINE_SEVERANCE = ''SEVERANCE''"
definition LINE_ASSET_OFFSET :: string where "LINE_ASSET_OFFSET = ''ASSET_OFFSET''"
definition LINE_CARRY_OUT :: string where "LINE_CARRY_OUT = ''CARRY_OUT''"
definition CARRY_CODE :: string where "CARRY_CODE = ''CARRY''"

lemmas line_codes = LINE_RELIEF_SELF_def LINE_RELIEF_DEPENDENT_def LINE_TAX_def
  LINE_EXEMPT_OVERTIME_def LINE_LEAVE_PAYOUT_def LINE_SEVERANCE_def LINE_ASSET_OFFSET_def
  LINE_CARRY_OUT_def CARRY_CODE_def

subsection \<open>Tax bands\<close>

text \<open>The loop of \<open>taxOn\<close>: \<open>owed\<close> and \<open>lower\<close> are its two variables (the source's
  \<open>owed\<close> and \<open>floor\<close>); it breaks once the income does not pass the floor.\<close>

fun taxLoop :: "dong \<Rightarrow> CalcBracket list \<Rightarrow> dong \<Rightarrow> dong \<Rightarrow> dong" where
  "taxLoop assessable [] owed lower = owed"
| "taxLoop assessable (b # bs) owed lower =
     (if assessable \<le> lower then owed
      else
        let upper = (case upToAmount b of None \<Rightarrow> assessable | Some c \<Rightarrow> c);
            slice = atMost assessable upper - lower;
            owed' = (if slice > 0 then owed + byBasisPoints slice (br_rateBp b) else owed)
        in taxLoop assessable bs owed' upper)"

definition taxOn :: "dong \<Rightarrow> CalcBracket list \<Rightarrow> dong" where
  "taxOn assessable brs = taxLoop assessable brs 0 0"

definition kMonthsPerYear :: int where
  "kMonthsPerYear = 12"

definition yearBrackets :: "CalcBracket list \<Rightarrow> CalcBracket list" where
  "yearBrackets brs =
     map (\<lambda>b. b\<lparr>upToAmount := (case upToAmount b of None \<Rightarrow> None | Some c \<Rightarrow> Some (c * kMonthsPerYear))\<rparr>) brs"

subsection \<open>The steps of calculate\<close>

definition hundredthsToDays :: "int \<Rightarrow> rat" where
  "hundredthsToDays v = of_int v / 100"

definition hourlyRate :: "dong \<Rightarrow> int \<Rightarrow> dong" where
  "hourlyRate salary standardHundredths = mulDiv salary 100 (standardHundredths * 8)"

record OvertimeBand =
  band_code :: string
  band_minutes :: int
  band_rateBp :: int

definition overtimeBands :: "CalcPolicy \<Rightarrow> CalcOvertime \<Rightarrow> OvertimeBand list" where
  "overtimeBands p o' =
     filter (\<lambda>b. band_minutes b > 0)
       [\<lparr>band_code = ''OT_WEEKDAY'', band_minutes = weekdayMinutes o', band_rateBp = overtimeWeekdayBp p\<rparr>,
        \<lparr>band_code = ''OT_WEEKEND'', band_minutes = weekendMinutes o', band_rateBp = overtimeWeekendBp p\<rparr>,
        \<lparr>band_code = ''OT_HOLIDAY'', band_minutes = holidayMinutes o', band_rateBp = overtimeHolidayBp p\<rparr>]"

definition line :: "LineKind \<Rightarrow> string \<Rightarrow> dong \<Rightarrow> CalcLine" where
  "line k c a = \<lparr>ln_kind = k, ln_code = c, ln_label = None, ln_amount = a, ln_quantity = None, ln_rateBp = None\<rparr>"

fun allowanceLoop :: "CalcAllowance list \<Rightarrow> CalcLine list \<times> dong \<times> dong \<Rightarrow> CalcLine list \<times> dong \<times> dong" where
  "allowanceLoop [] acc = acc"
| "allowanceLoop (a # as) (ls, taxableEarnings, insurableExtra) =
     allowanceLoop as
       (ls @ [(line EARNING (''ALW_'' @ alw_code a) (alw_amount a))\<lparr>ln_label := Some (alw_label a)\<rparr>],
        (if alw_taxable a
         then taxableEarnings +
              atLeastZero (alw_amount a - (case alw_taxFreeCap a of None \<Rightarrow> 0 | Some c \<Rightarrow> c))
         else taxableEarnings),
        (if alw_insurable a then insurableExtra + alw_amount a else insurableExtra))"

fun overtimeLoop :: "dong \<Rightarrow> OvertimeBand list \<Rightarrow> CalcLine list \<times> dong \<times> dong \<Rightarrow> CalcLine list \<times> dong \<times> dong" where
  "overtimeLoop rate [] acc = acc"
| "overtimeLoop rate (b # bs) (ls, taxableEarnings, overtimeExempt) =
     (let minutes = band_minutes b;
          paid = mulDiv rate (minutes * band_rateBp b) (60 * 10000);
          normal = mulDiv rate (minutes * 10000) (60 * 10000)
      in overtimeLoop rate bs
           (ls @ [(line EARNING (band_code b) paid)
                    \<lparr>ln_quantity := Some (of_int minutes), ln_rateBp := Some (band_rateBp b)\<rparr>],
            taxableEarnings + paid,
            overtimeExempt + (paid - normal)))"

definition nightStep :: "CalcPolicy \<Rightarrow> CalcOvertime \<Rightarrow> dong \<Rightarrow> CalcLine list \<times> dong \<times> dong \<Rightarrow> CalcLine list \<times> dong \<times> dong" where
  "nightStep p o' rate acc =
     (case acc of (ls, taxableEarnings, overtimeExempt) \<Rightarrow>
       if nightMinutes o' > 0 then
         let premium = mulDiv rate (nightMinutes o' * nightPremiumBp p) (60 * 10000)
         in (ls @ [(line EARNING ''OT_NIGHT'' premium)
                     \<lparr>ln_quantity := Some (of_int (nightMinutes o')), ln_rateBp := Some (nightPremiumBp p)\<rparr>],
             taxableEarnings + premium, overtimeExempt + premium)
       else acc)"

fun extrasLoop :: "CalcExtra list \<Rightarrow> CalcLine list \<times> dong \<Rightarrow> CalcLine list \<times> dong" where
  "extrasLoop [] acc = acc"
| "extrasLoop (x # xs) (ls, taxableEarnings) =
     extrasLoop xs
       (ls @ [(line EARNING (ext_code x) (ext_amount x))\<lparr>ln_label := ext_label x\<rparr>],
        (if ext_taxable x then taxableEarnings + ext_amount x else taxableEarnings))"

definition deductionLines :: "CalcDeduction list \<Rightarrow> CalcLine list" where
  "deductionLines ds = map (\<lambda>d. (line DEDUCTION (ded_code d) (ded_amount d))\<lparr>ln_label := ded_label d\<rparr>) ds"

definition sumKind :: "LineKind \<Rightarrow> CalcLine list \<Rightarrow> dong" where
  "sumKind k ls = sum_list (map ln_amount (filter (\<lambda>l. ln_kind l = k) ls))"

text \<open>The contribution base: nothing in a mostly unpaid month, else pay plus insurable allowances.\<close>

definition insuranceBaseOf :: "CalcInput \<Rightarrow> dong \<Rightarrow> dong" where
  "insuranceBaseOf inp insurableExtra =
     (if unpaidDayHundredths inp \<ge> noContributionUnpaidDays (in_policy inp) * 100 then 0
      else insuranceSalary inp + insurableExtra)"

text \<open>From the base pay to the extras: the earning lines, what they add to the taxable earnings,
  the exempt overtime premium and the insurable allowances.\<close>

definition earningsStage :: "CalcInput \<Rightarrow> CalcLine list \<times> dong \<times> dong \<times> dong" where
  "earningsStage inp =
     (let p = in_policy inp;
          basePay = mulDiv (baseSalary inp) (paidDayHundredths inp) (standardDayHundredths p);
          ls0 = [(line EARNING ''BASE'' basePay)
                   \<lparr>ln_quantity := Some (hundredthsToDays (paidDayHundredths inp))\<rparr>];
          (ls1, taxable1, insurableExtra) = allowanceLoop (allowances inp) (ls0, basePay, 0);
          rate = hourlyRate (baseSalary inp) (standardDayHundredths p);
          (ls2, taxable2, exempt2) =
            overtimeLoop rate (overtimeBands p (overtime inp)) (ls1, taxable1, 0);
          (ls3, taxable3, overtimeExempt) = nightStep p (overtime inp) rate (ls2, taxable2, exempt2);
          (ls4, taxableEarnings) = extrasLoop (extras inp) (ls3, taxable3)
      in (ls4, taxableEarnings, overtimeExempt, insurableExtra))"

text \<open>The capped contributions: social, health and unemployment of the employee, and the employer's.\<close>

definition insuranceStage :: "CalcInput \<Rightarrow> dong \<Rightarrow> dong \<times> dong \<times> dong \<times> dong" where
  "insuranceStage inp insurableExtra =
     (let p = in_policy inp;
          base = insuranceBaseOf inp insurableExtra;
          socialCap = referenceWage p * socialCapMultiple p;
          unemploymentCap = regionalMinimumWage p * unemploymentCapMultiple p;
          cappedSocial = atMost base socialCap;
          cappedUnemployment = atMost base unemploymentCap
      in (byBasisPoints cappedSocial (socialRateBp p),
          byBasisPoints cappedSocial (healthRateBp p),
          byBasisPoints cappedUnemployment (unemploymentRateBp p),
          byBasisPoints cappedSocial (employerSocialRateBp p)
            + byBasisPoints cappedSocial (employerHealthRateBp p)
            + byBasisPoints cappedUnemployment (employerUnemploymentRateBp p)))"

text \<open>From the contribution lines to the other deductions: the lines so far, the taxable income and
  the tax on what is left of it after contributions and family relief.\<close>

definition deductionStage ::
  "CalcInput \<Rightarrow> CalcLine list \<Rightarrow> dong \<Rightarrow> dong \<Rightarrow> dong \<Rightarrow> dong \<Rightarrow> dong \<Rightarrow> dong
    \<Rightarrow> CalcLine list \<times> dong \<times> dong" where
  "deductionStage inp ls4 taxableEarnings overtimeExempt social health unemployment insEmployer =
     (let p = in_policy inp;
          ls5 = ls4 @
            [(line DEDUCTION ''BHXH'' social)\<lparr>ln_rateBp := Some (socialRateBp p)\<rparr>,
             (line DEDUCTION ''BHYT'' health)\<lparr>ln_rateBp := Some (healthRateBp p)\<rparr>,
             (line DEDUCTION ''BHTN'' unemployment)\<lparr>ln_rateBp := Some (unemploymentRateBp p)\<rparr>,
             line EMPLOYER_COST ''INS_EMPLOYER'' insEmployer];
          taxable = atLeastZero (taxableEarnings - overtimeExempt);
          ls6 = (if overtimeExempt > 0
                 then ls5 @ [line INFO LINE_EXEMPT_OVERTIME overtimeExempt] else ls5);
          familyDeduction = selfDeduction p + dependentDeduction p * dependentCount inp;
          ls7 = ls6 @ [line INFO LINE_RELIEF_SELF (selfDeduction p)];
          ls8 = (if dependentCount inp > 0
                 then ls7 @ [(line INFO LINE_RELIEF_DEPENDENT (dependentDeduction p * dependentCount inp))
                               \<lparr>ln_quantity := Some (of_int (dependentCount inp))\<rparr>]
                 else ls7);
          assessable = atLeastZero (taxable - (social + health + unemployment) - familyDeduction);
          tax = taxOn assessable (brackets p)
      in (ls8 @ [line DEDUCTION LINE_TAX tax] @ deductionLines (deductions inp), taxable, tax))"

definition calculate :: "CalcInput \<Rightarrow> CalcResult" where
  "calculate inp =
     (let (ls4, taxableEarnings, overtimeExempt, insurableExtra) = earningsStage inp;
          gross = sumKind EARNING ls4;
          (social, health, unemployment, insEmployer) = insuranceStage inp insurableExtra;
          (ls9, taxable, tax) =
            deductionStage inp ls4 taxableEarnings overtimeExempt social health unemployment insEmployer;
          deducted = sumKind DEDUCTION ls9;
          shortfall = (if carryShortfall inp then atLeastZero (deducted - gross) else 0);
          ls10 = (if shortfall > 0 then ls9 @ [line INFO LINE_CARRY_OUT shortfall] else ls9);
          total = deducted - shortfall
      in \<lparr>res_lines = enumerate 1 ls10, grossPay = gross, taxableIncome = taxable,
          insuranceEmployee = social + health + unemployment, insuranceEmployer = insEmployer,
          personalIncomeTax = tax, deductionsTotal = total, netPay = gross - total\<rparr>)"

subsection \<open>The tax bands\<close>

text \<open>
  The specification of \<open>taxOn\<close>: band \<open>i\<close> charges its rate on the part of the income between the
  previous ceiling and its own, whatever the income. A table is well formed when its ceilings
  rise from \<open>lo\<close> and an open band only comes last; its rates are then per ten thousand.
\<close>

fun ascending :: "dong \<Rightarrow> CalcBracket list \<Rightarrow> bool" where
  "ascending lo [] = True"
| "ascending lo (b # bs) =
     (case upToAmount b of None \<Rightarrow> bs = [] | Some c \<Rightarrow> lo < c \<and> ascending c bs)"

definition ratesWithin :: "CalcBracket list \<Rightarrow> bool" where
  "ratesWithin brs \<longleftrightarrow> (\<forall>b \<in> set brs. 0 \<le> br_rateBp b \<and> br_rateBp b \<le> 10000)"

fun bandTax :: "dong \<Rightarrow> dong \<Rightarrow> CalcBracket list \<Rightarrow> dong" where
  "bandTax a lo [] = 0"
| "bandTax a lo (b # bs) =
     (case upToAmount b of
        None \<Rightarrow> byBasisPoints (max 0 (a - lo)) (br_rateBp b)
      | Some c \<Rightarrow> byBasisPoints (max 0 (min a c - lo)) (br_rateBp b) + bandTax a c bs)"

lemma bandTax_below: "ascending lo brs \<Longrightarrow> a \<le> lo \<Longrightarrow> bandTax a lo brs = 0"
  by (induction a lo brs rule: bandTax.induct) (auto split: option.splits)

lemma taxLoop_bandTax: "ascending lo brs \<Longrightarrow> taxLoop a brs owed lo = owed + bandTax a lo brs"
proof (induction a brs owed lo rule: taxLoop.induct)
  case (1 a owed lo)
  then show ?case by simp
next
  case (2 a b bs owed lo)
  show ?case
  proof (cases "a \<le> lo")
    case True
    with "2.prems" show ?thesis using bandTax_below [OF "2.prems"] by simp
  next
    case False
    with 2 show ?thesis
      by (cases "upToAmount b") (auto simp: Let_def atMost_min max_def)
  qed
qed

lemma taxOn_bandTax: "ascending 0 brs \<Longrightarrow> taxOn a brs = bandTax a 0 brs"
  by (simp add: taxOn_def taxLoop_bandTax)

lemma ratesWithin_Cons [simp]:
  "ratesWithin (b # bs) \<longleftrightarrow> 0 \<le> br_rateBp b \<and> br_rateBp b \<le> 10000 \<and> ratesWithin bs"
  "ratesWithin []"
  by (auto simp: ratesWithin_def)

lemma bandTax_nonneg: "ratesWithin brs \<Longrightarrow> 0 \<le> bandTax a lo brs"
  by (induction a lo brs rule: bandTax.induct)
    (auto split: option.splits intro!: byBasisPoints_nonneg add_nonneg_nonneg)

lemma bandTax_mono: "ratesWithin brs \<Longrightarrow> a \<le> a' \<Longrightarrow> bandTax a lo brs \<le> bandTax a' lo brs"
proof (induction a lo brs rule: bandTax.induct)
  case (1 a lo)
  then show ?case by simp
next
  case (2 a lo b bs)
  then show ?case
    by (cases "upToAmount b") (auto intro!: byBasisPoints_mono add_mono)
qed

lemma bandTax_le:
  "ratesWithin brs \<Longrightarrow> ascending lo brs \<Longrightarrow> bandTax a lo brs \<le> max 0 (a - lo)"
proof (induction a lo brs rule: bandTax.induct)
  case (1 a lo)
  then show ?case by simp
next
  case (2 a lo b bs)
  show ?case
  proof (cases "upToAmount b")
    case None
    with 2 show ?thesis using byBasisPoints_le [of "max 0 (a - lo)" "br_rateBp b"] by simp
  next
    case (Some c)
    have "byBasisPoints (max 0 (min a c - lo)) (br_rateBp b) \<le> max 0 (min a c - lo)"
      using "2.prems" by (intro byBasisPoints_le) auto
    moreover have "bandTax a c bs \<le> max 0 (a - c)" using 2 Some by auto
    ultimately show ?thesis using 2 Some by auto
  qed
qed

lemma ascending_year: "ascending lo brs \<Longrightarrow> ascending (12 * lo) (yearBrackets brs)"
  by (induction lo brs rule: ascending.induct)
    (auto simp: yearBrackets_def kMonthsPerYear_def mult.commute split: option.splits)

lemma near_add:
  fixes x y u v :: int
  assumes "\<bar>x - 12 * y\<bar> \<le> m" "\<bar>u - 12 * v\<bar> \<le> n"
  shows "\<bar>x + u - 12 * (y + v)\<bar> \<le> m + n"
proof -
  have "x + u - 12 * (y + v) = (x - 12 * y) + (u - 12 * v)" by simp
  then have "\<bar>x + u - 12 * (y + v)\<bar> \<le> \<bar>x - 12 * y\<bar> + \<bar>u - 12 * v\<bar>"
    by (simp only: abs_triangle_ineq)
  with assms show ?thesis by simp
qed

lemma bandTax_year_step:
  assumes "upToAmount b = Some c"
  shows "bandTax (12 * a) (12 * lo) (yearBrackets (b # bs)) =
    byBasisPoints (12 * max 0 (min a c - lo)) (br_rateBp b) + bandTax (12 * a) (12 * c) (yearBrackets bs)"
proof -
  have "max 0 (min (12 * a) (12 * c) - 12 * lo) = 12 * max 0 (min a c - lo)"
    by (simp add: max_def min_def)
  with assms show ?thesis
    by (simp add: yearBrackets_def kMonthsPerYear_def mult.commute [of c 12])
qed

lemma bandTax_year:
  "\<bar>bandTax (12 * a) (12 * lo) (yearBrackets brs) - 12 * bandTax a lo brs\<bar> \<le> 6 * int (length brs)"
proof (induction a lo brs rule: bandTax.induct)
  case (1 a lo)
  then show ?case by (simp add: yearBrackets_def)
next
  case (2 a lo b bs)
  show ?case
  proof (cases "upToAmount b")
    case None
    have "max 0 (12 * a - 12 * lo) = 12 * max 0 (a - lo)" by (simp add: max_def)
    with None show ?thesis
      using byBasisPoints_twelve [of "max 0 (a - lo)" "br_rateBp b"]
      by (simp add: yearBrackets_def)
  next
    case (Some c)
    from near_add [OF byBasisPoints_twelve [of "max 0 (min a c - lo)" "br_rateBp b"] "2.IH" [OF Some]]
    show ?thesis
      unfolding bandTax_year_step [OF Some] by (simp add: Some algebra_simps)
  qed
qed

text \<open>C34: on a well-formed table the loop with its early break is the plain sum over bands, is
  monotone in the income, is zero when nothing is assessable and never takes more than the income.\<close>

theorem taxOn_progressive:
  assumes "ascending 0 brs" "ratesWithin brs"
  shows "taxOn a brs = bandTax a 0 brs
    \<and> (a \<le> a' \<longrightarrow> taxOn a brs \<le> taxOn a' brs)
    \<and> (a \<le> 0 \<longrightarrow> taxOn a brs = 0)
    \<and> 0 \<le> taxOn a brs \<and> taxOn a brs \<le> max 0 a"
  using bandTax_mono [OF assms(2)] bandTax_below [OF assms(1)] bandTax_nonneg [OF assms(2)]
    bandTax_le [OF assms(2,1)]
  by (simp_all add: taxOn_bandTax [OF assms(1)])

text \<open>The year table charged on twelve equal months differs from twelve monthly taxes by
  rounding only: at most six dong a band.\<close>

theorem taxOn_year_table:
  assumes "ascending 0 brs"
  shows "\<bar>taxOn (12 * a) (yearBrackets brs) - 12 * taxOn a brs\<bar> \<le> 6 * int (length brs)"
  using bandTax_year [of a 0 brs] ascending_year [OF assms]
  by (simp add: taxOn_bandTax [OF assms] taxOn_bandTax)

definition sampleBrackets :: "CalcBracket list" where
  "sampleBrackets =
     [\<lparr>upToAmount = Some 5000000, br_rateBp = 500\<rparr>, \<lparr>upToAmount = Some 10000000, br_rateBp = 1000\<rparr>,
      \<lparr>upToAmount = None, br_rateBp = 3500\<rparr>]"

lemma sampleBrackets_ok: "ascending 0 sampleBrackets" "ratesWithin sampleBrackets"
  by (simp_all add: sampleBrackets_def)

theorem taxOn_progressive_witness:
  "taxOn 7000000 sampleBrackets = bandTax 7000000 0 sampleBrackets \<and>
   taxOn 7000000 sampleBrackets \<le> taxOn 8000000 sampleBrackets"
  using taxOn_progressive [OF sampleBrackets_ok, of 7000000 8000000] by simp

theorem taxOn_year_table_witness:
  "\<bar>taxOn (12 * 7000000) (yearBrackets sampleBrackets) - 12 * taxOn 7000000 sampleBrackets\<bar> \<le> 18"
  using taxOn_year_table [OF sampleBrackets_ok(1), of 7000000] by (simp add: sampleBrackets_def)

subsection \<open>The loops as sums\<close>

definition allowanceLine :: "CalcAllowance \<Rightarrow> CalcLine" where
  "allowanceLine a = (line EARNING (''ALW_'' @ alw_code a) (alw_amount a))\<lparr>ln_label := Some (alw_label a)\<rparr>"

definition allowanceTaxed :: "CalcAllowance \<Rightarrow> dong" where
  "allowanceTaxed a =
     (if alw_taxable a
      then max 0 (alw_amount a - (case alw_taxFreeCap a of None \<Rightarrow> 0 | Some c \<Rightarrow> c)) else 0)"

definition allowanceInsured :: "CalcAllowance \<Rightarrow> dong" where
  "allowanceInsured a = (if alw_insurable a then alw_amount a else 0)"

definition bandPay :: "dong \<Rightarrow> OvertimeBand \<Rightarrow> dong" where
  "bandPay rate b = mulDiv rate (band_minutes b * band_rateBp b) 600000"

definition bandNormalPay :: "dong \<Rightarrow> OvertimeBand \<Rightarrow> dong" where
  "bandNormalPay rate b = mulDiv rate (band_minutes b * 10000) 600000"

definition bandLine :: "dong \<Rightarrow> OvertimeBand \<Rightarrow> CalcLine" where
  "bandLine rate b = (line EARNING (band_code b) (bandPay rate b))
     \<lparr>ln_quantity := Some (of_int (band_minutes b)), ln_rateBp := Some (band_rateBp b)\<rparr>"

definition extraLine :: "CalcExtra \<Rightarrow> CalcLine" where
  "extraLine x = (line EARNING (ext_code x) (ext_amount x))\<lparr>ln_label := ext_label x\<rparr>"

definition nightPay :: "CalcInput \<Rightarrow> dong \<Rightarrow> dong" where
  "nightPay inp rate =
     (if nightMinutes (overtime inp) > 0
      then mulDiv rate (nightMinutes (overtime inp) * nightPremiumBp (in_policy inp)) 600000 else 0)"

lemma allowanceLoop_sums:
  "allowanceLoop as (ls, t, i) =
     (ls @ map allowanceLine as, t + sum_list (map allowanceTaxed as),
      i + sum_list (map allowanceInsured as))"
  by (induction as arbitrary: ls t i)
    (simp_all add: allowanceLine_def allowanceTaxed_def allowanceInsured_def atLeastZero_max)

lemma overtimeLoop_sums:
  "overtimeLoop rate bs (ls, t, e) =
     (ls @ map (bandLine rate) bs, t + sum_list (map (bandPay rate) bs),
      e + (sum_list (map (bandPay rate) bs) - sum_list (map (bandNormalPay rate) bs)))"
  by (induction bs arbitrary: ls t e)
    (simp_all add: bandLine_def bandPay_def bandNormalPay_def Let_def)

lemma extrasLoop_sums:
  "extrasLoop xs (ls, t) =
     (ls @ map extraLine xs, t + sum_list (map ext_amount (filter ext_taxable xs)))"
  by (induction xs arbitrary: ls t) (simp_all add: extraLine_def)

lemma line_simps [simp]:
  "ln_kind (line k c a) = k" "ln_amount (line k c a) = a" "ln_code (line k c a) = c"
  by (simp_all add: line_def)

lemma parts_simps [simp]:
  "ln_kind (allowanceLine a) = EARNING" "ln_amount (allowanceLine a) = alw_amount a"
  "ln_kind (bandLine r b) = EARNING" "ln_amount (bandLine r b) = bandPay r b"
  "ln_kind (extraLine x) = EARNING" "ln_amount (extraLine x) = ext_amount x"
  by (simp_all add: allowanceLine_def bandLine_def extraLine_def)

lemma sumKind_simps [simp]:
  "sumKind k [] = 0"
  "sumKind k (l # ls) = (if ln_kind l = k then ln_amount l else 0) + sumKind k ls"
  "sumKind k (xs @ ys) = sumKind k xs + sumKind k ys"
  by (simp_all add: sumKind_def)

lemma sumKind_map:
  "(\<And>x. x \<in> set xs \<Longrightarrow> ln_kind (f x) = k') \<Longrightarrow>
   sumKind k (map f xs) = (if k = k' then sum_list (map (\<lambda>x. ln_amount (f x)) xs) else 0)"
  by (induction xs) auto

lemma sumKind_deductionLines:
  "sumKind k (deductionLines ds) = (if k = DEDUCTION then sum_list (map ded_amount ds) else 0)"
  unfolding deductionLines_def by (subst sumKind_map [where k' = DEDUCTION]) simp_all

definition basePayOf :: "CalcInput \<Rightarrow> dong" where
  "basePayOf inp = mulDiv (baseSalary inp) (paidDayHundredths inp) (standardDayHundredths (in_policy inp))"

definition rateOf :: "CalcInput \<Rightarrow> dong" where
  "rateOf inp = hourlyRate (baseSalary inp) (standardDayHundredths (in_policy inp))"

definition bandsOf :: "CalcInput \<Rightarrow> OvertimeBand list" where
  "bandsOf inp = overtimeBands (in_policy inp) (overtime inp)"

definition earningLines :: "CalcInput \<Rightarrow> CalcLine list" where
  "earningLines inp =
     (line EARNING ''BASE'' (basePayOf inp))\<lparr>ln_quantity := Some (hundredthsToDays (paidDayHundredths inp))\<rparr>
     # map allowanceLine (allowances inp) @ map (bandLine (rateOf inp)) (bandsOf inp)
     @ (if nightMinutes (overtime inp) > 0
        then [(line EARNING ''OT_NIGHT'' (nightPay inp (rateOf inp)))
                \<lparr>ln_quantity := Some (of_int (nightMinutes (overtime inp))),
                 ln_rateBp := Some (nightPremiumBp (in_policy inp))\<rparr>] else [])
     @ map extraLine (extras inp)"

lemma earningLines_kind: "l \<in> set (earningLines inp) \<Longrightarrow> ln_kind l = EARNING"
  by (auto simp: earningLines_def split: if_splits)

lemma sumKind_earningLines:
  "sumKind k (earningLines inp) =
     (if k = EARNING
      then basePayOf inp + sum_list (map alw_amount (allowances inp))
        + sum_list (map (bandPay (rateOf inp)) (bandsOf inp)) + nightPay inp (rateOf inp)
        + sum_list (map ext_amount (extras inp)) else 0)"
  by (simp add: earningLines_def sumKind_map [where k' = EARNING] nightPay_def)

subsection \<open>What calculate returns\<close>

definition exemptOf :: "CalcInput \<Rightarrow> dong" where
  "exemptOf inp = sum_list (map (bandPay (rateOf inp)) (bandsOf inp))
     - sum_list (map (bandNormalPay (rateOf inp)) (bandsOf inp)) + nightPay inp (rateOf inp)"

definition taxableEarningsOf :: "CalcInput \<Rightarrow> dong" where
  "taxableEarningsOf inp = basePayOf inp + sum_list (map allowanceTaxed (allowances inp))
     + sum_list (map (bandPay (rateOf inp)) (bandsOf inp)) + nightPay inp (rateOf inp)
     + sum_list (map ext_amount (filter ext_taxable (extras inp)))"

definition insuranceBase :: "CalcInput \<Rightarrow> dong" where
  "insuranceBase inp = insuranceBaseOf inp (sum_list (map allowanceInsured (allowances inp)))"

definition socialBase :: "CalcInput \<Rightarrow> dong" where
  "socialBase inp = min (insuranceBase inp) (referenceWage (in_policy inp) * socialCapMultiple (in_policy inp))"

definition unemploymentBase :: "CalcInput \<Rightarrow> dong" where
  "unemploymentBase inp =
     min (insuranceBase inp) (regionalMinimumWage (in_policy inp) * unemploymentCapMultiple (in_policy inp))"

definition reliefOf :: "CalcInput \<Rightarrow> dong" where
  "reliefOf inp = selfDeduction (in_policy inp) + dependentDeduction (in_policy inp) * dependentCount inp"

definition socialOf :: "CalcInput \<Rightarrow> dong" where
  "socialOf inp = byBasisPoints (socialBase inp) (socialRateBp (in_policy inp))"

definition healthOf :: "CalcInput \<Rightarrow> dong" where
  "healthOf inp = byBasisPoints (socialBase inp) (healthRateBp (in_policy inp))"

definition unemploymentOf :: "CalcInput \<Rightarrow> dong" where
  "unemploymentOf inp = byBasisPoints (unemploymentBase inp) (unemploymentRateBp (in_policy inp))"

definition employerOf :: "CalcInput \<Rightarrow> dong" where
  "employerOf inp = byBasisPoints (socialBase inp) (employerSocialRateBp (in_policy inp))
     + byBasisPoints (socialBase inp) (employerHealthRateBp (in_policy inp))
     + byBasisPoints (unemploymentBase inp) (employerUnemploymentRateBp (in_policy inp))"

definition taxableOf :: "CalcInput \<Rightarrow> dong" where
  "taxableOf inp = max 0 (taxableEarningsOf inp - exemptOf inp)"

definition assessableOf :: "CalcInput \<Rightarrow> dong" where
  "assessableOf inp =
     max 0 (taxableOf inp - (socialOf inp + healthOf inp + unemploymentOf inp) - reliefOf inp)"

definition taxOf :: "CalcInput \<Rightarrow> dong" where
  "taxOf inp = taxOn (assessableOf inp) (brackets (in_policy inp))"

definition grossOf :: "CalcInput \<Rightarrow> dong" where
  "grossOf inp = basePayOf inp + sum_list (map alw_amount (allowances inp))
     + sum_list (map (bandPay (rateOf inp)) (bandsOf inp)) + nightPay inp (rateOf inp)
     + sum_list (map ext_amount (extras inp))"

text \<open>What leaves the pay before any shortfall is set aside: contributions, tax, other deductions.\<close>

definition deductedOf :: "CalcInput \<Rightarrow> dong" where
  "deductedOf inp = socialOf inp + healthOf inp + unemploymentOf inp + taxOf inp
     + sum_list (map ded_amount (deductions inp))"

definition shortfallOf :: "CalcInput \<Rightarrow> dong" where
  "shortfallOf inp = (if carryShortfall inp then max 0 (deductedOf inp - grossOf inp) else 0)"

lemmas calculate_folds = basePayOf_def [symmetric] rateOf_def [symmetric] bandsOf_def [symmetric]

lemma nightStep_sums:
  "nightStep (in_policy inp) (overtime inp) rate (ls, t, e) =
     (ls @ (if nightMinutes (overtime inp) > 0
        then [(line EARNING ''OT_NIGHT'' (nightPay inp rate))
                \<lparr>ln_quantity := Some (of_int (nightMinutes (overtime inp))),
                 ln_rateBp := Some (nightPremiumBp (in_policy inp))\<rparr>] else []),
      t + nightPay inp rate, e + nightPay inp rate)"
  by (simp add: nightStep_def nightPay_def Let_def)

lemma earningsStage_sums:
  "earningsStage inp =
     (earningLines inp, taxableEarningsOf inp, exemptOf inp,
      sum_list (map allowanceInsured (allowances inp)))"
  by (simp add: earningsStage_def Let_def allowanceLoop_sums overtimeLoop_sums nightStep_sums
      extrasLoop_sums earningLines_def taxableEarningsOf_def exemptOf_def calculate_folds)

lemma insuranceStage_sums:
  "insuranceStage inp (sum_list (map allowanceInsured (allowances inp))) =
     (socialOf inp, healthOf inp, unemploymentOf inp, employerOf inp)"
  by (simp add: insuranceStage_def Let_def atMost_min socialOf_def healthOf_def unemploymentOf_def
      employerOf_def socialBase_def unemploymentBase_def insuranceBase_def)

definition linesBeforeCarry :: "CalcInput \<Rightarrow> CalcLine list" where
  "linesBeforeCarry inp =
     earningLines inp @
     [(line DEDUCTION ''BHXH'' (socialOf inp))\<lparr>ln_rateBp := Some (socialRateBp (in_policy inp))\<rparr>,
      (line DEDUCTION ''BHYT'' (healthOf inp))\<lparr>ln_rateBp := Some (healthRateBp (in_policy inp))\<rparr>,
      (line DEDUCTION ''BHTN'' (unemploymentOf inp))
        \<lparr>ln_rateBp := Some (unemploymentRateBp (in_policy inp))\<rparr>,
      line EMPLOYER_COST ''INS_EMPLOYER'' (employerOf inp)]
     @ (if exemptOf inp > 0 then [line INFO LINE_EXEMPT_OVERTIME (exemptOf inp)] else [])
     @ [line INFO LINE_RELIEF_SELF (selfDeduction (in_policy inp))]
     @ (if dependentCount inp > 0
        then [(line INFO LINE_RELIEF_DEPENDENT (dependentDeduction (in_policy inp) * dependentCount inp))
                \<lparr>ln_quantity := Some (of_int (dependentCount inp))\<rparr>] else [])
     @ [line DEDUCTION LINE_TAX (taxOf inp)]
     @ deductionLines (deductions inp)"

definition payslipLines :: "CalcInput \<Rightarrow> CalcLine list" where
  "payslipLines inp = linesBeforeCarry inp @
     (if shortfallOf inp > 0 then [line INFO LINE_CARRY_OUT (shortfallOf inp)] else [])"

lemma sumKind_linesBeforeCarry:
  "sumKind DEDUCTION (linesBeforeCarry inp) = deductedOf inp"
  "sumKind EARNING (linesBeforeCarry inp) = grossOf inp"
  "sumKind EMPLOYER_COST (linesBeforeCarry inp) = employerOf inp"
  by (simp_all add: linesBeforeCarry_def sumKind_earningLines sumKind_deductionLines deductedOf_def
      grossOf_def)

lemma deductionStage_sums:
  "deductionStage inp (earningLines inp) (taxableEarningsOf inp) (exemptOf inp) (socialOf inp)
     (healthOf inp) (unemploymentOf inp) (employerOf inp) =
     (linesBeforeCarry inp, taxableOf inp, taxOf inp)"
proof -
  have tax: "taxOn (atLeastZero (atLeastZero (taxableEarningsOf inp - exemptOf inp)
      - (socialOf inp + healthOf inp + unemploymentOf inp)
      - (selfDeduction (in_policy inp) + dependentDeduction (in_policy inp) * dependentCount inp)))
      (brackets (in_policy inp)) = taxOf inp"
    by (simp add: taxOf_def assessableOf_def taxableOf_def reliefOf_def atLeastZero_max)
  show ?thesis
    by (simp add: deductionStage_def Let_def tax [unfolded atLeastZero_max] linesBeforeCarry_def
        taxableOf_def atLeastZero_max)
qed

lemma calculate_eq:
  "calculate inp =
     \<lparr>res_lines = enumerate 1 (payslipLines inp), grossPay = grossOf inp, taxableIncome = taxableOf inp,
      insuranceEmployee = socialOf inp + healthOf inp + unemploymentOf inp,
      insuranceEmployer = employerOf inp, personalIncomeTax = taxOf inp,
      deductionsTotal = deductedOf inp - shortfallOf inp,
      netPay = grossOf inp - (deductedOf inp - shortfallOf inp)\<rparr>"
proof -
  have gross: "sumKind EARNING (earningLines inp) = grossOf inp"
    by (simp add: sumKind_earningLines grossOf_def)
  show ?thesis
    by (simp add: calculate_def earningsStage_sums insuranceStage_sums deductionStage_sums gross
        sumKind_linesBeforeCarry Let_def payslipLines_def shortfallOf_def atLeastZero_max)
qed

subsection \<open>Properties\<close>

definition carriedOut :: "CalcLine list \<Rightarrow> dong" where
  "carriedOut ls = sum_list (map ln_amount (filter (\<lambda>l. ln_kind l = INFO \<and> ln_code l = LINE_CARRY_OUT) ls))"

lemma carriedOut_append [simp]: "carriedOut (xs @ ys) = carriedOut xs + carriedOut ys"
  by (simp add: carriedOut_def)

lemma carriedOut_other:
  "(\<And>l. l \<in> set ls \<Longrightarrow> ln_kind l \<noteq> INFO \<or> ln_code l \<noteq> LINE_CARRY_OUT) \<Longrightarrow> carriedOut ls = 0"
  by (induction ls) (auto simp: carriedOut_def)

lemma carriedOut_before: "carriedOut (linesBeforeCarry inp) = 0"
  by (rule carriedOut_other)
    (auto simp: linesBeforeCarry_def deductionLines_def line_codes dest: earningLines_kind split: if_splits)

lemma sumKind_payslipLines:
  "sumKind DEDUCTION (payslipLines inp) = deductedOf inp"
  "sumKind EARNING (payslipLines inp) = grossOf inp"
  "sumKind EMPLOYER_COST (payslipLines inp) = employerOf inp"
  "carriedOut (payslipLines inp) = shortfallOf inp"
  by (simp_all add: payslipLines_def sumKind_linesBeforeCarry carriedOut_before)
    (auto simp: carriedOut_def shortfallOf_def)

text \<open>C38: a payslip is explained by its own lines: gross, employer cost and deductions are the sums
  of the lines of their kind, the carried-out line is what the deductions overran the gross by, the
  net is gross less deductions plus that line, and the ordinals count the lines from 1.\<close>

theorem payslip_adds_up:
  "let r = calculate inp; ls = map snd (res_lines r) in
     grossPay r = sumKind EARNING ls
     \<and> insuranceEmployer r = sumKind EMPLOYER_COST ls
     \<and> deductionsTotal r = sumKind DEDUCTION ls - carriedOut ls
     \<and> netPay r = sumKind EARNING ls - sumKind DEDUCTION ls + carriedOut ls
     \<and> map fst (res_lines r) = [1..<length ls + 1]"
proof -
  have ordinals: "map fst (enumerate 1 (payslipLines inp)) = [1..<length (payslipLines inp) + 1]"
    by (simp only: enumerate_eq_zip map_fst_zip length_upt add_diff_cancel_right' add.commute)
  show ?thesis
    by (simp add: calculate_eq Let_def sumKind_payslipLines ordinals del: upt_Suc)
qed

text \<open>A net that would go below zero is carried out exactly: with a next period to take it, the
  net is the positive part and the carried line the negative part of gross less deductions, so no
  payslip pays a negative amount; with none, the net is the plain difference and nothing is carried.\<close>

theorem shortfall_carried:
  "let r = calculate inp; ls = map snd (res_lines r); d = grossPay r - sumKind DEDUCTION ls in
     netPay r = (if carryShortfall inp then max 0 d else d)
     \<and> carriedOut ls = (if carryShortfall inp then max 0 (- d) else 0)"
  by (simp add: calculate_eq Let_def sumKind_payslipLines shortfallOf_def max_def)

text \<open>Gross and taxable income as sums over the inputs: the gross is every earning; the taxable
  income leaves out of it the untaxed part of each allowance, the untaxed extras, the night premium
  and whatever overtime pays above the normal hourly rate.\<close>

theorem calculate_gross_and_taxable:
  "grossPay (calculate inp) =
     basePayOf inp + sum_list (map alw_amount (allowances inp))
     + sum_list (map (bandPay (rateOf inp)) (bandsOf inp)) + nightPay inp (rateOf inp)
     + sum_list (map ext_amount (extras inp))
   \<and> taxableIncome (calculate inp) =
     max 0 (basePayOf inp + sum_list (map allowanceTaxed (allowances inp))
       + sum_list (map (bandNormalPay (rateOf inp)) (bandsOf inp))
       + sum_list (map ext_amount (filter ext_taxable (extras inp))))"
  by (simp add: calculate_eq grossOf_def taxableOf_def taxableEarningsOf_def exemptOf_def)

text \<open>The contribution rule: a month with at least the policy's unpaid days owes nothing, neither
  for the employee nor for the employer; any other month is charged on pay plus insurable
  allowances, capped apart for social and health and for unemployment.\<close>

theorem insurance_rule:
  "let p = in_policy inp; r = calculate inp;
       whole = insuranceSalary inp + sum_list (map allowanceInsured (allowances inp));
       s = min whole (referenceWage p * socialCapMultiple p);
       u = min whole (regionalMinimumWage p * unemploymentCapMultiple p) in
   (if noContributionUnpaidDays p * 100 \<le> unpaidDayHundredths inp
    then 0 \<le> referenceWage p * socialCapMultiple p \<longrightarrow> 0 \<le> regionalMinimumWage p * unemploymentCapMultiple p
         \<longrightarrow> insuranceEmployee r = 0 \<and> insuranceEmployer r = 0
    else insuranceEmployee r = byBasisPoints s (socialRateBp p) + byBasisPoints s (healthRateBp p)
           + byBasisPoints u (unemploymentRateBp p)
         \<and> insuranceEmployer r = byBasisPoints s (employerSocialRateBp p)
           + byBasisPoints s (employerHealthRateBp p) + byBasisPoints u (employerUnemploymentRateBp p))"
  by (simp add: calculate_eq Let_def socialOf_def healthOf_def unemploymentOf_def employerOf_def
      socialBase_def unemploymentBase_def insuranceBase_def insuranceBaseOf_def)

definition samplePolicy :: CalcPolicy where
  "samplePolicy =
     \<lparr>selfDeduction = 11000000, dependentDeduction = 4400000, socialRateBp = 800, healthRateBp = 150,
      unemploymentRateBp = 100, employerSocialRateBp = 1750, employerHealthRateBp = 300,
      employerUnemploymentRateBp = 100, referenceWage = 2340000, socialCapMultiple = 20,
      regionalMinimumWage = 4960000, unemploymentCapMultiple = 20, standardDayHundredths = 2200,
      noContributionUnpaidDays = 14, overtimeWeekdayBp = 15000, overtimeWeekendBp = 20000,
      overtimeHolidayBp = 30000, nightPremiumBp = 3000, brackets = sampleBrackets\<rparr>"

definition sampleInput :: CalcInput where
  "sampleInput =
     \<lparr>in_policy = samplePolicy, baseSalary = 22000000, insuranceSalary = 22000000, allowances = [],
      dependentCount = 1, paidDayHundredths = 0, unpaidDayHundredths = 1500,
      overtime = \<lparr>weekdayMinutes = 0, weekendMinutes = 0, holidayMinutes = 0, nightMinutes = 0\<rparr>,
      extras = [], deductions = [\<lparr>ded_code = ''ADVANCE'', ded_label = None, ded_amount = 3000000\<rparr>],
      carryShortfall = True\<rparr>"

theorem insurance_rule_witness:
  "insuranceEmployee (calculate sampleInput) = 0 \<and> insuranceEmployer (calculate sampleInput) = 0"
  using insurance_rule [of sampleInput] by (simp add: sampleInput_def samplePolicy_def Let_def)

end
