(* ===== verification/Policy.thy ===== *)
theory Policy
  imports Calculate Calendar Scope
begin

section \<open>Payroll policies\<close>

text \<open>
  \<open>backend/src/modules/policy/policy.service.ts\<close>: which policy prices an entity on a date, and the
  writing of a new one. A stored policy is its entity, its date and the values \<open>asCalcPolicy\<close> hands
  the calculation; its amounts are whole dong columns, so the conversion itself is left out. The
  result map of \<open>inForce\<close> is an association list in the order of \<open>wanted\<close>.
\<close>

record PolicyRow =
  pl_id :: string
  pl_legalEntityId :: "string option"
  pl_effectiveFrom :: day
  pl_calc :: CalcPolicy

text \<open>\<open>brackets.every(...)\<close> with the index: the previous ceiling is read back, -1 before the first and
  infinity (\<open>None\<close>) after an open band.\<close>

definition bandOk :: "CalcBracket list \<Rightarrow> nat \<Rightarrow> bool" where
  "bandOk brs j =
     (let last = (j = length brs - 1) in
      case upToAmount (brs ! j) of
        None \<Rightarrow> last
      | Some c \<Rightarrow>
          let below = (if j = 0 then Some (-1) else upToAmount (brs ! (j - 1)))
          in \<not> last \<and> (case below of None \<Rightarrow> False | Some b \<Rightarrow> c > b))"

definition bandsInOrder :: "CalcBracket list \<Rightarrow> bool" where
  "bandsInOrder brs \<longleftrightarrow> (\<forall>j < length brs. bandOk brs j)"

definition policyRead :: "PolicyRow list \<Rightarrow> day \<Rightarrow> string option list \<Rightarrow> PolicyRow list" where
  "policyRead rows on wanted =
     rev (sort_key pl_effectiveFrom
       (rev (filter (\<lambda>r. pl_effectiveFrom r \<le> on
                \<and> (pl_legalEntityId r = None \<or> pl_legalEntityId r \<in> set wanted)) rows)))"

definition policyOfEntity :: "PolicyRow list \<Rightarrow> string option \<Rightarrow> PolicyRow option" where
  "policyOfEntity read entity =
     (case find (\<lambda>r. entity \<noteq> None \<and> pl_legalEntityId r = entity) read of
        Some r \<Rightarrow> Some r
      | None \<Rightarrow> find (\<lambda>r. pl_legalEntityId r = None) read)"

fun inForceLoop :: "PolicyRow list \<Rightarrow> string option list \<Rightarrow> (string option \<times> PolicyRow) list \<Rightarrow> (string option \<times> PolicyRow) list result" where
  "inForceLoop read [] found' = Inr found'"
| "inForceLoop read (e # es) found' =
     (case policyOfEntity read e of
        None \<Rightarrow> Inl (NotFound ''POLICY_MISSING'')
      | Some p \<Rightarrow> inForceLoop read es (found' @ [(e, p)]))"

definition inForce :: "PolicyRow list \<Rightarrow> day \<Rightarrow> string option list \<Rightarrow> (string option \<times> PolicyRow) list result" where
  "inForce rows on ids = (let wanted = firsts ids in inForceLoop (policyRead rows on wanted) wanted [])"

definition effectiveAt :: "PolicyRow list \<Rightarrow> day \<Rightarrow> string option \<Rightarrow> PolicyRow result" where
  "effectiveAt rows on entity = bindR (inForce rows on [entity]) (\<lambda>ps. found (map_of ps entity) (Unhandled ''undefined''))"

definition effectiveFor :: "PolicyRow list \<Rightarrow> Viewer \<Rightarrow> day \<Rightarrow> string option \<Rightarrow> PolicyRow result" where
  "effectiveFor rows v on entity =
     bindR (refuse (\<not> reachesEntity v entity) (NotFound ''LEGAL_ENTITY_NOT_FOUND'')) (\<lambda>_. effectiveAt rows on entity)"

text \<open>\<open>create\<close>, with the row it would insert; the unique key is (entity, date) where an entity is named.\<close>

definition createPolicy :: "PolicyRow list \<Rightarrow> Viewer \<Rightarrow> PolicyRow \<Rightarrow> (PolicyRow list \<times> effect list) result" where
  "createPolicy rows v row =
     bindR (case pl_legalEntityId row of
              None \<Rightarrow> mustWriteGroup v
            | Some e \<Rightarrow> refuse (\<not> reachesEntity v (Some e)) (NotFound ''LEGAL_ENTITY_NOT_FOUND'')) (\<lambda>_.
     bindR (refuse (\<not> bandsInOrder (brackets (pl_calc row))) (BadRequest ''BRACKETS_OUT_OF_ORDER'')) (\<lambda>_.
     bindR (refuse (pl_legalEntityId row \<noteq> None \<and>
              (\<exists>r \<in> set rows. pl_legalEntityId r = pl_legalEntityId row \<and> pl_effectiveFrom r = pl_effectiveFrom row))
              (Conflict ''POLICY_DATE_TAKEN'')) (\<lambda>_.
       Inr (rows @ [row], [Audited (v_userId v) ''POLICY_CREATE'' (pl_id row)]))))"

subsection \<open>Bands\<close>

lemma bandsInOrder_Cons:
  "bandsInOrder (b # bs) \<Longrightarrow>
     (case upToAmount b of
        None \<Rightarrow> bs = []
      | Some c \<Rightarrow> -1 < c \<and> bs \<noteq> [] \<and> (\<forall>c'. upToAmount (hd bs) = Some c' \<longrightarrow> c < c'))"
proof -
  assume ord: "bandsInOrder (b # bs)"
  then have 0: "bandOk (b # bs) 0" by (simp add: bandsInOrder_def)
  show ?thesis
  proof (cases "upToAmount b")
    case None
    with 0 show ?thesis by (simp add: bandOk_def)
  next
    case (Some c)
    with 0 have c: "-1 < c" "bs \<noteq> []" by (auto simp: bandOk_def)
    then have "bandOk (b # bs) 1" using ord by (cases bs) (auto simp: bandsInOrder_def)
    with Some c show ?thesis by (cases bs) (auto simp: bandOk_def Let_def)
  qed
qed

lemma bandOk_shift:
  assumes "0 < k" "k < length (b' # bs)"
  shows "bandOk (b # b' # bs) (Suc k) = bandOk (b' # bs) k"
proof -
  obtain m where "k = Suc m" using assms(1) by (cases k) auto
  with assms show ?thesis by (cases "upToAmount (bs ! m)") (auto simp: bandOk_def Let_def)
qed

lemma ordered_ascending:
  assumes "\<forall>k. 0 < k \<and> k < length (b # bs) \<longrightarrow> bandOk (b # bs) k"
    and "case upToAmount b of None \<Rightarrow> bs = [] | Some c \<Rightarrow> lo < c"
  shows "ascending lo (b # bs)"
  using assms
proof (induction bs arbitrary: lo b)
  case Nil
  then show ?case by (cases "upToAmount b") auto
next
  case (Cons b' bs)
  then obtain c where c: "upToAmount b = Some c" "lo < c" by (cases "upToAmount b") auto
  have 1: "bandOk (b # b' # bs) 1" using Cons.prems(1) by simp
  have tail: "\<forall>k. 0 < k \<and> k < length (b' # bs) \<longrightarrow> bandOk (b' # bs) k"
  proof (intro allI impI)
    fix k assume k: "0 < k \<and> k < length (b' # bs)"
    then have "bandOk (b # b' # bs) (Suc k)" using Cons.prems(1) by auto
    with k show "bandOk (b' # bs) k" by (simp only: bandOk_shift)
  qed
  have "case upToAmount b' of None \<Rightarrow> bs = [] | Some d \<Rightarrow> c < d"
    using 1 c by (cases "upToAmount b'") (auto simp: bandOk_def Let_def)
  with Cons.IH [OF tail] c show ?case by simp
qed

lemma bandsInOrder_ascending: "bandsInOrder brs \<Longrightarrow> ascending (-1) brs"
proof (cases brs)
  case (Cons b bs)
  assume ord: "bandsInOrder brs"
  with Cons have "case upToAmount b of None \<Rightarrow> bs = [] | Some c \<Rightarrow> -1 < c"
    using bandsInOrder_Cons [of b bs] by (cases "upToAmount b") auto
  with ord show ?thesis unfolding Cons by (intro ordered_ascending) (auto simp: bandsInOrder_def)
qed simp

lemma bandsInOrder_last: "bandsInOrder brs \<Longrightarrow> brs \<noteq> [] \<longrightarrow> upToAmount (last brs) = None"
proof
  assume "bandsInOrder brs" "brs \<noteq> []"
  then have "bandOk brs (length brs - 1)" by (simp add: bandsInOrder_def)
  with \<open>brs \<noteq> []\<close> show "upToAmount (last brs) = None"
    by (cases "upToAmount (last brs)") (auto simp: bandOk_def Let_def last_conv_nth)
qed

lemma ascending_weaken: "ascending lo brs \<Longrightarrow> lo' \<le> lo \<Longrightarrow> ascending lo' brs"
  by (cases brs) (auto split: option.splits)

text \<open>A first ceiling of zero is accepted; its band charges nothing.\<close>

lemma taxOn_accepted: "ascending (-1) brs \<Longrightarrow> taxOn a brs = bandTax a 0 brs"
proof (cases "brs \<noteq> [] \<and> upToAmount (hd brs) = Some 0")
  case True
  then obtain b bs where b: "brs = b # bs" "upToAmount b = Some 0" by (cases brs) auto
  moreover assume "ascending (-1) brs"
  ultimately have "ascending 0 bs" by simp
  with b show ?thesis
    by (auto simp: taxOn_def Let_def taxLoop_bandTax bandTax_below atMost_min max_def)
next
  case False
  moreover assume "ascending (-1) brs"
  ultimately have "ascending 0 brs" by (cases brs) (auto split: option.splits)
  then show ?thesis by (rule taxOn_bandTax)
qed

subsection \<open>Creating a policy\<close>

lemma createPolicy_eq:
  "createPolicy rows v row = Inr (rows', effs) \<longleftrightarrow>
     (case pl_legalEntityId row of None \<Rightarrow> mustWriteGroup v = Inr () | Some e \<Rightarrow> reachesEntity v (Some e))
     \<and> bandsInOrder (brackets (pl_calc row))
     \<and> \<not> (pl_legalEntityId row \<noteq> None \<and>
          (\<exists>r \<in> set rows. pl_legalEntityId r = pl_legalEntityId row \<and> pl_effectiveFrom r = pl_effectiveFrom row))
     \<and> rows' = rows @ [row] \<and> effs = [Audited (v_userId v) ''POLICY_CREATE'' (pl_id row)]"
  by (cases "pl_legalEntityId row") (auto simp: createPolicy_def bindR_eq_Inr)

lemma inForce_later:
  assumes "on < pl_effectiveFrom row"
  shows "inForce (rows @ [row]) on ids = inForce rows on ids"
  using assms by (simp add: inForce_def policyRead_def)

subsection \<open>The policy in force\<close>

lemma policyRead_set:
  "set (policyRead rows on wanted) =
     {r \<in> set rows. pl_effectiveFrom r \<le> on \<and> (pl_legalEntityId r = None \<or> pl_legalEntityId r \<in> set wanted)}"
  by (auto simp: policyRead_def)

lemma policyRead_sorted: "sorted_wrt (\<lambda>r r'. pl_effectiveFrom r' \<le> pl_effectiveFrom r) (policyRead rows on wanted)"
proof -
  have "sorted_wrt (\<lambda>r r'. pl_effectiveFrom r \<le> pl_effectiveFrom r') (sort_key pl_effectiveFrom xs)" for xs :: "PolicyRow list"
    using sorted_sort_key [of pl_effectiveFrom xs] by (simp add: sorted_wrt_map)
  then show ?thesis by (simp add: policyRead_def sorted_wrt_rev)
qed

lemma find_first:
  "sorted_wrt R xs \<Longrightarrow> find P xs = Some x \<Longrightarrow> y \<in> set xs \<Longrightarrow> P y \<Longrightarrow> y = x \<or> R x y"
  by (induction xs) (auto split: if_splits dest: find_mem)

lemma inForceLoop_ok:
  "inForceLoop read es acc = Inr ps \<Longrightarrow>
     ps = acc @ map (\<lambda>e. (e, the (policyOfEntity read e))) es \<and> (\<forall>e \<in> set es. policyOfEntity read e \<noteq> None)"
  by (induction es arbitrary: acc) (fastforce split: option.splits)+

lemma inForce_ok:
  assumes "inForce rows on ids = Inr ps" "e \<in> set ids"
  obtains p where "map_of ps e = Some p" "policyOfEntity (policyRead rows on (firsts ids)) e = Some p"
proof -
  let ?read = "policyRead rows on (firsts ids)"
  from inForceLoop_ok [OF assms(1) [unfolded inForce_def Let_def]]
  have ps: "ps = map (\<lambda>e. (e, the (policyOfEntity ?read e))) (firsts ids)"
    and some: "policyOfEntity ?read e \<noteq> None" using assms(2) by auto
  have "map_of ps e = Some (the (policyOfEntity ?read e))"
    unfolding ps using assms(2) by (simp add: map_of_map_restrict)
  with some that show ?thesis by auto
qed

lemma policyOfEntity_newest:
  assumes "policyOfEntity (policyRead rows on wanted) e = Some p" "e = None \<or> e \<in> set wanted"
  shows "p \<in> set rows \<and> pl_effectiveFrom p \<le> on
    \<and> (pl_legalEntityId p = e \<or> pl_legalEntityId p = None
         \<and> \<not> (\<exists>r \<in> set rows. pl_legalEntityId r = e \<and> pl_effectiveFrom r \<le> on))
    \<and> \<not> (\<exists>r \<in> set rows. pl_legalEntityId r = pl_legalEntityId p \<and> pl_effectiveFrom r \<le> on
           \<and> pl_effectiveFrom p < pl_effectiveFrom r)"
proof -
  let ?read = "policyRead rows on wanted"
  let ?own = "find (\<lambda>r. e \<noteq> None \<and> pl_legalEntityId r = e) ?read"
  let ?wide = "find (\<lambda>r. pl_legalEntityId r = None) ?read"
  note newest = find_first [OF policyRead_sorted [of rows on wanted]]
  show ?thesis
  proof (cases ?own)
    case (Some q)
    with assms(1) have "?own = Some p" by (simp add: policyOfEntity_def)
    with assms(2) find_mem [OF this] newest [OF this] show ?thesis
      by (fastforce simp: policyRead_set)
  next
    case None
    with assms(1) have p: "?wide = Some p" by (simp add: policyOfEntity_def)
    from None have "e = None \<or> \<not> (\<exists>r \<in> set rows. pl_legalEntityId r = e \<and> pl_effectiveFrom r \<le> on)"
      using assms(2) by (auto simp: find_isNone policyRead_set)
    with find_mem [OF p] newest [OF p] show ?thesis by (fastforce simp: policyRead_set)
  qed
qed

subsection \<open>Properties\<close>

text \<open>Whenever a policy is accepted, the tax its bands give is the band-wise progressive tax for
  every income: no slice is skipped, repeated or left untaxed, its last band has no ceiling, and
  nobody but a desk of the whole group wrote a policy without an entity. Accepting it changes no
  figure of an earlier date, for whichever entities are asked about.\<close>

theorem policy_accepted:
  assumes "createPolicy rows v row = Inr (rows', effs)"
  shows "taxOn a (brackets (pl_calc row)) = bandTax a 0 (brackets (pl_calc row))
    \<and> (brackets (pl_calc row) \<noteq> [] \<longrightarrow> upToAmount (last (brackets (pl_calc row))) = None)
    \<and> (pl_legalEntityId row = None \<longrightarrow> mustWriteGroup v = Inr ())
    \<and> (on < pl_effectiveFrom row \<longrightarrow> inForce rows' on ids = inForce rows on ids)"
proof -
  note ok = assms [unfolded createPolicy_eq]
  then have ord: "bandsInOrder (brackets (pl_calc row))" by blast
  then have last: "brackets (pl_calc row) \<noteq> [] \<longrightarrow> upToAmount (last (brackets (pl_calc row))) = None"
    by (rule bandsInOrder_last)
  with ok ord show ?thesis
    by (cases "pl_legalEntityId row") (simp_all add: taxOn_accepted bandsInOrder_ascending inForce_later)
qed

definition sampleRow :: "string \<Rightarrow> string option \<Rightarrow> day \<Rightarrow> PolicyRow" where
  "sampleRow i e d = \<lparr>pl_id = i, pl_legalEntityId = e, pl_effectiveFrom = d, pl_calc = samplePolicy\<rparr>"

theorem policy_accepted_witness:
  "taxOn 7000000 sampleBrackets = bandTax 7000000 0 sampleBrackets
   \<and> inForce [sampleRow ''g'' None 100, sampleRow ''b'' (Some ''B'') 400] 300 [Some ''B'']
     = inForce [sampleRow ''g'' None 100] 300 [Some ''B'']"
proof -
  have made: "createPolicy [sampleRow ''g'' None 100]
      \<lparr>v_userId = ''u'', v_role = PAYROLL, v_employeeId = Some 1, v_entityIds = Some [''B'']\<rparr>
      (sampleRow ''b'' (Some ''B'') 400)
    = Inr ([sampleRow ''g'' None 100, sampleRow ''b'' (Some ''B'') 400], [Audited ''u'' ''POLICY_CREATE'' ''b''])"
    by code_simp
  from policy_accepted [OF made, of 7000000 300 "[Some ''B'']"] show ?thesis
    by (simp add: sampleRow_def samplePolicy_def)
qed

text \<open>The policies in force on a date: each entity asked about gets its own newest row not after
  the date, and the newest company-wide row only when it has none of its own; a run is refused
  whole as soon as one entity has neither.\<close>

theorem inForce_exact:
  assumes "e \<in> set ids"
  shows "(inForce rows on ids = Inr ps \<longrightarrow>
      (\<exists>p. map_of ps e = Some p \<and> p \<in> set rows \<and> pl_effectiveFrom p \<le> on
        \<and> (pl_legalEntityId p = e \<or> pl_legalEntityId p = None
             \<and> \<not> (\<exists>r \<in> set rows. pl_legalEntityId r = e \<and> pl_effectiveFrom r \<le> on))
        \<and> \<not> (\<exists>r \<in> set rows. pl_legalEntityId r = pl_legalEntityId p \<and> pl_effectiveFrom r \<le> on
               \<and> pl_effectiveFrom p < pl_effectiveFrom r)))
    \<and> (\<not> (\<exists>r \<in> set rows. pl_effectiveFrom r \<le> on \<and> (pl_legalEntityId r = e \<or> pl_legalEntityId r = None))
        \<longrightarrow> inForce rows on ids = Inl (NotFound ''POLICY_MISSING''))"
proof (intro conjI impI)
  assume "inForce rows on ids = Inr ps"
  from inForce_ok [OF this assms] obtain p where
    p: "map_of ps e = Some p" "policyOfEntity (policyRead rows on (firsts ids)) e = Some p" .
  from policyOfEntity_newest [OF p(2)] assms p(1)
  show "\<exists>p. map_of ps e = Some p \<and> p \<in> set rows \<and> pl_effectiveFrom p \<le> on
        \<and> (pl_legalEntityId p = e \<or> pl_legalEntityId p = None
             \<and> \<not> (\<exists>r \<in> set rows. pl_legalEntityId r = e \<and> pl_effectiveFrom r \<le> on))
        \<and> \<not> (\<exists>r \<in> set rows. pl_legalEntityId r = pl_legalEntityId p \<and> pl_effectiveFrom r \<le> on
               \<and> pl_effectiveFrom p < pl_effectiveFrom r)" by auto
next
  assume none: "\<not> (\<exists>r \<in> set rows. pl_effectiveFrom r \<le> on \<and> (pl_legalEntityId r = e \<or> pl_legalEntityId r = None))"
  let ?read = "policyRead rows on (firsts ids)"
  have "policyOfEntity ?read e = None"
    using none by (auto simp: policyOfEntity_def find_isNone policyRead_set split: option.splits dest!: find_mem)
  moreover have "e \<in> set es \<Longrightarrow> policyOfEntity ?read e = None \<Longrightarrow>
      inForceLoop ?read es acc = Inl (NotFound ''POLICY_MISSING'')" for es acc
    by (induction es arbitrary: acc) (auto split: option.splits)
  ultimately show "inForce rows on ids = Inl (NotFound ''POLICY_MISSING'')"
    using assms by (simp add: inForce_def Let_def)
qed

theorem inForce_exact_witness:
  "\<exists>ps p. inForce [sampleRow ''g'' None 100, sampleRow ''b'' (Some ''B'') 400] 500 [Some ''B'', None] = Inr ps
     \<and> map_of ps (Some ''B'') = Some p \<and> pl_effectiveFrom p \<le> 500"
proof -
  let ?rows = "[sampleRow ''g'' None 100, sampleRow ''b'' (Some ''B'') 400]"
  have ps: "inForce ?rows 500 [Some ''B'', None] =
    Inr [(Some ''B'', sampleRow ''b'' (Some ''B'') 400), (None, sampleRow ''g'' None 100)]" by code_simp
  have "Some ''B'' \<in> set [Some ''B'', None]" by simp
  from inForce_exact [OF this, of ?rows 500] ps show ?thesis by blast
qed

end
