(* ===== verification/Payslips.thy ===== *)
theory Payslips
  imports Policy LeaveYear "HOL-Library.List_Lexorder" "HOL-Library.Char_ord"
begin

section \<open>Pricing payslips\<close>

text \<open>
  The pricing half of \<open>backend/src/modules/payroll/payroll.service.ts\<close>: what \<open>runChunk\<close>, \<open>runBonus\<close> and
  \<open>runSettlement\<close> read about a person and the payslip they make of it, and \<open>taxYear\<close>, \<open>compare\<close> and
  the settlement sheet, which read payslips back. Amount columns are whole dong. Ids of rows the
  payroll tables make are numbers handed out in order, standing for fresh uuids.
\<close>

subsection \<open>Rows\<close>

datatype RunKind = REGULAR | BONUS | FINAL_SETTLEMENT

datatype RunState = RN_DRAFT | RN_RUNNING | RN_DONE | RN_FAILED | RN_DISCARDED

datatype PayslipState = SL_DRAFT | SL_ISSUED | SL_SENT | SL_VIEWED

datatype RetroState = RT_PENDING | RT_APPLIED | RT_CANCELLED

datatype AdvanceState = AV_PENDING | AV_APPROVED | AV_REJECTED | AV_PAID | AV_SETTLED | AV_CANCELLED

datatype DependentState = DP_PENDING | DP_ACTIVE | DP_REJECTED | DP_ENDED

datatype SettlementKind = SEVERANCE | ASSET_OFFSET

record CompensationRecord =
  cr_id :: string
  cr_employeeId :: int
  cr_effectiveFrom :: day
  cr_baseSalary :: dong
  cr_insuranceSalary :: dong

record Dependent =
  dn_employeeId :: int
  dn_fromMonth :: day
  dn_toMonth :: "day option"
  dn_state :: DependentState

record RetroAdjustment =
  rt_id :: nat
  rt_employeeId :: int
  rt_sourcePeriodId :: nat
  rt_appliedPeriodId :: "nat option"
  rt_code :: string
  rt_label :: "string option"
  rt_amount :: dong
  rt_state :: RetroState
  rt_reason :: string

record SalaryAdvance =
  av_id :: nat
  av_employeeId :: int
  av_amount :: dong
  av_reason :: string
  av_state :: AdvanceState
  av_requestedAt :: instant
  av_decidedById :: "string option"
  av_decidedAt :: "instant option"
  av_decisionNote :: "string option"
  av_paidAt :: "instant option"
  av_settledAt :: "instant option"
  av_payslipId :: "nat option"

record BonusItem =
  bi_runId :: nat
  bi_employeeId :: int
  bi_code :: string
  bi_label :: "string option"
  bi_amount :: dong
  bi_taxable :: bool

record SettlementItem =
  si_runId :: nat
  si_employeeId :: int
  si_kind :: SettlementKind
  si_label :: "string option"
  si_amount :: dong
  si_taxable :: bool
  si_note :: "string option"

record Payslip =
  sl_id :: nat
  sl_runId :: nat
  sl_periodId :: nat
  sl_employeeId :: int
  sl_policyId :: string
  sl_state :: PayslipState
  sl_workedDays :: int
  sl_paidLeaveDays :: string
  sl_unpaidDays :: string
  sl_workedMinutes :: int
  sl_overtimeMinutes :: int
  sl_grossPay :: dong
  sl_taxableIncome :: dong
  sl_insuranceEmployee :: dong
  sl_insuranceEmployer :: dong
  sl_personalIncomeTax :: dong
  sl_deductionsTotal :: dong
  sl_netPay :: dong
  sl_bankName :: "string option"
  sl_bankAccount :: "string option"
  sl_issuedAt :: "instant option"
  sl_sentAt :: "instant option"
  sl_viewedAt :: "instant option"
  sl_lines :: "(nat \<times> CalcLine) list"

datatype DisputeState = DS_OPEN | DS_ANSWERED | DS_WITHDRAWN

datatype DisputeOutcome = UPHELD | REJECTED

record PayslipDispute =
  di_id :: nat
  di_payslipId :: nat
  di_employeeId :: int
  di_lineCode :: "string option"
  di_claim :: string
  di_state :: DisputeState
  di_dueAt :: instant
  di_outcome :: "DisputeOutcome option"
  di_answer :: "string option"
  di_answeredAt :: "instant option"
  di_answeredById :: "string option"
  di_retroId :: "nat option"

definition kHundred :: int where
  "kHundred = 100"

definition LINE_ADVANCE :: string where
  "LINE_ADVANCE = ''ADVANCE''"

definition CARRY_REASON :: string where
  "CARRY_REASON = ''NEGATIVE_NET''"

definition sumOf :: "(nat \<times> CalcLine) list \<Rightarrow> string \<Rightarrow> dong" where
  "sumOf ls code = sum_list (map (ln_amount \<circ> snd) (filter (\<lambda>l. ln_code (snd l) = code) ls))"

subsection \<open>What a run reads about a person\<close>

text \<open>The tables a run reads: they belong to other services and stay as they are while it prices. For
  the checklist of a lock they hold who has an asset out, a holder for each.\<close>

record PayBooks =
  pb_employees :: "Employee list"
  pb_compensation :: "CompensationRecord list"
  pb_allowances :: "(string \<times> CalcAllowance) list"
  pb_dependents :: "Dependent list"
  pb_days :: days
  pb_requests :: "Request list"
  pb_leaveTypes :: types
  pb_typeIds :: "string list"
  pb_balances :: balances
  pb_holidays :: "Holiday list"
  pb_policies :: "PolicyRow list"
  pb_assetHolders :: "int list"

text \<open>
  Division of two whole numbers as the database does it on \<open>numeric\<close>: rounded half away from zero at
  a scale that keeps at least sixteen digits, found from the leading base-10000 digits.
\<close>

fun weight10k :: "nat \<Rightarrow> int" where
  "weight10k n = (if n < 10000 then 0 else 1 + weight10k (n div 10000))"

declare weight10k.simps [simp del]

fun lead10k :: "nat \<Rightarrow> nat" where
  "lead10k n = (if n < 10000 then n else lead10k (n div 10000))"

declare lead10k.simps [simp del]

definition numericScale :: "int \<Rightarrow> int \<Rightarrow> nat" where
  "numericScale a b =
     (let a' = nat \<bar>a\<bar>; b' = nat \<bar>b\<bar>;
          q = weight10k a' - weight10k b';
          q' = (if lead10k a' \<le> lead10k b' then q - 1 else q)
      in nat (max 0 (16 - 4 * q')))"

definition numericDiv :: "int \<Rightarrow> int \<Rightarrow> rat" where
  "numericDiv a b = (let s = numericScale a b in of_int (mulDiv a (10 ^ s) b) / 10 ^ s)"

text \<open>Overtime pays the lesser of the measured minutes and the approved ones of the day.\<close>

definition overtimeAllowed :: "Request list \<Rightarrow> int \<Rightarrow> day \<Rightarrow> rat" where
  "overtimeAllowed rs e d =
     sum_list (map (\<lambda>r. numericDiv (rq_minutes r) (rq_toDate r - rq_fromDate r + 1))
       (filter (\<lambda>r. rq_employeeId r = e \<and> rq_kind r = RK_OVERTIME \<and> rq_state r = RS_APPROVED
                  \<and> rq_fromDate r \<le> d \<and> d \<le> rq_toDate r) rs))"

record PaidDay =
  pd_state :: DayState
  pd_calendar :: DayCalendar
  pd_workedMinutes :: int
  pd_outside :: bool
  pd_overtimePaid :: int

definition paidDay :: "PayBooks \<Rightarrow> Employee \<Rightarrow> day \<Rightarrow> AttendanceDay \<Rightarrow> PaidDay" where
  "paidDay pb e d row =
     \<lparr>pd_state = ad_state row, pd_calendar = ad_calendar row, pd_workedMinutes = ad_worked row,
      pd_outside = (d < orElse (em_hireDate e) d \<or> d > orElse (em_leaveDate e) d),
      pd_overtimePaid = min (ad_over row) \<lfloor>overtimeAllowed (pb_requests pb) (em_id e) d\<rfloor>\<rparr>"

definition daysIn :: "PayBooks \<Rightarrow> int \<Rightarrow> day \<Rightarrow> day \<Rightarrow> (day \<times> AttendanceDay) list" where
  "daysIn pb e start end =
     List.map_filter (\<lambda>d. map_option (Pair d) (pb_days pb (e, d))) (everyDay start end)"

record DayTally =
  dt_workedDays :: int
  dt_holidayDays :: int
  dt_absentDays :: int
  dt_workedMinutes :: int
  dt_weekdayOt :: int
  dt_weekendOt :: int
  dt_holidayOt :: int

definition countWhere :: "('a \<Rightarrow> bool) \<Rightarrow> 'a list \<Rightarrow> int" where
  "countWhere P xs = int (length (filter P xs))"

definition sumWhere :: "('a \<Rightarrow> bool) \<Rightarrow> ('a \<Rightarrow> int) \<Rightarrow> 'a list \<Rightarrow> int" where
  "sumWhere P f xs = sum_list (map f (filter P xs))"

text \<open>The grouped query over the built days; a person with no row reads zeros, as the group would.\<close>

definition dayTally :: "PayBooks \<Rightarrow> Employee \<Rightarrow> day \<Rightarrow> day \<Rightarrow> DayTally" where
  "dayTally pb e start end =
     (let paid = map (\<lambda>(d, row). paidDay pb e d row) (daysIn pb (em_id e) start end) in
      \<lparr>dt_workedDays = countWhere (\<lambda>p. pd_state p = DS_WORKED \<and> pd_calendar p = WORKDAY) paid,
       dt_holidayDays = countWhere (\<lambda>p. pd_calendar p = HOLIDAY) paid,
       dt_absentDays = countWhere (\<lambda>p. pd_state p = DS_ABSENT \<and> \<not> pd_outside p) paid,
       dt_workedMinutes = sumWhere (\<lambda>_. True) pd_workedMinutes paid,
       dt_weekdayOt = sumWhere (\<lambda>p. pd_calendar p = WORKDAY) pd_overtimePaid paid,
       dt_weekendOt = sumWhere (\<lambda>p. pd_calendar p = WEEKEND \<or> pd_calendar p = UNPAID_HOLIDAY) pd_overtimePaid paid,
       dt_holidayOt = sumWhere (\<lambda>p. pd_calendar p = HOLIDAY) pd_overtimePaid paid\<rparr>)"

text \<open>Leave taken on built days, in hundredths of a day, by whether its type is paid.\<close>

definition leaveTally :: "PayBooks \<Rightarrow> int \<Rightarrow> day \<Rightarrow> day \<Rightarrow> bool \<Rightarrow> int" where
  "leaveTally pb e start end isPaid =
     sum_list (map (\<lambda>(d, row).
         sum_list (map (\<lambda>r. if rq_halfDay r then 50 else 100)
           (filter (\<lambda>r. rq_employeeId r = e \<and> rq_kind r = RK_LEAVE \<and> rq_state r = RS_APPROVED
                      \<and> rq_fromDate r \<le> d \<and> d \<le> rq_toDate r
                      \<and> (case rq_leaveTypeId r of
                           None \<Rightarrow> False
                         | Some t \<Rightarrow> (case pb_leaveTypes pb t of None \<Rightarrow> False | Some ty \<Rightarrow> lt_paid ty = isPaid)))
             (pb_requests pb))))
       (filter (\<lambda>(d, row). ad_state row = DS_LEAVE) (daysIn pb e start end)))"

definition dependentsOf :: "PayBooks \<Rightarrow> int \<Rightarrow> day \<Rightarrow> int" where
  "dependentsOf pb e end =
     countWhere (\<lambda>d. dn_employeeId d = e \<and> dn_state d = DP_ACTIVE \<and> dn_fromMonth d \<le> end
                   \<and> (case dn_toMonth d of None \<Rightarrow> True | Some t \<Rightarrow> t \<ge> end)) (pb_dependents pb)"

definition payOf :: "PayBooks \<Rightarrow> int \<Rightarrow> day \<Rightarrow> CompensationRecord option" where
  "payOf pb e end =
     newest (\<lambda>a b. cr_effectiveFrom a > cr_effectiveFrom b)
       (filter (\<lambda>c. cr_employeeId c = e \<and> cr_effectiveFrom c \<le> end) (pb_compensation pb))"

text \<open>Waiting adjustments are extras, but a carried shortfall, which comes off after tax.\<close>

definition retroExtras :: "RetroAdjustment list \<Rightarrow> int \<Rightarrow> CalcExtra list" where
  "retroExtras rs e =
     map (\<lambda>r. \<lparr>ext_code = ''RETRO_'' @ rt_code r, ext_label = rt_label r, ext_amount = rt_amount r, ext_taxable = True\<rparr>)
       (filter (\<lambda>r. rt_employeeId r = e \<and> rt_code r \<noteq> CARRY_CODE) rs)"

definition owed :: "RetroAdjustment list \<Rightarrow> SalaryAdvance list \<Rightarrow> int \<Rightarrow> CalcDeduction list" where
  "owed rs avs e =
     map (\<lambda>r. \<lparr>ded_code = ''RETRO_'' @ rt_code r, ded_label = None, ded_amount = rt_amount r\<rparr>)
       (filter (\<lambda>r. rt_employeeId r = e \<and> rt_code r = CARRY_CODE) rs)
     @ map (\<lambda>a. \<lparr>ded_code = LINE_ADVANCE, ded_label = None, ded_amount = av_amount a\<rparr>)
         (filter (\<lambda>a. av_employeeId a = e) avs)"

subsection \<open>A regular run\<close>

definition asHired :: "Employee \<Rightarrow> HiredPerson" where
  "asHired e = \<lparr>hp_entity = em_legalEntityId e, hp_hireDate = em_hireDate e, hp_leaveDate = em_leaveDate e\<rparr>"

definition leavingBy :: "Employee \<Rightarrow> day \<Rightarrow> bool" where
  "leavingBy e end \<longleftrightarrow> (case em_leaveDate e of None \<Rightarrow> False | Some l \<Rightarrow> l \<le> end)"

definition unpaidHundredths :: "PayBooks \<Rightarrow> Employee \<Rightarrow> day \<Rightarrow> day \<Rightarrow> int" where
  "unpaidHundredths pb e start end =
     (let unpaidWholeDays = dt_absentDays (dayTally pb e start end)
            + int (workdaysOutside start end (asHired e)
                (filter (\<lambda>h. start \<le> hol_date h \<and> hol_date h \<le> end) (pb_holidays pb)))
      in leaveTally pb (em_id e) start end False + unpaidWholeDays * 100)"

definition paidHundredths :: "PayBooks \<Rightarrow> Employee \<Rightarrow> day \<Rightarrow> day \<Rightarrow> int" where
  "paidHundredths pb e start end =
     (let t = dayTally pb e start end
      in (dt_workedDays t + dt_holidayDays t) * 100 + leaveTally pb (em_id e) start end True)"

text \<open>What \<open>calculate\<close> is handed for one person of the chunk.\<close>

definition chunkInput ::
  "PayBooks \<Rightarrow> RetroAdjustment list \<Rightarrow> SalaryAdvance list \<Rightarrow> CalcPolicy \<Rightarrow> CompensationRecord \<Rightarrow> Employee \<Rightarrow> day \<Rightarrow> day \<Rightarrow> CalcInput" where
  "chunkInput pb rs avs pol c e start end =
     (let t = dayTally pb e start end in
      \<lparr>in_policy = pol, baseSalary = cr_baseSalary c, insuranceSalary = cr_insuranceSalary c,
       allowances = map snd (filter (\<lambda>(rid, _). rid = cr_id c) (pb_allowances pb)),
       dependentCount = dependentsOf pb (em_id e) end,
       paidDayHundredths = paidHundredths pb e start end,
       unpaidDayHundredths = unpaidHundredths pb e start end,
       overtime = \<lparr>weekdayMinutes = dt_weekdayOt t, weekendMinutes = dt_weekendOt t,
                   holidayMinutes = dt_holidayOt t, nightMinutes = 0\<rparr>,
       extras = retroExtras rs (em_id e),
       deductions = owed rs avs (em_id e),
       carryShortfall = \<not> leavingBy e end\<rparr>)"

text \<open>A new payslip of a run: a draft that nothing has been done with.\<close>

definition blankSlip :: "nat \<Rightarrow> nat \<Rightarrow> int \<Rightarrow> string \<Rightarrow> Payslip" where
  "blankSlip rid pid e pol =
     \<lparr>sl_id = 0, sl_runId = rid, sl_periodId = pid, sl_employeeId = e, sl_policyId = pol, sl_state = SL_DRAFT,
      sl_workedDays = 0, sl_paidLeaveDays = ''0'', sl_unpaidDays = ''0'', sl_workedMinutes = 0,
      sl_overtimeMinutes = 0, sl_grossPay = 0, sl_taxableIncome = 0, sl_insuranceEmployee = 0,
      sl_insuranceEmployer = 0, sl_personalIncomeTax = 0, sl_deductionsTotal = 0, sl_netPay = 0,
      sl_bankName = None, sl_bankAccount = None, sl_issuedAt = None, sl_sentAt = None, sl_viewedAt = None,
      sl_lines = []\<rparr>"

definition regularSlip ::
  "PayBooks \<Rightarrow> RetroAdjustment list \<Rightarrow> SalaryAdvance list \<Rightarrow> nat \<Rightarrow> nat \<Rightarrow> PolicyRow \<Rightarrow> CompensationRecord \<Rightarrow> Employee
    \<Rightarrow> day \<Rightarrow> day \<Rightarrow> Payslip" where
  "regularSlip pb rs avs rid pid pol c e start end =
     (let t = dayTally pb e start end;
          result = calculate (chunkInput pb rs avs (pl_calc pol) c e start end)
      in (blankSlip rid pid (em_id e) (pl_id pol))
          \<lparr>sl_workedDays := dt_workedDays t,
           sl_paidLeaveDays := daysOf (leaveTally pb (em_id e) start end True),
           sl_unpaidDays := daysOf (unpaidHundredths pb e start end),
           sl_workedMinutes := dt_workedMinutes t,
           sl_overtimeMinutes := dt_weekdayOt t + dt_weekendOt t + dt_holidayOt t,
           sl_grossPay := grossPay result, sl_taxableIncome := taxableIncome result,
           sl_insuranceEmployee := insuranceEmployee result, sl_insuranceEmployer := insuranceEmployer result,
           sl_personalIncomeTax := personalIncomeTax result, sl_deductionsTotal := deductionsTotal result,
           sl_netPay := netPay result, sl_lines := res_lines result\<rparr>)"

text \<open>One chunk: a payslip for each id with a pay record, the totals, and the adjustments and advances
  it read, which are handed back only when it wrote something.\<close>

record ChunkResult =
  ch_slips :: "Payslip list"
  ch_gross :: dong
  ch_net :: dong
  ch_done :: int
  ch_retroIds :: "nat list"
  ch_advanceIds :: "nat list"

definition runChunk ::
  "PayBooks \<Rightarrow> RetroAdjustment list \<Rightarrow> SalaryAdvance list \<Rightarrow> nat \<Rightarrow> nat \<Rightarrow> (int \<Rightarrow> PolicyRow) \<Rightarrow> day \<Rightarrow> day
    \<Rightarrow> int list \<Rightarrow> ChunkResult" where
  "runChunk pb retros advances rid pid policyOf start end ids =
     (let rs = filter (\<lambda>r. rt_employeeId r \<in> set ids \<and> rt_state r = RT_PENDING) retros;
          avs = filter (\<lambda>a. av_employeeId a \<in> set ids \<and> av_state a = AV_PAID) advances;
          slips = List.map_filter (\<lambda>i.
              case (employeeOf (pb_employees pb) i, payOf pb i end) of
                (Some e, Some c) \<Rightarrow> Some (regularSlip pb rs avs rid pid (policyOf i) c e start end)
              | _ \<Rightarrow> None) ids
      in \<lparr>ch_slips = slips, ch_gross = sum_list (map sl_grossPay slips), ch_net = sum_list (map sl_netPay slips),
          ch_done = int (length slips),
          ch_retroIds = (if slips = [] then [] else map rt_id rs),
          ch_advanceIds = (if slips = [] then [] else map av_id avs)\<rparr>)"

definition kChunk :: nat where
  "kChunk = 500"

fun chunked :: "nat \<Rightarrow> 'a list \<Rightarrow> 'a list list" where
  "chunked n xs = (if xs = [] \<or> n = 0 then [] else take n xs # chunked n (drop n xs))"

declare chunked.simps [simp del]

text \<open>The loop over the chunks, with what it has added up.\<close>

definition addChunk :: "ChunkResult \<Rightarrow> ChunkResult \<Rightarrow> ChunkResult" where
  "addChunk a b =
     \<lparr>ch_slips = ch_slips a @ ch_slips b, ch_gross = ch_gross a + ch_gross b, ch_net = ch_net a + ch_net b,
      ch_done = ch_done a + ch_done b, ch_retroIds = ch_retroIds a @ ch_retroIds b,
      ch_advanceIds = ch_advanceIds a @ ch_advanceIds b\<rparr>"

definition noChunk :: ChunkResult where
  "noChunk = \<lparr>ch_slips = [], ch_gross = 0, ch_net = 0, ch_done = 0, ch_retroIds = [], ch_advanceIds = []\<rparr>"

definition runChunks ::
  "PayBooks \<Rightarrow> RetroAdjustment list \<Rightarrow> SalaryAdvance list \<Rightarrow> nat \<Rightarrow> nat \<Rightarrow> (int \<Rightarrow> PolicyRow) \<Rightarrow> day \<Rightarrow> day
    \<Rightarrow> nat \<Rightarrow> int list \<Rightarrow> ChunkResult" where
  "runChunks pb retros advances rid pid policyOf start end width ids =
     foldl (\<lambda>acc slice. addChunk acc (runChunk pb retros advances rid pid policyOf start end slice)) noChunk
       (chunked width ids)"

subsection \<open>Who a run prices\<close>

record Leaver =
  lr_id :: int
  lr_leaveDate :: "day option"
  lr_baseSalary :: dong
  lr_legalEntityId :: string

definition coveredBy :: "string \<Rightarrow> day \<Rightarrow> Employee \<Rightarrow> bool" where
  "coveredBy entity start e \<longleftrightarrow> em_legalEntityId e = entity
     \<and> (em_active e \<or> (case em_leaveDate e of None \<Rightarrow> False | Some l \<Rightarrow> l \<ge> start))"

definition leaversOf :: "PayBooks \<Rightarrow> string \<Rightarrow> day \<Rightarrow> day \<Rightarrow> Leaver list" where
  "leaversOf pb entity start end =
     map (\<lambda>e. \<lparr>lr_id = em_id e, lr_leaveDate = em_leaveDate e,
               lr_baseSalary = (case payOf pb (em_id e) end of None \<Rightarrow> 0 | Some c \<Rightarrow> cr_baseSalary c),
               lr_legalEntityId = em_legalEntityId e\<rparr>)
       (sort_key em_id (filter (\<lambda>e. em_legalEntityId e = entity
          \<and> (case em_leaveDate e of None \<Rightarrow> False | Some l \<Rightarrow> start \<le> l \<and> l \<le> end)) (pb_employees pb)))"

definition pricedAmong :: "PayBooks \<Rightarrow> int list \<Rightarrow> (int \<times> string) list" where
  "pricedAmong pb ids =
     map (\<lambda>e. (em_id e, em_legalEntityId e)) (filter (\<lambda>e. em_id e \<in> set ids) (pb_employees pb))"

definition pricedBy ::
  "PayBooks \<Rightarrow> BonusItem list \<Rightarrow> nat \<Rightarrow> RunKind \<Rightarrow> string option \<Rightarrow> string \<Rightarrow> day \<Rightarrow> day \<Rightarrow> (int \<times> string) list" where
  "pricedBy pb items rid kind department entity start end =
     (case kind of
        BONUS \<Rightarrow> pricedAmong pb (firsts (map bi_employeeId (filter (\<lambda>i. bi_runId i = rid) items)))
      | FINAL_SETTLEMENT \<Rightarrow> map (\<lambda>l. (lr_id l, lr_legalEntityId l)) (leaversOf pb entity start end)
      | REGULAR \<Rightarrow>
          map (\<lambda>e. (em_id e, em_legalEntityId e))
            (sort_key em_id (filter (\<lambda>e. coveredBy entity start e
                 \<and> (case department of None \<Rightarrow> True | Some d \<Rightarrow> em_departmentId e = Some d)
                 \<and> payOf pb (em_id e) end \<noteq> None) (pb_employees pb))))"

definition policiesFor :: "PayBooks \<Rightarrow> day \<Rightarrow> (int \<times> string) list \<Rightarrow> (int \<rightharpoonup> PolicyRow) result" where
  "policiesFor pb end people =
     bindR (inForce (pb_policies pb) end (map (Some \<circ> snd) people)) (\<lambda>byEntity.
       Inr (\<lambda>i. case map_of people i of None \<Rightarrow> None | Some e \<Rightarrow> map_of byEntity (Some e)))"

subsection \<open>Bonuses and settlements\<close>

text \<open>What the period already holds as taxable income, which the tax is charged on top of.\<close>

record TaxBase =
  tb_taxable :: dong
  tb_insurance :: dong

definition relief :: "CalcPolicy \<Rightarrow> int \<Rightarrow> dong" where
  "relief calc dependents = selfDeduction calc + dependentDeduction calc * dependents"

definition bonusItemsOf :: "BonusItem list \<Rightarrow> nat \<Rightarrow> BonusItem list" where
  "bonusItemsOf items rid = sort_key bi_code (filter (\<lambda>i. bi_runId i = rid) items)"

definition bonusTotal :: "BonusItem list \<Rightarrow> dong" where
  "bonusTotal own = sum_list (map bi_amount own)"

definition bonusTaxable :: "BonusItem list \<Rightarrow> dong" where
  "bonusTaxable own = sum_list (map bi_amount (filter bi_taxable own))"

definition bonusTax :: "CalcPolicy \<Rightarrow> TaxBase \<Rightarrow> int \<Rightarrow> BonusItem list \<Rightarrow> dong" where
  "bonusTax calc base dependents own =
     (let without = atLeastZero (tb_taxable base - tb_insurance base - relief calc dependents);
          withBonus = atLeastZero (without + bonusTaxable own)
      in taxOn withBonus (brackets calc) - taxOn without (brackets calc))"

definition bonusLine :: "BonusItem \<Rightarrow> CalcLine" where
  "bonusLine i = (line EARNING (''BONUS_'' @ bi_code i) (bi_amount i))\<lparr>ln_label := bi_label i\<rparr>"

definition bonusSlip ::
  "nat \<Rightarrow> nat \<Rightarrow> PolicyRow \<Rightarrow> TaxBase \<Rightarrow> int \<Rightarrow> BonusItem list \<Rightarrow> int \<Rightarrow> Payslip" where
  "bonusSlip rid pid pol base dependents own e =
     (let tax = bonusTax (pl_calc pol) base dependents own; total = bonusTotal own
      in (blankSlip rid pid e (pl_id pol))
          \<lparr>sl_grossPay := total, sl_taxableIncome := bonusTaxable own, sl_personalIncomeTax := tax,
           sl_deductionsTotal := tax, sl_netPay := total - tax,
           sl_lines := enumerate 1 (map bonusLine own @ [line DEDUCTION LINE_TAX tax])\<rparr>)"

definition settlementItemsOf :: "SettlementItem list \<Rightarrow> nat \<Rightarrow> SettlementItem list" where
  "settlementItemsOf items rid =
     sort_key (\<lambda>i. if si_kind i = SEVERANCE then 0 else (1::nat)) (filter (\<lambda>i. si_runId i = rid) items)"

text \<open>Days of leave free on the paid balances of the year, in hundredths.\<close>

definition unusedHundredths :: "PayBooks \<Rightarrow> int \<Rightarrow> int \<Rightarrow> int" where
  "unusedHundredths pb e year =
     sum_list (map (\<lambda>t. case (pb_leaveTypes pb t, pb_balances pb (e, t, year)) of
         (Some ty, Some b) \<Rightarrow> if lt_paid ty then freeDays b * 10 else 0
       | _ \<Rightarrow> 0) (pb_typeIds pb))"

definition dailyRate :: "dong \<Rightarrow> CalcPolicy \<Rightarrow> dong" where
  "dailyRate base calc = mulDiv base kHundred (standardDayHundredths calc)"

definition leavePayout :: "dong \<Rightarrow> CalcPolicy \<Rightarrow> int \<Rightarrow> dong" where
  "leavePayout base calc unused =
     (if unused > 0 then mulDiv (dailyRate base calc) unused kHundred else 0)"

text \<open>The loop over the typed items: what is earned, what of it is taxed, what is deducted, the lines.\<close>

fun settleLoop :: "SettlementItem list \<Rightarrow> dong \<times> dong \<times> dong \<times> CalcLine list \<Rightarrow> dong \<times> dong \<times> dong \<times> CalcLine list" where
  "settleLoop [] acc = acc"
| "settleLoop (i # is) (earned, taxablePart, deducted, rows) =
     (let offset = (si_kind i = ASSET_OFFSET); amount = si_amount i;
          row = (line (if offset then DEDUCTION else EARNING)
                   (if offset then LINE_ASSET_OFFSET else LINE_SEVERANCE) amount)\<lparr>ln_label := si_label i\<rparr>
      in if offset then settleLoop is (earned, taxablePart, deducted + amount, rows @ [row])
         else settleLoop is (earned + amount, taxablePart + (if si_taxable i then amount else 0), deducted, rows @ [row]))"

definition settlementTax :: "CalcPolicy \<Rightarrow> TaxBase \<Rightarrow> int \<Rightarrow> dong \<Rightarrow> dong" where
  "settlementTax calc base dependents taxablePart =
     (let without = atLeastZero (tb_taxable base - tb_insurance base - relief calc dependents)
      in taxOn (without + taxablePart) (brackets calc) - taxOn without (brackets calc))"

definition settlementSlip ::
  "nat \<Rightarrow> nat \<Rightarrow> PolicyRow \<Rightarrow> TaxBase \<Rightarrow> int \<Rightarrow> int \<Rightarrow> Leaver \<Rightarrow> SettlementItem list \<Rightarrow> Payslip option" where
  "settlementSlip rid pid pol base dependents unused one own =
     (let calc = pl_calc pol;
          payout = leavePayout (lr_baseSalary one) calc unused;
          rows0 = (if payout > 0
                   then [(line EARNING LINE_LEAVE_PAYOUT payout)\<lparr>ln_quantity := Some (of_int unused / 100)\<rparr>] else []);
          (earned, taxablePart, deducted, rows1) = settleLoop own (payout, payout, 0, rows0);
          tax = settlementTax calc base dependents taxablePart;
          rows = (if tax > 0 then rows1 @ [line DEDUCTION LINE_TAX tax] else rows1);
          takeHome = earned - deducted - tax
      in if rows = [] then None
         else Some ((blankSlip rid pid (lr_id one) (pl_id pol))
           \<lparr>sl_grossPay := earned, sl_taxableIncome := taxablePart, sl_personalIncomeTax := tax,
            sl_deductionsTotal := deducted + tax, sl_netPay := takeHome, sl_lines := enumerate 1 rows\<rparr>))"

text \<open>A row of the settlement sheet: the evidence beside the typed figures.\<close>

record SettlementRow =
  sr_employeeId :: int
  sr_baseSalary :: dong
  sr_halfMonthPay :: dong
  sr_unusedTenths :: int
  sr_leavePayout :: dong
  sr_typed :: "SettlementItem list"

definition sheetRow :: "PayBooks \<Rightarrow> CalcPolicy \<Rightarrow> int \<Rightarrow> SettlementItem list \<Rightarrow> Leaver \<Rightarrow> SettlementRow" where
  "sheetRow pb calc year held one =
     (let daily = dailyRate (lr_baseSalary one) calc;
          unused = unusedHundredths pb (lr_id one) year
      in \<lparr>sr_employeeId = lr_id one, sr_baseSalary = lr_baseSalary one,
          sr_halfMonthPay = mulDiv (lr_baseSalary one) 1 2, sr_unusedTenths = unused div 10,
          sr_leavePayout = mulDiv daily unused kHundred,
          sr_typed = filter (\<lambda>i. si_employeeId i = lr_id one) held\<rparr>)"

subsection \<open>Reading payslips back\<close>

definition ISSUED_STATES :: "PayslipState set" where
  "ISSUED_STATES = {SL_ISSUED, SL_SENT, SL_VIEWED}"

record TaxYearStatement =
  ty_grossTotal :: dong
  ty_taxableTotal :: dong
  ty_insuranceTotal :: dong
  ty_reliefSelfTotal :: dong
  ty_reliefDependentTotal :: dong
  ty_exemptOvertimeTotal :: dong
  ty_assessableTotal :: dong
  ty_taxDue :: dong
  ty_taxWithheld :: dong
  ty_difference :: dong

text \<open>The statement over the issued payslips of the year, and the policy at its close.\<close>

definition taxStatement :: "Payslip list \<Rightarrow> CalcPolicy \<Rightarrow> TaxYearStatement" where
  "taxStatement slips calc =
     (let total = (\<lambda>f. sum_list (map f slips));
          taxable = total sl_taxableIncome; insurance = total sl_insuranceEmployee;
          reliefSelf = total (\<lambda>s. sumOf (sl_lines s) LINE_RELIEF_SELF);
          reliefDependent = total (\<lambda>s. sumOf (sl_lines s) LINE_RELIEF_DEPENDENT);
          withheld = total (\<lambda>s. sumOf (sl_lines s) LINE_TAX);
          assessable = atLeastZero (taxable - insurance - reliefSelf - reliefDependent);
          due = taxOn assessable (yearBrackets (brackets calc))
      in \<lparr>ty_grossTotal = total sl_grossPay, ty_taxableTotal = taxable, ty_insuranceTotal = insurance,
          ty_reliefSelfTotal = reliefSelf, ty_reliefDependentTotal = reliefDependent,
          ty_exemptOvertimeTotal = total (\<lambda>s. sumOf (sl_lines s) LINE_EXEMPT_OVERTIME),
          ty_assessableTotal = assessable, ty_taxDue = due, ty_taxWithheld = withheld,
          ty_difference = due - withheld\<rparr>)"

record PayslipDelta =
  de_code :: string
  de_thisPeriod :: dong
  de_lastPeriod :: dong
  de_difference :: dong

text \<open>\<open>compare\<close>: this slip's lines by the first of each code, the earlier one's by the last of each.\<close>

definition deltas :: "(nat \<times> CalcLine) list \<Rightarrow> (nat \<times> CalcLine) list \<Rightarrow> PayslipDelta list" where
  "deltas now before =
     (let past = (\<lambda>code. map_option (ln_amount \<circ> snd) (find (\<lambda>l. ln_code (snd l) = code) (rev before)));
          codes = firsts (map (ln_code \<circ> snd) now @ map (ln_code \<circ> snd) before)
      in List.map_filter (\<lambda>code.
           let n = (case find (\<lambda>l. ln_code (snd l) = code) now of None \<Rightarrow> 0 | Some l \<Rightarrow> ln_amount (snd l));
               t = orElse (past code) 0
           in if n \<noteq> t then Some \<lparr>de_code = code, de_thisPeriod = n, de_lastPeriod = t, de_difference = n - t\<rparr>
              else None) codes)"

subsection \<open>Chunks\<close>

text \<open>The payslip of one person, whatever chunk they fall in.\<close>

definition slipOf ::
  "PayBooks \<Rightarrow> RetroAdjustment list \<Rightarrow> SalaryAdvance list \<Rightarrow> nat \<Rightarrow> nat \<Rightarrow> (int \<Rightarrow> PolicyRow) \<Rightarrow> day \<Rightarrow> day
    \<Rightarrow> int \<Rightarrow> Payslip option" where
  "slipOf pb retros advances rid pid policyOf start end i =
     (case (employeeOf (pb_employees pb) i, payOf pb i end) of
        (Some e, Some c) \<Rightarrow>
          Some (regularSlip pb (filter (\<lambda>r. rt_state r = RT_PENDING) retros)
            (filter (\<lambda>a. av_state a = AV_PAID) advances) rid pid (policyOf i) c e start end)
      | _ \<Rightarrow> None)"

lemma employeeOf_id: "employeeOf es i = Some e \<Longrightarrow> em_id e = i"
  by (auto simp: employeeOf_def dest: find_mem)

lemma chunk_slip:
  assumes "i \<in> set ids" "em_id e = i"
  shows "regularSlip pb (filter (\<lambda>r. rt_employeeId r \<in> set ids \<and> rt_state r = RT_PENDING) retros)
      (filter (\<lambda>a. av_employeeId a \<in> set ids \<and> av_state a = AV_PAID) advances) rid pid pol c e start end
    = regularSlip pb (filter (\<lambda>r. rt_state r = RT_PENDING) retros)
        (filter (\<lambda>a. av_state a = AV_PAID) advances) rid pid pol c e start end"
proof -
  have own: "filter P (filter (\<lambda>r. f r \<in> set ids \<and> Q r) xs) = filter P (filter Q xs)"
    if "\<And>r. P r \<Longrightarrow> f r = i" for P Q :: "'x \<Rightarrow> bool" and f xs
    using that assms(1) by (induction xs) auto
  show ?thesis
    unfolding regularSlip_def chunkInput_def retroExtras_def owed_def
    by (simp only: assms(2), subst (1 2 3) own; simp)
qed

lemma map_filter_cong: "(\<And>x. x \<in> set xs \<Longrightarrow> f x = g x) \<Longrightarrow> List.map_filter f xs = List.map_filter g xs"
  by (induction xs) (auto simp: List.map_filter_simps split: option.splits)

lemma map_filter_append: "List.map_filter f (xs @ ys) = List.map_filter f xs @ List.map_filter f ys"
  by (simp add: List.map_filter_def)

lemma map_filter_set: "set (List.map_filter f xs) = {y. \<exists>x \<in> set xs. f x = Some y}"
  by (auto simp: List.map_filter_def) force

lemma runChunk_slips:
  "ch_slips (runChunk pb retros advances rid pid policyOf start end ids) =
     List.map_filter (slipOf pb retros advances rid pid policyOf start end) ids"
  unfolding runChunk_def Let_def ChunkResult.simps
  by (rule map_filter_cong)
    (auto simp: slipOf_def chunk_slip employeeOf_id split: option.splits)

lemma concat_chunked: "0 < n \<Longrightarrow> concat (chunked n xs) = xs"
proof (induction n xs rule: chunked.induct)
  case (1 n xs)
  then show ?case by (subst chunked.simps) (cases "xs = []"; simp)
qed

lemma addChunk_fold:
  "foldl (\<lambda>acc slice. addChunk acc (g slice)) acc slices =
     \<lparr>ch_slips = ch_slips acc @ concat (map (ch_slips \<circ> g) slices),
      ch_gross = ch_gross acc + sum_list (map (ch_gross \<circ> g) slices),
      ch_net = ch_net acc + sum_list (map (ch_net \<circ> g) slices),
      ch_done = ch_done acc + sum_list (map (ch_done \<circ> g) slices),
      ch_retroIds = ch_retroIds acc @ concat (map (ch_retroIds \<circ> g) slices),
      ch_advanceIds = ch_advanceIds acc @ concat (map (ch_advanceIds \<circ> g) slices)\<rparr>"
  by (induction slices arbitrary: acc) (simp_all add: addChunk_def)

lemma runChunk_totals:
  "ch_gross (runChunk pb retros advances rid pid policyOf start end ids) =
     sum_list (map sl_grossPay (ch_slips (runChunk pb retros advances rid pid policyOf start end ids)))"
  "ch_net (runChunk pb retros advances rid pid policyOf start end ids) =
     sum_list (map sl_netPay (ch_slips (runChunk pb retros advances rid pid policyOf start end ids)))"
  "ch_done (runChunk pb retros advances rid pid policyOf start end ids) =
     int (length (ch_slips (runChunk pb retros advances rid pid policyOf start end ids)))"
  by (simp_all add: runChunk_def Let_def)

lemma sum_concat: "sum_list (map (\<lambda>ys. sum_list (map f (g ys))) xss) = sum_list (map f (concat (map g xss)))"
  for f :: "_ \<Rightarrow> int" by (induction xss) simp_all

lemma length_concat_int: "sum_list (map (\<lambda>ys. int (length (g ys))) xss) = int (length (concat (map g xss)))"
  by (induction xss) simp_all

lemma map_filter_concat: "concat (map (List.map_filter f) xss) = List.map_filter f (concat xss)"
  by (induction xss) (simp_all add: map_filter_append List.map_filter_simps)

lemma runChunks_slips:
  assumes "0 < width"
  shows "ch_slips (runChunks pb retros advances rid pid policyOf start end width ids) =
      List.map_filter (slipOf pb retros advances rid pid policyOf start end) ids"
  using concat_chunked [OF assms, of ids]
  by (simp add: runChunks_def addChunk_fold noChunk_def o_def runChunk_slips map_filter_concat)

lemma runChunks_totals:
  "ch_gross (runChunks pb retros advances rid pid policyOf start end width ids) =
     sum_list (map sl_grossPay (ch_slips (runChunks pb retros advances rid pid policyOf start end width ids)))"
  "ch_net (runChunks pb retros advances rid pid policyOf start end width ids) =
     sum_list (map sl_netPay (ch_slips (runChunks pb retros advances rid pid policyOf start end width ids)))"
  "ch_done (runChunks pb retros advances rid pid policyOf start end width ids) =
     int (length (ch_slips (runChunks pb retros advances rid pid policyOf start end width ids)))"
  by (simp_all add: runChunks_def addChunk_fold noChunk_def o_def runChunk_totals sum_concat
      length_concat_int)

subsection \<open>Lines by code\<close>

definition codeSum :: "CalcLine list \<Rightarrow> string \<Rightarrow> dong" where
  "codeSum ls c = sum_list (map ln_amount (filter (\<lambda>l. ln_code l = c) ls))"

lemma codeSum_simps [simp]:
  "codeSum [] c = 0"
  "codeSum (l # ls) c = (if ln_code l = c then ln_amount l else 0) + codeSum ls c"
  "codeSum (xs @ ys) c = codeSum xs c + codeSum ys c"
  by (simp_all add: codeSum_def)

lemma codeSum_none: "(\<And>l. l \<in> set ls \<Longrightarrow> ln_code l \<noteq> c) \<Longrightarrow> codeSum ls c = 0"
  by (induction ls) auto

lemma sumOf_enumerate [simp]: "sumOf (enumerate n ls) c = codeSum ls c"
  by (induction ls arbitrary: n) (simp_all add: sumOf_def)

lemma map_snd_enumerate [simp]: "map snd (enumerate n xs) = xs"
  by (induction xs arbitrary: n) simp_all

lemma earning_codes:
  "l \<in> set (earningLines inp) \<Longrightarrow>
     ln_code l = ''BASE'' \<or> (\<exists>c. ln_code l = ''ALW_'' @ c)
     \<or> ln_code l \<in> {''OT_WEEKDAY'', ''OT_WEEKEND'', ''OT_HOLIDAY'', ''OT_NIGHT''}
     \<or> (\<exists>x \<in> set (extras inp). ln_code l = ext_code x)"
  by (auto simp: earningLines_def allowanceLine_def bandLine_def extraLine_def bandsOf_def overtimeBands_def line_def
      split: if_splits)

lemma codeSum_deductionLines:
  "codeSum (deductionLines ds) c = sum_list (map ded_amount (filter (\<lambda>d. ded_code d = c) ds))"
  by (induction ds) (simp_all add: deductionLines_def)

lemma chunkInput_extras [simp]:
  "extras (chunkInput pb rs avs pol c e start end) = retroExtras rs (em_id e)"
  "deductions (chunkInput pb rs avs pol c e start end) = owed rs avs (em_id e)"
  "carryShortfall (chunkInput pb rs avs pol c e start end) \<longleftrightarrow> \<not> leavingBy e end"
  "in_policy (chunkInput pb rs avs pol c e start end) = pol"
  by (simp_all add: chunkInput_def Let_def)

lemma retro_codes:
  "l \<in> set (earningLines (chunkInput pb rs avs pol c e start end)) \<Longrightarrow>
     ln_code l \<notin> {LINE_ADVANCE, ''RETRO_'' @ CARRY_CODE, LINE_TAX, LINE_RELIEF_SELF, LINE_CARRY_OUT}"
  by (drule earning_codes) (auto simp: retroExtras_def line_codes LINE_ADVANCE_def)

lemma owed_sums:
  "sum_list (map ded_amount (filter (\<lambda>d. ded_code d = LINE_ADVANCE) (owed rs avs e))) =
     sum_list (map av_amount (filter (\<lambda>a. av_employeeId a = e) avs))"
  "sum_list (map ded_amount (filter (\<lambda>d. ded_code d = ''RETRO_'' @ CARRY_CODE) (owed rs avs e))) =
     sum_list (map rt_amount (filter (\<lambda>r. rt_employeeId r = e \<and> rt_code r = CARRY_CODE) rs))"
  "c \<in> {LINE_TAX, LINE_RELIEF_SELF, LINE_CARRY_OUT} \<Longrightarrow>
     filter (\<lambda>d. ded_code d = c) (owed rs avs e) = []"
  by (simp_all add: owed_def filter_map o_def LINE_ADVANCE_def CARRY_CODE_def)
    (auto simp: filter_empty_conv line_codes)

text \<open>What the lines other than earnings, adjustments and advances add under a code.\<close>

definition fixedSum :: "CalcInput \<Rightarrow> string \<Rightarrow> dong" where
  "fixedSum inp c =
     (if c = ''BHXH'' then socialOf inp else 0) + (if c = ''BHYT'' then healthOf inp else 0)
     + (if c = ''BHTN'' then unemploymentOf inp else 0) + (if c = ''INS_EMPLOYER'' then employerOf inp else 0)
     + (if c = LINE_EXEMPT_OVERTIME then max 0 (exemptOf inp) else 0)
     + (if c = LINE_RELIEF_SELF then selfDeduction (in_policy inp) else 0)
     + (if c = LINE_RELIEF_DEPENDENT \<and> dependentCount inp > 0
        then dependentDeduction (in_policy inp) * dependentCount inp else 0)
     + (if c = LINE_TAX then taxOf inp else 0)"

lemma codeSum_payslipLines:
  "codeSum (payslipLines inp) c = codeSum (earningLines inp) c + fixedSum inp c
     + sum_list (map ded_amount (filter (\<lambda>d. ded_code d = c) (deductions inp)))
     + (if c = LINE_CARRY_OUT then shortfallOf inp else 0)"
proof -
  have "shortfallOf inp \<ge> 0" by (simp add: shortfallOf_def)
  then have out: "codeSum (if shortfallOf inp > 0 then [line INFO LINE_CARRY_OUT (shortfallOf inp)] else []) c
      = (if c = LINE_CARRY_OUT then shortfallOf inp else 0)" by simp
  have exempt: "codeSum (if exemptOf inp > 0 then [line INFO LINE_EXEMPT_OVERTIME (exemptOf inp)] else []) c
      = (if c = LINE_EXEMPT_OVERTIME then max 0 (exemptOf inp) else 0)" by simp
  show ?thesis
    unfolding payslipLines_def linesBeforeCarry_def codeSum_simps(3) out exempt codeSum_deductionLines fixedSum_def
    by (simp split del: if_split) (simp add: eq_commute [of c])
qed

lemma fixedSum_codes:
  "fixedSum inp LINE_ADVANCE = 0" "fixedSum inp (''RETRO_'' @ CARRY_CODE) = 0"
  "fixedSum inp LINE_TAX = taxOf inp" "fixedSum inp LINE_RELIEF_SELF = selfDeduction (in_policy inp)"
  "fixedSum inp LINE_CARRY_OUT = 0"
  by (simp_all add: fixedSum_def LINE_ADVANCE_def line_codes)

lemma code_out: "LINE_ADVANCE \<noteq> LINE_CARRY_OUT" "''RETRO_'' @ CARRY_CODE \<noteq> LINE_CARRY_OUT"
  "LINE_TAX \<noteq> LINE_CARRY_OUT" "LINE_RELIEF_SELF \<noteq> LINE_CARRY_OUT"
  by (simp_all add: LINE_ADVANCE_def line_codes)

lemma payslip_codes:
  "codeSum (payslipLines (chunkInput pb rs avs pol c e start end)) LINE_ADVANCE =
     sum_list (map av_amount (filter (\<lambda>a. av_employeeId a = em_id e) avs))"
  "codeSum (payslipLines (chunkInput pb rs avs pol c e start end)) (''RETRO_'' @ CARRY_CODE) =
     sum_list (map rt_amount (filter (\<lambda>r. rt_employeeId r = em_id e \<and> rt_code r = CARRY_CODE) rs))"
  "codeSum (payslipLines (chunkInput pb rs avs pol c e start end)) LINE_TAX =
     taxOf (chunkInput pb rs avs pol c e start end)"
  "codeSum (payslipLines (chunkInput pb rs avs pol c e start end)) LINE_RELIEF_SELF = selfDeduction pol"
  "codeSum (payslipLines (chunkInput pb rs avs pol c e start end)) LINE_CARRY_OUT =
     shortfallOf (chunkInput pb rs avs pol c e start end)"
proof -
  have none: "codeSum (earningLines (chunkInput pb rs avs pol c e start end)) d = 0"
    if "d \<in> {LINE_ADVANCE, ''RETRO_'' @ CARRY_CODE, LINE_TAX, LINE_RELIEF_SELF, LINE_CARRY_OUT}" for d
    using retro_codes that by (intro codeSum_none) blast
  note simps = codeSum_payslipLines fixedSum_codes code_out none owed_sums chunkInput_extras if_True if_False
    insert_iff list.map sum_list.Nil add_0_left add_0_right simp_thms
  show "codeSum (payslipLines (chunkInput pb rs avs pol c e start end)) LINE_ADVANCE =
     sum_list (map av_amount (filter (\<lambda>a. av_employeeId a = em_id e) avs))"
    by (simp only: simps)
  show "codeSum (payslipLines (chunkInput pb rs avs pol c e start end)) (''RETRO_'' @ CARRY_CODE) =
     sum_list (map rt_amount (filter (\<lambda>r. rt_employeeId r = em_id e \<and> rt_code r = CARRY_CODE) rs))"
    by (simp only: simps)
  show "codeSum (payslipLines (chunkInput pb rs avs pol c e start end)) LINE_TAX =
     taxOf (chunkInput pb rs avs pol c e start end)"
    by (simp only: simps)
  show "codeSum (payslipLines (chunkInput pb rs avs pol c e start end)) LINE_RELIEF_SELF = selfDeduction pol"
    by (simp only: simps)
  show "codeSum (payslipLines (chunkInput pb rs avs pol c e start end)) LINE_CARRY_OUT =
     shortfallOf (chunkInput pb rs avs pol c e start end)"
    by (simp only: simps)
qed

lemma slipOf_Some:
  assumes "slipOf pb retros advances rid pid policyOf start end i = Some s"
  obtains e c where "employeeOf (pb_employees pb) i = Some e" "em_id e = i"
    "s = regularSlip pb (filter (\<lambda>r. rt_state r = RT_PENDING) retros)
           (filter (\<lambda>a. av_state a = AV_PAID) advances) rid pid (policyOf i) c e start end"
  using assms by (auto simp: slipOf_def employeeOf_id split: option.splits)

lemma regularSlip_simps [simp]:
  "sl_employeeId (regularSlip pb rs avs rid pid pol c e start end) = em_id e"
  "sl_runId (regularSlip pb rs avs rid pid pol c e start end) = rid"
  "sl_periodId (regularSlip pb rs avs rid pid pol c e start end) = pid"
  "sl_state (regularSlip pb rs avs rid pid pol c e start end) = SL_DRAFT"
  by (simp_all add: regularSlip_def blankSlip_def Let_def)

lemma regularSlip_amounts:
  "sl_lines (regularSlip pb rs avs rid pid pol c e start end) =
     enumerate 1 (payslipLines (chunkInput pb rs avs (pl_calc pol) c e start end))"
  "sl_grossPay (regularSlip pb rs avs rid pid pol c e start end) = grossOf (chunkInput pb rs avs (pl_calc pol) c e start end)"
  "sl_personalIncomeTax (regularSlip pb rs avs rid pid pol c e start end) =
     taxOf (chunkInput pb rs avs (pl_calc pol) c e start end)"
  "sl_netPay (regularSlip pb rs avs rid pid pol c e start end) =
     grossOf (chunkInput pb rs avs (pl_calc pol) c e start end)
       - (deductedOf (chunkInput pb rs avs (pl_calc pol) c e start end)
          - shortfallOf (chunkInput pb rs avs (pl_calc pol) c e start end))"
  by (simp_all add: regularSlip_def blankSlip_def Let_def calculate_eq)

subsection \<open>Properties of a regular run\<close>

text \<open>Cutting a run into chunks changes nothing: the payslips are those of everybody with a pay
  record priced in one pass over the whole list, in its order, and the totals are theirs.\<close>

theorem chunks_make_one_run:
  "let r = runChunks pb retros advances rid pid policyOf start end kChunk ids;
       slips = List.map_filter (slipOf pb retros advances rid pid policyOf start end) ids in
     ch_slips r = slips
     \<and> ch_slips r = ch_slips (runChunk pb retros advances rid pid policyOf start end ids)
     \<and> ch_gross r = sum_list (map sl_grossPay slips)
     \<and> ch_net r = sum_list (map sl_netPay slips)
     \<and> ch_done r = int (length slips)"
  using runChunks_slips [of kChunk] by (simp add: runChunks_totals runChunk_slips kChunk_def Let_def)

text \<open>A regular payslip recovers what its person owes, whole: every advance paid out and every
  shortfall carried into this period is one of its deduction lines and nobody else's is; the tax it
  shows is the tax it deducts; and what the deductions overrun the gross by is carried out for the
  next period, unless the person is leaving and has none.\<close>

theorem slip_recovers_owed:
  assumes "s \<in> set (ch_slips (runChunks pb retros advances rid pid policyOf start end kChunk ids))"
  shows "let d = sl_grossPay s - sumKind DEDUCTION (map snd (sl_lines s)) in
     sumOf (sl_lines s) LINE_ADVANCE =
       sum_list (map av_amount (filter (\<lambda>a. av_employeeId a = sl_employeeId s \<and> av_state a = AV_PAID) advances))
     \<and> sumOf (sl_lines s) (''RETRO_'' @ CARRY_CODE) =
       sum_list (map rt_amount (filter (\<lambda>r. rt_employeeId r = sl_employeeId s \<and> rt_code r = CARRY_CODE
         \<and> rt_state r = RT_PENDING) retros))
     \<and> sumOf (sl_lines s) LINE_TAX = sl_personalIncomeTax s
     \<and> (\<exists>e. employeeOf (pb_employees pb) (sl_employeeId s) = Some e
         \<and> sl_netPay s = (if leavingBy e end then d else max 0 d)
         \<and> sumOf (sl_lines s) LINE_CARRY_OUT = (if leavingBy e end then 0 else max 0 (- d)))"
proof -
  have "0 < kChunk" by (simp add: kChunk_def)
  with assms obtain i where "slipOf pb retros advances rid pid policyOf start end i = Some s"
    by (auto simp: runChunks_slips map_filter_set)
  then obtain e c where e: "employeeOf (pb_employees pb) i = Some e" "em_id e = i"
    and s: "s = regularSlip pb (filter (\<lambda>r. rt_state r = RT_PENDING) retros)
           (filter (\<lambda>a. av_state a = AV_PAID) advances) rid pid (policyOf i) c e start end"
    by (rule slipOf_Some)
  show ?thesis
    using e by (simp add: s Let_def regularSlip_amounts payslip_codes payslip_codes(2) [simplified] sumKind_payslipLines
        shortfallOf_def conj_commute conj_left_commute max_def)
qed

definition sampleWorker :: Employee where
  "sampleWorker =
     \<lparr>em_id = 7, em_legalEntityId = ''A'', em_managerId = None, em_active = True, em_hireDate = None,
      em_leaveDate = None, em_departmentId = None, em_bankName = None, em_bankAccount = None\<rparr>"

definition sampleBooks :: PayBooks where
  "sampleBooks =
     \<lparr>pb_employees = [sampleWorker],
      pb_compensation = [\<lparr>cr_id = ''c'', cr_employeeId = 7, cr_effectiveFrom = 0, cr_baseSalary = 22000000, cr_insuranceSalary = 22000000\<rparr>],
      pb_allowances = [], pb_dependents = [], pb_days = Map.empty, pb_requests = [], pb_leaveTypes = Map.empty,
      pb_typeIds = [], pb_balances = Map.empty, pb_holidays = [],
      pb_policies = [sampleRow ''g'' None 0], pb_assetHolders = []\<rparr>"

definition sampleAdvance :: SalaryAdvance where
  "sampleAdvance =
     \<lparr>av_id = 5, av_employeeId = 7, av_amount = 300000, av_reason = ''rent'', av_state = AV_PAID, av_requestedAt = 0,
      av_decidedById = None, av_decidedAt = None, av_decisionNote = None, av_paidAt = None, av_settledAt = None, av_payslipId = None\<rparr>"

lemma sample_slip:
  "\<exists>s. ch_slips (runChunks sampleBooks [] [sampleAdvance] 1 0 (\<lambda>_. sampleRow ''g'' None 0) 20000 20002 kChunk [7]) = [s]
     \<and> sl_employeeId s = 7"
  by (simp add: runChunks_slips kChunk_def List.map_filter_simps slipOf_def)
    (simp add: sampleBooks_def employeeOf_def sampleWorker_def payOf_def List.map_filter_simps)

theorem slip_recovers_owed_witness:
  "\<exists>s. ch_slips (runChunks sampleBooks [] [sampleAdvance] 1 0 (\<lambda>_. sampleRow ''g'' None 0) 20000 20002 kChunk [7]) = [s]
     \<and> sumOf (sl_lines s) LINE_ADVANCE = 300000 \<and> 0 \<le> sl_netPay s"
proof -
  from sample_slip obtain s where
    s: "ch_slips (runChunks sampleBooks [] [sampleAdvance] 1 0 (\<lambda>_. sampleRow ''g'' None 0) 20000 20002 kChunk [7]) = [s]"
    "sl_employeeId s = 7" by blast
  have "\<not> leavingBy sampleWorker 20002" by (simp add: leavingBy_def sampleWorker_def)
  with s slip_recovers_owed [of s sampleBooks "[]" "[sampleAdvance]" 1 0 "\<lambda>_. sampleRow ''g'' None 0" 20000 20002 "[7]"]
  show ?thesis
    by (simp add: Let_def sampleAdvance_def) (auto simp: sampleBooks_def employeeOf_def sampleWorker_def max_def split: if_splits)
qed

subsection \<open>Properties of bonuses and settlements\<close>

lemma sumKind_bonus: "sumKind k (map bonusLine own) = (if k = EARNING then bonusTotal own else 0)"
  by (subst sumKind_map [where k' = EARNING]) (simp_all add: bonusLine_def bonusTotal_def)

lemma settleLoop_sums:
  "settleLoop own (e, t, d, rows) =
     (e + sum_list (map si_amount (filter (\<lambda>i. si_kind i \<noteq> ASSET_OFFSET) own)),
      t + sum_list (map si_amount (filter (\<lambda>i. si_kind i \<noteq> ASSET_OFFSET \<and> si_taxable i) own)),
      d + sum_list (map si_amount (filter (\<lambda>i. si_kind i = ASSET_OFFSET) own)),
      rows @ map (\<lambda>i. (line (if si_kind i = ASSET_OFFSET then DEDUCTION else EARNING)
                   (if si_kind i = ASSET_OFFSET then LINE_ASSET_OFFSET else LINE_SEVERANCE) (si_amount i))\<lparr>ln_label := si_label i\<rparr>) own)"
  by (induction own arbitrary: e t d rows) (simp_all add: Let_def)

definition typedLine :: "SettlementItem \<Rightarrow> CalcLine" where
  "typedLine i = (line (if si_kind i = ASSET_OFFSET then DEDUCTION else EARNING)
     (if si_kind i = ASSET_OFFSET then LINE_ASSET_OFFSET else LINE_SEVERANCE) (si_amount i))\<lparr>ln_label := si_label i\<rparr>"

definition typedSum :: "(SettlementItem \<Rightarrow> bool) \<Rightarrow> SettlementItem list \<Rightarrow> dong" where
  "typedSum P own = sum_list (map si_amount (filter P own))"

lemma sumKind_typed:
  "sumKind k (map typedLine own) =
     (if k = DEDUCTION then typedSum (\<lambda>i. si_kind i = ASSET_OFFSET) own
      else if k = EARNING then typedSum (\<lambda>i. si_kind i \<noteq> ASSET_OFFSET) own else 0)"
  by (induction own) (auto simp: typedLine_def typedSum_def)

lemma settlementSlip_eq:
  fixes pol base deps unused one items
  defines "payout \<equiv> leavePayout (lr_baseSalary one) (pl_calc pol) unused"
    and "tax \<equiv> settlementTax (pl_calc pol) base deps (leavePayout (lr_baseSalary one) (pl_calc pol) unused
          + typedSum (\<lambda>i. si_kind i \<noteq> ASSET_OFFSET \<and> si_taxable i) items)"
  assumes "settlementSlip rid pid pol base deps unused one items = Some s"
  shows "sl_grossPay s = payout + typedSum (\<lambda>i. si_kind i \<noteq> ASSET_OFFSET) items"
    and "sl_deductionsTotal s = typedSum (\<lambda>i. si_kind i = ASSET_OFFSET) items + tax"
    and "sl_netPay s = sl_grossPay s - sl_deductionsTotal s"
    and "sl_personalIncomeTax s = tax"
    and "map snd (sl_lines s) = (if payout > 0
         then [(line EARNING LINE_LEAVE_PAYOUT payout)\<lparr>ln_quantity := Some (of_int unused / 100)\<rparr>] else [])
         @ map typedLine items @ (if tax > 0 then [line DEDUCTION LINE_TAX tax] else [])"
    and "map snd (sl_lines s) \<noteq> []" and "sl_state s = SL_DRAFT" and "sl_employeeId s = lr_id one"
    and "sl_runId s = rid" and "sl_periodId s = pid"
proof -
  from assms(3) have s: "s = (blankSlip rid pid (lr_id one) (pl_id pol))
           \<lparr>sl_grossPay := payout + typedSum (\<lambda>i. si_kind i \<noteq> ASSET_OFFSET) items,
            sl_taxableIncome := payout + typedSum (\<lambda>i. si_kind i \<noteq> ASSET_OFFSET \<and> si_taxable i) items,
            sl_personalIncomeTax := tax,
            sl_deductionsTotal := typedSum (\<lambda>i. si_kind i = ASSET_OFFSET) items + tax,
            sl_netPay := payout + typedSum (\<lambda>i. si_kind i \<noteq> ASSET_OFFSET) items
              - typedSum (\<lambda>i. si_kind i = ASSET_OFFSET) items - tax,
            sl_lines := enumerate 1 ((if payout > 0
         then [(line EARNING LINE_LEAVE_PAYOUT payout)\<lparr>ln_quantity := Some (of_int unused / 100)\<rparr>] else [])
         @ map typedLine items @ (if tax > 0 then [line DEDUCTION LINE_TAX tax] else []))\<rparr>"
    and ne: "\<not> (payout \<le> 0 \<and> items = [] \<and> tax \<le> 0)"
    unfolding payout_def tax_def
    by (auto simp: settlementSlip_def Let_def settleLoop_sums typedSum_def typedLine_def [abs_def] split: if_splits)
  from ne show "map snd (sl_lines s) \<noteq> []" by (auto simp: s)
  show "sl_grossPay s = payout + typedSum (\<lambda>i. si_kind i \<noteq> ASSET_OFFSET) items"
    "sl_deductionsTotal s = typedSum (\<lambda>i. si_kind i = ASSET_OFFSET) items + tax"
    "sl_netPay s = sl_grossPay s - sl_deductionsTotal s" "sl_personalIncomeTax s = tax"
    "sl_state s = SL_DRAFT" "sl_employeeId s = lr_id one" "sl_runId s = rid" "sl_periodId s = pid"
    by (simp_all add: s blankSlip_def)
  show "map snd (sl_lines s) = (if payout > 0
         then [(line EARNING LINE_LEAVE_PAYOUT payout)\<lparr>ln_quantity := Some (of_int unused / 100)\<rparr>] else [])
         @ map typedLine items @ (if tax > 0 then [line DEDUCTION LINE_TAX tax] else [])"
    unfolding s by simp
qed

lemma leavePayout_nonneg: "0 \<le> b \<Longrightarrow> 0 < standardDayHundredths c \<Longrightarrow> 0 \<le> leavePayout b c u"
  by (simp add: leavePayout_def dailyRate_def kHundred_def mulDiv_nonneg)

text \<open>A bonus payslip and a settlement payslip are explained by their own lines too: the gross is
  the sum of the earnings, the deductions the sum of the deductions, the net the difference; a
  settlement on pay that is not negative, whose increment of tax is not, leaves no amount off them.\<close>

theorem extra_slips_add_up:
  assumes "settlementSlip rid pid pol base deps unused one items = Some s"
    "0 \<le> sl_personalIncomeTax s" "0 \<le> lr_baseSalary one" "0 < standardDayHundredths (pl_calc pol)"
  shows "(let ls = map snd (sl_lines s) in
        sl_grossPay s = sumKind EARNING ls \<and> sl_deductionsTotal s = sumKind DEDUCTION ls
        \<and> sl_netPay s = sumKind EARNING ls - sumKind DEDUCTION ls \<and> ls \<noteq> [])
   \<and> (let b = bonusSlip rid pid pol base deps own e; ls = map snd (sl_lines b) in
      sl_grossPay b = sumKind EARNING ls \<and> sl_deductionsTotal b = sumKind DEDUCTION ls
      \<and> sl_netPay b = sumKind EARNING ls - sumKind DEDUCTION ls \<and> sl_personalIncomeTax b = sl_deductionsTotal b)"
proof (intro conjI)
  note eq = settlementSlip_eq [OF assms(1)]
  have "0 \<le> leavePayout (lr_baseSalary one) (pl_calc pol) unused"
    using assms by (simp add: leavePayout_nonneg)
  then have e: "sl_grossPay s = sumKind EARNING (map snd (sl_lines s))"
    and d: "sl_deductionsTotal s = sumKind DEDUCTION (map snd (sl_lines s))"
    using assms(2) unfolding eq(4,5) by (simp_all add: eq(1,2) sumKind_typed)
  then show "let ls = map snd (sl_lines s) in
        sl_grossPay s = sumKind EARNING ls \<and> sl_deductionsTotal s = sumKind DEDUCTION ls
        \<and> sl_netPay s = sumKind EARNING ls - sumKind DEDUCTION ls \<and> ls \<noteq> []"
    using eq(3,6) by (simp only: Let_def) simp
  show "let b = bonusSlip rid pid pol base deps own e; ls = map snd (sl_lines b) in
      sl_grossPay b = sumKind EARNING ls \<and> sl_deductionsTotal b = sumKind DEDUCTION ls
      \<and> sl_netPay b = sumKind EARNING ls - sumKind DEDUCTION ls \<and> sl_personalIncomeTax b = sl_deductionsTotal b"
    by (simp add: bonusSlip_def blankSlip_def Let_def sumKind_bonus)
qed

definition sampleLeaver :: Leaver where
  "sampleLeaver = \<lparr>lr_id = 7, lr_leaveDate = Some 20001, lr_baseSalary = 22000000, lr_legalEntityId = ''A''\<rparr>"

theorem extra_slips_add_up_witness:
  "\<exists>s. settlementSlip 1 0 (sampleRow ''g'' None 0) \<lparr>tb_taxable = 0, tb_insurance = 0\<rparr> 0 500 sampleLeaver [] = Some s
     \<and> sl_grossPay s = 5000000 \<and> sl_grossPay s = sumKind EARNING (map snd (sl_lines s))"
proof -
  let ?slip = "settlementSlip 1 0 (sampleRow ''g'' None 0) \<lparr>tb_taxable = 0, tb_insurance = 0\<rparr> 0 500 sampleLeaver []"
  have some: "?slip \<noteq> None" by code_simp
  then obtain s where s: "?slip = Some s" by blast
  have "sl_grossPay (the ?slip) = 5000000" "0 \<le> sl_personalIncomeTax (the ?slip)" by code_simp+
  with s have g: "sl_grossPay s = 5000000" "0 \<le> sl_personalIncomeTax s" by simp_all
  have "0 \<le> lr_baseSalary sampleLeaver" "0 < standardDayHundredths (pl_calc (sampleRow ''g'' None 0))" by code_simp+
  with extra_slips_add_up [OF s g(2)] s g(1) show ?thesis by (simp add: Let_def)
qed

text \<open>
  The tax a period owes on what is assessable: the contributions and the relief come off its taxable
  income once. A bonus is meant to owe the difference this makes with it and without it.
\<close>

definition periodTax :: "CalcPolicy \<Rightarrow> TaxBase \<Rightarrow> int \<Rightarrow> dong \<Rightarrow> dong" where
  "periodTax calc base dependents extra =
     taxOn (atLeastZero (tb_taxable base + extra - tb_insurance base - relief calc dependents)) (brackets calc)"

definition grown :: "TaxBase \<Rightarrow> dong \<Rightarrow> TaxBase" where
  "grown base extra = base\<lparr>tb_taxable := tb_taxable base + extra\<rparr>"

text \<open>A bonus, and the taxable part of a settlement, owe the difference between the tax of the
  period with them and without them when the regular payslip already uses the whole relief; then a
  second bonus is taxed from where the first one stopped, and the two together as one.\<close>

theorem bonus_taxed_as_difference:
  assumes "relief calc deps \<le> tb_taxable base - tb_insurance base"
    "0 \<le> bonusTaxable own" "0 \<le> bonusTaxable later"
  shows "bonusTax calc base deps own = periodTax calc base deps (bonusTaxable own) - periodTax calc base deps 0
    \<and> settlementTax calc base deps (bonusTaxable own) = bonusTax calc base deps own
    \<and> bonusTax calc base deps (own @ later) =
        bonusTax calc base deps own + bonusTax calc (grown base (bonusTaxable own)) deps later"
proof -
  have parts: "bonusTaxable (own @ later) = bonusTaxable own + bonusTaxable later"
    by (simp add: bonusTaxable_def)
  show ?thesis
    using assms unfolding parts bonusTax_def settlementTax_def periodTax_def grown_def Let_def
    by (simp add: atLeastZero_max parts algebra_simps)
qed

theorem bonus_taxed_as_difference_witness:
  "bonusTax samplePolicy \<lparr>tb_taxable = 20000000, tb_insurance = 2000000\<rparr> 0
       [\<lparr>bi_runId = 1, bi_employeeId = 7, bi_code = ''TET'', bi_label = None, bi_amount = 4000000, bi_taxable = True\<rparr>]
     = periodTax samplePolicy \<lparr>tb_taxable = 20000000, tb_insurance = 2000000\<rparr> 0 4000000
       - periodTax samplePolicy \<lparr>tb_taxable = 20000000, tb_insurance = 2000000\<rparr> 0 0"
  using bonus_taxed_as_difference [of samplePolicy 0 "\<lparr>tb_taxable = 20000000, tb_insurance = 2000000\<rparr>"
      "[\<lparr>bi_runId = 1, bi_employeeId = 7, bi_code = ''TET'', bi_label = None, bi_amount = 4000000, bi_taxable = True\<rparr>]" "[]"]
  by (simp add: relief_def samplePolicy_def bonusTaxable_def)

text \<open>Below the relief the two part: somebody whose month earned less than the relief is taxed on
  the bonus from its first dong, where the difference over the period is nothing.\<close>

theorem bonus_loses_relief:
  "\<exists>own base. bonusTax samplePolicy base 0 own = 350000
     \<and> periodTax samplePolicy base 0 (bonusTaxable own) - periodTax samplePolicy base 0 0 = 0"
proof (intro exI conjI)
  let ?own = "[\<lparr>bi_runId = 1, bi_employeeId = 7, bi_code = ''TET'', bi_label = None, bi_amount = 6000000, bi_taxable = True\<rparr>]"
  show "bonusTax samplePolicy \<lparr>tb_taxable = 5000000, tb_insurance = 0\<rparr> 0 ?own = 350000" by code_simp
  show "periodTax samplePolicy \<lparr>tb_taxable = 5000000, tb_insurance = 0\<rparr> 0 (bonusTaxable ?own)
      - periodTax samplePolicy \<lparr>tb_taxable = 5000000, tb_insurance = 0\<rparr> 0 0 = 0" by code_simp
qed

subsection \<open>Comparing two months\<close>

lemma sumOf_unique:
  assumes "distinct (map (ln_code \<circ> snd) ls)" "l \<in> set ls"
  shows "sumOf ls (ln_code (snd l)) = ln_amount (snd l)"
proof -
  from assms have "filter (\<lambda>k. (ln_code \<circ> snd) k = (ln_code \<circ> snd) l) ls = [l]"
  proof (induction ls)
    case (Cons k ls)
    show ?case
    proof (cases "k = l")
      case True
      with Cons.prems(1) have "\<forall>x \<in> set ls. (ln_code \<circ> snd) x \<noteq> (ln_code \<circ> snd) l" by (metis distinct.simps(2) image_eqI list.set_map list.simps(9))
      then have "filter (\<lambda>k. (ln_code \<circ> snd) k = (ln_code \<circ> snd) l) ls = []" by (simp only: filter_empty_conv)
      with True show ?thesis by simp
    next
      case False
      with Cons have "l \<in> set ls" by simp
      with Cons.prems(1) have "(ln_code \<circ> snd) k \<noteq> (ln_code \<circ> snd) l" by (metis distinct.simps(2) image_eqI list.set_map list.simps(9))
      with Cons \<open>l \<in> set ls\<close> show ?thesis by simp
    qed
  qed simp
  then show ?thesis by (simp add: sumOf_def o_def)
qed

lemma sumOf_none: "(\<forall>l \<in> set ls. ln_code (snd l) \<noteq> c) \<Longrightarrow> sumOf ls c = 0"
  by (induction ls) (auto simp: sumOf_def)

lemma find_code_sum:
  assumes "distinct (map (ln_code \<circ> snd) ls)"
  shows "(case find (\<lambda>l. ln_code (snd l) = c) ls of None \<Rightarrow> 0 | Some l \<Rightarrow> ln_amount (snd l)) = sumOf ls c"
proof (cases "find (\<lambda>l. ln_code (snd l) = c) ls")
  case None
  then have "\<forall>l \<in> set ls. ln_code (snd l) \<noteq> c" by (simp only: find_isNone)
  with None show ?thesis by (simp only: sumOf_none option.case)
next
  case (Some l)
  with find_mem [OF Some] sumOf_unique [OF assms, of l] show ?thesis by simp
qed

lemma map_filter_mem: "y \<in> set (List.map_filter f xs) \<longleftrightarrow> (\<exists>x \<in> set xs. f x = Some y)"
  by (simp add: map_filter_set)

text \<open>When no code repeats on either payslip, the comparison lists exactly the codes whose amount
  moved, with both amounts and the difference.\<close>

theorem compare_exact:
  assumes "distinct (map (ln_code \<circ> snd) now)" "distinct (map (ln_code \<circ> snd) before)"
  shows "d \<in> set (deltas now before) \<longleftrightarrow>
     sumOf now (de_code d) \<noteq> sumOf before (de_code d)
     \<and> de_thisPeriod d = sumOf now (de_code d) \<and> de_lastPeriod d = sumOf before (de_code d)
     \<and> de_difference d = sumOf now (de_code d) - sumOf before (de_code d)"
proof -
  have last: "orElse (map_option (ln_amount \<circ> snd) (find (\<lambda>l. ln_code (snd l) = c) (rev before))) 0 = sumOf before c" for c
  proof -
    have "distinct (map (ln_code \<circ> snd) (rev before))" using assms(2) by (simp add: rev_map [symmetric])
    from find_code_sum [OF this, of c]
    have "orElse (map_option (ln_amount \<circ> snd) (find (\<lambda>l. ln_code (snd l) = c) (rev before))) 0 = sumOf (rev before) c"
      by (cases "find (\<lambda>l. ln_code (snd l) = c) (rev before)") simp_all
    also have "\<dots> = sumOf before c" by (simp add: sumOf_def rev_filter [symmetric] rev_map [symmetric] sum_list_rev)
    finally show ?thesis .
  qed
  have first: "(case find (\<lambda>l. ln_code (snd l) = c) now of None \<Rightarrow> 0 | Some l \<Rightarrow> ln_amount (snd l)) = sumOf now c" for c
    by (rule find_code_sum [OF assms(1)])
  have named: "c \<in> set (firsts (map (ln_code \<circ> snd) now @ map (ln_code \<circ> snd) before))"
    if "sumOf now c \<noteq> sumOf before c" for c
  proof (rule ccontr)
    assume "c \<notin> set (firsts (map (ln_code \<circ> snd) now @ map (ln_code \<circ> snd) before))"
    then have "\<forall>l \<in> set now. ln_code (snd l) \<noteq> c" "\<forall>l \<in> set before. ln_code (snd l) \<noteq> c" by force+
    with that show False by (simp add: sumOf_none)
  qed
  let ?d = "\<lambda>x. \<lparr>de_code = x, de_thisPeriod = sumOf now x, de_lastPeriod = sumOf before x,
       de_difference = sumOf now x - sumOf before x\<rparr>"
  have "d \<in> set (deltas now before) \<longleftrightarrow> (\<exists>x. sumOf now x \<noteq> sumOf before x \<and> ?d x = d)"
    unfolding deltas_def Let_def map_filter_mem last first using named by (metis option.inject option.distinct(1))
  also have "\<dots> \<longleftrightarrow> sumOf now (de_code d) \<noteq> sumOf before (de_code d) \<and> d = ?d (de_code d)"
    by (metis PayslipDelta.select_convs(1))
  finally show ?thesis by (cases d) auto
qed

theorem compare_exact_witness:
  "\<lparr>de_code = ''BASE'', de_thisPeriod = 5, de_lastPeriod = 3, de_difference = 2\<rparr>
     \<in> set (deltas [(1, line EARNING ''BASE'' 5)] [(1, line EARNING ''BASE'' 3)])"
  by (subst compare_exact) (simp_all add: sumOf_def)

text \<open>Two advances recovered in one month share a code, and then the comparison is off: this
  month's first advance is set against the earlier month's last, so a payslip is reported to differ
  from one with the same lines.\<close>

theorem compare_repeats:
  "\<exists>ls. deltas ls ls = [\<lparr>de_code = LINE_ADVANCE, de_thisPeriod = 1000000, de_lastPeriod = 2000000, de_difference = -1000000\<rparr>]"
proof
  show "deltas (enumerate 1 [line DEDUCTION LINE_ADVANCE 1000000, line DEDUCTION LINE_ADVANCE 2000000])
      (enumerate 1 [line DEDUCTION LINE_ADVANCE 1000000, line DEDUCTION LINE_ADVANCE 2000000]) =
    [\<lparr>de_code = LINE_ADVANCE, de_thisPeriod = 1000000, de_lastPeriod = 2000000, de_difference = -1000000\<rparr>]"
    by code_simp
qed

end
