(* ===== verification/Payroll.thy ===== *)
theory Payroll
  imports Attendance Payslips
begin

section \<open>Pay periods and their runs\<close>

text \<open>
  The state machine of \<open>backend/src/modules/payroll/payroll.service.ts\<close>: pay periods, the runs that price
  them, the payslips a lock issues, and the back payments and advances it settles. Tables are lists
  in the order their rows were made; an id is the number the row was made with, so a later row has a
  larger one. A handler that reads before its transaction reads one state and commits on a later
  one; the row lock the transactions take on the period makes each of them one step. \<open>now\<close> is the
  clock, \<open>today\<close> the business day.
\<close>

subsection \<open>Rows\<close>

record PayrollPeriod =
  pp_id :: nat
  pp_entity :: string
  pp_year :: int
  pp_month :: int
  pp_state :: PeriodState
  pp_startDate :: day
  pp_endDate :: day
  pp_payDate :: "day option"
  pp_lockedAt :: "instant option"
  pp_lockedById :: "string option"
  pp_lockNote :: "string option"
  pp_paidAt :: "instant option"

record PayrollRun =
  rn_id :: nat
  rn_periodId :: nat
  rn_kind :: RunKind
  rn_state :: RunState
  rn_label :: "string option"
  rn_departmentId :: "string option"
  rn_startedAt :: "instant option"
  rn_finishedAt :: "instant option"
  rn_employeeCount :: int
  rn_doneCount :: int
  rn_failedCount :: int
  rn_failure :: "string option"
  rn_grossTotal :: dong
  rn_netTotal :: dong
  rn_createdById :: "string option"
  rn_note :: "string option"

record PayDb =
  pay_next :: nat
  pay_entities :: "(string \<times> bool) list"
  pay_periods :: "PayrollPeriod list"
  pay_runs :: "PayrollRun list"
  pay_slips :: "Payslip list"
  pay_bonus :: "BonusItem list"
  pay_settlement :: "SettlementItem list"
  pay_retros :: "RetroAdjustment list"
  pay_advances :: "SalaryAdvance list"
  pay_disputes :: "PayslipDispute list"
  pay_books :: PayBooks

definition WRITERS :: "Role set" where
  "WRITERS = {ADMIN, PAYROLL}"

definition mayWrite :: "Viewer \<Rightarrow> unit result" where
  "mayWrite v = refuse (v_role v \<notin> WRITERS) (Forbidden ''PAYROLL_WRITE_DENIED'')"

definition periodNamed :: "PayDb \<Rightarrow> nat \<Rightarrow> PayrollPeriod option" where
  "periodNamed db pid = firstWhere pp_id pid (pay_periods db)"

definition runNamed :: "PayDb \<Rightarrow> nat \<Rightarrow> PayrollRun option" where
  "runNamed db rid = firstWhere rn_id rid (pay_runs db)"

definition requirePeriod :: "PayDb \<Rightarrow> nat \<Rightarrow> PayrollPeriod result" where
  "requirePeriod db pid = found (periodNamed db pid) (NotFound ''PERIOD_NOT_FOUND'')"

definition periodOf :: "PayDb \<Rightarrow> Viewer \<Rightarrow> nat \<Rightarrow> PayrollPeriod result" where
  "periodOf db v pid =
     bindR (requirePeriod db pid) (\<lambda>p.
     bindR (refuse (\<not> reachesEntity v (Some (pp_entity p))) (NotFound ''PERIOD_NOT_FOUND'')) (\<lambda>_. Inr p))"

definition runOf :: "PayDb \<Rightarrow> Viewer \<Rightarrow> nat \<Rightarrow> (PayrollRun \<times> PayrollPeriod) result" where
  "runOf db v rid =
     (case runNamed db rid of
        None \<Rightarrow> Inl (NotFound ''RUN_NOT_FOUND'')
      | Some r \<Rightarrow>
          (case periodNamed db (rn_periodId r) of
             None \<Rightarrow> Inl (NotFound ''RUN_NOT_FOUND'')
           | Some p \<Rightarrow> if reachesEntity v (Some (pp_entity p)) then Inr (r, p) else Inl (NotFound ''RUN_NOT_FOUND'')))"

subsection \<open>Opening a period\<close>

definition monthIndex :: "int \<times> int \<Rightarrow> int" where
  "monthIndex = (\<lambda>(y, m). y * 12 + m)"

record CreatePeriodDto =
  cp_legalEntityId :: "string option"
  cp_year :: int
  cp_month :: int
  cp_payDate :: "day option"

definition entityToPay :: "PayDb \<Rightarrow> Viewer \<Rightarrow> string option \<Rightarrow> string result" where
  "entityToPay db v named =
     (case (case named of None \<Rightarrow> None | Some n \<Rightarrow> if n = [] then None else Some n) of
        Some n \<Rightarrow>
          if map_of (pay_entities db) n = Some True \<and> reachesEntity v (Some n) then Inr n
          else Inl (NotFound ''LEGAL_ENTITY_NOT_FOUND'')
      | None \<Rightarrow>
          (case filter (\<lambda>(i, active). active \<and> (case v_entityIds v of None \<Rightarrow> True | Some ids \<Rightarrow> i \<in> set ids))
                  (pay_entities db) of
             [(i, _)] \<Rightarrow> Inr i
           | _ \<Rightarrow> Inl (BadRequest ''LEGAL_ENTITY_REQUIRED'')))"

definition newPeriod :: "PayDb \<Rightarrow> string \<Rightarrow> CreatePeriodDto \<Rightarrow> PayrollPeriod" where
  "newPeriod db entity body =
     \<lparr>pp_id = pay_next db, pp_entity = entity, pp_year = cp_year body, pp_month = cp_month body, pp_state = OPEN,
      pp_startDate = monthStart (cp_year body) (cp_month body),
      pp_endDate = monthStart (cp_year body) (cp_month body + 1) - 1, pp_payDate = cp_payDate body,
      pp_lockedAt = None, pp_lockedById = None, pp_lockNote = None, pp_paidAt = None\<rparr>"

text \<open>The transaction: the entity's periods are read under its row lock.\<close>

definition openPeriod :: "PayDb \<Rightarrow> string \<Rightarrow> CreatePeriodDto \<Rightarrow> PayDb result" where
  "openPeriod db entity body =
     (let held = filter (\<lambda>p. pp_entity p = entity) (pay_periods db);
          asked = monthIndex (cp_year body, cp_month body)
      in bindR (refuse (\<exists>p \<in> set held. monthIndex (pp_year p, pp_month p) = asked) (Conflict ''PERIOD_TAKEN'')) (\<lambda>_.
         bindR (refuse (\<exists>p \<in> set held. pp_state p = OPEN) (Conflict ''PERIOD_STILL_OPEN'')) (\<lambda>_.
         bindR (refuse (\<exists>p \<in> set held. monthIndex (pp_year p, pp_month p) > asked) (Conflict ''PERIOD_OUT_OF_ORDER'')) (\<lambda>_.
         Inr (db\<lparr>pay_periods := pay_periods db @ [newPeriod db entity body], pay_next := pay_next db + 1\<rparr>)))))"

definition createPeriod :: "day \<Rightarrow> PayDb \<Rightarrow> PayDb \<Rightarrow> Viewer \<Rightarrow> CreatePeriodDto \<Rightarrow> PayDb result" where
  "createPeriod today db0 db1 v body =
     bindR (mayWrite v) (\<lambda>_.
     bindR (refuse (monthStart (cp_year body) (cp_month body) > today) (BadRequest ''PERIOD_NOT_STARTED'')) (\<lambda>_.
     bindR (entityToPay db0 v (cp_legalEntityId body)) (\<lambda>entity. openPeriod db1 entity body)))"

subsection \<open>Making, dropping and reloading runs\<close>

text \<open>\<open>requireOpen\<close>: the period's row, locked for the rest of the transaction.\<close>

definition requireOpen :: "PayDb \<Rightarrow> nat \<Rightarrow> PayrollPeriod result" where
  "requireOpen db pid =
     (case periodNamed db pid of
        None \<Rightarrow> Inl (BadRequest ''PERIOD_NOT_OPEN'')
      | Some p \<Rightarrow> if pp_state p = OPEN then Inr p else Inl (BadRequest ''PERIOD_NOT_OPEN''))"

record CreateRunDto =
  cn_periodId :: nat
  cn_kind :: RunKind
  cn_label :: "string option"
  cn_departmentId :: "string option"
  cn_note :: "string option"

definition newRun :: "PayDb \<Rightarrow> Viewer \<Rightarrow> CreateRunDto \<Rightarrow> PayrollRun" where
  "newRun db v body =
     \<lparr>rn_id = pay_next db, rn_periodId = cn_periodId body, rn_kind = cn_kind body, rn_state = RN_DRAFT,
      rn_label = cn_label body, rn_departmentId = cn_departmentId body, rn_startedAt = None, rn_finishedAt = None,
      rn_employeeCount = 0, rn_doneCount = 0, rn_failedCount = 0, rn_failure = None, rn_grossTotal = 0,
      rn_netTotal = 0, rn_createdById = Some (v_userId v), rn_note = cn_note body\<rparr>"

definition createRun :: "PayDb \<Rightarrow> PayDb \<Rightarrow> Viewer \<Rightarrow> CreateRunDto \<Rightarrow> PayDb result" where
  "createRun db0 db1 v body =
     bindR (mayWrite v) (\<lambda>_.
     bindR (periodOf db0 v (cn_periodId body)) (\<lambda>_.
     bindR (requireOpen db1 (cn_periodId body)) (\<lambda>_.
       Inr (db1\<lparr>pay_runs := pay_runs db1 @ [newRun db1 v body], pay_next := pay_next db1 + 1\<rparr>))))"

definition setRun :: "PayDb \<Rightarrow> nat \<Rightarrow> (PayrollRun \<Rightarrow> PayrollRun) \<Rightarrow> PayDb" where
  "setRun db rid f = db\<lparr>pay_runs := updateMany (\<lambda>r. rn_id r = rid) f (pay_runs db)\<rparr>"

text \<open>\<open>dropSlips\<close>: the advances the payslips deducted are let go first.\<close>

definition dropSlips :: "PayDb \<Rightarrow> nat list \<Rightarrow> PayDb" where
  "dropSlips db rids =
     db\<lparr>pay_advances := updateMany (\<lambda>a. av_state a = AV_PAID
            \<and> (\<exists>p \<in> set (pay_slips db). sl_runId p \<in> set rids \<and> av_payslipId a = Some (sl_id p)))
          (\<lambda>a. a\<lparr>av_payslipId := None\<rparr>) (pay_advances db),
        pay_slips := deleteMany (\<lambda>s. sl_runId s \<in> set rids) (pay_slips db)\<rparr>"

definition BACK_TO_DRAFT :: "PayrollRun \<Rightarrow> PayrollRun" where
  "BACK_TO_DRAFT r =
     r\<lparr>rn_state := RN_DRAFT, rn_failure := Some ''RUN_BASE_CHANGED'', rn_finishedAt := None, rn_employeeCount := 0,
       rn_doneCount := 0, rn_failedCount := 0, rn_grossTotal := 0, rn_netTotal := 0\<rparr>"

definition staleOver :: "PayDb \<Rightarrow> nat \<Rightarrow> RunKind set \<Rightarrow> nat option \<Rightarrow> PayDb" where
  "staleOver db pid kinds except =
     (let ids = map rn_id (filter (\<lambda>r. rn_periodId r = pid \<and> rn_kind r \<in> kinds \<and> rn_state r = RN_DONE
                  \<and> except \<noteq> Some (rn_id r)) (pay_runs db))
      in if ids = [] then db
         else let db1 = dropSlips db ids
              in db1\<lparr>pay_runs := updateMany (\<lambda>r. rn_id r \<in> set ids) BACK_TO_DRAFT (pay_runs db1)\<rparr>)"

text \<open>\<open>reload\<close>: what a run pays is swapped; a finished run goes back to draft.\<close>

definition reload :: "PayDb \<Rightarrow> nat \<Rightarrow> nat \<Rightarrow> (PayDb \<Rightarrow> PayDb result) \<Rightarrow> PayDb result" where
  "reload db rid pid swap =
     bindR (requireOpen db pid) (\<lambda>_.
     bindR (found (runNamed db rid) (Unhandled ''P2025'')) (\<lambda>run.
     bindR (refuse (rn_state run = RN_RUNNING) (BadRequest ''RUN_ALREADY_RUNNING'')) (\<lambda>_.
     bindR (refuse (rn_state run = RN_DISCARDED) (Conflict ''RUN_DISCARDED'')) (\<lambda>_.
     bindR (swap db) (\<lambda>db1.
       if rn_state run \<noteq> RN_DONE then Inr db1
       else
         let db2 = dropSlips db1 [rid];
             (stale, runs) = claimWhere (\<lambda>r. rn_id r = rid \<and> rn_state r = RN_DONE) BACK_TO_DRAFT (pay_runs db2)
         in bindR (refuse (stale = 0) (Conflict ''RUN_BASE_CHANGED'')) (\<lambda>_. Inr (db2\<lparr>pay_runs := runs\<rparr>)))))))"

record BonusItemDto =
  bd_employeeId :: int
  bd_code :: string
  bd_label :: "string option"
  bd_amount :: dong
  bd_taxable :: "bool option"

definition bonusRow :: "nat \<Rightarrow> BonusItemDto \<Rightarrow> BonusItem" where
  "bonusRow rid i =
     \<lparr>bi_runId = rid, bi_employeeId = bd_employeeId i, bi_code = bd_code i, bi_label = bd_label i,
      bi_amount = bd_amount i, bi_taxable = orElse (bd_taxable i) True\<rparr>"

text \<open>A person may hold a code once in a run: the table's unique key.\<close>

definition swapBonus :: "nat \<Rightarrow> BonusItemDto list \<Rightarrow> PayDb \<Rightarrow> PayDb result" where
  "swapBonus rid items db =
     bindR (refuse (\<not> distinct (map (\<lambda>i. (bd_employeeId i, bd_code i)) items)) (Unhandled ''P2002'')) (\<lambda>_.
       Inr (db\<lparr>pay_bonus := deleteMany (\<lambda>i. bi_runId i = rid) (pay_bonus db) @ map (bonusRow rid) items\<rparr>))"

definition setBonus :: "PayDb \<Rightarrow> PayDb \<Rightarrow> Viewer \<Rightarrow> nat \<Rightarrow> BonusItemDto list \<Rightarrow> (PayDb \<times> effect list) result" where
  "setBonus db0 db1 v rid items =
     bindR (mayWrite v) (\<lambda>_.
     bindR (refuseOwn v (map bd_employeeId items)) (\<lambda>_.
     bindR (runOf db0 v rid) (\<lambda>(run, period).
     bindR (refuse (rn_kind run \<noteq> BONUS) (BadRequest ''RUN_IS_NOT_A_BONUS'')) (\<lambda>_.
     bindR (refuse (\<exists>e \<in> set (map bd_employeeId items).
              case employeeOf (pb_employees (pay_books db0)) e of
                None \<Rightarrow> True | Some p \<Rightarrow> \<not> peopleWhere v None (personOf p))
              (NotFound ''EMPLOYEE_NOT_FOUND'')) (\<lambda>_.
     bindR (reload db1 rid (rn_periodId run) (swapBonus rid items)) (\<lambda>db2.
       Inr (db2, [Audited (v_userId v) ''PAYROLL_BONUS'' (showNat rid)])))))))"

record SettlementItemDto =
  sd_employeeId :: int
  sd_kind :: SettlementKind
  sd_label :: "string option"
  sd_amount :: dong
  sd_taxable :: "bool option"
  sd_note :: "string option"

definition settlementItem :: "nat \<Rightarrow> SettlementItemDto \<Rightarrow> SettlementItem" where
  "settlementItem rid i =
     \<lparr>si_runId = rid, si_employeeId = sd_employeeId i, si_kind = sd_kind i, si_label = sd_label i,
      si_amount = sd_amount i, si_taxable = orElse (sd_taxable i) (sd_kind i \<noteq> SEVERANCE), si_note = sd_note i\<rparr>"

definition swapSettlement :: "nat \<Rightarrow> SettlementItemDto list \<Rightarrow> PayDb \<Rightarrow> PayDb result" where
  "swapSettlement rid items db =
     Inr (db\<lparr>pay_settlement := deleteMany (\<lambda>i. si_runId i = rid) (pay_settlement db) @ map (settlementItem rid) items\<rparr>)"

definition leavers :: "PayDb \<Rightarrow> PayrollPeriod \<Rightarrow> Leaver list" where
  "leavers db p = leaversOf (pay_books db) (pp_entity p) (pp_startDate p) (pp_endDate p)"

definition setSettlement ::
  "PayDb \<Rightarrow> PayDb \<Rightarrow> Viewer \<Rightarrow> nat \<Rightarrow> SettlementItemDto list \<Rightarrow> (PayDb \<times> effect list) result" where
  "setSettlement db0 db1 v rid items =
     bindR (mayWrite v) (\<lambda>_.
     bindR (refuseOwn v (map sd_employeeId items)) (\<lambda>_.
     bindR (runOf db0 v rid) (\<lambda>(run, period).
     bindR (refuse (rn_kind run \<noteq> FINAL_SETTLEMENT) (BadRequest ''RUN_IS_NOT_A_SETTLEMENT'')) (\<lambda>_.
     bindR (refuse (\<not> set (map sd_employeeId items) \<subseteq> set (map lr_id (leavers db0 period)))
              (BadRequest ''EMPLOYEE_DID_NOT_LEAVE_THIS_PERIOD'')) (\<lambda>_.
     bindR (reload db1 rid (rn_periodId run) (swapSettlement rid items)) (\<lambda>db2.
       Inr (db2, [Audited (v_userId v) ''PAYROLL_SETTLEMENT'' (showNat rid)])))))))"

definition commitDiscard :: "PayDb \<Rightarrow> nat \<Rightarrow> nat \<Rightarrow> PayDb result" where
  "commitDiscard db rid pid =
     bindR (requireOpen db pid) (\<lambda>_.
     bindR (found (runNamed db rid) (Unhandled ''P2025'')) (\<lambda>held.
     bindR (refuse (rn_state held = RN_RUNNING) (BadRequest ''RUN_ALREADY_RUNNING'')) (\<lambda>_.
     bindR (refuse (rn_state held = RN_DISCARDED) (Conflict ''RUN_DISCARDED'')) (\<lambda>_.
       let db1 = (if rn_kind held = REGULAR \<and> rn_state held = RN_DONE
                  then staleOver db (rn_periodId held) {REGULAR, BONUS, FINAL_SETTLEMENT} (Some rid) else db)
       in Inr (setRun (dropSlips db1 [rid]) rid (\<lambda>r. r\<lparr>rn_state := RN_DISCARDED, rn_failure := None,
            rn_doneCount := 0, rn_failedCount := 0, rn_grossTotal := 0, rn_netTotal := 0\<rparr>))))))"

definition discard :: "PayDb \<Rightarrow> PayDb \<Rightarrow> Viewer \<Rightarrow> nat \<Rightarrow> (PayDb \<times> effect list) result" where
  "discard db0 db1 v rid =
     bindR (mayWrite v) (\<lambda>_.
     bindR (runOf db0 v rid) (\<lambda>(run, _).
     bindR (commitDiscard db1 rid (rn_periodId run)) (\<lambda>db2.
       Inr (db2, [Audited (v_userId v) ''PAYROLL_DISCARD'' (showNat rid)]))))"

subsection \<open>Starting a run\<close>

definition requireRunnable :: "PayDb \<Rightarrow> Viewer \<Rightarrow> nat \<Rightarrow> (PayrollRun \<times> PayrollPeriod) result" where
  "requireRunnable db v rid =
     bindR (runOf db v rid) (\<lambda>(run, period).
     bindR (refuse (pp_state period \<noteq> OPEN) (BadRequest ''PERIOD_NOT_OPEN'')) (\<lambda>_.
     bindR (refuse (rn_state run = RN_RUNNING) (BadRequest ''RUN_ALREADY_RUNNING'')) (\<lambda>_.
     bindR (refuse (rn_state run = RN_DISCARDED) (Conflict ''RUN_DISCARDED'')) (\<lambda>_. Inr (run, period)))))"

text \<open>Somebody's payslip of a finished regular run of the period.\<close>

definition hasRegular :: "PayDb \<Rightarrow> nat \<Rightarrow> int \<Rightarrow> bool" where
  "hasRegular db pid e \<longleftrightarrow>
     (\<exists>s \<in> set (pay_slips db). sl_periodId s = pid \<and> sl_employeeId s = e
        \<and> (case runNamed db (sl_runId s) of None \<Rightarrow> False | Some r \<Rightarrow> rn_kind r = REGULAR \<and> rn_state r = RN_DONE))"

definition requireBonusReady :: "PayDb \<Rightarrow> nat \<Rightarrow> nat \<Rightarrow> unit result" where
  "requireBonusReady db rid pid =
     (let ids = map bi_employeeId (filter (\<lambda>i. bi_runId i = rid) (pay_bonus db)) in
      bindR (refuse (ids = []) (BadRequest ''BONUS_RUN_HAS_NO_ITEMS'')) (\<lambda>_.
      refuse (\<exists>e \<in> set ids. \<not> hasRegular db pid e) (BadRequest ''BONUS_NEEDS_A_REGULAR_PAYSLIP'')))"

definition requireSettlementReady :: "PayDb \<Rightarrow> PayrollPeriod \<Rightarrow> unit result" where
  "requireSettlementReady db p =
     (let ids = map lr_id (leavers db p) in
      bindR (refuse (ids = []) (BadRequest ''PERIOD_HAS_NO_LEAVERS'')) (\<lambda>_.
      refuse (\<exists>e \<in> set ids. \<not> hasRegular db (pp_id p) e) (BadRequest ''SETTLEMENT_NEEDS_A_REGULAR_PAYSLIP'')))"

definition priced :: "PayDb \<Rightarrow> PayrollRun \<Rightarrow> PayrollPeriod \<Rightarrow> (int \<times> string) list" where
  "priced db run p =
     pricedBy (pay_books db) (pay_bonus db) (rn_id run) (rn_kind run) (rn_departmentId run) (pp_entity p)
       (pp_startDate p) (pp_endDate p)"

text \<open>The claim under the period's row lock: False when the run is already going.\<close>

definition claimRun :: "instant \<Rightarrow> PayDb \<Rightarrow> nat \<Rightarrow> nat \<Rightarrow> (bool \<times> PayDb) result" where
  "claimRun now db rid pid =
     bindR (requireOpen db pid) (\<lambda>_.
     bindR (found (runNamed db rid) (Unhandled ''P2025'')) (\<lambda>run.
     bindR (refuse (rn_state run = RN_DISCARDED) (Conflict ''RUN_DISCARDED'')) (\<lambda>_.
       if rn_state run = RN_RUNNING then Inr (False, db)
       else bindR (refuse (\<exists>r \<in> set (pay_runs db). rn_periodId r = pid \<and> rn_state r = RN_RUNNING)
                     (Conflict ''PERIOD_RUN_IN_PROGRESS'')) (\<lambda>_.
         Inr (True, setRun db rid (\<lambda>r. r\<lparr>rn_state := RN_RUNNING, rn_startedAt := Some now, rn_finishedAt := None,
                rn_doneCount := 0, rn_failedCount := 0, rn_failure := None\<rparr>))))))"

text \<open>\<open>execute\<close>; \<open>queueUp\<close> says whether the queue takes the job. A refused job leaves the run failed, so
  the state comes back with the error.\<close>

definition execute :: "instant \<Rightarrow> bool \<Rightarrow> PayDb \<Rightarrow> PayDb \<Rightarrow> Viewer \<Rightarrow> nat \<Rightarrow> PayDb \<times> effect list result" where
  "execute now queueUp db0 db1 v rid =
     (case bindR (mayWrite v) (\<lambda>_.
           bindR (requireRunnable db0 v rid) (\<lambda>(run, period).
           bindR (if rn_kind run = BONUS then requireBonusReady db0 rid (rn_periodId run) else Inr ()) (\<lambda>_.
           bindR (if rn_kind run = FINAL_SETTLEMENT then requireSettlementReady db0 period else Inr ()) (\<lambda>_.
           bindR (policiesFor (pay_books db0) (pp_endDate period) (priced db0 run period)) (\<lambda>_.
           bindR (claimRun now db1 rid (rn_periodId run)) (\<lambda>(claimed, db2).
           bindR (refuse (\<not> claimed) (BadRequest ''RUN_ALREADY_RUNNING'')) (\<lambda>_. Inr db2))))))) of
        Inl err \<Rightarrow> (db1, Inl err)
      | Inr db2 \<Rightarrow>
          if queueUp then (db2, Inr [Enqueued ''payroll'' (showNat rid), Audited (v_userId v) ''PAYROLL_QUEUE'' (showNat rid)])
          else (setRun db2 rid (\<lambda>r. r\<lparr>rn_state := RN_FAILED, rn_finishedAt := Some now\<rparr>), Inl (Unhandled ''QUEUE'')))"

subsection \<open>The worker\<close>

text \<open>Newly made payslips get their ids in order.\<close>

definition writeSlips :: "PayDb \<Rightarrow> Payslip list \<Rightarrow> PayDb" where
  "writeSlips db slips =
     db\<lparr>pay_slips := pay_slips db @ map (\<lambda>(i, s). s\<lparr>sl_id := i\<rparr>) (enumerate (pay_next db) slips),
        pay_next := pay_next db + length slips\<rparr>"

definition clearSlips :: "PayDb \<Rightarrow> nat \<Rightarrow> PayDb" where
  "clearSlips db rid = db\<lparr>pay_slips := deleteMany (\<lambda>s. sl_runId s = rid) (pay_slips db)\<rparr>"

text \<open>The draft points back: what a finished run deducted or paid back is linked to it.\<close>

definition slipFor :: "PayDb \<Rightarrow> nat \<Rightarrow> int \<Rightarrow> Payslip option" where
  "slipFor db rid e = find (\<lambda>s. sl_runId s = rid \<and> sl_employeeId s = e) (pay_slips db)"

definition markCarried :: "PayDb \<Rightarrow> nat \<Rightarrow> nat \<Rightarrow> nat list \<Rightarrow> nat list \<Rightarrow> PayDb" where
  "markCarried db rid pid retroIds advanceIds =
     db\<lparr>pay_retros := updateMany (\<lambda>r. rt_id r \<in> set retroIds \<and> rt_state r = RT_PENDING
             \<and> slipFor db rid (rt_employeeId r) \<noteq> None)
           (\<lambda>r. r\<lparr>rt_appliedPeriodId := Some pid\<rparr>) (pay_retros db),
        pay_advances := updateMany (\<lambda>a. av_id a \<in> set advanceIds \<and> av_state a = AV_PAID
             \<and> slipFor db rid (av_employeeId a) \<noteq> None)
           (\<lambda>a. a\<lparr>av_payslipId := map_option sl_id (slipFor db rid (av_employeeId a))\<rparr>) (pay_advances db)\<rparr>"

text \<open>A regular run: it starts by dropping what an earlier attempt left, writes its chunks, and finishes
  in one transaction.\<close>

definition regularStart :: "instant \<Rightarrow> PayDb \<Rightarrow> nat \<Rightarrow> int \<Rightarrow> PayDb" where
  "regularStart now db rid count =
     clearSlips (setRun db rid (\<lambda>r. r\<lparr>rn_state := RN_RUNNING, rn_startedAt := Some now, rn_employeeCount := count,
        rn_doneCount := 0, rn_failedCount := 0, rn_failure := None\<rparr>)) rid"

definition regularFinish :: "instant \<Rightarrow> PayDb \<Rightarrow> nat \<Rightarrow> nat \<Rightarrow> ChunkResult \<Rightarrow> int \<Rightarrow> PayDb" where
  "regularFinish now db rid pid r count =
     setRun (staleOver (markCarried db rid pid (ch_retroIds r) (ch_advanceIds r)) pid {BONUS, FINAL_SETTLEMENT} None) rid
       (\<lambda>run. run\<lparr>rn_state := RN_DONE, rn_finishedAt := Some now, rn_doneCount := ch_done r,
          rn_failedCount := count - ch_done r, rn_grossTotal := ch_gross r, rn_netTotal := ch_net r\<rparr>)"

definition regularChunks :: "PayDb \<Rightarrow> PayrollRun \<Rightarrow> PayrollPeriod \<Rightarrow> (int \<rightharpoonup> PolicyRow) \<Rightarrow> int list \<Rightarrow> ChunkResult" where
  "regularChunks db run p policyOf ids =
     runChunks (pay_books db) (pay_retros db) (pay_advances db) (rn_id run) (pp_id p) (\<lambda>i. the (policyOf i))
       (pp_startDate p) (pp_endDate p) kChunk ids"

definition runRegular :: "instant \<Rightarrow> PayDb \<Rightarrow> PayrollRun \<Rightarrow> PayrollPeriod \<Rightarrow> PayDb result" where
  "runRegular now db run p =
     (let people = priced db run p; ids = map fst people in
      bindR (policiesFor (pay_books db) (pp_endDate p) people) (\<lambda>policyOf.
        let r = regularChunks db run p policyOf ids;
            db1 = writeSlips (regularStart now db (rn_id run) (int (length ids))) (ch_slips r)
        in Inr (regularFinish now db1 (rn_id run) (pp_id p) r (int (length ids)))))"

text \<open>A finished run sorts before another by when it finished, then by when it was made.\<close>

definition laterRun :: "PayrollRun \<Rightarrow> PayrollRun \<Rightarrow> bool" where
  "laterRun a b \<longleftrightarrow>
     (case (rn_finishedAt a, rn_finishedAt b) of
        (Some s, Some t) \<Rightarrow> s > t \<or> s = t \<and> rn_id a > rn_id b
      | (Some _, None) \<Rightarrow> True
      | (None, Some _) \<Rightarrow> False
      | (None, None) \<Rightarrow> rn_id a > rn_id b)"

definition doneSlips :: "PayDb \<Rightarrow> nat \<Rightarrow> RunKind \<Rightarrow> (Payslip \<times> PayrollRun) list" where
  "doneSlips db pid kind =
     List.map_filter (\<lambda>s. case runNamed db (sl_runId s) of
          None \<Rightarrow> None
        | Some r \<Rightarrow> if sl_periodId s = pid \<and> rn_kind r = kind \<and> rn_state r = RN_DONE then Some (s, r) else None)
       (pay_slips db)"

definition newestSlip :: "(Payslip \<times> PayrollRun) list \<Rightarrow> int \<Rightarrow> Payslip option" where
  "newestSlip rows e =
     map_option fst (newest (\<lambda>a b. laterRun (snd a) (snd b)) (filter (\<lambda>(s, r). sl_employeeId s = e) rows))"

definition taxBases :: "PayDb \<Rightarrow> nat \<Rightarrow> nat \<Rightarrow> int \<Rightarrow> TaxBase option" where
  "taxBases db pid rid e =
     map_option (\<lambda>s. \<lparr>tb_taxable = sl_taxableIncome s
          + sum_list (map (sl_taxableIncome \<circ> fst) (filter (\<lambda>(b, r). sl_employeeId b = e \<and> rn_id r \<noteq> rid)
              (doneSlips db pid BONUS))),
        tb_insurance = sl_insuranceEmployee s\<rparr>)
       (newestSlip (doneSlips db pid REGULAR) e)"

text \<open>The end a bonus or a settlement run shares: its payslips replaced, the run done.\<close>

definition extraFinish :: "instant \<Rightarrow> PayDb \<Rightarrow> nat \<Rightarrow> Payslip list \<Rightarrow> int \<Rightarrow> PayDb" where
  "extraFinish now db rid slips count =
     setRun (writeSlips (clearSlips db rid) slips) rid
       (\<lambda>r. r\<lparr>rn_state := RN_DONE, rn_finishedAt := Some now, rn_failure := None, rn_employeeCount := count,
          rn_doneCount := int (length slips), rn_failedCount := count - int (length slips),
          rn_grossTotal := sum_list (map sl_grossPay slips), rn_netTotal := sum_list (map sl_netPay slips)\<rparr>)"

definition runBonus :: "instant \<Rightarrow> PayDb \<Rightarrow> PayrollRun \<Rightarrow> PayrollPeriod \<Rightarrow> PayDb result" where
  "runBonus now db run p =
     (let pb = pay_books db;
          items = bonusItemsOf (pay_bonus db) (rn_id run);
          ids = firsts (map bi_employeeId items)
      in bindR (policiesFor pb (pp_endDate p) (pricedAmong pb ids)) (\<lambda>policyOf.
         let baseOf = taxBases db (pp_id p) (rn_id run) in
         bindR (refuse (\<exists>e \<in> set ids. baseOf e = None) (BadRequest ''BONUS_NEEDS_A_REGULAR_PAYSLIP'')) (\<lambda>_.
           let slips = map (\<lambda>e. bonusSlip (rn_id run) (pp_id p) (the (policyOf e)) (the (baseOf e))
                 (dependentsOf pb e (pp_endDate p)) (filter (\<lambda>i. bi_employeeId i = e) items) e) ids
           in Inr (extraFinish now db (rn_id run) slips (int (length ids))))))"

definition runSettlement :: "instant \<Rightarrow> PayDb \<Rightarrow> PayrollRun \<Rightarrow> PayrollPeriod \<Rightarrow> PayDb result" where
  "runSettlement now db run p =
     (let pb = pay_books db; ls = leavers db p in
      bindR (policiesFor pb (pp_endDate p) (map (\<lambda>l. (lr_id l, lr_legalEntityId l)) ls)) (\<lambda>policyOf.
        let items = settlementItemsOf (pay_settlement db) (rn_id run);
            slips = List.map_filter (\<lambda>one.
              case taxBases db (pp_id p) (rn_id run) (lr_id one) of
                None \<Rightarrow> None
              | Some base \<Rightarrow> settlementSlip (rn_id run) (pp_id p) (the (policyOf (lr_id one))) base
                  (dependentsOf pb (lr_id one) (pp_endDate p)) (unusedHundredths pb (lr_id one) (pp_year p)) one
                  (filter (\<lambda>i. si_employeeId i = lr_id one) items)) ls
        in Inr (extraFinish now db (rn_id run) slips (int (length ls)))))"

text \<open>\<open>computeRun\<close>: a run whose period closed while the job waited fails; nothing else about the run is asked.\<close>

definition computeRun :: "instant \<Rightarrow> PayDb \<Rightarrow> nat \<Rightarrow> PayDb result" where
  "computeRun now db rid =
     (case runNamed db rid of
        None \<Rightarrow> Inl (NotFound ''RUN_NOT_FOUND'')
      | Some run \<Rightarrow>
          (case periodNamed db (rn_periodId run) of
             None \<Rightarrow> Inl (NotFound ''RUN_NOT_FOUND'')
           | Some p \<Rightarrow>
               if pp_state p \<noteq> OPEN
               then Inr (setRun db rid (\<lambda>r. r\<lparr>rn_state := RN_FAILED, rn_finishedAt := Some now,
                      rn_failure := Some ''PERIOD_NOT_OPEN''\<rparr>))
               else (case rn_kind run of
                       BONUS \<Rightarrow> runBonus now db run p
                     | FINAL_SETTLEMENT \<Rightarrow> runSettlement now db run p
                     | REGULAR \<Rightarrow> runRegular now db run p)))"

definition failRun :: "instant \<Rightarrow> PayDb \<Rightarrow> nat \<Rightarrow> string \<Rightarrow> PayDb" where
  "failRun now db rid failure =
     setRun db rid (\<lambda>r. r\<lparr>rn_state := RN_FAILED, rn_finishedAt := Some now, rn_failure := Some failure\<rparr>)"

text \<open>One delivery of a run's job, as \<open>queue/processors/payroll.processor.ts\<close> handles it: an error of the
  service is not retried and fails the run with its code.\<close>

definition UNNAMED :: string where
  "UNNAMED = ''INTERNAL_ERROR''"

definition failureOf :: "string \<Rightarrow> string" where
  "failureOf message =
     (let ok = (\<lambda>c. CHR ''A'' \<le> c \<and> c \<le> CHR ''Z''); ok' = (\<lambda>c. ok c \<or> CHR ''0'' \<le> c \<and> c \<le> CHR ''9'' \<or> c = CHR ''_'')
      in if message \<noteq> [] \<and> ok (hd message) \<and> list_all ok' (tl message) then message else UNNAMED)"

definition spent :: "bool \<Rightarrow> nat \<Rightarrow> nat \<Rightarrow> bool" where
  "spent unrecoverable attemptsMade attempts \<longleftrightarrow> unrecoverable \<or> attemptsMade \<ge> attempts"

definition deliverRun :: "instant \<Rightarrow> nat \<Rightarrow> nat \<Rightarrow> PayDb \<Rightarrow> nat \<Rightarrow> PayDb" where
  "deliverRun now attemptsMade attempts db rid =
     (case computeRun now db rid of
        Inr db' \<Rightarrow> db'
      | Inl err \<Rightarrow>
          (case httpMessage err of
             Some m \<Rightarrow> failRun now db rid (failureOf (failureOf m))
           | None \<Rightarrow> if spent False attemptsMade attempts then failRun now db rid UNNAMED else db))"

text \<open>An attempt that stops after \<open>n\<close> chunks: the run started and those chunks' payslips are written.\<close>

definition brokenRegular :: "instant \<Rightarrow> PayDb \<Rightarrow> PayrollRun \<Rightarrow> PayrollPeriod \<Rightarrow> (int \<rightharpoonup> PolicyRow) \<Rightarrow> nat \<Rightarrow> PayDb" where
  "brokenRegular now db run p policyOf n =
     (let ids = map fst (priced db run p);
          r = regularChunks db run p policyOf (take (n * kChunk) ids)
      in setRun (writeSlips (regularStart now db (rn_id run) (int (length ids))) (ch_slips r)) (rn_id run)
           (\<lambda>run. run\<lparr>rn_doneCount := ch_done r\<rparr>))"

subsection \<open>Locking\<close>

definition paidElsewhere :: "PayDb \<Rightarrow> nat \<Rightarrow> int \<Rightarrow> bool" where
  "paidElsewhere db pid e \<longleftrightarrow>
     (case periodNamed db pid of
        None \<Rightarrow> False
      | Some here \<Rightarrow>
          (\<exists>s \<in> set (pay_slips db). sl_employeeId s = e \<and> sl_periodId s \<noteq> pid \<and> sl_state s \<noteq> SL_DRAFT
             \<and> (case runNamed db (sl_runId s) of None \<Rightarrow> False | Some r \<Rightarrow> rn_kind r = REGULAR)
             \<and> (case periodNamed db (sl_periodId s) of
                  None \<Rightarrow> False | Some p \<Rightarrow> pp_year p = pp_year here \<and> pp_month p = pp_month here)))"

text \<open>The payslips a lock issues.\<close>

definition chosen :: "PayDb \<Rightarrow> nat \<Rightarrow> Payslip \<Rightarrow> bool" where
  "chosen db pid s \<longleftrightarrow>
     s \<in> set (map fst (doneSlips db pid BONUS))
     \<or> newestSlip (doneSlips db pid FINAL_SETTLEMENT) (sl_employeeId s) = Some s
     \<or> newestSlip (doneSlips db pid REGULAR) (sl_employeeId s) = Some s \<and> \<not> paidElsewhere db pid (sl_employeeId s)"

definition chosenSlips :: "PayDb \<Rightarrow> nat \<Rightarrow> Payslip list" where
  "chosenSlips db pid = filter (chosen db pid) (pay_slips db)"

definition comingShortCount :: "PayDb \<Rightarrow> nat \<Rightarrow> nat" where
  "comingShortCount db pid =
     length (filter (\<lambda>s. sl_netPay s < 0 \<or> (\<exists>l \<in> set (sl_lines s). ln_code (snd l) = LINE_CARRY_OUT)) (chosenSlips db pid))"

definition paidElsewhereCount :: "PayDb \<Rightarrow> nat \<Rightarrow> nat" where
  "paidElsewhereCount db pid =
     length (remdups (map (sl_employeeId \<circ> fst)
       (filter (\<lambda>(s, r). paidElsewhere db pid (sl_employeeId s)) (doneSlips db pid REGULAR))))"

definition stillWaiting :: "Request \<Rightarrow> PayrollPeriod \<Rightarrow> bool" where
  "stillWaiting r p \<longleftrightarrow> rq_state r = RS_PENDING \<and> rq_fromDate r \<le> pp_endDate p \<and> pp_startDate p \<le> rq_toDate r"

definition many :: "('a \<Rightarrow> bool) \<Rightarrow> 'a list \<Rightarrow> nat" where
  "many P xs = length (filter P xs)"

text \<open>\<open>checklist\<close>: what is still unsettled in a period, each kind with its count.\<close>

definition checklist :: "instant \<Rightarrow> PayDb \<Rightarrow> PayrollPeriod \<Rightarrow> (string \<times> nat) list" where
  "checklist now db p =
     (let pb = pay_books db;
          ofEntity = (\<lambda>e. case employeeOf (pb_employees pb) e of None \<Rightarrow> False | Some x \<Rightarrow> em_legalEntityId x = pp_entity p);
          staff = filter (\<lambda>e. em_legalEntityId e = pp_entity p) (pb_employees pb);
          hired = (\<lambda>e. case em_hireDate e of None \<Rightarrow> True | Some h \<Rightarrow> h \<le> pp_endDate p);
          paid = (\<lambda>e. payOf pb (em_id e) (pp_endDate p) \<noteq> None)
      in [(''REQUESTS_PENDING'', many (\<lambda>r. stillWaiting r p \<and> ofEntity (rq_employeeId r)) (pb_requests pb)),
          (''CORRECTIONS_OPEN'', many (\<lambda>r. rq_kind r = RK_ATTENDANCE_FIX \<and> stillWaiting r p \<and> ofEntity (rq_employeeId r)) (pb_requests pb)),
          (''NO_COMPENSATION'', many (\<lambda>e. em_active e \<and> hired e \<and> \<not> paid e) staff),
          (''PAY_CHANGES'', many (\<lambda>c. pp_startDate p \<le> cr_effectiveFrom c \<and> cr_effectiveFrom c \<le> pp_endDate p
              \<and> ofEntity (cr_employeeId c)) (pb_compensation pb)),
          (''NO_ATTENDANCE_DAYS'', many (\<lambda>e. em_active e \<and> hired e
              \<and> daysIn pb (em_id e) (pp_startDate p) (pp_endDate p) = []) staff),
          (''NOT_IN_RUN'', many (\<lambda>e. coveredBy (pp_entity p) (pp_startDate p) e \<and> paid e
              \<and> \<not> hasRegular db (pp_id p) (em_id e)) (pb_employees pb)),
          (''PAID_ELSEWHERE'', paidElsewhereCount db (pp_id p)),
          (''LEAVERS_HOLDING_ASSETS'', many (\<lambda>e. (case em_leaveDate e of None \<Rightarrow> False
              | Some l \<Rightarrow> pp_startDate p \<le> l \<and> l \<le> pp_endDate p) \<and> em_id e \<in> set (pb_assetHolders pb)) staff),
          (''DISPUTES_OVERDUE'', many (\<lambda>d. di_state d = DS_OPEN \<and> di_dueAt d < now
              \<and> (\<exists>s \<in> set (pay_slips db). sl_id s = di_payslipId d
                   \<and> (case periodNamed db (sl_periodId s) of None \<Rightarrow> False | Some q \<Rightarrow> pp_entity q = pp_entity p)))
              (pay_disputes db)),
          (''NEGATIVE_NET'', comingShortCount db (pp_id p))])"

text \<open>\<open>requireRunsSettled\<close>: runs are read newest first.\<close>

definition requireRunsSettled :: "PayDb \<Rightarrow> nat \<Rightarrow> unit result" where
  "requireRunsSettled db pid =
     (let runs = filter (\<lambda>r. rn_periodId r = pid \<and> rn_state r \<noteq> RN_DISCARDED) (rev (pay_runs db));
          newestRegular = map_option rn_id (find (\<lambda>r. rn_kind r = REGULAR) runs);
          unfinished = filter (\<lambda>r. rn_state r \<noteq> RN_DONE \<and> (rn_kind r \<noteq> REGULAR \<or> Some (rn_id r) = newestRegular)) runs
      in bindR (refuse (\<exists>r \<in> set runs. rn_state r = RN_RUNNING) (Conflict ''PERIOD_RUN_IN_PROGRESS'')) (\<lambda>_.
         bindR (refuse (\<exists>r \<in> set unfinished. rn_failure r = Some ''RUN_BASE_CHANGED'') (Conflict ''RUN_BASE_CHANGED'')) (\<lambda>_.
         refuse (unfinished \<noteq> []) (Conflict ''PERIOD_RUNS_UNFINISHED''))))"

text \<open>The writes of the lock, in the order of the transaction. What is issued is drafted no more.\<close>

definition issued :: "nat \<Rightarrow> Payslip \<Rightarrow> bool" where
  "issued pid s \<longleftrightarrow> sl_periodId s = pid \<and> sl_state s \<noteq> SL_DRAFT"

definition issueSlips :: "instant \<Rightarrow> nat \<Rightarrow> PayDb \<Rightarrow> PayDb" where
  "issueSlips now pid db =
     db\<lparr>pay_slips := updateMany (\<lambda>s. chosen db pid s \<and> sl_state s = SL_DRAFT)
          (\<lambda>s. s\<lparr>sl_state := SL_ISSUED, sl_issuedAt := Some now\<rparr>) (pay_slips db)\<rparr>"

definition copyBanks :: "nat \<Rightarrow> PayDb \<Rightarrow> PayDb" where
  "copyBanks pid db =
     db\<lparr>pay_slips := updateMany (\<lambda>s. issued pid s \<and> employeeOf (pb_employees (pay_books db)) (sl_employeeId s) \<noteq> None)
          (\<lambda>s. let e = the (employeeOf (pb_employees (pay_books db)) (sl_employeeId s))
               in s\<lparr>sl_bankName := em_bankName e, sl_bankAccount := em_bankAccount e\<rparr>) (pay_slips db)\<rparr>"

definition ofRegular :: "PayDb \<Rightarrow> Payslip \<Rightarrow> bool" where
  "ofRegular db s \<longleftrightarrow> (case runNamed db (sl_runId s) of None \<Rightarrow> False | Some r \<Rightarrow> rn_kind r = REGULAR)"

definition applyRetros :: "nat \<Rightarrow> PayDb \<Rightarrow> PayDb" where
  "applyRetros pid db =
     db\<lparr>pay_retros := updateMany (\<lambda>a. rt_state a = RT_PENDING \<and> rt_appliedPeriodId a = Some pid
          \<and> (\<exists>s \<in> set (pay_slips db). issued pid s \<and> ofRegular db s \<and> sl_employeeId s = rt_employeeId a
               \<and> (\<exists>l \<in> set (sl_lines s). ln_code (snd l) = ''RETRO_'' @ rt_code a)))
          (\<lambda>a. a\<lparr>rt_state := RT_APPLIED\<rparr>) (pay_retros db)\<rparr>"

definition carryRow :: "nat \<Rightarrow> nat \<Rightarrow> int \<times> dong \<Rightarrow> RetroAdjustment" where
  "carryRow i pid = (\<lambda>(e, amount).
     \<lparr>rt_id = i, rt_employeeId = e, rt_sourcePeriodId = pid, rt_appliedPeriodId = None, rt_code = CARRY_CODE,
      rt_label = None, rt_amount = amount, rt_state = RT_PENDING, rt_reason = CARRY_REASON\<rparr>)"

definition carriedFrom :: "nat \<Rightarrow> PayDb \<Rightarrow> (int \<times> dong) list" where
  "carriedFrom pid db =
     concat (map (\<lambda>s. map (\<lambda>l. (sl_employeeId s, ln_amount (snd l)))
         (filter (\<lambda>l. ln_code (snd l) = LINE_CARRY_OUT) (sl_lines s)))
       (filter (\<lambda>s. issued pid s \<and> ofRegular db s) (pay_slips db)))"

definition insertCarries :: "nat \<Rightarrow> PayDb \<Rightarrow> PayDb" where
  "insertCarries pid db =
     db\<lparr>pay_retros := pay_retros db @ map (\<lambda>(i, c). carryRow i pid c) (enumerate (pay_next db) (carriedFrom pid db)),
        pay_next := pay_next db + length (carriedFrom pid db)\<rparr>"

definition settleAdvances :: "instant \<Rightarrow> nat \<Rightarrow> PayDb \<Rightarrow> PayDb" where
  "settleAdvances now pid db =
     db\<lparr>pay_advances := updateMany (\<lambda>a. av_state a = AV_PAID
          \<and> (\<exists>s \<in> set (pay_slips db). issued pid s \<and> av_payslipId a = Some (sl_id s)))
          (\<lambda>a. a\<lparr>av_state := AV_SETTLED, av_settledAt := Some now\<rparr>) (pay_advances db)\<rparr>"

definition trimmed :: "string option \<Rightarrow> string option" where
  "trimmed note = (if blankNote note then None else note)"

definition shutPeriod :: "instant \<Rightarrow> PayDb \<Rightarrow> Viewer \<Rightarrow> nat \<Rightarrow> string option \<Rightarrow> nat \<times> PayDb" where
  "shutPeriod now db v pid note =
     (let (n, ps) = claimWhere (\<lambda>p. pp_id p = pid \<and> pp_state p = OPEN)
            (\<lambda>p. p\<lparr>pp_state := LOCKED, pp_lockedAt := Some now, pp_lockedById := Some (v_userId v),
                   pp_lockNote := trimmed note\<rparr>) (pay_periods db)
      in (n, db\<lparr>pay_periods := ps\<rparr>))"

definition commitLock :: "instant \<Rightarrow> PayDb \<Rightarrow> Viewer \<Rightarrow> nat \<Rightarrow> string option \<Rightarrow> PayDb result" where
  "commitLock now db v pid note =
     bindR (requireRunsSettled db pid) (\<lambda>_.
       let (shut, db1) = shutPeriod now db v pid note in
       bindR (refuse (shut = 0) (BadRequest ''PERIOD_NOT_OPEN'')) (\<lambda>_.
         Inr (settleAdvances now pid (insertCarries pid (applyRetros pid (copyBanks pid (issueSlips now pid db1)))))))"

definition lockEffects :: "PayDb \<Rightarrow> Viewer \<Rightarrow> nat \<Rightarrow> effect list" where
  "lockEffects db v pid =
     (let told = sort (remdups (map sl_employeeId (filter (\<lambda>s. sl_periodId s = pid \<and> sl_state s = SL_ISSUED) (pay_slips db))))
      in Audited (v_userId v) ''PAYROLL_LOCK'' (showNat pid)
         # map (\<lambda>e. Noticed e ''PAYSLIP_ISSUED'') told @ map (\<lambda>e. Noticed e ''TIMESHEET_MONTH_CLOSED'') told
         @ [VanishedSwept])"

definition lock ::
  "day \<Rightarrow> instant \<Rightarrow> PayDb \<Rightarrow> PayDb \<Rightarrow> Viewer \<Rightarrow> nat \<Rightarrow> bool \<Rightarrow> string option \<Rightarrow> (PayDb \<times> effect list) result" where
  "lock today now db0 db1 v pid acceptOpenItems note =
     bindR (mayWrite v) (\<lambda>_.
     bindR (periodOf db0 v pid) (\<lambda>period.
     bindR (refuse (pp_state period \<noteq> OPEN) (BadRequest ''PERIOD_NOT_OPEN'')) (\<lambda>_.
     bindR (refuse (pp_endDate period \<ge> today) (BadRequest ''PERIOD_NOT_ENDED'')) (\<lambda>_.
     bindR (requireRunsSettled db0 pid) (\<lambda>_.
       let openItems = filter (\<lambda>(_, n). n > 0) (checklist now db0 period) in
       bindR (refuse (openItems \<noteq> [] \<and> \<not> acceptOpenItems) (BadRequest ''CHECKLIST_NOT_CLEAR'')) (\<lambda>_.
       bindR (refuse (openItems \<noteq> [] \<and> blankNote note) (BadRequest ''LOCK_NOTE_REQUIRED'')) (\<lambda>_.
       bindR (commitLock now db1 v pid note) (\<lambda>db2. Inr (db2, lockEffects db2 v pid)))))))))"

subsection \<open>After the lock\<close>

definition markPaid :: "instant \<Rightarrow> PayDb \<Rightarrow> PayDb \<Rightarrow> Viewer \<Rightarrow> nat \<Rightarrow> (PayDb \<times> effect list) result" where
  "markPaid now db0 db1 v pid =
     bindR (mayWrite v) (\<lambda>_.
     bindR (periodOf db0 v pid) (\<lambda>period.
     bindR (refuse (pp_state period \<noteq> LOCKED) (BadRequest ''PERIOD_NOT_LOCKED'')) (\<lambda>_.
       Inr (db1\<lparr>pay_periods := updateMany (\<lambda>p. pp_id p = pid) (\<lambda>p. p\<lparr>pp_state := PAID, pp_paidAt := Some now\<rparr>) (pay_periods db1)\<rparr>,
            [Audited (v_userId v) ''PAYROLL_PAID'' (showNat pid)]))))"

definition slipsReached :: "PayDb \<Rightarrow> Viewer \<Rightarrow> Person list \<Rightarrow> Payslip \<Rightarrow> bool" where
  "slipsReached db v people s \<longleftrightarrow>
     (case v_entityIds v of
        None \<Rightarrow> True
      | Some ids \<Rightarrow>
          (case find (\<lambda>p. p_id p = sl_employeeId s) people of None \<Rightarrow> False | Some o' \<Rightarrow> ownedWhere v None o')
          \<or> (case periodNamed db (sl_periodId s) of None \<Rightarrow> False | Some p \<Rightarrow> pp_entity p \<in> set ids))"

text \<open>\<open>payslip\<close>: the one a viewer may open; its owner opening it marks it viewed, anyone else leaves a line.\<close>

definition payslip ::
  "instant \<Rightarrow> Person list \<Rightarrow> PayDb \<Rightarrow> Viewer \<Rightarrow> nat \<Rightarrow> (PayDb \<times> Payslip \<times> effect list) result" where
  "payslip now people db v i =
     (let visible = deskOrSelfEmployeeIds v;
          may = (\<lambda>s. case visible of None \<Rightarrow> slipsReached db v people s
                   | Some ids \<Rightarrow> sl_employeeId s \<in> set ids \<and> sl_state s \<noteq> SL_DRAFT)
      in bindR (found (find (\<lambda>s. sl_id s = i \<and> may s) (pay_slips db)) (NotFound ''PAYSLIP_NOT_FOUND'')) (\<lambda>s.
         let own = (v_employeeId v = Some (sl_employeeId s));
             line' = (if own then [] else [Audited (v_userId v) ''PAYSLIP_READ'' (showNat (nat (sl_employeeId s)))])
         in if own \<and> sl_viewedAt s = None \<and> sl_state s \<noteq> SL_DRAFT
            then let seen' = (\<lambda>s. s\<lparr>sl_state := SL_VIEWED, sl_viewedAt := Some now\<rparr>)
                 in Inr (db\<lparr>pay_slips := updateMany (\<lambda>s. sl_id s = i) seen' (pay_slips db)\<rparr>, seen' s, line')
            else Inr (db, s, line')))"

definition deliver :: "PayDb \<Rightarrow> Viewer \<Rightarrow> nat \<Rightarrow> effect list result" where
  "deliver db v pid =
     bindR (mayWrite v) (\<lambda>_.
     bindR (periodOf db v pid) (\<lambda>period.
     bindR (refuse (pp_state period = OPEN) (BadRequest ''PERIOD_NOT_LOCKED'')) (\<lambda>_.
       Inr (map (\<lambda>s. Enqueued ''payroll'' (''payslip-'' @ showNat (sl_id s)))
              (filter (\<lambda>s. issued pid s \<and> sl_sentAt s = None) (pay_slips db))
            @ [Audited (v_userId v) ''PAYROLL_DELIVER'' (showNat pid)]))))"

definition markSent :: "instant \<Rightarrow> PayDb \<Rightarrow> nat \<Rightarrow> PayDb" where
  "markSent now db i =
     db\<lparr>pay_slips := updateMany (\<lambda>s. sl_id s = i \<and> sl_state s = SL_ISSUED) (\<lambda>s. s\<lparr>sl_state := SL_SENT\<rparr>)
          (updateMany (\<lambda>s. sl_id s = i \<and> sl_sentAt s = None) (\<lambda>s. s\<lparr>sl_sentAt := Some now\<rparr>) (pay_slips db))\<rparr>"

end
