(* ===== verification/Claims.thy ===== *)
theory Claims
  imports Payroll
begin

section \<open>Salary advances and payslip disputes\<close>

text \<open>
  The writes of \<open>backend/src/modules/payroll/advance.service.ts\<close> and
  \<open>backend/src/modules/disputes/disputes.service.ts\<close>, on the payroll tables they share with the runs: an
  advance that was paid is deducted by the next regular payslip, and a dispute that is upheld with an
  amount makes the back payment the next run carries. Each handler reads the row in one state and
  writes it, guarded on its state, in a later one.
\<close>

subsection \<open>Advances\<close>

definition people :: "PayDb \<Rightarrow> Person list" where
  "people db = map personOf (pb_employees (pay_books db))"

definition advanceNamed :: "PayDb \<Rightarrow> nat \<Rightarrow> SalaryAdvance option" where
  "advanceNamed db i = firstWhere av_id i (pay_advances db)"

definition requireAdvance :: "PayDb \<Rightarrow> nat \<Rightarrow> SalaryAdvance result" where
  "requireAdvance db i = found (advanceNamed db i) (NotFound ''ADVANCE_NOT_FOUND'')"

definition reachedAdvance :: "PayDb \<Rightarrow> Viewer \<Rightarrow> nat \<Rightarrow> SalaryAdvance result" where
  "reachedAdvance db v i =
     bindR (requireAdvance db i) (\<lambda>a.
     bindR (refuse (\<not> reaches (people db) v (deskOrSelfEmployeeIds v) (av_employeeId a)) (NotFound ''ADVANCE_NOT_FOUND''))
       (\<lambda>_. Inr a))"

definition submitAdvance ::
  "instant \<Rightarrow> PayDb \<Rightarrow> Viewer \<Rightarrow> dong \<Rightarrow> string \<Rightarrow> (PayDb \<times> effect list) result" where
  "submitAdvance now db v amount reason =
     bindR (found (v_employeeId v) (NotFound ''EMPLOYEE_NOT_FOUND'')) (\<lambda>e.
       Inr (db\<lparr>pay_advances := pay_advances db @
              [\<lparr>av_id = pay_next db, av_employeeId = e, av_amount = amount, av_reason = reason, av_state = AV_PENDING,
                av_requestedAt = now, av_decidedById = None, av_decidedAt = None, av_decisionNote = None,
                av_paidAt = None, av_settledAt = None, av_payslipId = None\<rparr>],
              pay_next := pay_next db + 1\<rparr>,
            [ItemOpened ''ADVANCES_TO_DECIDE'' (showNat (pay_next db))]))"

text \<open>What a press on an advance writes: the desk's answer, the payment, the owner's withdrawal.\<close>

datatype AdvancePress = Answered bool string instant "string option" | Withdrawn

fun pressed :: "AdvancePress \<Rightarrow> SalaryAdvance \<Rightarrow> SalaryAdvance" where
  "pressed (Answered approve by' now note) a =
     a\<lparr>av_state := (if approve then AV_APPROVED else AV_REJECTED), av_decidedById := Some by',
       av_decidedAt := Some now, av_decisionNote := note\<rparr>"
| "pressed Withdrawn a = a\<lparr>av_state := AV_CANCELLED\<rparr>"

definition paidOut :: "instant \<Rightarrow> SalaryAdvance \<Rightarrow> SalaryAdvance" where
  "paidOut now a = a\<lparr>av_state := AV_PAID, av_paidAt := Some now\<rparr>"

definition claimAdvance ::
  "PayDb \<Rightarrow> nat \<Rightarrow> AdvanceState \<Rightarrow> (SalaryAdvance \<Rightarrow> SalaryAdvance) \<Rightarrow> string \<Rightarrow> PayDb result" where
  "claimAdvance db i st upd refusal' =
     (let (n, rows) = claimWhere (\<lambda>a. av_id a = i \<and> av_state a = st) upd (pay_advances db)
      in bindR (refuse (n \<noteq> 1) (Conflict refusal')) (\<lambda>_. Inr (db\<lparr>pay_advances := rows\<rparr>)))"

definition ADVANCES_TO_DECIDE :: "Role set" where
  "ADVANCES_TO_DECIDE = THE_DESK"

definition ADVANCES_TO_PAY :: "Role set" where
  "ADVANCES_TO_PAY = {ADMIN, PAYROLL}"

definition decideAdvance ::
  "instant \<Rightarrow> PayDb \<Rightarrow> PayDb \<Rightarrow> Viewer \<Rightarrow> nat \<Rightarrow> bool \<Rightarrow> string option \<Rightarrow> (PayDb \<times> effect list) result" where
  "decideAdvance now db0 db1 v i approve note =
     bindR (refuse (v_role v \<notin> ADVANCES_TO_DECIDE) (Forbidden ''ADVANCE_DECIDE_DENIED'')) (\<lambda>_.
     bindR (reachedAdvance db0 v i) (\<lambda>a.
     bindR (refuseOwn v [av_employeeId a]) (\<lambda>_.
     bindR (claimAdvance db1 i AV_PENDING (pressed (Answered approve (v_userId v) now note)) ''ADVANCE_ALREADY_DECIDED'') (\<lambda>db2.
       Inr (db2,
         [Audited (v_userId v) (if approve then ''ADVANCE_APPROVE'' else ''ADVANCE_REJECT'') (showNat i),
          ItemClosed ''ADVANCES_TO_DECIDE'' (showNat i) (if approve then ''APPROVED'' else ''REJECTED''),
          Noticed (av_employeeId a) ''REQUEST_DECIDED'']
         @ (if approve then [ItemOpened ''ADVANCES_TO_PAY'' (showNat i)] else []))))))"

definition payAdvance ::
  "instant \<Rightarrow> PayDb \<Rightarrow> PayDb \<Rightarrow> Viewer \<Rightarrow> nat \<Rightarrow> (PayDb \<times> effect list) result" where
  "payAdvance now db0 db1 v i =
     bindR (refuse (v_role v \<notin> ADVANCES_TO_PAY) (Forbidden ''ADVANCE_PAY_DENIED'')) (\<lambda>_.
     bindR (reachedAdvance db0 v i) (\<lambda>a.
     bindR (refuseOwn v [av_employeeId a]) (\<lambda>_.
     bindR (claimAdvance db1 i AV_APPROVED (paidOut now) ''ADVANCE_NOT_APPROVED'') (\<lambda>db2.
       Inr (db2,
         [Audited (v_userId v) ''ADVANCE_PAY'' (showNat i), ItemClosed ''ADVANCES_TO_PAY'' (showNat i) ''PAID'',
          Noticed (av_employeeId a) ''ADVANCE_PAID''])))))"

definition cancelAdvance :: "PayDb \<Rightarrow> PayDb \<Rightarrow> Viewer \<Rightarrow> nat \<Rightarrow> (PayDb \<times> effect list) result" where
  "cancelAdvance db0 db1 v i =
     bindR (requireAdvance db0 i) (\<lambda>a.
     bindR (refuse (v_employeeId v \<noteq> Some (av_employeeId a)) (NotFound ''ADVANCE_NOT_FOUND'')) (\<lambda>_.
     bindR (claimAdvance db1 i AV_PENDING (pressed Withdrawn) ''ADVANCE_ALREADY_DECIDED'') (\<lambda>db2.
       Inr (db2, [ItemClosed ''ADVANCES_TO_DECIDE'' (showNat i) ''WITHDRAWN'']))))"

text \<open>What the desk weighs an advance against: the other advances out, approved or paid.\<close>

definition OWED :: "AdvanceState set" where
  "OWED = {AV_APPROVED, AV_PAID}"

definition outstanding :: "PayDb \<Rightarrow> SalaryAdvance \<Rightarrow> dong" where
  "outstanding db row =
     sum_list (map av_amount (filter (\<lambda>a. av_employeeId a = av_employeeId row \<and> av_id a \<noteq> av_id row)
       (filter (\<lambda>a. av_state a \<in> OWED) (pay_advances db))))"

subsection \<open>Disputes\<close>

definition ANSWERERS :: "Role set" where
  "ANSWERERS = {ADMIN, PAYROLL}"

definition RETRO_CODE :: string where
  "RETRO_CODE = ''DISPUTE''"

definition MS_PER_HOUR :: int where
  "MS_PER_HOUR = 3600000"

definition disputeNamed :: "PayDb \<Rightarrow> nat \<Rightarrow> PayslipDispute option" where
  "disputeNamed db i = firstWhere di_id i (pay_disputes db)"

definition reachesOwner :: "PayDb \<Rightarrow> Viewer \<Rightarrow> int \<Rightarrow> bool" where
  "reachesOwner db v e \<longleftrightarrow> reaches (people db) v (deskOrSelfEmployeeIds v) e"

definition openDispute :: "PayDb \<Rightarrow> nat \<Rightarrow> Viewer \<Rightarrow> PayslipDispute result" where
  "openDispute db i v =
     (case disputeNamed db i of
        None \<Rightarrow> Inl (NotFound ''DISPUTE_NOT_FOUND'')
      | Some held \<Rightarrow>
          if \<not> reachesOwner db v (di_employeeId held) then Inl (NotFound ''DISPUTE_NOT_FOUND'')
          else if di_state held \<noteq> DS_OPEN then Inl (Conflict ''DISPUTE_ALREADY_ANSWERED'')
          else Inr held)"

text \<open>\<open>raise\<close>: the count of open disputes is read before the row is made, outside any transaction.\<close>

definition raiseDispute ::
  "instant \<Rightarrow> int \<Rightarrow> PayDb \<Rightarrow> PayDb \<Rightarrow> Viewer \<Rightarrow> nat \<Rightarrow> string option \<Rightarrow> string \<Rightarrow> (PayDb \<times> effect list) result" where
  "raiseDispute now answerDays db0 db1 v sid lineCode complaint =
     bindR (found (v_employeeId v) (Forbidden ''NO_EMPLOYEE_RECORD'')) (\<lambda>e.
     bindR (found (find (\<lambda>s. sl_id s = sid) (pay_slips db0)) (NotFound ''PAYSLIP_NOT_FOUND'')) (\<lambda>s.
     bindR (refuse (sl_employeeId s \<noteq> e) (NotFound ''PAYSLIP_NOT_FOUND'')) (\<lambda>_.
     bindR (refuse (sl_state s = SL_DRAFT) (BadRequest ''PAYSLIP_NOT_ISSUED'')) (\<lambda>_.
     bindR (refuse (\<exists>d \<in> set (pay_disputes db0). di_payslipId d = sid \<and> di_lineCode d = lineCode \<and> di_state d = DS_OPEN)
              (Conflict ''DISPUTE_ALREADY_OPEN'')) (\<lambda>_.
       Inr (db1\<lparr>pay_disputes := pay_disputes db1 @
              [\<lparr>di_id = pay_next db1, di_payslipId = sid, di_employeeId = e, di_lineCode = lineCode, di_claim = complaint,
                di_state = DS_OPEN, di_dueAt = now + answerDays * 24 * MS_PER_HOUR, di_outcome = None,
                di_answer = None, di_answeredAt = None, di_answeredById = None, di_retroId = None\<rparr>],
              pay_next := pay_next db1 + 1\<rparr>,
            [Audited (v_userId v) ''DISPUTE_RAISE'' (showNat sid), ItemOpened ''DISPUTES'' (showNat (pay_next db1))]))))))"

record AnswerDisputeDto =
  an_outcome :: DisputeOutcome
  an_answer :: string
  an_amount :: "dong option"
  an_code :: "string option"
  an_label :: "string option"

definition answeredDispute :: "string \<Rightarrow> instant \<Rightarrow> AnswerDisputeDto \<Rightarrow> PayslipDispute \<Rightarrow> PayslipDispute" where
  "answeredDispute by' now body d =
     d\<lparr>di_state := DS_ANSWERED, di_outcome := Some (an_outcome body), di_answer := Some (an_answer body),
       di_answeredAt := Some now, di_answeredById := Some by'\<rparr>"

definition backPayment :: "nat \<Rightarrow> int \<Rightarrow> nat \<Rightarrow> AnswerDisputeDto \<Rightarrow> dong \<Rightarrow> RetroAdjustment" where
  "backPayment i e pid body amount =
     \<lparr>rt_id = i, rt_employeeId = e, rt_sourcePeriodId = pid, rt_appliedPeriodId = None,
      rt_code = orElse (an_code body) RETRO_CODE, rt_label = an_label body, rt_amount = amount, rt_state = RT_PENDING,
      rt_reason = an_answer body\<rparr>"

definition commitAnswer ::
  "instant \<Rightarrow> PayDb \<Rightarrow> Viewer \<Rightarrow> PayslipDispute \<Rightarrow> nat \<Rightarrow> AnswerDisputeDto \<Rightarrow> PayDb result" where
  "commitAnswer now db v held pid body =
     (let (n, rows) = claimWhere (\<lambda>d. di_id d = di_id held \<and> di_state d = DS_OPEN)
                        (answeredDispute (v_userId v) now body) (pay_disputes db)
      in bindR (refuse (n \<noteq> 1) (Conflict ''DISPUTE_ALREADY_ANSWERED'')) (\<lambda>_.
         let linked = (\<lambda>retro. updateMany (\<lambda>d. di_id d = di_id held) (\<lambda>d. d\<lparr>di_retroId := retro\<rparr>) rows) in
         Inr (case (an_outcome body, an_amount body) of
                (UPHELD, Some amount) \<Rightarrow>
                  db\<lparr>pay_retros := pay_retros db @ [backPayment (pay_next db) (di_employeeId held) pid body amount],
                     pay_disputes := linked (Some (pay_next db)), pay_next := pay_next db + 1\<rparr>
              | _ \<Rightarrow> db\<lparr>pay_disputes := linked None\<rparr>)))"

definition answerDispute ::
  "instant \<Rightarrow> PayDb \<Rightarrow> PayDb \<Rightarrow> Viewer \<Rightarrow> nat \<Rightarrow> AnswerDisputeDto \<Rightarrow> (PayDb \<times> effect list) result" where
  "answerDispute now db0 db1 v i body =
     bindR (refuse (v_role v \<notin> ANSWERERS) (Forbidden ''PAYROLL_WRITE_DENIED'')) (\<lambda>_.
     bindR (openDispute db0 i v) (\<lambda>held.
     bindR (refuseOwn v [di_employeeId held]) (\<lambda>_.
     bindR (found (find (\<lambda>s. sl_id s = di_payslipId held) (pay_slips db0)) (Unhandled ''P2025'')) (\<lambda>slip.
     bindR (commitAnswer now db1 v held (sl_periodId slip) body) (\<lambda>db2.
       Inr (db2,
         [Audited (v_userId v) ''DISPUTE_ANSWER'' (showNat (di_payslipId held)),
          ItemClosed ''DISPUTES'' (showNat i) (case an_outcome body of UPHELD \<Rightarrow> ''UPHELD'' | REJECTED \<Rightarrow> ''REJECTED''),
          Noticed (di_employeeId held) ''DISPUTE_ANSWERED'']))))))"

definition withdrawDispute :: "PayDb \<Rightarrow> PayDb \<Rightarrow> Viewer \<Rightarrow> nat \<Rightarrow> (PayDb \<times> effect list) result" where
  "withdrawDispute db0 db1 v i =
     bindR (found (disputeNamed db0 i) (NotFound ''DISPUTE_NOT_FOUND'')) (\<lambda>held.
     bindR (refuse (\<not> reachesOwner db0 v (di_employeeId held)) (NotFound ''DISPUTE_NOT_FOUND'')) (\<lambda>_.
     bindR (refuse (v_employeeId v \<noteq> Some (di_employeeId held)) (Forbidden ''DISPUTE_NOT_YOURS'')) (\<lambda>_.
     let (n, rows) = claimWhere (\<lambda>d. di_id d = di_id held \<and> di_state d = DS_OPEN)
                       (\<lambda>d. d\<lparr>di_state := DS_WITHDRAWN\<rparr>) (pay_disputes db1)
     in bindR (refuse (n \<noteq> 1) (Conflict ''DISPUTE_ALREADY_ANSWERED'')) (\<lambda>_.
          Inr (db1\<lparr>pay_disputes := rows\<rparr>,
            [Audited (v_userId v) ''DISPUTE_WITHDRAW'' (showNat (di_payslipId held)),
             ItemClosed ''DISPUTES'' (showNat i) ''WITHDRAWN''])))))"

subsection \<open>One press wins\<close>

interpretation deciding: settled_once av_id "\<lambda>a. av_state a = AV_PENDING" pressed
proof (unfold_locales)
  fix p a
  show "av_id (pressed p a) = av_id a" by (cases p) simp_all
  show "av_state (pressed p a) \<noteq> AV_PENDING" by (cases p) simp_all
qed

interpretation paying: settled_once av_id "\<lambda>a. av_state a = AV_APPROVED" paidOut
  by unfold_locales (simp_all add: paidOut_def)

datatype DisputePress = Replied string instant AnswerDisputeDto | TakenBack

fun shutDispute :: "DisputePress \<Rightarrow> PayslipDispute \<Rightarrow> PayslipDispute" where
  "shutDispute (Replied by' now body) d = answeredDispute by' now body d"
| "shutDispute TakenBack d = d\<lparr>di_state := DS_WITHDRAWN\<rparr>"

interpretation answering: settled_once di_id "\<lambda>d. di_state d = DS_OPEN" shutDispute
proof (unfold_locales)
  fix p d
  show "di_id (shutDispute p d) = di_id d" by (cases p) (simp_all add: answeredDispute_def)
  show "di_state (shutDispute p d) \<noteq> DS_OPEN" by (cases p) (simp_all add: answeredDispute_def)
qed

end
