(* ===== verification/PayFlow.thy ===== *)
theory PayFlow
  imports Claims
begin

section \<open>The life of a pay period\<close>

text \<open>
  The handlers of \<open>Payroll\<close> and \<open>Claims\<close> put together: a step relation over every write they make, the
  invariant of the tables that every step keeps, and what follows for a period once it is locked.
  A step reads an earlier state and commits on a later one, so any handler may have gone between its
  checks and its transaction. A run's job is delivered while the run is RUNNING.
\<close>

subsection \<open>The invariant\<close>

definition isShut :: "PayrollPeriod list \<Rightarrow> nat \<Rightarrow> bool" where
  "isShut ps pid \<longleftrightarrow> (\<exists>p \<in> set ps. pp_id p = pid \<and> pp_state p \<noteq> OPEN)"

definition idsOk :: "nat \<Rightarrow> PayrollPeriod list \<Rightarrow> PayrollRun list \<Rightarrow> Payslip list \<Rightarrow> bool" where
  "idsOk n ps rs ss \<longleftrightarrow>
     distinct (map pp_id ps) \<and> distinct (map rn_id rs) \<and> distinct (map sl_id ss)
     \<and> (\<forall>p \<in> set ps. pp_id p < n) \<and> (\<forall>r \<in> set rs. rn_id r < n) \<and> (\<forall>s \<in> set ss. sl_id s < n)"

lemma idsOk_maps:
  "idsOk n ps rs ss \<longleftrightarrow> distinct (map pp_id ps) \<and> distinct (map rn_id rs) \<and> distinct (map sl_id ss)
     \<and> (\<forall>i \<in> set (map pp_id ps). i < n) \<and> (\<forall>i \<in> set (map rn_id rs). i < n) \<and> (\<forall>i \<in> set (map sl_id ss). i < n)"
  by (simp add: idsOk_def)

definition refsOk :: "PayrollPeriod list \<Rightarrow> PayrollRun list \<Rightarrow> Payslip list \<Rightarrow> bool" where
  "refsOk ps rs ss \<longleftrightarrow>
     (\<forall>r \<in> set rs. \<exists>p \<in> set ps. pp_id p = rn_periodId r)
     \<and> (\<forall>s \<in> set ss. \<exists>r \<in> set rs. rn_id r = sl_runId s \<and> rn_periodId r = sl_periodId s)"

text \<open>An issued payslip is one of a finished run of a closed period; a run going is one of an open
  period, the only one of it.\<close>

definition statesOk :: "PayrollPeriod list \<Rightarrow> PayrollRun list \<Rightarrow> Payslip list \<Rightarrow> bool" where
  "statesOk ps rs ss \<longleftrightarrow>
     (\<forall>s \<in> set ss. sl_state s \<noteq> SL_DRAFT \<longrightarrow> isShut ps (sl_periodId s)
        \<and> (\<exists>r \<in> set rs. rn_id r = sl_runId s \<and> rn_state r = RN_DONE))
     \<and> (\<forall>r \<in> set rs. rn_state r = RN_RUNNING \<longrightarrow> \<not> isShut ps (rn_periodId r))
     \<and> (\<forall>r \<in> set rs. \<forall>r' \<in> set rs. rn_state r = RN_RUNNING \<and> rn_state r' = RN_RUNNING
          \<and> rn_periodId r = rn_periodId r' \<longrightarrow> rn_id r = rn_id r')"

definition oneOpen :: "PayrollPeriod list \<Rightarrow> bool" where
  "oneOpen ps \<longleftrightarrow>
     (\<forall>p \<in> set ps. \<forall>q \<in> set ps. pp_entity p = pp_entity q
        \<and> (pp_state p = OPEN \<and> pp_state q = OPEN \<or> pp_year p = pp_year q \<and> pp_month p = pp_month q)
        \<longrightarrow> pp_id p = pp_id q)"

definition payOk :: "PayDb \<Rightarrow> bool" where
  "payOk db \<longleftrightarrow> idsOk (pay_next db) (pay_periods db) (pay_runs db) (pay_slips db)
     \<and> refsOk (pay_periods db) (pay_runs db) (pay_slips db)
     \<and> statesOk (pay_periods db) (pay_runs db) (pay_slips db) \<and> oneOpen (pay_periods db)"

text \<open>What of a payslip is fixed once its month is closed: all but whether it was sent and opened.\<close>

definition figures :: "Payslip \<Rightarrow> Payslip" where
  "figures s = s\<lparr>sl_state := (if sl_state s = SL_DRAFT then SL_DRAFT else SL_ISSUED), sl_sentAt := None, sl_viewedAt := None\<rparr>"

definition keeps :: "nat \<Rightarrow> PayDb \<Rightarrow> PayDb \<Rightarrow> bool" where
  "keeps pid a b \<longleftrightarrow>
     filter (\<lambda>r. rn_periodId r = pid) (pay_runs b) = filter (\<lambda>r. rn_periodId r = pid) (pay_runs a)
     \<and> map figures (filter (\<lambda>s. sl_periodId s = pid) (pay_slips b))
       = map figures (filter (\<lambda>s. sl_periodId s = pid) (pay_slips a))"

definition runPeriod :: "PayDb \<Rightarrow> nat \<Rightarrow> nat \<Rightarrow> bool" where
  "runPeriod db rid pid \<longleftrightarrow> (\<exists>r \<in> set (pay_runs db). rn_id r = rid \<and> rn_periodId r = pid)"

text \<open>A change is good when it keeps the invariant, loses no run, opens no closed period again and
  leaves the closed ones alone, but for the one named.\<close>

definition goodBut :: "nat option \<Rightarrow> PayDb \<Rightarrow> PayDb \<Rightarrow> bool" where
  "goodBut but a b \<longleftrightarrow> (payOk a \<longrightarrow> payOk b
     \<and> (\<forall>pid. isShut (pay_periods a) pid \<longrightarrow> isShut (pay_periods b) pid \<and> (but \<noteq> Some pid \<longrightarrow> keeps pid a b))
     \<and> (\<forall>rid pid. runPeriod a rid pid \<longrightarrow> runPeriod b rid pid))"

abbreviation good :: "PayDb \<Rightarrow> PayDb \<Rightarrow> bool" where
  "good \<equiv> goodBut None"

lemma keeps_refl [simp]: "keeps pid a a"
  by (simp add: keeps_def)

lemma keeps_trans: "keeps pid a b \<Longrightarrow> keeps pid b c \<Longrightarrow> keeps pid a c"
  by (simp add: keeps_def)

lemma good_refl [simp]: "goodBut but a a"
  by (simp add: goodBut_def)

lemma good_trans: "goodBut but a b \<Longrightarrow> goodBut but b c \<Longrightarrow> goodBut but a c"
  unfolding goodBut_def using keeps_trans by blast

lemma good_weaken: "good a b \<Longrightarrow> goodBut but a b"
  unfolding goodBut_def by blast

lemma good_opened: "goodBut (Some pid) a b \<Longrightarrow> \<not> isShut (pay_periods a) pid \<Longrightarrow> good a b"
  unfolding goodBut_def by blast

lemma goodD:
  assumes "goodBut but a b" "payOk a"
  shows "payOk b" "isShut (pay_periods a) k \<Longrightarrow> isShut (pay_periods b) k"
    "isShut (pay_periods a) k \<Longrightarrow> but \<noteq> Some k \<Longrightarrow> keeps k a b"
    "runPeriod a rid pid \<Longrightarrow> runPeriod b rid pid"
  using assms unfolding goodBut_def by blast+

lemma good_other:
  assumes "pay_periods b = pay_periods a" "pay_runs b = pay_runs a" "pay_slips b = pay_slips a"
    "pay_next a \<le> pay_next b"
  shows "good a b"
  using assms by (fastforce simp: goodBut_def payOk_def idsOk_def keeps_def runPeriod_def)

text \<open>A run whose period is not closed; the payslips of such a run.\<close>

definition openRun :: "PayDb \<Rightarrow> nat \<Rightarrow> bool" where
  "openRun db rid \<longleftrightarrow> (\<forall>r \<in> set (pay_runs db). rn_id r = rid \<longrightarrow> \<not> isShut (pay_periods db) (rn_periodId r))"

lemma openRun_slip:
  "payOk db \<Longrightarrow> openRun db (sl_runId s) \<Longrightarrow> s \<in> set (pay_slips db) \<Longrightarrow> \<not> isShut (pay_periods db) (sl_periodId s)"
  unfolding payOk_def refsOk_def openRun_def by metis

lemma openRun_period: "payOk db \<Longrightarrow> runPeriod db rid pid \<Longrightarrow> \<not> isShut (pay_periods db) pid \<Longrightarrow> openRun db rid"
  unfolding payOk_def idsOk_def runPeriod_def openRun_def by (metis distinct_map inj_onD)

subsection \<open>Good changes\<close>

lemma filter_updateMany_other:
  "(\<And>r. r \<in> set rows \<Longrightarrow> P r \<Longrightarrow> \<not> Q r \<and> \<not> Q (f r)) \<Longrightarrow> filter Q (updateMany P f rows) = filter Q rows"
  by (induction rows) auto

lemma good_runs:
  assumes keep: "\<And>r. rn_id (f r) = rn_id r" "\<And>r. rn_periodId (f r) = rn_periodId r"
    and opened: "\<And>r. payOk db \<Longrightarrow> r \<in> set (pay_runs db) \<Longrightarrow> P r \<Longrightarrow> \<not> isShut (pay_periods db) (rn_periodId r)"
    and alone: "\<And>r r'. r \<in> set (pay_runs db) \<Longrightarrow> P r \<Longrightarrow> rn_state (f r) = RN_RUNNING \<Longrightarrow> r' \<in> set (pay_runs db) \<Longrightarrow>
        P r' \<or> rn_state r' = RN_RUNNING \<Longrightarrow> rn_periodId r' = rn_periodId r \<Longrightarrow> rn_id r' = rn_id r"
  shows "good db (db\<lparr>pay_runs := updateMany P f (pay_runs db)\<rparr>)"
proof -
  let ?rs = "updateMany P f (pay_runs db)"
  have "payOk (db\<lparr>pay_runs := ?rs\<rparr>)" if ok: "payOk db"
  proof -
    have ids: "map rn_id ?rs = map rn_id (pay_runs db)" by (rule updateMany_keys) (rule keep)
    have 1: "idsOk (pay_next db) (pay_periods db) ?rs (pay_slips db)"
      using ok unfolding payOk_def idsOk_maps ids by blast
    have 2: "refsOk (pay_periods db) ?rs (pay_slips db)"
      using ok keep unfolding payOk_def refsOk_def updateMany_set
      by (smt (verit, best) image_iff)
    have "\<exists>r \<in> set ?rs. rn_id r = sl_runId s \<and> rn_state r = RN_DONE"
      if s: "s \<in> set (pay_slips db)" "sl_state s \<noteq> SL_DRAFT" for s
    proof -
      from s ok obtain r where r: "r \<in> set (pay_runs db)" "rn_id r = sl_runId s" "rn_state r = RN_DONE"
        "isShut (pay_periods db) (sl_periodId s)"
        unfolding payOk_def statesOk_def by blast
      from s(1) ok obtain r' where r': "r' \<in> set (pay_runs db)" "rn_id r' = sl_runId s" "rn_periodId r' = sl_periodId s"
        unfolding payOk_def refsOk_def by blast
      have "r' = r" using ok r r' unfolding payOk_def idsOk_def by (metis distinct_map inj_onD)
      with r r' opened [OF ok] have "\<not> P r" by metis
      with r show ?thesis by (auto simp: updateMany_mem)
    qed
    moreover have "\<not> isShut (pay_periods db) (rn_periodId r)" if "r \<in> set ?rs" "rn_state r = RN_RUNNING" for r
      using that ok opened [OF ok] keep unfolding payOk_def statesOk_def updateMany_mem by metis
    moreover have "rn_id r = rn_id r'"
      if "r \<in> set ?rs" "r' \<in> set ?rs" "rn_state r = RN_RUNNING" "rn_state r' = RN_RUNNING" "rn_periodId r = rn_periodId r'"
      for r r'
      using that ok alone keep unfolding payOk_def statesOk_def updateMany_mem by metis
    ultimately have "statesOk (pay_periods db) ?rs (pay_slips db)"
      using ok unfolding payOk_def statesOk_def by blast
    with 1 2 ok show ?thesis by (simp add: payOk_def)
  qed
  moreover have "keeps pid db (db\<lparr>pay_runs := ?rs\<rparr>)" if "payOk db" "isShut (pay_periods db) pid" for pid
    using that opened keep by (auto simp: keeps_def intro!: filter_updateMany_other)
  moreover have "runPeriod (db\<lparr>pay_runs := ?rs\<rparr>) rid pid" if "runPeriod db rid pid" for rid pid
    using that unfolding runPeriod_def by (simp add: updateMany_bounded) (metis keep)
  ultimately show ?thesis by (simp add: goodBut_def)
qed

lemma good_setRun:
  assumes "\<And>r. rn_id (f r) = rn_id r" "\<And>r. rn_periodId (f r) = rn_periodId r" "openRun db rid"
    "\<And>r r'. r \<in> set (pay_runs db) \<Longrightarrow> rn_id r = rid \<Longrightarrow> rn_state (f r) = RN_RUNNING \<Longrightarrow> r' \<in> set (pay_runs db) \<Longrightarrow>
       rn_state r' = RN_RUNNING \<Longrightarrow> rn_periodId r' = rn_periodId r \<Longrightarrow> rn_id r' = rid"
  shows "good db (setRun db rid f)"
  unfolding setRun_def
proof (rule good_runs)
  fix r r'
  assume "r \<in> set (pay_runs db)" "rn_id r = rid" "rn_state (f r) = RN_RUNNING" "r' \<in> set (pay_runs db)"
    "rn_id r' = rid \<or> rn_state r' = RN_RUNNING" "rn_periodId r' = rn_periodId r"
  with assms(4) show "rn_id r' = rn_id r" by metis
qed (use assms(1,2,3) in \<open>simp_all add: openRun_def\<close>)

lemma good_delete:
  assumes "\<And>s. payOk db \<Longrightarrow> s \<in> set (pay_slips db) \<Longrightarrow> P s \<Longrightarrow> \<not> isShut (pay_periods db) (sl_periodId s)"
  shows "good db (db\<lparr>pay_slips := deleteMany P (pay_slips db)\<rparr>)"
proof -
  have "payOk (db\<lparr>pay_slips := deleteMany P (pay_slips db)\<rparr>)" if "payOk db"
  proof -
    have sub: "set (deleteMany P (pay_slips db)) \<subseteq> set (pay_slips db)" by auto
    have "distinct (map sl_id (deleteMany P (pay_slips db)))"
      using that by (simp add: payOk_def idsOk_def deleteMany_def distinct_map_filter)
    then have "idsOk (pay_next db) (pay_periods db) (pay_runs db) (deleteMany P (pay_slips db))"
      using that sub unfolding payOk_def idsOk_def by blast
    moreover have "refsOk (pay_periods db) (pay_runs db) (deleteMany P (pay_slips db))"
      using that sub unfolding payOk_def refsOk_def by blast
    moreover have "statesOk (pay_periods db) (pay_runs db) (deleteMany P (pay_slips db))"
      using that sub unfolding payOk_def statesOk_def by blast
    ultimately show ?thesis using that by (simp add: payOk_def)
  qed
  moreover have "filter (\<lambda>s. sl_periodId s = pid) (deleteMany P (pay_slips db)) = filter (\<lambda>s. sl_periodId s = pid) (pay_slips db)"
    if "payOk db" "isShut (pay_periods db) pid" for pid
    unfolding deleteMany_def filter_filter using assms that by (intro filter_cong) auto
  ultimately show ?thesis by (simp add: goodBut_def keeps_def runPeriod_def)
qed

lemma writeSlips_fields [simp]:
  "pay_periods (writeSlips db slips) = pay_periods db" "pay_runs (writeSlips db slips) = pay_runs db"
  "pay_next (writeSlips db slips) = pay_next db + length slips"
  "pay_slips (writeSlips db slips) = pay_slips db @ map (\<lambda>(i, s). s\<lparr>sl_id := i\<rparr>) (enumerate (pay_next db) slips)"
  "pay_advances (writeSlips db slips) = pay_advances db" "pay_retros (writeSlips db slips) = pay_retros db"
  "pay_books (writeSlips db slips) = pay_books db"
  by (simp_all add: writeSlips_def)

lemma new_ids [simp]: "map (sl_id \<circ> (\<lambda>(i, s). s\<lparr>sl_id := i\<rparr>)) (enumerate n slips) = [n..<n + length slips]"
  by (induction slips arbitrary: n) (simp_all add: upt_conv_Cons del: upt_Suc)

lemma new_slip: "s' \<in> set (map (\<lambda>(i, s). s\<lparr>sl_id := i\<rparr>) (enumerate n slips)) \<Longrightarrow>
    \<exists>i s. s \<in> set slips \<and> n \<le> i \<and> i < n + length slips \<and> s' = s\<lparr>sl_id := i\<rparr>"
proof -
  assume "s' \<in> set (map (\<lambda>(i, s). s\<lparr>sl_id := i\<rparr>) (enumerate n slips))"
  then obtain i s where "(i, s) \<in> set (enumerate n slips)" "s' = s\<lparr>sl_id := i\<rparr>" by auto
  moreover from this(1) have "n \<le> i" "i < n + length slips" "s = slips ! (i - n)" by (simp_all add: in_set_enumerate_eq)
  moreover from this have "s \<in> set slips" by simp
  ultimately show ?thesis by blast
qed

lemma good_write:
  assumes new: "\<And>s. s \<in> set slips \<Longrightarrow> sl_state s = SL_DRAFT \<and> sl_runId s = rid \<and> sl_periodId s = pid"
    and run: "payOk db \<Longrightarrow> \<exists>r \<in> set (pay_runs db). rn_id r = rid \<and> rn_periodId r = pid"
    and opened: "\<not> isShut (pay_periods db) pid"
  shows "good db (writeSlips db slips)"
proof -
  let ?new = "map (\<lambda>(i, s). s\<lparr>sl_id := i\<rparr>) (enumerate (pay_next db) slips)"
  have news: "pay_next db \<le> sl_id s' \<and> sl_id s' < pay_next db + length slips \<and> sl_state s' = SL_DRAFT
      \<and> sl_runId s' = rid \<and> sl_periodId s' = pid" if "s' \<in> set ?new" for s'
    using new_slip [OF that] new by auto
  have "payOk (writeSlips db slips)" if ok: "payOk db"
  proof -
    have "idsOk (pay_next db + length slips) (pay_periods db) (pay_runs db) (pay_slips db @ ?new)"
      using ok news unfolding payOk_def idsOk_def map_append map_map new_ids distinct_append set_append
      by (fastforce simp: trans_less_add1)
    moreover have "refsOk (pay_periods db) (pay_runs db) (pay_slips db @ ?new)"
      using ok news run [OF ok] unfolding payOk_def refsOk_def set_append by (metis Un_iff)
    moreover have "statesOk (pay_periods db) (pay_runs db) (pay_slips db @ ?new)"
      using ok news unfolding payOk_def statesOk_def set_append by (metis Un_iff)
    ultimately show ?thesis using ok by (simp add: payOk_def)
  qed
  moreover have "keeps k db (writeSlips db slips)" if "isShut (pay_periods db) k" for k
  proof -
    have "k \<noteq> pid" using that opened by blast
    then have "filter (\<lambda>s. sl_periodId s = k) ?new = []" using news unfolding filter_empty_conv by metis
    then show ?thesis by (simp add: keeps_def)
  qed
  ultimately show ?thesis by (simp add: goodBut_def runPeriod_def)
qed

lemma good_slips:
  assumes keep: "\<And>s. sl_id (f s) = sl_id s" "\<And>s. sl_runId (f s) = sl_runId s" "\<And>s. sl_periodId (f s) = sl_periodId s"
    and here: "\<And>s. payOk db \<Longrightarrow> s \<in> set (pay_slips db) \<Longrightarrow> P s \<Longrightarrow> but \<noteq> Some (sl_periodId s) \<Longrightarrow> figures (f s) = figures s"
    and issue: "\<And>s. payOk db \<Longrightarrow> s \<in> set (pay_slips db) \<Longrightarrow> P s \<Longrightarrow> sl_state (f s) \<noteq> SL_DRAFT \<Longrightarrow> sl_state s = SL_DRAFT \<Longrightarrow>
        isShut (pay_periods db) (sl_periodId s) \<and> (\<exists>r \<in> set (pay_runs db). rn_id r = sl_runId s \<and> rn_state r = RN_DONE)"
  shows "goodBut but db (db\<lparr>pay_slips := updateMany P f (pay_slips db)\<rparr>)"
proof -
  let ?ss = "updateMany P f (pay_slips db)"
  have "payOk (db\<lparr>pay_slips := ?ss\<rparr>)" if ok: "payOk db"
  proof -
    have ids: "map sl_id ?ss = map sl_id (pay_slips db)" by (rule updateMany_keys) (rule keep)
    have "idsOk (pay_next db) (pay_periods db) (pay_runs db) ?ss"
      using ok unfolding payOk_def idsOk_maps ids by blast
    moreover have "refsOk (pay_periods db) (pay_runs db) ?ss"
    proof -
      have kept: "sl_runId (if P s then f s else s) = sl_runId s" "sl_periodId (if P s then f s else s) = sl_periodId s" for s
        using keep by simp_all
      show ?thesis using ok unfolding payOk_def refsOk_def updateMany_bounded kept by blast
    qed
    moreover have "statesOk (pay_periods db) (pay_runs db) ?ss"
    proof -
      have "isShut (pay_periods db) (sl_periodId s) \<and> (\<exists>r \<in> set (pay_runs db). rn_id r = sl_runId s \<and> rn_state r = RN_DONE)"
        if "s \<in> set ?ss" "sl_state s \<noteq> SL_DRAFT" for s
      proof -
        from that(1) consider "s \<in> set (pay_slips db)" | o' where "o' \<in> set (pay_slips db)" "P o'" "s = f o'"
          by (auto simp: updateMany_mem)
        then show ?thesis
          using ok that(2) issue [OF ok] keep unfolding payOk_def statesOk_def by cases metis+
      qed
      then show ?thesis using ok unfolding payOk_def statesOk_def by blast
    qed
    ultimately show ?thesis using ok by (simp add: payOk_def)
  qed
  moreover have "keeps pid db (db\<lparr>pay_slips := ?ss\<rparr>)" if "payOk db" "but \<noteq> Some pid" for pid
  proof -
    have "map figures (filter (\<lambda>s. sl_periodId s = pid) (updateMany P f ss)) = map figures (filter (\<lambda>s. sl_periodId s = pid) ss)"
      if "set ss \<subseteq> set (pay_slips db)" for ss
      using that
    proof (induction ss)
      case (Cons s ss)
      then show ?case using here [OF \<open>payOk db\<close>, of s] \<open>but \<noteq> Some pid\<close> keep by auto
    qed simp
    then show ?thesis by (simp add: keeps_def)
  qed
  ultimately show ?thesis by (simp add: goodBut_def runPeriod_def)
qed

lemma isShut_updateMany:
  assumes "\<And>p. pp_id (f p) = pp_id p" "\<And>p. P p \<Longrightarrow> pp_state (f p) \<noteq> OPEN" "isShut ps pid"
  shows "isShut (updateMany P f ps) pid"
  using assms unfolding isShut_def updateMany_bounded by metis

lemma isShut_updateMany_back:
  assumes "\<And>p. pp_id (f p) = pp_id p" "isShut (updateMany P f ps) pid" "\<not> isShut ps pid"
  shows "\<exists>p \<in> set ps. P p \<and> pp_id p = pid"
  using assms unfolding isShut_def updateMany_bounded by metis

lemma good_close:
  assumes keep: "\<And>p. pp_id (f p) = pp_id p" "\<And>p. pp_entity (f p) = pp_entity p"
      "\<And>p. pp_year (f p) = pp_year p" "\<And>p. pp_month (f p) = pp_month p"
    and closed: "\<And>p. P p \<Longrightarrow> pp_state (f p) \<noteq> OPEN"
    and idle: "\<And>p r. payOk db \<Longrightarrow> p \<in> set (pay_periods db) \<Longrightarrow> P p \<Longrightarrow> r \<in> set (pay_runs db) \<Longrightarrow> rn_periodId r = pp_id p \<Longrightarrow>
        rn_state r \<noteq> RN_RUNNING"
  shows "good db (db\<lparr>pay_periods := updateMany P f (pay_periods db)\<rparr>)"
proof -
  let ?ps = "updateMany P f (pay_periods db)"
  have shut: "isShut ?ps pid" if "isShut (pay_periods db) pid" for pid
    using isShut_updateMany [where f = f, OF keep(1) closed that] .
  have "payOk (db\<lparr>pay_periods := ?ps\<rparr>)" if ok: "payOk db"
  proof -
    have ids: "map pp_id ?ps = map pp_id (pay_periods db)" by (rule updateMany_keys) (rule keep)
    have "idsOk (pay_next db) ?ps (pay_runs db) (pay_slips db)"
      using ok unfolding payOk_def idsOk_maps ids by blast
    moreover have "refsOk ?ps (pay_runs db) (pay_slips db)"
      using ok ids unfolding payOk_def refsOk_def by (metis (no_types, lifting) image_iff list.set_map)
    moreover have "statesOk ?ps (pay_runs db) (pay_slips db)"
    proof -
      have "\<not> isShut ?ps (rn_periodId r)" if "r \<in> set (pay_runs db)" "rn_state r = RN_RUNNING" for r
        using isShut_updateMany_back [where f = f, OF keep(1)] idle [OF ok] that ok
        unfolding payOk_def statesOk_def by metis
      then show ?thesis using ok shut unfolding payOk_def statesOk_def by blast
    qed
    moreover have "oneOpen ?ps"
    proof -
      have "pp_id p = pp_id q" if pq: "p \<in> set ?ps" "q \<in> set ?ps" "pp_entity p = pp_entity q"
        "pp_state p = OPEN \<and> pp_state q = OPEN \<or> pp_year p = pp_year q \<and> pp_month p = pp_month q" for p q
      proof -
        have "\<exists>x' \<in> set (pay_periods db). pp_id x' = pp_id x \<and> pp_entity x' = pp_entity x \<and> pp_year x' = pp_year x
            \<and> pp_month x' = pp_month x \<and> (pp_state x = OPEN \<longrightarrow> pp_state x' = OPEN)" if "x \<in> set ?ps" for x
          using that closed keep unfolding updateMany_mem by metis
        from this [OF pq(1)] this [OF pq(2)] pq(3,4) ok show ?thesis unfolding payOk_def oneOpen_def by metis
      qed
      then show ?thesis unfolding oneOpen_def by blast
    qed
    ultimately show ?thesis by (simp add: payOk_def)
  qed
  with shut show ?thesis by (simp add: goodBut_def keeps_def runPeriod_def)
qed

subsection \<open>What the pieces of the handlers change\<close>

lemma goodI: "(payOk a \<Longrightarrow> goodBut but a b) \<Longrightarrow> goodBut but a b"
  by (simp add: goodBut_def)

definition shape :: "PayDb \<Rightarrow> (nat \<times> nat) list" where
  "shape db = map (\<lambda>r. (rn_id r, rn_periodId r)) (pay_runs db)"

lemma openRun_shape: "openRun db rid \<longleftrightarrow> (\<forall>pid. (rid, pid) \<in> set (shape db) \<longrightarrow> \<not> isShut (pay_periods db) pid)"
  by (auto simp: openRun_def shape_def)

lemma runPeriod_shape: "runPeriod db rid pid \<longleftrightarrow> (rid, pid) \<in> set (shape db)"
  by (auto simp: runPeriod_def shape_def)

lemma shape_updateMany:
  "(\<And>r. rn_id (f r) = rn_id r) \<Longrightarrow> (\<And>r. rn_periodId (f r) = rn_periodId r) \<Longrightarrow>
     shape (db\<lparr>pay_runs := updateMany P f rs\<rparr>) = map (\<lambda>r. (rn_id r, rn_periodId r)) rs"
  unfolding shape_def by (simp add: updateMany_keys)

lemma setRun_fields [simp]:
  "pay_periods (setRun db rid f) = pay_periods db" "pay_slips (setRun db rid f) = pay_slips db"
  "pay_next (setRun db rid f) = pay_next db" "pay_advances (setRun db rid f) = pay_advances db"
  "pay_retros (setRun db rid f) = pay_retros db" "pay_books (setRun db rid f) = pay_books db"
  by (simp_all add: setRun_def)

lemma setRun_shape [simp]:
  "(\<And>r. rn_id (f r) = rn_id r) \<Longrightarrow> (\<And>r. rn_periodId (f r) = rn_periodId r) \<Longrightarrow> shape (setRun db rid f) = shape db"
  unfolding setRun_def by (simp add: shape_updateMany) (simp add: shape_def)

lemma writeSlips_shape [simp]: "shape (writeSlips db slips) = shape db"
  by (simp add: shape_def)

lemma clearSlips_fields [simp]:
  "pay_periods (clearSlips db rid) = pay_periods db" "pay_runs (clearSlips db rid) = pay_runs db"
  "pay_next (clearSlips db rid) = pay_next db" "shape (clearSlips db rid) = shape db"
  "pay_advances (clearSlips db rid) = pay_advances db" "pay_retros (clearSlips db rid) = pay_retros db"
  "pay_books (clearSlips db rid) = pay_books db"
  by (simp_all add: clearSlips_def shape_def)

lemma dropSlips_fields [simp]:
  "pay_periods (dropSlips db rids) = pay_periods db" "pay_runs (dropSlips db rids) = pay_runs db"
  "pay_next (dropSlips db rids) = pay_next db" "shape (dropSlips db rids) = shape db"
  "pay_slips (dropSlips db rids) = deleteMany (\<lambda>s. sl_runId s \<in> set rids) (pay_slips db)"
  "pay_retros (dropSlips db rids) = pay_retros db" "pay_books (dropSlips db rids) = pay_books db"
  by (simp_all add: dropSlips_def shape_def)

lemma markCarried_fields [simp]:
  "pay_periods (markCarried db rid pid rs avs) = pay_periods db" "pay_runs (markCarried db rid pid rs avs) = pay_runs db"
  "pay_slips (markCarried db rid pid rs avs) = pay_slips db" "pay_next (markCarried db rid pid rs avs) = pay_next db"
  "shape (markCarried db rid pid rs avs) = shape db"
  by (simp_all add: markCarried_def shape_def)

lemma BACK_TO_DRAFT_simps [simp]:
  "rn_id (BACK_TO_DRAFT r) = rn_id r" "rn_periodId (BACK_TO_DRAFT r) = rn_periodId r" "rn_kind (BACK_TO_DRAFT r) = rn_kind r"
  "rn_state (BACK_TO_DRAFT r) = RN_DRAFT"
  by (simp_all add: BACK_TO_DRAFT_def)

lemma staleOver_fields [simp]:
  "pay_periods (staleOver db pid kinds except) = pay_periods db" "shape (staleOver db pid kinds except) = shape db"
  "pay_next (staleOver db pid kinds except) = pay_next db"
  by (simp_all add: staleOver_def Let_def shape_updateMany) (simp add: shape_def)

lemma good_drop:
  assumes "\<And>rid. rid \<in> set rids \<Longrightarrow> openRun db rid"
  shows "good db (dropSlips db rids)"
proof -
  have "good db (db\<lparr>pay_slips := deleteMany (\<lambda>s. sl_runId s \<in> set rids) (pay_slips db)\<rparr>)"
  proof (rule good_delete)
    fix s
    assume "payOk db" "s \<in> set (pay_slips db)" "sl_runId s \<in> set rids"
    then show "\<not> isShut (pay_periods db) (sl_periodId s)" by (intro openRun_slip assms)
  qed
  then show ?thesis by (rule good_trans) (rule good_other; simp)
qed

lemma good_clear:
  assumes "openRun db rid"
  shows "good db (clearSlips db rid)"
  unfolding clearSlips_def
proof (rule good_delete)
  fix s
  assume "payOk db" "s \<in> set (pay_slips db)" "sl_runId s = rid"
  with assms show "\<not> isShut (pay_periods db) (sl_periodId s)" by (intro openRun_slip) auto
qed

lemma good_carried: "good db (markCarried db rid pid rs avs)"
  by (rule good_other) simp_all

lemma good_stale:
  assumes "\<not> isShut (pay_periods db) pid"
  shows "good db (staleOver db pid kinds except)"
proof (rule goodI)
  assume ok: "payOk db"
  let ?ids = "map rn_id (filter (\<lambda>r. rn_periodId r = pid \<and> rn_kind r \<in> kinds \<and> rn_state r = RN_DONE
                  \<and> except \<noteq> Some (rn_id r)) (pay_runs db))"
  have opened: "openRun db rid" if "rid \<in> set ?ids" for rid
    using that assms openRun_period [OF ok] by (auto simp: runPeriod_def)
  have 1: "good db (dropSlips db ?ids)" by (rule good_drop) (rule opened)
  have 2: "good (dropSlips db ?ids) ((dropSlips db ?ids)\<lparr>pay_runs := updateMany (\<lambda>r. rn_id r \<in> set ?ids) BACK_TO_DRAFT
             (pay_runs (dropSlips db ?ids))\<rparr>)"
    by (rule good_runs) (use opened in \<open>force simp: openRun_def\<close>)+
  from good_trans [OF 1 2] show "good db (staleOver db pid kinds except)"
    by (simp add: staleOver_def Let_def)
qed

lemma periodNamed_mem: "periodNamed db pid = Some p \<Longrightarrow> p \<in> set (pay_periods db) \<and> pp_id p = pid"
  unfolding periodNamed_def by (rule firstWhere_key)

lemma runNamed_mem: "runNamed db rid = Some r \<Longrightarrow> r \<in> set (pay_runs db) \<and> rn_id r = rid"
  unfolding runNamed_def by (rule firstWhere_key)

lemma isShut_named: "payOk db \<Longrightarrow> periodNamed db pid = Some p \<Longrightarrow> isShut (pay_periods db) pid \<longleftrightarrow> pp_state p \<noteq> OPEN"
  using periodNamed_mem unfolding payOk_def idsOk_def isShut_def by (metis distinct_map inj_onD)

lemma requireOpen_open:
  assumes "requireOpen db pid = Inr p" "payOk db"
  shows "\<not> isShut (pay_periods db) pid" "periodNamed db pid = Some p"
  using assms isShut_named [OF assms(2)] by (auto simp: requireOpen_def split: option.splits if_splits)

lemma runOf_Inr: "runOf db v rid = Inr (r, p) \<Longrightarrow> runNamed db rid = Some r \<and> periodNamed db (rn_periodId r) = Some p"
  by (auto simp: runOf_def split: option.splits if_splits)

lemma runOf_period: "runOf db v rid = Inr (r, p) \<Longrightarrow> runPeriod db rid (rn_periodId r)"
  using runOf_Inr runNamed_mem by (fastforce simp: runPeriod_def)

text \<open>A handler that read a run's period earlier finds the run still in it.\<close>

definition since :: "PayDb \<Rightarrow> PayDb \<Rightarrow> bool" where
  "since a b \<longleftrightarrow> payOk b \<and> (\<forall>rid pid. runPeriod a rid pid \<longrightarrow> runPeriod b rid pid)
     \<and> (\<forall>pid. isShut (pay_periods a) pid \<longrightarrow> isShut (pay_periods b) pid)"

lemma since_open: "since a b \<Longrightarrow> runPeriod a rid pid \<Longrightarrow> \<not> isShut (pay_periods b) pid \<Longrightarrow> openRun b rid"
  unfolding since_def using openRun_period by blast

subsection \<open>What the handlers change\<close>

lemma good_openPeriod:
  assumes "openPeriod db entity body = Inr d"
  shows "good db d"
proof -
  let ?p = "newPeriod db entity body"
  from assms have d: "d = db\<lparr>pay_periods := pay_periods db @ [?p], pay_next := pay_next db + 1\<rparr>"
    and free: "\<And>p. p \<in> set (pay_periods db) \<Longrightarrow> pp_entity p = entity \<Longrightarrow>
        monthIndex (pp_year p, pp_month p) \<noteq> monthIndex (cp_year body, cp_month body) \<and> pp_state p \<noteq> OPEN"
    by (auto simp: openPeriod_def Let_def)
  have new: "pp_id ?p = pay_next db" "pp_entity ?p = entity" "pp_state ?p = OPEN" "pp_year ?p = cp_year body"
    "pp_month ?p = cp_month body" by (simp_all add: newPeriod_def)
  have same: "isShut (pay_periods db @ [?p]) pid \<longleftrightarrow> isShut (pay_periods db) pid" for pid
    using new by (simp add: isShut_def)
  have "payOk d" if ok: "payOk db"
  proof -
    have "idsOk (pay_next db + 1) (pay_periods db @ [?p]) (pay_runs db) (pay_slips db)"
      using ok new unfolding payOk_def idsOk_def by fastforce
    moreover have "refsOk (pay_periods db @ [?p]) (pay_runs db) (pay_slips db)"
      using ok unfolding payOk_def refsOk_def by fastforce
    moreover have "statesOk (pay_periods db @ [?p]) (pay_runs db) (pay_slips db)"
      using ok unfolding payOk_def statesOk_def same by blast
    moreover have "oneOpen (pay_periods db @ [?p])"
    proof -
      have old: "oneOpen (pay_periods db)" using ok by (simp add: payOk_def)
      have clash: False if "q \<in> set (pay_periods db)" "pp_entity q = pp_entity ?p"
          "pp_state ?p = OPEN \<and> pp_state q = OPEN \<or> pp_year ?p = pp_year q \<and> pp_month ?p = pp_month q" for q
        using free [OF that(1)] that(2,3) unfolding new by metis
      have "pp_id p = pp_id q"
        if pq: "p \<in> set (pay_periods db @ [?p])" "q \<in> set (pay_periods db @ [?p])" "pp_entity p = pp_entity q"
          "pp_state p = OPEN \<and> pp_state q = OPEN \<or> pp_year p = pp_year q \<and> pp_month p = pp_month q" for p q
      proof (cases "p = ?p \<or> q = ?p")
        case True
        then consider "p = q" | "p = ?p" "q \<in> set (pay_periods db)" | "q = ?p" "p \<in> set (pay_periods db)"
          using pq(1,2) by auto
        then show ?thesis
        proof cases
          case 2
          with clash [of q] pq(3,4) show ?thesis by metis
        next
          case 3
          with clash [of p] pq(3,4) show ?thesis by metis
        qed simp
      next
        case False
        then have "p \<in> set (pay_periods db)" "q \<in> set (pay_periods db)" using pq by auto
        then show ?thesis using old pq(3,4) unfolding oneOpen_def by blast
      qed
      then show ?thesis unfolding oneOpen_def by blast
    qed
    ultimately show ?thesis by (simp add: payOk_def d)
  qed
  with same show ?thesis by (simp add: goodBut_def d keeps_def runPeriod_def)
qed

lemma good_newRun:
  assumes "rn_id r = pay_next db" "rn_state r = RN_DRAFT" "\<exists>p \<in> set (pay_periods db). pp_id p = rn_periodId r"
    "\<not> isShut (pay_periods db) (rn_periodId r)"
  shows "good db (db\<lparr>pay_runs := pay_runs db @ [r], pay_next := pay_next db + 1\<rparr>)"
proof -
  have "payOk (db\<lparr>pay_runs := pay_runs db @ [r], pay_next := pay_next db + 1\<rparr>)" if ok: "payOk db"
  proof -
    have "idsOk (pay_next db + 1) (pay_periods db) (pay_runs db @ [r]) (pay_slips db)"
      using ok assms unfolding payOk_def idsOk_def by fastforce
    moreover have "refsOk (pay_periods db) (pay_runs db @ [r]) (pay_slips db)"
      using ok assms unfolding payOk_def refsOk_def by fastforce
    moreover have "statesOk (pay_periods db) (pay_runs db @ [r]) (pay_slips db)"
    proof -
      have "statesOk (pay_periods db) (pay_runs db) (pay_slips db)" using ok by (simp add: payOk_def)
      moreover have "r' \<in> set (pay_runs db)" if "r' \<in> set (pay_runs db @ [r])" "rn_state r' = RN_RUNNING" for r'
        using that assms(2) by auto
      ultimately show ?thesis unfolding statesOk_def by (metis Un_iff set_append)
    qed
    ultimately show ?thesis using ok by (simp add: payOk_def)
  qed
  with assms show ?thesis by (auto simp: goodBut_def keeps_def runPeriod_def)
qed

lemma good_createRun:
  assumes "createRun db0 db v body = Inr d" "payOk db"
  shows "good db d"
proof -
  from assms obtain p where p: "requireOpen db (cn_periodId body) = Inr p"
    and d: "d = db\<lparr>pay_runs := pay_runs db @ [newRun db v body], pay_next := pay_next db + 1\<rparr>"
    by (auto simp: createRun_def bindR_eq_Inr)
  show ?thesis unfolding d
  proof (rule good_newRun)
    show "\<exists>q \<in> set (pay_periods db). pp_id q = rn_periodId (newRun db v body)"
      using periodNamed_mem [OF requireOpen_open(2) [OF p assms(2)]] by (auto simp: newRun_def)
    show "\<not> isShut (pay_periods db) (rn_periodId (newRun db v body))"
      using requireOpen_open(1) [OF p assms(2)] by (simp add: newRun_def)
  qed (simp_all add: newRun_def)
qed

lemma good_reload:
  assumes "reload db rid pid swap = Inr d" "payOk db" "runPeriod db rid pid"
    and swap: "\<And>db'. swap db = Inr db' \<Longrightarrow> pay_periods db' = pay_periods db \<and> pay_runs db' = pay_runs db
        \<and> pay_slips db' = pay_slips db \<and> pay_next db' = pay_next db"
  shows "good db d"
proof -
  from assms(1) obtain p run db1 where p: "requireOpen db pid = Inr p" and run: "runNamed db rid = Some run"
    and db1: "swap db = Inr db1" and d: "if rn_state run \<noteq> RN_DONE then d = db1
      else d = (dropSlips db1 [rid])\<lparr>pay_runs := updateMany (\<lambda>r. rn_id r = rid \<and> rn_state r = RN_DONE) BACK_TO_DRAFT
                  (pay_runs (dropSlips db1 [rid]))\<rparr>"
    by (auto simp: reload_def bindR_eq_Inr claimWhere_def Let_def simp del: dropSlips_fields split: if_splits)
  have 0: "good db db1" using swap [OF db1] by (intro good_other) auto
  have opened: "openRun db1 rid"
    using openRun_period [OF assms(2,3) requireOpen_open(1) [OF p assms(2)]] swap [OF db1] by (simp add: openRun_def)
  then have 1: "good db1 (dropSlips db1 [rid])" by (intro good_drop) simp
  have 2: "good (dropSlips db1 [rid]) ((dropSlips db1 [rid])\<lparr>pay_runs := updateMany
      (\<lambda>r. rn_id r = rid \<and> rn_state r = RN_DONE) BACK_TO_DRAFT (pay_runs (dropSlips db1 [rid]))\<rparr>)"
    by (rule good_runs) (use opened in \<open>simp_all add: openRun_def\<close>)
  show ?thesis using d 0 1 2 good_trans by (metis (no_types, lifting))
qed

lemma good_setBonus:
  assumes "setBonus db0 db v rid items = Inr (d, eff)" "since db0 db"
  shows "good db d"
proof -
  from assms(1) obtain run period where run: "runOf db0 v rid = Inr (run, period)"
    and d: "reload db rid (rn_periodId run) (swapBonus rid items) = Inr d"
    by (auto simp: setBonus_def bindR_eq_Inr split: prod.splits)
  have "runPeriod db rid (rn_periodId run)" using runOf_period [OF run] assms(2) by (simp add: since_def)
  then show ?thesis using assms(2)
    by (intro good_reload [OF d]) (auto simp: since_def swapBonus_def)
qed

lemma good_setSettlement:
  assumes "setSettlement db0 db v rid items = Inr (d, eff)" "since db0 db"
  shows "good db d"
proof -
  from assms(1) obtain run period where run: "runOf db0 v rid = Inr (run, period)"
    and d: "reload db rid (rn_periodId run) (swapSettlement rid items) = Inr d"
    by (auto simp: setSettlement_def bindR_eq_Inr split: prod.splits)
  have "runPeriod db rid (rn_periodId run)" using runOf_period [OF run] assms(2) by (simp add: since_def)
  then show ?thesis using assms(2)
    by (intro good_reload [OF d]) (auto simp: since_def swapSettlement_def)
qed

lemma good_commitDiscard:
  assumes "commitDiscard db rid pid = Inr d" "payOk db" "runPeriod db rid pid"
  shows "good db d"
proof -
  let ?g = "\<lambda>r. r\<lparr>rn_state := RN_DISCARDED, rn_failure := None, rn_doneCount := 0, rn_failedCount := 0,
              rn_grossTotal := 0, rn_netTotal := 0\<rparr>"
  from assms(1) obtain p held db1 where p: "requireOpen db pid = Inr p" and held: "runNamed db rid = Some held"
    and db1: "db1 = (if rn_kind held = REGULAR \<and> rn_state held = RN_DONE
                  then staleOver db (rn_periodId held) {REGULAR, BONUS, FINAL_SETTLEMENT} (Some rid) else db)"
    and d: "d = setRun (dropSlips db1 [rid]) rid ?g"
    by (auto simp: commitDiscard_def bindR_eq_Inr Let_def)
  have opened: "openRun db rid" by (rule openRun_period [OF assms(2,3) requireOpen_open(1) [OF p assms(2)]])
  then have "\<not> isShut (pay_periods db) (rn_periodId held)" using runNamed_mem [OF held] by (simp add: openRun_def)
  then have 0: "good db db1" unfolding db1 by (simp add: good_stale)
  have opened1: "openRun db1 rid" using opened unfolding db1 by (simp add: openRun_shape)
  then have 1: "good db1 (dropSlips db1 [rid])" by (intro good_drop) simp
  have 2: "good (dropSlips db1 [rid]) d" unfolding d
    by (rule good_setRun) (use opened1 in \<open>simp_all add: openRun_shape\<close>)
  show ?thesis using 0 1 2 good_trans by blast
qed

lemma good_discard:
  assumes "discard db0 db v rid = Inr (d, eff)" "since db0 db"
  shows "good db d"
proof -
  from assms(1) obtain run period where run: "runOf db0 v rid = Inr (run, period)"
    and d: "commitDiscard db rid (rn_periodId run) = Inr d"
    by (auto simp: discard_def bindR_eq_Inr split: prod.splits)
  show ?thesis using runOf_period [OF run] assms(2)
    by (intro good_commitDiscard [OF d]) (auto simp: since_def)
qed

lemma claimRun_good:
  assumes "claimRun now db rid pid = Inr (won, d)" "payOk db" "runPeriod db rid pid"
  shows "good db d" "openRun d rid"
proof -
  let ?f = "\<lambda>r. r\<lparr>rn_state := RN_RUNNING, rn_startedAt := Some now, rn_finishedAt := None,
              rn_doneCount := 0, rn_failedCount := 0, rn_failure := None\<rparr>"
  from assms(1) obtain p where p: "requireOpen db pid = Inr p"
    and d: "d = db \<or> d = setRun db rid ?f \<and> (\<forall>r \<in> set (pay_runs db). rn_periodId r = pid \<longrightarrow> rn_state r \<noteq> RN_RUNNING)"
    by (auto simp: claimRun_def bindR_eq_Inr split: if_splits)
  have opened: "openRun db rid" by (rule openRun_period [OF assms(2,3) requireOpen_open(1) [OF p assms(2)]])
  have here: "rn_periodId r = pid" if "r \<in> set (pay_runs db)" "rn_id r = rid" for r
    using that assms(2,3) unfolding payOk_def idsOk_def runPeriod_def by (metis distinct_map inj_onD)
  have "good db (setRun db rid ?f)" if "\<forall>r \<in> set (pay_runs db). rn_periodId r = pid \<longrightarrow> rn_state r \<noteq> RN_RUNNING"
    by (rule good_setRun) (use that opened here in auto)
  with d show "good db d" by auto
  from d opened show "openRun d rid" by (auto simp: openRun_shape)
qed

lemma execute_cases:
  assumes "execute now queueUp db0 db v rid = (d, res)"
  obtains "d = db" | run period db2 where "runOf db0 v rid = Inr (run, period)"
    "claimRun now db rid (rn_periodId run) = Inr (True, db2)"
    "d = (if queueUp then db2 else setRun db2 rid (\<lambda>r. r\<lparr>rn_state := RN_FAILED, rn_finishedAt := Some now\<rparr>))"
  using assms that unfolding execute_def requireRunnable_def
  by (fastforce simp: bindR_eq_Inr split: sum.splits prod.splits if_splits)

lemma good_execute:
  assumes "execute now queueUp db0 db v rid = (d, res)" "since db0 db"
  shows "good db d"
  using assms(1)
proof (cases rule: execute_cases)
  case (2 run period db2)
  have "payOk db" "runPeriod db rid (rn_periodId run)"
    using runOf_period [OF 2(1)] assms(2) by (simp_all add: since_def)
  from claimRun_good [OF 2(2) this] have "good db db2" "openRun db2 rid" by simp_all
  moreover from this(2) have "good db2 (setRun db2 rid (\<lambda>r. r\<lparr>rn_state := RN_FAILED, rn_finishedAt := Some now\<rparr>))"
    by (intro good_setRun) simp_all
  ultimately show ?thesis unfolding 2(3) using good_trans by auto
qed simp

text \<open>The worker, on a run that is going.\<close>

definition going :: "PayDb \<Rightarrow> nat \<Rightarrow> bool" where
  "going db rid \<longleftrightarrow> (\<exists>r. runNamed db rid = Some r \<and> rn_state r = RN_RUNNING)"

lemma going_open: "payOk db \<Longrightarrow> going db rid \<Longrightarrow> openRun db rid"
  using runNamed_mem openRun_period unfolding going_def payOk_def statesOk_def runPeriod_def
  by (metis idsOk_def openRun_def distinct_map inj_onD)

lemma going_alone:
  "payOk db \<Longrightarrow> going db rid \<Longrightarrow> r \<in> set (pay_runs db) \<Longrightarrow> rn_id r = rid \<Longrightarrow> r' \<in> set (pay_runs db) \<Longrightarrow>
     rn_state r' = RN_RUNNING \<Longrightarrow> rn_periodId r' = rn_periodId r \<Longrightarrow> rn_id r' = rid"
  using runNamed_mem unfolding going_def payOk_def statesOk_def idsOk_def
  by (metis distinct_map inj_onD)

lemma bonusSlip_simps [simp]:
  "sl_state (bonusSlip rid pid pol base n own e) = SL_DRAFT" "sl_runId (bonusSlip rid pid pol base n own e) = rid"
  "sl_periodId (bonusSlip rid pid pol base n own e) = pid" "sl_employeeId (bonusSlip rid pid pol base n own e) = e"
  by (simp_all add: bonusSlip_def blankSlip_def Let_def)

lemma settlementSlip_simps:
  "settlementSlip rid pid pol base n u one own = Some s \<Longrightarrow>
     sl_state s = SL_DRAFT \<and> sl_runId s = rid \<and> sl_periodId s = pid \<and> sl_employeeId s = lr_id one"
  by (auto simp: settlementSlip_def blankSlip_def Let_def split: prod.splits if_splits)

lemma regularChunks_slips:
  assumes "s \<in> set (ch_slips (regularChunks db run p policyOf ids))"
  shows "sl_state s = SL_DRAFT \<and> sl_runId s = rn_id run \<and> sl_periodId s = pp_id p"
proof -
  have "0 < kChunk" by (simp add: kChunk_def)
  from assms [unfolded regularChunks_def runChunks_slips [OF this] in_map_filter]
  show ?thesis by (auto elim!: slipOf_Some)
qed

lemma runBonus_Inr:
  assumes "runBonus now db run p = Inr d"
  obtains slips n where "d = extraFinish now db (rn_id run) slips n"
    "\<And>s. s \<in> set slips \<Longrightarrow> sl_state s = SL_DRAFT \<and> sl_runId s = rn_id run \<and> sl_periodId s = pp_id p"
proof -
  let ?items = "bonusItemsOf (pay_bonus db) (rn_id run)"
  let ?slips = "\<lambda>policyOf. map (\<lambda>e. bonusSlip (rn_id run) (pp_id p) (the (policyOf e))
      (the (taxBases db (pp_id p) (rn_id run) e)) (dependentsOf (pay_books db) e (pp_endDate p))
      (filter (\<lambda>i. bi_employeeId i = e) ?items) e) (firsts (map bi_employeeId ?items))"
  from assms obtain policyOf where
    "d = extraFinish now db (rn_id run) (?slips policyOf) (int (length (firsts (map bi_employeeId ?items))))"
    by (auto simp: runBonus_def bindR_eq_Inr Let_def)
  then show thesis by (rule that) auto
qed

lemma runSettlement_Inr:
  assumes "runSettlement now db run p = Inr d"
  obtains slips n where "d = extraFinish now db (rn_id run) slips n"
    "\<And>s. s \<in> set slips \<Longrightarrow> sl_state s = SL_DRAFT \<and> sl_runId s = rn_id run \<and> sl_periodId s = pp_id p"
proof -
  let ?slip = "\<lambda>policyOf one. case taxBases db (pp_id p) (rn_id run) (lr_id one) of
      None \<Rightarrow> None
    | Some base \<Rightarrow> settlementSlip (rn_id run) (pp_id p) (the (policyOf (lr_id one))) base
        (dependentsOf (pay_books db) (lr_id one) (pp_endDate p))
        (unusedHundredths (pay_books db) (lr_id one) (pp_year p)) one
        (filter (\<lambda>i. si_employeeId i = lr_id one) (settlementItemsOf (pay_settlement db) (rn_id run)))"
  from assms obtain policyOf where
    "d = extraFinish now db (rn_id run) (List.map_filter (?slip policyOf) (leavers db p)) (int (length (leavers db p)))"
    by (auto simp: runSettlement_def bindR_eq_Inr Let_def)
  then show thesis
    by (rule that) (auto simp: in_map_filter dest: settlementSlip_simps split: option.splits)
qed

lemma good_regularStart:
  assumes "payOk db" "going db rid"
  shows "good db (regularStart now db rid n)"
proof -
  let ?f = "\<lambda>r. r\<lparr>rn_state := RN_RUNNING, rn_startedAt := Some now, rn_employeeCount := n,
              rn_doneCount := 0, rn_failedCount := 0, rn_failure := None\<rparr>"
  have "good db (setRun db rid ?f)"
  proof (rule good_setRun)
    show "openRun db rid" by (rule going_open [OF assms])
    fix r r'
    assume "r \<in> set (pay_runs db)" "rn_id r = rid" "r' \<in> set (pay_runs db)" "rn_state r' = RN_RUNNING"
      "rn_periodId r' = rn_periodId r"
    then show "rn_id r' = rid" by (rule going_alone [OF assms])
  qed simp_all
  moreover have "good (setRun db rid ?f) (clearSlips (setRun db rid ?f) rid)"
    by (rule good_clear) (use going_open [OF assms] in \<open>simp add: openRun_shape\<close>)
  ultimately show ?thesis unfolding regularStart_def using good_trans by blast
qed

lemma regularStart_fields [simp]:
  "pay_periods (regularStart now db rid n) = pay_periods db" "shape (regularStart now db rid n) = shape db"
  "pay_next (regularStart now db rid n) = pay_next db" "pay_advances (regularStart now db rid n) = pay_advances db"
  by (simp_all add: regularStart_def)

lemma good_written:
  assumes ok: "payOk db" "going db rid" "runPeriod db rid pid"
    and new: "\<And>s. s \<in> set slips \<Longrightarrow> sl_state s = SL_DRAFT \<and> sl_runId s = rid \<and> sl_periodId s = pid"
    and from_db: "good db db'" "pay_periods db' = pay_periods db" "shape db' = shape db"
  shows "good db (writeSlips db' slips)"
proof -
  have "good db' (writeSlips db' slips)"
  proof (rule good_write [OF new])
    show "\<exists>r \<in> set (pay_runs db'). rn_id r = rid \<and> rn_periodId r = pid"
      using ok(3) from_db(3) by (metis runPeriod_def runPeriod_shape)
    show "\<not> isShut (pay_periods db') pid"
      using going_open [OF ok(1,2)] ok(3) from_db(2) by (auto simp: openRun_shape runPeriod_shape)
  qed
  with from_db(1) show ?thesis by (rule good_trans)
qed

lemma good_regularFinish:
  assumes "openRun db rid" "\<not> isShut (pay_periods db) pid"
  shows "good db (regularFinish now db rid pid r n)"
proof -
  let ?a = "markCarried db rid pid (ch_retroIds r) (ch_advanceIds r)"
  let ?b = "staleOver ?a pid {BONUS, FINAL_SETTLEMENT} None"
  have "good db ?a" by (rule good_carried)
  moreover have "good ?a ?b" by (rule good_stale) (use assms in simp)
  moreover have "good ?b (regularFinish now db rid pid r n)" unfolding regularFinish_def
    by (rule good_setRun) (use assms in \<open>simp_all add: openRun_shape\<close>)
  ultimately show ?thesis using good_trans by blast
qed

lemma good_extraFinish:
  assumes ok: "payOk db" "going db rid" "runPeriod db rid pid"
    and new: "\<And>s. s \<in> set slips \<Longrightarrow> sl_state s = SL_DRAFT \<and> sl_runId s = rid \<and> sl_periodId s = pid"
  shows "good db (extraFinish now db rid slips n)"
proof -
  have "good db (writeSlips (clearSlips db rid) slips)"
    by (rule good_written [OF ok new]) (simp_all add: good_clear going_open ok)
  moreover have "good (writeSlips (clearSlips db rid) slips) (extraFinish now db rid slips n)"
    unfolding extraFinish_def by (rule good_setRun) (use going_open [OF ok(1,2)] in \<open>simp_all add: openRun_shape\<close>)
  ultimately show ?thesis by (rule good_trans)
qed

lemma good_compute:
  assumes "computeRun now db rid = Inr d" "payOk db" "going db rid"
  shows "good db d"
proof -
  from assms(3) obtain run where run: "runNamed db rid = Some run" by (auto simp: going_def)
  then have rid: "rn_id run = rid" and rp: "runPeriod db rid (rn_periodId run)"
    using runNamed_mem [OF run] by (auto simp: runPeriod_def)
  have opened: "openRun db rid" by (rule going_open [OF assms(2,3)])
  with rp have notShut: "\<not> isShut (pay_periods db) (rn_periodId run)" by (auto simp: openRun_shape runPeriod_shape)
  from assms(1) run obtain p where p: "periodNamed db (rn_periodId run) = Some p"
    by (auto simp: computeRun_def split: option.splits)
  have pid: "pp_id p = rn_periodId run" and "pp_state p = OPEN"
    using periodNamed_mem [OF p] isShut_named [OF assms(2) p] notShut by auto
  with assms(1) run p consider
      "rn_kind run = REGULAR" "runRegular now db run p = Inr d"
    | "rn_kind run = BONUS" "runBonus now db run p = Inr d"
    | "rn_kind run = FINAL_SETTLEMENT" "runSettlement now db run p = Inr d"
    by (cases "rn_kind run") (auto simp: computeRun_def)
  then show ?thesis
  proof cases
    case 1
    then obtain policyOf where d: "d = (let ids = map fst (priced db run p); r = regularChunks db run p policyOf ids;
        db1 = writeSlips (regularStart now db rid (int (length ids))) (ch_slips r)
      in regularFinish now db1 rid (pp_id p) r (int (length ids)))"
      by (auto simp: runRegular_def bindR_eq_Inr Let_def rid)
    let ?ids = "map fst (priced db run p)"
    let ?r = "regularChunks db run p policyOf ?ids"
    let ?db1 = "writeSlips (regularStart now db rid (int (length ?ids))) (ch_slips ?r)"
    have "good db ?db1"
      by (rule good_written [OF assms(2,3) rp])
        (use regularChunks_slips good_regularStart [OF assms(2,3)] in \<open>auto simp: rid pid\<close>)
    moreover have "good ?db1 (regularFinish now ?db1 rid (pp_id p) ?r (int (length ?ids)))"
      by (rule good_regularFinish) (use opened notShut in \<open>simp_all add: openRun_shape pid\<close>)
    ultimately show ?thesis unfolding d Let_def by (rule good_trans)
  next
    case 2
    from runBonus_Inr [OF 2(2)] obtain slips n where d: "d = extraFinish now db rid slips n"
      and "\<And>s. s \<in> set slips \<Longrightarrow> sl_state s = SL_DRAFT \<and> sl_runId s = rid \<and> sl_periodId s = pp_id p"
      unfolding rid by blast
    then show ?thesis unfolding d by (intro good_extraFinish [OF assms(2,3) rp]) (simp_all add: pid)
  next
    case 3
    from runSettlement_Inr [OF 3(2)] obtain slips n where d: "d = extraFinish now db rid slips n"
      and "\<And>s. s \<in> set slips \<Longrightarrow> sl_state s = SL_DRAFT \<and> sl_runId s = rid \<and> sl_periodId s = pp_id p"
      unfolding rid by blast
    then show ?thesis unfolding d by (intro good_extraFinish [OF assms(2,3) rp]) (simp_all add: pid)
  qed
qed

lemma good_failRun: "openRun db rid \<Longrightarrow> good db (failRun now db rid why)"
  unfolding failRun_def by (rule good_setRun) simp_all

lemma good_deliverRun:
  assumes "payOk db" "going db rid"
  shows "good db (deliverRun now made attempts db rid)"
  using good_compute [OF _ assms, of now] good_failRun [OF going_open [OF assms]]
  by (auto simp: deliverRun_def split: sum.splits option.splits)

lemma good_brokenRegular:
  assumes "payOk db" "runNamed db rid = Some run" "rn_state run = RN_RUNNING" "periodNamed db (rn_periodId run) = Some p"
  shows "good db (brokenRegular now db run p policyOf n)"
proof -
  have rid: "rn_id run = rid" and rp: "runPeriod db rid (rn_periodId run)"
    using runNamed_mem [OF assms(2)] by (auto simp: runPeriod_def)
  have going: "going db rid" using assms(2,3) by (simp add: going_def)
  have pid: "pp_id p = rn_periodId run" using periodNamed_mem [OF assms(4)] by simp
  let ?ids = "map fst (priced db run p)"
  let ?r = "regularChunks db run p policyOf (take (n * kChunk) ?ids)"
  let ?db1 = "writeSlips (regularStart now db rid (int (length ?ids))) (ch_slips ?r)"
  have "good db ?db1"
    by (rule good_written [OF assms(1) going rp])
      (use regularChunks_slips good_regularStart [OF assms(1) going] in \<open>auto simp: rid pid\<close>)
  moreover have "good ?db1 (setRun ?db1 rid (\<lambda>run. run\<lparr>rn_doneCount := ch_done ?r\<rparr>))"
  proof (rule goodI)
    assume ok: "payOk ?db1"
    have opened: "openRun ?db1 rid" using going_open [OF assms(1) going] by (simp add: openRun_shape)
    have "rn_id r' = rn_id r"
      if "r \<in> set (pay_runs ?db1)" "rn_state r = RN_RUNNING" "r' \<in> set (pay_runs ?db1)" "rn_state r' = RN_RUNNING"
        "rn_periodId r' = rn_periodId r" for r r'
      using that ok unfolding payOk_def statesOk_def by blast
    then have alone: "rn_id r' = rid"
      if "r \<in> set (pay_runs ?db1)" "rn_id r = rid" "rn_state r = RN_RUNNING" "r' \<in> set (pay_runs ?db1)" "rn_state r' = RN_RUNNING"
        "rn_periodId r' = rn_periodId r" for r r' using that by metis
    show "good ?db1 (setRun ?db1 rid (\<lambda>run. run\<lparr>rn_doneCount := ch_done ?r\<rparr>))"
    proof (rule good_setRun)
      fix r r'
      assume a: "r \<in> set (pay_runs ?db1)" "rn_id r = rid" "rn_state (r\<lparr>rn_doneCount := ch_done ?r\<rparr>) = RN_RUNNING"
        "r' \<in> set (pay_runs ?db1)" "rn_state r' = RN_RUNNING" "rn_periodId r' = rn_periodId r"
      show "rn_id r' = rid" by (rule alone [OF a(1,2) _ a(4-6)]) (use a(3) in simp)
    qed (rule opened | simp)+
  qed
  ultimately show ?thesis unfolding brokenRegular_def Let_def rid by (rule good_trans)
qed

subsection \<open>What the lock changes\<close>

lemma chosen_done:
  assumes "chosen db pid s"
  shows "sl_periodId s = pid \<and> (\<exists>r \<in> set (pay_runs db). rn_id r = sl_runId s \<and> rn_state r = RN_DONE)"
proof -
  from assms obtain kind where "s \<in> fst ` set (doneSlips db pid kind)"
    unfolding chosen_def newestSlip_def using newest_mem by fastforce
  then show ?thesis
    using runNamed_mem by (fastforce simp: doneSlips_def in_map_filter split: option.splits if_splits)
qed

lemma copyBanks_fields [simp]:
  "pay_periods (copyBanks pid db) = pay_periods db" "pay_runs (copyBanks pid db) = pay_runs db"
  "pay_next (copyBanks pid db) = pay_next db" "pay_advances (copyBanks pid db) = pay_advances db"
  by (simp_all add: copyBanks_def)

lemma lock_tables [simp]:
  "pay_periods (applyRetros pid db) = pay_periods db" "pay_runs (applyRetros pid db) = pay_runs db"
  "pay_slips (applyRetros pid db) = pay_slips db" "pay_next (applyRetros pid db) = pay_next db"
  "pay_advances (applyRetros pid db) = pay_advances db"
  "pay_periods (insertCarries pid db) = pay_periods db" "pay_runs (insertCarries pid db) = pay_runs db"
  "pay_slips (insertCarries pid db) = pay_slips db" "pay_advances (insertCarries pid db) = pay_advances db"
  "pay_periods (settleAdvances now pid db) = pay_periods db" "pay_runs (settleAdvances now pid db) = pay_runs db"
  "pay_slips (settleAdvances now pid db) = pay_slips db" "pay_next (settleAdvances now pid db) = pay_next db"
  by (simp_all add: applyRetros_def insertCarries_def settleAdvances_def)

lemma settled_none_running:
  assumes "requireRunsSettled db pid = Inr ()" "r \<in> set (pay_runs db)" "rn_periodId r = pid"
  shows "rn_state r \<noteq> RN_RUNNING"
  using assms by (auto simp: requireRunsSettled_def Let_def)

lemma commitLock_Inr:
  assumes "commitLock now db v pid note = Inr d"
  obtains p db1 where "periodNamed db pid = Some p" "requireRunsSettled db pid = Inr ()"
    "\<exists>p \<in> set (pay_periods db). pp_id p = pid \<and> pp_state p = OPEN"
    "db1 = db\<lparr>pay_periods := updateMany (\<lambda>p. pp_id p = pid \<and> pp_state p = OPEN)
       (\<lambda>p. p\<lparr>pp_state := LOCKED, pp_lockedAt := Some now, pp_lockedById := Some (v_userId v), pp_lockNote := trimmed note\<rparr>)
       (pay_periods db)\<rparr>"
    "d = settleAdvances now pid (insertCarries pid (applyRetros pid (copyBanks pid (issueSlips now pid db1))))"
proof -
  from assms have some: "filter (\<lambda>p. pp_id p = pid \<and> pp_state p = OPEN) (pay_periods db) \<noteq> []"
    and rest: "requireRunsSettled db pid = Inr ()"
      "d = settleAdvances now pid (insertCarries pid (applyRetros pid (copyBanks pid (issueSlips now pid
        (snd (shutPeriod now db v pid note))))))"
    by (auto simp: commitLock_def bindR_eq_Inr Let_def shutPeriod_def claimWhere_def)
  from some have ex: "\<exists>p \<in> set (pay_periods db). pp_id p = pid \<and> pp_state p = OPEN" by (auto simp: filter_empty_conv)
  then have "periodNamed db pid \<noteq> None" unfolding periodNamed_def firstWhere_none by blast
  then show thesis using that rest ex by (auto simp: shutPeriod_def claimWhere_def)
qed

lemma good_commitLock:
  assumes "commitLock now db v pid note = Inr d" "payOk db"
  shows "good db d"
proof -
  from assms(1) obtain p db1 where settled: "requireRunsSettled db pid = Inr ()"
    and opened: "\<exists>p \<in> set (pay_periods db). pp_id p = pid \<and> pp_state p = OPEN"
    and db1: "db1 = db\<lparr>pay_periods := updateMany (\<lambda>p. pp_id p = pid \<and> pp_state p = OPEN)
       (\<lambda>p. p\<lparr>pp_state := LOCKED, pp_lockedAt := Some now, pp_lockedById := Some (v_userId v), pp_lockNote := trimmed note\<rparr>)
       (pay_periods db)\<rparr>"
    and d: "d = settleAdvances now pid (insertCarries pid (applyRetros pid (copyBanks pid (issueSlips now pid db1))))"
    by (rule commitLock_Inr)
  have notShut: "\<not> isShut (pay_periods db) pid"
    using opened assms(2) unfolding payOk_def idsOk_def isShut_def by (metis distinct_map inj_onD)
  have shut1: "isShut (pay_periods db1) pid" using opened by (auto simp: db1 isShut_def updateMany_bounded)
  have 0: "good db db1" unfolding db1
    by (rule good_close) (use settled_none_running [OF settled] in auto)
  have 1: "goodBut (Some pid) db1 (issueSlips now pid db1)" unfolding issueSlips_def
    by (rule good_slips) (use chosen_done shut1 in \<open>auto simp: figures_def\<close>)
  have 2: "goodBut (Some pid) (issueSlips now pid db1) (copyBanks pid (issueSlips now pid db1))" unfolding copyBanks_def
    by (rule good_slips) (auto simp: issued_def Let_def)
  have 3: "good (copyBanks pid (issueSlips now pid db1)) d" unfolding d
    by (rule good_other) (simp_all add: insertCarries_def)
  have "goodBut (Some pid) db d"
    using good_trans [OF good_weaken [OF 0] good_trans [OF 1 good_trans [OF 2 good_weaken [OF 3]]]] .
  then show ?thesis using notShut by (rule good_opened)
qed

lemma good_lock:
  assumes "lock today now db0 db v pid acceptOpen note = Inr (d, eff)" "payOk db"
  shows "good db d"
proof -
  from assms(1) have "commitLock now db v pid note = Inr d"
    by (auto simp: lock_def bindR_eq_Inr Let_def)
  then show ?thesis using assms(2) by (rule good_commitLock)
qed

lemma markPaid_Inr:
  assumes "markPaid now db0 db v pid = Inr (d, eff)"
  shows "d = db\<lparr>pay_periods := updateMany (\<lambda>p. pp_id p = pid) (\<lambda>p. p\<lparr>pp_state := PAID, pp_paidAt := Some now\<rparr>) (pay_periods db)\<rparr>"
    "isShut (pay_periods db0) pid"
proof -
  from assms obtain p where "periodOf db0 v pid = Inr p" "pp_state p = LOCKED"
    and d: "d = db\<lparr>pay_periods := updateMany (\<lambda>p. pp_id p = pid) (\<lambda>p. p\<lparr>pp_state := PAID, pp_paidAt := Some now\<rparr>) (pay_periods db)\<rparr>"
    by (auto simp: markPaid_def bindR_eq_Inr)
  then have "periodNamed db0 pid = Some p" "pp_state p = LOCKED"
    by (auto simp: periodOf_def requirePeriod_def bindR_eq_Inr)
  then show "isShut (pay_periods db0) pid" using periodNamed_mem by (fastforce simp: isShut_def)
  from d show "d = db\<lparr>pay_periods := updateMany (\<lambda>p. pp_id p = pid) (\<lambda>p. p\<lparr>pp_state := PAID, pp_paidAt := Some now\<rparr>) (pay_periods db)\<rparr>" .
qed

lemma good_markPaid:
  assumes "markPaid now db0 db v pid = Inr (d, eff)" "since db0 db"
  shows "good db d"
proof -
  have "isShut (pay_periods db) pid" using markPaid_Inr(2) [OF assms(1)] assms(2) by (simp add: since_def)
  then show ?thesis unfolding markPaid_Inr(1) [OF assms(1)]
    by (intro good_close) (auto simp: payOk_def statesOk_def)
qed

lemma good_payslip:
  assumes "payslip now staff db v i = Inr (d, s, eff)"
  shows "good db d"
proof -
  from assms obtain q where q: "q \<in> set (pay_slips db)" "sl_id q = i" and
    d: "d = db \<or> sl_state q \<noteq> SL_DRAFT
      \<and> d = db\<lparr>pay_slips := updateMany (\<lambda>s. sl_id s = i) (\<lambda>s. s\<lparr>sl_state := SL_VIEWED, sl_viewedAt := Some now\<rparr>) (pay_slips db)\<rparr>"
    by (auto simp: payslip_def bindR_eq_Inr Let_def dest!: find_mem split: if_splits)
  have "good db (db\<lparr>pay_slips := updateMany (\<lambda>s. sl_id s = i) (\<lambda>s. s\<lparr>sl_state := SL_VIEWED, sl_viewedAt := Some now\<rparr>) (pay_slips db)\<rparr>)"
    if issued: "sl_state q \<noteq> SL_DRAFT"
  proof (rule good_slips)
    fix s
    assume "payOk db" "s \<in> set (pay_slips db)" "sl_id s = i"
    then have "s = q" using q unfolding payOk_def idsOk_def by (metis distinct_map inj_onD)
    then show "figures (s\<lparr>sl_state := SL_VIEWED, sl_viewedAt := Some now\<rparr>) = figures s" using issued by (simp add: figures_def)
    show "isShut (pay_periods db) (sl_periodId s) \<and> (\<exists>r \<in> set (pay_runs db). rn_id r = sl_runId s \<and> rn_state r = RN_DONE)"
      if "sl_state s = SL_DRAFT" using that \<open>s = q\<close> issued by simp
  qed simp_all
  with d show ?thesis by auto
qed

lemma good_markSent: "good db (markSent now db i)"
proof -
  let ?f = "\<lambda>s. s\<lparr>sl_sentAt := Some now\<rparr>"
  let ?db = "db\<lparr>pay_slips := updateMany (\<lambda>s. sl_id s = i \<and> sl_sentAt s = None) ?f (pay_slips db)\<rparr>"
  have "good db ?db" by (rule good_slips) (simp_all add: figures_def)
  moreover have "good ?db (?db\<lparr>pay_slips := updateMany (\<lambda>s. sl_id s = i \<and> sl_state s = SL_ISSUED)
      (\<lambda>s. s\<lparr>sl_state := SL_SENT\<rparr>) (pay_slips ?db)\<rparr>)"
    by (rule good_slips) (simp_all add: figures_def)
  ultimately have "good db (?db\<lparr>pay_slips := updateMany (\<lambda>s. sl_id s = i \<and> sl_state s = SL_ISSUED)
      (\<lambda>s. s\<lparr>sl_state := SL_SENT\<rparr>) (pay_slips ?db)\<rparr>)" by (rule good_trans)
  then show ?thesis by (simp add: markSent_def)
qed

lemma claims_tables:
  "submitAdvance now db v amount reason = Inr (d, eff) \<Longrightarrow> good db d"
  "decideAdvance now db0 db v i approve note = Inr (d, eff) \<Longrightarrow> good db d"
  "payAdvance now db0 db v i = Inr (d, eff) \<Longrightarrow> good db d"
  "cancelAdvance db0 db v i = Inr (d, eff) \<Longrightarrow> good db d"
  "raiseDispute now n db0 db v sid lineCode complaint = Inr (d, eff) \<Longrightarrow> good db d"
  "answerDispute now db0 db v i body = Inr (d, eff) \<Longrightarrow> good db d"
  "withdrawDispute db0 db v i = Inr (d, eff) \<Longrightarrow> good db d"
proof -
  have "good db d" if "commitAnswer now db v held pid body = Inr d" for held pid
    using that by (auto simp: commitAnswer_def claimWhere_def Let_def split: DisputeOutcome.splits option.splits intro!: good_other)
  then show "answerDispute now db0 db v i body = Inr (d, eff) \<Longrightarrow> good db d"
    by (auto simp: answerDispute_def bindR_eq_Inr)
qed (auto simp: submitAdvance_def decideAdvance_def payAdvance_def cancelAdvance_def claimAdvance_def raiseDispute_def
      withdrawDispute_def claimWhere_def bindR_eq_Inr Let_def intro!: good_other)

subsection \<open>The steps together\<close>

text \<open>\<open>payStep b c d\<close>: one write, by a handler whose checks read \<open>b\<close>, turns \<open>c\<close> into \<open>d\<close>. The other
  services write the tables the runs only read, and the entities.\<close>

inductive payStep :: "PayDb \<Rightarrow> PayDb \<Rightarrow> PayDb \<Rightarrow> bool" where
  period_opened: "createPeriod today b c v dto = Inr d \<Longrightarrow> payStep b c d"
| run_made: "createRun b c v run = Inr d \<Longrightarrow> payStep b c d"
| bonus_set: "setBonus b c v rid items = Inr (d, eff) \<Longrightarrow> payStep b c d"
| settlement_set: "setSettlement b c v rid typed = Inr (d, eff) \<Longrightarrow> payStep b c d"
| run_dropped: "discard b c v rid = Inr (d, eff) \<Longrightarrow> payStep b c d"
| run_pressed: "execute now queueUp b c v rid = (d, res) \<Longrightarrow> payStep b c d"
| run_worked: "going c rid \<Longrightarrow> payStep b c (deliverRun now made attempts c rid)"
| run_broke: "runNamed c rid = Some r \<Longrightarrow> rn_state r = RN_RUNNING \<Longrightarrow> rn_kind r = REGULAR \<Longrightarrow>
    periodNamed c (rn_periodId r) = Some p \<Longrightarrow> policiesFor (pay_books c) (pp_endDate p) (priced c r p) = Inr policyOf \<Longrightarrow>
    payStep b c (brokenRegular now c r p policyOf n)"
| period_locked: "lock today now b c v pid accept note = Inr (d, eff) \<Longrightarrow> payStep b c d"
| period_paid: "markPaid now b c v pid = Inr (d, eff) \<Longrightarrow> payStep b c d"
| slip_opened: "payslip now staff c v i = Inr (d, s, eff) \<Longrightarrow> payStep b c d"
| slip_sent: "payStep b c (markSent now c i)"
| advance_asked: "submitAdvance now c v amount reason = Inr (d, eff) \<Longrightarrow> payStep b c d"
| advance_decided: "decideAdvance now b c v i approve note = Inr (d, eff) \<Longrightarrow> payStep b c d"
| advance_paid: "payAdvance now b c v i = Inr (d, eff) \<Longrightarrow> payStep b c d"
| advance_cancelled: "cancelAdvance b c v i = Inr (d, eff) \<Longrightarrow> payStep b c d"
| dispute_raised: "raiseDispute now n b c v i code complaint = Inr (d, eff) \<Longrightarrow> payStep b c d"
| dispute_answered: "answerDispute now b c v i answer' = Inr (d, eff) \<Longrightarrow> payStep b c d"
| dispute_withdrawn: "withdrawDispute b c v i = Inr (d, eff) \<Longrightarrow> payStep b c d"
| elsewhere: "payStep b c (c\<lparr>pay_books := books, pay_entities := entities\<rparr>)"

inductive_cases payStepE: "payStep b c d"

inductive payReach :: "PayDb \<Rightarrow> PayDb \<Rightarrow> bool" where
  start: "payReach a a"
| more: "payReach a b \<Longrightarrow> payReach b c \<Longrightarrow> payStep b c d \<Longrightarrow> payReach a d"

lemma good_step:
  assumes "payStep b c d" "since b c"
  shows "good c d"
proof -
  have ok: "payOk c" using assms(2) by (simp add: since_def)
  from assms(1) show ?thesis
  proof cases
    case (period_opened today v dto)
    then show ?thesis by (auto simp: createPeriod_def bindR_eq_Inr intro: good_openPeriod)
  next
    case (run_broke rid r p policyOf now n)
    then show ?thesis using good_brokenRegular [OF ok] by auto
  next
    case (elsewhere books entities)
    then show ?thesis by (auto intro: good_other)
  qed (use assms(2) ok in \<open>auto intro: good_createRun good_setBonus good_setSettlement good_discard good_execute good_deliverRun
      good_lock good_markPaid good_payslip good_markSent claims_tables\<close>)
qed

lemma good_since: "good b c \<Longrightarrow> payOk b \<Longrightarrow> since b c"
  unfolding since_def using goodD by blast

lemma good_reach: "payReach a c \<Longrightarrow> payOk a \<Longrightarrow> good a c"
proof (induction rule: payReach.induct)
  case (more a b c d)
  then have "good a b" "payOk b" using goodD by blast+
  moreover from this more have "good b c" by blast
  moreover from this have "good c d" using good_step more.hyps(3) good_since \<open>payOk b\<close> by blast
  ultimately show ?case using good_trans by blast
qed simp

lemma reach_since: "payReach b c \<Longrightarrow> payOk b \<Longrightarrow> since b c"
  using good_reach good_since by blast

subsection \<open>Properties\<close>



definition emptyBooks :: PayBooks where
  "emptyBooks =
     \<lparr>pb_employees = [], pb_compensation = [], pb_allowances = [], pb_dependents = [], pb_days = Map.empty,
      pb_requests = [], pb_leaveTypes = Map.empty, pb_typeIds = [], pb_balances = Map.empty, pb_holidays = [],
      pb_policies = [], pb_assetHolders = []\<rparr>"

definition emptyPay :: PayDb where
  "emptyPay =
     \<lparr>pay_next = 0, pay_entities = [(''HN'', True)], pay_periods = [], pay_runs = [], pay_slips = [], pay_bonus = [],
      pay_settlement = [], pay_retros = [], pay_advances = [], pay_disputes = [], pay_books = emptyBooks\<rparr>"

definition paymaster :: Viewer where
  "paymaster = \<lparr>v_userId = ''u1'', v_role = PAYROLL, v_employeeId = Some 1, v_entityIds = None\<rparr>"

definition may2024 :: CreatePeriodDto where
  "may2024 = \<lparr>cp_legalEntityId = None, cp_year = 2024, cp_month = 5, cp_payDate = None\<rparr>"

lemma sample_open:
  "createPeriod 20000 emptyPay emptyPay paymaster may2024 =
     Inr (emptyPay\<lparr>pay_periods := [newPeriod emptyPay ''HN'' may2024], pay_next := 1\<rparr>)"
  by (simp add: createPeriod_def mayWrite_def paymaster_def WRITERS_def may2024_def monthStart_def leapYear_def dayFromYear_def
      entityToPay_def openPeriod_def emptyPay_def Let_def)


definition issuedSlip :: Payslip where
  "issuedSlip = (blankSlip 1 0 7 ''pol'')\<lparr>sl_id := 2, sl_state := SL_ISSUED, sl_netPay := 9000000\<rparr>"

definition doneRun :: "nat \<Rightarrow> RunKind \<Rightarrow> PayrollRun" where
  "doneRun i kind =
     \<lparr>rn_id = i, rn_periodId = 0, rn_kind = kind, rn_state = RN_DONE, rn_label = None, rn_departmentId = None,
      rn_startedAt = Some 10, rn_finishedAt = Some (10 + int i), rn_employeeCount = 1, rn_doneCount = 1, rn_failedCount = 0,
      rn_failure = None, rn_grossTotal = 0, rn_netTotal = 0, rn_createdById = None, rn_note = None\<rparr>"

definition lockedPay :: PayDb where
  "lockedPay = emptyPay\<lparr>pay_next := 3, pay_periods := [(newPeriod emptyPay ''HN'' may2024)\<lparr>pp_state := LOCKED\<rparr>],
     pay_runs := [doneRun 1 REGULAR], pay_slips := [issuedSlip]\<rparr>"

lemma lockedPay_ok: "payOk lockedPay" "periodNamed lockedPay 0 = Some ((newPeriod emptyPay ''HN'' may2024)\<lparr>pp_state := LOCKED\<rparr>)"
  by (simp_all add: payOk_def idsOk_def refsOk_def statesOk_def oneOpen_def isShut_def lockedPay_def emptyPay_def issuedSlip_def
      blankSlip_def doneRun_def newPeriod_def may2024_def periodNamed_def firstWhere_def)


end
