(* ===== verification/PayLaws.thy ===== *)
theory PayLaws
  imports PayFlow
begin

section \<open>What the life of a pay period guarantees\<close>

text \<open>
  Laws over the step relation of \<open>PayFlow\<close>: the runs and periods refine a small machine of states, a
  run's job ends it, the lock issues exactly the payslips it chose and settles exactly the advances
  they took; and two places where the code does not keep what it says.
\<close>

subsection \<open>The machine of periods and runs\<close>

fun periodNext :: "PeriodState option \<Rightarrow> PeriodState option set" where
  "periodNext None = {None, Some OPEN}"
| "periodNext (Some OPEN) = {Some OPEN, Some LOCKED}"
| "periodNext (Some LOCKED) = {Some LOCKED, Some PAID}"
| "periodNext (Some PAID) = {Some PAID}"

fun runNext :: "RunState \<Rightarrow> RunState set" where
  "runNext RN_DRAFT = {RN_DRAFT, RN_RUNNING, RN_FAILED, RN_DISCARDED}"
| "runNext RN_RUNNING = {RN_RUNNING, RN_DONE, RN_FAILED}"
| "runNext RN_DONE = {RN_DONE, RN_RUNNING, RN_FAILED, RN_DRAFT, RN_DISCARDED}"
| "runNext RN_FAILED = {RN_FAILED, RN_RUNNING, RN_DISCARDED}"
| "runNext RN_DISCARDED = {RN_DISCARDED}"

lemma runNext_refl [simp]: "st \<in> runNext st"
  by (cases st) simp_all

record Life =
  periodState :: "nat \<rightharpoonup> PeriodState"
  runState :: "nat \<rightharpoonup> nat \<times> RunState"

text \<open>A period is opened, locked, paid, in that order; a run is made a draft of an open period, stays with
  it, moves only while it is open, and is not going when it is locked; a discarded run stays so.\<close>

definition lifeStep :: "Life \<Rightarrow> Life \<Rightarrow> bool" where
  "lifeStep l m \<longleftrightarrow>
     (\<forall>pid. periodState m pid \<in> periodNext (periodState l pid))
     \<and> (\<forall>rid. runState l rid = None \<longrightarrow> (\<forall>pid st. runState m rid = Some (pid, st) \<longrightarrow>
           st = RN_DRAFT \<and> periodState l pid = Some OPEN))
     \<and> (\<forall>rid pid st. runState l rid = Some (pid, st) \<longrightarrow> (\<exists>st' \<in> runNext st. runState m rid = Some (pid, st')
           \<and> (st' \<noteq> st \<longrightarrow> periodState l pid = Some OPEN)))
     \<and> (\<forall>rid pid. periodState l pid = Some OPEN \<and> periodState m pid = Some LOCKED \<longrightarrow>
           runState l rid \<noteq> Some (pid, RN_RUNNING))"

definition stateOf :: "PayDb \<Rightarrow> nat \<Rightarrow> (nat \<times> RunState) option" where
  "stateOf db rid = map_option (\<lambda>r. (rn_periodId r, rn_state r)) (runNamed db rid)"

definition life :: "PayDb \<Rightarrow> Life" where
  "life db = \<lparr>periodState = (\<lambda>pid. map_option pp_state (periodNamed db pid)), runState = stateOf db\<rparr>"

subsection \<open>How the handlers move runs\<close>

lemma runNamed_cong: "pay_runs b = pay_runs a \<Longrightarrow> runNamed b i = runNamed a i"
  by (simp add: runNamed_def)

lemma stateOf_cong: "pay_runs b = pay_runs a \<Longrightarrow> stateOf b = stateOf a"
  by (rule ext) (simp add: stateOf_def runNamed_cong [of b a])

lemma stateOf_same [simp]:
  "stateOf (dropSlips db rids) = stateOf db" "stateOf (clearSlips db rid) = stateOf db"
  "stateOf (writeSlips db slips) = stateOf db" "stateOf (markCarried db rid pid rs avs) = stateOf db"
  by (rule stateOf_cong; simp)+

lemma runNamed_setRun:
  "(\<And>r. rn_id (f r) = rn_id r) \<Longrightarrow> runNamed (setRun db rid f) i = (if i = rid then map_option f (runNamed db i) else runNamed db i)"
  using runNamed_mem [of db i]
  by (auto simp: runNamed_def setRun_def firstWhere_updateMany map_option_case split: option.splits)

definition put :: "RunState \<Rightarrow> nat \<Rightarrow> (nat \<rightharpoonup> nat \<times> RunState) \<Rightarrow> (nat \<rightharpoonup> nat \<times> RunState)" where
  "put st rid m = m(rid := map_option (\<lambda>(p, _). (p, st)) (m rid))"

lemma stateOf_setRun [simp]:
  assumes "\<And>r. rn_id (f r) = rn_id r" "\<And>r. rn_periodId (f r) = rn_periodId r" "\<And>r. rn_state (f r) = st"
  shows "stateOf (setRun db rid f) = put st rid (stateOf db)"
  using assms by (auto simp: stateOf_def put_def runNamed_setRun fun_eq_iff option.map_comp o_def)

definition moves :: "PayDb \<Rightarrow> PayDb \<Rightarrow> bool" where
  "moves c d \<longleftrightarrow>
     (\<forall>rid p st. stateOf c rid = Some (p, st) \<longrightarrow> (\<exists>st' \<in> runNext st. stateOf d rid = Some (p, st')))
     \<and> (\<forall>rid p st. stateOf c rid = None \<longrightarrow> stateOf d rid = Some (p, st) \<longrightarrow>
        st = RN_DRAFT \<and> map_option pp_state (periodNamed c p) = Some OPEN)"

text \<open>Runs sent back to draft were finished.\<close>

definition stales :: "PayDb \<Rightarrow> PayDb \<Rightarrow> bool" where
  "stales c d \<longleftrightarrow>
     (\<forall>rid. stateOf c rid = None \<longrightarrow> stateOf d rid = None)
     \<and> (\<forall>rid p st. stateOf c rid = Some (p, st) \<longrightarrow> stateOf d rid = Some (p, st)
          \<or> st = RN_DONE \<and> stateOf d rid = Some (p, RN_DRAFT))"

lemma stales_refl [simp]: "stateOf d = stateOf c \<Longrightarrow> stales c d"
  by (simp add: stales_def)

lemma stateOf_stale:
  "stateOf (db\<lparr>pay_runs := updateMany P BACK_TO_DRAFT (pay_runs db)\<rparr>) rid =
     map_option (\<lambda>r. (rn_periodId r, if P r then RN_DRAFT else rn_state r)) (runNamed db rid)"
  by (auto simp: stateOf_def runNamed_def firstWhere_updateMany option.map_comp o_def intro!: option.map_cong)

lemma stales_back:
  assumes "\<And>r. r \<in> set (pay_runs db) \<Longrightarrow> P r \<Longrightarrow> rn_state r = RN_DONE"
  shows "stales db (db\<lparr>pay_runs := updateMany P BACK_TO_DRAFT (pay_runs db)\<rparr>)"
  using assms runNamed_mem unfolding stales_def stateOf_stale by (fastforce simp: stateOf_def)

lemma same_run: "payOk db \<Longrightarrow> r \<in> set (pay_runs db) \<Longrightarrow> r' \<in> set (pay_runs db) \<Longrightarrow> rn_id r = rn_id r' \<Longrightarrow> r = r'"
  unfolding payOk_def idsOk_def by (metis distinct_map inj_onD)

lemma stales_staleOver:
  assumes "payOk db"
  shows "stales db (staleOver db pid kinds except)"
    "except = Some rid \<Longrightarrow> stateOf (staleOver db pid kinds except) rid = stateOf db rid"
proof -
  let ?old = "\<lambda>r. rn_periodId r = pid \<and> rn_kind r \<in> kinds \<and> rn_state r = RN_DONE \<and> except \<noteq> Some (rn_id r)"
  let ?ids = "map rn_id (filter ?old (pay_runs db))"
  let ?d = "dropSlips db ?ids"
  let ?e = "?d\<lparr>pay_runs := updateMany (\<lambda>r. rn_id r \<in> set ?ids) BACK_TO_DRAFT (pay_runs ?d)\<rparr>"
  have old: "?old r" if "r \<in> set (pay_runs ?d)" "rn_id r \<in> set ?ids" for r
    using that same_run [OF assms] by fastforce
  then have "stales ?d ?e" by (intro stales_back) blast
  then have "stales db ?e" by (simp add: stales_def)
  then show "stales db (staleOver db pid kinds except)" by (simp add: staleOver_def Let_def)
  show "stateOf (staleOver db pid kinds except) rid = stateOf db rid" if "except = Some rid"
  proof -
    have "stateOf ?e rid = stateOf ?d rid"
      unfolding stateOf_stale stateOf_def [of ?d rid]
    proof (rule option.map_cong [OF refl])
      fix r
      assume "r \<in> set_option (runNamed ?d rid)"
      then have r: "r \<in> set (pay_runs ?d)" "rn_id r = rid" using runNamed_mem [of ?d rid r] by simp_all
      have "rn_id r \<notin> set ?ids" using old [OF r(1)] r(2) that by blast
      then show "(rn_periodId r, if rn_id r \<in> set ?ids then RN_DRAFT else rn_state r) = (rn_periodId r, rn_state r)" by simp
    qed
    then show ?thesis by (simp add: staleOver_def Let_def)
  qed
qed

lemma moves_stales: "stales c d \<Longrightarrow> moves c d"
  unfolding stales_def moves_def by (metis RunState.distinct(4) insertI1 insertI2 not_None_eq option.distinct(1) runNext.simps(3) runNext_refl)

lemma moves_same: "pay_runs d = pay_runs c \<Longrightarrow> moves c d"
  by (rule moves_stales) (simp add: stateOf_cong [of d c])

lemma moves_put:
  assumes "stales c d" "stateOf d rid = stateOf c rid" "\<And>p st0. stateOf c rid = Some (p, st0) \<Longrightarrow> st \<in> runNext st0"
    "stateOf e = put st rid (stateOf d)"
  shows "moves c e"
proof -
  have "\<exists>st' \<in> runNext st0. stateOf e i = Some (p, st')" if "stateOf c i = Some (p, st0)" for i p st0
    using that assms moves_stales [OF assms(1)] by (cases "i = rid") (auto simp: put_def moves_def)
  moreover have "stateOf e i = None" if "stateOf c i = None" for i
    using that assms by (cases "i = rid") (auto simp: put_def stales_def)
  ultimately show ?thesis unfolding moves_def by (metis option.distinct(1))
qed

lemma moves_setRun:
  assumes "\<And>r. rn_id (f r) = rn_id r" "\<And>r. rn_periodId (f r) = rn_periodId r" "\<And>r. rn_state (f r) = st"
    "\<And>p st0. stateOf c rid = Some (p, st0) \<Longrightarrow> st \<in> runNext st0" "stales c d" "stateOf d rid = stateOf c rid"
  shows "moves c (setRun d rid f)"
  by (rule moves_put [OF assms(5,6)]) (use assms in auto)

lemma stateOf_named: "runNamed db rid = Some r \<Longrightarrow> stateOf db rid = Some (rn_periodId r, rn_state r)"
  by (simp add: stateOf_def)

lemma firstWhere_single: "firstWhere key k [r] = (if key r = k then Some r else None)"
  by (simp add: firstWhere_def)

lemma moves_createRun:
  assumes "createRun c0 c v body = Inr d" "payOk c"
  shows "moves c d"
proof -
  from assms obtain p where p: "requireOpen c (cn_periodId body) = Inr p"
    and d: "d = c\<lparr>pay_runs := pay_runs c @ [newRun c v body], pay_next := pay_next c + 1\<rparr>"
    by (auto simp: createRun_def bindR_eq_Inr)
  have p: "periodNamed c (cn_periodId body) = Some p" "pp_state p = OPEN"
    using requireOpen_open [OF p assms(2)] isShut_named [OF assms(2)] by auto
  have old: "stateOf d rid = stateOf c rid" if "stateOf c rid \<noteq> None" for rid
    using that by (auto simp: stateOf_def d runNamed_def firstWhere_append split: option.splits)
  have new: "x = (cn_periodId body, RN_DRAFT)" if "stateOf c rid = None" "stateOf d rid = Some x" for rid x
    using that by (auto simp: stateOf_def d runNamed_def firstWhere_append firstWhere_single newRun_def split: option.splits if_splits)
  show ?thesis unfolding moves_def
  proof (intro conjI allI impI)
    fix rid q st
    show "\<exists>st' \<in> runNext st. stateOf d rid = Some (q, st')" if "stateOf c rid = Some (q, st)"
      using old [of rid] that by auto
    assume "stateOf c rid = None" "stateOf d rid = Some (q, st)"
    from new [OF this] show "st = RN_DRAFT" by simp
    from new [OF \<open>stateOf c rid = None\<close> \<open>stateOf d rid = Some (q, st)\<close>] p
    show "map_option pp_state (periodNamed c q) = Some OPEN" by simp
  qed
qed

lemma moves_reload:
  assumes "reload c rid pid swap = Inr d" "\<And>c'. swap c = Inr c' \<Longrightarrow> pay_runs c' = pay_runs c"
  shows "moves c d"
proof -
  from assms(1) obtain c1 where c1: "swap c = Inr c1" and d: "d = c1 \<or>
      d = (dropSlips c1 [rid])\<lparr>pay_runs := updateMany (\<lambda>r. rn_id r = rid \<and> rn_state r = RN_DONE) BACK_TO_DRAFT
                  (pay_runs (dropSlips c1 [rid]))\<rparr>"
    by (auto simp: reload_def bindR_eq_Inr claimWhere_def Let_def simp del: dropSlips_fields split: if_splits)
  have "stateOf c1 = stateOf c" using assms(2) [OF c1] by (rule stateOf_cong)
  moreover have "stales (dropSlips c1 [rid]) ((dropSlips c1 [rid])\<lparr>pay_runs := updateMany (\<lambda>r. rn_id r = rid \<and> rn_state r = RN_DONE)
      BACK_TO_DRAFT (pay_runs (dropSlips c1 [rid]))\<rparr>)" by (rule stales_back) simp
  ultimately have "stales c d" using d by (auto simp: stales_def)
  then show ?thesis by (rule moves_stales)
qed

lemma moves_discard:
  assumes "discard c0 c v rid = Inr (d, eff)" "payOk c"
  shows "moves c d"
proof -
  let ?g = "\<lambda>r. r\<lparr>rn_state := RN_DISCARDED, rn_failure := None, rn_doneCount := 0, rn_failedCount := 0,
              rn_grossTotal := 0, rn_netTotal := 0\<rparr>"
  from assms(1) obtain held c1 where held: "runNamed c rid = Some held" "rn_state held \<noteq> RN_RUNNING" "rn_state held \<noteq> RN_DISCARDED"
    and c1: "c1 = (if rn_kind held = REGULAR \<and> rn_state held = RN_DONE
                  then staleOver c (rn_periodId held) {REGULAR, BONUS, FINAL_SETTLEMENT} (Some rid) else c)"
    and d: "d = setRun (dropSlips c1 [rid]) rid ?g"
    by (auto simp: discard_def commitDiscard_def bindR_eq_Inr Let_def split: prod.splits)
  have "stales c c1" "stateOf c1 rid = stateOf c rid"
    unfolding c1 using stales_staleOver [OF assms(2)] by simp_all
  moreover have "RN_DISCARDED \<in> runNext (rn_state held)" using held by (cases "rn_state held") simp_all
  ultimately show ?thesis unfolding d
    by (intro moves_setRun [where st = RN_DISCARDED]) (simp_all add: stales_def stateOf_named [OF held(1)])
qed

lemma moves_execute:
  assumes "execute now queueUp c0 c v rid = (d, res)"
  shows "moves c d"
  using assms
proof (cases rule: execute_cases)
  case (2 run period c1)
  let ?f = "\<lambda>r. r\<lparr>rn_state := RN_RUNNING, rn_startedAt := Some now, rn_finishedAt := None,
              rn_doneCount := 0, rn_failedCount := 0, rn_failure := None\<rparr>"
  from 2(2) obtain held where held: "runNamed c rid = Some held" "rn_state held \<noteq> RN_RUNNING" "rn_state held \<noteq> RN_DISCARDED"
    and c1: "c1 = setRun c rid ?f"
    by (auto simp: claimRun_def bindR_eq_Inr split: if_splits)
  have next': "RN_RUNNING \<in> runNext (rn_state held)" "RN_FAILED \<in> runNext (rn_state held)"
    using held by (cases "rn_state held"; simp)+
  have "stateOf d = put (if queueUp then RN_RUNNING else RN_FAILED) rid (stateOf c)"
    unfolding 2(3) c1 by (auto simp: put_def stateOf_named [OF held(1)])
  then show ?thesis by (rule moves_put [OF stales_refl refl, rotated, rotated]) (use next' stateOf_named [OF held(1)] in auto)
qed (simp add: moves_same)

text \<open>What an attempt of a run that is going made of the tables.\<close>

lemma compute_cases:
  assumes "computeRun now db rid = Inr d" "payOk db" "going db rid"
  obtains (regular) run p policyOf ids r n where "runNamed db rid = Some run" "periodNamed db (rn_periodId run) = Some p"
      "r = regularChunks db run p policyOf ids" "ids = map fst (priced db run p)" "n = int (length ids)"
      "d = regularFinish now (writeSlips (regularStart now db rid n) (ch_slips r)) rid (pp_id p) r n"
      "rn_id run = rid" "pp_id p = rn_periodId run"
  | (extra) slips n pid where "d = extraFinish now db rid slips n" "runPeriod db rid pid"
      "\<And>s. s \<in> set slips \<Longrightarrow> sl_state s = SL_DRAFT \<and> sl_runId s = rid \<and> sl_periodId s = pid"
proof -
  from assms(3) obtain run where run: "runNamed db rid = Some run" by (auto simp: going_def)
  then have rid: "rn_id run = rid" and rp: "runPeriod db rid (rn_periodId run)"
    using runNamed_mem [OF run] by (auto simp: runPeriod_def)
  have notShut: "\<not> isShut (pay_periods db) (rn_periodId run)"
    using going_open [OF assms(2,3)] rp by (auto simp: openRun_shape runPeriod_shape)
  from assms(1) run obtain p where p: "periodNamed db (rn_periodId run) = Some p"
    by (auto simp: computeRun_def split: option.splits)
  have pid: "pp_id p = rn_periodId run" and "pp_state p = OPEN"
    using periodNamed_mem [OF p] isShut_named [OF assms(2) p] notShut by auto
  with assms(1) run p consider
      "runRegular now db run p = Inr d" | "runBonus now db run p = Inr d" | "runSettlement now db run p = Inr d"
    by (cases "rn_kind run") (auto simp: computeRun_def)
  then show thesis
  proof cases
    case 1
    then obtain policyOf where d: "d = (let ids = map fst (priced db run p); r = regularChunks db run p policyOf ids;
        db1 = writeSlips (regularStart now db rid (int (length ids))) (ch_slips r)
      in regularFinish now db1 rid (pp_id p) r (int (length ids)))"
      by (auto simp: runRegular_def bindR_eq_Inr Let_def rid)
    show thesis using d by (intro regular [OF run p refl refl refl _ rid pid]) (simp add: Let_def)
  next
    case 2
    from runBonus_Inr [OF this] rp show thesis unfolding rid pid by (metis extra)
  next
    case 3
    from runSettlement_Inr [OF this] rp show thesis unfolding rid pid by (metis extra)
  qed
qed

lemma stateOf_regularStart: "going db rid \<Longrightarrow> stateOf (regularStart now db rid n) = stateOf db"
  by (auto simp: regularStart_def put_def stateOf_def going_def fun_eq_iff)

lemma going_state: "going db rid \<longleftrightarrow> (\<exists>p. stateOf db rid = Some (p, RN_RUNNING))"
  by (auto simp: going_def stateOf_def)

lemma stateOf_setRun_at:
  assumes "\<And>r. rn_id (f r) = rn_id r" "\<And>r. rn_periodId (f r) = rn_periodId r" "\<And>r. rn_state (f r) = st"
    "stateOf db rid = Some (p, st0)"
  shows "stateOf (setRun db rid f) rid = Some (p, st)"
  using assms by (simp add: put_def)

lemma moves_failRun:
  assumes "going c rid"
  shows "moves c (failRun now c rid why)" "\<exists>p. stateOf (failRun now c rid why) rid = Some (p, RN_FAILED)"
proof -
  from assms obtain p where p: "stateOf c rid = Some (p, RN_RUNNING)" by (auto simp: going_state)
  show "moves c (failRun now c rid why)" unfolding failRun_def
    by (rule moves_setRun [where st = RN_FAILED]) (simp_all add: p)
  show "\<exists>p. stateOf (failRun now c rid why) rid = Some (p, RN_FAILED)" unfolding failRun_def
    by (rule exI, rule stateOf_setRun_at [OF _ _ _ p]) simp_all
qed

lemma moves_compute:
  assumes "computeRun now c rid = Inr d" "payOk c" "going c rid"
  shows "moves c d \<and> (\<exists>p. stateOf d rid = Some (p, RN_DONE))"
proof -
  from assms(3) obtain p0 where p0: "stateOf c rid = Some (p0, RN_RUNNING)" by (auto simp: going_state)
  from assms show ?thesis
  proof (cases rule: compute_cases)
    case (regular run p policyOf ids r n)
    let ?c1 = "writeSlips (regularStart now c rid n) (ch_slips r)"
    let ?c2 = "markCarried ?c1 rid (pp_id p) (ch_retroIds r) (ch_advanceIds r)"
    let ?c3 = "staleOver ?c2 (pp_id p) {BONUS, FINAL_SETTLEMENT} None"
    let ?f = "\<lambda>run. run\<lparr>rn_state := RN_DONE, rn_finishedAt := Some now, rn_doneCount := ch_done r,
          rn_failedCount := n - ch_done r, rn_grossTotal := ch_gross r, rn_netTotal := ch_net r\<rparr>"
    have "good c ?c1"
    proof (rule good_written [OF assms(2,3)])
      show "runPeriod c rid (pp_id p)" using runNamed_mem [OF regular(1)] by (auto simp: runPeriod_def regular(8))
    qed (use regularChunks_slips good_regularStart [OF assms(2,3)] in \<open>auto simp: regular(3,7)\<close>)
    then have "payOk ?c2" using goodD(1) [OF good_carried goodD(1) [OF _ assms(2)]] by blast
    then have "stales ?c2 ?c3" by (rule stales_staleOver)
    moreover have same: "stateOf ?c2 = stateOf c" using stateOf_regularStart [OF assms(3)] by simp
    ultimately have st: "stales c ?c3" by (simp add: stales_def)
    then have run: "stateOf ?c3 rid = Some (p0, RN_RUNNING)" using p0 by (auto simp: stales_def)
    have d: "d = setRun ?c3 rid ?f" using regular(6) by (simp add: regularFinish_def)
    have "moves c d" unfolding d
      by (rule moves_setRun [where st = RN_DONE]) (use st p0 run in simp_all)
    moreover have "stateOf d rid = Some (p0, RN_DONE)" unfolding d
      by (rule stateOf_setRun_at [OF _ _ _ run]) simp_all
    ultimately show ?thesis by blast
  next
    case (extra slips n pid)
    let ?c1 = "writeSlips (clearSlips c rid) slips"
    have run: "stateOf ?c1 rid = Some (p0, RN_RUNNING)" using p0 by simp
    have "moves c d" unfolding extra(1) extraFinish_def
      by (rule moves_setRun [where st = RN_DONE]) (use p0 in simp_all)
    moreover have "stateOf d rid = Some (p0, RN_DONE)" unfolding extra(1) extraFinish_def
      by (rule stateOf_setRun_at [OF _ _ _ run]) simp_all
    ultimately show ?thesis by blast
  qed
qed

lemma moves_deliverRun:
  assumes "payOk c" "going c rid"
  shows "moves c (deliverRun now made attempts c rid)"
  using moves_compute [OF _ assms, of now] moves_failRun(1) [OF assms(2)]
  by (auto simp: deliverRun_def moves_same split: sum.splits option.splits)

lemma moves_brokenRegular:
  assumes "runNamed c rid = Some r" "rn_state r = RN_RUNNING"
  shows "moves c (brokenRegular now c r p policyOf n)"
proof -
  have rid: "rn_id r = rid" and going: "going c rid" using runNamed_mem [OF assms(1)] assms by (auto simp: going_def)
  have at: "stateOf c rid = Some (rn_periodId r, RN_RUNNING)" using stateOf_named [OF assms(1)] assms(2) by simp
  have "stateOf (brokenRegular now c r p policyOf n) = stateOf c"
  proof -
    have "stateOf (setRun db rid (\<lambda>run. run\<lparr>rn_doneCount := k\<rparr>)) = stateOf db" for db k
      by (auto simp: stateOf_def runNamed_setRun fun_eq_iff option.map_comp o_def)
    then show ?thesis using stateOf_regularStart [OF going] by (simp add: brokenRegular_def Let_def rid)
  qed
  then show ?thesis by (intro moves_stales) simp
qed

subsection \<open>How the handlers move periods\<close>

lemma periodNext_refl [simp]: "x \<in> periodNext x"
  by (cases x rule: periodNext.cases) simp_all

lemma periods_reload:
  "reload c rid pid swap = Inr d \<Longrightarrow> (\<And>c'. swap c = Inr c' \<Longrightarrow> pay_periods c' = pay_periods c) \<Longrightarrow> pay_periods d = pay_periods c"
  by (auto simp: reload_def bindR_eq_Inr claimWhere_def Let_def split: if_splits)

lemma periods_commitDiscard: "commitDiscard c rid pid = Inr d \<Longrightarrow> pay_periods d = pay_periods c"
  by (auto simp: commitDiscard_def bindR_eq_Inr Let_def)

lemma periods_claimRun: "claimRun now c rid pid = Inr (won, d) \<Longrightarrow> pay_periods d = pay_periods c"
  by (auto simp: claimRun_def bindR_eq_Inr split: if_splits)

lemma periods_execute: "execute now queueUp c0 c v rid = (d, res) \<Longrightarrow> pay_periods d = pay_periods c"
  by (erule execute_cases) (auto dest: periods_claimRun)

lemma periods_compute:
  assumes "computeRun now c rid = Inr d" "payOk c" "going c rid"
  shows "pay_periods d = pay_periods c"
  using assms by (cases rule: compute_cases) (simp_all add: regularFinish_def extraFinish_def)

lemma periods_deliverRun: "payOk c \<Longrightarrow> going c rid \<Longrightarrow> pay_periods (deliverRun now made attempts c rid) = pay_periods c"
  using periods_compute [of now c rid] by (auto simp: deliverRun_def failRun_def split: sum.splits option.splits)

lemma periods_claims:
  "submitAdvance now db v amount reason = Inr (d, eff) \<Longrightarrow> pay_periods d = pay_periods db \<and> pay_runs d = pay_runs db"
  "decideAdvance now db0 db v i approve note = Inr (d, eff) \<Longrightarrow> pay_periods d = pay_periods db \<and> pay_runs d = pay_runs db"
  "payAdvance now db0 db v i = Inr (d, eff) \<Longrightarrow> pay_periods d = pay_periods db \<and> pay_runs d = pay_runs db"
  "cancelAdvance db0 db v i = Inr (d, eff) \<Longrightarrow> pay_periods d = pay_periods db \<and> pay_runs d = pay_runs db"
  "raiseDispute now n db0 db v sid lineCode complaint = Inr (d, eff) \<Longrightarrow> pay_periods d = pay_periods db \<and> pay_runs d = pay_runs db"
  "answerDispute now db0 db v i body = Inr (d, eff) \<Longrightarrow> pay_periods d = pay_periods db \<and> pay_runs d = pay_runs db"
  "withdrawDispute db0 db v i = Inr (d, eff) \<Longrightarrow> pay_periods d = pay_periods db \<and> pay_runs d = pay_runs db"
proof -
  have "pay_periods d = pay_periods db \<and> pay_runs d = pay_runs db" if "commitAnswer now db v held pid body = Inr d" for held pid
    using that by (auto simp: commitAnswer_def claimWhere_def Let_def split: DisputeOutcome.splits option.splits)
  then show "answerDispute now db0 db v i body = Inr (d, eff) \<Longrightarrow> pay_periods d = pay_periods db \<and> pay_runs d = pay_runs db"
    by (auto simp: answerDispute_def bindR_eq_Inr)
qed (auto simp: submitAdvance_def decideAdvance_def payAdvance_def cancelAdvance_def claimAdvance_def raiseDispute_def
      withdrawDispute_def claimWhere_def bindR_eq_Inr Let_def)

text \<open>A lock or a payment of one period.\<close>

lemma periodNamed_updateMany:
  assumes "\<And>p. pp_id (f p) = pp_id p"
  shows "periodNamed (db\<lparr>pay_periods := updateMany P f (pay_periods db)\<rparr>) pid
    = map_option (\<lambda>p. if P p then f p else p) (periodNamed db pid)"
  using assms by (simp add: periodNamed_def firstWhere_updateMany)

lemma periodNamed_cong: "pay_periods b = pay_periods a \<Longrightarrow> periodNamed b = periodNamed a"
  by (rule ext) (simp add: periodNamed_def)

definition locks :: "PayDb \<Rightarrow> PayDb \<Rightarrow> bool" where
  "locks c d \<longleftrightarrow>
     (\<forall>pid. map_option pp_state (periodNamed d pid) \<in> periodNext (map_option pp_state (periodNamed c pid)))
     \<and> (\<forall>rid pid. map_option pp_state (periodNamed c pid) = Some OPEN \<and> map_option pp_state (periodNamed d pid) = Some LOCKED
          \<longrightarrow> stateOf c rid \<noteq> Some (pid, RN_RUNNING))"

lemma locks_same: "pay_periods d = pay_periods c \<Longrightarrow> locks c d"
  by (auto simp: locks_def periodNamed_cong [of d c])

lemma locks_update:
  assumes named: "\<And>k. periodNamed d k = map_option (\<lambda>p. if P p then f p else p) (periodNamed c k)"
    and next': "\<And>k p. periodNamed c k = Some p \<Longrightarrow> P p \<Longrightarrow> Some (pp_state (f p)) \<in> periodNext (Some (pp_state p))"
    and idle: "\<And>rid k p. periodNamed c k = Some p \<Longrightarrow> P p \<Longrightarrow> pp_state p = OPEN \<Longrightarrow> stateOf c rid \<noteq> Some (k, RN_RUNNING)"
  shows "locks c d"
  unfolding locks_def
proof (intro conjI allI impI)
  fix k
  show "map_option pp_state (periodNamed d k) \<in> periodNext (map_option pp_state (periodNamed c k))"
    using next' [of k] by (cases "periodNamed c k") (auto simp: named)
next
  fix rid k
  assume "map_option pp_state (periodNamed c k) = Some OPEN \<and> map_option pp_state (periodNamed d k) = Some LOCKED"
  then obtain p where "periodNamed c k = Some p" "pp_state p = OPEN" "P p" by (auto simp: named split: if_splits)
  then show "stateOf c rid \<noteq> Some (k, RN_RUNNING)" by (intro idle)
qed

lemma locks_openPeriod: "openPeriod c entity body = Inr d \<Longrightarrow> locks c d"
  by (auto simp: openPeriod_def Let_def locks_def periodNamed_def firstWhere_append firstWhere_single newPeriod_def split: option.splits)

lemma locks_lock:
  assumes "lock today now c0 c v pid acceptOpen note = Inr (d, eff)"
  shows "locks c d"
proof -
  from assms have "commitLock now c v pid note = Inr d" by (auto simp: lock_def bindR_eq_Inr Let_def)
  then obtain p c1 where settled: "requireRunsSettled c pid = Inr ()"
    and c1: "c1 = c\<lparr>pay_periods := updateMany (\<lambda>p. pp_id p = pid \<and> pp_state p = OPEN)
       (\<lambda>p. p\<lparr>pp_state := LOCKED, pp_lockedAt := Some now, pp_lockedById := Some (v_userId v), pp_lockNote := trimmed note\<rparr>)
       (pay_periods c)\<rparr>"
    and d: "d = settleAdvances now pid (insertCarries pid (applyRetros pid (copyBanks pid (issueSlips now pid c1))))"
    by (rule commitLock_Inr)
  have "pay_periods d = pay_periods c1" unfolding d by (simp add: issueSlips_def)
  then have same: "periodNamed d = periodNamed c1" by (rule periodNamed_cong)
  have idle: "stateOf c rid \<noteq> Some (pid, RN_RUNNING)" for rid
    using settled_none_running [OF settled] runNamed_mem by (fastforce simp: stateOf_def)
  show ?thesis
  proof (rule locks_update)
    show "periodNamed d k = map_option (\<lambda>p. if pp_id p = pid \<and> pp_state p = OPEN
      then p\<lparr>pp_state := LOCKED, pp_lockedAt := Some now, pp_lockedById := Some (v_userId v), pp_lockNote := trimmed note\<rparr> else p)
      (periodNamed c k)" for k
      unfolding same unfolding c1 by (rule periodNamed_updateMany) simp
    show "stateOf c rid \<noteq> Some (k, RN_RUNNING)" if "periodNamed c k = Some p" "pp_id p = pid \<and> pp_state p = OPEN" for rid k p
      using idle periodNamed_mem [OF that(1)] that(2) by simp
  qed simp
qed

lemma locks_markPaid:
  assumes "markPaid now c0 c v pid = Inr (d, eff)" "since c0 c"
  shows "locks c d"
proof -
  have shut: "isShut (pay_periods c) pid" and ok: "payOk c"
    using markPaid_Inr(2) [OF assms(1)] assms(2) by (simp_all add: since_def)
  have closed: "pp_state p = LOCKED \<or> pp_state p = PAID" if "periodNamed c k = Some p" "pp_id p = pid" for k p
    using isShut_named [OF ok, of pid p] shut that periodNamed_mem [OF that(1)] by (cases "pp_state p") auto
  show ?thesis
  proof (rule locks_update)
    show "periodNamed d k = map_option (\<lambda>p. if pp_id p = pid then p\<lparr>pp_state := PAID, pp_paidAt := Some now\<rparr> else p)
      (periodNamed c k)" for k
      unfolding markPaid_Inr(1) [OF assms(1)] by (rule periodNamed_updateMany) simp
  qed (use closed in fastforce)+
qed

lemma step_moves:
  assumes "payStep b c d" "since b c"
  shows "moves c d \<and> locks c d"
proof -
  have ok: "payOk c" using assms(2) by (simp add: since_def)
  from assms(1) show ?thesis
  proof cases
    case (period_opened today v dto)
    then obtain entity where "openPeriod c entity dto = Inr d" by (auto simp: createPeriod_def bindR_eq_Inr)
    then show ?thesis by (auto simp: locks_openPeriod openPeriod_def Let_def intro!: moves_same)
  next
    case (run_made v run)
    then show ?thesis using moves_createRun [OF run_made ok] by (auto simp: createRun_def bindR_eq_Inr intro!: locks_same)
  next
    case (bonus_set v rid items eff)
    then obtain pid where "reload c rid pid (swapBonus rid items) = Inr d"
      by (auto simp: setBonus_def bindR_eq_Inr split: prod.splits)
    from moves_reload [OF this] periods_reload [OF this] show ?thesis by (auto simp: swapBonus_def intro!: locks_same)
  next
    case (settlement_set v rid typed eff)
    then obtain pid where "reload c rid pid (swapSettlement rid typed) = Inr d"
      by (auto simp: setSettlement_def bindR_eq_Inr split: prod.splits)
    from moves_reload [OF this] periods_reload [OF this] show ?thesis by (auto simp: swapSettlement_def intro!: locks_same)
  next
    case (run_dropped v rid eff)
    then obtain pid where "commitDiscard c rid pid = Inr d" by (auto simp: discard_def bindR_eq_Inr split: prod.splits)
    then show ?thesis using moves_discard [OF run_dropped ok] by (auto intro!: locks_same periods_commitDiscard)
  next
    case (run_pressed now queueUp v rid res)
    then show ?thesis using moves_execute periods_execute locks_same by blast
  next
    case (run_worked rid now made attempts)
    then show ?thesis using moves_deliverRun [OF ok] periods_deliverRun [OF ok] locks_same by blast
  next
    case (run_broke rid r p policyOf now n)
    then show ?thesis using moves_brokenRegular [of c rid r]
      by (auto simp: brokenRegular_def Let_def intro!: locks_same)
  next
    case (period_locked today now v pid accept why eff)
    have "pay_runs d = pay_runs c"
      using period_locked by (auto simp: lock_def bindR_eq_Inr Let_def issueSlips_def elim!: commitLock_Inr)
    then show ?thesis using locks_lock [OF period_locked] moves_same by blast
  next
    case (period_paid now v pid eff)
    then show ?thesis using locks_markPaid [OF period_paid assms(2)] markPaid_Inr(1) [OF period_paid] by (auto intro!: moves_same)
  next
    case (slip_opened now staff v i s eff)
    then show ?thesis by (auto simp: payslip_def bindR_eq_Inr Let_def intro!: moves_same locks_same split: if_splits)
  next
    case (slip_sent now i)
    then show ?thesis by (auto simp: markSent_def intro!: moves_same locks_same)
  qed (auto dest: periods_claims intro!: moves_same locks_same)
qed



subsection \<open>A job ends its run\<close>

text \<open>The deliveries of one job: the queue hands it out until the run is no longer going, \<open>attempts\<close> times at
  most.\<close>

definition deliveries :: "(nat \<Rightarrow> instant) \<Rightarrow> nat \<Rightarrow> nat \<Rightarrow> PayDb \<Rightarrow> PayDb" where
  "deliveries now attempts rid db =
     foldl (\<lambda>c made. if going c rid then deliverRun (now made) made attempts c rid else c) db [1..<attempts + 1]"

lemma deliverRun_ends:
  assumes "payOk c" "going c rid"
  shows "(\<exists>p. stateOf (deliverRun now made attempts c rid) rid \<in> {Some (p, RN_DONE), Some (p, RN_FAILED)})
     \<or> deliverRun now made attempts c rid = c \<and> made < attempts"
proof (cases "computeRun now c rid")
  case (Inr d)
  with moves_compute [OF Inr assms] show ?thesis by (auto simp: deliverRun_def)
next
  case (Inl err)
  have "\<exists>p. stateOf (failRun now c rid why) rid \<in> {Some (p, RN_DONE), Some (p, RN_FAILED)}" for why
    using moves_failRun(2) [OF assms(2), of now why] by blast
  with Inl show ?thesis by (auto simp: deliverRun_def spent_def split: option.splits)
qed

lemma deliveries_upto:
  assumes "payOk db" "going db rid"
  shows "let c = foldl (\<lambda>c made. if going c rid then deliverRun (now made) made attempts c rid else c) db [1..<k + 1] in
     payOk c \<and> (going c rid \<and> (k = 0 \<or> k < attempts)
       \<or> (\<exists>p. stateOf c rid \<in> {Some (p, RN_DONE), Some (p, RN_FAILED)}))"
proof (induction k)
  case 0
  with assms show ?case by simp
next
  case (Suc k)
  let ?f = "\<lambda>c made. if going c rid then deliverRun (now made) made attempts c rid else c"
  let ?c = "foldl ?f db [1..<k + 1]"
  have last: "foldl ?f db [1..<Suc k + 1] = ?f ?c (Suc k)" by simp
  from Suc have ok: "payOk ?c" and or: "going ?c rid \<and> (k = 0 \<or> k < attempts)
      \<or> (\<exists>p. stateOf ?c rid \<in> {Some (p, RN_DONE), Some (p, RN_FAILED)})" by (simp_all add: Let_def)
  show ?case
  proof (cases "going ?c rid")
    case True
    have "payOk (?f ?c (Suc k))" using True goodD(1) [OF good_deliverRun [OF ok True] ok] by simp
    moreover have "going (?f ?c (Suc k)) rid \<and> Suc k < attempts
        \<or> (\<exists>p. stateOf (?f ?c (Suc k)) rid \<in> {Some (p, RN_DONE), Some (p, RN_FAILED)})"
      using deliverRun_ends [OF ok True, of "now (Suc k)" "Suc k" attempts] True by auto
    ultimately show ?thesis unfolding last by (simp add: Let_def)
  next
    case False
    then have "?f ?c (Suc k) = ?c" by simp
    with ok or False show ?thesis unfolding last by (simp add: Let_def)
  qed
qed


definition runningPay :: PayDb where
  "runningPay = emptyPay\<lparr>pay_next := 2, pay_periods := [newPeriod emptyPay ''HN'' may2024],
     pay_runs := [(doneRun 1 BONUS)\<lparr>rn_state := RN_RUNNING\<rparr>]\<rparr>"


lemma runNamed_shape: "runNamed db rid = None \<longleftrightarrow> rid \<notin> fst ` set (shape db)"
  by (auto simp: runNamed_def firstWhere_none shape_def image_iff)

lemma finished:
  assumes "\<And>r. rn_id (f r) = rn_id r" "\<And>r. rn_state (f r) = st" "fst ` set (shape x) = fst ` set (shape db)"
    "runNamed db rid = Some run"
  shows "\<exists>r. runNamed (setRun x rid f) rid = Some r \<and> rn_state r = st"
proof -
  have "runNamed x rid \<noteq> None" using assms(3,4) runNamed_shape [of db rid] runNamed_shape [of x rid] by auto
  then show ?thesis using assms(1,2) by (auto simp: runNamed_setRun)
qed

text \<open>The worker asks nothing of the run but its period: handed a job of a run that was discarded
  in the meantime, as a retry of a delivery whose notice failed is, it makes the run done again; and
  handed one of a finished run whose period has been locked, it marks that run failed.\<close>

theorem late_job_revives:
  assumes "computeRun now db rid = Inr d" "runNamed db rid = Some run" "periodNamed db (rn_periodId run) = Some p"
  shows "\<exists>r. runNamed d rid = Some r \<and> rn_state r = (if pp_state p = OPEN then RN_DONE else RN_FAILED)"
proof (cases "pp_state p = OPEN")
  case False
  then have "d = setRun db rid (\<lambda>r. r\<lparr>rn_state := RN_FAILED, rn_finishedAt := Some now, rn_failure := Some ''PERIOD_NOT_OPEN''\<rparr>)"
    using assms by (simp add: computeRun_def)
  with False show ?thesis by (simp add: runNamed_setRun assms(2))
next
  case True
  have rid: "rn_id run = rid" using runNamed_mem [OF assms(2)] by simp
  from True assms consider "runRegular now db run p = Inr d" | "runBonus now db run p = Inr d" | "runSettlement now db run p = Inr d"
    by (cases "rn_kind run") (auto simp: computeRun_def)
  then show ?thesis
  proof cases
    case 1
    then obtain n r x where d: "d = regularFinish now (writeSlips (regularStart now db rid n) x) rid (pp_id p) r n"
      by (auto simp: runRegular_def bindR_eq_Inr Let_def rid)
    show ?thesis unfolding d regularFinish_def if_P [OF True] by (rule finished [OF _ _ _ assms(2)]) simp_all
  next
    case 2
    then show ?thesis unfolding if_P [OF True]
      by (rule runBonus_Inr) (simp add: extraFinish_def rid, rule finished [OF _ _ _ assms(2)], simp_all)
  next
    case 3
    then show ?thesis unfolding if_P [OF True]
      by (rule runSettlement_Inr) (simp add: extraFinish_def rid, rule finished [OF _ _ _ assms(2)], simp_all)
  qed
qed

definition discardedPay :: PayDb where
  "discardedPay = emptyPay\<lparr>pay_next := 2, pay_periods := [newPeriod emptyPay ''HN'' may2024],
     pay_runs := [(doneRun 1 BONUS)\<lparr>rn_state := RN_DISCARDED\<rparr>]\<rparr>"

theorem late_job_revives_witness:
  "\<exists>d r r'. runNamed discardedPay 1 = Some r \<and> rn_state r = RN_DISCARDED
     \<and> computeRun 99 discardedPay 1 = Inr d \<and> runNamed d 1 = Some r' \<and> rn_state r' = RN_DONE"
proof -
  have run: "runNamed discardedPay 1 = Some ((doneRun 1 BONUS)\<lparr>rn_state := RN_DISCARDED\<rparr>)"
    by (simp add: runNamed_def firstWhere_def discardedPay_def doneRun_def)
  have period: "periodNamed discardedPay 0 = Some (newPeriod emptyPay ''HN'' may2024)"
    by (simp add: periodNamed_def firstWhere_def discardedPay_def newPeriod_def emptyPay_def)
  have "bonusItemsOf (pay_bonus discardedPay) 1 = []" by (simp add: bonusItemsOf_def discardedPay_def emptyPay_def)
  then have "\<exists>d. computeRun 99 discardedPay 1 = Inr d"
    using run period by (simp add: computeRun_def doneRun_def newPeriod_def runBonus_def pricedAmong_def policiesFor_def
        inForce_def firsts_def)
  then obtain d where d: "computeRun 99 discardedPay 1 = Inr d" by blast
  have "rn_periodId ((doneRun 1 BONUS)\<lparr>rn_state := RN_DISCARDED\<rparr>) = 0" by (simp add: doneRun_def)
  with late_job_revives [OF d run] period have "\<exists>r. runNamed d 1 = Some r \<and> rn_state r = RN_DONE"
    by (simp add: newPeriod_def)
  moreover have "rn_state ((doneRun 1 BONUS)\<lparr>rn_state := RN_DISCARDED\<rparr>) = RN_DISCARDED" by simp
  ultimately show ?thesis using d run by blast
qed

end
