(* ===== verification/PaySettle.thy ===== *)
theory PaySettle
  imports PayLaws
begin

section \<open>What the lock issues and settles\<close>

text \<open>
  The lock of \<open>payroll.service.ts\<close> as one change of the tables, and the money of an advance followed from
  the payslip that deducts it to the lock that settles it.
\<close>

subsection \<open>Advances and the payslips that deduct them\<close>

definition linkedTo :: "SalaryAdvance list \<Rightarrow> nat \<Rightarrow> SalaryAdvance list" where
  "linkedTo avs i = filter (\<lambda>a. av_payslipId a = Some i) avs"

definition takenBy :: "SalaryAdvance list \<Rightarrow> dong" where
  "takenBy avs = sum_list (map av_amount avs)"

text \<open>The advances pointing at a payslip, when there are any, are its person's, add up to its ADVANCE lines,
  and are all settled or all still out; a settled one points at an issued payslip.\<close>

definition advOk :: "nat \<Rightarrow> Payslip list \<Rightarrow> SalaryAdvance list \<Rightarrow> bool" where
  "advOk n ss avs \<longleftrightarrow>
     (\<forall>a \<in> set avs. \<forall>i. av_payslipId a = Some i \<longrightarrow> i < n \<and> (av_state a = AV_PAID \<or> av_state a = AV_SETTLED))
     \<and> (\<forall>a \<in> set avs. av_state a = AV_SETTLED \<longrightarrow>
          (\<exists>s \<in> set ss. av_payslipId a = Some (sl_id s) \<and> sl_state s \<noteq> SL_DRAFT))
     \<and> (\<forall>s \<in> set ss. linkedTo avs (sl_id s) \<noteq> [] \<longrightarrow> takenBy (linkedTo avs (sl_id s)) = sumOf (sl_lines s) LINE_ADVANCE)
     \<and> (\<forall>s \<in> set ss. \<forall>a \<in> set avs. av_payslipId a = Some (sl_id s) \<longrightarrow> av_employeeId a = sl_employeeId s)
     \<and> (\<forall>s \<in> set ss. \<forall>a \<in> set avs. \<forall>b \<in> set avs. av_payslipId a = Some (sl_id s) \<longrightarrow> av_payslipId b = Some (sl_id s) \<longrightarrow>
          av_state a = av_state b)"

abbreviation advancesOk :: "PayDb \<Rightarrow> bool" where
  "advancesOk db \<equiv> advOk (pay_next db) (pay_slips db) (pay_advances db)"

lemma advOkD:
  assumes "advOk n ss avs"
  shows "a \<in> set avs \<Longrightarrow> av_payslipId a = Some i \<Longrightarrow> i < n"
    "a \<in> set avs \<Longrightarrow> av_payslipId a = Some i \<Longrightarrow> av_state a = AV_PAID \<or> av_state a = AV_SETTLED"
    "a \<in> set avs \<Longrightarrow> av_state a = AV_SETTLED \<Longrightarrow> \<exists>s \<in> set ss. av_payslipId a = Some (sl_id s) \<and> sl_state s \<noteq> SL_DRAFT"
    "s \<in> set ss \<Longrightarrow> linkedTo avs (sl_id s) \<noteq> [] \<Longrightarrow> takenBy (linkedTo avs (sl_id s)) = sumOf (sl_lines s) LINE_ADVANCE"
    "s \<in> set ss \<Longrightarrow> a \<in> set avs \<Longrightarrow> av_payslipId a = Some (sl_id s) \<Longrightarrow> av_employeeId a = sl_employeeId s"
    "s \<in> set ss \<Longrightarrow> a \<in> set avs \<Longrightarrow> av_payslipId a = Some (sl_id s) \<Longrightarrow> b \<in> set avs \<Longrightarrow>
       av_payslipId b = Some (sl_id s) \<Longrightarrow> av_state a = av_state b"
  using assms unfolding advOk_def by blast+

lemma advOkI:
  assumes "\<And>a i. a \<in> set avs \<Longrightarrow> av_payslipId a = Some i \<Longrightarrow> i < n"
    "\<And>a i. a \<in> set avs \<Longrightarrow> av_payslipId a = Some i \<Longrightarrow> av_state a = AV_PAID \<or> av_state a = AV_SETTLED"
    "\<And>a. a \<in> set avs \<Longrightarrow> av_state a = AV_SETTLED \<Longrightarrow> \<exists>s \<in> set ss. av_payslipId a = Some (sl_id s) \<and> sl_state s \<noteq> SL_DRAFT"
    "\<And>s. s \<in> set ss \<Longrightarrow> linkedTo avs (sl_id s) \<noteq> [] \<Longrightarrow> takenBy (linkedTo avs (sl_id s)) = sumOf (sl_lines s) LINE_ADVANCE"
    "\<And>s a. s \<in> set ss \<Longrightarrow> a \<in> set avs \<Longrightarrow> av_payslipId a = Some (sl_id s) \<Longrightarrow> av_employeeId a = sl_employeeId s"
    "\<And>s a b. s \<in> set ss \<Longrightarrow> a \<in> set avs \<Longrightarrow> av_payslipId a = Some (sl_id s) \<Longrightarrow> b \<in> set avs \<Longrightarrow>
       av_payslipId b = Some (sl_id s) \<Longrightarrow> av_state a = av_state b"
  shows "advOk n ss avs"
  unfolding advOk_def using assms by meson

lemma adv_next: "advOk n ss avs \<Longrightarrow> n \<le> m \<Longrightarrow> advOk m ss avs"
  unfolding advOk_def using less_le_trans by blast

text \<open>Payslips may go while they are drafts, and be written over in what the advances do not read.\<close>

lemma adv_delete:
  assumes "advOk n ss avs" "\<And>s. s \<in> set ss \<Longrightarrow> P s \<Longrightarrow> sl_state s = SL_DRAFT"
  shows "advOk n (deleteMany P ss) avs"
proof (rule advOkI)
  fix a
  assume "a \<in> set avs" "av_state a = AV_SETTLED"
  with advOkD(3) [OF assms(1)] assms(2)
  show "\<exists>s \<in> set (deleteMany P ss). av_payslipId a = Some (sl_id s) \<and> sl_state s \<noteq> SL_DRAFT" by fastforce
next
  fix s
  assume "s \<in> set (deleteMany P ss)" "linkedTo avs (sl_id s) \<noteq> []"
  then show "takenBy (linkedTo avs (sl_id s)) = sumOf (sl_lines s) LINE_ADVANCE" using advOkD(4) [OF assms(1)] by simp
next
  fix s a
  assume "s \<in> set (deleteMany P ss)" "a \<in> set avs" "av_payslipId a = Some (sl_id s)"
  then show "av_employeeId a = sl_employeeId s" using advOkD(5) [OF assms(1)] by simp
next
  fix s a b
  assume "s \<in> set (deleteMany P ss)" "a \<in> set avs" "av_payslipId a = Some (sl_id s)" "b \<in> set avs"
    "av_payslipId b = Some (sl_id s)"
  then show "av_state a = av_state b" using advOkD(6) [OF assms(1), of s a b] by simp
qed (use advOkD(1,2) [OF assms(1)] in blast)+

lemma adv_slips:
  assumes "advOk n ss avs" "\<And>s. sl_id (f s) = sl_id s" "\<And>s. sl_employeeId (f s) = sl_employeeId s"
    "\<And>s. sl_lines (f s) = sl_lines s" "\<And>s. s \<in> set ss \<Longrightarrow> P s \<Longrightarrow> sl_state s \<noteq> SL_DRAFT \<Longrightarrow> sl_state (f s) \<noteq> SL_DRAFT"
  shows "advOk n (updateMany P f ss) avs"
proof -
  have old: "\<exists>o' \<in> set ss. sl_id s = sl_id o' \<and> sl_employeeId s = sl_employeeId o' \<and> sl_lines s = sl_lines o'"
    if "s \<in> set (updateMany P f ss)" for s
    using that assms(2-4) unfolding updateMany_mem by metis
  show ?thesis
  proof (rule advOkI)
    fix a
    assume "a \<in> set avs" "av_state a = AV_SETTLED"
    with advOkD(3) [OF assms(1)] obtain s where "s \<in> set ss" "av_payslipId a = Some (sl_id s)" "sl_state s \<noteq> SL_DRAFT" by blast
    then show "\<exists>s \<in> set (updateMany P f ss). av_payslipId a = Some (sl_id s) \<and> sl_state s \<noteq> SL_DRAFT"
      unfolding updateMany_bounded using assms(2,5) by (metis (full_types))
  next
    fix s
    assume "s \<in> set (updateMany P f ss)" "linkedTo avs (sl_id s) \<noteq> []"
    with old [of s] advOkD(4) [OF assms(1)]
    show "takenBy (linkedTo avs (sl_id s)) = sumOf (sl_lines s) LINE_ADVANCE" by metis
  next
    fix s a
    assume "s \<in> set (updateMany P f ss)" "a \<in> set avs" "av_payslipId a = Some (sl_id s)"
    with old [of s] advOkD(5) [OF assms(1)] show "av_employeeId a = sl_employeeId s" by metis
  next
    fix s a b
    assume "s \<in> set (updateMany P f ss)" "a \<in> set avs" "av_payslipId a = Some (sl_id s)" "b \<in> set avs"
      "av_payslipId b = Some (sl_id s)"
    with old [of s] advOkD(6) [OF assms(1)] show "av_state a = av_state b" by metis
  qed (use advOkD [OF assms(1)] in blast)+
qed

lemma adv_write:
  assumes "advancesOk db"
  shows "advancesOk (writeSlips db slips)"
proof -
  let ?new = "map (\<lambda>(i, s). s\<lparr>sl_id := i\<rparr>) (enumerate (pay_next db) slips)"
  have fresh: "av_payslipId a \<noteq> Some (sl_id s)" if "s \<in> set ?new" "a \<in> set (pay_advances db)" for s a
    using new_slip [OF that(1)] advOkD(1) [OF assms that(2)] by fastforce
  then have none: "linkedTo (pay_advances db) (sl_id s) = []" if "s \<in> set ?new" for s
    using that unfolding linkedTo_def filter_empty_conv by blast
  have "advOk (pay_next db) (pay_slips db @ ?new) (pay_advances db)"
  proof (rule advOkI)
    fix a
    assume "a \<in> set (pay_advances db)" "av_state a = AV_SETTLED"
    with advOkD(3) [OF assms]
    show "\<exists>s \<in> set (pay_slips db @ ?new). av_payslipId a = Some (sl_id s) \<and> sl_state s \<noteq> SL_DRAFT"
      by (metis Un_iff set_append)
  next
    fix s
    assume "s \<in> set (pay_slips db @ ?new)" "linkedTo (pay_advances db) (sl_id s) \<noteq> []"
    then show "takenBy (linkedTo (pay_advances db) (sl_id s)) = sumOf (sl_lines s) LINE_ADVANCE"
      using none advOkD(4) [OF assms] by (metis Un_iff set_append)
  next
    fix s a
    assume "s \<in> set (pay_slips db @ ?new)" "a \<in> set (pay_advances db)" "av_payslipId a = Some (sl_id s)"
    then show "av_employeeId a = sl_employeeId s" using fresh advOkD(5) [OF assms] by (metis Un_iff set_append)
  next
    fix s a b
    assume "s \<in> set (pay_slips db @ ?new)" "a \<in> set (pay_advances db)" "av_payslipId a = Some (sl_id s)"
      "b \<in> set (pay_advances db)" "av_payslipId b = Some (sl_id s)"
    then show "av_state a = av_state b" using fresh advOkD(6) [OF assms] by (metis Un_iff set_append)
  qed (use advOkD [OF assms] in blast)+
  then show ?thesis by (auto intro: adv_next)
qed

text \<open>Advances may be written over while no payslip points at them.\<close>

lemma linkedTo_updateMany:
  assumes "\<And>a. a \<in> set avs \<Longrightarrow> P a \<Longrightarrow> av_payslipId a \<noteq> Some i \<and> av_payslipId (f a) \<noteq> Some i"
  shows "linkedTo (updateMany P f avs) i = linkedTo avs i"
  unfolding linkedTo_def by (rule filter_updateMany_other) (use assms in auto)

lemma adv_unlinked:
  assumes "advOk n ss avs" "\<And>a. a \<in> set avs \<Longrightarrow> P a \<Longrightarrow> av_payslipId a = None"
    "\<And>a. av_payslipId (f a) = av_payslipId a" "\<And>a. P a \<Longrightarrow> av_state (f a) \<noteq> AV_SETTLED"
  shows "advOk n ss (updateMany P f avs)"
proof -
  have same: "a \<in> set avs" if "a \<in> set (updateMany P f avs)" "av_payslipId a = Some i" for a i
    using that assms(2,3) unfolding updateMany_mem by (metis option.distinct(1))
  have links: "linkedTo (updateMany P f avs) i = linkedTo avs i" for i
    by (rule linkedTo_updateMany) (use assms(2,3) in auto)
  show ?thesis
  proof (rule advOkI)
    fix a
    assume "a \<in> set (updateMany P f avs)" "av_state a = AV_SETTLED"
    then show "\<exists>s \<in> set ss. av_payslipId a = Some (sl_id s) \<and> sl_state s \<noteq> SL_DRAFT"
      using advOkD(3) [OF assms(1)] assms(4) unfolding updateMany_mem by metis
  qed (use advOkD [OF assms(1)] same links in metis)+
qed

text \<open>Payslips that go let go of the advances they deducted.\<close>

lemma adv_unlink:
  assumes "advOk n ss avs" "\<And>a. a \<in> set avs \<Longrightarrow> P a \<Longrightarrow> av_state a = AV_PAID"
    "\<And>a s. a \<in> set avs \<Longrightarrow> P a \<Longrightarrow> s \<in> set ss \<Longrightarrow> av_payslipId a \<noteq> Some (sl_id s)"
  shows "advOk n ss (updateMany P (\<lambda>a. a\<lparr>av_payslipId := None\<rparr>) avs)"
proof -
  let ?f = "\<lambda>a. a\<lparr>av_payslipId := None\<rparr>"
  have same: "a \<in> set avs" if "a \<in> set (updateMany P ?f avs)" "av_payslipId a = Some i" for a i
    using that unfolding updateMany_mem by auto
  have links: "linkedTo (updateMany P ?f avs) (sl_id s) = linkedTo avs (sl_id s)" if "s \<in> set ss" for s
    by (rule linkedTo_updateMany) (use assms(3) that in auto)
  show ?thesis
  proof (rule advOkI)
    fix a
    assume "a \<in> set (updateMany P ?f avs)" "av_state a = AV_SETTLED"
    then have "a \<in> set avs" using assms(2) unfolding updateMany_mem by auto
    then show "\<exists>s \<in> set ss. av_payslipId a = Some (sl_id s) \<and> sl_state s \<noteq> SL_DRAFT"
      using advOkD(3) [OF assms(1)] \<open>av_state a = AV_SETTLED\<close> by blast
  qed (use advOkD [OF assms(1)] same links in metis)+
qed

lemma adv_drop:
  assumes "payOk db" "advancesOk db" "\<And>rid. rid \<in> set rids \<Longrightarrow> openRun db rid"
  shows "advancesOk (dropSlips db rids)"
proof -
  have ids: "distinct (map sl_id (pay_slips db))" using assms(1) by (simp add: payOk_def idsOk_def)
  have draft: "sl_state s = SL_DRAFT" if "s \<in> set (pay_slips db)" "sl_runId s \<in> set rids" for s
    using openRun_slip [OF assms(1) assms(3) [OF that(2)] that(1)] assms(1) that(1)
    unfolding payOk_def statesOk_def by blast
  have "advOk (pay_next db) (deleteMany (\<lambda>s. sl_runId s \<in> set rids) (pay_slips db)) (pay_advances db)"
    using assms(2) draft by (rule adv_delete)
  then have "advOk (pay_next db) (deleteMany (\<lambda>s. sl_runId s \<in> set rids) (pay_slips db))
      (updateMany (\<lambda>a. av_state a = AV_PAID
            \<and> (\<exists>p \<in> set (pay_slips db). sl_runId p \<in> set rids \<and> av_payslipId a = Some (sl_id p)))
          (\<lambda>a. a\<lparr>av_payslipId := None\<rparr>) (pay_advances db))"
  proof (rule adv_unlink)
    fix a s
    assume a: "av_state a = AV_PAID \<and> (\<exists>p \<in> set (pay_slips db). sl_runId p \<in> set rids \<and> av_payslipId a = Some (sl_id p))"
      and s: "s \<in> set (deleteMany (\<lambda>s. sl_runId s \<in> set rids) (pay_slips db))"
    then obtain p where p: "p \<in> set (pay_slips db)" "sl_runId p \<in> set rids" "av_payslipId a = Some (sl_id p)" by blast
    from s have "s \<in> set (pay_slips db)" "s \<noteq> p" using p(2) by auto
    then have "sl_id s \<noteq> sl_id p" using ids p(1) by (metis distinct_map inj_onD)
    with p(3) show "av_payslipId a \<noteq> Some (sl_id s)" by simp
  qed simp
  then show ?thesis unfolding dropSlips_def by simp
qed

lemma adv_clear:
  assumes "payOk db" "advancesOk db" "openRun db rid"
  shows "advancesOk (clearSlips db rid)"
proof -
  have draft: "sl_state s = SL_DRAFT" if "s \<in> set (pay_slips db)" "sl_runId s = rid" for s
    using openRun_slip [OF assms(1) _ that(1)] assms(1,3) that unfolding payOk_def statesOk_def by blast
  have "advOk (pay_next db) (deleteMany (\<lambda>s. sl_runId s = rid) (pay_slips db)) (pay_advances db)"
    using assms(2) draft by (rule adv_delete)
  then show ?thesis by (simp add: clearSlips_def)
qed

lemma adv_setRun [simp]: "advancesOk (setRun db rid f) \<longleftrightarrow> advancesOk db"
  by simp

lemma adv_stale:
  assumes "payOk db" "advancesOk db" "\<not> isShut (pay_periods db) pid"
  shows "advancesOk (staleOver db pid kinds except)"
proof -
  let ?ids = "map rn_id (filter (\<lambda>r. rn_periodId r = pid \<and> rn_kind r \<in> kinds \<and> rn_state r = RN_DONE
                  \<and> except \<noteq> Some (rn_id r)) (pay_runs db))"
  have opened: "openRun db rid" if "rid \<in> set ?ids" for rid
    using that assms(3) openRun_period [OF assms(1)] by (auto simp: runPeriod_def)
  have "advancesOk (dropSlips db ?ids)" by (rule adv_drop [OF assms(1,2) opened])
  then show ?thesis using assms(2) by (simp add: staleOver_def Let_def del: dropSlips_fields)
qed

text \<open>A finished regular run takes over the advances its payslips deducted.\<close>

lemma linkedTo_moved:
  assumes "\<And>a. a \<in> set avs \<Longrightarrow> P a \<Longrightarrow> av_payslipId (f a) = Some i \<longleftrightarrow> av_employeeId a = e"
    "\<And>a. a \<in> set avs \<Longrightarrow> \<not> P a \<Longrightarrow> av_payslipId a \<noteq> Some i"
  shows "linkedTo (updateMany P f avs) i = map f (filter (\<lambda>a. P a \<and> av_employeeId a = e) avs)"
  using assms unfolding linkedTo_def by (induction avs) auto

lemma adv_relink:
  assumes ok: "advOk n ss avs" and ids: "distinct (map sl_id ss)"
    and take: "\<And>a. a \<in> set avs \<Longrightarrow> P a \<longleftrightarrow> av_state a = AV_PAID \<and> g (av_employeeId a) \<noteq> None"
    and f: "\<And>a s. g (av_employeeId a) = Some s \<Longrightarrow> f a = a\<lparr>av_payslipId := Some (sl_id s)\<rparr>"
    and g: "\<And>e s. g e = Some s \<Longrightarrow> s \<in> set ss \<and> sl_employeeId s = e \<and> sl_id s < n \<and> linkedTo avs (sl_id s) = []
        \<and> takenBy (filter (\<lambda>a. av_employeeId a = e \<and> av_state a = AV_PAID) avs) = sumOf (sl_lines s) LINE_ADVANCE"
  shows "advOk n ss (updateMany P f avs)"
proof -
  have uniq: "s = q" if "s \<in> set ss" "q \<in> set ss" "sl_id s = sl_id q" for s q
    using that ids by (metis distinct_map inj_onD)
  have new: "\<exists>o' s. o' \<in> set avs \<and> av_state o' = AV_PAID \<and> g (av_employeeId o') = Some s \<and> a = o'\<lparr>av_payslipId := Some (sl_id s)\<rparr>"
    if "a \<in> set (updateMany P f avs)" "\<not> (a \<in> set avs \<and> \<not> P a)" for a
  proof -
    from that obtain o' where o': "o' \<in> set avs" "P o'" "a = f o'" unfolding updateMany_mem by blast
    then obtain s where "g (av_employeeId o') = Some s" using take by blast
    with f o' take show ?thesis by blast
  qed
  have none: "av_payslipId a \<noteq> Some (sl_id s)" if "g e = Some s" "a \<in> set avs" for a e s
    using g [OF that(1)] that(2) by (auto simp: linkedTo_def filter_empty_conv)
  text \<open>a payslip the run made holds what it deducted; one of another run keeps all or loses all\<close>
  have here: "linkedTo (updateMany P f avs) (sl_id s) = map f (filter (\<lambda>a. P a \<and> av_employeeId a = e) avs)" if "g e = Some s" for e s
  proof (rule linkedTo_moved)
    fix a
    assume a: "a \<in> set avs" "P a"
    then obtain q where q: "g (av_employeeId a) = Some q" using take by blast
    then have "f a = a\<lparr>av_payslipId := Some (sl_id q)\<rparr>" by (rule f)
    moreover have "sl_id q = sl_id s \<longleftrightarrow> av_employeeId a = e"
      using g [OF q] g [OF that] uniq [of q s] q that by (metis option.inject)
    ultimately show "av_payslipId (f a) = Some (sl_id s) \<longleftrightarrow> av_employeeId a = e" by simp
  next
    show "av_payslipId a \<noteq> Some (sl_id s)" if "a \<in> set avs" for a using none [OF \<open>g e = Some s\<close> that] .
  qed
  have elsewhere: "linkedTo (updateMany P f avs) (sl_id s) = filter (\<lambda>a. \<not> P a) (linkedTo avs (sl_id s))"
    if s: "s \<in> set ss" "\<And>e. g e \<noteq> Some s" for s
  proof -
    have "av_payslipId (f a) \<noteq> Some (sl_id s)" if "a \<in> set avs" "P a" for a
    proof -
      from that take obtain q where q: "g (av_employeeId a) = Some q" by blast
      with g [OF q] uniq [of q s] s have "sl_id q \<noteq> sl_id s" by metis
      then show ?thesis by (simp add: f [OF q])
    qed
    then show ?thesis unfolding linkedTo_def by (induction avs) auto
  qed
  show ?thesis
  proof (rule advOkI)
    fix a i
    assume a: "a \<in> set (updateMany P f avs)" "av_payslipId a = Some i"
    show "i < n" using new [OF a(1)] a(2) g advOkD(1) [OF ok] by (cases "a \<in> set avs \<and> \<not> P a") auto
    show "av_state a = AV_PAID \<or> av_state a = AV_SETTLED"
      using new [OF a(1)] a(2) advOkD(2) [OF ok] by (cases "a \<in> set avs \<and> \<not> P a") auto
  next
    fix a
    assume a: "a \<in> set (updateMany P f avs)" "av_state a = AV_SETTLED"
    then have "a \<in> set avs" using new [OF a(1)] by (cases "a \<in> set avs \<and> \<not> P a") auto
    then show "\<exists>s \<in> set ss. av_payslipId a = Some (sl_id s) \<and> sl_state s \<noteq> SL_DRAFT" using advOkD(3) [OF ok] a(2) by blast
  next
    fix s
    assume s: "s \<in> set ss" and ne: "linkedTo (updateMany P f avs) (sl_id s) \<noteq> []"
    show "takenBy (linkedTo (updateMany P f avs) (sl_id s)) = sumOf (sl_lines s) LINE_ADVANCE"
    proof (cases "\<exists>e. g e = Some s")
      case True
      then obtain e where e: "g e = Some s" by blast
      have eq: "filter (\<lambda>a. P a \<and> av_employeeId a = e) avs = filter (\<lambda>a. av_employeeId a = e \<and> av_state a = AV_PAID) avs"
        by (rule filter_cong) (use take e in auto)
      have same: "takenBy (map f xs) = takenBy xs" if "\<And>a. a \<in> set xs \<Longrightarrow> av_employeeId a = e" for xs
        using that f [of _ s] e unfolding takenBy_def by (induction xs) auto
      have "takenBy (linkedTo (updateMany P f avs) (sl_id s))
          = takenBy (filter (\<lambda>a. av_employeeId a = e \<and> av_state a = AV_PAID) avs)"
        unfolding here [OF e] eq by (rule same) simp
      then show ?thesis using g [OF e] by simp
    next
      case False
      then have kept: "linkedTo (updateMany P f avs) (sl_id s) = filter (\<lambda>a. \<not> P a) (linkedTo avs (sl_id s))"
        using elsewhere s by blast
      with ne have "filter (\<lambda>a. \<not> P a) (linkedTo avs (sl_id s)) \<noteq> []" by simp
      then obtain b where b: "b \<in> set avs" "av_payslipId b = Some (sl_id s)" "\<not> P b"
        unfolding linkedTo_def filter_empty_conv by auto
      have "\<not> P a" if "a \<in> set avs" "av_payslipId a = Some (sl_id s)" for a
        using take that b advOkD(5) [OF ok s] advOkD(6) [OF ok s that b(1,2)] by metis
      then have "filter (\<lambda>a. \<not> P a) (linkedTo avs (sl_id s)) = linkedTo avs (sl_id s)"
        unfolding linkedTo_def filter_id_conv by auto
      with kept ne show ?thesis using advOkD(4) [OF ok s] by simp
    qed
  next
    fix s a
    assume s: "s \<in> set ss" and a: "a \<in> set (updateMany P f avs)" "av_payslipId a = Some (sl_id s)"
    show "av_employeeId a = sl_employeeId s"
    proof (cases "a \<in> set avs \<and> \<not> P a")
      case True
      then show ?thesis using advOkD(5) [OF ok s] a(2) by blast
    next
      case False
      from new [OF a(1) this] a(2) g uniq [OF _ s] show ?thesis by fastforce
    qed
  next
    fix s a b
    assume s: "s \<in> set ss" and a: "a \<in> set (updateMany P f avs)" "av_payslipId a = Some (sl_id s)"
      and b: "b \<in> set (updateMany P f avs)" "av_payslipId b = Some (sl_id s)"
    have old: "x \<in> set avs \<and> \<not> P x" if "g e \<noteq> Some s" "x \<in> set (updateMany P f avs)" "av_payslipId x = Some (sl_id s)"
      "\<And>e. g e \<noteq> Some s" for x e
      using new [OF that(2)] that(3,4) g uniq [OF _ s] by fastforce
    show "av_state a = av_state b"
    proof (cases "\<exists>e. g e = Some s")
      case True
      then obtain e where e: "g e = Some s" by blast
      have "av_state x = AV_PAID" if "x \<in> set (updateMany P f avs)" "av_payslipId x = Some (sl_id s)" for x
        using new [OF that(1)] none [OF e] that(2) by fastforce
      with a b show ?thesis by simp
    next
      case False
      then show ?thesis using old [OF _ a] old [OF _ b] advOkD(6) [OF ok s] a(2) b(2) by metis
    qed
  qed
qed

subsection \<open>The run that takes them over\<close>

lemma slip_advances:
  assumes "slipOf pb retros avs rid pid policyOf start end i = Some s"
  shows "takenBy (filter (\<lambda>a. av_employeeId a = i \<and> av_state a = AV_PAID) avs) = sumOf (sl_lines s) LINE_ADVANCE
     \<and> sl_employeeId s = i"
  using assms
proof (rule slipOf_Some)
  fix e c
  assume e: "em_id e = i" and s: "s = regularSlip pb (filter (\<lambda>r. rt_state r = RT_PENDING) retros)
           (filter (\<lambda>a. av_state a = AV_PAID) avs) rid pid (policyOf i) c e start end"
  have "sumOf (sl_lines s) LINE_ADVANCE = sum_list (map av_amount (filter (\<lambda>a. av_employeeId a = em_id e)
      (filter (\<lambda>a. av_state a = AV_PAID) avs)))"
    unfolding s regularSlip_amounts sumOf_enumerate payslip_codes ..
  with e s show ?thesis by (simp add: takenBy_def conj_commute)
qed

lemma taken_ids:
  assumes "s \<in> set (ch_slips (runChunks pb retros avs rid pid policyOf start end kChunk ids))"
    "a \<in> set avs" "av_state a = AV_PAID" "av_employeeId a = sl_employeeId s"
  shows "av_id a \<in> set (ch_advanceIds (runChunks pb retros avs rid pid policyOf start end kChunk ids))"
proof -
  let ?one = "runChunk pb retros avs rid pid policyOf start end"
  have whole: "runChunks pb retros avs rid pid policyOf start end kChunk ids =
      \<lparr>ch_slips = concat (map (ch_slips \<circ> ?one) (chunked kChunk ids)),
       ch_gross = sum_list (map (ch_gross \<circ> ?one) (chunked kChunk ids)),
       ch_net = sum_list (map (ch_net \<circ> ?one) (chunked kChunk ids)),
       ch_done = sum_list (map (ch_done \<circ> ?one) (chunked kChunk ids)),
       ch_retroIds = concat (map (ch_retroIds \<circ> ?one) (chunked kChunk ids)),
       ch_advanceIds = concat (map (ch_advanceIds \<circ> ?one) (chunked kChunk ids))\<rparr>"
    unfolding runChunks_def addChunk_fold by (simp add: noChunk_def)
  from assms(1) obtain slice where slice: "slice \<in> set (chunked kChunk ids)" "s \<in> set (ch_slips (?one slice))"
    unfolding whole by auto
  from slice(2) obtain i where i: "i \<in> set slice" "slipOf pb retros avs rid pid policyOf start end i = Some s"
    unfolding runChunk_slips in_map_filter by blast
  from slip_advances [OF i(2)] have "sl_employeeId s = i" by simp
  with i(1) assms(2-4) slice(2) have "av_id a \<in> set (ch_advanceIds (?one slice))"
    by (auto simp: runChunk_def Let_def)
  with slice(1) show ?thesis unfolding whole by auto
qed

lemma adv_regularFinish:
  assumes ok: "payOk db" "going db rid" "advancesOk db"
    and run: "runNamed db rid = Some run" "rn_id run = rid" "pp_id p = rn_periodId run"
    and r: "r = regularChunks db run p policyOf ids"
  shows "advancesOk (regularFinish now (writeSlips (regularStart now db rid n) (ch_slips r)) rid (pp_id p) r n)"
proof -
  let ?a = "regularStart now db rid n"
  let ?b = "writeSlips ?a (ch_slips r)"
  let ?c = "markCarried ?b rid (pp_id p) (ch_retroIds r) (ch_advanceIds r)"
  have opened: "openRun db rid" by (rule going_open [OF ok(1,2)])
  have rp: "runPeriod db rid (pp_id p)" using runNamed_mem [OF run(1)] run(2,3) unfolding runPeriod_def by metis
  have good: "good db ?b"
    by (rule good_written [OF ok(1,2) rp])
      (use regularChunks_slips good_regularStart [OF ok(1,2)] in \<open>auto simp: r run\<close>)
  then have okb: "payOk ?b" using goodD(1) ok(1) by blast
  have "pay_slips ?a = pay_slips (clearSlips db rid)" by (simp add: regularStart_def clearSlips_def)
  then have "advancesOk ?a" using adv_clear [OF ok(1,3) opened] by simp
  then have advb: "advancesOk ?b" by (rule adv_write)
  have avs: "pay_advances ?b = pay_advances db" by simp
  have slips: "\<exists>s0 \<in> set (ch_slips r). \<exists>i. s = s0\<lparr>sl_id := i\<rparr> \<and> pay_next db \<le> i \<and> s \<in> set (pay_slips ?b) \<and> sl_employeeId s = e"
    if e: "slipFor ?b rid e = Some s" for e s
  proof -
    from e have s: "s \<in> set (pay_slips ?b)" "sl_runId s = rid" "sl_employeeId s = e"
      using find_mem [OF e [unfolded slipFor_def]] by auto
    then have "s \<in> set (map (\<lambda>(i, s). s\<lparr>sl_id := i\<rparr>) (enumerate (pay_next ?a) (ch_slips r)))"
      by (simp add: regularStart_def clearSlips_def)
    from new_slip [OF this] s show ?thesis by auto
  qed
  let ?P = "\<lambda>a. av_id a \<in> set (ch_advanceIds r) \<and> av_state a = AV_PAID \<and> slipFor ?b rid (av_employeeId a) \<noteq> None"
  let ?f = "\<lambda>a. a\<lparr>av_payslipId := map_option sl_id (slipFor ?b rid (av_employeeId a))\<rparr>"
  have chunks: "r = runChunks (pay_books db) (pay_retros db) (pay_advances db) (rn_id run) (pp_id p) (\<lambda>i. the (policyOf i))
       (pp_startDate p) (pp_endDate p) kChunk ids" unfolding r regularChunks_def ..
  have "advOk (pay_next ?b) (pay_slips ?b) (updateMany ?P ?f (pay_advances ?b))"
  proof (rule adv_relink [where g = "slipFor ?b rid", OF advb])
    show "distinct (map sl_id (pay_slips ?b))" using okb by (simp add: payOk_def idsOk_def)
    fix a
    assume a: "a \<in> set (pay_advances ?b)"
    have "av_id a \<in> set (ch_advanceIds r)" if "av_state a = AV_PAID" "slipFor ?b rid (av_employeeId a) = Some s" for s
    proof -
      from slips [OF that(2)] obtain s0 i where "s0 \<in> set (ch_slips r)" "s = s0\<lparr>sl_id := i\<rparr>" "sl_employeeId s = av_employeeId a"
        by blast
      then show ?thesis using taken_ids [of s0 _ _ "pay_advances db"] a that(1) unfolding chunks by simp
    qed
    then show "?P a \<longleftrightarrow> av_state a = AV_PAID \<and> slipFor ?b rid (av_employeeId a) \<noteq> None" by blast
  next
    fix e s
    assume e: "slipFor ?b rid e = Some s"
    from slips [OF e] obtain s0 i where s0: "s0 \<in> set (ch_slips r)" "s = s0\<lparr>sl_id := i\<rparr>" "pay_next db \<le> i"
      "s \<in> set (pay_slips ?b)" "sl_employeeId s = e" by blast
    have "linkedTo (pay_advances db) (sl_id s) = []"
      using advOkD(1) [OF ok(3)] s0(2,3) unfolding linkedTo_def filter_empty_conv by fastforce
    moreover have "takenBy (filter (\<lambda>a. av_employeeId a = e \<and> av_state a = AV_PAID) (pay_advances db)) = sumOf (sl_lines s) LINE_ADVANCE"
    proof -
      have "0 < kChunk" by (simp add: kChunk_def)
      from s0(1) [unfolded chunks runChunks_slips [OF this] in_map_filter] slip_advances s0(2,5)
      show ?thesis by fastforce
    qed
    moreover have "sl_id s < pay_next ?b" using okb s0(4) unfolding payOk_def idsOk_def by blast
    ultimately show "s \<in> set (pay_slips ?b) \<and> sl_employeeId s = e \<and> sl_id s < pay_next ?b
        \<and> linkedTo (pay_advances ?b) (sl_id s) = []
        \<and> takenBy (filter (\<lambda>a. av_employeeId a = e \<and> av_state a = AV_PAID) (pay_advances ?b)) = sumOf (sl_lines s) LINE_ADVANCE"
      using s0(4,5) by simp
  qed simp
  then have "advancesOk ?c" by (simp add: markCarried_def)
  moreover have "\<not> isShut (pay_periods ?c) (pp_id p)" using opened rp by (auto simp: openRun_shape runPeriod_shape)
  ultimately have "advancesOk (staleOver ?c (pp_id p) {BONUS, FINAL_SETTLEMENT} None)"
    by (rule adv_stale [OF goodD(1) [OF good_carried okb]])
  then show ?thesis unfolding regularFinish_def setRun_fields .
qed

subsection \<open>The steps\<close>

lemma adv_compute:
  assumes "computeRun now db rid = Inr d" "payOk db" "going db rid" "advancesOk db"
  shows "advancesOk d"
  using assms(1-3)
proof (cases rule: compute_cases)
  case (regular run p policyOf ids r n)
  then show ?thesis using adv_regularFinish [OF assms(2-4) regular(1,7,8,3)] by simp
next
  case (extra slips n pid)
  have "advancesOk (writeSlips (clearSlips db rid) slips)"
    by (rule adv_write) (rule adv_clear [OF assms(2,4) going_open [OF assms(2,3)]])
  then show ?thesis unfolding extra(1) extraFinish_def setRun_fields .
qed

lemma adv_deliverRun:
  assumes "payOk db" "going db rid" "advancesOk db"
  shows "advancesOk (deliverRun now made attempts db rid)"
  using adv_compute [OF _ assms, of now] assms(3)
  by (auto simp: deliverRun_def failRun_def split: sum.splits option.splits)

lemma adv_brokenRegular:
  assumes "payOk db" "runNamed db rid = Some run" "rn_state run = RN_RUNNING" "advancesOk db"
  shows "advancesOk (brokenRegular now db run p policyOf n)"
proof -
  have rid: "rn_id run = rid" and going: "going db rid" using runNamed_mem [OF assms(2)] assms by (auto simp: going_def)
  let ?a = "regularStart now db rid (int (length (map fst (priced db run p))))"
  have "pay_slips ?a = pay_slips (clearSlips db rid)" by (simp add: regularStart_def clearSlips_def)
  then have "advancesOk ?a" using adv_clear [OF assms(1,4) going_open [OF assms(1) going]] by simp
  from adv_write [OF this] show ?thesis unfolding brokenRegular_def Let_def rid setRun_fields .
qed

lemma adv_reload:
  assumes "reload db rid pid swap = Inr d" "payOk db" "runPeriod db rid pid" "advancesOk db"
    and swap: "\<And>db'. swap db = Inr db' \<Longrightarrow> pay_periods db' = pay_periods db \<and> pay_runs db' = pay_runs db
        \<and> pay_slips db' = pay_slips db \<and> pay_next db' = pay_next db \<and> pay_advances db' = pay_advances db"
  shows "advancesOk d"
proof -
  from assms(1) obtain p run db1 where p: "requireOpen db pid = Inr p" and db1: "swap db = Inr db1"
    and d: "d = db1 \<or> pay_slips d = pay_slips (dropSlips db1 [rid]) \<and> pay_advances d = pay_advances (dropSlips db1 [rid])
      \<and> pay_next d = pay_next (dropSlips db1 [rid])"
    by (auto simp: reload_def bindR_eq_Inr claimWhere_def Let_def simp del: dropSlips_fields split: if_splits)
  have opened: "openRun db1 rid"
    using openRun_period [OF assms(2,3) requireOpen_open(1) [OF p assms(2)]] swap [OF db1] by (simp add: openRun_def)
  have "payOk db1" "advancesOk db1" using assms(2,4) swap [OF db1] by (simp_all add: payOk_def)
  with opened have "advancesOk (dropSlips db1 [rid])" by (intro adv_drop) simp_all
  with \<open>advancesOk db1\<close> d show ?thesis by metis
qed

lemma adv_discard:
  assumes "discard db0 db v rid = Inr (d, eff)" "since db0 db" "advancesOk db"
  shows "advancesOk d"
proof -
  let ?g = "\<lambda>r. r\<lparr>rn_state := RN_DISCARDED, rn_failure := None, rn_doneCount := 0, rn_failedCount := 0,
              rn_grossTotal := 0, rn_netTotal := 0\<rparr>"
  have ok: "payOk db" using assms(2) by (simp add: since_def)
  from assms(1) obtain run period p held db1 where run: "runOf db0 v rid = Inr (run, period)"
    and p: "requireOpen db (rn_periodId run) = Inr p" and held: "runNamed db rid = Some held"
    and db1: "db1 = (if rn_kind held = REGULAR \<and> rn_state held = RN_DONE
                  then staleOver db (rn_periodId held) {REGULAR, BONUS, FINAL_SETTLEMENT} (Some rid) else db)"
    and d: "d = setRun (dropSlips db1 [rid]) rid ?g"
    by (auto simp: discard_def commitDiscard_def bindR_eq_Inr Let_def split: prod.splits)
  have opened: "openRun db rid"
    using runOf_period [OF run] assms(2) requireOpen_open(1) [OF p ok] since_open by blast
  then have notShut: "\<not> isShut (pay_periods db) (rn_periodId held)" using runNamed_mem [OF held] by (simp add: openRun_def)
  have "payOk db1" unfolding db1 using goodD(1) [OF good_stale [OF notShut] ok] ok by simp
  moreover have "advancesOk db1" unfolding db1 using adv_stale [OF ok assms(3) notShut] assms(3) by simp
  moreover have "openRun db1 rid" using opened unfolding db1 by (simp add: openRun_shape)
  ultimately have "advancesOk (dropSlips db1 [rid])" by (intro adv_drop) simp_all
  then show ?thesis unfolding d setRun_fields .
qed

lemma adv_settle:
  assumes "advOk n ss avs" "distinct (map sl_id ss)"
  shows "advOk n ss (updateMany (\<lambda>a. av_state a = AV_PAID \<and> (\<exists>s \<in> set ss. issued pid s \<and> av_payslipId a = Some (sl_id s)))
          (\<lambda>a. a\<lparr>av_state := AV_SETTLED, av_settledAt := Some now\<rparr>) avs)"
    (is "advOk n ss (updateMany ?P ?f avs)")
proof -
  have uniq: "s = q" if "s \<in> set ss" "q \<in> set ss" "sl_id s = sl_id q" for s q
    using that assms(2) by (metis distinct_map inj_onD)
  have old: "\<exists>o' \<in> set avs. av_payslipId a = av_payslipId o' \<and> av_employeeId a = av_employeeId o'
      \<and> av_state a = (if ?P o' then AV_SETTLED else av_state o')" if "a \<in> set (updateMany ?P ?f avs)" for a
  proof -
    from that obtain o' where o': "o' \<in> set avs" "a = (if ?P o' then ?f o' else o')" unfolding updateMany_set by blast
    have "av_payslipId a = av_payslipId o' \<and> av_employeeId a = av_employeeId o'
      \<and> av_state a = (if ?P o' then AV_SETTLED else av_state o')" unfolding o'(2) by (cases "?P o'") simp_all
    with o'(1) show ?thesis by blast
  qed
  have taken: "takenBy (linkedTo (updateMany ?P ?f avs) i) = takenBy (linkedTo avs i) \<and>
      (linkedTo (updateMany ?P ?f avs) i = [] \<longleftrightarrow> linkedTo avs i = [])" for i
    unfolding takenBy_def linkedTo_def by (induction avs) auto
  show ?thesis
  proof (rule advOkI)
    fix a i
    assume a: "a \<in> set (updateMany ?P ?f avs)" "av_payslipId a = Some i"
    from old [OF a(1)] obtain o' where o': "o' \<in> set avs" "av_payslipId a = av_payslipId o'"
      "av_state a = (if ?P o' then AV_SETTLED else av_state o')" by blast
    then have link: "av_payslipId o' = Some i" using a(2) by simp
    show "i < n" by (rule advOkD(1) [OF assms(1) o'(1) link])
    show "av_state a = AV_PAID \<or> av_state a = AV_SETTLED"
      unfolding o'(3) using advOkD(2) [OF assms(1) o'(1) link] by (cases "?P o'") simp_all
  next
    fix a
    assume a: "a \<in> set (updateMany ?P ?f avs)" "av_state a = AV_SETTLED"
    from old [OF a(1)] obtain o' where o': "o' \<in> set avs" "av_payslipId a = av_payslipId o'"
      "av_state a = (if ?P o' then AV_SETTLED else av_state o')" by blast
    show "\<exists>s \<in> set ss. av_payslipId a = Some (sl_id s) \<and> sl_state s \<noteq> SL_DRAFT"
    proof (cases "?P o'")
      case True
      then show ?thesis using o'(2) by (auto simp: issued_def)
    next
      case False
      then show ?thesis using o' a(2) advOkD(3) [OF assms(1)] by metis
    qed
  next
    fix s
    assume s: "s \<in> set ss" "linkedTo (updateMany ?P ?f avs) (sl_id s) \<noteq> []"
    from s(2) have "linkedTo avs (sl_id s) \<noteq> []" using taken [of "sl_id s"] by (rule_tac notI) simp
    from advOkD(4) [OF assms(1) s(1) this]
    show "takenBy (linkedTo (updateMany ?P ?f avs) (sl_id s)) = sumOf (sl_lines s) LINE_ADVANCE"
      using taken [of "sl_id s"] by (rule_tac trans) (rule conjunct1)
  next
    fix s a
    assume s: "s \<in> set ss" and a: "a \<in> set (updateMany ?P ?f avs)" "av_payslipId a = Some (sl_id s)"
    from old [OF a(1)] obtain o' where o': "o' \<in> set avs" "av_payslipId a = av_payslipId o'"
      "av_employeeId a = av_employeeId o'" by blast
    then show "av_employeeId a = sl_employeeId s" using advOkD(5) [OF assms(1) s o'(1)] a(2) by simp
  next
    fix s a b
    assume s: "s \<in> set ss" and a: "a \<in> set (updateMany ?P ?f avs)" "av_payslipId a = Some (sl_id s)"
      and b: "b \<in> set (updateMany ?P ?f avs)" "av_payslipId b = Some (sl_id s)"
    from old [OF a(1)] obtain a' where a': "a' \<in> set avs" "av_payslipId a = av_payslipId a'"
      "av_state a = (if ?P a' then AV_SETTLED else av_state a')" by blast
    from old [OF b(1)] obtain b' where b': "b' \<in> set avs" "av_payslipId b = av_payslipId b'"
      "av_state b = (if ?P b' then AV_SETTLED else av_state b')" by blast
    have links: "av_payslipId a' = Some (sl_id s)" "av_payslipId b' = Some (sl_id s)"
      using a'(2) b'(2) a(2) b(2) by simp_all
    have eq: "av_state a' = av_state b'"
      by (rule advOkD(6) [OF assms(1) s a'(1) links(1) b'(1) links(2)])
    show "av_state a = av_state b" unfolding a'(3) b'(3) links eq by (rule refl)
  qed
qed

lemma adv_lock:
  assumes "lock today now db0 db v pid acceptOpen why = Inr (d, eff)" "payOk db" "advancesOk db"
  shows "advancesOk d"
proof -
  from assms(1) have "commitLock now db v pid why = Inr d" by (auto simp: lock_def bindR_eq_Inr Let_def)
  then obtain db1 where db1: "pay_slips db1 = pay_slips db" "pay_advances db1 = pay_advances db" "pay_next db1 = pay_next db"
    and d: "d = settleAdvances now pid (insertCarries pid (applyRetros pid (copyBanks pid (issueSlips now pid db1))))"
  proof (rule commitLock_Inr)
    fix p db1
    assume db1: "db1 = db\<lparr>pay_periods := updateMany (\<lambda>p. pp_id p = pid \<and> pp_state p = OPEN)
       (\<lambda>p. p\<lparr>pp_state := LOCKED, pp_lockedAt := Some now, pp_lockedById := Some (v_userId v), pp_lockNote := trimmed why\<rparr>)
       (pay_periods db)\<rparr>"
      and d: "d = settleAdvances now pid (insertCarries pid (applyRetros pid (copyBanks pid (issueSlips now pid db1))))"
    show thesis by (rule that [OF _ _ _ d]) (simp_all add: db1)
  qed
  let ?a = "issueSlips now pid db1"
  let ?b = "copyBanks pid ?a"
  let ?c = "insertCarries pid (applyRetros pid ?b)"
  have "advancesOk ?a" unfolding issueSlips_def using assms(3) db1 by (simp add: adv_slips)
  then have "advancesOk ?b" unfolding copyBanks_def by (simp add: adv_slips Let_def)
  then have c: "advOk (pay_next ?c) (pay_slips ?c) (pay_advances ?c)" by (auto simp: insertCarries_def intro: adv_next)
  have "map sl_id (pay_slips ?c) = map sl_id (pay_slips db)"
    by (simp add: copyBanks_def issueSlips_def updateMany_keys Let_def db1)
  then have "distinct (map sl_id (pay_slips ?c))" using assms(2) by (simp add: payOk_def idsOk_def)
  from adv_settle [OF c this] show ?thesis unfolding d by (simp add: settleAdvances_def)
qed

subsection \<open>Over every step\<close>

text \<open>The guard of a claim on one advance: only a pending one is answered, only an approved one is paid.\<close>

lemma adv_claim:
  assumes "claimAdvance db i st upd why = Inr d" "advancesOk db" "st = AV_PENDING \<or> st = AV_APPROVED"
    "\<And>a. av_payslipId (upd a) = av_payslipId a" "\<And>a. av_state (upd a) \<noteq> AV_SETTLED"
  shows "advancesOk d"
proof -
  let ?P = "\<lambda>a. av_id a = i \<and> av_state a = st"
  from assms(1) have d: "d = db\<lparr>pay_advances := updateMany ?P upd (pay_advances db)\<rparr>"
    by (auto simp: claimAdvance_def claimWhere_def bindR_eq_Inr Let_def)
  have "av_payslipId a = None" if "a \<in> set (pay_advances db)" "?P a" for a
    using advOkD(2) [OF assms(2) that(1)] that(2) assms(3) by (cases "av_payslipId a") auto
  with assms(2,4,5) have "advOk (pay_next db) (pay_slips db) (updateMany ?P upd (pay_advances db))"
    by (intro adv_unlinked) auto
  then show ?thesis by (simp add: d)
qed

lemma adv_asked:
  assumes "advOk n ss avs" "av_payslipId a = None" "av_state a \<noteq> AV_SETTLED"
  shows "advOk n ss (avs @ [a])"
proof -
  have same: "linkedTo (avs @ [a]) i = linkedTo avs i" for i using assms(2) by (simp add: linkedTo_def)
  have "x \<in> set avs" if "x \<in> set (avs @ [a])" "av_payslipId x = Some i \<or> av_state x = AV_SETTLED" for x i
    using that assms(2,3) by auto
  with assms(1) show ?thesis unfolding advOk_def same by blast
qed

lemma adv_advances:
  assumes "advancesOk db"
  shows "submitAdvance now db v amount reason = Inr (d, eff) \<Longrightarrow> advancesOk d"
    "decideAdvance now db0 db v i approve note = Inr (d, eff) \<Longrightarrow> advancesOk d"
    "payAdvance now db0 db v i = Inr (d, eff) \<Longrightarrow> advancesOk d"
    "cancelAdvance db0 db v i = Inr (d, eff) \<Longrightarrow> advancesOk d"
proof -
  have press: "av_payslipId (pressed p a) = av_payslipId a" "av_state (pressed p a) \<noteq> AV_SETTLED" for p a
    by (cases p; simp)+
  show "submitAdvance now db v amount reason = Inr (d, eff) \<Longrightarrow> advancesOk d"
    using adv_next [OF assms, of "Suc (pay_next db)"] by (auto simp: submitAdvance_def bindR_eq_Inr intro!: adv_asked)
  show "advancesOk d" if "decideAdvance now db0 db v i approve note = Inr (d, eff)"
  proof -
    from that have "claimAdvance db i AV_PENDING (pressed (Answered approve (v_userId v) now note)) ''ADVANCE_ALREADY_DECIDED'' = Inr d"
      by (auto simp: decideAdvance_def bindR_eq_Inr)
    from adv_claim [OF this assms] press show ?thesis by blast
  qed
  show "advancesOk d" if "payAdvance now db0 db v i = Inr (d, eff)"
  proof -
    from that have "claimAdvance db i AV_APPROVED (paidOut now) ''ADVANCE_NOT_APPROVED'' = Inr d"
      by (auto simp: payAdvance_def bindR_eq_Inr)
    from adv_claim [OF this assms] show ?thesis by (simp add: paidOut_def)
  qed
  show "advancesOk d" if "cancelAdvance db0 db v i = Inr (d, eff)"
  proof -
    from that have "claimAdvance db i AV_PENDING (pressed Withdrawn) ''ADVANCE_ALREADY_DECIDED'' = Inr d"
      by (auto simp: cancelAdvance_def bindR_eq_Inr)
    from adv_claim [OF this assms] press show ?thesis by blast
  qed
qed

lemma adv_disputes:
  assumes "advancesOk db"
  shows "raiseDispute now n db0 db v sid lineCode complaint = Inr (d, eff) \<Longrightarrow> advancesOk d"
    "answerDispute now db0 db v i body = Inr (d, eff) \<Longrightarrow> advancesOk d"
    "withdrawDispute db0 db v i = Inr (d, eff) \<Longrightarrow> advancesOk d"
proof -
  have next': "advOk (pay_next db + 1) (pay_slips db) (pay_advances db)" using adv_next [OF assms] by simp
  have "advancesOk d" if "commitAnswer now db v held pid body = Inr d" for held pid
    using that assms next'
    by (cases "an_outcome body"; cases "an_amount body") (simp_all add: commitAnswer_def claimWhere_def bindR_eq_Inr Let_def, safe, simp_all)
  then show "answerDispute now db0 db v i body = Inr (d, eff) \<Longrightarrow> advancesOk d"
    by (auto simp: answerDispute_def bindR_eq_Inr)
  show "raiseDispute now n db0 db v sid lineCode complaint = Inr (d, eff) \<Longrightarrow> advancesOk d"
    using next' by (auto simp: raiseDispute_def bindR_eq_Inr)
  show "withdrawDispute db0 db v i = Inr (d, eff) \<Longrightarrow> advancesOk d"
    using assms by (auto simp: withdrawDispute_def claimWhere_def bindR_eq_Inr Let_def)
qed

lemma adv_slip:
  "payslip now staff db v i = Inr (d, s, eff) \<Longrightarrow> advancesOk db \<Longrightarrow> advancesOk d"
  "advancesOk db \<Longrightarrow> advancesOk (markSent now db i)"
proof -
  show "advancesOk (markSent now db i)" if "advancesOk db"
    unfolding markSent_def using that by (auto intro!: adv_slips)
qed (auto simp: payslip_def Let_def bindR_eq_Inr split: if_splits intro!: adv_slips)

lemma adv_sheets:
  assumes "since db0 db" "advancesOk db"
  shows "setBonus db0 db v rid items = Inr (d, eff) \<Longrightarrow> advancesOk d"
    "setSettlement db0 db v rid typed = Inr (d, eff) \<Longrightarrow> advancesOk d"
proof -
  have re: "advancesOk d" if "runOf db0 v rid = Inr (run, period)" "reload db rid (rn_periodId run) swap = Inr d"
    "\<And>db'. swap db = Inr db' \<Longrightarrow> pay_periods db' = pay_periods db \<and> pay_runs db' = pay_runs db
        \<and> pay_slips db' = pay_slips db \<and> pay_next db' = pay_next db \<and> pay_advances db' = pay_advances db"
    for run period swap
    using adv_reload [OF that(2) _ _ assms(2) that(3)] runOf_period [OF that(1)] assms(1) by (simp add: since_def)
  show "setBonus db0 db v rid items = Inr (d, eff) \<Longrightarrow> advancesOk d"
    by (auto simp: setBonus_def bindR_eq_Inr split: prod.splits elim!: re) (simp_all add: swapBonus_def split: if_splits)
  show "setSettlement db0 db v rid typed = Inr (d, eff) \<Longrightarrow> advancesOk d"
    by (auto simp: setSettlement_def bindR_eq_Inr split: prod.splits elim!: re) (auto simp: swapSettlement_def split: if_splits)
qed

lemma adv_execute:
  assumes "execute now queueUp db0 db v rid = (d, res)" "advancesOk db"
  shows "advancesOk d"
  using assms(1)
proof (cases rule: execute_cases)
  case (2 run period db2)
  then show ?thesis using assms(2) by (auto simp: claimRun_def bindR_eq_Inr split: if_splits)
qed (use assms(2) in simp)

lemma adv_step:
  assumes "payStep b c d" "since b c" "advancesOk c"
  shows "advancesOk d"
proof -
  have ok: "payOk c" using assms(2) by (simp add: since_def)
  from assms(1) show ?thesis
  proof cases
    case (period_opened today v dto)
    then show ?thesis using assms(3) by (auto simp: createPeriod_def openPeriod_def bindR_eq_Inr Let_def split: if_splits intro: adv_next)
  next
    case (run_made v run)
    then show ?thesis using assms(3) by (auto simp: createRun_def bindR_eq_Inr intro: adv_next)
  next
    case (period_paid now v pid eff)
    then show ?thesis using assms(3) by (auto simp: markPaid_def bindR_eq_Inr)
  next
    case (run_worked rid now made attempts)
    then show ?thesis using adv_deliverRun [OF ok _ assms(3)] by simp
  next
    case (run_broke rid r p policyOf now n)
    then show ?thesis using adv_brokenRegular [OF ok _ _ assms(3)] by simp
  qed (use assms(2,3) ok in \<open>auto intro: adv_sheets adv_discard adv_execute adv_lock adv_slip adv_advances adv_disputes\<close>)
qed

lemma adv_reach: "payReach a c \<Longrightarrow> payOk a \<Longrightarrow> advancesOk a \<Longrightarrow> advancesOk c"
proof (induction rule: payReach.induct)
  case (more a b c d)
  then have "payOk b" using good_reach goodD(1) by blast
  then have "since b c" by (rule reach_since [OF more.hyps(2)])
  with more show ?case using adv_step [OF more.hyps(3)] \<open>payOk b\<close> by blast
qed

end
