(* ===== verification/PayLock.thy ===== *)
theory PayLock
  imports PaySettle
begin

section \<open>The lock as one change of the tables\<close>

text \<open>
  What \<open>lock\<close> of \<open>payroll.service.ts\<close> leaves in each table, read off the tables it found, and when
  it goes through at all.
\<close>

definition lockedSlip :: "instant \<Rightarrow> PayDb \<Rightarrow> Payslip \<Rightarrow> Payslip" where
  "lockedSlip now db s =
     (let out = s\<lparr>sl_state := SL_ISSUED, sl_issuedAt := Some now\<rparr>
      in case employeeOf (pb_employees (pay_books db)) (sl_employeeId s) of
           None \<Rightarrow> out
         | Some e \<Rightarrow> out\<lparr>sl_bankName := em_bankName e, sl_bankAccount := em_bankAccount e\<rparr>)"

lemma lockedSlip_simps [simp]:
  "sl_id (lockedSlip now db s) = sl_id s" "sl_employeeId (lockedSlip now db s) = sl_employeeId s"
  "sl_runId (lockedSlip now db s) = sl_runId s" "sl_periodId (lockedSlip now db s) = sl_periodId s"
  "sl_lines (lockedSlip now db s) = sl_lines s" "sl_state (lockedSlip now db s) = SL_ISSUED"
  by (simp_all add: lockedSlip_def Let_def split: option.splits)

text \<open>The payslips a lock issues do not depend on the period's own state.\<close>

lemma periodNamed_shut:
  assumes "\<And>p. pp_id (f p) = pp_id p"
  shows "periodNamed (db\<lparr>pay_periods := updateMany P f (pay_periods db)\<rparr>) k =
     map_option (\<lambda>p. if P p then f p else p) (periodNamed db k)"
  unfolding periodNamed_def using assms by (simp add: firstWhere_updateMany)

lemma chosen_shut:
  assumes "\<And>p. pp_id (f p) = pp_id p" "\<And>p. pp_year (f p) = pp_year p" "\<And>p. pp_month (f p) = pp_month p"
  shows "chosen (db\<lparr>pay_periods := updateMany P f (pay_periods db)\<rparr>) pid s = chosen db pid s"
proof -
  let ?db = "db\<lparr>pay_periods := updateMany P f (pay_periods db)\<rparr>"
  have "doneSlips ?db = doneSlips db" by (intro ext) (simp add: doneSlips_def runNamed_def)
  moreover have "paidElsewhere ?db = paidElsewhere db"
    unfolding paidElsewhere_def periodNamed_shut [OF assms(1)]
    by (intro ext) (simp add: runNamed_def option.case_eq_if option.map_sel assms)
  ultimately show ?thesis by (simp add: chosen_def)
qed

text \<open>Before a lock every payslip of an open period is a draft; after it those that were chosen are not.\<close>

lemma open_drafts:
  assumes "payOk db" "\<exists>p \<in> set (pay_periods db). pp_id p = pid \<and> pp_state p = OPEN" "s \<in> set (pay_slips db)" "sl_periodId s = pid"
  shows "sl_state s = SL_DRAFT"
proof -
  have "\<not> isShut (pay_periods db) pid"
    using assms(1,2) unfolding payOk_def idsOk_def isShut_def by (metis distinct_map inj_onD)
  then show ?thesis using assms(1,3,4) unfolding payOk_def statesOk_def by blast
qed

lemma issued_slips:
  assumes draft: "\<And>s. s \<in> set (pay_slips db) \<Longrightarrow> sl_periodId s = pid \<Longrightarrow> sl_state s = SL_DRAFT"
    and db1: "pay_slips db1 = pay_slips db" "pay_books db1 = pay_books db" "\<And>s. chosen db1 pid s = chosen db pid s"
  shows "pay_slips (copyBanks pid (issueSlips now pid db1)) =
      map (\<lambda>s. if chosen db pid s then lockedSlip now db s else s) (pay_slips db)"
proof -
  have "(if issued pid s' \<and> employeeOf es (sl_employeeId s') \<noteq> None
         then let e = the (employeeOf es (sl_employeeId s')) in s'\<lparr>sl_bankName := em_bankName e, sl_bankAccount := em_bankAccount e\<rparr>
         else s') = (if chosen db pid s then lockedSlip now db s else s)"
    if "s \<in> set (pay_slips db)" "es = pb_employees (pay_books db)"
      "s' = (if chosen db pid s \<and> sl_state s = SL_DRAFT then s\<lparr>sl_state := SL_ISSUED, sl_issuedAt := Some now\<rparr> else s)" for s s' es
  proof (cases "chosen db pid s")
    case True
    then have "sl_periodId s = pid" using chosen_done by blast
    with True draft [OF that(1)] show ?thesis
      by (cases "employeeOf es (sl_employeeId s)") (simp_all add: that(2,3) issued_def lockedSlip_def Let_def)
  next
    case False
    then show ?thesis using draft [OF that(1)] by (auto simp: that(3) issued_def)
  qed
  then show ?thesis by (simp add: copyBanks_def issueSlips_def updateMany_def db1)
qed

lemma issued_iff:
  assumes "\<And>s. s \<in> set (pay_slips db) \<Longrightarrow> sl_periodId s = pid \<Longrightarrow> sl_state s = SL_DRAFT"
  shows "filter (\<lambda>s. issued pid s \<and> Q s) (map (\<lambda>s. if chosen db pid s then lockedSlip now db s else s) (pay_slips db))
    = map (lockedSlip now db) (filter (\<lambda>s. Q (lockedSlip now db s)) (chosenSlips db pid))"
proof -
  have "filter (\<lambda>s. issued pid s \<and> Q s) (map (\<lambda>s. if chosen db pid s then lockedSlip now db s else s) ss)
      = map (lockedSlip now db) (filter (\<lambda>s. Q (lockedSlip now db s)) (filter (chosen db pid) ss))"
    if "set ss \<subseteq> set (pay_slips db)" for ss
    using that
  proof (induction ss)
    case (Cons s ss)
    then have "chosen db pid s \<Longrightarrow> sl_periodId s = pid" "\<not> chosen db pid s \<Longrightarrow> \<not> issued pid s"
      using chosen_done assms by (auto simp: issued_def)
    with Cons show ?case by (auto simp: issued_def)
  qed simp
  then show ?thesis by (simp add: chosenSlips_def)
qed

lemma issued_ex:
  assumes "\<And>s. s \<in> set (pay_slips db) \<Longrightarrow> sl_periodId s = pid \<Longrightarrow> sl_state s = SL_DRAFT"
  shows "(\<exists>s \<in> set (map (\<lambda>s. if chosen db pid s then lockedSlip now db s else s) (pay_slips db)). issued pid s \<and> Q s)
    \<longleftrightarrow> (\<exists>s \<in> set (chosenSlips db pid). Q (lockedSlip now db s))"
proof -
  have "(\<exists>s \<in> set xs. P s) \<longleftrightarrow> filter P xs \<noteq> []" for P and xs :: "Payslip list" by (auto simp: filter_empty_conv)
  then show ?thesis by (simp only: issued_iff [OF assms] list.map_disc_iff)
qed

lemma ofRegular_runs: "pay_runs a = pay_runs b \<Longrightarrow> ofRegular a = ofRegular b"
  by (intro ext) (simp add: ofRegular_def runNamed_def)

lemma ofRegular_locked [simp]: "ofRegular db (lockedSlip now db' s) = ofRegular db s"
  by (simp add: ofRegular_def)

definition carries :: "PayDb \<Rightarrow> nat \<Rightarrow> (int \<times> dong) list" where
  "carries db pid =
     concat (map (\<lambda>s. map (\<lambda>l. (sl_employeeId s, ln_amount (snd l))) (filter (\<lambda>l. ln_code (snd l) = LINE_CARRY_OUT) (sl_lines s)))
       (filter (ofRegular db) (chosenSlips db pid)))"

definition settles :: "PayDb \<Rightarrow> nat \<Rightarrow> SalaryAdvance \<Rightarrow> bool" where
  "settles db pid a \<longleftrightarrow> av_state a = AV_PAID \<and> (\<exists>s \<in> set (chosenSlips db pid). av_payslipId a = Some (sl_id s))"

definition carriedHere :: "PayDb \<Rightarrow> nat \<Rightarrow> RetroAdjustment \<Rightarrow> bool" where
  "carriedHere db pid a \<longleftrightarrow> rt_state a = RT_PENDING \<and> rt_appliedPeriodId a = Some pid
     \<and> (\<exists>s \<in> set (chosenSlips db pid). ofRegular db s \<and> sl_employeeId s = rt_employeeId a
          \<and> (\<exists>l \<in> set (sl_lines s). ln_code (snd l) = ''RETRO_'' @ rt_code a))"

text \<open>C13: a lock changes exactly this. The payslips it chooses (every bonus, and of each person the newest
  settlement and the newest regular one unless that month was paid by another entity) are issued with the
  bank account of the day; the back payments they carried are applied and the advances they deducted
  settled; each amount they could not deduct becomes one back payment of the next month, in the order of
  the payslips; the period is locked; nothing else is written.\<close>

theorem lock_exact:
  assumes "lock today now db0 db v pid accepted why = Inr (d, eff)" "payOk db"
  shows "d = db\<lparr>
      pay_next := pay_next db + length (carries db pid),
      pay_periods := updateMany (\<lambda>p. pp_id p = pid \<and> pp_state p = OPEN)
        (\<lambda>p. p\<lparr>pp_state := LOCKED, pp_lockedAt := Some now, pp_lockedById := Some (v_userId v), pp_lockNote := trimmed why\<rparr>)
        (pay_periods db),
      pay_slips := map (\<lambda>s. if chosen db pid s then lockedSlip now db s else s) (pay_slips db),
      pay_retros := updateMany (carriedHere db pid) (\<lambda>a. a\<lparr>rt_state := RT_APPLIED\<rparr>) (pay_retros db)
        @ map (\<lambda>(i, c). carryRow i pid c) (enumerate (pay_next db) (carries db pid)),
      pay_advances := updateMany (settles db pid) (\<lambda>a. a\<lparr>av_state := AV_SETTLED, av_settledAt := Some now\<rparr>) (pay_advances db)\<rparr>"
proof -
  from assms(1) have "commitLock now db v pid why = Inr d" by (auto simp: lock_def bindR_eq_Inr Let_def)
  then obtain db1 where opened: "\<exists>p \<in> set (pay_periods db). pp_id p = pid \<and> pp_state p = OPEN"
    and db1: "db1 = db\<lparr>pay_periods := updateMany (\<lambda>p. pp_id p = pid \<and> pp_state p = OPEN)
       (\<lambda>p. p\<lparr>pp_state := LOCKED, pp_lockedAt := Some now, pp_lockedById := Some (v_userId v), pp_lockNote := trimmed why\<rparr>)
       (pay_periods db)\<rparr>"
    and d: "d = settleAdvances now pid (insertCarries pid (applyRetros pid (copyBanks pid (issueSlips now pid db1))))"
    by (rule commitLock_Inr)
  let ?ss = "map (\<lambda>s. if chosen db pid s then lockedSlip now db s else s) (pay_slips db)"
  let ?c = "copyBanks pid (issueSlips now pid db1)"
  note draft = open_drafts [OF assms(2) opened]
  have slips: "pay_slips ?c = ?ss"
    by (rule issued_slips [OF draft]) (simp_all add: db1 chosen_shut)
  have c: "?c = db1\<lparr>pay_slips := ?ss\<rparr>"
    using slips by (simp add: copyBanks_def issueSlips_def)
  have reg: "ofRegular ?c = ofRegular db" unfolding c by (rule ofRegular_runs) (simp add: db1)
  have carry: "carriedFrom pid (applyRetros pid ?c) = carries db pid"
  proof -
    have "carriedFrom pid (applyRetros pid ?c) = concat (map (\<lambda>s. map (\<lambda>l. (sl_employeeId s, ln_amount (snd l)))
        (filter (\<lambda>l. ln_code (snd l) = LINE_CARRY_OUT) (sl_lines s))) (filter (\<lambda>s. issued pid s \<and> ofRegular db s) ?ss))"
      using reg slips ofRegular_runs [of "applyRetros pid ?c" ?c] by (simp add: carriedFrom_def)
    then show ?thesis by (simp add: issued_iff [OF draft] carries_def comp_def)
  qed
  have retros: "pay_retros (applyRetros pid ?c)
      = updateMany (carriedHere db pid) (\<lambda>a. a\<lparr>rt_state := RT_APPLIED\<rparr>) (pay_retros db)"
  proof -
    have "pay_retros (applyRetros pid ?c) = updateMany (\<lambda>a. rt_state a = RT_PENDING \<and> rt_appliedPeriodId a = Some pid
          \<and> (\<exists>s \<in> set ?ss. issued pid s \<and> ofRegular db s \<and> sl_employeeId s = rt_employeeId a
               \<and> (\<exists>l \<in> set (sl_lines s). ln_code (snd l) = ''RETRO_'' @ rt_code a)))
          (\<lambda>a. a\<lparr>rt_state := RT_APPLIED\<rparr>) (pay_retros db)"
      using slips reg unfolding applyRetros_def by (simp add: c) (simp add: db1)
    then show ?thesis by (simp only: issued_ex [OF draft] carriedHere_def [abs_def] lockedSlip_simps ofRegular_locked)
  qed
  have advances: "pay_advances d
      = updateMany (settles db pid) (\<lambda>a. a\<lparr>av_state := AV_SETTLED, av_settledAt := Some now\<rparr>) (pay_advances db)"
  proof -
    have "pay_advances d = updateMany (\<lambda>a. av_state a = AV_PAID
          \<and> (\<exists>s \<in> set ?ss. issued pid s \<and> av_payslipId a = Some (sl_id s)))
          (\<lambda>a. a\<lparr>av_state := AV_SETTLED, av_settledAt := Some now\<rparr>) (pay_advances db)"
      unfolding d settleAdvances_def using slips by (simp add: c) (simp add: db1)
    then show ?thesis by (simp only: issued_ex [OF draft] settles_def [abs_def] lockedSlip_simps)
  qed
  have "d = (applyRetros pid ?c)\<lparr>pay_retros := pay_retros (applyRetros pid ?c)
        @ map (\<lambda>(i, c). carryRow i pid c) (enumerate (pay_next db) (carries db pid)),
      pay_next := pay_next db + length (carries db pid), pay_advances := pay_advances d\<rparr>"
    unfolding d settleAdvances_def insertCarries_def carry by (simp add: issueSlips_def db1)
  then show ?thesis unfolding retros advances by (simp add: applyRetros_def c) (simp add: db1)
qed

definition deductedSlip :: Payslip where
  "deductedSlip = (blankSlip 1 0 7 ''pol'')\<lparr>sl_id := 2, sl_netPay := 5000000,
     sl_lines := [(0, \<lparr>ln_kind = DEDUCTION, ln_code = LINE_ADVANCE, ln_label = None, ln_amount = 300000, ln_quantity = None, ln_rateBp = None\<rparr>),
       (1, \<lparr>ln_kind = INFO, ln_code = LINE_CARRY_OUT, ln_label = None, ln_amount = 50000, ln_quantity = None, ln_rateBp = None\<rparr>)]\<rparr>"

definition deductedAdvance :: SalaryAdvance where
  "deductedAdvance = sampleAdvance\<lparr>av_payslipId := Some 2\<rparr>"

definition readyPay :: PayDb where
  "readyPay = emptyPay\<lparr>pay_next := 6, pay_periods := [newPeriod emptyPay ''HN'' may2024], pay_runs := [doneRun 1 REGULAR],
     pay_slips := [deductedSlip], pay_advances := [deductedAdvance]\<rparr>"

lemma readyPay_ok: "payOk readyPay" "advancesOk readyPay"
proof -
  show "payOk readyPay"
    by (simp add: payOk_def idsOk_def refsOk_def statesOk_def oneOpen_def isShut_def readyPay_def emptyPay_def deductedSlip_def
        blankSlip_def doneRun_def newPeriod_def may2024_def)
  show "advancesOk readyPay"
    by (simp add: advOk_def linkedTo_def takenBy_def sumOf_def readyPay_def deductedSlip_def deductedAdvance_def sampleAdvance_def
        blankSlip_def LINE_ADVANCE_def LINE_CARRY_OUT_def)
qed

definition readyLocked :: PayDb where
  "readyLocked = fst (projr (lock 30000 90 readyPay readyPay paymaster 0 True (Some ''ok'')))"

lemma ready_locks: "\<exists>eff. lock 30000 90 readyPay readyPay paymaster 0 True (Some ''ok'') = Inr (readyLocked, eff)"
proof -
  have "\<not> isl (lock 30000 90 readyPay readyPay paymaster 0 True (Some ''ok''))" by code_simp
  then show ?thesis unfolding readyLocked_def by (cases "lock 30000 90 readyPay readyPay paymaster 0 True (Some ''ok'')") auto
qed

theorem lock_exact_witness:
  "\<exists>d eff. lock 30000 90 readyPay readyPay paymaster 0 True (Some ''ok'') = Inr (d, eff)
     \<and> map sl_state (pay_slips d) = [SL_ISSUED] \<and> map av_state (pay_advances d) = [AV_SETTLED]
     \<and> map rt_amount (pay_retros d) = [50000] \<and> pay_next d = 7"
proof -
  from ready_locks obtain eff where d: "lock 30000 90 readyPay readyPay paymaster 0 True (Some ''ok'') = Inr (readyLocked, eff)" by blast
  have "map sl_state (pay_slips readyLocked) = [SL_ISSUED] \<and> map av_state (pay_advances readyLocked) = [AV_SETTLED]
      \<and> map rt_amount (pay_retros readyLocked) = [50000] \<and> pay_next readyLocked = 7"
    unfolding lock_exact [OF d readyPay_ok(1)] by code_simp
  with d show ?thesis by (intro exI [of _ readyLocked] exI [of _ eff]) simp
qed

subsection \<open>When a lock goes through\<close>

text \<open>A period is locked exactly when the desk may, it is open and over, nothing on the checklist is
  left or the desk takes it on with a note, and of its runs none is going, every bonus and settlement is
  done or dropped, and so is the newest regular one that was not dropped; both when it was read and when
  it is written.\<close>

theorem lock_granted:
  "(\<exists>d eff. lock today now db0 db v pid accepted why = Inr (d, eff)) \<longleftrightarrow>
     v_role v \<in> {ADMIN, PAYROLL}
     \<and> (\<exists>p. periodNamed db0 pid = Some p \<and> reachesEntity v (Some (pp_entity p)) \<and> pp_state p = OPEN \<and> pp_endDate p < today
          \<and> ((\<forall>(code, n) \<in> set (checklist now db0 p). n = 0) \<or> accepted \<and> \<not> blankNote why))
     \<and> (\<exists>p \<in> set (pay_periods db). pp_id p = pid \<and> pp_state p = OPEN)
     \<and> (\<forall>at' \<in> {db0, db}. \<forall>r \<in> set (pay_runs at'). rn_periodId r = pid \<longrightarrow>
          rn_state r \<in> {RN_DONE, RN_DISCARDED}
          \<or> rn_kind r = REGULAR \<and> rn_state r \<noteq> RN_RUNNING
            \<and> rn_id r \<noteq> rn_id (last (filter (\<lambda>r. rn_periodId r = pid \<and> rn_kind r = REGULAR \<and> rn_state r \<noteq> RN_DISCARDED)
                (pay_runs at'))))"
proof -
  have last: "find P (rev xs) = (if filter P xs = [] then None else Some (last (filter P xs)))" for P and xs :: "PayrollRun list"
    by (induction xs rule: rev_induct) auto
  have settled: "requireRunsSettled db pid = Inr () \<longleftrightarrow> (\<forall>r \<in> set (pay_runs db). rn_periodId r = pid \<longrightarrow>
          rn_state r \<in> {RN_DONE, RN_DISCARDED}
          \<or> rn_kind r = REGULAR \<and> rn_state r \<noteq> RN_RUNNING
            \<and> rn_id r \<noteq> rn_id (last (filter (\<lambda>r. rn_periodId r = pid \<and> rn_kind r = REGULAR \<and> rn_state r \<noteq> RN_DISCARDED)
                (pay_runs db))))" for db
  proof -
    let ?P = "\<lambda>r. rn_periodId r = pid \<and> rn_state r \<noteq> RN_DISCARDED"
    let ?reg = "filter (\<lambda>r. rn_periodId r = pid \<and> rn_kind r = REGULAR \<and> rn_state r \<noteq> RN_DISCARDED) (pay_runs db)"
    have same: "filter (\<lambda>r. rn_kind r = REGULAR) (filter ?P (pay_runs db)) = ?reg" by (simp add: conj_commute conj_left_commute)
    have newest: "map_option rn_id (find (\<lambda>r. rn_kind r = REGULAR) (filter ?P (rev (pay_runs db))))
        = (if ?reg = [] then None else Some (rn_id (last ?reg)))"
      unfolding rev_filter [symmetric] last same by simp
    have some: "?reg \<noteq> []" if "r \<in> set (pay_runs db)" "rn_periodId r = pid" "rn_kind r = REGULAR" "rn_state r \<noteq> RN_DISCARDED" for r
      using that by (auto simp: filter_empty_conv)
    show ?thesis unfolding requireRunsSettled_def Let_def newest
      using some by (auto simp: bindR_eq_Inr filter_empty_conv)
  qed
  have clear: "filter (\<lambda>(_, n). n > 0) (checklist now db0 p) = [] \<longleftrightarrow> (\<forall>(code, n) \<in> set (checklist now db0 p). n = 0)" for p
    by (auto simp: filter_empty_conv)
  have commit: "(\<exists>d. commitLock now db v pid why = Inr d) \<longleftrightarrow> requireRunsSettled db pid = Inr ()
      \<and> (\<exists>p \<in> set (pay_periods db). pp_id p = pid \<and> pp_state p = OPEN)"
    by (auto simp: commitLock_def bindR_eq_Inr Let_def shutPeriod_def claimWhere_def filter_empty_conv)
  have "(\<exists>d eff. lock today now db0 db v pid accepted why = Inr (d, eff)) \<longleftrightarrow>
     v_role v \<in> WRITERS
     \<and> (\<exists>p. periodOf db0 v pid = Inr p \<and> pp_state p = OPEN \<and> pp_endDate p < today
          \<and> ((\<forall>(code, n) \<in> set (checklist now db0 p). n = 0) \<or> accepted \<and> \<not> blankNote why))
     \<and> requireRunsSettled db0 pid = Inr () \<and> (\<exists>d. commitLock now db v pid why = Inr d)"
    unfolding lock_def Let_def clear by (auto simp: bindR_eq_Inr mayWrite_def not_le)
  then show ?thesis unfolding commit settled
    by (auto simp: WRITERS_def periodOf_def requirePeriod_def bindR_eq_Inr)
qed

theorem lock_granted_witness:
  "(\<exists>d eff. lock 30000 90 readyPay readyPay paymaster 0 True (Some ''ok'') = Inr (d, eff))
     \<and> (\<exists>p. periodNamed readyPay 0 = Some p \<and> pp_state p = OPEN \<and> pp_endDate p < 30000)
     \<and> \<not> (\<exists>d eff. lock 10000 90 readyPay readyPay paymaster 0 True (Some ''ok'') = Inr (d, eff))"
proof -
  have granted: "\<exists>d eff. lock 30000 90 readyPay readyPay paymaster 0 True (Some ''ok'') = Inr (d, eff)" using ready_locks by blast
  from lock_granted [THEN iffD1, OF this]
  obtain p where p: "periodNamed readyPay 0 = Some p" "pp_state p = OPEN" "pp_endDate p < 30000" by blast
  have "map_option pp_endDate (periodNamed readyPay 0) = Some 19874" by code_simp
  with p(1) have "\<not> pp_endDate p < 10000" by simp
  with p(1) have "\<not> (\<exists>d eff. lock 10000 90 readyPay readyPay paymaster 0 True (Some ''ok'') = Inr (d, eff))"
    unfolding lock_granted by simp
  with granted p show ?thesis by blast
qed

subsection \<open>What settled means\<close>

text \<open>C4: whatever the handlers, the worker and the staff do in whatever order, from tables that are sound
  (as empty ones are), a settled advance was taken back whole: it points at a payslip of its own person
  that was issued, whose advance lines add up to the advances that point at it, all of them settled.\<close>

theorem settled_means_recovered:
  assumes "payReach start db" "payOk start" "advancesOk start" "a \<in> set (pay_advances db)" "av_state a = AV_SETTLED"
  shows "\<exists>s \<in> set (pay_slips db). av_payslipId a = Some (sl_id s) \<and> sl_state s \<noteq> SL_DRAFT \<and> sl_employeeId s = av_employeeId a
     \<and> sumOf (sl_lines s) LINE_ADVANCE
         = sum_list (map av_amount (filter (\<lambda>b. av_payslipId b = Some (sl_id s)) (pay_advances db)))
     \<and> (\<forall>b \<in> set (pay_advances db). av_payslipId b = Some (sl_id s) \<longrightarrow> av_state b = AV_SETTLED)"
proof -
  note ok = adv_reach [OF assms(1-3)]
  from advOkD(3) [OF ok assms(4,5)] obtain s where
    s: "s \<in> set (pay_slips db)" "av_payslipId a = Some (sl_id s)" "sl_state s \<noteq> SL_DRAFT" by blast
  from s(2) assms(4) have "linkedTo (pay_advances db) (sl_id s) \<noteq> []" by (auto simp: linkedTo_def filter_empty_conv)
  from advOkD(4) [OF ok s(1) this] have "sumOf (sl_lines s) LINE_ADVANCE
      = sum_list (map av_amount (filter (\<lambda>b. av_payslipId b = Some (sl_id s)) (pay_advances db)))"
    by (simp add: takenBy_def linkedTo_def)
  with s advOkD(5) [OF ok s(1) assms(4) s(2)] advOkD(6) [OF ok s(1) _ _ assms(4) s(2)] assms(5) show ?thesis by metis
qed

theorem settled_means_recovered_witness:
  "\<exists>db a s. payReach readyPay db \<and> a \<in> set (pay_advances db) \<and> av_state a = AV_SETTLED \<and> av_amount a = 300000
     \<and> s \<in> set (pay_slips db) \<and> av_payslipId a = Some (sl_id s) \<and> sl_state s \<noteq> SL_DRAFT \<and> sumOf (sl_lines s) LINE_ADVANCE = 300000"
proof -
  let ?d = readyLocked
  from ready_locks obtain eff where lock: "lock 30000 90 readyPay readyPay paymaster 0 True (Some ''ok'') = Inr (?d, eff)" by blast
  have reach: "payReach readyPay ?d"
    by (rule payReach.more [OF payReach.start payReach.start payStep.period_locked [OF lock]])
  have adv: "pay_advances ?d = [deductedAdvance\<lparr>av_state := AV_SETTLED, av_settledAt := Some 90\<rparr>]" by code_simp
  let ?a = "deductedAdvance\<lparr>av_state := AV_SETTLED, av_settledAt := Some 90\<rparr>"
  have "?a \<in> set (pay_advances ?d)" "av_state ?a = AV_SETTLED" by (simp_all add: adv)
  from settled_means_recovered [OF reach readyPay_ok this]
  obtain s where "s \<in> set (pay_slips ?d)" "av_payslipId ?a = Some (sl_id s)" "sl_state s \<noteq> SL_DRAFT"
    "sumOf (sl_lines s) LINE_ADVANCE
       = sum_list (map av_amount (filter (\<lambda>b. av_payslipId b = Some (sl_id s)) (pay_advances ?d)))" by blast
  moreover from this(2) have "sum_list (map av_amount (filter (\<lambda>b. av_payslipId b = Some (sl_id s)) (pay_advances ?d))) = 300000"
    by (simp add: adv deductedAdvance_def sampleAdvance_def)
  ultimately show ?thesis using reach \<open>?a \<in> set (pay_advances ?d)\<close> \<open>av_state ?a = AV_SETTLED\<close>
    by (intro exI [of _ ?d] exI [of _ ?a] exI [of _ s]) (simp add: deductedAdvance_def sampleAdvance_def)
qed

subsection \<open>An advance deducted and still out\<close>

text \<open>Two regular runs priced the same person; the one of a department finished last and took the link.\<close>

definition twicePay :: PayDb where
  "twicePay = emptyPay\<lparr>pay_next := 6, pay_periods := [newPeriod emptyPay ''HN'' may2024],
     pay_runs := [(doneRun 1 REGULAR)\<lparr>rn_departmentId := Some ''X'', rn_finishedAt := Some 20\<rparr>, doneRun 4 REGULAR],
     pay_slips := [deductedSlip, deductedSlip\<lparr>sl_id := 5, sl_runId := 4\<rparr>], pay_advances := [deductedAdvance],
     pay_books := sampleBooks\<lparr>pb_employees := [sampleWorker\<lparr>em_legalEntityId := ''HN'', em_departmentId := Some ''Y''\<rparr>]\<rparr>\<rparr>"

lemma twicePay_ok: "payOk twicePay" "advancesOk twicePay"
proof -
  show "payOk twicePay"
    by (simp add: payOk_def idsOk_def refsOk_def statesOk_def oneOpen_def isShut_def twicePay_def emptyPay_def deductedSlip_def
        blankSlip_def doneRun_def newPeriod_def may2024_def)
  show "advancesOk twicePay"
    by (simp add: advOk_def linkedTo_def takenBy_def sumOf_def twicePay_def deductedSlip_def deductedAdvance_def sampleAdvance_def
        blankSlip_def LINE_ADVANCE_def LINE_CARRY_OUT_def)
qed

definition twiceRerun :: PayDb where
  "twiceRerun = deliverRun 30 1 3 (fst (execute 25 True twicePay twicePay paymaster 1)) 1"

definition lockSample :: "PayDb \<Rightarrow> PayDb" where
  "lockSample db = fst (projr (lock 30000 90 db db paymaster 0 True (Some ''ok'')))"

text \<open>Two regular runs priced one person and the later one of a department holds the link of the
  advance. Locked there, the advance is settled. If the department's run is worked again after the person
  left the department, its payslip goes and the link with it; the lock then issues the other run's
  payslip, whose advance line is deducted, and the advance stays paid out, for the next month to deduct again.\<close>

theorem rerun_leaves_advance_out:
  "payOk twicePay \<and> advancesOk twicePay \<and> payReach twicePay twiceRerun
   \<and> map (\<lambda>s. (sl_id s, sl_state s)) (pay_slips (lockSample twicePay)) = [(2, SL_ISSUED), (5, SL_DRAFT)]
   \<and> map av_state (pay_advances (lockSample twicePay)) = [AV_SETTLED]
   \<and> map (\<lambda>s. (sl_id s, sl_state s, sumOf (sl_lines s) LINE_ADVANCE)) (pay_slips (lockSample twiceRerun)) = [(5, SL_ISSUED, 300000)]
   \<and> map (\<lambda>a. (av_employeeId a, av_amount a, av_state a)) (pay_advances (lockSample twiceRerun)) = [(7, 300000, AV_PAID)]"
proof -
  let ?going = "fst (execute 25 True twicePay twicePay paymaster 1)"
  have "map (\<lambda>r. (rn_id r, rn_state r)) (pay_runs ?going) = [(1, RN_RUNNING), (4, RN_DONE)]" by code_simp
  then have going: "going ?going 1" by (auto simp: going_def runNamed_def firstWhere_def map_eq_Cons_conv)
  have "payReach twicePay ?going"
    by (rule payReach.more [OF payReach.start payReach.start payStep.run_pressed [OF prod.collapse [symmetric]]])
  then have "payReach twicePay twiceRerun" unfolding twiceRerun_def
    by (rule payReach.more [OF _ payReach.start payStep.run_worked [OF going]])
  moreover have "map (\<lambda>s. (sl_id s, sl_state s)) (pay_slips (lockSample twicePay)) = [(2, SL_ISSUED), (5, SL_DRAFT)]" by code_simp
  moreover have "map av_state (pay_advances (lockSample twicePay)) = [AV_SETTLED]" by code_simp
  moreover have "map (\<lambda>s. (sl_id s, sl_state s, sumOf (sl_lines s) LINE_ADVANCE)) (pay_slips (lockSample twiceRerun)) = [(5, SL_ISSUED, 300000)]"
    by code_simp
  moreover have "map (\<lambda>a. (av_employeeId a, av_amount a, av_state a)) (pay_advances (lockSample twiceRerun)) = [(7, 300000, AV_PAID)]"
    by code_simp
  ultimately show ?thesis using twicePay_ok by blast
qed

end
