(* ===== verification/ClaimLaws.thy ===== *)
theory ClaimLaws
  imports PayLock
begin

section \<open>A dispute is answered once\<close>

text \<open>
  The disputes of \<open>disputes.service.ts\<close> among every other step of the payroll: only the dispute handlers
  write them, and a dispute that has been closed is never written again, whatever older state a handler
  read it in.
\<close>

definition calm :: "PayDb \<Rightarrow> PayDb \<Rightarrow> bool" where
  "calm a b \<longleftrightarrow> pay_disputes b = pay_disputes a \<and> pay_next a \<le> pay_next b"

lemma calmI [intro]: "pay_disputes b = pay_disputes a \<Longrightarrow> pay_next a \<le> pay_next b \<Longrightarrow> calm a b"
  by (simp add: calm_def)

lemma calm_tables [simp]:
  "pay_disputes (setRun db rid f) = pay_disputes db" "pay_disputes (writeSlips db slips) = pay_disputes db"
  "pay_disputes (clearSlips db rid) = pay_disputes db" "pay_disputes (dropSlips db rids) = pay_disputes db"
  "pay_disputes (staleOver db pid kinds except) = pay_disputes db" "pay_disputes (markCarried db rid pid rs avs) = pay_disputes db"
  by (simp_all add: setRun_def writeSlips_def clearSlips_def dropSlips_def staleOver_def markCarried_def Let_def)

lemma calm_run: "computeRun now db rid = Inr d \<Longrightarrow> calm db d"
proof -
  assume d: "computeRun now db rid = Inr d"
  have extra: "calm db (extraFinish now db r slips n)" for r slips n by (auto simp: extraFinish_def)
  from d consider run where "d = setRun db rid run" | run p where "runRegular now db run p = Inr d"
    | run p where "runBonus now db run p = Inr d" | run p where "runSettlement now db run p = Inr d"
    unfolding computeRun_def by (auto split: option.splits if_splits RunKind.splits)
  then show ?thesis
  proof cases
    case 2
    then show ?thesis by (auto simp: runRegular_def bindR_eq_Inr Let_def regularFinish_def regularStart_def)
  qed (auto elim!: runBonus_Inr runSettlement_Inr simp: extra)
qed

lemma calm_reload:
  assumes "reload db rid pid swap = Inr d"
    "\<And>db'. swap db = Inr db' \<Longrightarrow> pay_disputes db' = pay_disputes db \<and> pay_next db' = pay_next db"
  shows "calm db d"
proof -
  from assms(1) obtain db1 where db1: "swap db = Inr db1"
    and d: "pay_disputes d = pay_disputes db1 \<and> pay_next d = pay_next db1"
    by (auto simp: reload_def bindR_eq_Inr claimWhere_def Let_def split: if_splits)
  from assms(2) [OF db1] d show ?thesis by auto
qed

lemma calm_step:
  assumes "payStep b c d" "\<nexists>now n v i code complaint eff. raiseDispute now n b c v i code complaint = Inr (d, eff)"
    "\<nexists>now v i body eff. answerDispute now b c v i body = Inr (d, eff)" "\<nexists>v i eff. withdrawDispute b c v i = Inr (d, eff)"
  shows "calm c d"
  using assms(1)
proof cases
  case (period_opened today v dto)
  then show ?thesis by (auto simp: createPeriod_def openPeriod_def bindR_eq_Inr Let_def split: if_splits)
next
  case (run_made v run)
  then show ?thesis by (auto simp: createRun_def bindR_eq_Inr)
next
  case (bonus_set v rid items eff)
  then show ?thesis by (auto simp: setBonus_def bindR_eq_Inr split: prod.splits elim!: calm_reload) (simp_all add: swapBonus_def split: if_splits)
next
  case (settlement_set v rid typed eff)
  then show ?thesis by (auto simp: setSettlement_def bindR_eq_Inr split: prod.splits elim!: calm_reload) (auto simp: swapSettlement_def split: if_splits)
next
  case (run_dropped v rid eff)
  then show ?thesis by (auto simp: discard_def commitDiscard_def bindR_eq_Inr Let_def split: prod.splits)
next
  case (run_pressed now queueUp v rid res)
  from this(1) show ?thesis
  proof (cases rule: execute_cases)
    case (2 run period db2)
    then show ?thesis by (auto simp: claimRun_def bindR_eq_Inr split: if_splits)
  qed auto
next
  case (run_worked rid now made attempts)
  then show ?thesis by (auto simp: deliverRun_def failRun_def split: sum.splits option.splits dest: calm_run)
next
  case (run_broke rid r p policyOf now n)
  then show ?thesis by (auto simp: brokenRegular_def regularStart_def Let_def)
next
  case (period_locked today now v pid accepted why eff)
  then have "commitLock now c v pid why = Inr d" by (auto simp: lock_def bindR_eq_Inr Let_def)
  then show ?thesis
    by (rule commitLock_Inr) (auto simp: settleAdvances_def insertCarries_def applyRetros_def copyBanks_def issueSlips_def)
next
  case (period_paid now v pid eff)
  then show ?thesis by (auto simp: markPaid_def bindR_eq_Inr)
next
  case (slip_opened now staff v i s eff)
  then show ?thesis by (auto simp: payslip_def bindR_eq_Inr Let_def split: if_splits)
next
  case (slip_sent now i)
  then show ?thesis by (auto simp: markSent_def)
qed (use assms in \<open>auto simp: submitAdvance_def decideAdvance_def payAdvance_def cancelAdvance_def claimAdvance_def claimWhere_def
      bindR_eq_Inr Let_def\<close>)

text \<open>What a dispute step leaves of the table: the row it names settled, or a new row, the rest as it was.\<close>

definition numbered :: "PayDb \<Rightarrow> bool" where
  "numbered db \<longleftrightarrow> distinct (map di_id (pay_disputes db)) \<and> (\<forall>x \<in> set (pay_disputes db). di_id x < pay_next db)"

definition frozen :: "PayDb \<Rightarrow> PayDb \<Rightarrow> bool" where
  "frozen a b \<longleftrightarrow> (\<forall>i held. disputeNamed a i = Some held \<longrightarrow> di_state held \<noteq> DS_OPEN \<longrightarrow> disputeNamed b i = Some held)"

lemma raise_rows:
  assumes "raiseDispute now n b c v sid code complaint = Inr (d, eff)"
  obtains x where "pay_disputes d = pay_disputes c @ [x]" "di_id x = pay_next c" "pay_next d = pay_next c + 1" "di_state x = DS_OPEN"
  using assms by (auto simp: raiseDispute_def bindR_eq_Inr)

lemma withdraw_rows:
  assumes "withdrawDispute b c v i = Inr (d, eff)"
  shows "d = c\<lparr>pay_disputes := snd (answering.press i TakenBack (pay_disputes c))\<rparr>" "fst (answering.press i TakenBack (pay_disputes c)) = 1"
proof -
  from assms have "disputeNamed b i \<noteq> None" by (cases "disputeNamed b i") (simp_all add: withdrawDispute_def)
  then obtain held where held: "disputeNamed b i = Some held" by blast
  from firstWhere_key [OF held [unfolded disputeNamed_def]] have "di_id held = i" ..
  with assms held have "length (filter (\<lambda>d. di_id d = i \<and> di_state d = DS_OPEN) (pay_disputes c)) = 1
      \<and> d = c\<lparr>pay_disputes := updateMany (\<lambda>d. di_id d = i \<and> di_state d = DS_OPEN) (\<lambda>d. d\<lparr>di_state := DS_WITHDRAWN\<rparr>) (pay_disputes c)\<rparr>"
    unfolding withdrawDispute_def Let_def claimWhere_def by (auto simp: bindR_eq_Inr)
  then show "d = c\<lparr>pay_disputes := snd (answering.press i TakenBack (pay_disputes c))\<rparr>"
    "fst (answering.press i TakenBack (pay_disputes c)) = 1"
    unfolding claimWhere_def shutDispute.simps fst_conv snd_conv by blast+
qed

text \<open>The answer of a dispute: its row settled and linked, and one back payment if it was upheld with an amount.\<close>

abbreviation answerRows :: "string \<Rightarrow> instant \<Rightarrow> nat \<Rightarrow> AnswerDisputeDto \<Rightarrow> PayslipDispute list \<Rightarrow> nat \<times> PayslipDispute list" where
  "answerRows by' now i body rows \<equiv> claimWhere (\<lambda>d. di_id d = i \<and> di_state d = DS_OPEN) (answeredDispute by' now body) rows"

lemma commitAnswer_rows:
  assumes "commitAnswer now c v held pid body = Inr d"
  shows "fst (answerRows (v_userId v) now (di_id held) body (pay_disputes c)) = 1"
    "pay_retros d = pay_retros c @ (case (an_outcome body, an_amount body) of
        (UPHELD, Some amount) \<Rightarrow> [backPayment (pay_next c) (di_employeeId held) pid body amount] | _ \<Rightarrow> [])"
    "pay_disputes d = updateMany (\<lambda>x. di_id x = di_id held)
        (\<lambda>x. x\<lparr>di_retroId := if an_outcome body = UPHELD \<and> an_amount body \<noteq> None then Some (pay_next c) else None\<rparr>)
        (snd (answerRows (v_userId v) now (di_id held) body (pay_disputes c)))"
    "pay_next c \<le> pay_next d"
proof -
  obtain n rows where rows: "answerRows (v_userId v) now (di_id held) body (pay_disputes c) = (n, rows)" by (cases "answerRows (v_userId v) now (di_id held) body (pay_disputes c)")
  have "n = 1" "pay_retros d = pay_retros c @ (case (an_outcome body, an_amount body) of
        (UPHELD, Some amount) \<Rightarrow> [backPayment (pay_next c) (di_employeeId held) pid body amount] | _ \<Rightarrow> [])"
    "pay_disputes d = updateMany (\<lambda>x. di_id x = di_id held)
        (\<lambda>x. x\<lparr>di_retroId := if an_outcome body = UPHELD \<and> an_amount body \<noteq> None then Some (pay_next c) else None\<rparr>) rows"
    "pay_next c \<le> pay_next d"
    using assms unfolding commitAnswer_def rows Let_def
    by (cases "an_outcome body"; cases "an_amount body"; auto simp: bindR_eq_Inr)+
  then show "fst (answerRows (v_userId v) now (di_id held) body (pay_disputes c)) = 1"
    "pay_retros d = pay_retros c @ (case (an_outcome body, an_amount body) of
        (UPHELD, Some amount) \<Rightarrow> [backPayment (pay_next c) (di_employeeId held) pid body amount] | _ \<Rightarrow> [])"
    "pay_disputes d = updateMany (\<lambda>x. di_id x = di_id held)
        (\<lambda>x. x\<lparr>di_retroId := if an_outcome body = UPHELD \<and> an_amount body \<noteq> None then Some (pay_next c) else None\<rparr>)
        (snd (answerRows (v_userId v) now (di_id held) body (pay_disputes c)))"
    "pay_next c \<le> pay_next d"
    unfolding rows by simp_all
qed

lemma answer_rows:
  assumes "answerDispute now b c v i body = Inr (d, eff)"
  obtains held pid where "disputeNamed b i = Some held" "di_id held = i" "commitAnswer now c v held pid body = Inr d"
proof -
  have "\<exists>held (slip :: Payslip). disputeNamed b i = Some held \<and> commitAnswer now c v held (sl_periodId slip) body = Inr d"
    using assms by (auto simp: answerDispute_def openDispute_def bindR_eq_Inr split: option.splits if_splits)
  then show thesis using that by (metis disputeNamed_def firstWhere_key)
qed

lemma answerRows_press: "answerRows by' now i body rows = answering.press i (Replied by' now body) rows"
proof -
  have "answeredDispute by' now body = shutDispute (Replied by' now body)" by (rule ext) simp
  then show ?thesis by simp
qed

text \<open>A won press names an open dispute; it leaves the ids and every other dispute as they were.\<close>

lemma won_press:
  assumes "fst (answering.press i p rows) = 1" "distinct (map di_id rows)"
  obtains r where "firstWhere di_id i rows = Some r" "di_state r = DS_OPEN"
proof -
  have "\<exists>r. firstWhere di_id i rows = Some r \<and> di_state r = DS_OPEN"
    using assms(1) unfolding answering.press_waits [OF assms(2)] by (metis zero_neq_one)
  then show thesis using that by blast
qed

lemma numbered_keys:
  assumes "numbered c" "map di_id (pay_disputes d) = map di_id (pay_disputes c)" "pay_next c \<le> pay_next d"
  shows "numbered d"
proof -
  have "di_id ` set (pay_disputes d) = di_id ` set (pay_disputes c)" using assms(2) by (metis list.set_map)
  with assms show ?thesis unfolding numbered_def by (metis (no_types, opaque_lifting) imageE imageI less_le_trans)
qed

lemma answered_row:
  assumes "answerDispute now b c v i body = Inr (d, eff)" "numbered c"
  obtains held r where "disputeNamed b i = Some held" "disputeNamed c i = Some r" "di_state r = DS_OPEN"
    "disputeNamed d i = Some ((answeredDispute (v_userId v) now body r)\<lparr>di_retroId :=
       if an_outcome body = UPHELD \<and> an_amount body \<noteq> None then Some (pay_next c) else None\<rparr>)"
    "\<And>k. k \<noteq> i \<Longrightarrow> disputeNamed d k = disputeNamed c k" "numbered d"
proof -
  let ?link = "\<lambda>x. x\<lparr>di_retroId := if an_outcome body = UPHELD \<and> an_amount body \<noteq> None then Some (pay_next c) else None\<rparr>"
  from assms(1) obtain held pid where held: "disputeNamed b i = Some held" "di_id held = i" "commitAnswer now c v held pid body = Inr d"
    by (rule answer_rows)
  let ?p = "Replied (v_userId v) now body"
  note rows = commitAnswer_rows [OF held(3), unfolded held(2) answerRows_press]
  have ids: "distinct (map di_id (pay_disputes c))" using assms(2) by (simp add: numbered_def)
  from won_press [OF rows(1) ids] obtain r where r: "firstWhere di_id i (pay_disputes c) = Some r" "di_state r = DS_OPEN" .
  have key: "\<And>x. di_id (?link x) = di_id x" by simp
  have named: "disputeNamed d k = map_option (\<lambda>x. if di_id x = i then ?link x else x)
      (firstWhere di_id k (snd (answering.press i ?p (pay_disputes c))))" for k
    unfolding disputeNamed_def rows(3) by (rule firstWhere_updateMany) simp
  have "firstWhere di_id i (snd (answering.press i ?p (pay_disputes c))) = Some (answeredDispute (v_userId v) now body r)"
    unfolding answering.press_row r by (simp add: r)
  moreover have "di_id (answeredDispute (v_userId v) now body r) = i"
    using firstWhere_key [OF r(1)] by (simp add: answeredDispute_def)
  ultimately have "disputeNamed d i = Some (?link (answeredDispute (v_userId v) now body r))" unfolding named by simp
  moreover have "disputeNamed d k = disputeNamed c k" if "k \<noteq> i" for k
    unfolding named answering.press_other [OF that]
    using that firstWhere_key [of di_id k "pay_disputes c"]
    by (cases "firstWhere di_id k (pay_disputes c)") (auto simp: disputeNamed_def)
  moreover have "numbered d"
    by (rule numbered_keys [OF assms(2) _ rows(4)]) (simp add: rows(3) updateMany_keys answering.press_keys)
  ultimately show thesis using that [OF held(1)] r by (simp add: disputeNamed_def)
qed

lemma numbered_step:
  assumes "payStep b c d" "numbered c"
  shows "numbered d \<and> frozen c d"
proof -
  consider now n v i code complaint eff where "raiseDispute now n b c v i code complaint = Inr (d, eff)"
    | now v i body eff where "answerDispute now b c v i body = Inr (d, eff)"
    | v i eff where "withdrawDispute b c v i = Inr (d, eff)"
    | "calm c d"
    using calm_step [OF assms(1)] by blast
  then show ?thesis
  proof cases
    case 1
    then obtain x where x: "pay_disputes d = pay_disputes c @ [x]" "di_id x = pay_next c" "pay_next d = pay_next c + 1"
      by (rule raise_rows)
    have "numbered d" using assms(2) by (auto simp: numbered_def x)
    then show ?thesis by (simp add: frozen_def disputeNamed_def x(1) firstWhere_append)
  next
    case 2
    then obtain r where "disputeNamed c i = Some r" "di_state r = DS_OPEN" "\<And>k. k \<noteq> i \<Longrightarrow> disputeNamed d k = disputeNamed c k" "numbered d"
      using answered_row [OF _ assms(2)] by metis
    then show ?thesis unfolding frozen_def by (metis option.inject)
  next
    case 3
    from withdraw_rows [OF 3] have d: "pay_disputes d = snd (answering.press i TakenBack (pay_disputes c))" "pay_next d = pay_next c"
      and won: "fst (answering.press i TakenBack (pay_disputes c)) = 1" by simp_all
    have "numbered d" using numbered_keys [OF assms(2)] by (simp add: d answering.press_keys)
    moreover from won_press [OF won] assms(2) obtain r where "disputeNamed c i = Some r" "di_state r = DS_OPEN"
      unfolding numbered_def disputeNamed_def by blast
    moreover have "disputeNamed d k = disputeNamed c k" if "k \<noteq> i" for k
      unfolding disputeNamed_def d by (rule answering.press_other [OF that])
    ultimately show ?thesis unfolding frozen_def by (metis option.inject)
  next
    case 4
    then show ?thesis using assms(2) by (auto simp: calm_def numbered_def frozen_def disputeNamed_def)
  qed
qed

lemma numbered_reach: "payReach a c \<Longrightarrow> numbered a \<Longrightarrow> numbered c \<and> frozen a c"
proof (induction rule: payReach.induct)
  case (more a b c d)
  then have "numbered d \<and> frozen c d" using numbered_step by blast
  moreover have "frozen a b" "frozen b c" using more by blast+
  ultimately show ?case unfolding frozen_def by blast
qed (simp add: frozen_def)

text \<open>C30: a dispute is answered once. In any history, an answer that went through found the dispute open,
  wrote it and made the back payment it links when it was upheld with an amount, and none otherwise; and
  from then on, whatever older state a second answer or a withdrawal was read in, it is refused and the
  dispute stays as it was answered.\<close>

theorem dispute_pays_once:
  assumes "payReach start c" "pay_disputes start = []" "answerDispute now b c v i body = Inr (d, eff)" "payReach d e"
  shows "(\<exists>r minted. disputeNamed c i = Some r \<and> di_state r = DS_OPEN \<and> pay_retros d = pay_retros c @ minted
       \<and> length minted = (if an_outcome body = UPHELD \<and> an_amount body \<noteq> None then 1 else 0)
       \<and> (\<forall>x \<in> set minted. rt_employeeId x = di_employeeId (the (disputeNamed b i)) \<and> rt_amount x = the (an_amount body))
       \<and> disputeNamed e i = Some ((answeredDispute (v_userId v) now body r)\<lparr>di_retroId :=
            if minted = [] then None else Some (rt_id (hd minted))\<rparr>))
     \<and> (\<nexists>now' b' v' body' r. answerDispute now' b' e v' i body' = Inr r)
     \<and> (\<nexists>b' v' r. withdrawDispute b' e v' i = Inr r)"
proof -
  have "numbered start" using assms(2) by (simp add: numbered_def)
  then have c: "numbered c" using numbered_reach [OF assms(1)] by blast
  from answered_row [OF assms(3) c] obtain held r where held: "disputeNamed b i = Some held"
    and r: "disputeNamed c i = Some r" "di_state r = DS_OPEN"
    and d: "disputeNamed d i = Some ((answeredDispute (v_userId v) now body r)\<lparr>di_retroId :=
       if an_outcome body = UPHELD \<and> an_amount body \<noteq> None then Some (pay_next c) else None\<rparr>)" "numbered d" by metis
  note on = numbered_reach [OF assms(4) d(2)]
  have "disputeNamed e i = disputeNamed d i"
    unfolding d(1) by (rule on [THEN conjunct2, unfolded frozen_def, rule_format, OF d(1)]) (simp add: answeredDispute_def)
  with on have e: "numbered e" "disputeNamed e i = disputeNamed d i" by blast+
  from answer_rows [OF assms(3)] held obtain pid where "commitAnswer now c v held pid body = Inr d" by auto
  note retros = commitAnswer_rows(2) [OF this]
  let ?minted = "case (an_outcome body, an_amount body) of
        (UPHELD, Some amount) \<Rightarrow> [backPayment (pay_next c) (di_employeeId held) pid body amount] | _ \<Rightarrow> []"
  have mint: "length ?minted = (if an_outcome body = UPHELD \<and> an_amount body \<noteq> None then 1 else 0)"
    "\<forall>x \<in> set ?minted. rt_employeeId x = di_employeeId held \<and> rt_amount x = the (an_amount body)"
    "(if an_outcome body = UPHELD \<and> an_amount body \<noteq> None then Some (pay_next c) else None)
      = (if ?minted = [] then None else Some (rt_id (hd ?minted)))"
    by (cases "an_outcome body"; cases "an_amount body"; simp add: backPayment_def)+
  have shut: "disputeNamed e i \<noteq> Some x" if "di_state x = DS_OPEN" for x
    unfolding e(2) d(1) using that by (auto simp: answeredDispute_def)
  have "\<nexists>now' b' v' body' r. answerDispute now' b' e v' i body' = Inr r"
    using answered_row [OF _ e(1)] shut by (metis surj_pair)
  moreover have "\<nexists>b' v' r. withdrawDispute b' e v' i = Inr r"
    using withdraw_rows(2) won_press e(1) shut unfolding numbered_def disputeNamed_def by (metis surj_pair)
  ultimately show ?thesis using held r retros mint e(2) d(1) by (intro conjI exI [of _ r] exI [of _ ?minted]) simp_all
qed

definition slipOwner :: Viewer where
  "slipOwner = \<lparr>v_userId = ''u7'', v_role = EMPLOYEE, v_employeeId = Some 7, v_entityIds = None\<rparr>"

definition upheldAnswer :: AnswerDisputeDto where
  "upheldAnswer = \<lparr>an_outcome = UPHELD, an_answer = ''two hours'', an_amount = Some 200000, an_code = None, an_label = None\<rparr>"

definition disputedPay :: PayDb where
  "disputedPay = fst (projr (raiseDispute 60 5 lockedPay lockedPay slipOwner 2 None ''overtime''))"

definition answeredPay :: PayDb where
  "answeredPay = fst (projr (answerDispute 70 disputedPay disputedPay paymaster 3 upheldAnswer))"

theorem dispute_pays_once_witness:
  "map (\<lambda>x. (rt_employeeId x, rt_amount x)) (pay_retros answeredPay) = [(7, 200000)]
     \<and> \<not> isl (answerDispute 70 disputedPay disputedPay paymaster 3 upheldAnswer)
     \<and> (\<nexists>now' v' r. answerDispute now' disputedPay answeredPay v' 3 upheldAnswer = Inr r)"
proof -
  have ok: "\<not> isl (raiseDispute 60 5 lockedPay lockedPay slipOwner 2 None ''overtime'')"
    "\<not> isl (answerDispute 70 disputedPay disputedPay paymaster 3 upheldAnswer)" by code_simp+
  obtain r where raised: "raiseDispute 60 5 lockedPay lockedPay slipOwner 2 None ''overtime'' = Inr (disputedPay, r)"
    using ok(1) unfolding disputedPay_def
    by (cases "raiseDispute 60 5 lockedPay lockedPay slipOwner 2 None ''overtime''") auto
  obtain q where answered: "answerDispute 70 disputedPay disputedPay paymaster 3 upheldAnswer = Inr (answeredPay, q)"
    using ok(2) unfolding answeredPay_def
    by (cases "answerDispute 70 disputedPay disputedPay paymaster 3 upheldAnswer") auto
  have "payReach lockedPay disputedPay"
    by (rule payReach.more [OF payReach.start payReach.start payStep.dispute_raised [OF raised]])
  moreover have "pay_disputes lockedPay = []" by code_simp
  ultimately have "\<nexists>now' b' v' body' r. answerDispute now' b' answeredPay v' 3 body' = Inr r"
    using dispute_pays_once [OF _ _ answered payReach.start] by blast
  moreover have "map (\<lambda>x. (rt_employeeId x, rt_amount x)) (pay_retros answeredPay) = [(7, 200000)]" by code_simp
  ultimately show ?thesis using ok(2) by blast
qed

end
