(* ===== verification/Enroll.thy ===== *)
theory Enroll
  imports Complex_Main Attendance Money
begin

section \<open>Faces, consents and the rosters of the kiosks\<close>

text \<open>
  The server half of enrolment: \<open>backend/src/modules/enrollment/enrollment.service.ts\<close> and
  \<open>consent.service.ts\<close>. A pair (kiosk, person) says where somebody stands on a kiosk; a face template
  belongs to a person and to the recognition model that made it. Every handler that changes what a kiosk
  should hold writes its rows and reserves one roster number a message in one transaction, then publishes
  the messages in order under the kiosk's lock, so it returns the new tables and the messages. The clock,
  the template cipher, the Unicode composition of names and the configuration are fields of the
  environment; a sealed template is what \<open>en_seal\<close> makes of the base64 text a kiosk sent. Rows of the
  tables are kept in the order they were made.
\<close>

subsection \<open>Rows\<close>

record EnrollEnv =
  en_now :: instant
  en_seal :: "string \<Rightarrow> string"
  en_unseal :: "string \<Rightarrow> string"
  en_nfc :: "string \<Rightarrow> string"
  en_sessionMinutes :: int
  en_noticeVersion :: string

record Kiosk =
  ki_id :: string
  ki_approved :: bool
  ki_model :: "string option"
  ki_roster :: int

record FacePerson =
  fp_person :: Person
  fp_code :: string
  fp_fullName :: string
  fp_model :: "string option"

record DeviceEnrollment =
  de_device :: string
  de_employee :: int
  de_state :: EnrollmentState
  de_templateIdx :: "int option"
  de_sessionAt :: "instant option"
  de_sessionOpenedAt :: "instant option"
  de_revokedAt :: "instant option"

record FaceTemplate =
  ft_employee :: int
  ft_model :: "string option"
  ft_idx :: int
  ft_embedding :: string
  ft_scale :: rat
  ft_quality :: "int option"
  ft_capturedAt :: instant

datatype ConsentState = GRANTED | WITHDRAWN

record BiometricConsent =
  bc_employee :: int
  bc_noticeVersion :: string
  bc_state :: ConsentState
  bc_method :: string
  bc_grantedAt :: instant
  bc_withdrawnAt :: "instant option"
  bc_recordedById :: string
  bc_note :: "string option"

record EnrollDb =
  ed_kiosks :: "Kiosk list"
  ed_people :: "FacePerson list"
  ed_pairs :: "DeviceEnrollment list"
  ed_faces :: "FaceTemplate list"
  ed_consents :: "BiometricConsent list"

text \<open>The wire: \<open>common/generated/enroll_payload.ts\<close>.\<close>

datatype RosterOp = OP_UPSERT | OP_DELETE | OP_DELETE_EMPLOYEE | OP_REPLACE_ALL | OP_ASSIGN | OP_REVOKE | OP_RETAKE

record EnrollPayload =
  el_op :: RosterOp
  el_employeeId :: int
  el_templateIdx :: int
  el_updatedAt :: instant
  el_embedding :: "string option"
  el_scale :: "rat option"
  el_quality :: "int option"
  el_embeddingVersion :: "string option"
  el_fullName :: "string option"
  el_employeeCode :: "string option"
  el_rosterVersion :: "int option"

type_synonym Build = "int \<Rightarrow> EnrollPayload"
type_synonym sent = "(string \<times> EnrollPayload) list"

definition NO_EMPLOYEE :: int where "NO_EMPLOYEE = 0"

definition FIRST_TEMPLATE :: int where "FIRST_TEMPLATE = 0"

subsection \<open>Looking rows up\<close>

definition kioskOf :: "EnrollDb \<Rightarrow> string \<Rightarrow> Kiosk option" where
  "kioskOf db i = firstWhere ki_id i (ed_kiosks db)"

definition device :: "EnrollDb \<Rightarrow> string \<Rightarrow> Kiosk result" where
  "device db i = found (kioskOf db i) (NotFound ''DEVICE_NOT_FOUND'')"

definition inFleet :: "EnrollDb \<Rightarrow> string \<Rightarrow> Kiosk result" where
  "inFleet db i =
     bindR (device db i) (\<lambda>k. bindR (refuse (\<not> ki_approved k) (Conflict ''DEVICE_NOT_APPROVED'')) (\<lambda>_. Inr k))"

definition facePerson :: "EnrollDb \<Rightarrow> int \<Rightarrow> FacePerson option" where
  "facePerson db e = firstWhere (p_id \<circ> fp_person) e (ed_people db)"

definition pairKey :: "DeviceEnrollment \<Rightarrow> string \<times> int" where
  "pairKey r = (de_device r, de_employee r)"

definition pairOf :: "EnrollDb \<Rightarrow> string \<Rightarrow> int \<Rightarrow> DeviceEnrollment option" where
  "pairOf db i e = firstWhere pairKey (i, e) (ed_pairs db)"

definition reachesFace :: "EnrollDb \<Rightarrow> Viewer \<Rightarrow> int \<Rightarrow> bool" where
  "reachesFace db v e \<longleftrightarrow>
     (let people = map fp_person (ed_people db) in reaches people v (visibleEmployeeIds people v) e)"

definition live :: "EnrollDb \<Rightarrow> int \<Rightarrow> bool" where
  "live db e \<longleftrightarrow> (\<exists>c \<in> set (ed_consents db). bc_employee c = e \<and> bc_state c = GRANTED)"

definition requireConsent :: "EnrollDb \<Rightarrow> int \<Rightarrow> unit result" where
  "requireConsent db e = refuse (\<not> live db e) (Forbidden ''BIOMETRIC_CONSENT_MISSING'')"

text \<open>The set a door is sent, and a model named at all: the empty string names none.\<close>

definition setFor :: "string option \<Rightarrow> string option \<Rightarrow> string option" where
  "setFor door lastCapture = (case door of None \<Rightarrow> lastCapture | Some m \<Rightarrow> Some m)"

definition named :: "string option \<Rightarrow> string option" where
  "named m = (if m = Some '''' then None else m)"

definition setOf :: "EnrollDb \<Rightarrow> int \<Rightarrow> string \<Rightarrow> FaceTemplate list" where
  "setOf db e m = sort_key ft_idx (filter (\<lambda>f. ft_employee f = e \<and> ft_model f = Some m) (ed_faces db))"

subsection \<open>Messages\<close>

definition bare :: "RosterOp \<Rightarrow> EnrollEnv \<Rightarrow> int \<Rightarrow> Build" where
  "bare op' env e version =
     \<lparr>el_op = op', el_employeeId = e, el_templateIdx = FIRST_TEMPLATE, el_updatedAt = en_now env, el_embedding = None,
      el_scale = None, el_quality = None, el_embeddingVersion = None, el_fullName = None, el_employeeCode = None,
      el_rosterVersion = Some version\<rparr>"

definition expect :: "EnrollEnv \<Rightarrow> int \<Rightarrow> string \<Rightarrow> string \<Rightarrow> Build" where
  "expect env e code fullName version =
     (bare OP_ASSIGN env e version)\<lparr>el_fullName := Some (en_nfc env fullName), el_employeeCode := Some code\<rparr>"

definition withdraw :: "EnrollEnv \<Rightarrow> int \<Rightarrow> Build" where
  "withdraw = bare OP_REVOKE"

definition dropAll :: "EnrollEnv \<Rightarrow> int \<Rightarrow> Build" where
  "dropAll = bare OP_DELETE_EMPLOYEE"

definition upsertOf :: "EnrollEnv \<Rightarrow> int \<Rightarrow> string \<Rightarrow> FaceTemplate \<Rightarrow> Build" where
  "upsertOf env e fullName held version =
     \<lparr>el_op = OP_UPSERT, el_employeeId = e, el_templateIdx = ft_idx held, el_updatedAt = ft_capturedAt held,
      el_embedding = Some (en_unseal env (ft_embedding held)), el_scale = Some (ft_scale held), el_quality = None,
      el_embeddingVersion = ft_model held, el_fullName = Some (en_nfc env fullName), el_employeeCode = None,
      el_rosterVersion = Some version\<rparr>"

definition buildsFor :: "EnrollEnv \<Rightarrow> int \<Rightarrow> string \<Rightarrow> FaceTemplate list \<Rightarrow> Build list" where
  "buildsFor env e fullName held = map (upsertOf env e fullName) (filter (\<lambda>f. ft_model f \<noteq> None) held)"

definition ask :: "EnrollEnv \<Rightarrow> FacePerson \<Rightarrow> Build" where
  "ask env p = expect env (p_id (fp_person p)) (fp_code p) (fp_fullName p)"

definition samplesFor :: "EnrollEnv \<Rightarrow> EnrollDb \<Rightarrow> FacePerson \<Rightarrow> string option \<Rightarrow> Build list" where
  "samplesFor env db p door =
     (case named (setFor door (fp_model p)) of
        None \<Rightarrow> []
      | Some m \<Rightarrow> buildsFor env (p_id (fp_person p)) (fp_fullName p) (setOf db (p_id (fp_person p)) m))"

text \<open>\<open>reserve\<close> moves the counter past the floor; \<open>deliver\<close> numbers the run so that it ends there; \<open>tell\<close> does both.\<close>

definition reserve :: "EnrollDb \<Rightarrow> string \<Rightarrow> nat \<Rightarrow> int \<Rightarrow> (EnrollDb \<times> int) result" where
  "reserve db i count floor' =
     bindR (found (kioskOf db i) (NotFound ''DEVICE_NOT_FOUND'')) (\<lambda>k.
       let high = max (ki_roster k) floor' + int count
       in Inr (db\<lparr>ed_kiosks := updateMany (\<lambda>k. ki_id k = i) (\<lambda>k. k\<lparr>ki_roster := high\<rparr>) (ed_kiosks db)\<rparr>, high))"

fun numberRun :: "string \<Rightarrow> Build list \<Rightarrow> int \<Rightarrow> sent" where
  "numberRun i [] version = []"
| "numberRun i (b # bs) version = (i, b (version + 1)) # numberRun i bs (version + 1)"

definition deliverTo :: "string \<Rightarrow> Build list \<Rightarrow> int \<Rightarrow> sent" where
  "deliverTo i builds high = numberRun i builds (high - int (length builds))"

definition tell :: "string \<Rightarrow> (EnrollDb \<times> 'a \<times> Build list) result \<Rightarrow> (EnrollDb \<times> 'a \<times> sent) result" where
  "tell i told =
     bindR told (\<lambda>(db1, x, builds).
     bindR (reserve db1 i (length builds) 0) (\<lambda>(db2, high). Inr (db2, x, deliverTo i builds high)))"

subsection \<open>Assigning and revoking\<close>

text \<open>\<open>handOut\<close>: the faces of these people a door is handed, on the model it names.\<close>

definition handOut :: "EnrollDb \<Rightarrow> string \<Rightarrow> (string option \<times> (int \<Rightarrow> FaceTemplate list)) result" where
  "handOut db i =
     bindR (found (kioskOf db i) (Unhandled ''P2025'')) (\<lambda>k.
       Inr (ki_model k, \<lambda>e. case named (ki_model k) of None \<Rightarrow> [] | Some m \<Rightarrow> setOf db e m))"

definition lastIdx :: "FaceTemplate list \<Rightarrow> int option" where
  "lastIdx held = (if held = [] then None else Some (ft_idx (last held)))"

definition newPair :: "string \<Rightarrow> int \<Rightarrow> EnrollmentState \<Rightarrow> int option \<Rightarrow> DeviceEnrollment" where
  "newPair i e st idx =
     \<lparr>de_device = i, de_employee = e, de_state = st, de_templateIdx = idx, de_sessionAt = None, de_sessionOpenedAt = None,
      de_revokedAt = None\<rparr>"

text \<open>An upsert of a pair: the index is written only when there is one.\<close>

definition putPair :: "string \<Rightarrow> int \<Rightarrow> EnrollmentState \<Rightarrow> int option \<Rightarrow> EnrollDb \<Rightarrow> EnrollDb" where
  "putPair i e st idx db =
     (if pairOf db i e = None then db\<lparr>ed_pairs := ed_pairs db @ [newPair i e st idx]\<rparr>
      else db\<lparr>ed_pairs := updateMany (\<lambda>r. pairKey r = (i, e))
             (\<lambda>r. r\<lparr>de_state := st, de_templateIdx := (if idx = None then de_templateIdx r else idx)\<rparr>) (ed_pairs db)\<rparr>)"

definition holding :: "DeviceEnrollment option \<Rightarrow> bool" where
  "holding pair \<longleftrightarrow> (case pair of None \<Rightarrow> False | Some r \<Rightarrow> de_state r = ENROLLED \<or> de_state r = RETAKE)"

text \<open>Of the two reads the code starts together the kiosk's answers first.\<close>

definition assign ::
  "EnrollEnv \<Rightarrow> EnrollDb \<Rightarrow> EnrollDb \<Rightarrow> string \<Rightarrow> int \<Rightarrow> (EnrollDb \<times> EnrollmentState \<times> sent) result" where
  "assign env db0 db i e =
     bindR (requireConsent db0 e) (\<lambda>_.
     bindR (inFleet db0 i) (\<lambda>_.
     bindR (found (facePerson db0 e) (NotFound ''EMPLOYEE_NOT_FOUND'')) (\<lambda>p.
       tell i
         (if holding (pairOf db i e) then Inr (putPair i e RETAKE None db, RETAKE, [ask env p])
          else bindR (handOut db i) (\<lambda>(model, faces).
            let held = faces e; st = (if held = [] then ASSIGNED else ENROLLED)
            in Inr (putPair i e st (lastIdx held) db, st,
                    if held = [] then [ask env p] else buildsFor env e (fp_fullName p) held))))))"

definition assignAs ::
  "EnrollEnv \<Rightarrow> EnrollDb \<Rightarrow> EnrollDb \<Rightarrow> Viewer \<Rightarrow> string \<Rightarrow> int \<Rightarrow> (EnrollDb \<times> EnrollmentState \<times> sent \<times> effect list) result" where
  "assignAs env db0 db v i e =
     bindR (refuse (\<not> reachesFace db0 v e) (NotFound ''EMPLOYEE_NOT_FOUND'')) (\<lambda>_.
     bindR (assign env db0 db i e) (\<lambda>(db2, st, out).
       Inr (db2, st, out, [Audited (v_userId v) ''ENROLLMENT_ASSIGN'' (showNat (nat e))])))"

text \<open>\<open>assignMany\<close>: only a pair that is absent or revoked is written; people are named once each.\<close>

definition writable :: "EnrollDb \<Rightarrow> string \<Rightarrow> int \<Rightarrow> bool" where
  "writable db i e \<longleftrightarrow> (case pairOf db i e of None \<Rightarrow> True | Some r \<Rightarrow> de_state r = REVOKED)"

definition putMany :: "string \<Rightarrow> (int \<Rightarrow> FaceTemplate list) \<Rightarrow> int list \<Rightarrow> EnrollDb \<Rightarrow> EnrollDb" where
  "putMany i faces es db =
     fold (\<lambda>e db'. putPair i e (if faces e = [] then ASSIGNED else ENROLLED) (lastIdx (faces e)) db')
       (filter (writable db i) es) db"

fun reachedVersions :: "(int \<times> nat) list \<Rightarrow> int \<Rightarrow> (int \<times> int) list" where
  "reachedVersions [] version = []"
| "reachedVersions ((e, n) # runs) version = (e, version + int n) # reachedVersions runs (version + int n)"

definition assignRuns :: "EnrollEnv \<Rightarrow> (int \<Rightarrow> FaceTemplate list) \<Rightarrow> (int \<times> string \<times> string) list \<Rightarrow> Build list list" where
  "assignRuns env faces order =
     map (\<lambda>(e, code, name). if faces e = [] then [expect env e code name] else buildsFor env e name (faces e)) order"

definition assignMany ::
  "EnrollEnv \<Rightarrow> EnrollDb \<Rightarrow> string \<Rightarrow> (int \<times> string \<times> string) list
    \<Rightarrow> (EnrollDb \<times> ((int \<times> int) list \<times> int list \<times> int) \<times> sent) result" where
  "assignMany env db i people =
     bindR (handOut db i) (\<lambda>(model, faces).
       let order = filter (\<lambda>(e, code, name). writable db i e) people;
           runs = assignRuns env faces order;
           builds = concat runs;
           db1 = putMany i faces (map fst people) db
       in bindR (reserve db1 i (length builds) 0) (\<lambda>(db2, high).
            Inr (db2,
              (reachedVersions (zip (map fst order) (map length runs)) (high - int (length builds)),
               map fst (filter (\<lambda>(e, code, name). faces e \<noteq> []) order), high),
              deliverTo i builds high)))"

definition handsOver :: "EnrollDb \<Rightarrow> string \<Rightarrow> int list \<Rightarrow> int list" where
  "handsOver db i es =
     (case kioskOf db i of
        None \<Rightarrow> []
      | Some k \<Rightarrow> (case named (ki_model k) of None \<Rightarrow> [] | Some m \<Rightarrow> filter (\<lambda>e. setOf db e m \<noteq> []) es))"

text \<open>A pair already revoked keeps the time it was revoked at.\<close>

definition revokePairs :: "instant \<Rightarrow> (DeviceEnrollment \<Rightarrow> bool) \<Rightarrow> EnrollDb \<Rightarrow> EnrollDb" where
  "revokePairs now which db =
     db\<lparr>ed_pairs := updateMany (\<lambda>r. which r \<and> de_state r \<noteq> REVOKED)
          (\<lambda>r. r\<lparr>de_state := REVOKED, de_revokedAt := Some now\<rparr>) (ed_pairs db)\<rparr>"

definition revoke ::
  "EnrollEnv \<Rightarrow> EnrollDb \<Rightarrow> EnrollDb \<Rightarrow> Viewer \<Rightarrow> string \<Rightarrow> int \<Rightarrow> (EnrollDb \<times> sent \<times> effect list) result" where
  "revoke env db0 db v i e =
     bindR (device db0 i) (\<lambda>_.
     bindR (refuse (\<not> reachesFace db0 v e) (NotFound ''ENROLLMENT_NOT_FOUND'')) (\<lambda>_.
     bindR (tell i (let db1 = revokePairs (en_now env) (\<lambda>r. pairKey r = (i, e)) db
              in bindR (refuse (pairOf db1 i e = None) (NotFound ''ENROLLMENT_NOT_FOUND'')) (\<lambda>_.
                   Inr (db1, (), [dropAll env e])))) (\<lambda>(db2, _, out).
       Inr (db2, out, [Audited (v_userId v) ''ENROLLMENT_REMOVE'' (showNat (nat e))]))))"

subsection \<open>Erasing\<close>

text \<open>\<open>eraseWith\<close> takes the locks of every kiosk the person has a pair on and starts again when a kiosk was
  gained meanwhile, so the round that commits is one step: \<open>first\<close>, the rows, and every counter moved.\<close>

definition doorsOf :: "EnrollDb \<Rightarrow> int \<Rightarrow> string list" where
  "doorsOf db e = map de_device (filter (\<lambda>r. de_employee r = e) (ed_pairs db))"

definition eraseIn :: "EnrollEnv \<Rightarrow> int \<Rightarrow> EnrollDb \<Rightarrow> EnrollDb" where
  "eraseIn env e db =
     (let db1 = revokePairs (en_now env) (\<lambda>r. de_employee r = e) db
      in db1\<lparr>ed_faces := deleteMany (\<lambda>f. ft_employee f = e) (ed_faces db1),
             ed_people := updateMany (\<lambda>p. p_id (fp_person p) = e) (\<lambda>p. p\<lparr>fp_model := None\<rparr>) (ed_people db1),
             ed_kiosks := updateMany (\<lambda>k. ki_id k \<in> set (doorsOf db e)) (\<lambda>k. k\<lparr>ki_roster := ki_roster k + 1\<rparr>) (ed_kiosks db1)\<rparr>)"

definition eraseWith :: "EnrollEnv \<Rightarrow> (EnrollDb \<Rightarrow> (EnrollDb \<times> 'a) result) \<Rightarrow> EnrollDb \<Rightarrow> int \<Rightarrow> (EnrollDb \<times> 'a \<times> sent) result" where
  "eraseWith env first db e =
     bindR (first db) (\<lambda>(db1, x).
     bindR (refuse (facePerson db1 e = None) (Unhandled ''P2025'')) (\<lambda>_.
       let db2 = eraseIn env e db1
       in Inr (db2, x, concat (map (\<lambda>k. deliverTo (ki_id k) [dropAll env e] (ki_roster k))
                  (filter (\<lambda>k. ki_id k \<in> set (doorsOf db1 e)) (ed_kiosks db2))))))"

definition erase :: "EnrollEnv \<Rightarrow> EnrollDb \<Rightarrow> int \<Rightarrow> string \<Rightarrow> (EnrollDb \<times> sent \<times> effect list) result" where
  "erase env db e actor =
     bindR (eraseWith env (\<lambda>db1. Inr (db1, ())) db e) (\<lambda>(db2, _, out).
       Inr (db2, out, [Audited actor ''BIOMETRIC_ERASE'' (showNat (nat e))]))"

definition RECORDERS :: "Role set" where
  "RECORDERS = {ADMIN, HR}"

definition mayRecordFor :: "Viewer \<Rightarrow> int \<Rightarrow> unit result" where
  "mayRecordFor v e = refuse (v_employeeId v \<noteq> Some e \<and> v_role v \<notin> RECORDERS) (Forbidden ''CONSENT_NOT_YOURS'')"

definition dropConsent :: "EnrollEnv \<Rightarrow> int \<Rightarrow> EnrollDb \<Rightarrow> (EnrollDb \<times> bool) result" where
  "dropConsent env e db =
     bindR (refuse (\<not> (\<exists>c \<in> set (ed_consents db). bc_employee c = e)) (BadRequest ''CONSENT_NOT_GRANTED'')) (\<lambda>_.
       Inr (db\<lparr>ed_consents := updateMany (\<lambda>c. bc_employee c = e \<and> bc_state c = GRANTED)
              (\<lambda>c. c\<lparr>bc_state := WITHDRAWN, bc_withdrawnAt := Some (en_now env)\<rparr>) (ed_consents db)\<rparr>, live db e))"

definition withdrawConsent :: "EnrollEnv \<Rightarrow> EnrollDb \<Rightarrow> Viewer \<Rightarrow> int \<Rightarrow> (EnrollDb \<times> sent \<times> effect list) result" where
  "withdrawConsent env db v e =
     bindR (mayRecordFor v e) (\<lambda>_.
     bindR (eraseWith env (dropConsent env e) db e) (\<lambda>(db2, fresh, out).
       Inr (db2, out,
         (if fresh then [Audited (v_userId v) ''BIOMETRIC_CONSENT_WITHDRAW'' (showNat (nat e))] else [])
         @ [Audited (v_userId v) ''BIOMETRIC_ERASE'' (showNat (nat e))])))"

text \<open>The nightly sweep of the sets no approved kiosk runs; the fleet is read first.\<close>

definition dropUnusedSets :: "EnrollDb \<Rightarrow> EnrollDb \<Rightarrow> EnrollDb \<times> int list" where
  "dropUnusedSets db0 db =
     (let fleet = filter ki_approved (ed_kiosks db0); runs = List.map_filter ki_model fleet;
          unused = (\<lambda>f. case ft_model f of None \<Rightarrow> True | Some m \<Rightarrow> m \<notin> set runs)
      in if \<exists>k \<in> set fleet. ki_model k = None then (db, [])
         else (db\<lparr>ed_faces := deleteMany unused (ed_faces db)\<rparr>,
               remdups (map ft_employee (filter unused (ed_faces db)))))"

subsection \<open>Consents\<close>

definition newConsent :: "EnrollEnv \<Rightarrow> int \<Rightarrow> string \<Rightarrow> string \<Rightarrow> string option \<Rightarrow> BiometricConsent" where
  "newConsent env e method by' note' =
     \<lparr>bc_employee = e, bc_noticeVersion = en_noticeVersion env, bc_state = GRANTED, bc_method = method, bc_grantedAt = en_now env,
      bc_withdrawnAt = None, bc_recordedById = by', bc_note = note'\<rparr>"

definition grant ::
  "EnrollEnv \<Rightarrow> EnrollDb \<Rightarrow> EnrollDb \<Rightarrow> Viewer \<Rightarrow> int option \<Rightarrow> string \<Rightarrow> string option \<Rightarrow> (EnrollDb \<times> effect list) result" where
  "grant env db0 db v who method note' =
     bindR (found (case who of None \<Rightarrow> v_employeeId v | Some e \<Rightarrow> Some e) (NotFound ''EMPLOYEE_NOT_FOUND'')) (\<lambda>e.
     bindR (mayRecordFor v e) (\<lambda>_.
     bindR (refuse (\<not> reaches (map fp_person (ed_people db0)) v (deskOrSelfEmployeeIds v) e) (NotFound ''EMPLOYEE_NOT_FOUND'')) (\<lambda>_.
     bindR (refuse (live db0 e) (BadRequest ''CONSENT_ALREADY_GRANTED'')) (\<lambda>_.
       Inr (db\<lparr>ed_consents := ed_consents db @ [newConsent env e method (v_userId v) note']\<rparr>,
            [Audited (v_userId v) ''BIOMETRIC_CONSENT_GRANT'' (showNat (nat e))])))))"

definition stageGrants :: "EnrollEnv \<Rightarrow> EnrollDb \<Rightarrow> string \<Rightarrow> int list \<Rightarrow> string \<Rightarrow> EnrollDb \<times> int list" where
  "stageGrants env db by' es method =
     (let fresh = filter (\<lambda>e. \<not> live db e) es
      in (db\<lparr>ed_consents := ed_consents db @ map (\<lambda>e. newConsent env e method by' None) fresh\<rparr>, fresh))"

subsection \<open>What a kiosk reports\<close>

text \<open>The session start reaches every kiosk with its samples, so only a pair that opened it lately adds to it.\<close>

definition opened :: "EnrollEnv \<Rightarrow> DeviceEnrollment \<Rightarrow> instant \<Rightarrow> bool" where
  "opened env pair session \<longleftrightarrow>
     de_sessionAt pair = Some session
     \<and> (case de_sessionOpenedAt pair of None \<Rightarrow> False | Some t \<Rightarrow> en_now env - t \<le> en_sessionMinutes env * 60000)"

datatype SampleVerdict = Stranger | Unconsented | Unplaced | Repeated | Refused | Added bool | Replaced

definition waits :: "DeviceEnrollment \<Rightarrow> bool" where
  "waits pair \<longleftrightarrow> de_state pair = ASSIGNED \<or> de_state pair = RETAKE"

definition sampleOf :: "EnrollEnv \<Rightarrow> EnrollPayload \<Rightarrow> string \<Rightarrow> FaceTemplate" where
  "sampleOf env report m =
     \<lparr>ft_employee = el_employeeId report, ft_model = Some m, ft_idx = el_templateIdx report,
      ft_embedding = en_seal env (the (el_embedding report)), ft_scale = orElse (el_scale report) 0,
      ft_quality = el_quality report, ft_capturedAt = el_updatedAt report\<rparr>"

definition faceKey :: "FaceTemplate \<Rightarrow> int \<times> string option \<times> int" where
  "faceKey f = (ft_employee f, ft_model f, ft_idx f)"

definition putFace :: "FaceTemplate \<Rightarrow> FaceTemplate list \<Rightarrow> FaceTemplate list" where
  "putFace f faces =
     (if firstWhere faceKey (faceKey f) faces = None then faces @ [f]
      else updateMany (\<lambda>g. faceKey g = faceKey f) (\<lambda>_. f) faces)"

text \<open>The transaction of \<open>takeSample\<close>. Any sample of the set dates its session; \<open>Added True\<close> wrote over one.\<close>

definition weighSample ::
  "EnrollEnv \<Rightarrow> EnrollDb \<Rightarrow> string \<Rightarrow> EnrollPayload \<Rightarrow> string option \<Rightarrow> EnrollDb \<times> SampleVerdict" where
  "weighSample env db i report model =
     (let e = el_employeeId report; session = el_updatedAt report in
      case pairOf db i e of
        None \<Rightarrow> (db, Stranger)
      | Some pair \<Rightarrow>
          if \<not> live db e then (db, Unconsented)
          else case named model of
            None \<Rightarrow> (db, Unplaced)
          | Some m \<Rightarrow>
              let mine = (\<lambda>f. ft_employee f = e \<and> ft_model f = Some m); held = find mine (ed_faces db);
                  current = (map_option ft_capturedAt held = Some session) in
              if waits pair \<and> current then (db, Repeated)
              else if \<not> (waits pair \<or> de_state pair = ENROLLED \<and> current \<and> opened env pair session) then (db, Refused)
              else
                let f = sampleOf env report m; replaces = (waits pair \<and> held \<noteq> None);
                    kept = (if replaces then deleteMany mine (ed_faces db) else ed_faces db);
                    overwrote = (\<not> replaces \<and> firstWhere faceKey (faceKey f) kept \<noteq> None)
                in (db\<lparr>ed_faces := putFace f kept,
                       ed_pairs := updateMany (\<lambda>r. pairKey r = (i, e))
                         (\<lambda>r. if waits pair
                              then r\<lparr>de_state := ENROLLED, de_templateIdx := Some (el_templateIdx report),
                                     de_sessionAt := Some session, de_sessionOpenedAt := Some (en_now env)\<rparr>
                              else r\<lparr>de_state := ENROLLED, de_templateIdx := Some (el_templateIdx report)\<rparr>) (ed_pairs db),
                       ed_people := updateMany (\<lambda>p. p_id (fp_person p) = e) (\<lambda>p. p\<lparr>fp_model := Some m\<rparr>) (ed_people db)\<rparr>,
                    if replaces then Replaced else Added overwrote))"

definition modelOf :: "EnrollDb \<Rightarrow> string \<Rightarrow> EnrollPayload \<Rightarrow> string option" where
  "modelOf db i report =
     (case el_embeddingVersion report of
        Some m \<Rightarrow> Some m
      | None \<Rightarrow> (case kioskOf db i of None \<Rightarrow> None | Some k \<Rightarrow> ki_model k))"

text \<open>\<open>None\<close>: a report with no template, which is only logged.\<close>

definition takeSample ::
  "EnrollEnv \<Rightarrow> EnrollDb \<Rightarrow> EnrollDb \<Rightarrow> string \<Rightarrow> EnrollPayload \<Rightarrow> (EnrollDb \<times> SampleVerdict) option" where
  "takeSample env db0 db i report =
     (if named (el_embedding report) = None \<or> el_scale report = None then None
      else Some (weighSample env db i report (modelOf db0 i report)))"

text \<open>What follows a verdict or another report: one step of its own each, on a later state.\<close>

definition sayDrop :: "EnrollEnv \<Rightarrow> EnrollDb \<Rightarrow> string \<Rightarrow> int \<Rightarrow> (EnrollDb \<times> unit \<times> sent) result" where
  "sayDrop env db i e = tell i (Inr (db, (), [dropAll env e]))"

definition unasked :: "EnrollEnv \<Rightarrow> EnrollDb \<Rightarrow> EnrollDb \<Rightarrow> string \<Rightarrow> int \<Rightarrow> (EnrollDb \<times> unit \<times> sent) result" where
  "unasked env db0 db i e =
     tell i (Inr (db, (),
       [case (pairOf db i e, facePerson db e) of
          (Some pair, Some p) \<Rightarrow> if waits pair \<and> live db0 e then ask env p else withdraw env e
        | _ \<Rightarrow> withdraw env e]))"

definition refuseSample :: "EnrollEnv \<Rightarrow> EnrollDb \<Rightarrow> string \<Rightarrow> int \<Rightarrow> (EnrollDb \<times> unit \<times> sent) result" where
  "refuseSample env db i e =
     tell i (Inr (db, (),
       dropAll env e #
       (case (pairOf db i e, facePerson db e, kioskOf db i) of
          (Some pair, Some p, Some k) \<Rightarrow>
            if de_state pair = REVOKED then []
            else samplesFor env db p (ki_model k) @ (if de_state pair \<noteq> ENROLLED then [ask env p] else [])
        | _ \<Rightarrow> [])))"

text \<open>\<open>spread\<close>: one step for each other door, with the name and the sample read when it began.\<close>

definition spreadDoors :: "EnrollDb \<Rightarrow> string \<Rightarrow> int \<Rightarrow> string \<Rightarrow> string list" where
  "spreadDoors db i e m =
     map de_device (filter (\<lambda>r. de_employee r = e \<and> de_device r \<noteq> i \<and> de_state r \<noteq> REVOKED
         \<and> (case kioskOf db (de_device r) of
              None \<Rightarrow> False | Some k \<Rightarrow> ki_approved k \<and> setFor (ki_model k) (Some m) = Some m)) (ed_pairs db))"

definition spreadTo ::
  "EnrollEnv \<Rightarrow> EnrollDb \<Rightarrow> string \<Rightarrow> FacePerson \<Rightarrow> FaceTemplate \<Rightarrow> bool \<Rightarrow> (EnrollDb \<times> unit \<times> sent) result" where
  "spreadTo env db i p sample replaced =
     (let e = p_id (fp_person p); mine = (\<lambda>r. pairKey r = (i, e) \<and> de_state r \<noteq> REVOKED);
          (moved, rows) = claimWhere mine (\<lambda>r. r\<lparr>de_state := ENROLLED, de_templateIdx := Some (ft_idx sample)\<rparr>) (ed_pairs db)
      in tell i (Inr (db\<lparr>ed_pairs := rows\<rparr>, (),
           if moved > 0 then (if replaced then [dropAll env e] else []) @ [upsertOf env e (fp_fullName p) sample] else [])))"

subsection \<open>Bringing a kiosk level\<close>

text \<open>What a replay says of one row: the samples of its set, then the ask.\<close>

definition rosterOf :: "EnrollDb \<Rightarrow> string \<Rightarrow> (DeviceEnrollment \<times> FacePerson) list" where
  "rosterOf db i =
     List.map_filter (\<lambda>r. map_option (\<lambda>p. (r, p)) (facePerson db (de_employee r)))
       (sort_key de_employee (filter (\<lambda>r. de_device r = i \<and> de_state r \<noteq> REVOKED) (ed_pairs db)))"

definition replaySet :: "EnrollDb \<Rightarrow> Kiosk \<Rightarrow> FacePerson \<Rightarrow> FaceTemplate list" where
  "replaySet db k p =
     (case setFor (ki_model k) (fp_model p) of None \<Rightarrow> [] | Some m \<Rightarrow> setOf db (p_id (fp_person p)) m)"

definition replayBuilds :: "EnrollEnv \<Rightarrow> EnrollDb \<Rightarrow> Kiosk \<Rightarrow> DeviceEnrollment \<times> FacePerson \<Rightarrow> Build list" where
  "replayBuilds env db k = (\<lambda>(r, p).
     buildsFor env (de_employee r) (fp_fullName p) (replaySet db k p)
     @ (if de_state r \<noteq> ENROLLED \<or> replaySet db k p = [] then [ask env p] else []))"

definition askedAgain :: "EnrollDb \<Rightarrow> Kiosk \<Rightarrow> int list" where
  "askedAgain db k =
     map (de_employee \<circ> fst) (filter (\<lambda>(r, p). de_state r \<noteq> ASSIGNED \<and> replaySet db k p = []) (rosterOf db (ki_id k)))"

definition replay :: "EnrollEnv \<Rightarrow> EnrollDb \<Rightarrow> EnrollDb \<Rightarrow> string \<Rightarrow> int \<Rightarrow> (EnrollDb \<times> int \<times> sent) result" where
  "replay env db0 db i floor' =
     bindR (device db0 i) (\<lambda>k.
       let builds = concat (map (replayBuilds env db0 k) (rosterOf db0 i));
           db1 = db\<lparr>ed_pairs := updateMany (\<lambda>r. de_device r = i \<and> de_employee r \<in> set (askedAgain db0 k)
                       \<and> (de_state r = ENROLLED \<or> de_state r = RETAKE)) (\<lambda>r. r\<lparr>de_state := ASSIGNED\<rparr>) (ed_pairs db)\<rparr>
       in bindR (reserve db1 i (length builds + 1) floor') (\<lambda>(db2, high).
            Inr (db2, high,
              (i, bare OP_REPLACE_ALL env NO_EMPLOYEE (high - int (length builds))) # deliverTo i builds high)))"

definition resync :: "EnrollEnv \<Rightarrow> EnrollDb \<Rightarrow> EnrollDb \<Rightarrow> string \<Rightarrow> int \<Rightarrow> (EnrollDb \<times> int \<times> sent) result" where
  "resync env db0 db i floor' = bindR (inFleet db0 i) (\<lambda>_. replay env db0 db i floor')"

text \<open>\<open>converge\<close>, on what this process remembers of the kiosk's last resync: whether the heartbeat asks for
  another, and what it remembers next.\<close>

record Run =
  ru_from :: int
  ru_endedAt :: instant
  ru_heard :: "int option"

definition converge ::
  "EnrollDb \<Rightarrow> bool \<Rightarrow> string \<Rightarrow> Run option \<Rightarrow> int option \<Rightarrow> instant \<Rightarrow> Run option \<times> int option" where
  "converge db resyncing i last' reported heardAt =
     (case (reported, kioskOf db i) of
        (Some n, Some k) \<Rightarrow>
          if resyncing \<or> \<not> ki_approved k then (last', None)
          else if n = ki_roster k then (None, None)
          else (case last' of
                  None \<Rightarrow> (last', Some n)
                | Some run \<Rightarrow>
                    if heardAt \<le> ru_endedAt run then (last', None)
                    else if ru_from run \<le> n \<and> n < ki_roster k \<and> ru_heard run \<noteq> Some n
                    then (Some (run\<lparr>ru_heard := Some n\<rparr>), None)
                    else (last', Some n))
      | _ \<Rightarrow> (last', None))"

end
