(* ===== verification/Kiosk.thy ===== *)
theory Kiosk
  imports Enroll
begin

section \<open>The roster on the kiosk\<close>

text \<open>
  The other half of the roster protocol: how \<open>firmware/main/app_tasks.c\<close> (\<open>take_roster\<close>, \<open>roster_gate\<close>,
  \<open>apply_roster\<close>) takes the messages of \<open>Enroll\<close> and what \<open>firmware/components/svc_facedb\<close> keeps of them.
  The face table is the list of its live records. Names are for the screen only and are left out.
  A table call that cannot take its lock in time is the flag \<open>free\<close> of a message.
\<close>

record FaceRecord =
  fr_employee :: int
  fr_idx :: int
  fr_embedding :: string
  fr_unreported :: bool

record KioskState =
  ks_faces :: "FaceRecord list"
  ks_pending :: "int list"
  ks_held :: int
  ks_gapped :: bool

text \<open>What is fixed on a kiosk: the model it embeds with, which base64 text decodes to an embedding, and the
  room of its table and of its pending list.\<close>

record KioskEnv =
  kv_model :: string
  kv_decodes :: "string \<Rightarrow> bool"
  kv_capacity :: nat
  kv_pendingCap :: nat

datatype Outcome = APPLIED | SPENT | FAILED
datatype Gate = TAKE | STALE | GAP

text \<open>\<open>decode_embedding\<close>; an absent version is the empty string there.\<close>

definition usable :: "KioskEnv \<Rightarrow> EnrollPayload \<Rightarrow> bool" where
  "usable kv op' \<longleftrightarrow> orElse (el_embeddingVersion op') '''' = kv_model kv \<and> kv_decodes kv (orElse (el_embedding op') '''')"

definition assignPending :: "KioskEnv \<Rightarrow> int \<Rightarrow> int list \<Rightarrow> int list option" where
  "assignPending kv e ps =
     (if e \<in> set ps then Some ps else if length ps \<ge> kv_pendingCap kv then None else Some (ps @ [e]))"

text \<open>The last row takes the place of the one that goes.\<close>

fun revokePending :: "int \<Rightarrow> int list \<Rightarrow> int list" where
  "revokePending e [] = []"
| "revokePending e (p # ps) = (if p = e then (if ps = [] then [] else last ps # butlast ps) else p # revokePending e ps)"

definition slotOf :: "int \<Rightarrow> int \<Rightarrow> FaceRecord \<Rightarrow> bool" where
  "slotOf e idx r \<longleftrightarrow> fr_employee r = e \<and> fr_idx r = idx"

text \<open>\<open>FaceDb::enroll\<close> for the server as writer; \<open>None\<close> is ESP_ERR_INVALID_STATE, a capture not yet reported.\<close>

definition enrollPushed :: "KioskEnv \<Rightarrow> int \<Rightarrow> int \<Rightarrow> string \<Rightarrow> FaceRecord list \<Rightarrow> FaceRecord list \<times> Outcome" where
  "enrollPushed kv e idx emb faces =
     (let rec' = \<lparr>fr_employee = e, fr_idx = idx, fr_embedding = emb, fr_unreported = False\<rparr> in
      case find (slotOf e idx) faces of
        Some r \<Rightarrow> if fr_unreported r then (faces, SPENT) else (updateMany (slotOf e idx) (\<lambda>_. rec') faces, APPLIED)
      | None \<Rightarrow> if length faces \<ge> kv_capacity kv then (faces, SPENT) else (faces @ [rec'], APPLIED))"

definition applyRoster :: "KioskEnv \<Rightarrow> bool \<Rightarrow> bool \<Rightarrow> EnrollPayload \<Rightarrow> KioskState \<Rightarrow> KioskState \<times> Outcome" where
  "applyRoster kv free purge op' s =
     (let e = el_employeeId op'; idx = el_templateIdx op' in
      case el_op op' of
        OP_UPSERT \<Rightarrow>
          if \<not> usable kv op' then (s, SPENT)
          else if \<not> free then (s, FAILED)
          else (case enrollPushed kv e idx (orElse (el_embedding op') '''') (ks_faces s) of
                  (faces, APPLIED) \<Rightarrow> (s\<lparr>ks_faces := faces, ks_pending := revokePending e (ks_pending s)\<rparr>, APPLIED)
                | (faces, other) \<Rightarrow> (s, other))
      | OP_DELETE_EMPLOYEE \<Rightarrow>
          (let s1 = s\<lparr>ks_pending := revokePending e (ks_pending s)\<rparr>
           in if free then (s1\<lparr>ks_faces := deleteMany (\<lambda>r. fr_employee r = e) (ks_faces s)\<rparr>, APPLIED) else (s1, FAILED))
      | OP_ASSIGN \<Rightarrow>
          (case assignPending kv e (ks_pending s) of None \<Rightarrow> (s, SPENT) | Some ps \<Rightarrow> (s\<lparr>ks_pending := ps\<rparr>, APPLIED))
      | OP_REVOKE \<Rightarrow> (s\<lparr>ks_pending := revokePending e (ks_pending s)\<rparr>, APPLIED)
      | OP_DELETE \<Rightarrow>
          if free then (s\<lparr>ks_faces := deleteMany (slotOf e idx) (ks_faces s)\<rparr>, APPLIED) else (s, FAILED)
      | OP_REPLACE_ALL \<Rightarrow>
          (let s1 = s\<lparr>ks_pending := []\<rparr>
           in if free then (s1\<lparr>ks_faces := filter (\<lambda>r. \<not> purge \<and> fr_unreported r) (ks_faces s)\<rparr>, APPLIED) else (s1, FAILED))
      | OP_RETAKE \<Rightarrow> (s, SPENT))"

definition rosterGate :: "EnrollPayload \<Rightarrow> int \<Rightarrow> bool \<Rightarrow> Gate" where
  "rosterGate op' held gapped =
     (case el_rosterVersion op' of
        None \<Rightarrow> TAKE
      | Some v \<Rightarrow>
          if el_op op' = OP_REPLACE_ALL then TAKE
          else if v \<le> held then STALE
          else if gapped \<or> v \<noteq> held + 1 then GAP else TAKE)"

text \<open>One turn of the loop of \<open>take_roster\<close>: the state, and whether the table has to be saved.\<close>

definition takeOne :: "KioskEnv \<Rightarrow> bool \<Rightarrow> bool \<Rightarrow> EnrollPayload \<Rightarrow> KioskState \<Rightarrow> KioskState \<times> bool" where
  "takeOne kv free purge op' s =
     (case rosterGate op' (ks_held s) (ks_gapped s) of
        STALE \<Rightarrow> (s, False)
      | GAP \<Rightarrow> (s\<lparr>ks_gapped := True\<rparr>, False)
      | TAKE \<Rightarrow>
          (let (s1, outcome) = applyRoster kv free purge op' s in
           if outcome = FAILED then (s1\<lparr>ks_gapped := True\<rparr>, False)
           else ((case el_rosterVersion op' of
                    None \<Rightarrow> s1
                  | Some v \<Rightarrow> s1\<lparr>ks_held := v, ks_gapped := ks_gapped s1 \<and> el_op op' \<noteq> OP_REPLACE_ALL\<rparr>),
                 outcome = APPLIED \<and> el_op op' \<noteq> OP_ASSIGN \<and> el_op op' \<noteq> OP_REVOKE)))"

fun takeAll :: "KioskEnv \<Rightarrow> (bool \<times> EnrollPayload) list \<Rightarrow> KioskState \<Rightarrow> KioskState \<times> bool" where
  "takeAll kv [] s = (s, False)"
| "takeAll kv ((free, op') # ops) s =
     (let (s1, c) = takeOne kv free False op' s; (s2, cs) = takeAll kv ops s1 in (s2, c \<or> cs))"

text \<open>\<open>take_roster\<close>: the batch, then the table saved and only after it the number claimed.\<close>

definition takeRoster :: "KioskEnv \<Rightarrow> (bool \<times> EnrollPayload) list \<Rightarrow> bool \<Rightarrow> KioskState \<Rightarrow> KioskState" where
  "takeRoster kv ops saved s =
     (let (s1, changed) = takeAll kv ops s
      in if changed \<and> \<not> saved then s1\<lparr>ks_held := ks_held s, ks_gapped := True\<rparr> else s1)"

text \<open>A capture finished at the kiosk, and a dead ticket, which spares nothing.\<close>

definition captured :: "int \<Rightarrow> KioskState \<Rightarrow> KioskState" where
  "captured e s = s\<lparr>ks_pending := revokePending e (ks_pending s)\<rparr>"

definition ticketDied :: "KioskEnv \<Rightarrow> bool \<Rightarrow> instant \<Rightarrow> KioskState \<Rightarrow> KioskState \<times> bool" where
  "ticketDied kv free now s =
     takeOne kv free True
       \<lparr>el_op = OP_REPLACE_ALL, el_employeeId = 0, el_templateIdx = 0, el_updatedAt = now, el_embedding = None, el_scale = None,
        el_quality = None, el_embeddingVersion = None, el_fullName = None, el_employeeCode = None, el_rosterVersion = Some 0\<rparr> s"

end
