(* ===== verification/RosterSync.thy ===== *)
theory RosterSync
  imports Kiosk
begin

section \<open>The server and its kiosks\<close>

text \<open>
  What \<open>Enroll\<close> and \<open>Kiosk\<close> promise together: the numbers of a kiosk's messages run on without a hole,
  a kiosk that misses one stops at a roster the server meant, a replay brings it level from anywhere, and a
  face is held only under a consent.
\<close>

subsection \<open>A kiosk keeps to the roster\<close>

lemma faces_apply:
  assumes "ks_faces s = ks_faces t" "snd (applyRoster kv free purge op' s) \<noteq> FAILED"
  shows "ks_faces (fst (applyRoster kv free purge op' s)) = ks_faces (fst (applyRoster kv True purge op' t))"
  using assms by (auto simp: applyRoster_def enrollPushed_def Let_def split: RosterOp.splits option.splits if_splits)

lemma faces_failed:
  "snd (applyRoster kv free purge op' s) = FAILED \<Longrightarrow> ks_faces (fst (applyRoster kv free purge op' s)) = ks_faces s"
  by (auto simp: applyRoster_def enrollPushed_def Let_def split: RosterOp.splits option.splits if_splits)

lemma apply_cursor [simp]:
  "ks_held (fst (applyRoster kv free purge op' s)) = ks_held s" "ks_gapped (fst (applyRoster kv free purge op' s)) = ks_gapped s"
  by (auto simp: applyRoster_def enrollPushed_def Let_def split: RosterOp.splits option.splits)

lemma apply_free [simp]: "snd (applyRoster kv True purge op' s) \<noteq> FAILED"
  by (auto simp: applyRoster_def enrollPushed_def Let_def split: RosterOp.splits option.splits)

text \<open>The next number, taken with the locks free.\<close>

lemma takeOne_next:
  assumes "el_rosterVersion op' = Some (ks_held s + 1)" "\<not> ks_gapped s"
  shows "fst (takeOne kv True purge op' s) = (fst (applyRoster kv True purge op' s))\<lparr>ks_held := ks_held s + 1, ks_gapped := False\<rparr>"
  using assms by (simp add: takeOne_def rosterGate_def split_beta)

lemma takeAll_fst_Cons [simp]:
  "fst (takeAll kv (x # ops) s) = fst (takeAll kv ops (fst (takeOne kv (fst x) False (snd x) s)))"
  by (cases x) (simp add: split_beta)

lemma takeAll_fst_append [simp]: "fst (takeAll kv (xs @ ys) s) = fst (takeAll kv ys (fst (takeAll kv xs s)))"
  by (induction xs arbitrary: s) auto

declare takeAll.simps(2) [simp del]

abbreviation hearing :: "EnrollPayload list \<Rightarrow> (bool \<times> EnrollPayload) list" where
  "hearing ops \<equiv> map (\<lambda>op'. (True, op')) ops"

definition counted :: "int \<Rightarrow> EnrollPayload list \<Rightarrow> bool" where
  "counted v ms \<longleftrightarrow> (\<forall>k < length ms. el_rosterVersion (ms ! k) = Some (v + 1 + int k) \<and> el_op (ms ! k) \<noteq> OP_REPLACE_ALL)"

lemma hearing_prefix:
  assumes "counted (ks_held s) ms" "\<not> ks_gapped s" "n \<le> length ms"
  shows "ks_held (fst (takeAll kv (hearing (take n ms)) s)) = ks_held s + int n
    \<and> \<not> ks_gapped (fst (takeAll kv (hearing (take n ms)) s))"
  using assms(3)
proof (induction n)
  case (Suc n)
  let ?t = "fst (takeAll kv (hearing (take n ms)) s)"
  have t: "ks_held ?t = ks_held s + int n" "\<not> ks_gapped ?t" using Suc by auto
  have "el_rosterVersion (ms ! n) = Some (ks_held ?t + 1)" using assms(1) Suc.prems t by (simp add: counted_def)
  from takeOne_next [OF this t(2)] Suc.prems t show ?case by (simp add: take_Suc_conv_app_nth)
qed (use assms(2) in simp)

text \<open>C22: whatever of a run of numbered messages reaches a kiosk, in whatever order, doubled or not at all,
  and whatever of it finds the face table busy, the kiosk's faces are those the server meant at some number
  of the run, and the number the kiosk reports is that one: nothing is applied past a hole.\<close>

theorem kiosk_keeps_to_roster:
  assumes "\<forall>k < length ms. el_rosterVersion (ms ! k) = Some (ks_held s + 1 + int k) \<and> el_op (ms ! k) \<noteq> OP_REPLACE_ALL"
    "\<not> ks_gapped s" "snd ` set heard \<subseteq> set ms"
  shows "\<exists>n \<le> length ms. ks_held (fst (takeAll kv heard s)) = ks_held s + int n
     \<and> ks_faces (fst (takeAll kv heard s)) = ks_faces (fst (takeAll kv (map (\<lambda>m. (True, m)) (take n ms)) s))"
proof -
  let ?at = "\<lambda>n. fst (takeAll kv (hearing (take n ms)) s)"
  have c: "counted (ks_held s) ms" using assms(1) by (simp add: counted_def)
  have "\<exists>n \<le> length ms. ks_held (fst (takeAll kv heard t)) = ks_held s + int n \<and> ks_faces (fst (takeAll kv heard t)) = ks_faces (?at n)"
    if "m \<le> length ms" "ks_held t = ks_held s + int m" "ks_faces t = ks_faces (?at m)" for m t
    using assms(3) that
  proof (induction heard arbitrary: t m)
    case (Cons x heard)
    obtain free op' where x: "x = (free, op')" by (cases x)
    from Cons.prems(1) obtain k where k: "k < length ms" "ms ! k = op'" by (auto simp: x in_set_conv_nth)
    have v: "el_rosterVersion op' = Some (ks_held s + 1 + int k)" "el_op op' \<noteq> OP_REPLACE_ALL"
      using assms(1) k by auto
    let ?t = "fst (takeOne kv free False op' t)"
    have "\<exists>m' \<le> length ms. ks_held ?t = ks_held s + int m' \<and> ks_faces ?t = ks_faces (?at m')"
    proof (cases "rosterGate op' (ks_held t) (ks_gapped t)")
      case TAKE
      show ?thesis
      proof (cases "snd (applyRoster kv free False op' t) = FAILED")
        case True
        then show ?thesis using TAKE Cons.prems faces_failed by (intro exI [of _ m]) (simp add: takeOne_def split_beta)
      next
        case False
        from TAKE v have "k = m" using Cons.prems(3) by (auto simp: rosterGate_def split: if_splits)
        have next': "?at (Suc m) = fst (takeOne kv True False op' (?at m))"
          using k \<open>k = m\<close> by (simp add: take_Suc_conv_app_nth)
        have at: "ks_held (?at m) = ks_held s + int m" "\<not> ks_gapped (?at m)"
          using hearing_prefix [OF c assms(2)] Cons.prems(2) by auto
        have "ks_faces (?at (Suc m)) = ks_faces (fst (applyRoster kv True False op' (?at m)))"
          unfolding next' using takeOne_next [of op' "?at m"] v \<open>k = m\<close> at by simp
        with faces_apply [OF Cons.prems(4) False] TAKE False v \<open>k = m\<close> k
        show ?thesis by (intro exI [of _ "Suc m"]) (simp add: takeOne_def split_beta)
      qed
    qed (use Cons.prems in \<open>auto simp: takeOne_def intro!: exI [of _ m]\<close>)
    then show ?case using Cons.IH Cons.prems(1) by (auto simp: x)
  qed auto
  from this [of 0 s] show ?thesis by simp
qed

subsection \<open>The numbers run on\<close>

fun runsOn :: "int \<Rightarrow> EnrollPayload list \<Rightarrow> int \<Rightarrow> bool" where
  "runsOn n [] m \<longleftrightarrow> n = m"
| "runsOn n (p # ps) m \<longleftrightarrow>
     (\<exists>v. el_rosterVersion p = Some v \<and> (v = n + 1 \<or> el_op p = OP_REPLACE_ALL \<and> n < v) \<and> runsOn v ps m)"

lemma runsOn_append: "runsOn n (xs @ ys) m \<longleftrightarrow> (\<exists>k. runsOn n xs k \<and> runsOn k ys m)"
  by (induction xs arbitrary: n) auto

lemma runsOn_le: "runsOn n ps m \<Longrightarrow> n \<le> m"
  by (induction ps arbitrary: n) force+

definition msgsTo :: "string \<Rightarrow> sent \<Rightarrow> EnrollPayload list" where
  "msgsTo i out = map snd (filter (\<lambda>x. fst x = i) out)"

lemma msgsTo_simps [simp]:
  "msgsTo i [] = []" "msgsTo i (x # xs) = (if fst x = i then snd x # msgsTo i xs else msgsTo i xs)"
  "msgsTo i (xs @ ys) = msgsTo i xs @ msgsTo i ys"
  by (simp_all add: msgsTo_def)

definition rosterAt :: "EnrollDb \<Rightarrow> string \<Rightarrow> int" where
  "rosterAt db i = (case kioskOf db i of None \<Rightarrow> 0 | Some k \<Rightarrow> ki_roster k)"

text \<open>Every builder puts the number it is given on its message.\<close>

definition numbersIt :: "Build \<Rightarrow> bool" where
  "numbersIt b \<longleftrightarrow> (\<forall>v. el_rosterVersion (b v) = Some v)"

lemma numbersIt_builds [simp]:
  "numbersIt (bare op' env e)" "numbersIt (expect env e c nm)" "numbersIt (withdraw env e)" "numbersIt (dropAll env e)"
  "numbersIt (upsertOf env e nm f)" "numbersIt (ask env p)"
  by (simp_all add: numbersIt_def bare_def expect_def withdraw_def dropAll_def upsertOf_def ask_def)

lemma numbersIt_lists [simp]:
  "list_all numbersIt (buildsFor env e nm fs)" "list_all numbersIt (samplesFor env db p door)"
  "list_all numbersIt (replayBuilds env db k rp)" "list_all numbersIt (concat (assignRuns env faces order))"
  by (auto simp: buildsFor_def samplesFor_def replayBuilds_def assignRuns_def list_all_iff split: option.splits prod.splits if_splits)

lemma numberRun_runs:
  "list_all numbersIt bs \<Longrightarrow> runsOn v (msgsTo i (numberRun i bs v)) (v + int (length bs))"
proof (induction bs arbitrary: v)
  case (Cons b bs)
  then have "el_rosterVersion (b (v + 1)) = Some (v + 1)" by (simp add: numbersIt_def)
  with Cons show ?case by (simp add: algebra_simps) (metis add.commute add.left_commute)
qed simp

lemma numberRun_other [simp]: "j \<noteq> i \<Longrightarrow> msgsTo j (numberRun i bs v) = []"
  by (induction bs arbitrary: v) auto

lemma deliverTo_other [simp]: "j \<noteq> i \<Longrightarrow> msgsTo j (deliverTo i bs high) = []"
  by (simp add: deliverTo_def)

lemma deliverTo_runs: "list_all numbersIt bs \<Longrightarrow> runsOn (high - int (length bs)) (msgsTo i (deliverTo i bs high)) high"
  using numberRun_runs [of bs "high - int (length bs)" i] by (simp add: deliverTo_def)

text \<open>What a step says to each kiosk takes its counter from where it was to where the step leaves it.\<close>

definition kiosksOk :: "EnrollDb \<Rightarrow> bool" where
  "kiosksOk db \<longleftrightarrow> distinct (map ki_id (ed_kiosks db)) \<and> (\<forall>k \<in> set (ed_kiosks db). 0 \<le> ki_roster k)"

definition runsAll :: "EnrollDb \<Rightarrow> sent \<Rightarrow> EnrollDb \<Rightarrow> bool" where
  "runsAll c out d \<longleftrightarrow> (\<forall>i. runsOn (rosterAt c i) (msgsTo i out) (rosterAt d i)) \<and> kiosksOk d"

lemma kiosksOk_nonneg: "kiosksOk db \<Longrightarrow> kioskOf db i = Some k \<Longrightarrow> 0 \<le> ki_roster k"
  unfolding kiosksOk_def kioskOf_def using firstWhere_key [of ki_id] by blast

lemma runsAll_quiet: "kiosksOk c \<Longrightarrow> ed_kiosks d = ed_kiosks c \<Longrightarrow> runsAll c [] d"
  by (simp add: runsAll_def kiosksOk_def rosterAt_def kioskOf_def)

lemma runsAll_ok: "runsAll c out d \<Longrightarrow> kiosksOk d"
  by (simp add: runsAll_def)

lemma runsAll_trans: "runsAll a xs b \<Longrightarrow> runsAll b ys c \<Longrightarrow> runsAll a (xs @ ys) c"
  unfolding runsAll_def msgsTo_simps runsOn_append by blast

lemma reserve_Inr:
  assumes "reserve db1 i n low = Inr (d, high)"
  obtains k where "kioskOf db1 i = Some k" "high = max (ki_roster k) low + int n"
    "d = db1\<lparr>ed_kiosks := updateMany (\<lambda>k. ki_id k = i) (\<lambda>k. k\<lparr>ki_roster := high\<rparr>) (ed_kiosks db1)\<rparr>"
    "rosterAt d i = high" "\<And>j. j \<noteq> i \<Longrightarrow> rosterAt d j = rosterAt db1 j"
proof -
  from assms obtain k where k: "kioskOf db1 i = Some k" and high: "high = max (ki_roster k) low + int n"
    and d: "d = db1\<lparr>ed_kiosks := updateMany (\<lambda>k. ki_id k = i) (\<lambda>k. k\<lparr>ki_roster := high\<rparr>) (ed_kiosks db1)\<rparr>"
    by (auto simp: reserve_def bindR_eq_Inr Let_def)
  have "kioskOf d j = map_option (\<lambda>k. if ki_id k = i then k\<lparr>ki_roster := high\<rparr> else k) (kioskOf db1 j)" for j
    unfolding d kioskOf_def by (simp add: firstWhere_updateMany)
  moreover have "kioskOf db1 j = Some k' \<Longrightarrow> ki_id k' = j" for j k'
    unfolding kioskOf_def using firstWhere_key [of ki_id] by blast
  ultimately show thesis using that [OF k high d] k by (auto simp: rosterAt_def split: option.splits)
qed

lemma reserve_runs:
  assumes "reserve db1 i (length bs) 0 = Inr (d, high)" "kiosksOk c" "ed_kiosks db1 = ed_kiosks c" "list_all numbersIt bs"
  shows "runsAll c (deliverTo i bs high) d"
  using assms(1)
proof (rule reserve_Inr)
  fix k
  assume k: "kioskOf db1 i = Some k" "high = max (ki_roster k) 0 + int (length bs)"
    and d: "d = db1\<lparr>ed_kiosks := updateMany (\<lambda>k. ki_id k = i) (\<lambda>k. k\<lparr>ki_roster := high\<rparr>) (ed_kiosks db1)\<rparr>"
    and at: "rosterAt d i = high" "\<And>j. j \<noteq> i \<Longrightarrow> rosterAt d j = rosterAt db1 j"
  have same: "kioskOf db1 = kioskOf c" by (intro ext) (simp add: kioskOf_def assms(3))
  have nonneg: "0 \<le> ki_roster k" using kiosksOk_nonneg [OF assms(2)] k(1) same by simp
  have "runsOn (rosterAt c j) (msgsTo j (deliverTo i bs high)) (rosterAt d j)" for j
  proof (cases "j = i")
    case True
    then show ?thesis using deliverTo_runs [OF assms(4), of high i] k nonneg at(1) same by (simp add: rosterAt_def)
  next
    case False
    then show ?thesis using at(2) same by (simp add: rosterAt_def)
  qed
  then show ?thesis using assms(2,3) nonneg k(2)
    by (auto simp: runsAll_def d updateMany_keys kiosksOk_def updateMany_bounded)
qed

lemma tell_runs:
  assumes "tell i told = Inr (d, x, out)" "kiosksOk c"
    "\<And>db1 y bs. told = Inr (db1, y, bs) \<Longrightarrow> ed_kiosks db1 = ed_kiosks c \<and> list_all numbersIt bs"
  shows "runsAll c out d"
proof -
  from assms(1) obtain db1 y bs high where told: "told = Inr (db1, y, bs)"
    and d: "reserve db1 i (length bs) 0 = Inr (d, high)" and out: "out = deliverTo i bs high"
    by (auto simp: tell_def bindR_eq_Inr)
  show ?thesis unfolding out using assms(3) [OF told] by (intro reserve_runs [OF d assms(2)]) simp_all
qed

text \<open>The steps of the enrolment service. A handler that read \<open>b\<close> commits on \<open>c\<close>, says \<open>out\<close> and leaves \<open>d\<close>;
  the devices service approves kiosks, takes new ones in and writes the model a heartbeat names, and no
  more of it reaches these tables.\<close>

inductive enrollStep :: "EnrollDb \<Rightarrow> EnrollDb \<Rightarrow> sent \<Rightarrow> EnrollDb \<Rightarrow> bool" where
  assigned: "assign env b c i e = Inr (d, st, out) \<Longrightarrow> enrollStep b c out d"
| assigned_many: "assignMany env c i people = Inr (d, res, out) \<Longrightarrow> distinct (map fst people) \<Longrightarrow> enrollStep b c out d"
| revoked: "revoke env b c v i e = Inr (d, out, eff) \<Longrightarrow> enrollStep b c out d"
| erased: "erase env c e actor = Inr (d, out, eff) \<Longrightarrow> enrollStep b c out d"
| consent_withdrawn: "withdrawConsent env c v e = Inr (d, out, eff) \<Longrightarrow> enrollStep b c out d"
| sets_swept: "dropUnusedSets b c = (d, es) \<Longrightarrow> enrollStep b c [] d"
| consent_granted: "grant env b c v who how why = Inr (d, eff) \<Longrightarrow> enrollStep b c [] d"
| grants_staged: "stageGrants env c by' es how = (d, made) \<Longrightarrow> enrollStep b c [] d"
| sample_taken: "takeSample env b c i report = Some (d, verdict) \<Longrightarrow> enrollStep b c [] d"
| drop_said: "sayDrop env c i e = Inr (d, u, out) \<Longrightarrow> enrollStep b c out d"
| unasked_said: "unasked env b c i e = Inr (d, u, out) \<Longrightarrow> enrollStep b c out d"
| sample_refused: "refuseSample env c i e = Inr (d, u, out) \<Longrightarrow> enrollStep b c out d"
| sample_spread: "sample \<in> set (ed_faces b) \<Longrightarrow> facePerson b (ft_employee sample) = Some p \<Longrightarrow>
    spreadTo env c i p sample replaced = Inr (d, u, out) \<Longrightarrow> enrollStep b c out d"
| resynced: "resync env b c i low = Inr (d, high, out) \<Longrightarrow> enrollStep b c out d"
| fleet_changed: "kiosksOk (c\<lparr>ed_kiosks := ks\<rparr>) \<Longrightarrow> (\<And>i. rosterAt (c\<lparr>ed_kiosks := ks\<rparr>) i = rosterAt c i) \<Longrightarrow>
    enrollStep b c [] (c\<lparr>ed_kiosks := ks\<rparr>)"

inductive enrollReach :: "EnrollDb \<Rightarrow> sent \<Rightarrow> EnrollDb \<Rightarrow> bool" where
  start: "enrollReach a [] a"
| more: "enrollReach a xs b \<Longrightarrow> enrollReach b ys c \<Longrightarrow> enrollStep b c out d \<Longrightarrow> enrollReach a (xs @ ys @ out) d"

lemma putPair_kiosks [simp]: "ed_kiosks (putPair i e st idx db) = ed_kiosks db"
  by (simp add: putPair_def)

lemma putMany_kiosks [simp]: "ed_kiosks (putMany i faces es db) = ed_kiosks db"
proof -
  have "ed_kiosks (fold (\<lambda>e db'. putPair i e (f e) (g e) db') xs db) = ed_kiosks db" for f g xs
    by (induction xs arbitrary: db) simp_all
  then show ?thesis by (simp add: putMany_def)
qed

lemma revokePairs_kiosks [simp]: "ed_kiosks (revokePairs now P db) = ed_kiosks db"
  by (simp add: revokePairs_def)

lemma weighSample_kiosks [simp]: "ed_kiosks (fst (weighSample env db i report m)) = ed_kiosks db"
  by (simp add: weighSample_def Let_def split: option.splits)

lemma erase_msgs:
  "distinct (map ki_id ks) \<Longrightarrow> msgsTo i (concat (map (\<lambda>k. deliverTo (ki_id k) [dropAll env e] (ki_roster k)) (filter P ks)))
     = (case firstWhere ki_id i ks of None \<Rightarrow> [] | Some k \<Rightarrow> if P k then [dropAll env e (ki_roster k)] else [])"
proof (induction ks)
  case (Cons k ks)
  have none: "firstWhere ki_id i ks = None" if "ki_id k = i"
    using Cons.prems that by (simp add: firstWhere_none image_iff) metis
  show ?case
  proof (cases "ki_id k = i")
    case True
    then show ?thesis using Cons none by (simp add: deliverTo_def firstWhere_def)
  next
    case False
    then have "i \<noteq> ki_id k" by simp
    with False show ?thesis using Cons by (simp add: firstWhere_def)
  qed
qed (simp add: firstWhere_def)

lemma eraseIn_kioskOf:
  "kioskOf (eraseIn env e db) i = map_option (\<lambda>k. if i \<in> set (doorsOf db e) then k\<lparr>ki_roster := ki_roster k + 1\<rparr> else k) (kioskOf db i)"
proof -
  have "kioskOf (eraseIn env e db) i
      = map_option (\<lambda>k. if ki_id k \<in> set (doorsOf db e) then k\<lparr>ki_roster := ki_roster k + 1\<rparr> else k) (kioskOf db i)"
    unfolding kioskOf_def eraseIn_def Let_def by (simp add: firstWhere_updateMany)
  also have "\<dots> = map_option (\<lambda>k. if i \<in> set (doorsOf db e) then k\<lparr>ki_roster := ki_roster k + 1\<rparr> else k) (kioskOf db i)"
    unfolding kioskOf_def using firstWhere_key [of ki_id i "ed_kiosks db"] by (cases "firstWhere ki_id i (ed_kiosks db)") auto
  finally show ?thesis .
qed

lemma eraseWith_Inr:
  assumes "eraseWith env first db e = Inr (d, x, out)"
  obtains db1 where "first db = Inr (db1, x)" "d = eraseIn env e db1"
    "out = concat (map (\<lambda>k. deliverTo (ki_id k) [dropAll env e] (ki_roster k)) (filter (\<lambda>k. ki_id k \<in> set (doorsOf db1 e)) (ed_kiosks d)))"
  using assms by (auto simp: eraseWith_def bindR_eq_Inr Let_def)

lemma eraseIn_kiosks: "ed_kiosks (eraseIn env e db) =
    updateMany (\<lambda>k. ki_id k \<in> set (doorsOf db e)) (\<lambda>k. k\<lparr>ki_roster := ki_roster k + 1\<rparr>) (ed_kiosks db)"
  by (simp add: eraseIn_def Let_def)

lemma eraseIn_ok: "kiosksOk db \<Longrightarrow> kiosksOk (eraseIn env e db)"
  by (simp add: kiosksOk_def eraseIn_kiosks updateMany_keys updateMany_bounded)

lemma erase_runs:
  assumes "eraseWith env first c e = Inr (d, x, out)" "kiosksOk c"
    "\<And>db1 y. first c = Inr (db1, y) \<Longrightarrow> ed_kiosks db1 = ed_kiosks c \<and> ed_pairs db1 = ed_pairs c"
  shows "runsAll c out d"
proof -
  from assms(1) obtain db1 where one: "first c = Inr (db1, x)" and d: "d = eraseIn env e db1"
    and out: "out = concat (map (\<lambda>k. deliverTo (ki_id k) [dropAll env e] (ki_roster k)) (filter (\<lambda>k. ki_id k \<in> set (doorsOf db1 e)) (ed_kiosks d)))"
    by (rule eraseWith_Inr)
  from assms(3) [OF one] assms(2) have ok1: "kiosksOk db1" and at: "rosterAt c = rosterAt db1"
    by (auto simp: kiosksOk_def rosterAt_def kioskOf_def)
  then have okd: "kiosksOk d" unfolding d by (simp add: eraseIn_ok)
  have "runsOn (rosterAt c i) (msgsTo i out) (rosterAt d i)" for i
  proof -
    have "msgsTo i out = (case kioskOf d i of None \<Rightarrow> [] | Some k \<Rightarrow> if i \<in> set (doorsOf db1 e) then [dropAll env e (ki_roster k)] else [])"
      unfolding out using erase_msgs [of "ed_kiosks d" i env e "\<lambda>k. ki_id k \<in> set (doorsOf db1 e)"] okd firstWhere_key [of ki_id i "ed_kiosks d"]
      by (auto simp: kiosksOk_def kioskOf_def split: option.splits)
    then show ?thesis unfolding at
      using eraseIn_kioskOf [of env e db1 i] numbersIt_builds(4) [of env e]
      by (auto simp: rosterAt_def d numbersIt_def split: option.splits)
  qed
  then show ?thesis using okd by (simp add: runsAll_def)
qed

lemma step_runs:
  assumes "enrollStep b c out d" "kiosksOk c"
  shows "runsAll c out d"
  using assms(1)
proof cases
  case (assigned env i e st)
  from assigned obtain p where "tell i (if holding (pairOf c i e) then Inr (putPair i e RETAKE None c, RETAKE, [ask env p])
        else bindR (handOut c i) (\<lambda>(model, faces).
            let held = faces e; st = (if held = [] then ASSIGNED else ENROLLED)
            in Inr (putPair i e st (lastIdx held) c, st,
                    if held = [] then [ask env p] else buildsFor env e (fp_fullName p) held))) = Inr (d, st, out)"
    by (auto simp: assign_def bindR_eq_Inr)
  then show ?thesis
    by (rule tell_runs [OF _ assms(2)]) (auto simp: bindR_eq_Inr Let_def split: if_splits)
next
  case (assigned_many env i people res)
  then obtain faces order es high where re: "reserve (putMany i faces es c) i (length (concat (assignRuns env faces order))) 0 = Inr (d, high)"
    and out: "out = deliverTo i (concat (assignRuns env faces order)) high"
    by (auto simp: assignMany_def bindR_eq_Inr Let_def)
  show ?thesis unfolding out by (rule reserve_runs [OF re assms(2)]) simp_all
next
  case (revoked env v i e eff)
  then obtain u where "tell i (let db1 = revokePairs (en_now env) (\<lambda>r. pairKey r = (i, e)) c
              in bindR (refuse (pairOf db1 i e = None) (NotFound ''ENROLLMENT_NOT_FOUND'')) (\<lambda>_.
                   Inr (db1, (), [dropAll env e]))) = Inr (d, u, out)"
    by (auto simp: revoke_def bindR_eq_Inr)
  then show ?thesis by (rule tell_runs [OF _ assms(2)]) (auto simp: bindR_eq_Inr Let_def)
next
  case (erased env e actor eff)
  then obtain u where "eraseWith env (\<lambda>db1. Inr (db1, ())) c e = Inr (d, u, out)" by (auto simp: erase_def bindR_eq_Inr)
  then show ?thesis by (rule erase_runs [OF _ assms(2)]) auto
next
  case (consent_withdrawn env v e eff)
  then obtain u where "eraseWith env (dropConsent env e) c e = Inr (d, u, out)" by (auto simp: withdrawConsent_def bindR_eq_Inr)
  then show ?thesis by (rule erase_runs [OF _ assms(2)]) (auto simp: dropConsent_def bindR_eq_Inr)
next
  case (sets_swept es)
  then have "ed_kiosks d = ed_kiosks c" by (auto simp: dropUnusedSets_def Let_def split: if_splits)
  with sets_swept show ?thesis by (simp add: runsAll_quiet [OF assms(2)])
next
  case (consent_granted env v who how why eff)
  then show ?thesis by (auto simp: grant_def bindR_eq_Inr intro!: runsAll_quiet [OF assms(2)])
next
  case (grants_staged env by' es how made)
  then show ?thesis by (auto simp: stageGrants_def Let_def intro!: runsAll_quiet [OF assms(2)])
next
  case (sample_taken env i report verdict)
  then have "d = fst (weighSample env c i report (modelOf b i report))" by (auto simp: takeSample_def split: if_splits)
  with sample_taken show ?thesis by (auto intro!: runsAll_quiet [OF assms(2)])
next
  case (drop_said env i e u)
  then show ?thesis unfolding sayDrop_def by (intro tell_runs [OF _ assms(2)]) auto
next
  case (unasked_said env i e u)
  then show ?thesis unfolding unasked_def by (intro tell_runs [OF _ assms(2)]) (auto split: option.splits)
next
  case (sample_refused env i e u)
  then show ?thesis unfolding refuseSample_def by (intro tell_runs [OF _ assms(2)]) (auto split: option.splits)
next
  case (sample_spread sample p env i replaced u)
  then show ?thesis unfolding spreadTo_def by (intro tell_runs [OF _ assms(2)]) (auto simp: claimWhere_def Let_def)
next
  case (resynced env i low high)
  then obtain k where k: "kioskOf b i = Some k"
    and re: "reserve (c\<lparr>ed_pairs := updateMany (\<lambda>r. de_device r = i \<and> de_employee r \<in> set (askedAgain b k)
                       \<and> (de_state r = ENROLLED \<or> de_state r = RETAKE)) (\<lambda>r. r\<lparr>de_state := ASSIGNED\<rparr>) (ed_pairs c)\<rparr>) i
               (length (concat (map (replayBuilds env b k) (rosterOf b i))) + 1) low = Inr (d, high)"
    and out: "out = (i, bare OP_REPLACE_ALL env NO_EMPLOYEE (high - int (length (concat (map (replayBuilds env b k) (rosterOf b i))))))
               # deliverTo i (concat (map (replayBuilds env b k) (rosterOf b i))) high"
    by (auto simp: resync_def replay_def device_def bindR_eq_Inr Let_def)
  let ?bs = "concat (map (replayBuilds env b k) (rosterOf b i))"
  let ?c = "c\<lparr>ed_pairs := updateMany (\<lambda>r. de_device r = i \<and> de_employee r \<in> set (askedAgain b k)
                       \<and> (de_state r = ENROLLED \<or> de_state r = RETAKE)) (\<lambda>r. r\<lparr>de_state := ASSIGNED\<rparr>) (ed_pairs c)\<rparr>"
  have same: "kioskOf ?c = kioskOf c" by (intro ext) (simp add: kioskOf_def)
  from re show ?thesis
  proof (rule reserve_Inr)
    fix k'
    assume k': "kioskOf ?c i = Some k'" "high = max (ki_roster k') low + int (length ?bs + 1)"
      and d: "d = ?c\<lparr>ed_kiosks := updateMany (\<lambda>k. ki_id k = i) (\<lambda>k. k\<lparr>ki_roster := high\<rparr>) (ed_kiosks ?c)\<rparr>"
      and at: "rosterAt d i = high" "\<And>j. j \<noteq> i \<Longrightarrow> rosterAt d j = rosterAt ?c j"
    have nonneg: "0 \<le> ki_roster k'" using kiosksOk_nonneg [OF assms(2)] k'(1) same by simp
    have bs: "list_all numbersIt ?bs" using numbersIt_lists(3) by (fastforce simp: list_all_iff)
    have "runsOn (rosterAt c j) (msgsTo j out) (rosterAt d j)" for j
    proof (cases "j = i")
      case True
      then show ?thesis using k' at(1) same deliverTo_runs [OF bs, of high i] numbersIt_builds(1) [of OP_REPLACE_ALL env NO_EMPLOYEE]
        by (simp add: out rosterAt_def numbersIt_def bare_def)
    next
      case False
      then have "i \<noteq> j" by simp
      with False show ?thesis using at(2) same by (simp add: out rosterAt_def)
    qed
    then show ?thesis using assms(2) nonneg k'(2) by (auto simp: runsAll_def d updateMany_keys kiosksOk_def updateMany_bounded)
  qed
next
  case (fleet_changed ks)
  then show ?thesis by (simp add: runsAll_def)
qed

lemma reach_runs: "enrollReach a xs d \<Longrightarrow> kiosksOk a \<Longrightarrow> runsAll a xs d"
proof (induction rule: enrollReach.induct)
  case (start a)
  then show ?case by (simp add: runsAll_def)
next
  case (more a xs b ys c out d)
  then have ab: "runsAll a xs b" by blast
  then have bc: "runsAll b ys c" using more.IH(2) runsAll_ok by blast
  then have "runsAll c out d" using step_runs [OF more.hyps(3)] runsAll_ok by blast
  with ab bc show ?case using runsAll_trans by blast
qed

lemma level_hearing:
  "runsOn (ks_held s) ms m \<Longrightarrow> \<not> ks_gapped s \<Longrightarrow>
     ks_held (fst (takeAll kv (hearing ms) s)) = m \<and> \<not> ks_gapped (fst (takeAll kv (hearing ms) s))"
proof (induction ms arbitrary: s)
  case (Cons p ps)
  from Cons.prems obtain v where v: "el_rosterVersion p = Some v" "v = ks_held s + 1 \<or> el_op p = OP_REPLACE_ALL \<and> ks_held s < v"
    "runsOn v ps m" by auto
  have "rosterGate p (ks_held s) (ks_gapped s) = TAKE" using v Cons.prems(2) by (auto simp: rosterGate_def)
  then have "ks_held (fst (takeOne kv True False p s)) = v" "\<not> ks_gapped (fst (takeOne kv True False p s))"
    using v(1) Cons.prems(2) by (simp_all add: takeOne_def split_beta)
  with Cons.IH v(3) show ?case by simp
qed simp

text \<open>C3: the numbers run on. Over every interleaving of the enrolment service, the messages a kiosk is sent
  count up one by one from the counter it started at to the counter the server ends at, jumping ahead only
  with a message that restates the whole roster; so a kiosk that hears them all, its table free, ends level
  with the server.\<close>

theorem numbers_run_on:
  assumes "enrollReach a sent db" "kiosksOk a"
  shows "runsOn (rosterAt a i) (msgsTo i sent) (rosterAt db i)
     \<and> (\<forall>kv s. ks_held s = rosterAt a i \<and> \<not> ks_gapped s \<longrightarrow>
          ks_held (fst (takeAll kv (map (\<lambda>m. (True, m)) (msgsTo i sent)) s)) = rosterAt db i)"
proof -
  have "runsOn (rosterAt a i) (msgsTo i sent) (rosterAt db i)" using reach_runs [OF assms] by (simp add: runsAll_def)
  moreover from this level_hearing have "ks_held s = rosterAt a i \<Longrightarrow> \<not> ks_gapped s \<Longrightarrow>
      ks_held (fst (takeAll kv (map (\<lambda>m. (True, m)) (msgsTo i sent)) s)) = rosterAt db i" for kv s by metis
  ultimately show ?thesis by blast
qed

subsection \<open>A small fleet\<close>

text \<open>One kiosk and one person with a face, on which the properties are applied.\<close>

definition smallEnv :: EnrollEnv where
  "smallEnv = \<lparr>en_now = 9, en_seal = id, en_unseal = id, en_nfc = id, en_sessionMinutes = 10, en_noticeVersion = ''1''\<rparr>"

definition smallFleet :: EnrollDb where
  "smallFleet =
     \<lparr>ed_kiosks = [\<lparr>ki_id = ''k'', ki_approved = True, ki_model = Some ''m'', ki_roster = 4\<rparr>],
      ed_people = [\<lparr>fp_person = \<lparr>p_id = 7, p_managerId = None, p_legalEntityId = ''e''\<rparr>, fp_code = ''c'', fp_fullName = ''n'',
                   fp_model = Some ''m''\<rparr>],
      ed_pairs = [(newPair ''k'' 7 ENROLLED (Some 0))],
      ed_faces = [\<lparr>ft_employee = 7, ft_model = Some ''m'', ft_idx = 0, ft_embedding = ''x'', ft_scale = 1, ft_quality = None, ft_capturedAt = 3\<rparr>],
      ed_consents = [\<lparr>bc_employee = 7, bc_noticeVersion = ''1'', bc_state = GRANTED, bc_method = ''PAPER'', bc_grantedAt = 1,
                      bc_withdrawnAt = None, bc_recordedById = ''u'', bc_note = None\<rparr>]\<rparr>"

definition smallKiosk :: KioskState where
  "smallKiosk = \<lparr>ks_faces = [], ks_pending = [7], ks_held = 4, ks_gapped = False\<rparr>"

definition smallKioskEnv :: KioskEnv where
  "smallKioskEnv = \<lparr>kv_model = ''m'', kv_decodes = (\<lambda>t. t = ''x''), kv_capacity = 3, kv_pendingCap = 2\<rparr>"

lemma newPair_sel [simp]:
  "de_device (newPair i e st idx) = i" "de_employee (newPair i e st idx) = e" "de_state (newPair i e st idx) = st"
  by (simp_all add: newPair_def)

lemmas small_defs = smallEnv_def smallFleet_def smallKiosk_def smallKioskEnv_def newPair_def

text \<open>Two messages that arrive in the wrong order, the second then once more.\<close>

theorem kiosk_keeps_to_roster_witness:
  "let ms = [dropAll smallEnv 7 5, withdraw smallEnv 8 6]; heard = [(True, ms ! 1), (True, ms ! 0), (True, ms ! 1)]
   in \<exists>n \<le> length ms. ks_held (fst (takeAll smallKioskEnv heard smallKiosk)) = ks_held smallKiosk + int n
     \<and> ks_faces (fst (takeAll smallKioskEnv heard smallKiosk))
       = ks_faces (fst (takeAll smallKioskEnv (map (\<lambda>m. (True, m)) (take n ms)) smallKiosk))"
  unfolding Let_def
  by (rule kiosk_keeps_to_roster) (auto simp: small_defs dropAll_def withdraw_def bare_def less_Suc_eq numeral_2_eq_2)

theorem numbers_run_on_witness:
  "runsOn 4 (msgsTo ''k'' (deliverTo ''k'' [dropAll smallEnv 7] 5)) 5"
proof -
  obtain d where d: "sayDrop smallEnv smallFleet ''k'' 7 = Inr (d, (), deliverTo ''k'' [dropAll smallEnv 7] 5)" "rosterAt d ''k'' = 5"
    by (simp add: sayDrop_def tell_def reserve_def small_defs kioskOf_def firstWhere_def found_def rosterAt_def)
  have "enrollReach smallFleet ([] @ [] @ deliverTo ''k'' [dropAll smallEnv 7] 5) d"
    by (rule more [OF start start drop_said [OF d(1)]])
  from numbers_run_on [OF this, of "''k''"] d(2) show ?thesis
    by (simp add: small_defs kiosksOk_def rosterAt_def kioskOf_def firstWhere_def)
qed

end
