(* ===== verification/Faces.thy ===== *)
theory Faces
  imports RosterSync
begin

section \<open>Faces and consents\<close>

text \<open>
  What the steps of \<open>RosterSync\<close> keep of the consents: a face template stands only under a consent that is
  not withdrawn, and a withdrawal takes the faces, the pairs and what the kiosks hold.
\<close>

definition consented :: "EnrollDb \<Rightarrow> bool" where
  "consented db \<longleftrightarrow> (\<forall>f \<in> set (ed_faces db). live db (ft_employee f))"

lemma live_keeps [simp]:
  "live (db\<lparr>ed_kiosks := ks\<rparr>) = live db" "live (db\<lparr>ed_pairs := ps\<rparr>) = live db" "live (db\<lparr>ed_people := us\<rparr>) = live db"
  "live (db\<lparr>ed_faces := fs\<rparr>) = live db"
  by (auto simp: live_def fun_eq_iff)

lemma live_appended: "live db e \<Longrightarrow> live (db\<lparr>ed_consents := ed_consents db @ cs\<rparr>) e"
  by (auto simp: live_def)

lemma consented_keeps:
  "ed_faces d = ed_faces c \<Longrightarrow> ed_consents d = ed_consents c \<Longrightarrow> consented c \<Longrightarrow> consented d"
  by (simp add: consented_def live_def)

lemma consented_fewer:
  "set (ed_faces d) \<subseteq> set (ed_faces c) \<Longrightarrow> ed_consents d = ed_consents c \<Longrightarrow> consented c \<Longrightarrow> consented d"
  by (auto simp: consented_def live_def)

lemma putPair_keeps [simp]: "ed_faces (putPair i e st idx db) = ed_faces db" "ed_consents (putPair i e st idx db) = ed_consents db"
  by (simp_all add: putPair_def)

lemma putMany_keeps [simp]: "ed_faces (putMany i faces es db) = ed_faces db" "ed_consents (putMany i faces es db) = ed_consents db"
proof -
  have "ed_faces (fold (\<lambda>e db'. putPair i e (f e) (g e) db') xs db) = ed_faces db
      \<and> ed_consents (fold (\<lambda>e db'. putPair i e (f e) (g e) db') xs db) = ed_consents db" for f g xs
    by (induction xs arbitrary: db) simp_all
  then show "ed_faces (putMany i faces es db) = ed_faces db" "ed_consents (putMany i faces es db) = ed_consents db"
    by (simp_all add: putMany_def)
qed

lemma revokePairs_keeps [simp]: "ed_faces (revokePairs now P db) = ed_faces db" "ed_consents (revokePairs now P db) = ed_consents db"
  by (simp_all add: revokePairs_def)

lemma reserve_keeps:
  "reserve db i n low = Inr (d, high) \<Longrightarrow> ed_faces d = ed_faces db \<and> ed_consents d = ed_consents db \<and> ed_pairs d = ed_pairs db"
  by (auto simp: reserve_def bindR_eq_Inr Let_def)

lemma tell_keeps:
  assumes "tell i told = Inr (d, x, out)" "consented c"
    "\<And>db1 y bs. told = Inr (db1, y, bs) \<Longrightarrow> ed_faces db1 = ed_faces c \<and> ed_consents db1 = ed_consents c"
  shows "consented d"
  using assms(1,3) by (intro consented_keeps [OF _ _ assms(2)]) (auto simp: tell_def bindR_eq_Inr dest: reserve_keeps)

lemma eraseIn_rows [simp]:
  "ed_faces (eraseIn env e db) = deleteMany (\<lambda>f. ft_employee f = e) (ed_faces db)"
  "ed_consents (eraseIn env e db) = ed_consents db"
  by (simp_all add: eraseIn_def Let_def)

lemma eraseIn_consented:
  assumes "ed_faces db1 = ed_faces db" "consented db" "\<And>e'. e' \<noteq> e \<Longrightarrow> live db e' \<Longrightarrow> live db1 e'"
  shows "consented (eraseIn env e db1)"
  using assms by (auto simp: consented_def live_def deleteMany_def)

lemma dropConsent_others:
  "dropConsent env e db = Inr (db1, x) \<Longrightarrow> ed_faces db1 = ed_faces db \<and> (e' \<noteq> e \<longrightarrow> live db e' \<longrightarrow> live db1 e')"
  by (force simp: dropConsent_def bindR_eq_Inr live_def updateMany_def)

lemma set_putFace: "set (putFace f faces) \<subseteq> insert f (set faces)"
  by (auto simp: putFace_def updateMany_def)

lemma weighSample_consented:
  assumes "consented db"
  shows "consented (fst (weighSample env db i report m))"
proof -
  have "consented (db\<lparr>ed_faces := putFace f kept, ed_pairs := ps, ed_people := us\<rparr>)"
    if "live db (ft_employee f)" "set kept \<subseteq> set (ed_faces db)" for f kept ps us
    using assms that set_putFace [of f kept] by (fastforce simp: consented_def)
  moreover have "set (deleteMany P xs) \<subseteq> set xs" for P :: "FaceTemplate \<Rightarrow> bool" and xs
    by (auto simp: deleteMany_def)
  ultimately show ?thesis using assms
    by (auto simp: weighSample_def Let_def sampleOf_def split: option.splits if_splits)
qed

lemma step_consented:
  assumes "enrollStep b c out d" "consented c"
  shows "consented d"
  using assms(1)
proof cases
  case (assigned env i e st)
  then show ?thesis
    by (auto simp: assign_def bindR_eq_Inr Let_def split: if_splits elim!: tell_keeps [OF _ assms(2)])
next
  case (assigned_many env i people res)
  then show ?thesis
    by (intro consented_keeps [OF _ _ assms(2)]) (auto simp: assignMany_def bindR_eq_Inr Let_def dest!: reserve_keeps)
next
  case (revoked env v i e eff)
  then show ?thesis by (auto simp: revoke_def bindR_eq_Inr Let_def elim!: tell_keeps [OF _ assms(2)])
next
  case (erased env e actor eff)
  then show ?thesis using assms(2) by (auto simp: erase_def bindR_eq_Inr elim!: eraseWith_Inr intro!: eraseIn_consented)
next
  case (consent_withdrawn env v e eff)
  then show ?thesis using assms(2)
    by (auto simp: withdrawConsent_def bindR_eq_Inr elim!: eraseWith_Inr intro!: eraseIn_consented [of _ c] dest: dropConsent_others)
next
  case (sets_swept es)
  then show ?thesis
    by (intro consented_fewer [OF _ _ assms(2)]) (auto simp: dropUnusedSets_def Let_def deleteMany_def split: if_splits)
next
  case (consent_granted env v who how why eff)
  then show ?thesis using assms(2) by (auto simp: grant_def bindR_eq_Inr consented_def intro: live_appended)
next
  case (grants_staged env by' es how made)
  then show ?thesis using assms(2) by (auto simp: stageGrants_def Let_def consented_def intro: live_appended)
next
  case (sample_taken env i report verdict)
  then have "d = fst (weighSample env c i report (modelOf b i report))" by (auto simp: takeSample_def split: if_splits)
  with weighSample_consented [OF assms(2)] show ?thesis by simp
next
  case (drop_said env i e u)
  then show ?thesis by (auto simp: sayDrop_def elim!: tell_keeps [OF _ assms(2)])
next
  case (unasked_said env i e u)
  then show ?thesis by (auto simp: unasked_def elim!: tell_keeps [OF _ assms(2)])
next
  case (sample_refused env i e u)
  then show ?thesis by (auto simp: refuseSample_def elim!: tell_keeps [OF _ assms(2)])
next
  case (sample_spread sample p env i replaced u)
  then show ?thesis by (auto simp: spreadTo_def claimWhere_def Let_def elim!: tell_keeps [OF _ assms(2)])
next
  case (resynced env i low high)
  then show ?thesis
    by (intro consented_keeps [OF _ _ assms(2)]) (auto simp: resync_def replay_def bindR_eq_Inr Let_def dest!: reserve_keeps)
next
  case (fleet_changed ks)
  then show ?thesis using assms(2) by (simp add: consented_def)
qed

lemma reach_consented: "enrollReach a sent db \<Longrightarrow> consented a \<Longrightarrow> consented db"
  by (induction rule: enrollReach.induct) (blast dest: step_consented)+

subsection \<open>Withdrawing\<close>

lemma erase_says:
  assumes "eraseWith env first db e = Inr (d, x, out)" "first db = Inr (db1, x)" "kiosksOk db" "ed_kiosks db1 = ed_kiosks db"
    "ed_pairs db1 = ed_pairs db" "i \<in> set (doorsOf db e)" "kioskOf db i = Some k"
  shows "msgsTo i out = [dropAll env e (ki_roster k + 1)]" "rosterAt d i = ki_roster k + 1"
proof -
  have d: "d = eraseIn env e db1" and out: "out = concat (map (\<lambda>k. deliverTo (ki_id k) [dropAll env e] (ki_roster k))
      (filter (\<lambda>k. ki_id k \<in> set (doorsOf db1 e)) (ed_kiosks d)))"
    using assms(1,2) by (auto elim!: eraseWith_Inr)
  have door: "i \<in> set (doorsOf db1 e)" using assms(5,6) by (simp add: doorsOf_def)
  have at: "kioskOf d i = Some (k\<lparr>ki_roster := ki_roster k + 1\<rparr>)"
    unfolding d eraseIn_kioskOf using door assms(4,7) by (simp add: kioskOf_def)
  have key: "ki_id k = i" using assms(7) firstWhere_key [of ki_id i "ed_kiosks db"] by (simp add: kioskOf_def)
  have "kiosksOk d" unfolding d using assms(3,4) by (intro eraseIn_ok) (simp add: kiosksOk_def)
  then show "msgsTo i out = [dropAll env e (ki_roster k + 1)]"
    unfolding out using erase_msgs [of "ed_kiosks d" i env e "\<lambda>k. ki_id k \<in> set (doorsOf db1 e)"] at door key
    by (simp add: kiosksOk_def kioskOf_def)
  show "rosterAt d i = ki_roster k + 1" using at by (simp add: rosterAt_def)
qed

lemma live_withdrawn:
  "\<not> live (db\<lparr>ed_consents := updateMany (\<lambda>c. bc_employee c = e \<and> bc_state c = GRANTED)
        (\<lambda>c. c\<lparr>bc_state := WITHDRAWN, bc_withdrawnAt := w\<rparr>) cs\<rparr>) e"
  by (auto simp: live_def updateMany_bounded)

lemma revokePending_gone: "distinct ps \<Longrightarrow> e \<notin> set (revokePending e ps)"
proof (induction ps)
  case (Cons p ps)
  then show ?case using in_set_butlastD [of e ps] last_in_set [of ps] by (cases "ps = []") auto
qed simp

lemma drop_heard:
  assumes "\<not> ks_gapped s" "distinct (ks_pending s)"
  shows "let t = fst (takeOne kv True False (dropAll env e (ks_held s + 1)) s)
         in ks_held t = ks_held s + 1 \<and> (\<forall>r \<in> set (ks_faces t). fr_employee r \<noteq> e) \<and> e \<notin> set (ks_pending t)"
  using takeOne_next [of "dropAll env e (ks_held s + 1)" s kv False] assms revokePending_gone [of "ks_pending s" e]
  by (simp add: dropAll_def bare_def applyRoster_def Let_def)

text \<open>C18: a withdrawal erases. When a consent is withdrawn the person is left without a live consent and
  without a stored face, every pair of theirs is revoked, and every kiosk that ever had a pair with them is
  told; a kiosk level with the server that hears it holds no face of theirs, waits for none and is level
  again.\<close>

theorem withdrawal_erases:
  assumes "withdrawConsent env db v e = Inr (d, sent, eff)" "kiosksOk db"
  shows "\<not> live d e \<and> (\<forall>f \<in> set (ed_faces d). ft_employee f \<noteq> e)
     \<and> (\<forall>r \<in> set (ed_pairs d). de_employee r = e \<longrightarrow> de_state r = REVOKED)
     \<and> (\<forall>r \<in> set (ed_pairs db). de_employee r = e \<longrightarrow> kioskOf db (de_device r) \<noteq> None \<longrightarrow>
          (\<forall>kv s. ks_held s = rosterAt db (de_device r) \<and> \<not> ks_gapped s \<and> distinct (ks_pending s) \<longrightarrow>
             (let t = fst (takeAll kv (map (\<lambda>m. (True, m)) (msgsTo (de_device r) sent)) s)
              in ks_held t = rosterAt d (de_device r) \<and> (\<forall>x \<in> set (ks_faces t). fr_employee x \<noteq> e) \<and> e \<notin> set (ks_pending t))))"
proof -
  from assms(1) obtain fresh where w: "eraseWith env (dropConsent env e) db e = Inr (d, fresh, sent)"
    by (auto simp: withdrawConsent_def bindR_eq_Inr)
  then obtain db1 where drop: "dropConsent env e db = Inr (db1, fresh)" and d: "d = eraseIn env e db1" by (rule eraseWith_Inr)
  then have rows: "ed_kiosks db1 = ed_kiosks db" "ed_pairs db1 = ed_pairs db" "\<not> live db1 e"
    using live_withdrawn by (auto simp: dropConsent_def bindR_eq_Inr)
  have "(let t = fst (takeAll kv (hearing (msgsTo (de_device r) sent)) s)
         in ks_held t = rosterAt d (de_device r) \<and> (\<forall>x \<in> set (ks_faces t). fr_employee x \<noteq> e) \<and> e \<notin> set (ks_pending t))"
    if r: "r \<in> set (ed_pairs db)" "de_employee r = e" "kioskOf db (de_device r) \<noteq> None"
      and s: "ks_held s = rosterAt db (de_device r)" "\<not> ks_gapped s" "distinct (ks_pending s)" for r kv s
  proof -
    from r obtain k where k: "kioskOf db (de_device r) = Some k" by blast
    have "de_device r \<in> set (doorsOf db e)" using r by (simp add: doorsOf_def)
    from erase_says [OF w drop assms(2) rows(1,2) this k] drop_heard [of s kv env e] s k
    show ?thesis by (simp add: rosterAt_def)
  qed
  moreover have "\<not> live d e" using rows(3) by (simp add: d live_def)
  moreover have "\<forall>r \<in> set (ed_pairs d). de_employee r = e \<longrightarrow> de_state r = REVOKED"
    by (simp add: d eraseIn_def Let_def revokePairs_def updateMany_bounded)
  moreover have "\<forall>f \<in> set (ed_faces d). ft_employee f \<noteq> e" by (simp add: d)
  ultimately show ?thesis by blast
qed

theorem withdrawal_erases_witness:
  "\<exists>d sent eff. withdrawConsent smallEnv smallFleet \<lparr>v_userId = ''u'', v_role = EMPLOYEE, v_employeeId = Some 7, v_entityIds = None\<rparr> 7
       = Inr (d, sent, eff)
     \<and> \<not> live d 7 \<and> (\<forall>f \<in> set (ed_faces d). ft_employee f \<noteq> 7)
     \<and> (let t = fst (takeAll smallKioskEnv (map (\<lambda>m. (True, m)) (msgsTo ''k'' sent)) smallKiosk)
        in ks_held t = rosterAt d ''k'' \<and> 7 \<notin> set (ks_pending t))"
proof -
  let ?v = "\<lparr>v_userId = ''u'', v_role = EMPLOYEE, v_employeeId = Some 7, v_entityIds = None\<rparr>"
  obtain d sent eff where w: "withdrawConsent smallEnv smallFleet ?v 7 = Inr (d, sent, eff)"
    by (simp add: withdrawConsent_def mayRecordFor_def dropConsent_def eraseWith_def small_defs live_def
        facePerson_def firstWhere_def refuse_def eraseIn_def revokePairs_def Let_def)
  have ok: "kiosksOk smallFleet" and k: "kioskOf smallFleet ''k'' \<noteq> None" and r: "newPair ''k'' 7 ENROLLED (Some 0) \<in> set (ed_pairs smallFleet)"
    and s: "ks_held smallKiosk = rosterAt smallFleet ''k''" "\<not> ks_gapped smallKiosk" "distinct (ks_pending smallKiosk)"
    by (simp_all add: small_defs kiosksOk_def kioskOf_def firstWhere_def rosterAt_def)
  note erased = withdrawal_erases [OF w ok]
  have "\<not> live d 7 \<and> (\<forall>f \<in> set (ed_faces d). ft_employee f \<noteq> 7)" using erased by blast
  moreover have "let t = fst (takeAll smallKioskEnv (map (\<lambda>m. (True, m)) (msgsTo ''k'' sent)) smallKiosk)
      in ks_held t = rosterAt d ''k'' \<and> 7 \<notin> set (ks_pending t)"
    using erased [THEN conjunct2, THEN conjunct2, THEN conjunct2, rule_format, OF r, unfolded newPair_sel, OF refl k, of smallKiosk smallKioskEnv] s
    by (simp add: Let_def)
  ultimately show ?thesis using w by blast
qed

subsection \<open>Only under a consent\<close>

text \<open>C17: over every interleaving of the enrolment service that starts without faces, each face the server
  holds is held under a consent of that person which has not been withdrawn.\<close>

theorem faces_need_consent:
  assumes "enrollReach a sent db" "ed_faces a = []" "f \<in> set (ed_faces db)"
  shows "\<exists>c \<in> set (ed_consents db). bc_employee c = ft_employee f \<and> bc_state c = GRANTED"
  using reach_consented [OF assms(1)] assms(2,3) by (auto simp: consented_def live_def)

text \<open>The person opened the session of a capture that is taken.\<close>

theorem faces_need_consent_witness:
  "\<exists>a sent db f. enrollReach a sent db \<and> f \<in> set (ed_faces db) \<and> ft_employee f = 7
     \<and> (\<exists>c \<in> set (ed_consents db). bc_employee c = 7 \<and> bc_state c = GRANTED)"
proof -
  let ?a = "smallFleet\<lparr>ed_faces := [], ed_pairs := [newPair ''k'' 7 ASSIGNED None]\<rparr>"
  let ?r = "(bare OP_UPSERT smallEnv 7 1)\<lparr>el_embedding := Some ''y'', el_scale := Some 1, el_embeddingVersion := Some ''m''\<rparr>"
  obtain d verdict where t: "takeSample smallEnv ?a ?a ''k'' ?r = Some (d, verdict)" "\<exists>f. ed_faces d = [f] \<and> ft_employee f = 7"
    by (simp add: takeSample_def weighSample_def modelOf_def small_defs bare_def named_def pairOf_def firstWhere_def pairKey_def
        live_def waits_def putFace_def sampleOf_def Let_def)
  then obtain f where f: "ed_faces d = [f]" "ft_employee f = 7" by blast
  have "enrollReach ?a ([] @ [] @ []) d" by (rule more [OF start start sample_taken [OF t(1)]])
  then have r: "enrollReach ?a [] d" by simp
  have "\<exists>c \<in> set (ed_consents d). bc_employee c = ft_employee f \<and> bc_state c = GRANTED"
    by (rule faces_need_consent [OF r]) (simp_all add: f)
  with f r show ?thesis by (metis list.set_intros(1))
qed

end
