(* ===== verification/RosterLevel.thy ===== *)
theory RosterLevel
  imports Faces
begin

section \<open>A replay brings a kiosk level\<close>

text \<open>
  The functional contract of \<open>resync\<close> against the firmware: the roster the server means, as the kiosk's own
  records, and the proof that hearing one replay from whatever a kiosk held gives exactly that.
\<close>

subsection \<open>The roster meant\<close>

definition heldRecord :: "EnrollEnv \<Rightarrow> int \<Rightarrow> FaceTemplate \<Rightarrow> FaceRecord" where
  "heldRecord env e f = \<lparr>fr_employee = e, fr_idx = ft_idx f, fr_embedding = en_unseal env (ft_embedding f), fr_unreported = False\<rparr>"

definition meantFaces :: "EnrollEnv \<Rightarrow> EnrollDb \<Rightarrow> Kiosk \<Rightarrow> (DeviceEnrollment \<times> FacePerson) list \<Rightarrow> FaceRecord list" where
  "meantFaces env db k rows = concat (map (\<lambda>(r, p). map (heldRecord env (de_employee r)) (replaySet db k p)) rows)"

definition asked :: "EnrollDb \<Rightarrow> Kiosk \<Rightarrow> DeviceEnrollment \<times> FacePerson \<Rightarrow> bool" where
  "asked db k = (\<lambda>(r, p). de_state r \<noteq> ENROLLED \<or> replaySet db k p = [])"

definition meantPending :: "EnrollDb \<Rightarrow> Kiosk \<Rightarrow> (DeviceEnrollment \<times> FacePerson) list \<Rightarrow> int list" where
  "meantPending db k rows = map (de_employee \<circ> fst) (filter (asked db k) rows)"

lemma meant_simps [simp]:
  "meantFaces env db k [] = []"
  "meantFaces env db k ((r, p) # rows) = map (heldRecord env (de_employee r)) (replaySet db k p) @ meantFaces env db k rows"
  "meantPending db k [] = []"
  "meantPending db k ((r, p) # rows) = (if asked db k (r, p) then de_employee r # meantPending db k rows else meantPending db k rows)"
  by (simp_all add: meantFaces_def meantPending_def)

subsection \<open>One run of messages\<close>

text \<open>The numbers of a run are taken care of by \<open>level_hearing\<close>; what is left of a message is its effect.\<close>

abbreviation content :: "KioskState \<Rightarrow> FaceRecord list \<times> int list" where
  "content s \<equiv> (ks_faces s, ks_pending s)"

lemma hearing_next:
  assumes "el_rosterVersion m = Some (ks_held s + 1)" "\<not> ks_gapped s"
  shows "content (fst (takeOne kv True False m s)) = content (fst (applyRoster kv True False m s))"
    "ks_held (fst (takeOne kv True False m s)) = ks_held s + 1" "\<not> ks_gapped (fst (takeOne kv True False m s))"
  using takeOne_next [OF assms, of kv False] by simp_all

lemma revokePending_id: "e \<notin> set ps \<Longrightarrow> revokePending e ps = ps"
  by (induction ps) auto

lemma find_none: "find P xs = None \<longleftrightarrow> (\<forall>x \<in> set xs. \<not> P x)"
  by (induction xs) auto

lemma numberRun_append: "numberRun i (xs @ ys) v = numberRun i xs v @ numberRun i ys (v + int (length xs))"
  by (induction xs arbitrary: v) (auto simp: algebra_simps)

abbreviation run :: "Build list \<Rightarrow> int \<Rightarrow> EnrollPayload list" where
  "run bs v \<equiv> map snd (numberRun '''' bs v)"

text \<open>A state from which a run can be heard: the last number is the kiosk's and nothing is missing.\<close>

definition level :: "int \<Rightarrow> KioskState \<Rightarrow> bool" where
  "level v s \<longleftrightarrow> ks_held s = v \<and> \<not> ks_gapped s"

definition fits :: "KioskEnv \<Rightarrow> EnrollEnv \<Rightarrow> FaceTemplate list \<Rightarrow> bool" where
  "fits kv env fs \<longleftrightarrow> distinct (map ft_idx fs)
     \<and> (\<forall>f \<in> set fs. ft_model f = Some (kv_model kv) \<and> kv_decodes kv (en_unseal env (ft_embedding f)))"

lemma fits_Cons: "fits kv env (f # fs) \<longleftrightarrow> ft_idx f \<notin> ft_idx ` set fs \<and> ft_model f = Some (kv_model kv)
    \<and> kv_decodes kv (en_unseal env (ft_embedding f)) \<and> fits kv env fs"
  by (auto simp: fits_def)

lemma upsert_heard:
  assumes "ft_model f = Some (kv_model kv)" "kv_decodes kv (en_unseal env (ft_embedding f))" "level v s"
    "e \<notin> set (ks_pending s)" "\<forall>r \<in> set (ks_faces s). \<not> slotOf e (ft_idx f) r" "length (ks_faces s) < kv_capacity kv"
  shows "content (fst (takeOne kv True False (upsertOf env e nm f (v + 1)) s)) = (ks_faces s @ [heldRecord env e f], ks_pending s)"
    "level (v + 1) (fst (takeOne kv True False (upsertOf env e nm f (v + 1)) s))"
proof -
  have v: "el_rosterVersion (upsertOf env e nm f (v + 1)) = Some (ks_held s + 1)" "\<not> ks_gapped s"
    using assms(3) by (simp_all add: level_def upsertOf_def)
  show "level (v + 1) (fst (takeOne kv True False (upsertOf env e nm f (v + 1)) s))"
    using hearing_next(2,3) [OF v, of kv] assms(3) by (simp add: level_def)
  have "find (slotOf e (ft_idx f)) (ks_faces s) = None" using assms(5) by (simp add: find_none)
  then show "content (fst (takeOne kv True False (upsertOf env e nm f (v + 1)) s)) = (ks_faces s @ [heldRecord env e f], ks_pending s)"
    unfolding hearing_next(1) [OF v, of kv] using assms(1,2,4,6)
    by (simp add: applyRoster_def upsertOf_def usable_def enrollPushed_def Let_def heldRecord_def revokePending_id)
qed

lemma upserts_heard:
  assumes "fits kv env fs" "level v s" "e \<notin> set (ks_pending s)"
    "\<forall>r \<in> set (ks_faces s). \<forall>f \<in> set fs. \<not> slotOf e (ft_idx f) r" "length (ks_faces s) + length fs \<le> kv_capacity kv"
  shows "content (fst (takeAll kv (hearing (run (map (upsertOf env e nm) fs) v)) s)) = (ks_faces s @ map (heldRecord env e) fs, ks_pending s)
    \<and> level (v + int (length fs)) (fst (takeAll kv (hearing (run (map (upsertOf env e nm) fs) v)) s))"
  using assms
proof (induction fs arbitrary: s v)
  case (Cons f fs)
  let ?t = "fst (takeOne kv True False (upsertOf env e nm f (v + 1)) s)"
  have t: "content ?t = (ks_faces s @ [heldRecord env e f], ks_pending s)" "level (v + 1) ?t"
    using upsert_heard [of f kv env v s e nm] Cons.prems by (auto simp: fits_Cons)
  have "\<forall>r \<in> set (ks_faces ?t). \<forall>g \<in> set fs. \<not> slotOf e (ft_idx g) r"
    using t(1) Cons.prems(1,4) by (auto simp: fits_Cons slotOf_def heldRecord_def)
  from Cons.IH [of "v + 1" ?t] this t Cons.prems show ?case by (simp add: fits_Cons algebra_simps)
qed simp

lemma ask_heard:
  assumes "level v s" "e \<notin> set (ks_pending s)" "length (ks_pending s) < kv_pendingCap kv" "p_id (fp_person p) = e"
  shows "content (fst (takeOne kv True False (ask env p (v + 1)) s)) = (ks_faces s, ks_pending s @ [e])"
    "level (v + 1) (fst (takeOne kv True False (ask env p (v + 1)) s))"
proof -
  have v: "el_rosterVersion (ask env p (v + 1)) = Some (ks_held s + 1)" "\<not> ks_gapped s"
    using assms(1) by (simp_all add: level_def ask_def expect_def bare_def)
  show "level (v + 1) (fst (takeOne kv True False (ask env p (v + 1)) s))"
    using hearing_next(2,3) [OF v, of kv] assms(1) by (simp add: level_def)
  show "content (fst (takeOne kv True False (ask env p (v + 1)) s)) = (ks_faces s, ks_pending s @ [e])"
    unfolding hearing_next(1) [OF v, of kv] using assms(2-4)
    by (simp add: applyRoster_def ask_def expect_def bare_def assignPending_def Let_def)
qed

lemma buildsFor_fits: "fits kv env fs \<Longrightarrow> buildsFor env e nm fs = map (upsertOf env e nm) fs"
  by (auto simp: buildsFor_def fits_def intro!: arg_cong [of _ _ "map _"] filter_True)

subsection \<open>The whole roster\<close>

definition rowFits :: "KioskEnv \<Rightarrow> EnrollEnv \<Rightarrow> EnrollDb \<Rightarrow> Kiosk \<Rightarrow> DeviceEnrollment \<times> FacePerson \<Rightarrow> bool" where
  "rowFits kv env db k = (\<lambda>(r, p). p_id (fp_person p) = de_employee r \<and> fits kv env (replaySet db k p))"

lemma length_replayBuilds: "rowFits kv env db k (r, p) \<Longrightarrow>
    length (replayBuilds env db k (r, p)) = length (replaySet db k p) + (if asked db k (r, p) then 1 else 0)"
  by (auto simp: replayBuilds_def rowFits_def buildsFor_fits asked_def)

lemma row_heard:
  assumes "rowFits kv env db k (r, p)" "level v s" "de_employee r \<notin> set (ks_pending s)"
    "\<forall>x \<in> set (ks_faces s). fr_employee x \<noteq> de_employee r"
    "length (ks_faces s) + length (replaySet db k p) \<le> kv_capacity kv"
    "length (ks_pending s) + (if asked db k (r, p) then 1 else 0) \<le> kv_pendingCap kv"
  shows "content (fst (takeAll kv (hearing (run (replayBuilds env db k (r, p)) v)) s))
      = (ks_faces s @ meantFaces env db k [(r, p)], ks_pending s @ meantPending db k [(r, p)])
    \<and> level (v + int (length (replayBuilds env db k (r, p)))) (fst (takeAll kv (hearing (run (replayBuilds env db k (r, p)) v)) s))"
proof -
  let ?e = "de_employee r" and ?fs = "replaySet db k p"
  let ?ups = "map (upsertOf env ?e (fp_fullName p)) ?fs"
  let ?t = "fst (takeAll kv (hearing (run ?ups v)) s)"
  have f: "fits kv env ?fs" and p: "p_id (fp_person p) = ?e" using assms(1) by (auto simp: rowFits_def)
  have t: "content ?t = (ks_faces s @ map (heldRecord env ?e) ?fs, ks_pending s)" "level (v + int (length ?fs)) ?t"
    using upserts_heard [OF f assms(2,3), of "fp_fullName p"] assms(4,5) by (auto simp: slotOf_def)
  have b: "replayBuilds env db k (r, p) = ?ups @ (if asked db k (r, p) then [ask env p] else [])"
    using buildsFor_fits [OF f] by (simp add: replayBuilds_def asked_def)
  show ?thesis
  proof (cases "asked db k (r, p)")
    case True
    have "content (fst (takeOne kv True False (ask env p (v + int (length ?fs) + 1)) ?t)) = (ks_faces ?t, ks_pending ?t @ [?e])"
      "level (v + int (length ?fs) + 1) (fst (takeOne kv True False (ask env p (v + int (length ?fs) + 1)) ?t))"
      using t assms(3,6) True p ask_heard [OF t(2), of ?e kv p env] by auto
    with True t(1) show ?thesis by (simp add: b numberRun_append algebra_simps)
  qed (use t b in simp)
qed

lemma roster_heard:
  assumes "\<forall>x \<in> set rows. rowFits kv env db k x" "distinct (map (de_employee \<circ> fst) rows)" "level v s"
    "\<forall>x \<in> set rows. de_employee (fst x) \<notin> set (ks_pending s)
       \<and> (\<forall>y \<in> set (ks_faces s). fr_employee y \<noteq> de_employee (fst x))"
    "length (ks_faces s) + length (meantFaces env db k rows) \<le> kv_capacity kv"
    "length (ks_pending s) + length (meantPending db k rows) \<le> kv_pendingCap kv"
  shows "content (fst (takeAll kv (hearing (run (concat (map (replayBuilds env db k) rows)) v)) s))
      = (ks_faces s @ meantFaces env db k rows, ks_pending s @ meantPending db k rows)
    \<and> level (v + int (length (concat (map (replayBuilds env db k) rows))))
         (fst (takeAll kv (hearing (run (concat (map (replayBuilds env db k) rows)) v)) s))"
  using assms
proof (induction rows arbitrary: s v)
  case (Cons x rows)
  obtain r p where x: "x = (r, p)" by (cases x)
  let ?t = "fst (takeAll kv (hearing (run (replayBuilds env db k (r, p)) v)) s)"
  have t: "content ?t = (ks_faces s @ meantFaces env db k [(r, p)], ks_pending s @ meantPending db k [(r, p)])"
    "level (v + int (length (replayBuilds env db k (r, p)))) ?t"
    using row_heard [of kv env db k r p v s] Cons.prems by (auto simp: x split: if_splits)
  have apart: "\<forall>y \<in> set rows. de_employee (fst y) \<notin> set (ks_pending ?t)
       \<and> (\<forall>z \<in> set (ks_faces ?t). fr_employee z \<noteq> de_employee (fst y))"
    using t(1) Cons.prems(2,4) by (auto simp: x heldRecord_def) (metis comp_apply fst_conv image_eqI)+
  have room: "length (ks_faces ?t) + length (meantFaces env db k rows) \<le> kv_capacity kv"
    "length (ks_pending ?t) + length (meantPending db k rows) \<le> kv_pendingCap kv"
    using t(1) Cons.prems(5,6) by (auto simp: x split: if_splits)
  from Cons.IH [OF _ _ t(2) apart room] Cons.prems(1,2) t(1)
  show ?case by (auto simp: x numberRun_append algebra_simps)
qed simp

lemma replace_heard:
  assumes "\<forall>r \<in> set (ks_faces s). \<not> fr_unreported r"
  shows "content (fst (takeOne kv True False (bare OP_REPLACE_ALL env e v) s)) = ([], [])"
    "level v (fst (takeOne kv True False (bare OP_REPLACE_ALL env e v) s))"
  using assms by (simp_all add: takeOne_def rosterGate_def bare_def applyRoster_def level_def Let_def)

lemma msgsTo_deliverTo [simp]: "msgsTo i (deliverTo i bs high) = run bs (high - int (length bs))"
proof -
  have "msgsTo i (numberRun i bs v) = run bs v" for v by (induction bs arbitrary: v) auto
  then show ?thesis by (simp add: deliverTo_def)
qed

lemma setOf_fits:
  assumes "distinct (map faceKey (ed_faces db))"
    "\<forall>f \<in> set (ed_faces db). ft_model f = Some (kv_model kv) \<longrightarrow> kv_decodes kv (en_unseal env (ft_embedding f))"
  shows "fits kv env (setOf db e (kv_model kv))"
proof -
  let ?mine = "\<lambda>f. ft_employee f = e \<and> ft_model f = Some (kv_model kv)"
  have "distinct (map ft_idx (filter ?mine fs))" if "distinct (map faceKey fs)" for fs
    using that by (induction fs) (auto simp: faceKey_def image_iff)
  from this [OF assms(1)] have "distinct (map ft_idx (sort_key ft_idx (filter ?mine (ed_faces db))))"
    by (simp add: distinct_map)
  then show ?thesis using assms(2) by (auto simp: fits_def setOf_def)
qed

lemma facePerson_key: "facePerson db e = Some p \<Longrightarrow> p_id (fp_person p) = e"
  unfolding facePerson_def using firstWhere_key [of "p_id \<circ> fp_person" e] by fastforce

lemma rosterOf_mem: "(r, p) \<in> set (rosterOf db i) \<Longrightarrow> facePerson db (de_employee r) = Some p"
  by (auto simp: rosterOf_def map_filter_def)

lemma rosterOf_distinct:
  assumes "distinct (map pairKey (ed_pairs db))"
  shows "distinct (map (de_employee \<circ> fst) (rosterOf db i))"
proof -
  let ?mine = "\<lambda>r. de_device r = i \<and> de_state r \<noteq> REVOKED"
  have "distinct (map de_employee (filter ?mine rs))" if "distinct (map pairKey rs)" for rs
    using that by (induction rs) (auto simp: pairKey_def image_iff)
  from this [OF assms] have "distinct (map de_employee (sort_key de_employee (filter ?mine (ed_pairs db))))"
    by (simp add: distinct_map)
  moreover have "map (de_employee \<circ> fst) (List.map_filter (\<lambda>r. map_option (\<lambda>p. (r, p)) (f r)) rs)
      = map de_employee (filter (\<lambda>r. f r \<noteq> None) rs)" for f :: "DeviceEnrollment \<Rightarrow> FacePerson option" and rs
    by (induction rs) (auto simp: map_filter_def)
  ultimately show ?thesis unfolding rosterOf_def by (simp add: distinct_map distinct_filter inj_on_def)
qed

lemma level_after:
  assumes "resync env b c i low = Inr (d, high, out)" "kioskOf b i = Some k" "ki_model k = Some (kv_model kv)"
    "distinct (map pairKey (ed_pairs b))" "distinct (map faceKey (ed_faces b))"
    "\<forall>f \<in> set (ed_faces b). ft_model f = Some (kv_model kv) \<longrightarrow> kv_decodes kv (en_unseal env (ft_embedding f))"
    "\<forall>r \<in> set (ks_faces s). \<not> fr_unreported r"
    "length (meantFaces env b k (rosterOf b i)) \<le> kv_capacity kv" "length (meantPending b k (rosterOf b i)) \<le> kv_pendingCap kv"
  shows "let t = fst (takeAll kv (map (\<lambda>m. (True, m)) (msgsTo i out)) s)
     in ks_faces t = meantFaces env b k (rosterOf b i) \<and> ks_pending t = meantPending b k (rosterOf b i)
      \<and> ks_held t = rosterAt d i \<and> \<not> ks_gapped t \<and> high = rosterAt d i"
proof -
  let ?rows = "rosterOf b i" let ?bs = "concat (map (replayBuilds env b k) ?rows)"
  let ?v = "high - int (length ?bs)"
  from assms(1,2) obtain c' where re: "reserve c' i (length ?bs + 1) low = Inr (d, high)"
    and out: "out = (i, bare OP_REPLACE_ALL env NO_EMPLOYEE ?v) # deliverTo i ?bs high"
    by (auto simp: resync_def replay_def device_def bindR_eq_Inr Let_def)
  from re have high: "high = rosterAt d i" by (rule reserve_Inr) simp
  let ?s = "fst (takeOne kv True False (bare OP_REPLACE_ALL env NO_EMPLOYEE ?v) s)"
  have s: "content ?s = ([], [])" "level ?v ?s" using replace_heard [OF assms(7)] by auto
  have "rowFits kv env b k x" if "x \<in> set ?rows" for x
  proof -
    obtain r p where x: "x = (r, p)" by (cases x)
    have "replaySet b k p = setOf b (p_id (fp_person p)) (kv_model kv)" by (simp add: replaySet_def setFor_def assms(3))
    with rosterOf_mem [of r p b i] facePerson_key setOf_fits [OF assms(5,6)] that show ?thesis by (auto simp: rowFits_def x)
  qed
  then have "content (fst (takeAll kv (hearing (run ?bs ?v)) ?s)) = (meantFaces env b k ?rows, meantPending b k ?rows)
      \<and> level high (fst (takeAll kv (hearing (run ?bs ?v)) ?s))"
    using roster_heard [OF _ rosterOf_distinct [OF assms(4), of i] s(2), of kv env b k] s(1) assms(8,9) by simp
  then show ?thesis using high by (simp add: out Let_def level_def)
qed

text \<open>C12: a replay brings a kiosk level. Whatever a kiosk holds, whatever it has missed and whatever number it
  believes in, once it has heard the messages of one resync its faces are, record for record, the samples of
  its own model of the people on its roster, it waits for exactly the people who are asked for a capture,
  nothing is missing any more and its number is the server's. (It has room for them, the samples decode, and
  it holds no capture of its own that it has not reported.)\<close>

theorem replay_brings_level:
  assumes "resync env b c i low = Inr (d, high, out)" "kioskOf b i = Some k" "ki_model k = Some (kv_model kv)"
    "distinct (map pairKey (ed_pairs b))" "distinct (map faceKey (ed_faces b))"
    "\<forall>f \<in> set (ed_faces b). ft_model f = Some (kv_model kv) \<longrightarrow> kv_decodes kv (en_unseal env (ft_embedding f))"
    "\<forall>r \<in> set (ks_faces s). \<not> fr_unreported r"
    "length (meantFaces env b k (rosterOf b i)) \<le> kv_capacity kv" "length (meantPending b k (rosterOf b i)) \<le> kv_pendingCap kv"
  shows "let t = fst (takeAll kv (map (\<lambda>m. (True, m)) (msgsTo i out)) s)
     in ks_faces t = meantFaces env b k (rosterOf b i) \<and> ks_pending t = meantPending b k (rosterOf b i)
      \<and> ks_held t = rosterAt d i \<and> \<not> ks_gapped t \<and> high = rosterAt d i"
  using assms by (rule level_after)

text \<open>A kiosk that lost its number, still waits for somebody and holds another face.\<close>

theorem replay_brings_level_witness:
  "\<exists>d out. resync smallEnv smallFleet smallFleet ''k'' 20 = Inr (d, 22, out)
     \<and> (let t = fst (takeAll smallKioskEnv (map (\<lambda>m. (True, m)) (msgsTo ''k'' out))
               (smallKiosk\<lparr>ks_faces := [\<lparr>fr_employee = 3, fr_idx = 0, fr_embedding = ''z'', fr_unreported = False\<rparr>], ks_gapped := True\<rparr>))
        in ks_faces t = [\<lparr>fr_employee = 7, fr_idx = 0, fr_embedding = ''x'', fr_unreported = False\<rparr>] \<and> ks_pending t = []
         \<and> ks_held t = rosterAt d ''k'')"
proof -
  let ?s = "smallKiosk\<lparr>ks_faces := [\<lparr>fr_employee = 3, fr_idx = 0, fr_embedding = ''z'', fr_unreported = False\<rparr>], ks_gapped := True\<rparr>"
  let ?k = "\<lparr>ki_id = ''k'', ki_approved = True, ki_model = Some ''m'', ki_roster = 4\<rparr>"
  have k: "kioskOf smallFleet ''k'' = Some ?k" by (simp add: small_defs kioskOf_def firstWhere_def)
  have set: "replaySet smallFleet ?k p = ed_faces smallFleet" if "p_id (fp_person p) = 7" for p
    using that by (simp add: replaySet_def setFor_def setOf_def small_defs)
  have roster: "rosterOf smallFleet ''k'' = [(newPair ''k'' 7 ENROLLED (Some 0), hd (ed_people smallFleet))]"
    by (simp add: rosterOf_def small_defs map_filter_def facePerson_def firstWhere_def)
  have meant: "meantFaces smallEnv smallFleet ?k (rosterOf smallFleet ''k'') = [\<lparr>fr_employee = 7, fr_idx = 0, fr_embedding = ''x'', fr_unreported = False\<rparr>]"
    "meantPending smallFleet ?k (rosterOf smallFleet ''k'') = []"
    using set [of "hd (ed_people smallFleet)"] by (simp_all add: roster asked_def heldRecord_def) (simp_all add: small_defs heldRecord_def)
  obtain d out where r: "resync smallEnv smallFleet smallFleet ''k'' 20 = Inr (d, 22, out)"
    using k set [of "hd (ed_people smallFleet)"]
    by (simp add: resync_def inFleet_def device_def found_def refuse_def replay_def roster replayBuilds_def Let_def reserve_def)
       (simp add: small_defs buildsFor_def kioskOf_def firstWhere_def)
  from replay_brings_level [OF r k, of smallKioskEnv ?s] meant r show ?thesis
    by (simp add: small_defs Let_def pairKey_def)
qed

subsection \<open>A capture during a replay\<close>

text \<open>\<open>replay\<close> reads the roster before its transaction, and the lock it holds is the kiosk's, not the person's.
  A capture of the same kiosk that is taken between the read and the commit is told away again: the kiosk is
  sent a roster without the face, while the pair stands ENROLLED, the server holds the face and the two
  agree on the number, so no heartbeat asks for another replay.\<close>

lemma replay_misses_capture:
  "\<exists>b c d report high out. takeSample smallEnv b b ''k'' report = Some (c, Added False)
     \<and> resync smallEnv b c ''k'' 0 = Inr (d, high, out)
     \<and> (\<exists>f \<in> set (ed_faces d). ft_employee f = 7) \<and> map_option de_state (pairOf d ''k'' 7) = Some ENROLLED
     \<and> (\<forall>s. (\<forall>r \<in> set (ks_faces s). \<not> fr_unreported r) \<longrightarrow>
          (let t = fst (takeAll smallKioskEnv (map (\<lambda>m. (True, m)) (msgsTo ''k'' out)) s)
           in ks_faces t = [] \<and> ks_held t = rosterAt d ''k'' \<and> \<not> ks_gapped t))"
proof -
  let ?b = "smallFleet\<lparr>ed_faces := [], ed_pairs := [newPair ''k'' 7 ASSIGNED None]\<rparr>"
  let ?r = "(bare OP_UPSERT smallEnv 7 1)\<lparr>el_embedding := Some ''y'', el_scale := Some 1, el_embeddingVersion := Some ''m''\<rparr>"
  let ?k = "\<lparr>ki_id = ''k'', ki_approved = True, ki_model = Some ''m'', ki_roster = 4\<rparr>"
  obtain c where t: "takeSample smallEnv ?b ?b ''k'' ?r = Some (c, Added False)" "\<exists>f. ed_faces c = [f] \<and> ft_employee f = 7"
    "map_option de_state (pairOf c ''k'' 7) = Some ENROLLED" "ed_kiosks c = ed_kiosks smallFleet"
    by (simp add: takeSample_def weighSample_def modelOf_def small_defs bare_def named_def pairOf_def firstWhere_def pairKey_def
        live_def waits_def putFace_def sampleOf_def Let_def)
  have k: "kioskOf ?b ''k'' = Some ?k" "kioskOf c ''k'' = Some ?k" by (simp_all add: kioskOf_def t(4)) (simp_all add: small_defs firstWhere_def)
  have none: "replaySet ?b ?k p = []" for p by (simp add: replaySet_def setFor_def setOf_def split: option.splits)
  have roster: "rosterOf ?b ''k'' = [(newPair ''k'' 7 ASSIGNED None, hd (ed_people smallFleet))]"
    by (simp add: rosterOf_def small_defs map_filter_def facePerson_def firstWhere_def)
  have again: "askedAgain ?b ?k = []" by (simp add: askedAgain_def roster)
  have rows: "c\<lparr>ed_pairs := updateMany (\<lambda>r. False) f (ed_pairs c)\<rparr> = c" for f by (simp add: updateMany_none)
  obtain d out where r: "resync smallEnv ?b c ''k'' 0 = Inr (d, 6, out)"
    and d: "ed_faces d = ed_faces c" "ed_pairs d = ed_pairs c"
    using k none again rows
    by (simp add: resync_def inFleet_def device_def found_def refuse_def replay_def roster replayBuilds_def Let_def reserve_def
        buildsFor_def)
  have meant: "meantFaces smallEnv ?b ?k (rosterOf ?b ''k'') = []" "length (meantPending ?b ?k (rosterOf ?b ''k'')) \<le> 1"
    by (simp_all add: roster none)
  have "let t = fst (takeAll smallKioskEnv (map (\<lambda>m. (True, m)) (msgsTo ''k'' out)) s)
        in ks_faces t = [] \<and> ks_held t = rosterAt d ''k'' \<and> \<not> ks_gapped t" if "\<forall>r \<in> set (ks_faces s). \<not> fr_unreported r" for s
    using level_after [OF r k(1), of smallKioskEnv s] meant that by (simp add: small_defs Let_def pairKey_def)
  with t r d show ?thesis by (intro exI [of _ ?b] exI [of _ c] exI [of _ d] exI [of _ ?r] exI [of _ 6] exI [of _ out]) (auto simp: pairOf_def)
qed

end
