(* ===== verification/Codes.thy ===== *)
theory Codes
  imports Main Prelude Money "HOL-Library.Word"
begin

section \<open>One-time codes\<close>

text \<open>
  \<open>backend/src/modules/auth/totp.ts\<close>: the base32 text of a secret, the time steps and their codes, the backup
  codes and how a typed code is read. JavaScript's 32-bit operators are operations on \<open>32 word\<close>; the keyed
  hash and the random numbers are arguments.
\<close>

unbundle bit_operations_syntax

subsection \<open>Base32\<close>

definition BASE32_ALPHABET :: string where
  "BASE32_ALPHABET = ''ABCDEFGHIJKLMNOPQRSTUVWXYZ234567''"

definition BASE32_BITS :: nat where "BASE32_BITS = 5"

text \<open>The inner loop, and the one over the bytes; \<open>bits\<close> counts the low bits of \<open>acc\<close> not yet written.\<close>

function base32Out :: "32 word \<Rightarrow> nat \<Rightarrow> string \<times> nat" where
  "base32Out acc bits =
     (if bits \<ge> BASE32_BITS
      then (let bits' = bits - BASE32_BITS; (out, left) = base32Out acc bits'
            in (BASE32_ALPHABET ! unat (drop_bit bits' acc AND 31) # out, left))
      else ([], bits))"
  by pat_completeness auto
termination by (relation "measure snd") (auto simp: BASE32_BITS_def)

declare base32Out.simps [simp del]

fun base32Loop :: "8 word list \<Rightarrow> 32 word \<Rightarrow> nat \<Rightarrow> string" where
  "base32Loop [] acc bits =
     (if bits > 0 then [BASE32_ALPHABET ! unat (push_bit (BASE32_BITS - bits) acc AND 31)] else [])"
| "base32Loop (byte # bytes) acc bits =
     (let acc' = (push_bit 8 acc OR ucast byte) AND 0xffff; (out, bits') = base32Out acc' (bits + 8)
      in out @ base32Loop bytes acc' bits')"

definition base32 :: "8 word list \<Rightarrow> string" where
  "base32 bytes = base32Loop bytes 0 0"

subsection \<open>Steps and codes\<close>

definition TOTP_DIGITS :: nat where "TOTP_DIGITS = 6"
definition TOTP_STEP_S :: int where "TOTP_STEP_S = 30"
definition DRIFT_STEPS :: int where "DRIFT_STEPS = 1"

text \<open>\<open>ms / 1000 / 30\<close> rounded down; times are whole milliseconds.\<close>

definition stepAt :: "int \<Rightarrow> int" where
  "stepAt ms = ms div (1000 * TOTP_STEP_S)"

type_synonym hmac = "8 word list \<Rightarrow> 64 word \<Rightarrow> 8 word list"

definition readUInt32BE :: "8 word list \<Rightarrow> nat \<Rightarrow> 32 word" where
  "readUInt32BE mac at' =
     push_bit 24 (ucast (mac ! at')) OR push_bit 16 (ucast (mac ! (at' + 1))) OR push_bit 8 (ucast (mac ! (at' + 2)))
     OR ucast (mac ! (at' + 3))"

definition padStart :: "nat \<Rightarrow> string \<Rightarrow> string" where
  "padStart n t = replicate (n - length t) (CHR ''0'') @ t"

definition codeAt :: "hmac \<Rightarrow> 8 word list \<Rightarrow> int \<Rightarrow> nat \<Rightarrow> string" where
  "codeAt mac secret step digits =
     (let m = mac secret (of_int step); offset = unat (last m AND 0x0f);
          acc = unat (readUInt32BE m offset AND 0x7fffffff)
      in padStart digits (showNat (acc mod 10 ^ digits)))"

definition stepOf :: "hmac \<Rightarrow> 8 word list \<Rightarrow> string \<Rightarrow> int \<Rightarrow> int option" where
  "stepOf mac secret code nowMs =
     (let now = stepAt nowMs
      in find (\<lambda>step. codeAt mac secret step TOTP_DIGITS = code) [now, now - DRIFT_STEPS, now + DRIFT_STEPS])"

subsection \<open>Backup codes and what is typed\<close>

definition BACKUP_CODE_COUNT :: nat where "BACKUP_CODE_COUNT = 10"
definition BACKUP_CODE_LENGTH :: nat where "BACKUP_CODE_LENGTH = 10"
definition BACKUP_CODE_HALF :: nat where "BACKUP_CODE_HALF = BACKUP_CODE_LENGTH div 2"

definition BACKUP_ALPHABET :: string where
  "BACKUP_ALPHABET = ''23456789abcdefghjkmnpqrstuvwxyz''"

text \<open>\<open>draw i j\<close> is the random index of letter \<open>j\<close> of code \<open>i\<close>, below the length of the alphabet.\<close>

definition backupCode :: "(nat \<Rightarrow> nat) \<Rightarrow> string" where
  "backupCode draw =
     (let chars = map (\<lambda>j. BACKUP_ALPHABET ! draw j) [0..<BACKUP_CODE_LENGTH]
      in take BACKUP_CODE_HALF chars @ ''-'' @ drop BACKUP_CODE_HALF chars)"

definition newBackupCodes :: "(nat \<Rightarrow> nat \<Rightarrow> nat) \<Rightarrow> string list" where
  "newBackupCodes draw = map (\<lambda>i. backupCode (draw i)) [0..<BACKUP_CODE_COUNT]"

datatype TypedCode = TotpCode string | BackupCode string

text \<open>\<open>[\s-]\<close> on the ASCII white space.\<close>

definition spaceOrDash :: "char \<Rightarrow> bool" where
  "spaceOrDash c \<longleftrightarrow> c = CHR ''-'' \<or> blank [c]"

definition lowerChar :: "char \<Rightarrow> char" where
  "lowerChar c = (let n = of_char c :: nat in if 65 \<le> n \<and> n \<le> 90 then char_of (n + 32) else c)"

definition isDigit :: "char \<Rightarrow> bool" where
  "isDigit c \<longleftrightarrow> (let n = of_char c :: nat in 48 \<le> n \<and> n \<le> 57)"

definition readCode :: "string \<Rightarrow> TypedCode option" where
  "readCode typed =
     (let bare = map lowerChar (filter (\<lambda>c. \<not> spaceOrDash c) typed)
      in if length bare = 6 \<and> (\<forall>c \<in> set bare. isDigit c) then Some (TotpCode bare)
         else if length bare = BACKUP_CODE_LENGTH \<and> set bare \<subseteq> set BACKUP_ALPHABET then Some (BackupCode bare)
         else None)"

subsection \<open>The text of a secret is its bits\<close>

definition low :: "'a::len word \<Rightarrow> nat \<Rightarrow> bool list" where
  "low w n = map (\<lambda>k. bit w (n - 1 - k)) [0..<n]"

definition symbolOf :: "bool list \<Rightarrow> char" where
  "symbolOf bs = BASE32_ALPHABET ! horner_sum of_bool 2 (rev bs)"

function fives :: "bool list \<Rightarrow> bool list list" where
  "fives bs =
     (if bs = [] then [] else if length bs < 5 then [bs @ replicate (5 - length bs) False] else take 5 bs # fives (drop 5 bs))"
  by pat_completeness auto
termination by (relation "measure length") auto

declare fives.simps [simp del]

lemma length_low [simp]: "length (low w n) = n"
  by (simp add: low_def)

lemma low_Nil [simp]: "low w n = [] \<longleftrightarrow> n = 0" "low w 0 = []"
  by (simp_all add: low_def)

lemma low_next_byte:
  assumes "n < 5"
  shows "low ((push_bit 8 acc OR ucast (byte :: 8 word)) AND 0xffff :: 32 word) (n + 8) = low acc n @ low byte 8"
proof -
  have "(0xffff :: 32 word) = mask 16" by (simp add: mask_eq_exp_minus_1)
  then show ?thesis using assms unfolding \<open>(0xffff :: 32 word) = mask 16\<close>
    by (intro nth_equalityI) (auto simp: low_def nth_append bit_simps dest: bit_imp_le_length)
qed

lemma low_symbol:
  fixes acc :: "32 word"
  assumes "5 \<le> n" "n \<le> 32"
  shows "low acc n = low (drop_bit (n - 5) acc AND 31) 5 @ low acc (n - 5)"
proof -
  have "(31 :: 32 word) = mask 5" by (simp add: mask_eq_exp_minus_1)
  then show ?thesis using assms unfolding \<open>(31 :: 32 word) = mask 5\<close>
    by (intro nth_equalityI) (auto simp: low_def nth_append bit_simps algebra_simps)
qed

lemma low_last:
  fixes acc :: "32 word"
  assumes "0 < n" "n < 5"
  shows "low (push_bit (5 - n) acc AND 31) 5 = low acc n @ replicate (5 - n) False"
proof -
  have "(31 :: 32 word) = mask 5" by (simp add: mask_eq_exp_minus_1)
  then show ?thesis using assms unfolding \<open>(31 :: 32 word) = mask 5\<close>
    by (intro nth_equalityI) (auto simp: low_def nth_append bit_simps)
qed

lemma symbol_low: "BASE32_ALPHABET ! unat (w AND 31 :: 32 word) = symbolOf (low (w AND 31) 5)"
proof -
  let ?n = "unat (w AND 31)"
  have m: "w AND 31 = take_bit 5 w" by (simp add: take_bit_eq_mask mask_eq_exp_minus_1)
  have "rev (low (w AND 31) 5) = map (bit ?n) [0..<5]"
    by (simp add: low_def rev_map upt_rec bit_unsigned_iff eval_nat_numeral)
  then have "horner_sum of_bool 2 (rev (low (w AND 31) 5)) = take_bit 5 ?n"
    by (simp add: horner_sum_bit_eq_take_bit)
  also have "\<dots> = ?n" unfolding m by (simp add: unsigned_take_bit_eq)
  finally show ?thesis by (simp add: symbolOf_def)
qed

lemma base32Out_fives:
  assumes "bits \<le> 32" "base32Out acc bits = (out, left)"
  shows "left = bits mod 5 \<and> map symbolOf (fives (low acc bits @ rest)) = out @ map symbolOf (fives (low acc left @ rest))"
  using assms
proof (induction acc bits arbitrary: out left rule: base32Out.induct)
  case (1 acc bits)
  show ?case
  proof (cases "5 \<le> bits")
    case True
    obtain out' where o: "base32Out acc (bits - 5) = (out', left)" "out = BASE32_ALPHABET ! unat (drop_bit (bits - 5) acc AND 31) # out'"
      using "1.prems"(2) True by (subst (asm) base32Out.simps) (auto simp: BASE32_BITS_def Let_def split: prod.splits)
    have "fives (low acc bits @ rest) = low (drop_bit (bits - 5) acc AND 31) 5 # fives (low acc (bits - 5) @ rest)"
      using low_symbol [OF True "1.prems"(1)] by (subst fives.simps) simp
    moreover have "left = (bits - 5) mod 5 \<and> map symbolOf (fives (low acc (bits - 5) @ rest)) = out' @ map symbolOf (fives (low acc left @ rest))"
      using "1.IH" [of "bits - 5", OF _ _ _ o(1)] True "1.prems"(1) by (simp add: BASE32_BITS_def)
    ultimately show ?thesis using True by (simp add: o(2) symbol_low le_mod_geq)
  next
    case False
    with "1.prems"(2) show ?thesis by (subst (asm) base32Out.simps) (auto simp: BASE32_BITS_def)
  qed
qed

lemma base32Loop_fives:
  "bits < 5 \<Longrightarrow> base32Loop bytes acc bits = map symbolOf (fives (low acc bits @ concat (map (\<lambda>b. low b 8) bytes)))"
proof (induction bytes arbitrary: acc bits)
  case Nil
  then show ?case
    using symbol_low [of "push_bit (5 - bits) acc"] low_last [of bits acc]
    by (subst fives.simps) (auto simp: BASE32_BITS_def)
next
  case (Cons byte bytes)
  let ?v = "(push_bit 8 acc OR ucast byte) AND 0xffff"
  obtain out left where o: "base32Out ?v (bits + 8) = (out, left)" by force
  have "left < 5 \<and> map symbolOf (fives (low ?v (bits + 8) @ concat (map (\<lambda>b. low b 8) bytes)))
      = out @ map symbolOf (fives (low ?v left @ concat (map (\<lambda>b. low b 8) bytes)))"
    using base32Out_fives [OF _ o] Cons.prems by auto
  with Cons.IH [of left ?v] low_next_byte [OF Cons.prems, of acc byte] o show ?case by (simp add: Let_def)
qed

lemma base32_fives: "base32 bytes = map symbolOf (fives (concat (map (\<lambda>b. low b 8) bytes)))"
  using base32Loop_fives [of 0 bytes 0] by (simp add: base32_def)

subsection \<open>Reading a secret\<close>

text \<open>What an authenticator does with the text: five bits a letter, whole bytes kept.\<close>

definition bitsOf :: "char \<Rightarrow> bool list" where
  "bitsOf c = low (of_nat (length (takeWhile (\<lambda>a. a \<noteq> c) BASE32_ALPHABET)) :: 8 word) 5"

fun bytesOf :: "bool list \<Rightarrow> 8 word list" where
  "bytesOf (a # b # c # d # e # f # g # h # bs) = horner_sum of_bool 2 [h, g, f, e, d, c, b, a] # bytesOf bs"
| "bytesOf bs = []"

definition readBase32 :: "string \<Rightarrow> 8 word list" where
  "readBase32 t = bytesOf (concat (map bitsOf t))"

lemma symbols_ok: "length bs = 5 \<Longrightarrow> bitsOf (symbolOf bs) = bs \<and> symbolOf bs \<in> set BASE32_ALPHABET"
proof -
  have "\<forall>a b c d e. bitsOf (symbolOf [a, b, c, d, e]) = [a, b, c, d, e] \<and> symbolOf [a, b, c, d, e] \<in> set BASE32_ALPHABET"
    by code_simp
  moreover assume "length bs = 5"
  then obtain a b c d e where "bs = [a, b, c, d, e]" by (auto simp: length_Suc_conv eval_nat_numeral)
  ultimately show ?thesis by blast
qed

lemma fives_length: "b \<in> set (fives bs) \<Longrightarrow> length b = 5"
  by (induction bs rule: fives.induct) (subst (asm) (2) fives.simps, auto split: if_splits)

lemma concat_fives: "\<exists>k < 5. concat (fives bs) = bs @ replicate k False"
proof (induction bs rule: fives.induct)
  case (1 bs)
  show ?case
  proof (cases "length bs < 5")
    case True
    then show ?thesis by (subst fives.simps) (auto intro: exI [of _ "5 - length bs"])
  next
    case False
    then obtain k where "k < 5" "concat (fives (drop 5 bs)) = drop 5 bs @ replicate k False" using 1 by fastforce
    with False show ?thesis by (subst fives.simps) (auto simp: append_assoc [symmetric] simp del: append_assoc)
  qed
qed

lemma bytesOf_low: "bytesOf (low b 8 @ bs) = b # bytesOf bs"
proof -
  have l: "low b 8 = [bit b 7, bit b 6, bit b 5, bit b 4, bit b 3, bit b 2, bit b 1, bit b 0]"
    by (simp add: low_def upt_rec eval_nat_numeral)
  have m: "map (bit b) [0..<8] = [bit b 0, bit b 1, bit b 2, bit b 3, bit b 4, bit b 5, bit b 6, bit b 7]"
    by (simp add: upt_rec eval_nat_numeral)
  have "horner_sum of_bool 2 (map (bit b) [0..<8]) = b"
    using take_bit_length_eq [of b] by (simp add: horner_sum_bit_eq_take_bit)
  then show ?thesis unfolding l m by (simp only: append_Cons append_Nil bytesOf.simps)
qed

lemma bytesOf_bytes: "k < 8 \<Longrightarrow> bytesOf (concat (map (\<lambda>b. low b 8) bytes) @ replicate k False) = bytes"
proof (induction bytes)
  case Nil
  then have "k \<in> {0, 1, 2, 3, 4, 5, 6, 7}" by auto
  then show ?case by (auto simp: eval_nat_numeral)
qed (simp add: bytesOf_low)

lemma read_base32: "readBase32 (base32 bytes) = bytes" "set (base32 bytes) \<subseteq> set BASE32_ALPHABET"
proof -
  let ?bs = "concat (map (\<lambda>b. low b 8) bytes)"
  have "map (bitsOf \<circ> symbolOf) (fives ?bs) = fives ?bs"
    by (rule map_idI) (simp add: symbols_ok fives_length)
  moreover obtain k where "k < 5" "concat (fives ?bs) = ?bs @ replicate k False" using concat_fives by blast
  ultimately have "readBase32 (base32 bytes) = bytes" using bytesOf_bytes [of k bytes] by (simp add: readBase32_def base32_fives)
  moreover have "set (base32 bytes) \<subseteq> set BASE32_ALPHABET" using fives_length symbols_ok by (auto simp: base32_fives)
  ultimately show "readBase32 (base32 bytes) = bytes" "set (base32 bytes) \<subseteq> set BASE32_ALPHABET" by blast+
qed

text \<open>The text of a secret gives the secret. Reading five bits a letter from what \<open>base32\<close> writes gives every
  byte again, for a secret of any length, and each letter is one of the alphabet.\<close>

theorem base32_read: "readBase32 (base32 bytes) = bytes \<and> set (base32 bytes) \<subseteq> set BASE32_ALPHABET"
  using read_base32 by blast

interpretation secretText: codec base32 "\<lambda>t. Inr (readBase32 t)" "\<lambda>_. True"
  by unfold_locales (simp add: read_base32)

subsection \<open>Codes are found where they belong\<close>

lemma stepAt_near: "\<bar>shown - ms\<bar> \<le> 30000 \<Longrightarrow> \<bar>stepAt shown - stepAt ms\<bar> \<le> 1"
  by (simp add: stepAt_def TOTP_STEP_S_def)

text \<open>A code is taken at a step it belongs to, at most one step from the clock and the clock's own step before
  the others; it is refused exactly when it belongs to none of the three; and the code a phone shows is taken by
  a server whose clock is off by up to thirty seconds either way.\<close>

theorem stepOf_exact:
  "(case stepOf mac secret code ms of
      None \<Rightarrow> \<forall>s \<in> {stepAt ms - 1 .. stepAt ms + 1}. codeAt mac secret s TOTP_DIGITS \<noteq> code
    | Some s \<Rightarrow> codeAt mac secret s TOTP_DIGITS = code \<and> s \<in> {stepAt ms - 1 .. stepAt ms + 1}
        \<and> (codeAt mac secret (stepAt ms) TOTP_DIGITS = code \<longrightarrow> s = stepAt ms))
   \<and> (\<forall>shown. \<bar>shown - ms\<bar> \<le> 30000 \<longrightarrow> stepOf mac secret (codeAt mac secret (stepAt shown) TOTP_DIGITS) ms \<noteq> None)"
proof -
  have near: "{stepAt ms - 1 .. stepAt ms + 1} = {stepAt ms, stepAt ms - 1, stepAt ms + 1}" by auto
  have "stepOf mac secret (codeAt mac secret (stepAt shown) TOTP_DIGITS) ms \<noteq> None" if "\<bar>shown - ms\<bar> \<le> 30000" for shown
  proof -
    have "stepAt shown \<in> {stepAt ms - 1 .. stepAt ms + 1}" using stepAt_near [OF that] by auto
    then show ?thesis unfolding near by (auto simp: stepOf_def Let_def DRIFT_STEPS_def)
  qed
  then show ?thesis unfolding near by (simp add: stepOf_def Let_def DRIFT_STEPS_def)
qed

text \<open>Two displays forty seconds apart, read half a minute late.\<close>

theorem stepOf_exact_witness:
  "stepOf (\<lambda>_ c. replicate 20 (ucast c)) [] (codeAt (\<lambda>_ c. replicate 20 (ucast c)) [] (stepAt 100000) TOTP_DIGITS) 130000 \<noteq> None"
  using stepOf_exact [where mac = "\<lambda>_ c. replicate 20 (ucast c)" and secret = "[]" and ms = 130000]
  by (auto dest: spec [of _ 100000])

subsection \<open>Typed codes are read as what they are\<close>

lemma digitChar_ok: "d < 10 \<Longrightarrow> isDigit (digitChar d) \<and> \<not> spaceOrDash (digitChar d) \<and> lowerChar (digitChar d) = digitChar d"
proof -
  have "\<forall>d \<in> {0, 1, 2, 3, 4, 5, 6, 7, 8, 9}. isDigit (digitChar d) \<and> \<not> spaceOrDash (digitChar d) \<and> lowerChar (digitChar d) = digitChar d"
    by code_simp
  moreover assume "d < 10"
  then have "d \<in> {0, 1, 2, 3, 4, 5, 6, 7, 8, 9}" by auto
  ultimately show ?thesis by blast
qed

lemma backup_ok: "c \<in> set BACKUP_ALPHABET \<Longrightarrow> \<not> spaceOrDash c \<and> lowerChar c = c"
proof -
  have "\<forall>c \<in> set BACKUP_ALPHABET. \<not> spaceOrDash c \<and> lowerChar c = c" by code_simp
  then show "c \<in> set BACKUP_ALPHABET \<Longrightarrow> \<not> spaceOrDash c \<and> lowerChar c = c" by blast
qed

lemma bare_backup:
  assumes "set xs \<subseteq> set BACKUP_ALPHABET"
  shows "filter (\<lambda>c. \<not> spaceOrDash c) xs = xs" "filter (\<lambda>c. c \<noteq> CHR ''-'') xs = xs" "map lowerChar xs = xs"
proof -
  have "CHR ''-'' \<notin> set BACKUP_ALPHABET" by (simp add: BACKUP_ALPHABET_def)
  then show "filter (\<lambda>c. \<not> spaceOrDash c) xs = xs" "filter (\<lambda>c. c \<noteq> CHR ''-'') xs = xs" "map lowerChar xs = xs"
    using assms backup_ok by (auto intro!: filter_True map_idI)
qed

lemma showNat_length: "n < 10 ^ k \<Longrightarrow> 0 < k \<Longrightarrow> length (showNat n) \<le> k"
proof (induction n arbitrary: k rule: showNat.induct)
  case (1 n)
  show ?case
  proof (cases "n < 10")
    case False
    with "1.prems" obtain j where j: "k = Suc j" "0 < j" by (cases k; cases "k - 1") auto
    with "1.prems" have "n div 10 < 10 ^ j" by auto
    with "1.IH" [OF False] j have "length (showNat (n div 10)) \<le> j" by blast
    with False j show ?thesis by (subst showNat.simps) simp
  qed (use "1.prems" in \<open>subst showNat.simps, simp\<close>)
qed

lemma codeAt_digits: "length (codeAt mac secret s TOTP_DIGITS) = 6 \<and> (\<forall>c \<in> set (codeAt mac secret s TOTP_DIGITS). \<exists>d < 10. c = digitChar d)"
proof -
  have "\<exists>n < 10 ^ 6. padStart 6 (showNat (x mod 10 ^ 6)) = padStart 6 (showNat n)" for x :: nat
    by (rule exI [of _ "x mod 10 ^ 6"]) simp
  then have "\<exists>n < 10 ^ 6. codeAt mac secret s TOTP_DIGITS = padStart 6 (showNat n)"
    unfolding codeAt_def Let_def TOTP_DIGITS_def .
  then obtain n where n: "n < 10 ^ 6" "codeAt mac secret s TOTP_DIGITS = padStart 6 (showNat n)" by blast
  have "CHR ''0'' = digitChar 0" by code_simp
  with n showNat_length [OF n(1)] showNat_chars [of _ n] show ?thesis by (auto simp: padStart_def intro: exI [of _ 0])
qed

lemma dashed:
  assumes "set xs \<subseteq> set BACKUP_ALPHABET" "set ys \<subseteq> set BACKUP_ALPHABET"
  shows "filter (\<lambda>c. \<not> spaceOrDash c) (xs @ CHR ''-'' # ys) = xs @ ys" "filter (\<lambda>c. c \<noteq> CHR ''-'') (xs @ CHR ''-'' # ys) = xs @ ys"
proof -
  have "spaceOrDash (CHR ''-'')" by (simp add: spaceOrDash_def)
  then show "filter (\<lambda>c. \<not> spaceOrDash c) (xs @ CHR ''-'' # ys) = xs @ ys" "filter (\<lambda>c. c \<noteq> CHR ''-'') (xs @ CHR ''-'' # ys) = xs @ ys"
    using bare_backup [OF assms(1)] bare_backup [OF assms(2)] by simp_all
qed

lemma readCode_bare:
  assumes "set xs \<subseteq> set BACKUP_ALPHABET" "length xs = 10" "filter (\<lambda>c. \<not> spaceOrDash c) shown = xs"
  shows "readCode shown = Some (BackupCode xs)"
  using assms bare_backup(3) [OF assms(1)] by (simp add: readCode_def BACKUP_CODE_LENGTH_def)

text \<open>What the server shows it reads. A six-digit code and a printed backup code are read as what they are,
  the backup code without its dash; white space and dashes put anywhere in what is typed change nothing, and
  nothing is read as both.\<close>

theorem readCode_exact:
  assumes "filter (\<lambda>c. \<not> spaceOrDash c) typed = filter (\<lambda>c. \<not> spaceOrDash c) shown"
  shows "readCode typed = readCode shown
     \<and> (shown = codeAt mac secret s TOTP_DIGITS \<longrightarrow> readCode typed = Some (TotpCode shown))
     \<and> (shown \<in> set (newBackupCodes draw) \<longrightarrow> (\<forall>i j. draw i j < length BACKUP_ALPHABET) \<longrightarrow>
          readCode typed = Some (BackupCode (filter (\<lambda>c. c \<noteq> CHR ''-'') shown)))"
proof -
  have same: "readCode typed = readCode shown" using assms by (simp add: readCode_def)
  have "readCode shown = Some (TotpCode shown)" if "shown = codeAt mac secret s TOTP_DIGITS"
  proof -
    have "\<forall>c \<in> set shown. isDigit c \<and> \<not> spaceOrDash c \<and> lowerChar c = c" "length shown = 6"
      using codeAt_digits [of mac secret s] digitChar_ok by (auto simp: that)
    then show ?thesis by (simp add: readCode_def map_idI)
  qed
  moreover have "readCode shown = Some (BackupCode (filter (\<lambda>c. c \<noteq> CHR ''-'') shown))"
    if "shown \<in> set (newBackupCodes draw)" "\<forall>i j. draw i j < length BACKUP_ALPHABET"
  proof -
    from that(1) obtain i where i: "shown = backupCode (draw i)" by (auto simp: newBackupCodes_def)
    obtain cs where cs: "cs = map (\<lambda>j. BACKUP_ALPHABET ! draw i j) [0..<BACKUP_CODE_LENGTH]" by blast
    then have ok: "set cs \<subseteq> set BACKUP_ALPHABET" "length cs = 10" using that(2) by (auto simp: BACKUP_CODE_LENGTH_def)
    have "set (take BACKUP_CODE_HALF cs) \<subseteq> set BACKUP_ALPHABET" "set (drop BACKUP_CODE_HALF cs) \<subseteq> set BACKUP_ALPHABET"
      by (rule order_trans [OF set_take_subset ok(1)], rule order_trans [OF set_drop_subset ok(1)])
    from dashed [OF this] have "filter (\<lambda>c. \<not> spaceOrDash c) shown = cs" "filter (\<lambda>c. c \<noteq> CHR ''-'') shown = cs"
      by (simp_all add: i backupCode_def Let_def cs [symmetric])
    with readCode_bare [OF ok] show ?thesis by simp
  qed
  ultimately show ?thesis unfolding same by blast
qed

theorem readCode_exact_witness:
  "readCode '' 23456 789ab'' = Some (BackupCode ''23456789ab'')"
proof -
  have "''23456-789ab'' \<in> set (newBackupCodes (\<lambda>i j. if j < length BACKUP_ALPHABET then j else 0))" by code_simp
  moreover have "filter (\<lambda>c. \<not> spaceOrDash c) '' 23456 789ab'' = filter (\<lambda>c. \<not> spaceOrDash c) ''23456-789ab''" by code_simp
  moreover have "\<forall>i j. (if j < length BACKUP_ALPHABET then j else 0) < length BACKUP_ALPHABET" by (simp add: BACKUP_ALPHABET_def)
  ultimately have "readCode '' 23456 789ab'' = Some (BackupCode (filter (\<lambda>c. c \<noteq> CHR ''-'') ''23456-789ab''))"
    using readCode_exact [of "'' 23456 789ab''" "''23456-789ab''" "\<lambda>_ _. []" "[]" 0 "\<lambda>i j. if j < length BACKUP_ALPHABET then j else 0"]
    by blast
  then show ?thesis by simp
qed

end
