(* ===== verification/Passwords.thy ===== *)
theory Passwords
  imports Complex_Main Codes "HOL-Library.Sublist"
begin

section \<open>Stored passwords\<close>

text \<open>
  \<open>backend/src/modules/auth/password.ts\<close> and \<open>password-policy.ts\<close>: the text a hash is stored as, how it is read
  again, and which new passwords are refused. The key derivation, base64, the generated list of common
  passwords and the Unicode folding are arguments.
\<close>

record CryptoLib =
  cl_base64 :: "8 word list \<Rightarrow> string"
  cl_fromBase64 :: "string \<Rightarrow> 8 word list"
  cl_derive :: "string \<Rightarrow> 8 word list \<Rightarrow> nat \<Rightarrow> nat \<times> nat \<times> nat \<Rightarrow> 8 word list"
  cl_common :: "string \<Rightarrow> bool"
  cl_bare :: "string \<Rightarrow> string"

definition SCHEME :: string where "SCHEME = ''scrypt''"
definition KEY_BYTES :: nat where "KEY_BYTES = 64"

type_synonym Cost = "nat \<times> nat \<times> nat"

definition COST :: Cost where "COST = (2 ^ 14, 8, 5)"
definition UNSTATED :: Cost where "UNSTATED = (2 ^ 14, 8, 1)"
definition UNUSABLE_PASSWORD :: string where "UNUSABLE_PASSWORD = ''none$''"

definition costText :: "Cost \<Rightarrow> string" where
  "costText = (\<lambda>(n, r, p). ''N='' @ showNat n @ '',r='' @ showNat r @ '',p='' @ showNat p)"

text \<open>\<open>/^N=(\d+),r=(\d+),p=(\d+)$/\<close>: three parts between two commas, each a letter, an equals sign and digits.\<close>

definition digitsAfter :: "string \<Rightarrow> string \<Rightarrow> nat option" where
  "digitsAfter name t =
     (let v = drop (length name) t
      in if take (length name) t = name \<and> v \<noteq> [] then map_option nat (readDigits v 0) else None)"

definition costOf :: "string \<Rightarrow> Cost option" where
  "costOf t =
     (case splitOn (CHR '','') t of
        [a, b, c] \<Rightarrow>
          (case (digitsAfter ''N='' a, digitsAfter ''r='' b, digitsAfter ''p='' c) of
             (Some n, Some r, Some p) \<Rightarrow> Some (n, r, p)
           | _ \<Rightarrow> None)
      | _ \<Rightarrow> None)"

definition hashPassword :: "CryptoLib \<Rightarrow> 8 word list \<Rightarrow> string \<Rightarrow> string" where
  "hashPassword lib salt plain =
     SCHEME @ ''$'' @ costText COST @ ''$'' @ cl_base64 lib salt @ ''$''
       @ cl_base64 lib (cl_derive lib plain salt KEY_BYTES COST)"

record StoredHash =
  sh_cost :: Cost
  sh_salt :: "8 word list"
  sh_key :: "8 word list"

text \<open>A part that is missing or empty is no part; parts after the fourth are not looked at.\<close>

definition parseHash :: "CryptoLib \<Rightarrow> string option \<Rightarrow> StoredHash option" where
  "parseHash lib stored =
     (let parts = splitOn (CHR ''$'') (orElse stored ''''); part = (\<lambda>k. if k < length parts then parts ! k else '''') in
      if part 0 \<noteq> SCHEME then None
      else
        let (cost, salt, key) = (if length parts = 3 then (Some UNSTATED, part 1, part 2) else (costOf (part 1), part 2, part 3)) in
        case cost of
          None \<Rightarrow> None
        | Some c \<Rightarrow> if salt = '''' \<or> key = '''' then None
            else Some \<lparr>sh_cost = c, sh_salt = cl_fromBase64 lib salt, sh_key = cl_fromBase64 lib key\<rparr>)"

text \<open>Without a hash the derivation runs on a decoy and the answer is no.\<close>

definition verifyPassword :: "CryptoLib \<Rightarrow> string \<Rightarrow> string option \<Rightarrow> bool" where
  "verifyPassword lib plain stored =
     (case parseHash lib stored of
        None \<Rightarrow> False
      | Some h \<Rightarrow> sh_key h = cl_derive lib plain (sh_salt h) (length (sh_key h)) (sh_cost h))"

definition needsRehash :: "CryptoLib \<Rightarrow> string \<Rightarrow> bool" where
  "needsRehash lib stored =
     (case parseHash lib (Some stored) of None \<Rightarrow> False | Some h \<Rightarrow> costText (sh_cost h) \<noteq> costText COST)"

subsection \<open>What a new password may be\<close>

definition PERSONAL_MIN :: nat where "PERSONAL_MIN = 4"

definition folded :: "CryptoLib \<Rightarrow> string \<Rightarrow> string" where
  "folded lib t =
     filter (\<lambda>c. isDigit c \<or> (97 \<le> (of_char c :: nat) \<and> (of_char c :: nat) \<le> 122)) (map lowerChar (cl_bare lib t))"

record PasswordOwner =
  po_email :: string
  po_fullName :: "string option"
  po_code :: "string option"

definition passwordFault :: "CryptoLib \<Rightarrow> string \<Rightarrow> PasswordOwner \<Rightarrow> string option" where
  "passwordFault lib password owner =
     (if cl_common lib (map lowerChar password) then Some ''PASSWORD_COMMON''
      else
        let typed = folded lib password;
            pieces = filter (\<lambda>t. length t \<ge> PERSONAL_MIN)
              (map (folded lib) [hd (splitOn (CHR ''@'') (po_email owner)), orElse (po_fullName owner) '''', orElse (po_code owner) ''''])
        in if \<exists>t \<in> set pieces. sublist t typed then Some ''PASSWORD_PERSONAL'' else None)"

subsection \<open>A stored hash is read as it was written\<close>

lemma showNat_digits: "c \<in> set (showNat n) \<Longrightarrow> isDigit c"
  using showNat_chars digitChar_ok by blast

lemma showNat_other [simp]: "\<not> isDigit c \<Longrightarrow> c \<notin> set (showNat n)"
  using showNat_digits by blast

lemma costOf_costText: "costOf (costText c) = Some c"
proof -
  obtain n r p where c: "c = (n, r, p)" by (cases c)
  have d: "\<not> isDigit (CHR '','')" by (simp add: isDigit_def)
  have "splitOn (CHR '','') (costText c) = [''N='' @ showNat n, ''r='' @ showNat r, ''p='' @ showNat p]"
    using splitOn_join [of "CHR '',''" "''N='' @ showNat n"] splitOn_join [of "CHR '',''" "''r='' @ showNat r"]
      splitOn_part [of "CHR '',''" "''p='' @ showNat p"] d by (simp add: c costText_def)
  then show ?thesis by (simp add: costOf_def digitsAfter_def readDigits_showNat c)
qed

lemma costText_inj: "costText c = costText c' \<Longrightarrow> c = c'"
  using costOf_costText by (metis option.sel)

lemma costText_plain: "CHR ''$'' \<notin> set (costText c)"
proof -
  have "\<not> isDigit (CHR ''$'')" by (simp add: isDigit_def)
  then show ?thesis by (cases c) (simp add: costText_def)
qed

lemma parse_hashPassword:
  assumes "\<forall>bs. cl_fromBase64 lib (cl_base64 lib bs) = bs" "\<forall>bs. CHR ''$'' \<notin> set (cl_base64 lib bs)" "cl_base64 lib salt \<noteq> ''''"
    "cl_base64 lib (cl_derive lib plain salt KEY_BYTES COST) \<noteq> ''''"
  shows "parseHash lib (Some (hashPassword lib salt plain))
     = Some \<lparr>sh_cost = COST, sh_salt = salt, sh_key = cl_derive lib plain salt KEY_BYTES COST\<rparr>"
proof -
  have "splitOn (CHR ''$'') (hashPassword lib salt plain)
      = [SCHEME, costText COST, cl_base64 lib salt, cl_base64 lib (cl_derive lib plain salt KEY_BYTES COST)]"
    using splitOn_join [of "CHR ''$''" SCHEME] splitOn_join [of "CHR ''$''" "costText COST"] splitOn_join [of "CHR ''$''" "cl_base64 lib salt"]
      assms(2) splitOn_part [of "CHR ''$''"] costText_plain by (simp add: hashPassword_def SCHEME_def)
  then show ?thesis using assms by (simp add: parseHash_def costOf_costText)
qed

text \<open>A stored password opens for the password it was made of, and for another only when the two derive the
  same key; it never asks to be made again; and the mark left by a "not me" opens for nothing. (Base64 is read as
  it was written, has no dollar sign and is not empty, and keys have the length asked for.)\<close>

theorem password_read:
  assumes "\<forall>bs. cl_fromBase64 lib (cl_base64 lib bs) = bs" "\<forall>bs. CHR ''$'' \<notin> set (cl_base64 lib bs)"
    "\<forall>bs. bs \<noteq> [] \<longrightarrow> cl_base64 lib bs \<noteq> ''''" "\<forall>p s n c. length (cl_derive lib p s n c) = n" "salt \<noteq> []"
  shows "(verifyPassword lib typed (Some (hashPassword lib salt plain))
         \<longleftrightarrow> cl_derive lib typed salt KEY_BYTES COST = cl_derive lib plain salt KEY_BYTES COST)
     \<and> verifyPassword lib plain (Some (hashPassword lib salt plain))
     \<and> \<not> needsRehash lib (hashPassword lib salt plain)
     \<and> \<not> verifyPassword lib typed (Some UNUSABLE_PASSWORD) \<and> \<not> verifyPassword lib typed None"
proof -
  have "cl_derive lib plain salt KEY_BYTES COST \<noteq> []" using assms(4) by (metis KEY_BYTES_def length_0_conv zero_neq_numeral)
  then have p: "parseHash lib (Some (hashPassword lib salt plain))
      = Some \<lparr>sh_cost = COST, sh_salt = salt, sh_key = cl_derive lib plain salt KEY_BYTES COST\<rparr>"
    using assms by (intro parse_hashPassword) auto
  have none: "parseHash lib (Some UNUSABLE_PASSWORD) = None" "parseHash lib None = None"
    by (simp_all add: parseHash_def UNUSABLE_PASSWORD_def SCHEME_def)
  have "length (cl_derive lib plain salt KEY_BYTES COST) = KEY_BYTES" using assms(4) by blast
  then show ?thesis by (auto simp: verifyPassword_def needsRehash_def p none)
qed

text \<open>With base32 in the place of base64 and keys of sixty-four bytes.\<close>

theorem password_read_witness:
  "let lib = \<lparr>cl_base64 = base32, cl_fromBase64 = readBase32, cl_derive = (\<lambda>p s n c. replicate n (of_nat (length p))),
        cl_common = (\<lambda>t. False), cl_bare = id\<rparr>
   in verifyPassword lib ''secret'' (Some (hashPassword lib [7] ''secret'')) \<and> \<not> verifyPassword lib ''x'' (Some (hashPassword lib [7] ''secret''))"
proof -
  let ?lib = "\<lparr>cl_base64 = base32, cl_fromBase64 = readBase32, cl_derive = (\<lambda>p s n c. replicate n (of_nat (length p))),
        cl_common = (\<lambda>t. False), cl_bare = id\<rparr>"
  have "CHR ''$'' \<notin> set BASE32_ALPHABET" by (simp add: BASE32_ALPHABET_def)
  then have a: "\<forall>bs. CHR ''$'' \<notin> set (base32 bs)" using read_base32(2) by blast
  have "base32 [] = ''''" by (simp add: base32_def)
  then have b: "\<forall>bs. bs \<noteq> [] \<longrightarrow> base32 bs \<noteq> ''''" by (metis read_base32(1))
  show ?thesis unfolding Let_def
    using password_read [of ?lib "[7]" "''secret''" "''secret''"] password_read [of ?lib "[7]" "''x''" "''secret''"] a b
    by (simp add: read_base32(1) KEY_BYTES_def replicate_eq_replicate)
qed

end
