(* ===== verification/Accounts.thy ===== *)
theory Accounts
  imports Complex_Main Scope Calendar Passwords
begin

section \<open>Accounts, the lock on an email and the second factor\<close>

text \<open>
  The rows of \<open>backend/src/modules/auth\<close>, its \<open>login-lockout.service.ts\<close> over the Redis keys of
  \<open>common/cache/cache-keys.ts\<close>, and \<open>mfa.service.ts\<close>. Redis is a part of the state with an expiry on each key;
  a Redis that is away answers nothing (\<open>quick\<close>) and the code goes on without it. Hashes, the ciphers, signed
  tickets and random values are arguments: a ticket is what its claims say, and a fresh value is an argument
  of the handler that draws it.
\<close>



subsection \<open>Rows\<close>

record User =
  us_id :: string
  us_email :: string
  us_passwordHash :: string
  us_role :: Role
  us_employeeId :: "int option"
  us_fullName :: "string option"
  us_code :: "string option"
  us_active :: bool
  us_entities :: "string list"

record Session =
  se_id :: string
  se_userId :: string
  se_tokenHash :: string
  se_lastSeenAt :: instant
  se_expiresAt :: instant
  se_revokedAt :: "instant option"
  se_mfaAt :: "instant option"

text \<open>\<open>PasswordSetup\<close> and \<open>PasswordAlarm\<close> have the same columns.\<close>

record OneTimeLink =
  ol_id :: nat
  ol_userId :: string
  ol_tokenHash :: string
  ol_expiresAt :: instant
  ol_usedAt :: "instant option"

record UserMfa =
  mf_userId :: string
  mf_secret :: "8 word list option"
  mf_pendingSecret :: "8 word list option"
  mf_pendingAt :: "instant option"
  mf_enabledAt :: "instant option"
  mf_lastStep :: "int option"
  mf_backupCodes :: "string list"
  mf_misses :: nat
  mf_lockedUntil :: "instant option"

text \<open>The guard keys: the count or value of each and the instant it expires.\<close>

record Guards =
  gd_up :: bool
  gd_loginMisses :: "string \<Rightarrow> (nat \<times> instant) option"
  gd_loginLock :: "string \<Rightarrow> instant option"
  gd_addressMisses :: "string \<Rightarrow> (nat \<times> instant) option"
  gd_recipientLinks :: "string \<Rightarrow> (nat \<times> instant) option"
  gd_accessCutoff :: "string \<Rightarrow> (int \<times> instant) option"
  gd_sessionCut :: "string \<Rightarrow> instant option"
  gd_docsPass :: "string \<Rightarrow> (string \<times> instant) option"
  gd_docsSession :: "string \<Rightarrow> ((string \<times> int) \<times> instant) option"

text \<open>What \<open>admitDevice\<close> reads of a device row.\<close>

record DeviceTicket =
  dt_id :: string
  dt_approved :: bool
  dt_tokenHash :: "string option"
  dt_prevTokenHash :: "string option"

record AuthDb =
  ad_users :: "User list"
  ad_sessions :: "Session list"
  ad_setups :: "OneTimeLink list"
  ad_alarms :: "OneTimeLink list"
  ad_mfa :: "UserMfa list"
  ad_devices :: "DeviceTicket list"
  ad_guards :: Guards

text \<open>The configuration, the clock and the functions of the crypto library.\<close>

record AuthEnv =
  au_now :: instant
  au_lib :: CryptoLib
  au_fingerprint :: "string \<Rightarrow> string"
  au_backupHash :: "string \<Rightarrow> string \<Rightarrow> string"
  au_hmac :: hmac
  au_mfaRoles :: "Role set"
  au_mfaKey :: bool
  au_mfaLockAfter :: nat
  au_mfaLockMinutes :: int
  au_challengeMinutes :: int
  au_loginLockAfter :: nat
  au_loginLockMinutes :: int
  au_ipMisses :: nat
  au_forgotPerHour :: nat
  au_sessionsPerUser :: nat
  au_refreshTtlMs :: int
  au_accessTtlMs :: int
  au_resetMinutes :: int
  au_alarmHours :: int

definition userOf :: "AuthDb \<Rightarrow> string \<Rightarrow> User option" where
  "userOf db u = firstWhere us_id u (ad_users db)"

definition mfaOf :: "AuthDb \<Rightarrow> string \<Rightarrow> UserMfa option" where
  "mfaOf db u = firstWhere mf_userId u (ad_mfa db)"

subsection \<open>The lock on an email\<close>

text \<open>\<open>String.trim()\<close> and \<open>toLowerCase()\<close> on ASCII.\<close>

definition trim :: "string \<Rightarrow> string" where
  "trim t = (let f = dropWhile (\<lambda>c. blank [c]) in rev (f (rev (f t))))"

definition normalEmail :: "string \<Rightarrow> string" where
  "normalEmail email = map lowerChar (trim email)"

definition unexpired :: "instant \<Rightarrow> ('a \<times> instant) option \<Rightarrow> 'a option" where
  "unexpired now held = (case held of Some (x, until) \<Rightarrow> if now < until then Some x else None | None \<Rightarrow> None)"

text \<open>\<open>INCR\<close> with \<open>EXPIRE .. NX\<close>: a counter that starts anew when the old one ran out.\<close>

definition countUp :: "instant \<Rightarrow> instant \<Rightarrow> (nat \<times> instant) option \<Rightarrow> nat \<times> instant" where
  "countUp now windowMs held =
     (case held of
        Some (n, until) \<Rightarrow> if now < until then (n + 1, until) else (1, now + windowMs)
      | None \<Rightarrow> (1, now + windowMs))"

definition windowMs :: "AuthEnv \<Rightarrow> int" where
  "windowMs env = au_loginLockMinutes env * 60 * 1000"

definition lockedFor :: "AuthEnv \<Rightarrow> Guards \<Rightarrow> string \<Rightarrow> bool" where
  "lockedFor env g email \<longleftrightarrow>
     gd_up g \<and> (case gd_loginLock g (normalEmail email) of None \<Rightarrow> False | Some until \<Rightarrow> au_now env < until)"

definition addressSpent :: "AuthEnv \<Rightarrow> Guards \<Rightarrow> string \<Rightarrow> bool" where
  "addressSpent env g address \<longleftrightarrow>
     gd_up g \<and> (case unexpired (au_now env) (gd_addressMisses g address) of None \<Rightarrow> False | Some n \<Rightarrow> n \<ge> au_ipMisses env)"

definition missed :: "AuthEnv \<Rightarrow> string \<Rightarrow> string option \<Rightarrow> string \<Rightarrow> Guards \<Rightarrow> Guards \<times> effect list" where
  "missed env email userId address g =
     (if \<not> gd_up g then (g, [])
      else
        let key = normalEmail email; now = au_now env; window = windowMs env;
            g1 = g\<lparr>gd_addressMisses := (gd_addressMisses g)(address \<mapsto> countUp now window (gd_addressMisses g address))\<rparr>;
            (n, until) = countUp now window (gd_loginMisses g key)
        in if n < au_loginLockAfter env then (g1\<lparr>gd_loginMisses := (gd_loginMisses g)(key \<mapsto> (n, until))\<rparr>, [])
           else (g1\<lparr>gd_loginLock := (gd_loginLock g)(key \<mapsto> now + window), gd_loginMisses := (gd_loginMisses g)(key := None)\<rparr>,
                 case userId of None \<Rightarrow> [] | Some u \<Rightarrow> [Audited '''' ''USER_LOCKED'' u]))"

definition clearLock :: "string \<Rightarrow> Guards \<Rightarrow> Guards" where
  "clearLock email g =
     (if gd_up g then g\<lparr>gd_loginMisses := (gd_loginMisses g)(normalEmail email := None),
                        gd_loginLock := (gd_loginLock g)(normalEmail email := None)\<rparr> else g)"

definition mayMail :: "AuthEnv \<Rightarrow> string \<Rightarrow> Guards \<Rightarrow> Guards \<times> bool" where
  "mayMail env email g =
     (if \<not> gd_up g then (g, True)
      else let key = normalEmail email; sent = countUp (au_now env) (3600 * 1000) (gd_recipientLinks g key)
           in (g\<lparr>gd_recipientLinks := (gd_recipientLinks g)(key \<mapsto> sent)\<rparr>, fst sent \<le> au_forgotPerHour env))"

subsection \<open>The second factor\<close>

text \<open>A sealed column holds the secret it seals: opening what was sealed for the same account is the cipher's law.
  The argument of \<open>holderOf\<close> is what verifying a ticket answers, \<open>None\<close> for one forged or expired.\<close>

record ChallengeClaims =
  cc_sub :: string
  cc_typ :: string

datatype PendingStep = StepCode | StepEnroll

definition CHALLENGE_TYPE :: string where "CHALLENGE_TYPE = ''mfa''"

definition requiredMfa :: "AuthEnv \<Rightarrow> Role \<Rightarrow> bool" where
  "requiredMfa env role \<longleftrightarrow> role \<in> au_mfaRoles env"

definition challengeMs :: "AuthEnv \<Rightarrow> int" where
  "challengeMs env = au_challengeMinutes env * 60000"

definition hasSecret :: "AuthDb \<Rightarrow> string \<Rightarrow> bool" where
  "hasSecret db u \<longleftrightarrow> (case mfaOf db u of None \<Rightarrow> False | Some m \<Rightarrow> mf_secret m \<noteq> None)"

definition challenge :: "AuthEnv \<Rightarrow> AuthDb \<Rightarrow> string \<Rightarrow> (PendingStep \<times> ChallengeClaims) result" where
  "challenge env db u =
     bindR (refuse (\<not> au_mfaKey env) (Unhandled ''MFA_KEY is not set'')) (\<lambda>_.
       Inr (if hasSecret db u then StepCode else StepEnroll, \<lparr>cc_sub = u, cc_typ = CHALLENGE_TYPE\<rparr>))"

definition holderOf :: "AuthEnv \<Rightarrow> ChallengeClaims option \<Rightarrow> string result" where
  "holderOf env ticket =
     (case ticket of
        None \<Rightarrow> Inl (Unauthorized ''MFA_CHALLENGE_SPENT'')
      | Some c \<Rightarrow> if au_mfaKey env \<and> cc_typ c = CHALLENGE_TYPE then Inr (cc_sub c) else Inl (Unauthorized ''MFA_CHALLENGE_SPENT''))"

definition account :: "AuthEnv \<Rightarrow> AuthDb \<Rightarrow> string \<Rightarrow> User result" where
  "account env db u =
     bindR (found (userOf db u) (Unauthorized ''MFA_CHALLENGE_SPENT'')) (\<lambda>user.
     bindR (refuse (\<not> us_active user \<or> \<not> requiredMfa env (us_role user)) (Unauthorized ''MFA_CHALLENGE_SPENT'')) (\<lambda>_. Inr user))"

definition blankMfa :: "string \<Rightarrow> UserMfa" where
  "blankMfa u =
     \<lparr>mf_userId = u, mf_secret = None, mf_pendingSecret = None, mf_pendingAt = None, mf_enabledAt = None, mf_lastStep = None,
      mf_backupCodes = [], mf_misses = 0, mf_lockedUntil = None\<rparr>"

definition offer :: "AuthEnv \<Rightarrow> 8 word list \<Rightarrow> UserMfa \<Rightarrow> UserMfa" where
  "offer env secret m = m\<lparr>mf_pendingSecret := Some secret, mf_pendingAt := Some (au_now env)\<rparr>"

definition offerSecret ::
  "AuthEnv \<Rightarrow> AuthDb \<Rightarrow> AuthDb \<Rightarrow> ChallengeClaims option \<Rightarrow> 8 word list \<Rightarrow> (AuthDb \<times> string) result" where
  "offerSecret env db0 db ticket secret =
     bindR (holderOf env ticket) (\<lambda>u.
     bindR (account env db0 u) (\<lambda>_.
     bindR (refuse (hasSecret db0 u) (Conflict ''MFA_ALREADY_ON'')) (\<lambda>_.
       Inr (db\<lparr>ad_mfa := (if mfaOf db u = None then ad_mfa db @ [offer env secret (blankMfa u)]
                           else updateMany (\<lambda>m. mf_userId m = u) (offer env secret) (ad_mfa db))\<rparr>, base32 secret))))"

text \<open>A try is taken ahead of reading the code; the last one of a row arms the lock.\<close>

definition freshMisses :: "UserMfa \<Rightarrow> nat" where
  "freshMisses m = (if mf_lockedUntil m = None then mf_misses m else 0) + 1"

definition mayTry :: "AuthEnv \<Rightarrow> UserMfa \<Rightarrow> bool" where
  "mayTry env m \<longleftrightarrow> (case mf_lockedUntil m of None \<Rightarrow> True | Some until \<Rightarrow> until \<le> au_now env)"

definition tried :: "AuthEnv \<Rightarrow> UserMfa \<Rightarrow> UserMfa" where
  "tried env m =
     m\<lparr>mf_misses := freshMisses m,
       mf_lockedUntil := (if freshMisses m \<ge> au_mfaLockAfter env then Some (au_now env + au_mfaLockMinutes env * 60000) else None)\<rparr>"

definition reserveTry :: "AuthEnv \<Rightarrow> string \<Rightarrow> AuthDb \<Rightarrow> (AuthDb \<times> bool) result" where
  "reserveTry env u db =
     (let (taken, rows) = claimWhere (\<lambda>m. mf_userId m = u \<and> mayTry env m) (tried env) (ad_mfa db);
          db1 = db\<lparr>ad_mfa := rows\<rparr>
      in bindR (refuse (taken = 0) (TooManyRequests ''MFA_LOCKED'')) (\<lambda>_.
           Inr (db1, case mfaOf db1 u of None \<Rightarrow> False | Some m \<Rightarrow> mf_lockedUntil m \<noteq> None)))"

definition behind :: "string \<Rightarrow> int \<Rightarrow> UserMfa \<Rightarrow> bool" where
  "behind u step m \<longleftrightarrow> mf_userId m = u \<and> (case mf_lastStep m of None \<Rightarrow> True | Some s \<Rightarrow> s < step)"

definition advance :: "string \<Rightarrow> int \<Rightarrow> AuthDb \<Rightarrow> nat \<times> AuthDb" where
  "advance u step db =
     (let (moved, rows) = claimWhere (behind u step) (\<lambda>m. m\<lparr>mf_lastStep := Some step, mf_misses := 0, mf_lockedUntil := None\<rparr>) (ad_mfa db)
      in (moved, db\<lparr>ad_mfa := rows\<rparr>))"

definition spend :: "string \<Rightarrow> string \<Rightarrow> AuthDb \<Rightarrow> nat \<times> AuthDb" where
  "spend u hash db =
     (let (spent, rows) = claimWhere (\<lambda>m. mf_userId m = u \<and> hash \<in> set (mf_backupCodes m))
            (\<lambda>m. m\<lparr>mf_backupCodes := removeAll hash (mf_backupCodes m), mf_misses := 0, mf_lockedUntil := None\<rparr>) (ad_mfa db)
      in (spent, db\<lparr>ad_mfa := rows\<rparr>))"

datatype Given = GivenTotp int | GivenBackup string

text \<open>What \<open>check\<close> does after the try is taken, on the state then: the code given that passed, or the refusal.\<close>

definition refuseCode :: "string \<Rightarrow> bool \<Rightarrow> effect list" where
  "refuseCode u armed = (if armed then [Audited '''' ''USER_MFA_LOCKED'' u, Enqueued ''MFA_CHANGED'' u] else [])"

definition settleCode ::
  "AuthEnv \<Rightarrow> string \<Rightarrow> 8 word list \<Rightarrow> string \<Rightarrow> bool \<Rightarrow> AuthDb \<Rightarrow> AuthDb \<times> effect list \<times> Given result" where
  "settleCode env u secret code armed db =
     (let rejected = (db, refuseCode u armed, Inl (Unauthorized ''MFA_CODE_REJECTED'')) in
      case readCode code of
        None \<Rightarrow> rejected
      | Some (TotpCode c) \<Rightarrow>
          (case stepOf (au_hmac env) secret c (au_now env) of
             None \<Rightarrow> rejected
           | Some step \<Rightarrow> (let (moved, db1) = advance u step db in if moved = 1 then (db1, [], Inr (GivenTotp step)) else rejected))
      | Some (BackupCode c) \<Rightarrow>
          (let hash = au_backupHash env u c; (spent, db1) = spend u hash db
           in if spent = 1 then (db1, [Audited u ''USER_MFA_BACKUP'' u, Enqueued ''MFA_CHANGED'' u], Inr (GivenBackup hash))
              else rejected))"

text \<open>The whole \<open>check\<close>; \<open>meanwhile\<close> is what other requests commit between its two writes.\<close>

definition checkCode ::
  "AuthEnv \<Rightarrow> (AuthDb \<Rightarrow> AuthDb) \<Rightarrow> string \<Rightarrow> 8 word list \<Rightarrow> string \<Rightarrow> AuthDb \<Rightarrow> AuthDb \<times> effect list \<times> Given result" where
  "checkCode env meanwhile u secret code db =
     (case reserveTry env u db of
        Inl e \<Rightarrow> (db, [], Inl e)
      | Inr (db1, armed) \<Rightarrow> settleCode env u secret code armed (meanwhile db1))"

definition secretOf :: "AuthDb \<Rightarrow> string \<Rightarrow> 8 word list option" where
  "secretOf db u = (case mfaOf db u of None \<Rightarrow> None | Some m \<Rightarrow> mf_secret m)"

definition verifyMfa ::
  "AuthEnv \<Rightarrow> (AuthDb \<Rightarrow> AuthDb) \<Rightarrow> AuthDb \<Rightarrow> AuthDb \<Rightarrow> ChallengeClaims option \<Rightarrow> string
    \<Rightarrow> AuthDb \<times> effect list \<times> string result" where
  "verifyMfa env meanwhile db0 db ticket code =
     (case bindR (holderOf env ticket) (\<lambda>u. bindR (account env db0 u) (\<lambda>_.
             bindR (found (secretOf db0 u) (Unauthorized ''MFA_CHALLENGE_SPENT'')) (\<lambda>secret. Inr (u, secret)))) of
        Inl e \<Rightarrow> (db, [], Inl e)
      | Inr (u, secret) \<Rightarrow>
          (let (db1, eff, given) = checkCode env meanwhile u secret code db in (db1, eff, bindR given (\<lambda>_. Inr u))))"

text \<open>\<open>confirm\<close>: the offered secret is kept by its first code, on the row it was offered on.\<close>

definition keptSecret :: "AuthEnv \<Rightarrow> string \<Rightarrow> 8 word list \<Rightarrow> int \<Rightarrow> string list \<Rightarrow> UserMfa \<Rightarrow> UserMfa" where
  "keptSecret env u secret step codes m =
     m\<lparr>mf_secret := Some secret, mf_pendingSecret := None, mf_pendingAt := None, mf_enabledAt := Some (au_now env),
       mf_lastStep := Some step, mf_backupCodes := codes, mf_misses := 0, mf_lockedUntil := None\<rparr>"

definition backupHashes :: "AuthEnv \<Rightarrow> string \<Rightarrow> string list \<Rightarrow> string list" where
  "backupHashes env u codes = map (\<lambda>c. au_backupHash env u (filter (\<lambda>x. x \<noteq> CHR ''-'') c)) codes"

definition offered :: "AuthEnv \<Rightarrow> AuthDb \<Rightarrow> string \<Rightarrow> (8 word list \<times> instant) result" where
  "offered env db u =
     (case mfaOf db u of
        None \<Rightarrow> Inl (Unauthorized ''MFA_CHALLENGE_SPENT'')
      | Some m \<Rightarrow>
          bindR (refuse (mf_secret m \<noteq> None) (Conflict ''MFA_ALREADY_ON'')) (\<lambda>_.
            case (mf_pendingSecret m, mf_pendingAt m) of
              (Some s, Some t) \<Rightarrow> if t \<le> au_now env - challengeMs env then Inl (Unauthorized ''MFA_CHALLENGE_SPENT'') else Inr (s, t)
            | _ \<Rightarrow> Inl (Unauthorized ''MFA_CHALLENGE_SPENT'')))"

definition keepOffer ::
  "AuthEnv \<Rightarrow> string \<Rightarrow> 8 word list \<Rightarrow> instant \<Rightarrow> int \<Rightarrow> string list \<Rightarrow> AuthDb \<Rightarrow> nat \<times> AuthDb" where
  "keepOffer env u secret pendingAt step codes db =
     (let (kept, rows) = claimWhere (\<lambda>m. mf_userId m = u \<and> mf_secret m = None \<and> mf_pendingAt m = Some pendingAt)
            (keptSecret env u secret step (backupHashes env u codes)) (ad_mfa db)
      in (kept, db\<lparr>ad_mfa := rows\<rparr>))"

definition confirmMfa ::
  "AuthEnv \<Rightarrow> (AuthDb \<Rightarrow> AuthDb) \<Rightarrow> AuthDb \<Rightarrow> AuthDb \<Rightarrow> (nat \<Rightarrow> nat \<Rightarrow> nat) \<Rightarrow> ChallengeClaims option \<Rightarrow> string
    \<Rightarrow> AuthDb \<times> effect list \<times> (string \<times> string list) result" where
  "confirmMfa env meanwhile db0 db draw ticket code =
     (case bindR (holderOf env ticket) (\<lambda>u. bindR (account env db0 u) (\<lambda>_.
             bindR (offered env db0 u) (\<lambda>(secret, pendingAt). bindR (reserveTry env u db) (\<lambda>(db1, armed).
               Inr (u, secret, pendingAt, db1, armed))))) of
        Inl e \<Rightarrow> (db, [], Inl e)
      | Inr (u, secret, pendingAt, db1, armed) \<Rightarrow>
          (case (case readCode code of Some (TotpCode c) \<Rightarrow> stepOf (au_hmac env) secret c (au_now env) | _ \<Rightarrow> None) of
             None \<Rightarrow> (db1, refuseCode u armed, Inl (Unauthorized ''MFA_CODE_REJECTED''))
           | Some step \<Rightarrow>
               (let codes = newBackupCodes draw; (kept, db2) = keepOffer env u secret pendingAt step codes (meanwhile db1)
                in if kept = 0 then (db2, [], Inl (Conflict ''MFA_ALREADY_ON''))
                   else (db2, [Audited u ''USER_MFA_ON'' u, Enqueued ''MFA_CHANGED'' u], Inr (u, codes)))))"

definition putCodes :: "AuthEnv \<Rightarrow> string \<Rightarrow> string list \<Rightarrow> AuthDb \<Rightarrow> AuthDb" where
  "putCodes env u codes db =
     db\<lparr>ad_mfa := updateMany (\<lambda>m. mf_userId m = u) (\<lambda>m. m\<lparr>mf_backupCodes := backupHashes env u codes\<rparr>) (ad_mfa db)\<rparr>"

definition renewCodes ::
  "AuthEnv \<Rightarrow> (AuthDb \<Rightarrow> AuthDb) \<Rightarrow> (AuthDb \<Rightarrow> AuthDb) \<Rightarrow> AuthDb \<Rightarrow> AuthDb \<Rightarrow> (nat \<Rightarrow> nat \<Rightarrow> nat) \<Rightarrow> string \<Rightarrow> string
    \<Rightarrow> AuthDb \<times> effect list \<times> (string list) result" where
  "renewCodes env meanwhile meanwhile' db0 db draw u code =
     (case (if au_mfaKey env then secretOf db0 u else None) of
        None \<Rightarrow> (db, [], Inl (Conflict ''MFA_NOT_ON''))
      | Some secret \<Rightarrow>
          (let (db1, eff, given) = checkCode env meanwhile u secret code db in
           case given of
             Inl e \<Rightarrow> (db1, eff, Inl e)
           | Inr _ \<Rightarrow>
               (let codes = newBackupCodes draw; db2 = meanwhile' db1
                in if mfaOf db2 u = None then (db2, eff, Inl (Unhandled ''P2025''))
                   else (putCodes env u codes db2, eff @ [Audited u ''USER_MFA_CODES'' u], Inr codes))))"

definition confirmOwner ::
  "AuthEnv \<Rightarrow> (AuthDb \<Rightarrow> AuthDb) \<Rightarrow> AuthDb \<Rightarrow> AuthDb \<Rightarrow> string \<Rightarrow> string option \<Rightarrow> AuthDb \<times> effect list \<times> unit result" where
  "confirmOwner env meanwhile db0 db u code =
     (case (if au_mfaKey env then secretOf db0 u else None) of
        None \<Rightarrow> (db, [], Inr ())
      | Some secret \<Rightarrow>
          (case code of
             None \<Rightarrow> (db, [], Inl (BadRequest ''MFA_CODE_NEEDED''))
           | Some c \<Rightarrow> if c = '''' then (db, [], Inl (BadRequest ''MFA_CODE_NEEDED''))
               else (let (db1, eff, given) = checkCode env meanwhile u secret c db in (db1, eff, bindR given (\<lambda>_. Inr ())))))"

definition dropMfa :: "string \<Rightarrow> AuthDb \<Rightarrow> AuthDb" where
  "dropMfa u db = db\<lparr>ad_mfa := deleteMany (\<lambda>m. mf_userId m = u) (ad_mfa db)\<rparr>"

definition resetMfa :: "AuthDb \<Rightarrow> AuthDb \<Rightarrow> string \<Rightarrow> string \<Rightarrow> AuthDb \<times> effect list \<times> bool" where
  "resetMfa db0 db actor u =
     (dropMfa u db,
      if hasSecret db0 u then [Audited actor ''USER_MFA_RESET'' u, Enqueued ''MFA_CHANGED'' u] else [], hasSecret db0 u)"

record MfaStatus =
  ms_required :: bool
  ms_enabledAt :: "instant option"
  ms_backupCodesLeft :: nat

definition mfaStatus :: "AuthEnv \<Rightarrow> AuthDb \<Rightarrow> string \<Rightarrow> Role \<Rightarrow> MfaStatus" where
  "mfaStatus env db u role =
     \<lparr>ms_required = requiredMfa env role,
      ms_enabledAt = (if hasSecret db u then mf_enabledAt (the (mfaOf db u)) else None),
      ms_backupCodesLeft = (if hasSecret db u then length (mf_backupCodes (the (mfaOf db u))) else 0)\<rparr>"

end
