(* ===== verification/Sessions.thy ===== *)
theory Sessions
  imports Accounts "HOL-Library.List_Lexorder" "HOL-Library.Char_ord"
begin

section \<open>Signing in, sessions and passwords\<close>

text \<open>
  \<open>backend/src/modules/auth/auth.service.ts\<close>. A handler that reads before it writes takes the state it read and
  the one it commits on; fresh values (session ids, refresh ids, salts, links) are arguments. A token is its
  claims: signing and verifying them is the library's. The rows an account's sign-in drops and makes are one
  commit.
\<close>

record RefreshClaims =
  rc_sub :: string
  rc_sid :: string
  rc_jti :: string

record IssuedTokens =
  it_access :: AccessClaims
  it_refresh :: RefreshClaims

datatype SignedIn = InSession IssuedTokens | PendingCode PendingStep ChallengeClaims

definition accountIdOf :: "AuthDb \<Rightarrow> string \<Rightarrow> string option" where
  "accountIdOf db email =
     (let typed = trim email in
      case firstWhere us_email typed (ad_users db) of
        Some u \<Rightarrow> Some (us_id u)
      | None \<Rightarrow>
          (case filter (\<lambda>u. map lowerChar (us_email u) = normalEmail typed) (ad_users db) of
             [u] \<Rightarrow> Some (us_id u)
           | _ \<Rightarrow> None))"

subsection \<open>Closing\<close>

definition liveSession :: "string \<Rightarrow> Session \<Rightarrow> bool" where
  "liveSession u s \<longleftrightarrow> se_userId s = u \<and> se_revokedAt s = None"

definition revokeWhere :: "instant \<Rightarrow> (Session \<Rightarrow> bool) \<Rightarrow> AuthDb \<Rightarrow> AuthDb" where
  "revokeWhere now which db =
     db\<lparr>ad_sessions := updateMany (\<lambda>s. which s \<and> se_revokedAt s = None) (\<lambda>s. s\<lparr>se_revokedAt := Some now\<rparr>) (ad_sessions db)\<rparr>"

definition closeSession :: "AuthEnv \<Rightarrow> string \<Rightarrow> AuthDb \<Rightarrow> AuthDb" where
  "closeSession env sid = revokeWhere (au_now env) (\<lambda>s. se_id s = sid)"

definition keepMs :: "AuthEnv \<Rightarrow> int" where
  "keepMs env = ((au_accessTtlMs env + 999) div 1000) * 1000"

definition cutAccess :: "AuthEnv \<Rightarrow> string list \<Rightarrow> AuthDb \<Rightarrow> AuthDb" where
  "cutAccess env us db =
     (let g = ad_guards db in
      if gd_up g
      then db\<lparr>ad_guards := g\<lparr>gd_accessCutoff := (\<lambda>u. if u \<in> set us then Some (au_now env div 1000, au_now env + keepMs env)
                                                      else gd_accessCutoff g u)\<rparr>\<rparr>
      else db)"

definition closeAll :: "AuthEnv \<Rightarrow> string \<Rightarrow> AuthDb \<Rightarrow> AuthDb" where
  "closeAll env u db = cutAccess env [u] (revokeWhere (au_now env) (\<lambda>s. se_userId s = u) db)"

definition signOutDevice :: "AuthEnv \<Rightarrow> string \<Rightarrow> AuthDb \<Rightarrow> AuthDb" where
  "signOutDevice env sid db =
     (let db1 = closeSession env sid db; g = ad_guards db1 in
      if gd_up g then db1\<lparr>ad_guards := g\<lparr>gd_sessionCut := (gd_sessionCut g)(sid \<mapsto> au_now env + keepMs env)\<rparr>\<rparr> else db1)"

text \<open>Whether an access token issued at second \<open>iat\<close> is dead before its own expiry.\<close>

definition accessCut :: "AuthEnv \<Rightarrow> AuthDb \<Rightarrow> AccessClaims \<Rightarrow> int \<Rightarrow> bool" where
  "accessCut env db claims iat =
     (let g = ad_guards db;
          ended = (gd_up g \<and> (case gd_sessionCut g (cl_sid claims) of None \<Rightarrow> False | Some until \<Rightarrow> au_now env < until));
          at' = (if gd_up g then unexpired (au_now env) (gd_accessCutoff g (cl_sub claims)) else None)
      in if ended then True
         else case at' of
           None \<Rightarrow> False
         | Some t \<Rightarrow>
             if iat > t then False
             else if iat < t then True
             else (case firstWhere se_id (cl_sid claims) (ad_sessions db) of None \<Rightarrow> True | Some s \<Rightarrow> se_revokedAt s \<noteq> None))"

text \<open>\<open>JwtStrategy.validate\<close>.\<close>

definition missingMfa :: "AuthEnv \<Rightarrow> AccessClaims \<Rightarrow> bool" where
  "missingMfa env claims \<longleftrightarrow> requiredMfa env (cl_role claims) \<and> \<not> cl_mfa claims"

definition validate :: "AuthEnv \<Rightarrow> AuthDb \<Rightarrow> AccessClaims \<Rightarrow> int \<Rightarrow> AccessClaims result" where
  "validate env db claims iat =
     bindR (refuse (accessCut env db claims iat) (Unauthorized ''SESSION_CLOSED'')) (\<lambda>_.
     bindR (refuse (missingMfa env claims) (Unauthorized ''MFA_REQUIRED'')) (\<lambda>_. Inr claims))"

subsection \<open>Opening\<close>

text \<open>\<open>makeRoom\<close>: spent rows go, then the ones last seen longest ago beyond the cap less one.\<close>

definition spentSession :: "instant \<Rightarrow> Session \<Rightarrow> bool" where
  "spentSession now s \<longleftrightarrow> se_expiresAt s \<le> now \<or> se_revokedAt s \<noteq> None"

definition spareSessions :: "AuthEnv \<Rightarrow> string \<Rightarrow> Session list \<Rightarrow> Session list" where
  "spareSessions env u ss =
     drop (au_sessionsPerUser env - 1)
       (sort_key (\<lambda>s. - se_lastSeenAt s) (filter (\<lambda>s. se_userId s = u \<and> \<not> spentSession (au_now env) s) ss))"

definition makeRoom :: "AuthEnv \<Rightarrow> string \<Rightarrow> AuthDb \<Rightarrow> AuthDb" where
  "makeRoom env u db =
     (let kept = deleteMany (\<lambda>s. se_userId s = u \<and> spentSession (au_now env) s) (ad_sessions db);
          spare = map se_id (spareSessions env u kept)
      in db\<lparr>ad_sessions := deleteMany (\<lambda>s. se_id s \<in> set spare) kept\<rparr>)"

definition signTokens :: "AuthDb \<Rightarrow> User \<Rightarrow> string \<Rightarrow> string \<Rightarrow> bool \<Rightarrow> IssuedTokens" where
  "signTokens db user sid jti mfa =
     (let held = (if us_role user \<in> LINKED_DESKS
                  then (case userOf db (us_id user) of None \<Rightarrow> [] | Some r \<Rightarrow> us_entities r) else [])
      in \<lparr>it_access = \<lparr>cl_sub = us_id user, cl_role = us_role user, cl_sid = sid, cl_mfa = mfa, cl_employeeId = us_employeeId user,
                       cl_ent = (if held \<noteq> [] then Some (sort held) else None)\<rparr>,
          it_refresh = \<lparr>rc_sub = us_id user, rc_sid = sid, rc_jti = jti\<rparr>\<rparr>)"

definition newSession :: "AuthEnv \<Rightarrow> User \<Rightarrow> string \<Rightarrow> string \<Rightarrow> instant option \<Rightarrow> Session" where
  "newSession env user sid jti mfaAt =
     \<lparr>se_id = sid, se_userId = us_id user, se_tokenHash = au_fingerprint env jti, se_lastSeenAt = au_now env,
      se_expiresAt = au_now env + au_refreshTtlMs env, se_revokedAt = None, se_mfaAt = mfaAt\<rparr>"

definition issue :: "AuthEnv \<Rightarrow> User \<Rightarrow> string \<Rightarrow> string \<Rightarrow> instant option \<Rightarrow> AuthDb \<Rightarrow> AuthDb \<times> IssuedTokens" where
  "issue env user sid jti mfaAt db =
     (db\<lparr>ad_sessions := ad_sessions db @ [newSession env user sid jti mfaAt]\<rparr>, signTokens db user sid jti (mfaAt \<noteq> None))"

definition onGuards :: "(Guards \<Rightarrow> Guards) \<Rightarrow> AuthDb \<Rightarrow> AuthDb" where
  "onGuards f db = db\<lparr>ad_guards := f (ad_guards db)\<rparr>"

definition putPassword :: "string \<Rightarrow> string \<Rightarrow> AuthDb \<Rightarrow> AuthDb" where
  "putPassword u hash db = db\<lparr>ad_users := updateMany (\<lambda>r. us_id r = u) (\<lambda>r. r\<lparr>us_passwordHash := hash\<rparr>) (ad_users db)\<rparr>"

definition signIn ::
  "AuthEnv \<Rightarrow> AuthDb \<Rightarrow> AuthDb \<Rightarrow> string \<Rightarrow> string \<Rightarrow> string \<Rightarrow> 8 word list \<Rightarrow> string \<Rightarrow> string
    \<Rightarrow> AuthDb \<times> effect list \<times> SignedIn result" where
  "signIn env db0 db email password address salt sid jti =
     (if addressSpent env (ad_guards db0) address then (db, [], Inl (TooManyRequests ''RATE_LIMITED''))
      else if lockedFor env (ad_guards db0) email then (db, [], Inl (TooManyRequests ''AUTH_LOCKED''))
      else
        let user = Option.bind (accountIdOf db0 email) (userOf db0);
            ok = verifyPassword (au_lib env) password (map_option us_passwordHash user)
        in case user of
             Some u \<Rightarrow>
               if ok \<and> us_active u
               then
                 let db1 = onGuards (clearLock email) db;
                     db2 = (if needsRehash (au_lib env) (us_passwordHash u)
                            then putPassword (us_id u) (hashPassword (au_lib env) salt password) db1 else db1)
                 in if requiredMfa env (us_role u)
                    then (db2, [], bindR (challenge env db2 (us_id u)) (\<lambda>(st, ticket). Inr (PendingCode st ticket)))
                    else (let (db3, tokens) = issue env u sid jti None (makeRoom env (us_id u) db2) in (db3, [], Inr (InSession tokens)))
               else (let (g, eff) = missed env email (Some (us_id u)) address (ad_guards db)
                     in (db\<lparr>ad_guards := g\<rparr>, eff, Inl (Unauthorized ''CREDENTIALS_REJECTED'')))
           | None \<Rightarrow>
               (let (g, eff) = missed env email None address (ad_guards db)
                in (db\<lparr>ad_guards := g\<rparr>, eff, Inl (Unauthorized ''CREDENTIALS_REJECTED''))))"

definition openSession ::
  "AuthEnv \<Rightarrow> AuthDb \<Rightarrow> AuthDb \<Rightarrow> string \<Rightarrow> string \<Rightarrow> string \<Rightarrow> (AuthDb \<times> IssuedTokens) result" where
  "openSession env db0 db u sid jti =
     bindR (found (userOf db0 u) (Unauthorized ''CREDENTIALS_REJECTED'')) (\<lambda>user.
     bindR (refuse (\<not> us_active user) (Unauthorized ''CREDENTIALS_REJECTED'')) (\<lambda>_.
       Inr (issue env user sid jti (Some (au_now env)) (makeRoom env u db))))"

subsection \<open>Renewing\<close>

definition renewable :: "AuthEnv \<Rightarrow> AuthDb \<Rightarrow> RefreshClaims \<Rightarrow> (Session \<times> User) option" where
  "renewable env db claims =
     (case firstWhere se_id (rc_sid claims) (ad_sessions db) of
        None \<Rightarrow> None
      | Some s \<Rightarrow>
          if se_userId s = rc_sub claims \<and> se_revokedAt s = None \<and> au_now env < se_expiresAt s
          then map_option (\<lambda>u. (s, u)) (userOf db (se_userId s)) else None)"

definition renewed :: "AuthEnv \<Rightarrow> string \<Rightarrow> Session \<Rightarrow> Session" where
  "renewed env jti s =
     s\<lparr>se_tokenHash := au_fingerprint env jti, se_expiresAt := au_now env + au_refreshTtlMs env, se_lastSeenAt := au_now env\<rparr>"

definition rotate ::
  "AuthEnv \<Rightarrow> AuthDb \<Rightarrow> AuthDb \<Rightarrow> RefreshClaims \<Rightarrow> string \<Rightarrow> AuthDb \<times> IssuedTokens result" where
  "rotate env db0 db claims jti =
     (case renewable env db0 claims of
        None \<Rightarrow> (db, Inl (Unauthorized ''SESSION_CLOSED''))
      | Some (s, user) \<Rightarrow>
          if se_tokenHash s \<noteq> au_fingerprint env (rc_jti claims)
          then (closeSession env (se_id s) db, Inl (Unauthorized ''REFRESH_REPLAYED''))
          else if \<not> us_active user then (closeAll env (se_userId s) db, Inl (Unauthorized ''ACCOUNT_CLOSED''))
          else if requiredMfa env (us_role user) \<and> se_mfaAt s = None
          then (closeSession env (se_id s) db, Inl (Unauthorized ''MFA_REQUIRED''))
          else
            let (n, rows) = claimWhere (\<lambda>r. se_id r = se_id s \<and> se_tokenHash r = se_tokenHash s \<and> se_revokedAt r = None)
                  (renewed env jti) (ad_sessions db);
                db1 = db\<lparr>ad_sessions := rows\<rparr>
            in if n = 0 then (closeSession env (se_id s) db1, Inl (Unauthorized ''REFRESH_REPLAYED''))
               else (db1, Inr (signTokens db1 user (se_id s) jti (se_mfaAt s \<noteq> None))))"

subsection \<open>Setting a password\<close>

definition closeLinks :: "instant \<Rightarrow> string \<Rightarrow> AuthDb \<Rightarrow> AuthDb" where
  "closeLinks now u db =
     db\<lparr>ad_setups := updateMany (\<lambda>l. ol_userId l = u \<and> ol_usedAt l = None \<and> now < ol_expiresAt l)
          (\<lambda>l. l\<lparr>ol_expiresAt := now\<rparr>) (ad_setups db)\<rparr>"

definition newLink :: "nat \<Rightarrow> string \<Rightarrow> string \<Rightarrow> instant \<Rightarrow> OneTimeLink" where
  "newLink i u hash expires = \<lparr>ol_id = i, ol_userId = u, ol_tokenHash = hash, ol_expiresAt = expires, ol_usedAt = None\<rparr>"

text \<open>\<open>sendLink\<close>: a new link closes the others.\<close>

definition sendLink :: "AuthEnv \<Rightarrow> string \<Rightarrow> nat \<Rightarrow> string \<Rightarrow> AuthDb \<Rightarrow> AuthDb \<times> effect list" where
  "sendLink env u i link db =
     (let db1 = closeLinks (au_now env) u db
      in (db1\<lparr>ad_setups := ad_setups db1 @ [newLink i u (au_fingerprint env link) (au_now env + au_resetMinutes env * 60000)]\<rparr>,
          [Enqueued ''PASSWORD_SETUP'' u]))"

definition tellOwner :: "AuthEnv \<Rightarrow> string \<Rightarrow> nat \<Rightarrow> string \<Rightarrow> AuthDb \<Rightarrow> AuthDb \<times> effect list" where
  "tellOwner env u i link db =
     (db\<lparr>ad_alarms := ad_alarms db @ [newLink i u (au_fingerprint env link) (au_now env + au_alarmHours env * 3600000)]\<rparr>,
      [Enqueued ''PASSWORD_CHANGED'' u])"

definition ownerOf :: "User \<Rightarrow> PasswordOwner" where
  "ownerOf u = \<lparr>po_email = us_email u, po_fullName = us_fullName u, po_code = us_code u\<rparr>"

definition refuseWeak :: "AuthEnv \<Rightarrow> AuthDb \<Rightarrow> string \<Rightarrow> string \<Rightarrow> unit result" where
  "refuseWeak env db u password =
     bindR (found (userOf db u) (Unhandled ''P2025'')) (\<lambda>owner.
     bindR (refuse (verifyPassword (au_lib env) password (Some (us_passwordHash owner))) (BadRequest ''PASSWORD_UNCHANGED'')) (\<lambda>_.
       case passwordFault (au_lib env) password (ownerOf owner) of
         None \<Rightarrow> Inr ()
       | Some fault \<Rightarrow> Inl (BadRequest fault)))"

text \<open>The link a token names, and whether it may be redeemed.\<close>

definition linkOf :: "AuthEnv \<Rightarrow> OneTimeLink list \<Rightarrow> string \<Rightarrow> OneTimeLink option" where
  "linkOf env links token = firstWhere ol_tokenHash (au_fingerprint env token) links"

definition redeemable :: "AuthEnv \<Rightarrow> AuthDb \<Rightarrow> OneTimeLink list \<Rightarrow> string \<Rightarrow> http_error \<Rightarrow> (OneTimeLink \<times> User) result" where
  "redeemable env db links token spent =
     bindR (found (linkOf env links token) spent) (\<lambda>l.
     bindR (found (userOf db (ol_userId l)) spent) (\<lambda>u.
     bindR (refuse (ol_usedAt l \<noteq> None \<or> ol_expiresAt l \<le> au_now env \<or> \<not> us_active u) spent) (\<lambda>_. Inr (l, u))))"

definition redeemed :: "instant \<Rightarrow> OneTimeLink \<Rightarrow> OneTimeLink" where
  "redeemed now l = l\<lparr>ol_usedAt := Some now\<rparr>"

text \<open>The transaction: the claim is the first write.\<close>

definition commitPassword :: "AuthEnv \<Rightarrow> OneTimeLink \<Rightarrow> string \<Rightarrow> AuthDb \<Rightarrow> AuthDb result" where
  "commitPassword env l hash db =
     (let now = au_now env; u = ol_userId l;
          (claimed, rows) = claimWhere (\<lambda>r. ol_id r = ol_id l \<and> ol_usedAt r = None \<and> now < ol_expiresAt r) (redeemed now) (ad_setups db)
      in bindR (refuse (claimed \<noteq> 1) (Unauthorized ''SETUP_LINK_SPENT'')) (\<lambda>_.
           Inr (revokeWhere now (\<lambda>s. se_userId s = u) (putPassword u hash (closeLinks now u (db\<lparr>ad_setups := rows\<rparr>))))))"

definition setPassword ::
  "AuthEnv \<Rightarrow> AuthDb \<Rightarrow> AuthDb \<Rightarrow> string \<Rightarrow> string \<Rightarrow> 8 word list \<Rightarrow> nat \<Rightarrow> string \<Rightarrow> (AuthDb \<times> effect list) result" where
  "setPassword env db0 db token password salt i alarm =
     bindR (redeemable env db0 (ad_setups db0) token (Unauthorized ''SETUP_LINK_SPENT'')) (\<lambda>(l, user).
     bindR (refuseWeak env db0 (us_id user) password) (\<lambda>_.
     bindR (commitPassword env l (hashPassword (au_lib env) salt password) db) (\<lambda>db1.
       Inr (tellOwner env (us_id user) i alarm (cutAccess env [us_id user] (onGuards (clearLock (us_email user)) db1))))))"

definition putNewPassword :: "AuthEnv \<Rightarrow> string \<Rightarrow> string \<Rightarrow> AuthDb \<Rightarrow> AuthDb" where
  "putNewPassword env u hash db =
     cutAccess env [u] (revokeWhere (au_now env) (\<lambda>s. se_userId s = u) (closeLinks (au_now env) u (putPassword u hash db)))"

text \<open>\<open>changePassword\<close>; \<open>meanwhile\<close> is what others commit between the writes of the code step.\<close>

definition changePassword ::
  "AuthEnv \<Rightarrow> (AuthDb \<Rightarrow> AuthDb) \<Rightarrow> AuthDb \<Rightarrow> AuthDb \<Rightarrow> string \<Rightarrow> string \<Rightarrow> string \<Rightarrow> string option \<Rightarrow> string
    \<Rightarrow> 8 word list \<Rightarrow> nat \<Rightarrow> string \<Rightarrow> AuthDb \<times> effect list \<times> unit result" where
  "changePassword env meanwhile db0 db u current next' code address salt i alarm =
     (case bindR (found (userOf db0 u) (Unauthorized ''CREDENTIALS_REJECTED'')) (\<lambda>user.
           bindR (refuse (\<not> us_active user) (Unauthorized ''CREDENTIALS_REJECTED'')) (\<lambda>_.
           bindR (refuse (addressSpent env (ad_guards db0) address) (TooManyRequests ''RATE_LIMITED'')) (\<lambda>_.
           bindR (refuse (lockedFor env (ad_guards db0) (us_email user)) (TooManyRequests ''AUTH_LOCKED'')) (\<lambda>_. Inr user)))) of
        Inl e \<Rightarrow> (db, [], Inl e)
      | Inr user \<Rightarrow>
          if \<not> verifyPassword (au_lib env) current (Some (us_passwordHash user))
          then (let (g, eff) = missed env (us_email user) (Some u) address (ad_guards db)
                in (db\<lparr>ad_guards := g\<rparr>, eff, Inl (Unauthorized ''CREDENTIALS_REJECTED'')))
          else
            let (db1, eff, owner) = confirmOwner env meanwhile db0 (onGuards (clearLock (us_email user)) db) u code
            in case bindR owner (\<lambda>_. bindR (refuse (next' = current) (BadRequest ''PASSWORD_UNCHANGED'')) (\<lambda>_. refuseWeak env db1 u next')) of
                 Inl e \<Rightarrow> (db1, eff, Inl e)
               | Inr _ \<Rightarrow>
                   (let (db2, eff2) = tellOwner env u i alarm (putNewPassword env u (hashPassword (au_lib env) salt next') db1)
                    in (db2, eff @ eff2, Inr ())))"

definition forgot :: "AuthEnv \<Rightarrow> string \<Rightarrow> AuthDb \<Rightarrow> AuthDb \<times> effect list" where
  "forgot env email db =
     (let (g, may) = mayMail env email (ad_guards db)
      in (db\<lparr>ad_guards := g\<rparr>, if may then [Enqueued ''PASSWORD_FORGOT'' email] else []))"

definition mailForgotten :: "AuthEnv \<Rightarrow> AuthDb \<Rightarrow> AuthDb \<Rightarrow> string \<Rightarrow> nat \<Rightarrow> string \<Rightarrow> AuthDb \<times> effect list" where
  "mailForgotten env db0 db email i link =
     (case Option.bind (accountIdOf db0 email) (userOf db0) of
        None \<Rightarrow> (db, [])
      | Some u \<Rightarrow> if us_active u then sendLink env (us_id u) i link db else (db, []))"

definition commitAlarm :: "AuthEnv \<Rightarrow> OneTimeLink \<Rightarrow> AuthDb \<Rightarrow> AuthDb result" where
  "commitAlarm env l db =
     (let now = au_now env; u = ol_userId l;
          (claimed, rows) = claimWhere (\<lambda>r. ol_id r = ol_id l \<and> ol_usedAt r = None) (redeemed now) (ad_alarms db);
          rows' = updateMany (\<lambda>r. ol_userId r = u \<and> ol_usedAt r = None) (redeemed now) rows
      in bindR (refuse (claimed \<noteq> 1) (Unauthorized ''ALARM_SPENT'')) (\<lambda>_.
           Inr (putPassword u UNUSABLE_PASSWORD (revokeWhere now (\<lambda>s. se_userId s = u) (db\<lparr>ad_alarms := rows'\<rparr>)))))"

definition notMe :: "AuthEnv \<Rightarrow> AuthDb \<Rightarrow> AuthDb \<Rightarrow> string \<Rightarrow> nat \<Rightarrow> string \<Rightarrow> (AuthDb \<times> effect list \<times> string) result" where
  "notMe env db0 db token i link =
     bindR (redeemable env db0 (ad_alarms db0) token (Unauthorized ''ALARM_SPENT'')) (\<lambda>(l, user).
     bindR (commitAlarm env l db) (\<lambda>db1.
       let (db2, eff) = sendLink env (ol_userId l) i link (cutAccess env [ol_userId l] db1) in Inr (db2, eff, ol_userId l)))"

subsection \<open>Kiosk tickets and the reference pages\<close>

text \<open>The verified ticket names its device, \<open>None\<close> when it does not verify; the last argument is its fingerprint.\<close>

definition admitDevice :: "AuthDb \<Rightarrow> AuthDb \<Rightarrow> string \<Rightarrow> string option \<Rightarrow> string \<Rightarrow> AuthDb \<times> bool" where
  "admitDevice db0 db i claimed given =
     (case (if claimed = Some i then firstWhere dt_id i (ad_devices db0) else None) of
        None \<Rightarrow> (db, False)
      | Some held \<Rightarrow>
          if \<not> dt_approved held \<or> dt_tokenHash held = None then (db, False)
          else if dt_tokenHash held \<noteq> Some given then (db, dt_prevTokenHash held = Some given)
          else if dt_prevTokenHash held \<noteq> None
          then (db\<lparr>ad_devices := updateMany (\<lambda>d. dt_id d = i \<and> dt_tokenHash d = dt_tokenHash held)
                     (\<lambda>d. d\<lparr>dt_prevTokenHash := None\<rparr>) (ad_devices db)\<rparr>, True)
          else (db, True))"

definition mayReadDocs :: "AuthEnv \<Rightarrow> AuthDb \<Rightarrow> string \<Rightarrow> int \<Rightarrow> bool" where
  "mayReadDocs env db u since \<longleftrightarrow>
     (case userOf db u of None \<Rightarrow> False | Some user \<Rightarrow> us_active user \<and> us_role user = ADMIN)
     \<and> (case unexpired (au_now env) (gd_accessCutoff (ad_guards db) u) of None \<Rightarrow> True | Some ended \<Rightarrow> since > ended)"

definition issueDocsPass :: "AuthEnv \<Rightarrow> string \<Rightarrow> string \<Rightarrow> AuthDb \<Rightarrow> AuthDb" where
  "issueDocsPass env u pass = onGuards (\<lambda>g. g\<lparr>gd_docsPass := (gd_docsPass g)(pass \<mapsto> (u, au_now env + 60000))\<rparr>)"

definition openDocs :: "AuthEnv \<Rightarrow> string \<Rightarrow> string \<Rightarrow> AuthDb \<Rightarrow> AuthDb \<times> string option" where
  "openDocs env pass session db =
     (let g = ad_guards db; db1 = onGuards (\<lambda>g. g\<lparr>gd_docsPass := (gd_docsPass g)(pass := None)\<rparr>) db; now = au_now env div 1000 in
      if \<not> gd_up g then (db, None)
      else case unexpired (au_now env) (gd_docsPass g pass) of
        None \<Rightarrow> (db1, None)
      | Some u \<Rightarrow>
          if mayReadDocs env db1 u now
          then (onGuards (\<lambda>g. g\<lparr>gd_docsSession := (gd_docsSession g)(session \<mapsto> ((u, now), au_now env + 900000))\<rparr>) db1, Some session)
          else (db1, None))"

definition docsSessionStands :: "AuthEnv \<Rightarrow> AuthDb \<Rightarrow> string \<Rightarrow> bool" where
  "docsSessionStands env db session \<longleftrightarrow>
     gd_up (ad_guards db)
     \<and> (case unexpired (au_now env) (gd_docsSession (ad_guards db) session) of None \<Rightarrow> False | Some (u, at') \<Rightarrow> mayReadDocs env db u at')"

end
