(* ===== verification/AuthLaws.thy ===== *)
theory AuthLaws
  imports Sessions
begin

section \<open>What signing in promises\<close>

text \<open>
  One step relation over the tables of accounts, with the events that matter: a session opened, a refresh token
  traded, a code that passed, a link redeemed. A step may have read any earlier state, so what holds of it holds
  whatever the interleaving. The properties: every token, code and link is good once.
\<close>

datatype AuthEvent =
    Opened string string
  | Traded string string string
  | Passed string Given
  | Enrolled string int
  | Renewed string "string list"
  | Dropped string
  | SetupUsed nat
  | AlarmUsed nat

text \<open>The steps of other tables, and what sweeps away old rows, leave these tables as they are or smaller.\<close>

definition aside :: "AuthDb \<Rightarrow> AuthDb \<Rightarrow> bool" where
  "aside c d \<longleftrightarrow> ad_mfa d = ad_mfa c \<and> (\<exists>P. ad_sessions d = filter P (ad_sessions c))
     \<and> (\<exists>P. ad_setups d = filter P (ad_setups c)) \<and> (\<exists>P. ad_alarms d = filter P (ad_alarms c))"

inductive authStep :: "AuthDb \<Rightarrow> AuthEvent list \<Rightarrow> AuthDb \<Rightarrow> bool" where
  signed_in: "signIn env b c email password address salt sid jti = (d, eff, r) \<Longrightarrow>
    authStep c (case r of Inr (InSession tokens) \<Rightarrow> [Opened sid (au_fingerprint env jti)] | _ \<Rightarrow> []) d"
| opened: "openSession env b c u sid jti = Inr (d, tokens) \<Longrightarrow> authStep c [Opened sid (au_fingerprint env jti)] d"
| rotated: "rotate env b c claims jti = (d, r) \<Longrightarrow>
    authStep c (case r of Inr tokens \<Rightarrow> [Traded (rc_sid claims) (au_fingerprint env (rc_jti claims)) (au_fingerprint env jti)] | _ \<Rightarrow> []) d"
| closed: "authStep c [] (closeSession env sid c)"
| closed_all: "authStep c [] (closeAll env u c)"
| signed_out: "authStep c [] (signOutDevice env sid c)"
| password_set: "setPassword env b c token password salt i alarm = Inr (d, eff) \<Longrightarrow> linkOf env (ad_setups b) token = Some l \<Longrightarrow>
    authStep c [SetupUsed (ol_id l)] d"
| password_put: "tellOwner env u i alarm (putNewPassword env u hash c) = (d, eff) \<Longrightarrow> authStep c [] d"
| forgotten: "mailForgotten env b c email i link = (d, eff) \<Longrightarrow> authStep c [] d"
| alarm_raised: "notMe env b c token i link = Inr (d, eff, u) \<Longrightarrow> linkOf env (ad_alarms b) token = Some l \<Longrightarrow>
    authStep c [AlarmUsed (ol_id l)] d"
| code_tried: "reserveTry env u c = Inr (d, armed) \<Longrightarrow> authStep c [] d"
| code_settled: "settleCode env u secret code armed c = (d, eff, given) \<Longrightarrow>
    authStep c (case given of Inr g \<Rightarrow> [Passed u g] | Inl _ \<Rightarrow> []) d"
| secret_offered: "offerSecret env b c ticket secret = Inr (d, text') \<Longrightarrow> authStep c [] d"
| secret_kept: "keepOffer env u secret pendingAt step codes c = (n, d) \<Longrightarrow> authStep c (if n = 0 then [] else [Enrolled u step]) d"
| codes_renewed: "authStep c [Renewed u (backupHashes env u codes)] (putCodes env u codes c)"
| mfa_dropped: "authStep c [Dropped u] (dropMfa u c)"
| apart: "aside c d \<Longrightarrow> authStep c [] d"

text \<open>Fresh values: a refresh id hashes to what no session has had, and no row is made with the id of a link that was
  redeemed or is there.\<close>

fun hashesOf :: "AuthEvent list \<Rightarrow> string set" where
  "hashesOf [] = {}"
| "hashesOf (Opened sid h # es) = insert h (hashesOf es)"
| "hashesOf (Traded sid h h' # es) = insert h (insert h' (hashesOf es))"
| "hashesOf (_ # es) = hashesOf es"

definition freshHash :: "AuthEvent \<Rightarrow> string set \<Rightarrow> bool" where
  "freshHash e known \<longleftrightarrow> (case e of Opened sid h \<Rightarrow> h \<notin> known | Traded sid h h' \<Rightarrow> h' \<notin> known | _ \<Rightarrow> True)"

definition tokenHashes :: "AuthDb \<Rightarrow> string set" where
  "tokenHashes db = se_tokenHash ` set (ad_sessions db)"

definition linksKept :: "OneTimeLink list \<Rightarrow> nat set \<Rightarrow> OneTimeLink list \<Rightarrow> bool" where
  "linksKept olds used news \<longleftrightarrow> distinct (map ol_id news) \<and> ol_id ` set news \<inter> used \<subseteq> ol_id ` set olds"

definition setupsUsed :: "AuthEvent list \<Rightarrow> nat list" where
  "setupsUsed es = List.map_filter (\<lambda>e. case e of SetupUsed i \<Rightarrow> Some i | _ \<Rightarrow> None) es"

definition alarmsUsed :: "AuthEvent list \<Rightarrow> nat list" where
  "alarmsUsed es = List.map_filter (\<lambda>e. case e of AlarmUsed i \<Rightarrow> Some i | _ \<Rightarrow> None) es"

definition tradedIn :: "AuthEvent list \<Rightarrow> string list" where
  "tradedIn es = List.map_filter (\<lambda>e. case e of Traded sid h h' \<Rightarrow> Some h | _ \<Rightarrow> None) es"

inductive authReach :: "AuthDb \<Rightarrow> AuthEvent list \<Rightarrow> AuthDb \<Rightarrow> bool" where
  start: "authReach a [] a"
| more: "authReach a es c \<Longrightarrow> authStep c out d \<Longrightarrow> (\<And>e. e \<in> set out \<Longrightarrow> freshHash e (tokenHashes a \<union> hashesOf es))
    \<Longrightarrow> linksKept (ad_setups c) (set (setupsUsed es)) (ad_setups d) \<Longrightarrow> linksKept (ad_alarms c) (set (alarmsUsed es)) (ad_alarms d)
    \<Longrightarrow> authReach a (es @ out) d"

lemma hashesOf_append [simp]: "hashesOf (xs @ ys) = hashesOf xs \<union> hashesOf ys"
  by (induction xs rule: hashesOf.induct) auto

lemma usedIn_append [simp]:
  "setupsUsed (xs @ ys) = setupsUsed xs @ setupsUsed ys" "alarmsUsed (xs @ ys) = alarmsUsed xs @ alarmsUsed ys"
  "tradedIn (xs @ ys) = tradedIn xs @ tradedIn ys"
  by (simp_all add: setupsUsed_def alarmsUsed_def tradedIn_def map_filter_def)

lemma usedIn_simps [simp]:
  "setupsUsed [] = []" "alarmsUsed [] = []" "tradedIn [] = []"
  "setupsUsed (e # es) = (case e of SetupUsed i \<Rightarrow> i # setupsUsed es | _ \<Rightarrow> setupsUsed es)"
  "alarmsUsed (e # es) = (case e of AlarmUsed i \<Rightarrow> i # alarmsUsed es | _ \<Rightarrow> alarmsUsed es)"
  "tradedIn (e # es) = (case e of Traded sid h h' \<Rightarrow> h # tradedIn es | _ \<Rightarrow> tradedIn es)"
  by (simp_all add: setupsUsed_def alarmsUsed_def tradedIn_def map_filter_simps split: AuthEvent.splits)

subsection \<open>A refresh token is traded once\<close>

text \<open>No two sessions accept one token, and none accepts a token that was traded.\<close>

definition tokensOk :: "string set \<Rightarrow> AuthEvent list \<Rightarrow> AuthDb \<Rightarrow> bool" where
  "tokensOk known es db \<longleftrightarrow> distinct (map se_tokenHash (ad_sessions db)) \<and> distinct (tradedIn es)
     \<and> tokenHashes db \<union> set (tradedIn es) \<subseteq> known \<union> hashesOf es \<and> tokenHashes db \<inter> set (tradedIn es) = {}"

text \<open>The rows of a step: fewer of the old ones with the same hashes, one more with a new hash, or one hash changed.\<close>

definition sameTokens :: "Session list \<Rightarrow> Session list \<Rightarrow> bool" where
  "sameTokens old new \<longleftrightarrow> (\<exists>P. map se_tokenHash new = map se_tokenHash (filter P old))"

lemma sameTokens_simps [simp]:
  "sameTokens ss ss" "sameTokens ss (filter P ss)" "sameTokens ss (deleteMany P ss)"
  "(\<And>s. se_tokenHash (f s) = se_tokenHash s) \<Longrightarrow> sameTokens ss (updateMany P f ss)"
proof -
  show "sameTokens ss ss" unfolding sameTokens_def by (rule exI [of _ "\<lambda>_. True"]) simp
  show "sameTokens ss (filter P ss)" unfolding sameTokens_def by blast
  show "sameTokens ss (deleteMany P ss)" unfolding sameTokens_def deleteMany_def by blast
  show "(\<And>s. se_tokenHash (f s) = se_tokenHash s) \<Longrightarrow> sameTokens ss (updateMany P f ss)"
    unfolding sameTokens_def by (rule exI [of _ "\<lambda>_. True"]) (simp add: updateMany_keys)
qed

lemma makeRoom_sub: "\<exists>P. ad_sessions (makeRoom env u db) = filter P (ad_sessions db)"
  by (auto simp: makeRoom_def Let_def deleteMany_def filter_filter)

lemma sessions_kept [simp]:
  "ad_sessions (onGuards f db) = ad_sessions db" "ad_sessions (putPassword u h db) = ad_sessions db"
  "ad_sessions (cutAccess env us db) = ad_sessions db" "ad_sessions (closeLinks now u db) = ad_sessions db"
  "ad_sessions (fst (sendLink env u i l db)) = ad_sessions db" "ad_sessions (fst (tellOwner env u i l db)) = ad_sessions db"
  "ad_sessions (revokeWhere now Q db) = updateMany (\<lambda>s. Q s \<and> se_revokedAt s = None) (\<lambda>s. s\<lparr>se_revokedAt := Some now\<rparr>) (ad_sessions db)"
  by (simp_all add: onGuards_def putPassword_def cutAccess_def closeLinks_def sendLink_def tellOwner_def revokeWhere_def Let_def)

definition tokenMove :: "AuthDb \<Rightarrow> AuthEvent list \<Rightarrow> AuthDb \<Rightarrow> bool" where
  "tokenMove c out d \<longleftrightarrow>
     (tradedIn out = [] \<and> sameTokens (ad_sessions c) (ad_sessions d))
     \<or> (\<exists>sid h ss s. out = [Opened sid h] \<and> sameTokens (ad_sessions c) ss \<and> ad_sessions d = ss @ [s] \<and> se_tokenHash s = h)
     \<or> (\<exists>sid h h' P f. out = [Traded sid h h'] \<and> ad_sessions d = updateMany P f (ad_sessions c)
          \<and> (\<forall>s. P s \<longrightarrow> se_tokenHash s = h) \<and> (\<forall>s. se_tokenHash (f s) = h') \<and> (\<exists>s \<in> set (ad_sessions c). P s))"

lemma tokenMove_same: "tradedIn out = [] \<Longrightarrow> sameTokens (ad_sessions c) (ad_sessions d) \<Longrightarrow> tokenMove c out d"
  by (simp add: tokenMove_def)

lemma tokenMove_opened:
  assumes "ad_sessions d = ad_sessions (makeRoom env u db) @ [newSession env user sid jti m]" "ad_sessions db = ad_sessions c"
  shows "tokenMove c [Opened sid (au_fingerprint env jti)] d"
  using assms makeRoom_sub [of env u db] by (auto simp: tokenMove_def newSession_def)

lemma updateMany_hashes:
  assumes "distinct (map th ss)" "\<forall>s. P s \<longrightarrow> th s = h" "\<forall>s. th (f s) = h'" "\<exists>s \<in> set ss. P s"
  shows "map th (updateMany P f ss) = map (\<lambda>x. if x = h then h' else x) (map th ss)"
proof -
  have "P s \<longleftrightarrow> th s = h" if "s \<in> set ss" for s
    using assms that by (metis distinct_map inj_on_eq_iff)
  then show ?thesis using assms(3) by (auto simp: updateMany_def)
qed

lemma replace_distinct: "distinct xs \<Longrightarrow> h' \<notin> set xs \<Longrightarrow> distinct (map (\<lambda>x. if x = h then h' else x) xs)"
  by (induction xs) auto

lemma tokensOk_move:
  assumes "tokensOk known es c" "tokenMove c out d" "\<And>e. e \<in> set out \<Longrightarrow> freshHash e (known \<union> hashesOf es)"
  shows "tokensOk known (es @ out) d"
  using assms(2) unfolding tokenMove_def
proof (elim disjE exE conjE)
  assume "tradedIn out = []" "sameTokens (ad_sessions c) (ad_sessions d)"
  then obtain P where P: "map se_tokenHash (ad_sessions d) = map se_tokenHash (filter P (ad_sessions c))"
    by (auto simp: sameTokens_def)
  have "tokenHashes d \<subseteq> tokenHashes c" using arg_cong [OF P, of set] by (auto simp: tokenHashes_def)
  then show ?thesis using assms(1) P distinct_map_filter [of se_tokenHash "ad_sessions c" P] \<open>tradedIn out = []\<close>
    by (auto simp: tokensOk_def)
next
  fix sid h ss s
  assume o: "out = [Opened sid h]" "sameTokens (ad_sessions c) ss" "ad_sessions d = ss @ [s]" "se_tokenHash s = h"
  then obtain P where P: "map se_tokenHash ss = map se_tokenHash (filter P (ad_sessions c))" by (auto simp: sameTokens_def)
  have sub: "se_tokenHash ` set ss \<subseteq> tokenHashes c" using arg_cong [OF P, of set] by (auto simp: tokenHashes_def)
  have fresh: "h \<notin> known \<union> hashesOf es" using assms(3) o(1) by (auto simp: freshHash_def)
  have old: "tokenHashes c \<subseteq> known \<union> hashesOf es" "tokenHashes c \<inter> set (tradedIn es) = {}" "set (tradedIn es) \<subseteq> known \<union> hashesOf es"
    using assms(1) by (auto simp: tokensOk_def)
  have new: "tokenHashes d = insert h (se_tokenHash ` set ss)" using o(3,4) by (simp add: tokenHashes_def)
  have "tokenHashes d \<union> set (tradedIn es) \<subseteq> insert h (known \<union> hashesOf es)" "tokenHashes d \<inter> set (tradedIn es) = {}"
    unfolding new using sub old fresh by blast+
  then show ?thesis using assms(1) o P sub fresh old(1) distinct_map_filter [of se_tokenHash "ad_sessions c" P]
    by (auto simp: tokensOk_def tokenHashes_def)
next
  fix sid h h' P f
  assume o: "out = [Traded sid h h']" "ad_sessions d = updateMany P f (ad_sessions c)"
    "\<forall>s. P s \<longrightarrow> se_tokenHash s = h" "\<forall>s. se_tokenHash (f s) = h'" "\<exists>s \<in> set (ad_sessions c). P s"
  have m: "map se_tokenHash (ad_sessions d) = map (\<lambda>x. if x = h then h' else x) (map se_tokenHash (ad_sessions c))"
    unfolding o(2) using assms(1) o by (intro updateMany_hashes) (auto simp: tokensOk_def)
  have fresh: "h' \<notin> known \<union> hashesOf es" using assms(3) o(1) by (auto simp: freshHash_def)
  have h: "h \<in> tokenHashes c" using o(3,5) by (auto simp: tokenHashes_def)
  have new: "tokenHashes d = (\<lambda>x. if x = h then h' else x) ` tokenHashes c"
    using arg_cong [OF m, of set] unfolding tokenHashes_def set_map .
  have "distinct (map se_tokenHash (ad_sessions d))" unfolding m
    using assms(1) fresh by (intro replace_distinct) (auto simp: tokensOk_def tokenHashes_def)
  then show ?thesis using assms(1) o(1) fresh h by (auto simp: tokensOk_def new)
qed

lemma closed_tokens [simp]:
  "sameTokens (ad_sessions c) (ad_sessions (closeSession env sid c))" "sameTokens (ad_sessions c) (ad_sessions (closeAll env u c))"
  "sameTokens (ad_sessions c) (ad_sessions (signOutDevice env sid c))"
  by (simp_all add: closeSession_def closeAll_def signOutDevice_def Let_def)

definition accepts :: "Session \<Rightarrow> Session \<Rightarrow> bool" where
  "accepts s r \<longleftrightarrow> se_id r = se_id s \<and> se_tokenHash r = se_tokenHash s \<and> se_revokedAt r = None"

lemma rotate_Inr:
  assumes "rotate env b c claims jti = (d, Inr tokens)"
  obtains s user where "renewable env b claims = Some (s, user)" "se_tokenHash s = au_fingerprint env (rc_jti claims)"
    "d = c\<lparr>ad_sessions := updateMany (accepts s) (renewed env jti) (ad_sessions c)\<rparr>" "\<exists>r \<in> set (ad_sessions c). accepts s r"
    "tokens = signTokens d user (se_id s) jti (se_mfaAt s \<noteq> None)" "us_active user"
    "requiredMfa env (us_role user) \<Longrightarrow> se_mfaAt s \<noteq> None"
proof -
  from assms obtain s user where r: "renewable env b claims = Some (s, user)" by (auto simp: rotate_def split: option.splits)
  have P: "(\<lambda>r. se_id r = se_id s \<and> se_tokenHash r = se_tokenHash s \<and> se_revokedAt r = None) = accepts s"
    by (simp add: fun_eq_iff accepts_def)
  note d = assms [unfolded rotate_def r option.case prod.case P Let_def]
  show thesis
    by (rule that [OF r]) (use d in \<open>auto simp: claimWhere_def filter_empty_conv split: if_splits\<close>)
qed

lemma rotate_move:
  assumes "rotate env b c claims jti = (d, r)"
  shows "tokenMove c (case r of Inr tokens \<Rightarrow> [Traded (rc_sid claims) (au_fingerprint env (rc_jti claims)) (au_fingerprint env jti)] | _ \<Rightarrow> []) d"
proof (cases r)
  case (Inl e)
  then have "sameTokens (ad_sessions c) (ad_sessions d)"
    using assms by (auto simp: rotate_def claimWhere_def filter_empty_conv updateMany_none closeSession_def Let_def
        split: option.splits if_splits)
  with Inl show ?thesis by (simp add: tokenMove_same)
next
  case (Inr tokens)
  with assms obtain s where s: "se_tokenHash s = au_fingerprint env (rc_jti claims)"
    "d = c\<lparr>ad_sessions := updateMany (accepts s) (renewed env jti) (ad_sessions c)\<rparr>" "\<exists>r \<in> set (ad_sessions c). accepts s r"
    by (auto elim!: rotate_Inr)
  have "\<forall>r. accepts s r \<longrightarrow> se_tokenHash r = au_fingerprint env (rc_jti claims)" "\<forall>r. se_tokenHash (renewed env jti r) = au_fingerprint env jti"
    by (simp_all add: accepts_def s(1) renewed_def)
  with s(2,3) show ?thesis unfolding Inr tokenMove_def sum.case by auto
qed

lemma signIn_move:
  assumes "signIn env b c email password address salt sid jti = (d, eff, r)"
  shows "tokenMove c (case r of Inr (InSession tokens) \<Rightarrow> [Opened sid (au_fingerprint env jti)] | _ \<Rightarrow> []) d"
proof -
  have same: ?thesis if "ad_sessions d = ad_sessions c" "\<forall>tokens. r \<noteq> Inr (InSession tokens)"
    using that by (auto simp: tokenMove_same split: sum.splits SignedIn.splits)
  show ?thesis
  proof (cases "\<exists>tokens. r = Inr (InSession tokens)")
    case True
    then obtain tokens where r: "r = Inr (InSession tokens)" by blast
    obtain u db2 where "issue env u sid jti None (makeRoom env (us_id u) db2) = (d, tokens)" "ad_sessions db2 = ad_sessions c"
      using assms unfolding r by (auto simp: signIn_def Let_def challenge_def bindR_eq_Inr split: option.splits if_splits prod.splits)
    then show ?thesis unfolding r by (auto simp: issue_def intro: tokenMove_opened)
  next
    case False
    then have "ad_sessions d = ad_sessions c"
      using assms by (auto simp: signIn_def Let_def split: option.splits if_splits prod.splits)
    with False same show ?thesis by blast
  qed
qed

text \<open>What the handlers that set a password leave.\<close>

lemma redeemable_Inr:
  assumes "redeemable env b links token spent = Inr (l, user)"
  shows "linkOf env links token = Some l" "userOf b (ol_userId l) = Some user" "us_active user"
  using assms by (auto simp: redeemable_def bindR_eq_Inr)

lemma setPassword_Inr:
  assumes "setPassword env b c token password salt i alarm = Inr (d, eff)"
  obtains l user db1 where "redeemable env b (ad_setups b) token (Unauthorized ''SETUP_LINK_SPENT'') = Inr (l, user)"
    "commitPassword env l (hashPassword (au_lib env) salt password) c = Inr db1"
    "d = fst (tellOwner env (us_id user) i alarm (cutAccess env [us_id user] (onGuards (clearLock (us_email user)) db1)))"
proof -
  from assms obtain l user db1 where "redeemable env b (ad_setups b) token (Unauthorized ''SETUP_LINK_SPENT'') = Inr (l, user)"
    "commitPassword env l (hashPassword (au_lib env) salt password) c = Inr db1"
    "tellOwner env (us_id user) i alarm (cutAccess env [us_id user] (onGuards (clearLock (us_email user)) db1)) = (d, eff)"
    by (auto simp: setPassword_def bindR_eq_Inr)
  from that [OF this(1,2)] this(3) show thesis by (metis fst_conv)
qed

lemma notMe_Inr:
  assumes "notMe env b c token i link = Inr (d, eff, u)"
  obtains l user db1 where "redeemable env b (ad_alarms b) token (Unauthorized ''ALARM_SPENT'') = Inr (l, user)"
    "commitAlarm env l c = Inr db1" "d = fst (sendLink env (ol_userId l) i link (cutAccess env [ol_userId l] db1))" "u = ol_userId l"
proof -
  from assms obtain l user db1 where r: "redeemable env b (ad_alarms b) token (Unauthorized ''ALARM_SPENT'') = Inr (l, user)"
    and c: "commitAlarm env l c = Inr db1" and u: "u = ol_userId l"
    and d: "d = fst (sendLink env (ol_userId l) i link (cutAccess env [ol_userId l] db1))"
    by (auto simp: notMe_def bindR_eq_Inr split_beta Let_def)
  from that [OF r c d u] show thesis .
qed

definition setupLive :: "AuthEnv \<Rightarrow> OneTimeLink \<Rightarrow> OneTimeLink \<Rightarrow> bool" where
  "setupLive env l r \<longleftrightarrow> ol_id r = ol_id l \<and> ol_usedAt r = None \<and> au_now env < ol_expiresAt r"

lemma commitPassword_Inr:
  assumes "commitPassword env l hash db = Inr d"
  shows "\<exists>r \<in> set (ad_setups db). setupLive env l r"
    "d = revokeWhere (au_now env) (\<lambda>s. se_userId s = ol_userId l) (putPassword (ol_userId l) hash (closeLinks (au_now env) (ol_userId l)
           (db\<lparr>ad_setups := updateMany (setupLive env l) (redeemed (au_now env)) (ad_setups db)\<rparr>)))"
proof -
  have P: "(\<lambda>r. ol_id r = ol_id l \<and> ol_usedAt r = None \<and> au_now env < ol_expiresAt r) = setupLive env l"
    by (simp add: fun_eq_iff setupLive_def)
  note d = assms [unfolded commitPassword_def P Let_def claimWhere_def prod.case]
  then have "filter (setupLive env l) (ad_setups db) \<noteq> []" by (auto simp: bindR_eq_Inr)
  then show "\<exists>r \<in> set (ad_setups db). setupLive env l r" by (auto simp: filter_empty_conv)
  show "d = revokeWhere (au_now env) (\<lambda>s. se_userId s = ol_userId l) (putPassword (ol_userId l) hash (closeLinks (au_now env) (ol_userId l)
           (db\<lparr>ad_setups := updateMany (setupLive env l) (redeemed (au_now env)) (ad_setups db)\<rparr>)))"
    using d by (auto simp: bindR_eq_Inr)
qed

definition alarmLive :: "OneTimeLink \<Rightarrow> OneTimeLink \<Rightarrow> bool" where
  "alarmLive l r \<longleftrightarrow> ol_id r = ol_id l \<and> ol_usedAt r = None"

lemma commitAlarm_Inr:
  assumes "commitAlarm env l db = Inr d"
  shows "\<exists>r \<in> set (ad_alarms db). alarmLive l r"
    "d = putPassword (ol_userId l) UNUSABLE_PASSWORD (revokeWhere (au_now env) (\<lambda>s. se_userId s = ol_userId l)
           (db\<lparr>ad_alarms := updateMany (\<lambda>r. ol_userId r = ol_userId l \<and> ol_usedAt r = None) (redeemed (au_now env))
               (updateMany (alarmLive l) (redeemed (au_now env)) (ad_alarms db))\<rparr>))"
proof -
  have P: "(\<lambda>r. ol_id r = ol_id l \<and> ol_usedAt r = None) = alarmLive l" by (simp add: fun_eq_iff alarmLive_def)
  note d = assms [unfolded commitAlarm_def P Let_def claimWhere_def prod.case]
  then have "filter (alarmLive l) (ad_alarms db) \<noteq> []" by (auto simp: bindR_eq_Inr)
  then show "\<exists>r \<in> set (ad_alarms db). alarmLive l r" by (auto simp: filter_empty_conv)
  show "d = putPassword (ol_userId l) UNUSABLE_PASSWORD (revokeWhere (au_now env) (\<lambda>s. se_userId s = ol_userId l)
           (db\<lparr>ad_alarms := updateMany (\<lambda>r. ol_userId r = ol_userId l \<and> ol_usedAt r = None) (redeemed (au_now env))
               (updateMany (alarmLive l) (redeemed (au_now env)) (ad_alarms db))\<rparr>))"
    using d by (auto simp: bindR_eq_Inr)
qed

lemma mailForgotten_cases: "mailForgotten env b c email i link = (d, eff) \<Longrightarrow> d = c \<or> (\<exists>u. d = fst (sendLink env u i link c))"
  by (auto simp: mailForgotten_def split: option.splits if_splits) (metis fst_conv)

lemma step_tokens: "authStep c out d \<Longrightarrow> tokenMove c out d"
proof (induction rule: authStep.induct)
  case (signed_in env b c email password address salt sid jti d eff r)
  then show ?case by (rule signIn_move)
next
  case (opened env b c u sid jti d tokens)
  then show ?case by (auto simp: openSession_def bindR_eq_Inr issue_def intro: tokenMove_opened)
next
  case (rotated env b c claims jti d r)
  then show ?case by (rule rotate_move)
next
  case (password_set env b c token password salt i alarm d eff l)
  then show ?case by (elim setPassword_Inr) (intro tokenMove_same, simp, drule commitPassword_Inr(2), simp)
next
  case (password_put env u i alarm hash c d eff)
  then have "d = fst (tellOwner env u i alarm (putNewPassword env u hash c))" by simp
  then show ?case by (intro tokenMove_same) (simp_all add: putNewPassword_def)
next
  case (forgotten env b c email i link d eff)
  from mailForgotten_cases [OF this] show ?case by (intro tokenMove_same) auto
next
  case (alarm_raised env b c token i link d eff u l)
  then show ?case by (elim notMe_Inr) (intro tokenMove_same, simp, drule commitAlarm_Inr(2), simp)
next
  case (code_settled env u secret code armed c d eff given)
  then have "ad_sessions d = ad_sessions c"
    by (auto simp: settleCode_def advance_def spend_def claimWhere_def Let_def split: option.splits TypedCode.splits if_splits)
  then show ?case by (intro tokenMove_same) (simp_all split: sum.splits)
next
  case (apart c d)
  then show ?case by (intro tokenMove_same) (auto simp: aside_def)
qed (auto intro!: tokenMove_same simp: reserveTry_def offerSecret_def keepOffer_def putCodes_def dropMfa_def claimWhere_def bindR_eq_Inr Let_def split: if_splits)

lemma reach_tokens:
  "authReach a es d \<Longrightarrow> distinct (map se_tokenHash (ad_sessions a)) \<Longrightarrow> tokensOk (tokenHashes a) es d"
proof (induction rule: authReach.induct)
  case (more a es c out d)
  then show ?case using tokensOk_move [OF _ step_tokens [OF more.hyps(2)]] by blast
qed (simp add: tokensOk_def)

text \<open>C9: a refresh token is traded at most once, in any history of any number of sessions and devices; two tabs
  that renew with the same token get one new pair between them, and a token that was traded opens nothing again.\<close>

theorem refresh_once:
  assumes "authReach a es db" "distinct (map se_tokenHash (ad_sessions a))"
  shows "distinct (tradedIn es) \<and> (\<forall>h \<in> set (tradedIn es). \<forall>s \<in> set (ad_sessions db). se_tokenHash s \<noteq> h)"
  using reach_tokens [OF assms] by (auto simp: tokensOk_def tokenHashes_def)

subsection \<open>A code passes once\<close>

text \<open>What of the tables of the second factor a step changes.\<close>

lemma mfa_kept [simp]:
  "ad_mfa (onGuards f db) = ad_mfa db" "ad_mfa (putPassword u h db) = ad_mfa db" "ad_mfa (cutAccess env us db) = ad_mfa db"
  "ad_mfa (closeLinks now u db) = ad_mfa db" "ad_mfa (fst (sendLink env u i l db)) = ad_mfa db"
  "ad_mfa (fst (tellOwner env u i l db)) = ad_mfa db" "ad_mfa (revokeWhere now Q db) = ad_mfa db" "ad_mfa (makeRoom env u db) = ad_mfa db"
  "ad_mfa (closeSession env sid db) = ad_mfa db" "ad_mfa (closeAll env u db) = ad_mfa db" "ad_mfa (signOutDevice env sid db) = ad_mfa db"
  "ad_mfa (fst (issue env user sid jti m db)) = ad_mfa db" "ad_mfa (putNewPassword env u hash db) = ad_mfa db"
  by (simp_all add: onGuards_def putPassword_def cutAccess_def closeLinks_def sendLink_def tellOwner_def revokeWhere_def makeRoom_def
      closeSession_def closeAll_def signOutDevice_def issue_def putNewPassword_def Let_def)

lemma signIn_mfa: "signIn env b c email password address salt sid jti = (d, eff, r) \<Longrightarrow> ad_mfa d = ad_mfa c"
  by (auto simp: signIn_def issue_def Let_def split: option.splits if_splits prod.splits)

lemma rotate_mfa: "rotate env b c claims jti = (d, r) \<Longrightarrow> ad_mfa d = ad_mfa c"
  by (auto simp: rotate_def Let_def split: option.splits if_splits prod.splits)

text \<open>Once somebody's code has passed: they have a row, no row of theirs is behind that code's step, or none has
  that backup code.\<close>

definition pastCode :: "string \<Rightarrow> Given \<Rightarrow> AuthDb \<Rightarrow> bool" where
  "pastCode u g db \<longleftrightarrow> (\<exists>m \<in> set (ad_mfa db). mf_userId m = u)
     \<and> (\<forall>m \<in> set (ad_mfa db). mf_userId m = u \<longrightarrow>
          (case g of GivenTotp s \<Rightarrow> (\<exists>t \<ge> s. mf_lastStep m = Some t) | GivenBackup h \<Rightarrow> h \<notin> set (mf_backupCodes m)))"

definition restarts :: "string \<Rightarrow> Given \<Rightarrow> AuthEvent \<Rightarrow> bool" where
  "restarts u g e \<longleftrightarrow> e = Dropped u \<or> (\<exists>s. e = Enrolled u s) \<or> (\<exists>hs h. e = Renewed u hs \<and> g = GivenBackup h \<and> h \<in> set hs)"

lemma pastCode_same: "pastCode u g c \<Longrightarrow> ad_mfa d = ad_mfa c \<Longrightarrow> pastCode u g d"
  by (simp add: pastCode_def)

lemma pastCode_update:
  assumes "pastCode u g c" "ad_mfa d = updateMany P f (ad_mfa c)" "\<And>m. mf_userId (f m) = mf_userId m"
    "\<And>m t. P m \<Longrightarrow> mf_userId m = u \<Longrightarrow> mf_lastStep m = Some t \<Longrightarrow> \<exists>t' \<ge> t. mf_lastStep (f m) = Some t'"
    "\<And>m. P m \<Longrightarrow> mf_userId m = u \<Longrightarrow> set (mf_backupCodes (f m)) \<subseteq> set (mf_backupCodes m)"
  shows "pastCode u g d"
proof -
  have key: "mf_userId (if P m then f m else m) = mf_userId m" for m using assms(3) by simp
  have "\<exists>m \<in> set (ad_mfa c). mf_userId m = u" using assms(1) by (simp add: pastCode_def)
  moreover have "(case g of GivenTotp s \<Rightarrow> (\<exists>t \<ge> s. mf_lastStep (if P m then f m else m) = Some t)
      | GivenBackup h \<Rightarrow> h \<notin> set (mf_backupCodes (if P m then f m else m)))"
    if "m \<in> set (ad_mfa c)" "mf_userId m = u" for m
  proof (cases g)
    case (GivenTotp s)
    with assms(1) that obtain t where "s \<le> t" "mf_lastStep m = Some t" by (auto simp: pastCode_def)
    with assms(4) [of m t] that show ?thesis by (auto simp: GivenTotp)
  next
    case (GivenBackup h)
    with assms(1) that have "h \<notin> set (mf_backupCodes m)" by (auto simp: pastCode_def)
    with assms(5) [of m] that show ?thesis by (auto simp: GivenBackup)
  qed
  ultimately show ?thesis unfolding pastCode_def assms(2) updateMany_bounded key by blast
qed

lemma settleCode_cases:
  assumes "settleCode env u secret code armed c = (d, eff, given)"
  shows "d = c \<and> (\<exists>e. given = Inl e)
     \<or> (\<exists>step. given = Inr (GivenTotp step) \<and> fst (advance u step c) = 1 \<and> d = snd (advance u step c))
     \<or> (\<exists>hash. given = Inr (GivenBackup hash) \<and> fst (spend u hash c) = 1 \<and> d = snd (spend u hash c))"
  using assms by (auto simp: settleCode_def Let_def split: option.splits TypedCode.splits if_splits prod.splits)

lemma step_past:
  assumes "authStep c out d" "pastCode u g c" "\<forall>e \<in> set out. \<not> restarts u g e"
  shows "pastCode u g d"
  using assms
proof (induction rule: authStep.induct)
  case (code_tried env v c d armed)
  then have "ad_mfa d = updateMany (\<lambda>m. mf_userId m = v \<and> mayTry env m) (tried env) (ad_mfa c)"
    by (auto simp: reserveTry_def claimWhere_def bindR_eq_Inr Let_def)
  then show ?case by (rule pastCode_update [OF code_tried.prems(1)]) (auto simp: tried_def)
next
  case (code_settled env v secret code armed c d eff given)
  from settleCode_cases [OF this(1)] show ?case
  proof (elim disjE exE conjE)
    fix step
    assume "d = snd (advance v step c)"
    then have "ad_mfa d = updateMany (behind v step) (\<lambda>m. m\<lparr>mf_lastStep := Some step, mf_misses := 0, mf_lockedUntil := None\<rparr>) (ad_mfa c)"
      by (simp add: advance_def claimWhere_def)
    then show ?case by (rule pastCode_update [OF code_settled.prems(1)]) (auto simp: behind_def)
  next
    fix hash
    assume "d = snd (spend v hash c)"
    then have "ad_mfa d = updateMany (\<lambda>m. mf_userId m = v \<and> hash \<in> set (mf_backupCodes m))
        (\<lambda>m. m\<lparr>mf_backupCodes := removeAll hash (mf_backupCodes m), mf_misses := 0, mf_lockedUntil := None\<rparr>) (ad_mfa c)"
      by (simp add: spend_def claimWhere_def)
    then show ?case by (rule pastCode_update [OF code_settled.prems(1)]) auto
  qed (use code_settled.prems in blast)
next
  case (secret_offered env b c ticket secret d t)
  then obtain v where "ad_mfa d = (if mfaOf c v = None then ad_mfa c @ [offer env secret (blankMfa v)]
      else updateMany (\<lambda>m. mf_userId m = v) (offer env secret) (ad_mfa c))"
    by (auto simp: offerSecret_def bindR_eq_Inr)
  moreover have "v \<noteq> u" if "mfaOf c v = None"
    using that secret_offered.prems(1) by (auto simp: mfaOf_def firstWhere_none pastCode_def)
  ultimately show ?case
    using secret_offered.prems(1) pastCode_update [OF secret_offered.prems(1), of d "\<lambda>m. mf_userId m = v" "offer env secret"]
    by (cases "mfaOf c v = None") (auto simp: pastCode_def offer_def blankMfa_def)
next
  case (secret_kept env v secret pendingAt step codes c n d)
  show ?case
  proof (cases "n = 0 \<or> v \<noteq> u")
    case True
    have d: "ad_mfa d = updateMany (\<lambda>m. mf_userId m = v \<and> mf_secret m = None \<and> mf_pendingAt m = Some pendingAt)
        (keptSecret env v secret step (backupHashes env v codes)) (ad_mfa c)"
      "n = length (filter (\<lambda>m. mf_userId m = v \<and> mf_secret m = None \<and> mf_pendingAt m = Some pendingAt) (ad_mfa c))"
      using secret_kept(1) by (auto simp: keepOffer_def claimWhere_def)
    show ?thesis
    proof (cases "n = 0")
      case True
      have "\<forall>m \<in> set (ad_mfa c). \<not> (mf_userId m = v \<and> mf_secret m = None \<and> mf_pendingAt m = Some pendingAt)"
        by (rule d(2) [symmetric, unfolded True length_0_conv filter_empty_conv])
      then have "ad_mfa d = ad_mfa c" unfolding d(1) by (intro updateMany_none) (erule (1) bspec)
      with secret_kept.prems(1) show ?thesis by (rule pastCode_same)
    next
      case False
      with True have "v \<noteq> u" by simp
      then show ?thesis by (intro pastCode_update [OF secret_kept.prems(1) d(1)]) (auto simp: keptSecret_def)
    qed
  next
    case False
    with secret_kept.prems(2) show ?thesis by (simp add: restarts_def)
  qed
next
  case (codes_renewed c v env codes)
  show ?case
  proof (cases "v = u")
    case True
    then have "\<not> restarts u g (Renewed u (backupHashes env u codes))" using codes_renewed.prems(2) by simp
    with True show ?thesis using codes_renewed.prems(1)
      by (auto simp: pastCode_def putCodes_def updateMany_bounded restarts_def split: Given.splits)
  next
    case False
    then show ?thesis using pastCode_update [OF codes_renewed.prems(1), of "putCodes env v codes c" "\<lambda>m. mf_userId m = v"]
      by (auto simp: putCodes_def)
  qed
next
  case (mfa_dropped c v)
  then have "v \<noteq> u" by (simp add: restarts_def)
  with mfa_dropped.prems(1) show ?case by (auto simp: pastCode_def dropMfa_def)
next
  case (signed_in env b c email password address salt sid jti d eff r)
  then show ?case using pastCode_same signIn_mfa by blast
next
  case (opened env b c v sid jti d tokens)
  then have "ad_mfa d = ad_mfa c" by (auto simp: openSession_def bindR_eq_Inr issue_def)
  with opened.prems(1) show ?case by (rule pastCode_same)
next
  case (rotated env b c claims jti d r)
  then show ?case using pastCode_same rotate_mfa by blast
next
  case (password_set env b c token password salt i alarm d eff l)
  then have "ad_mfa d = ad_mfa c" by (elim setPassword_Inr) (simp, drule commitPassword_Inr(2), simp)
  with password_set.prems(1) show ?case by (rule pastCode_same)
next
  case (password_put env v i alarm hash c d eff)
  then have "d = fst (tellOwner env v i alarm (putNewPassword env v hash c))" by simp
  then have "ad_mfa d = ad_mfa c" by simp
  with password_put.prems(1) show ?case by (rule pastCode_same)
next
  case (forgotten env b c email i link d eff)
  from mailForgotten_cases [OF this(1)] have "ad_mfa d = ad_mfa c" by auto
  with forgotten.prems(1) show ?case by (rule pastCode_same)
next
  case (alarm_raised env b c token i link d eff v l)
  then have "ad_mfa d = ad_mfa c" by (elim notMe_Inr) (simp, drule commitAlarm_Inr(2), simp)
  with alarm_raised.prems(1) show ?case by (rule pastCode_same)
qed (auto elim!: pastCode_same simp: aside_def)


definition later :: "Given \<Rightarrow> Given \<Rightarrow> bool" where
  "later g g' \<longleftrightarrow> g \<noteq> g' \<and> (\<forall>s s'. g = GivenTotp s \<longrightarrow> g' = GivenTotp s' \<longrightarrow> s < s')"

lemma settled_past:
  assumes "settleCode env u secret code armed c = (d, eff, Inr g')"
  shows "pastCode u g' d" "pastCode u g c \<Longrightarrow> later g g'"
proof -
  have "pastCode u g' d \<and> (pastCode u g c \<longrightarrow> later g g')"
    using settleCode_cases [OF assms]
  proof (elim disjE exE conjE)
    fix step
    assume s: "Inr g' = Inr (GivenTotp step)" "fst (advance u step c) = 1" "d = snd (advance u step c)"
    then have "filter (behind u step) (ad_mfa c) \<noteq> []" by (auto simp: advance_def claimWhere_def)
    then obtain m where m: "m \<in> set (ad_mfa c)" "behind u step m" by (auto simp: filter_empty_conv)
    have "pastCode u g' d" using s m
      by (auto simp: pastCode_def advance_def claimWhere_def updateMany_bounded behind_def split: option.splits)
    moreover have "later g g'" if "pastCode u g c" using that m s(1)
      by (cases g) (auto simp: pastCode_def behind_def later_def split: option.splits)
    ultimately show ?thesis by simp
  next
    fix hash
    assume s: "Inr g' = Inr (GivenBackup hash)" "fst (spend u hash c) = 1" "d = snd (spend u hash c)"
    then have "filter (\<lambda>m. mf_userId m = u \<and> hash \<in> set (mf_backupCodes m)) (ad_mfa c) \<noteq> []" by (auto simp: spend_def claimWhere_def)
    then obtain m where m: "m \<in> set (ad_mfa c)" "mf_userId m = u" "hash \<in> set (mf_backupCodes m)" by (auto simp: filter_empty_conv)
    have "pastCode u g' d" using s m by (auto simp: pastCode_def spend_def claimWhere_def updateMany_bounded)
    moreover have "later g g'" if "pastCode u g c" using that m s(1) by (cases g) (auto simp: pastCode_def later_def)
    ultimately show ?thesis by simp
  qed simp
  then show "pastCode u g' d" "pastCode u g c \<Longrightarrow> later g g'" by simp_all
qed

lemma step_one_event: "authStep c out d \<Longrightarrow> out = [] \<or> (\<exists>e. out = [e])"
  by (induction rule: authStep.induct) (auto split: sum.splits SignedIn.splits)

lemma step_passed:
  assumes "authStep c [Passed u g'] d"
  shows "pastCode u g' d" "pastCode u g c \<Longrightarrow> later g g'"
  using assms by (cases rule: authStep.cases; auto split: sum.splits SignedIn.splits if_splits dest: settled_past)+

text \<open>In a history, of the code that passed last with no restart since.\<close>

lemma reach_past:
  "authReach a es d \<Longrightarrow> es = xs @ Passed u g # ys \<Longrightarrow> \<forall>e \<in> set ys. \<not> restarts u g e \<Longrightarrow> pastCode u g d"
proof (induction arbitrary: ys rule: authReach.induct)
  case (more a es c out d)
  from step_one_event [OF more.hyps(2)] show ?case
  proof (elim disjE exE)
    assume "out = []"
    with more show ?thesis using step_past [OF more.hyps(2)] by simp
  next
    fix e
    assume e: "out = [e]"
    show ?thesis
    proof (cases ys rule: rev_cases)
      case Nil
      with more.prems(1) e have "out = [Passed u g]" by simp
      with more.hyps(2) show ?thesis by (auto dest: step_passed)
    next
      case (snoc ys' e')
      with more.prems e have "es = xs @ Passed u g # ys'" "e' = e" by simp_all
      with more.prems(2) snoc have "pastCode u g c" by (intro more.IH) auto
      then show ?thesis using more.prems(2) snoc e \<open>e' = e\<close> by (intro step_past [OF more.hyps(2)]) auto
    qed
  qed
qed simp

text \<open>C8: a code passes once. Whatever the requests in flight, two one-time passwords of somebody that passed are
  of later and later steps, so no step passes twice, and a backup code passes once, until the second factor is taken
  off, set up anew or the backup codes are renewed with that code among them.\<close>

theorem codes_once:
  assumes "authReach a es db" "es = xs @ Passed u g # ys @ Passed u g' # zs" "\<forall>e \<in> set ys. \<not> restarts u g e"
  shows "later g g'"
  using assms(1,2)
proof (induction arbitrary: zs rule: authReach.induct)
  case (more a es c out d)
  from step_one_event [OF more.hyps(2)] show ?case
  proof (elim disjE exE)
    assume "out = []"
    with more show ?thesis by simp
  next
    fix e
    assume e: "out = [e]"
    show ?thesis
    proof (cases zs rule: rev_cases)
      case Nil
      with more.prems e have "es = xs @ Passed u g # ys" "out = [Passed u g']" by simp_all
      with reach_past [OF more.hyps(1) this(1) assms(3)] more.hyps(2) show ?thesis by (auto dest: step_passed)
    next
      case (snoc zs' e')
      with more.prems e show ?thesis by (intro more.IH [of zs']) simp
    qed
  qed
qed simp


subsection \<open>A link is redeemed once\<close>

definition linkMove :: "OneTimeLink list \<Rightarrow> OneTimeLink list \<Rightarrow> bool" where
  "linkMove olds news \<longleftrightarrow> (\<forall>l \<in> set news.
     (\<exists>l0 \<in> set olds. ol_id l0 = ol_id l \<and> (ol_usedAt l0 \<noteq> None \<longrightarrow> ol_usedAt l \<noteq> None)) \<or> ol_id l \<notin> ol_id ` set olds)"

definition spentLinks :: "nat list \<Rightarrow> OneTimeLink list \<Rightarrow> bool" where
  "spentLinks used links \<longleftrightarrow>
     distinct used \<and> distinct (map ol_id links) \<and> (\<forall>l \<in> set links. ol_id l \<in> set used \<longrightarrow> ol_usedAt l \<noteq> None)"

lemma linkMove_simps [simp]:
  "linkMove ls ls" "linkMove ls (filter P ls)"
  "(\<And>l. ol_id (f l) = ol_id l) \<Longrightarrow> (\<And>l. ol_usedAt l \<noteq> None \<Longrightarrow> ol_usedAt (f l) \<noteq> None) \<Longrightarrow> linkMove ls (updateMany P f ls)"
  by (auto simp: linkMove_def updateMany_bounded)

lemma linkMove_add:
  assumes "linkMove ls ms" "distinct (map ol_id (ms @ [l]))" "map ol_id ms = map ol_id ls"
  shows "linkMove ls (ms @ [l])"
proof -
  have "ol_id l \<notin> ol_id ` set ls" using assms(2) unfolding map_append assms(3) by simp
  with assms(1) show ?thesis by (auto simp: linkMove_def)
qed

lemma spentLinks_move:
  assumes "spentLinks used olds" "linkMove olds news" "linksKept olds (set used) news"
  shows "spentLinks used news"
proof -
  have "ol_usedAt l \<noteq> None" if l: "l \<in> set news" "ol_id l \<in> set used" for l
  proof -
    have "ol_id l \<in> ol_id ` set olds" using assms(3) l by (auto simp: linksKept_def)
    with assms(2) l(1) obtain l0 where "l0 \<in> set olds" "ol_id l0 = ol_id l" "ol_usedAt l0 \<noteq> None \<longrightarrow> ol_usedAt l \<noteq> None"
      unfolding linkMove_def by blast
    with assms(1) l(2) show ?thesis by (simp add: spentLinks_def)
  qed
  with assms(1,3) show ?thesis by (simp add: spentLinks_def linksKept_def)
qed

lemma spentLinks_claim:
  assumes "spentLinks used olds" "r \<in> set olds" "P r" "ol_usedAt r = None" "\<And>l. P l \<Longrightarrow> ol_id l = i"
  shows "spentLinks (used @ [i]) (updateMany P (redeemed now) olds)"
proof -
  have r: "ol_id r = i" "i \<notin> set used" using assms by (auto simp: spentLinks_def)
  have "map ol_id (updateMany P (redeemed now) olds) = map ol_id olds" by (simp add: updateMany_keys redeemed_def)
  moreover have "l = r" if "l \<in> set olds" "ol_id l = i" for l
    using assms(1,2) that r(1) by (metis distinct_map inj_on_eq_iff spentLinks_def)
  ultimately show ?thesis using assms(1,3) r(2) unfolding spentLinks_def updateMany_bounded by (auto simp: redeemed_def)
qed

lemma closeLinks_move: "linkMove ls (updateMany P (\<lambda>l. l\<lparr>ol_expiresAt := now\<rparr>) ls)" by simp

lemma spentLinks_close: "spentLinks used ls \<Longrightarrow> spentLinks used (updateMany P (\<lambda>l. l\<lparr>ol_expiresAt := now\<rparr>) ls)"
  by (simp add: spentLinks_def updateMany_keys updateMany_bounded)

lemma spentLinks_redeem: "spentLinks used ls \<Longrightarrow> spentLinks used (updateMany P (redeemed now) ls)"
  by (simp add: spentLinks_def updateMany_keys updateMany_bounded redeemed_def)

lemma links_kept [simp]:
  "ad_setups (onGuards f db) = ad_setups db" "ad_setups (putPassword u h db) = ad_setups db" "ad_setups (cutAccess env us db) = ad_setups db"
  "ad_setups (fst (tellOwner env u i t db)) = ad_setups db" "ad_setups (revokeWhere now Q db) = ad_setups db"
  "ad_setups (makeRoom env u db) = ad_setups db" "ad_setups (fst (issue env user sid jti m db)) = ad_setups db"
  "ad_alarms (onGuards f db) = ad_alarms db" "ad_alarms (putPassword u h db) = ad_alarms db" "ad_alarms (cutAccess env us db) = ad_alarms db"
  "ad_alarms (fst (sendLink env u i t db)) = ad_alarms db" "ad_alarms (revokeWhere now Q db) = ad_alarms db"
  "ad_alarms (closeLinks now u db) = ad_alarms db"
  "ad_alarms (makeRoom env u db) = ad_alarms db" "ad_alarms (fst (issue env user sid jti m db)) = ad_alarms db"
  by (simp_all add: onGuards_def putPassword_def cutAccess_def closeLinks_def sendLink_def tellOwner_def revokeWhere_def makeRoom_def issue_def Let_def)

lemma sendLink_setups:
  assumes "distinct (map ol_id (ad_setups (fst (sendLink env u i t db))))"
  shows "linkMove (ad_setups db) (ad_setups (fst (sendLink env u i t db)))"
  using assms unfolding sendLink_def Let_def fst_conv closeLinks_def
  by (simp del: map_append, intro linkMove_add) (auto simp: updateMany_keys)

lemma tellOwner_alarms:
  assumes "distinct (map ol_id (ad_alarms (fst (tellOwner env u i t db))))"
  shows "linkMove (ad_alarms db) (ad_alarms (fst (tellOwner env u i t db)))"
  using assms unfolding tellOwner_def fst_conv by (simp del: map_append, intro linkMove_add) auto

lemma closed_links [simp]:
  "ad_setups (closeSession env sid c) = ad_setups c" "ad_alarms (closeSession env sid c) = ad_alarms c"
  "ad_setups (closeAll env u c) = ad_setups c" "ad_alarms (closeAll env u c) = ad_alarms c"
  "ad_setups (signOutDevice env sid c) = ad_setups c" "ad_alarms (signOutDevice env sid c) = ad_alarms c"
  by (simp_all add: closeSession_def closeAll_def signOutDevice_def Let_def)

lemma signIn_links: "signIn env b c email password address salt sid jti = (d, eff, r) \<Longrightarrow> ad_setups d = ad_setups c \<and> ad_alarms d = ad_alarms c"
  by (auto simp: signIn_def issue_def Let_def split: option.splits if_splits prod.splits)

lemma rotate_links: "rotate env b c claims jti = (d, r) \<Longrightarrow> ad_setups d = ad_setups c \<and> ad_alarms d = ad_alarms c"
  by (auto simp: rotate_def Let_def split: option.splits if_splits prod.splits)


lemma step_setups:
  assumes "authStep c out d" "spentLinks used (ad_setups c)" "linksKept (ad_setups c) (set used) (ad_setups d)"
  shows "spentLinks (used @ setupsUsed out) (ad_setups d)"
  using assms
proof (induction rule: authStep.induct)
  case (signed_in env b c email password address salt sid jti d eff r)
  then show ?case using signIn_links [OF signed_in(1)] by (simp split: sum.splits SignedIn.splits)
next
  case (opened env b c v sid jti d tokens)
  then have "ad_setups d = ad_setups c" by (auto simp: openSession_def bindR_eq_Inr issue_def makeRoom_def Let_def)
  with opened.prems show ?case by simp
next
  case (rotated env b c claims jti d r)
  then show ?case using rotate_links [OF rotated(1)] by (simp split: sum.splits)
next
  case (password_set env b c token password salt i alarm d eff l)
  from password_set(1) obtain l' user db1 where s: "redeemable env b (ad_setups b) token (Unauthorized ''SETUP_LINK_SPENT'') = Inr (l', user)"
    "commitPassword env l' (hashPassword (au_lib env) salt password) c = Inr db1" "ad_setups d = ad_setups db1"
    by (elim setPassword_Inr) simp
  have l: "l' = l" using redeemable_Inr(1) [OF s(1)] password_set(2) by simp
  from commitPassword_Inr(1) [OF s(2)] obtain r where r: "r \<in> set (ad_setups c)" "setupLive env l r" unfolding l by blast
  have "spentLinks (used @ [ol_id l]) (updateMany (setupLive env l) (redeemed (au_now env)) (ad_setups c))"
    by (rule spentLinks_claim [where P = "setupLive env l", OF password_set.prems(1) r]) (use r(2) in \<open>auto simp: setupLive_def\<close>)
  then have "spentLinks (used @ [ol_id l]) (ad_setups db1)"
    unfolding commitPassword_Inr(2) [OF s(2)] l by (simp add: closeLinks_def spentLinks_close)
  with s(3) show ?case by simp
next
  case (password_put env v i alarm hash c d eff)
  then have "d = fst (tellOwner env v i alarm (putNewPassword env v hash c))" by simp
  then show ?case using password_put.prems(1) by (simp add: putNewPassword_def closeLinks_def spentLinks_close)
next
  case (forgotten env b c email i link d eff)
  from mailForgotten_cases [OF forgotten(1)] show ?case
  proof (elim disjE exE)
    fix v assume "d = fst (sendLink env v i link c)"
    then show ?thesis using forgotten.prems by (auto simp: linksKept_def intro!: spentLinks_move [OF _ sendLink_setups])
  qed (use forgotten.prems in simp)
next
  case (alarm_raised env b c token i link d eff v l)
  then obtain l' e where a: "d = fst (sendLink env (ol_userId l') i link (cutAccess env [ol_userId l'] e))" "commitAlarm env l' c = Inr e"
    by (elim notMe_Inr) blast
  have "ad_setups (cutAccess env [ol_userId l'] e) = ad_setups c" unfolding commitAlarm_Inr(2) [OF a(2)] by simp
  with alarm_raised.prems show ?case unfolding a(1)
    by (auto simp: linksKept_def intro!: spentLinks_move [OF _ sendLink_setups])
next
  case (apart c d)
  then show ?case by (auto simp: aside_def intro: spentLinks_move)
qed (auto simp: reserveTry_def settleCode_def offerSecret_def keepOffer_def putCodes_def dropMfa_def advance_def spend_def claimWhere_def bindR_eq_Inr Let_def
    split: sum.splits option.splits TypedCode.splits if_splits prod.splits)


lemma step_alarms:
  assumes "authStep c out d" "spentLinks used (ad_alarms c)" "linksKept (ad_alarms c) (set used) (ad_alarms d)"
  shows "spentLinks (used @ alarmsUsed out) (ad_alarms d)"
  using assms
proof (induction rule: authStep.induct)
  case (signed_in env b c email password address salt sid jti d eff r)
  then show ?case using signIn_links [OF signed_in(1)] by (simp split: sum.splits SignedIn.splits)
next
  case (opened env b c v sid jti d tokens)
  then have "ad_alarms d = ad_alarms c" by (auto simp: openSession_def bindR_eq_Inr issue_def makeRoom_def Let_def)
  with opened.prems show ?case by simp
next
  case (rotated env b c claims jti d r)
  then show ?case using rotate_links [OF rotated(1)] by (simp split: sum.splits)
next
  case (password_set env b c token password salt i alarm d eff l)
  from password_set(1) obtain l' and user :: User and db1 where s: "commitPassword env l' (hashPassword (au_lib env) salt password) c = Inr db1"
    "d = fst (tellOwner env (us_id user) i alarm (cutAccess env [us_id user] (onGuards (clearLock (us_email user)) db1)))"
    by (elim setPassword_Inr) blast
  have "ad_alarms (cutAccess env [us_id user] (onGuards (clearLock (us_email user)) db1)) = ad_alarms c"
    unfolding commitPassword_Inr(2) [OF s(1)] by simp
  with password_set.prems show ?case unfolding s(2)
    by (auto simp: linksKept_def intro!: spentLinks_move [OF _ tellOwner_alarms])
next
  case (password_put env v i alarm hash c d eff)
  then have d: "d = fst (tellOwner env v i alarm (putNewPassword env v hash c))" by simp
  have "ad_alarms (putNewPassword env v hash c) = ad_alarms c" by (simp add: putNewPassword_def)
  with password_put.prems show ?case unfolding d
    by (auto simp: linksKept_def intro!: spentLinks_move [OF _ tellOwner_alarms])
next
  case (forgotten env b c email i link d eff)
  from mailForgotten_cases [OF forgotten(1)] have "ad_alarms d = ad_alarms c" by auto
  with forgotten.prems show ?case by simp
next
  case (alarm_raised env b c token i link d eff v l)
  from alarm_raised(1) obtain l' user e where a: "redeemable env b (ad_alarms b) token (Unauthorized ''ALARM_SPENT'') = Inr (l', user)"
    "commitAlarm env l' c = Inr e" "ad_alarms d = ad_alarms e"
    by (elim notMe_Inr) simp
  have l: "l' = l" using redeemable_Inr(1) [OF a(1)] alarm_raised(2) by simp
  from commitAlarm_Inr(1) [OF a(2)] obtain r where r: "r \<in> set (ad_alarms c)" "alarmLive l r" unfolding l by blast
  have "spentLinks (used @ [ol_id l]) (updateMany (alarmLive l) (redeemed (au_now env)) (ad_alarms c))"
    by (rule spentLinks_claim [where P = "alarmLive l", OF alarm_raised.prems(1) r]) (use r(2) in \<open>auto simp: alarmLive_def\<close>)
  then have "spentLinks (used @ [ol_id l]) (ad_alarms e)"
    unfolding commitAlarm_Inr(2) [OF a(2)] l by (simp add: spentLinks_redeem)
  with a(3) show ?case by simp
next
  case (apart c d)
  then show ?case by (auto simp: aside_def intro: spentLinks_move)
qed (auto simp: reserveTry_def settleCode_def offerSecret_def keepOffer_def putCodes_def dropMfa_def advance_def spend_def claimWhere_def bindR_eq_Inr Let_def
    split: sum.splits option.splits TypedCode.splits if_splits prod.splits)

lemma reach_links:
  "authReach a es d \<Longrightarrow> distinct (map ol_id (ad_setups a)) \<Longrightarrow> distinct (map ol_id (ad_alarms a))
    \<Longrightarrow> spentLinks (setupsUsed es) (ad_setups d) \<and> spentLinks (alarmsUsed es) (ad_alarms d)"
proof (induction rule: authReach.induct)
  case (more a es c out d)
  then show ?case using step_setups [OF more.hyps(2)] step_alarms [OF more.hyps(2)] by simp
qed (simp add: spentLinks_def)

text \<open>C19: a link of a letter works once. However many times it is opened at one moment, one request sets a password
  with a setup link, and one request raises the alarm of a changed password.\<close>

theorem links_once:
  assumes "authReach a es db" "distinct (map ol_id (ad_setups a))" "distinct (map ol_id (ad_alarms a))"
  shows "distinct (setupsUsed es) \<and> distinct (alarmsUsed es)"
  using reach_links [OF assms] by (simp add: spentLinks_def)

end
