(* ===== verification/SignInLaws.thy ===== *)
theory SignInLaws
  imports AuthLaws
begin

section \<open>What a new password and a lock promise\<close>

text \<open>
  The doors that give an account another password, the gate of the second factor on what is issued, and the
  two locks: on an email in Redis and on the row of the second factor.
\<close>

subsection \<open>A new password closes what the old one opened\<close>

inductive passwordDoor :: "AuthEnv \<Rightarrow> nat \<Rightarrow> string \<Rightarrow> AuthDb \<Rightarrow> bool" for env i where
  by_link: "setPassword env b c token password salt i alarm = Inr (d, eff) \<Longrightarrow> linkOf env (ad_setups b) token = Some l
    \<Longrightarrow> passwordDoor env i (ol_userId l) d"
| by_owner: "changePassword env meanwhile b c u current next' code address salt i alarm = (d, eff, Inr ()) \<Longrightarrow> passwordDoor env i u d"
| by_alarm: "notMe env b c token i link = Inr (d, eff, u) \<Longrightarrow> passwordDoor env i u d"

definition noSession :: "string \<Rightarrow> AuthDb \<Rightarrow> bool" where
  "noSession u db \<longleftrightarrow> (\<forall>s \<in> set (ad_sessions db). \<not> liveSession u s)"

definition cutNow :: "AuthEnv \<Rightarrow> string \<Rightarrow> AuthDb \<Rightarrow> bool" where
  "cutNow env u db \<longleftrightarrow> (gd_up (ad_guards db) \<longrightarrow> gd_accessCutoff (ad_guards db) u = Some (au_now env div 1000, au_now env + keepMs env))"

definition noLink :: "AuthEnv \<Rightarrow> nat \<Rightarrow> string \<Rightarrow> AuthDb \<Rightarrow> bool" where
  "noLink env i u db \<longleftrightarrow>
     (\<forall>l \<in> set (ad_setups db). ol_userId l = u \<and> ol_usedAt l = None \<and> ol_id l \<noteq> i \<longrightarrow> ol_expiresAt l \<le> au_now env)"

lemma cutNow_cut [simp]: "cutNow env u (cutAccess env [u] db)"
  by (simp add: cutNow_def cutAccess_def Let_def)

lemma cutNow_kept [simp]:
  "cutNow env u (fst (tellOwner env v i t db)) = cutNow env u db" "cutNow env u (fst (sendLink env v i t db)) = cutNow env u db"
  by (simp_all add: cutNow_def tellOwner_def sendLink_def closeLinks_def Let_def)

lemma noSession_revoked: "noSession u (revokeWhere now (\<lambda>s. se_userId s = u) db)"
  by (auto simp: noSession_def revokeWhere_def updateMany_bounded liveSession_def)

lemma noSession_same: "noSession u db \<Longrightarrow> ad_sessions db' = ad_sessions db \<Longrightarrow> noSession u db'"
  by (simp add: noSession_def)

lemma noLink_closed: "ad_setups db = updateMany (\<lambda>l. ol_userId l = u \<and> ol_usedAt l = None \<and> au_now env < ol_expiresAt l)
    (\<lambda>l. l\<lparr>ol_expiresAt := au_now env\<rparr>) links \<Longrightarrow> noLink env i u db"
  by (auto simp: noLink_def updateMany_bounded)

lemma noLink_sent: "noLink env i u (fst (sendLink env u i t db))"
  by (auto simp: noLink_def sendLink_def closeLinks_def updateMany_bounded newLink_def Let_def)

lemma door_shuts:
  assumes "passwordDoor env i u d"
  shows "noSession u d \<and> cutNow env u d \<and> noLink env i u d"
  using assms
proof cases
  case (by_link b c token password salt alarm eff l)
  from by_link(2) obtain l' and user :: User and db1 where s:
    "redeemable env b (ad_setups b) token (Unauthorized ''SETUP_LINK_SPENT'') = Inr (l', user)"
    "commitPassword env l' (hashPassword (au_lib env) salt password) c = Inr db1"
    "d = fst (tellOwner env (us_id user) i alarm (cutAccess env [us_id user] (onGuards (clearLock (us_email user)) db1)))"
    by (elim setPassword_Inr) blast
  have l: "l' = l" using redeemable_Inr(1) [OF s(1)] by_link(3) by simp
  have u: "us_id user = u" using redeemable_Inr(2) [OF s(1)] firstWhere_key by (fastforce simp: userOf_def l by_link(1))
  have "ad_sessions d = ad_sessions db1" "ad_setups d = ad_setups db1" unfolding s(3) by simp_all
  moreover have "noSession u db1" unfolding commitPassword_Inr(2) [OF s(2)] l by_link(1) by (rule noSession_revoked)
  moreover have "noLink env i u db1" unfolding commitPassword_Inr(2) [OF s(2)] l by_link(1)
    by (rule noLink_closed) (simp add: closeLinks_def)
  moreover have "cutNow env u d" unfolding s(3) u by simp
  ultimately show ?thesis by (auto simp: noLink_def intro: noSession_same)
next
  case (by_owner meanwhile b c current next' code address salt alarm eff)
  then obtain db1 where "d = fst (tellOwner env u i alarm (putNewPassword env u (hashPassword (au_lib env) salt next') db1))"
    by (auto simp: changePassword_def Let_def split_beta split: sum.splits if_splits)
  then show ?thesis
    by (auto simp: putNewPassword_def noSession_revoked closeLinks_def intro: noLink_closed noSession_same [OF noSession_revoked])
next
  case (by_alarm b c token link eff)
  from by_alarm obtain l db1 where a: "commitAlarm env l c = Inr db1" "u = ol_userId l"
    "d = fst (sendLink env u i link (cutAccess env [u] db1))" by (elim notMe_Inr) blast
  have "noSession u db1" unfolding commitAlarm_Inr(2) [OF a(1)] a(2) by (rule noSession_same [OF noSession_revoked]) simp
  then show ?thesis unfolding a(3) using noLink_sent by (auto intro: noSession_same)
qed

lemma cut_access:
  assumes "noSession u d" "cutNow env u d" "gd_up (ad_guards d)" "cl_sub claims = u" "iat \<le> au_now env div 1000"
    "now < au_now env + keepMs env" "\<forall>s \<in> set (ad_sessions d). se_id s = cl_sid claims \<longrightarrow> se_userId s = u"
  shows "accessCut (env\<lparr>au_now := now\<rparr>) d claims iat"
proof -
  have "se_revokedAt s \<noteq> None" if "firstWhere se_id (cl_sid claims) (ad_sessions d) = Some s" for s
    using firstWhere_key [OF that] assms(1,7) by (auto simp: noSession_def liveSession_def)
  moreover have "unexpired now (gd_accessCutoff (ad_guards d) u) = Some (au_now env div 1000)"
    using assms(2,3,6) by (simp add: cutNow_def unexpired_def)
  ultimately show ?thesis using assms(3,4,5) by (auto simp: accessCut_def Let_def split: option.splits)
qed

text \<open>C21: whichever door gives an account another password, the link of a letter, the owner, or the alarm of a
  changed password, no session of it is left open, no other link to set one is good, and every access token it held is
  refused for as long as it would have lived, while Redis is up to say so.\<close>

theorem password_change_cuts:
  assumes "passwordDoor env i u d"
  shows "(\<forall>s \<in> set (ad_sessions d). \<not> liveSession u s)
     \<and> (\<forall>l \<in> set (ad_setups d). ol_userId l = u \<and> ol_usedAt l = None \<and> ol_id l \<noteq> i \<longrightarrow> ol_expiresAt l \<le> au_now env)
     \<and> (gd_up (ad_guards d) \<longrightarrow> (\<forall>claims iat now. cl_sub claims = u \<and> iat \<le> au_now env div 1000 \<and> now < au_now env + keepMs env
          \<and> (\<forall>s \<in> set (ad_sessions d). se_id s = cl_sid claims \<longrightarrow> se_userId s = u)
          \<longrightarrow> validate (env\<lparr>au_now := now\<rparr>) d claims iat = Inl (Unauthorized ''SESSION_CLOSED'')))"
proof -
  note shut = door_shuts [OF assms]
  then have "validate (env\<lparr>au_now := now\<rparr>) d claims iat = Inl (Unauthorized ''SESSION_CLOSED'')"
    if "gd_up (ad_guards d)" "cl_sub claims = u" "iat \<le> au_now env div 1000" "now < au_now env + keepMs env"
      "\<forall>s \<in> set (ad_sessions d). se_id s = cl_sid claims \<longrightarrow> se_userId s = u" for claims iat now
    using cut_access [of u d env claims iat now] that by (simp add: validate_def refuse_def)
  with shut show ?thesis unfolding noSession_def noLink_def by blast
qed



text \<open>What the handlers do not promise: a sign-in checks the password on a read of the account and writes later, without a
  look at whether the password is still that one. Whatever closed the account's sessions in between, \<open>d\<close> below being any
  state, it opens a session, and the rehash puts the old password back over the one set meanwhile.\<close>

lemma old_password_survives:
  assumes "\<not> addressSpent env (ad_guards b) address" "\<not> lockedFor env (ad_guards b) email"
    "Option.bind (accountIdOf b email) (userOf b) = Some u" "verifyPassword (au_lib env) password (Some (us_passwordHash u))"
    "us_active u" "needsRehash (au_lib env) (us_passwordHash u)" "\<not> requiredMfa env (us_role u)"
  obtains d' tokens where "signIn env b d email password address salt sid jti = (d', [], Inr (InSession tokens))"
    "\<not> noSession (us_id u) d'"
    "\<forall>r \<in> set (ad_users d'). us_id r = us_id u \<longrightarrow> us_passwordHash r = hashPassword (au_lib env) salt password"
proof -
  let ?put = "putPassword (us_id u) (hashPassword (au_lib env) salt password) (onGuards (clearLock email) d)"
  let ?i = "issue env u sid jti None (makeRoom env (us_id u) ?put)"
  have "signIn env b d email password address salt sid jti = (fst ?i, [], Inr (InSession (snd ?i)))"
    using assms by (simp add: signIn_def Let_def split_beta)
  moreover have "\<not> noSession (us_id u) (fst ?i)" by (simp add: issue_def noSession_def newSession_def liveSession_def)
  moreover have "ad_users (fst ?i) = ad_users ?put" by (simp add: issue_def makeRoom_def Let_def)
  ultimately show thesis using that by (simp add: putPassword_def updateMany_bounded)
qed

subsection \<open>What is issued carries the second factor\<close>

inductive issues :: "AuthEnv \<Rightarrow> IssuedTokens \<Rightarrow> bool" for env where
  "signIn env b c email password address salt sid jti = (d, eff, Inr (InSession tokens)) \<Longrightarrow> issues env tokens"
| "openSession env b c u sid jti = Inr (d, tokens) \<Longrightarrow> issues env tokens"
| "rotate env b c claims jti = (d, Inr tokens) \<Longrightarrow> issues env tokens"

lemma signTokens_access [simp]:
  "cl_role (it_access (signTokens db user sid jti m)) = us_role user" "cl_mfa (it_access (signTokens db user sid jti m)) = m"
  by (simp_all add: signTokens_def Let_def)


subsection \<open>The lock on an email\<close>

text \<open>A run of misses, each at its time, with the spelling typed and the address it came from.\<close>

fun missAll :: "AuthEnv \<Rightarrow> (instant \<times> string \<times> string option \<times> string) list \<Rightarrow> Guards \<Rightarrow> Guards" where
  "missAll env [] g = g"
| "missAll env ((now, email, userId, address) # ms) g = missAll env ms (fst (missed (env\<lparr>au_now := now\<rparr>) email userId address g))"

definition counted :: "string \<Rightarrow> nat \<Rightarrow> instant \<Rightarrow> Guards \<Rightarrow> bool" where
  "counted key n until g \<longleftrightarrow> gd_up g \<and> gd_loginMisses g key = Some (n, until)"

lemma missed_counts:
  assumes "counted key n until g" "normalEmail email = key" "au_now env < until"
  shows "n + 1 < au_loginLockAfter env \<Longrightarrow> counted key (n + 1) until (fst (missed env email u a g))"
    "n + 1 \<ge> au_loginLockAfter env \<Longrightarrow> gd_loginLock (fst (missed env email u a g)) key = Some (au_now env + windowMs env)
       \<and> gd_up (fst (missed env email u a g))"
  using assms by (auto simp: missed_def counted_def countUp_def Let_def)

lemma missed_first:
  assumes "gd_up g" "unexpired (au_now env) (gd_loginMisses g key) = None" "normalEmail email = key"
  shows "1 < au_loginLockAfter env \<Longrightarrow> counted key 1 (au_now env + windowMs env) (fst (missed env email u a g))"
    "1 \<ge> au_loginLockAfter env \<Longrightarrow> gd_loginLock (fst (missed env email u a g)) key = Some (au_now env + windowMs env)
       \<and> gd_up (fst (missed env email u a g))"
  using assms by (auto simp: missed_def counted_def countUp_def unexpired_def Let_def split: option.splits if_splits)

lemma windowMs_now [simp]: "windowMs (env\<lparr>au_now := now\<rparr>) = windowMs env"
  by (simp add: windowMs_def)

lemma missAll_locks:
  "ms \<noteq> [] \<Longrightarrow> counted key n until g \<Longrightarrow> \<forall>(now, email, _) \<in> set ms. normalEmail email = key \<and> now < until
    \<Longrightarrow> n + length ms = au_loginLockAfter env
    \<Longrightarrow> gd_up (missAll env ms g) \<and> gd_loginLock (missAll env ms g) key = Some (fst (last ms) + windowMs env)"
proof (induction ms arbitrary: n g)
  case (Cons m ms)
  obtain now email u a where m: "m = (now, email, u, a)" by (cases m)
  let ?env = "env\<lparr>au_now := now\<rparr>"
  show ?case
  proof (cases "ms = []")
    case True
    with Cons.prems show ?thesis using missed_counts(2) [of key n until g email ?env u a] by (simp add: m)
  next
    case False
    then have "n + 1 < au_loginLockAfter env" using Cons.prems(4) by (cases ms) auto
    then have "counted key (n + 1) until (fst (missed ?env email u a g))"
      using Cons.prems by (intro missed_counts(1)) (auto simp: m)
    from Cons.IH [OF False this] Cons.prems False show ?thesis by (simp add: m)
  qed
qed simp

text \<open>The lock on an email counts the account, not how it is spelt and not where it is tried from. With Redis up
  and no miss counted yet, as many misses as the limit within one window shut the email, under every spelling, to any
  password, the right one included, until a window after the last of them.\<close>

theorem email_locked:
  assumes "gd_up g" "unexpired (fst (hd ms)) (gd_loginMisses g key) = None" "ms \<noteq> []" "length ms = au_loginLockAfter env"
    "\<forall>(now, email, _) \<in> set ms. normalEmail email = key \<and> now < fst (hd ms) + windowMs env"
    "ad_guards b = missAll env ms g" "now < fst (last ms) + windowMs env" "normalEmail email = key"
  shows "\<exists>why \<in> {''RATE_LIMITED'', ''AUTH_LOCKED''}.
    signIn (env\<lparr>au_now := now\<rparr>) b c email password address salt sid jti = (c, [], Inl (TooManyRequests why))"
proof -
  obtain t e u a ms' where ms: "ms = (t, e, u, a) # ms'" using assms(3) by (cases ms) auto
  let ?env = "env\<lparr>au_now := t\<rparr>"
  have e: "normalEmail e = key" using assms(5) by (simp add: ms)
  have "gd_up (missAll env ms g) \<and> gd_loginLock (missAll env ms g) key = Some (fst (last ms) + windowMs env)"
  proof (cases "ms' = []")
    case True
    with missed_first(2) [of g ?env key e u a] assms e show ?thesis by (simp add: ms)
  next
    case False
    then have "1 < au_loginLockAfter env" using assms(4) by (cases ms') (auto simp: ms)
    then have "counted key 1 (t + windowMs env) (fst (missed ?env e u a g))"
      using missed_first(1) [of g ?env key e u a] assms(1,2) e by (simp add: ms)
    from missAll_locks [OF False this] assms(4,5) False show ?thesis by (simp add: ms)
  qed
  then have "lockedFor (env\<lparr>au_now := now\<rparr>) (ad_guards b) email"
    using assms(6,7,8) by (simp add: lockedFor_def)
  then show ?thesis by (simp add: signIn_def)
qed


subsection \<open>The lock on the second factor\<close>

text \<open>The instants at which a guess was let through, of all the instants one was made, when none is right.\<close>

fun letThrough :: "AuthEnv \<Rightarrow> string \<Rightarrow> instant list \<Rightarrow> AuthDb \<Rightarrow> instant list" where
  "letThrough env u [] db = []"
| "letThrough env u (now # ts) db =
     (case reserveTry (env\<lparr>au_now := now\<rparr>) u db of
        Inl _ \<Rightarrow> letThrough env u ts db
      | Inr (db', armed) \<Rightarrow> now # letThrough env u ts db')"

lemma reserveTry_row:
  assumes "distinct (map mf_userId (ad_mfa db))" "mfaOf db u = Some m"
  shows "\<not> mayTry env m \<Longrightarrow> reserveTry env u db = Inl (TooManyRequests ''MFA_LOCKED'')"
    "mayTry env m \<Longrightarrow> \<exists>db'. reserveTry env u db = Inr (db', mf_lockedUntil (tried env m) \<noteq> None)
       \<and> distinct (map mf_userId (ad_mfa db')) \<and> mfaOf db' u = Some (tried env m)"
proof -
  have m: "m \<in> set (ad_mfa db)" "mf_userId m = u" using assms(2) firstWhere_key by (fastforce simp: mfaOf_def)+
  have key: "mf_userId (tried env x) = mf_userId x" for x by (simp add: tried_def)
  have one: "x = m" if "x \<in> set (ad_mfa db)" "mf_userId x = u" for x
    using assms(1) m that by (metis distinct_map inj_on_eq_iff)
  {
    assume "\<not> mayTry env m"
    with one have "filter (\<lambda>x. mf_userId x = u \<and> mayTry env x) (ad_mfa db) = []" by (auto simp: filter_empty_conv)
    then show "reserveTry env u db = Inl (TooManyRequests ''MFA_LOCKED'')"
      by (simp add: reserveTry_def claimWhere_def refuse_def bindR_def)
  next
    let ?P = "\<lambda>x. mf_userId x = u \<and> mayTry env x"
    let ?db = "db\<lparr>ad_mfa := updateMany ?P (tried env) (ad_mfa db)\<rparr>"
    assume may: "mayTry env m"
    with m have "filter ?P (ad_mfa db) \<noteq> []" by (auto simp: filter_empty_conv)
    moreover have row: "mfaOf ?db u = Some (tried env m)" using assms(2) may m(2)
      by (simp add: mfaOf_def firstWhere_updateMany key)
    ultimately have "reserveTry env u db = Inr (?db, mf_lockedUntil (tried env m) \<noteq> None)"
      by (simp add: reserveTry_def claimWhere_def refuse_def bindR_def Let_def)
    moreover have "distinct (map mf_userId (ad_mfa ?db))" using assms(1) by (simp add: updateMany_keys key)
    ultimately show "\<exists>db'. reserveTry env u db = Inr (db', mf_lockedUntil (tried env m) \<noteq> None)
       \<and> distinct (map mf_userId (ad_mfa db')) \<and> mfaOf db' u = Some (tried env m)" using row by blast
  }
qed

definition lockMs :: "AuthEnv \<Rightarrow> int" where
  "lockMs env = au_mfaLockMinutes env * 60000"

lemma letThrough_later: "t \<in> set (letThrough env u ts db) \<Longrightarrow> t \<in> set ts"
  by (induction ts arbitrary: db) (auto split: sum.splits)

text \<open>With \<open>j\<close> guesses left ahead of the lock, or the lock on, what comes after them comes after the lock.\<close>

lemma letThrough_waits:
  "sorted ts \<Longrightarrow> \<forall>t \<in> set ts. t0 \<le> t \<Longrightarrow> distinct (map mf_userId (ad_mfa db)) \<Longrightarrow> mfaOf db u = Some m
    \<Longrightarrow> (case mf_lockedUntil m of Some until \<Rightarrow> t0 + lockMs env \<le> until | None \<Rightarrow> au_mfaLockAfter env \<le> mf_misses m + j)
    \<Longrightarrow> j \<le> k \<Longrightarrow> 1 \<le> k \<or> mf_lockedUntil m \<noteq> None
    \<Longrightarrow> k < length (letThrough env u ts db) \<Longrightarrow> t0 + lockMs env \<le> letThrough env u ts db ! k"
proof (induction ts arbitrary: db m j k)
  case (Cons t ts)
  let ?env = "env\<lparr>au_now := t\<rparr>"
  show ?case
  proof (cases "mayTry ?env m")
    case False
    with reserveTry_row(1) [OF Cons.prems(3,4)] have "letThrough env u (t # ts) db = letThrough env u ts db" by simp
    with Cons.prems show ?thesis by (intro Cons.IH [of db m j k, THEN order_trans]) simp_all
  next
    case True
    with reserveTry_row(2) [OF Cons.prems(3,4) True] obtain db' where
      r: "reserveTry ?env u db = Inr (db', mf_lockedUntil (tried ?env m) \<noteq> None)"
        "distinct (map mf_userId (ad_mfa db'))" "mfaOf db' u = Some (tried ?env m)" by blast
    then have l: "letThrough env u (t # ts) db = t # letThrough env u ts db'" by simp
    show ?thesis
    proof (cases "mf_lockedUntil m")
      case (Some until)
      then have "t0 + lockMs env \<le> t" using True Cons.prems(5) by (simp add: mayTry_def)
      moreover have "\<forall>x \<in> set (letThrough env u (t # ts) db). t \<le> x"
        using letThrough_later [of _ env u "t # ts" db] Cons.prems(1) by fastforce
      ultimately show ?thesis using Cons.prems(8) by (meson nth_mem order_trans)
    next
      case None
      then obtain k' where k: "k = Suc k'" using Cons.prems(7) by (cases k) auto
      have "t0 + lockMs env \<le> letThrough env u ts db' ! k'"
        by (rule Cons.IH [OF _ _ r(2,3), of "j - 1"])
          (use Cons.prems None k l in \<open>auto simp: tried_def freshMisses_def lockMs_def\<close>)
      then show ?thesis unfolding l k by simp
    qed
  qed
qed simp


text \<open>C20: a second factor cannot be guessed faster than its lock lets. Whatever instants guesses are made at, one by
  one or all at once, of those let through any two that are as many apart as the limit are a lock apart.\<close>

theorem guesses_slowed:
  assumes "sorted ts" "distinct (map mf_userId (ad_mfa db))" "mfaOf db u = Some m" "0 < au_mfaLockAfter env"
    "i + au_mfaLockAfter env < length (letThrough env u ts db)"
  shows "letThrough env u ts db ! i + au_mfaLockMinutes env * 60000 \<le> letThrough env u ts db ! (i + au_mfaLockAfter env)"
  using assms
proof (induction ts arbitrary: db m i)
  case (Cons t ts)
  let ?env = "env\<lparr>au_now := t\<rparr>"
  show ?case
  proof (cases "mayTry ?env m")
    case False
    with reserveTry_row(1) [OF Cons.prems(2,3)] have "letThrough env u (t # ts) db = letThrough env u ts db" by simp
    with Cons.prems show ?thesis using Cons.IH [of db m i] by simp
  next
    case True
    with reserveTry_row(2) [OF Cons.prems(2,3) True] obtain db' where
      r: "reserveTry ?env u db = Inr (db', mf_lockedUntil (tried ?env m) \<noteq> None)"
        "distinct (map mf_userId (ad_mfa db'))" "mfaOf db' u = Some (tried ?env m)" by blast
    then have l: "letThrough env u (t # ts) db = t # letThrough env u ts db'" by simp
    obtain n where n: "au_mfaLockAfter env = Suc n" using Cons.prems(4) by (cases "au_mfaLockAfter env") auto
    show ?thesis
    proof (cases i)
      case 0
      have "t + lockMs env \<le> letThrough env u ts db' ! n"
        by (rule letThrough_waits [OF _ _ r(2,3), where j = n])
          (use Cons.prems 0 l n in \<open>auto simp: tried_def freshMisses_def lockMs_def\<close>)
      then show ?thesis unfolding l 0 n by (simp add: lockMs_def)
    next
      case (Suc i')
      have "letThrough env u ts db' ! i' + au_mfaLockMinutes env * 60000 \<le> letThrough env u ts db' ! (i' + au_mfaLockAfter env)"
        by (rule Cons.IH [OF _ r(2,3)]) (use Cons.prems Suc l in auto)
      then show ?thesis unfolding l Suc by simp
    qed
  qed
qed simp


subsection \<open>A worked account\<close>

definition paperLib :: CryptoLib where
  "paperLib = \<lparr>cl_base64 = map (\<lambda>b. char_of (unat b)), cl_fromBase64 = map (\<lambda>c. of_nat (of_char c)),
     cl_derive = (\<lambda>p s n c. map (\<lambda>x. of_nat (of_char x)) p), cl_common = (\<lambda>t. False), cl_bare = id\<rparr>"

definition paperEnv :: AuthEnv where
  "paperEnv = \<lparr>au_now = 1000000, au_lib = paperLib, au_fingerprint = id, au_backupHash = (\<lambda>u c. c), au_hmac = (\<lambda>_ c. replicate 20 (ucast c)),
     au_mfaRoles = {ADMIN}, au_mfaKey = True, au_mfaLockAfter = 2, au_mfaLockMinutes = 15, au_challengeMinutes = 5,
     au_loginLockAfter = 2, au_loginLockMinutes = 15, au_ipMisses = 100, au_forgotPerHour = 3, au_sessionsPerUser = 5,
     au_refreshTtlMs = 1000000, au_accessTtlMs = 900000, au_resetMinutes = 60, au_alarmHours = 24\<rparr>"

definition openGuards :: Guards where
  "openGuards = \<lparr>gd_up = True, gd_loginMisses = (\<lambda>_. None), gd_loginLock = (\<lambda>_. None), gd_addressMisses = (\<lambda>_. None),
     gd_recipientLinks = (\<lambda>_. None), gd_accessCutoff = (\<lambda>_. None), gd_sessionCut = (\<lambda>_. None), gd_docsPass = (\<lambda>_. None),
     gd_docsSession = (\<lambda>_. None)\<rparr>"

definition paperUser :: User where
  "paperUser = \<lparr>us_id = ''u'', us_email = ''an@kiosk.vn'', us_passwordHash = ''scrypt$A$secret'', us_role = EMPLOYEE, us_employeeId = Some 7,
     us_fullName = None, us_code = None, us_active = True, us_entities = []\<rparr>"

definition paperDb :: AuthDb where
  "paperDb = \<lparr>ad_users = [paperUser],
     ad_sessions = [\<lparr>se_id = ''s'', se_userId = ''u'', se_tokenHash = ''j1'', se_lastSeenAt = 0, se_expiresAt = 2000000, se_revokedAt = None, se_mfaAt = None\<rparr>],
     ad_setups = [newLink 1 ''u'' ''link'' 2000000], ad_alarms = [newLink 2 ''u'' ''alarm'' 2000000],
     ad_mfa = [(blankMfa ''u'')\<lparr>mf_secret := Some [1], mf_backupCodes := [''23456789ab'', ''3456789abc'']\<rparr>],
     ad_devices = [], ad_guards = openGuards\<rparr>"

definition traded :: "string \<Rightarrow> string \<Rightarrow> AuthDb \<Rightarrow> AuthDb" where
  "traded old new db = fst (rotate paperEnv db db \<lparr>rc_sub = ''u'', rc_sid = ''s'', rc_jti = old\<rparr> new)"

lemma one_step:
  "authStep a out d \<Longrightarrow> \<forall>e \<in> set out. freshHash e (tokenHashes a) \<Longrightarrow> linksKept (ad_setups a) {} (ad_setups d)
    \<Longrightarrow> linksKept (ad_alarms a) {} (ad_alarms d) \<Longrightarrow> authReach a out d"
  using authReach.more [OF authReach.start, of a out d] by simp

lemma paper_trade: "authReach paperDb [Traded ''s'' ''j1'' ''j2''] (traded ''j1'' ''j2'' paperDb)"
proof (rule one_step)
  have "rotate paperEnv paperDb paperDb \<lparr>rc_sub = ''u'', rc_sid = ''s'', rc_jti = ''j1''\<rparr> ''j2''
      = (traded ''j1'' ''j2'' paperDb, Inr (signTokens paperDb paperUser ''s'' ''j2'' False))"
    by (rule prod_eqI) (simp add: traded_def, code_simp)
  from rotated [OF this] show "authStep paperDb [Traded ''s'' ''j1'' ''j2''] (traded ''j1'' ''j2'' paperDb)"
    by (simp add: paperEnv_def)
qed (simp add: freshHash_def tokenHashes_def paperDb_def, code_simp+)

theorem refresh_once_witness:
  "authReach paperDb [Traded ''s'' ''j1'' ''j2''] (traded ''j1'' ''j2'' paperDb)
     \<and> ''j1'' \<notin> se_tokenHash ` set (ad_sessions (traded ''j1'' ''j2'' paperDb))"
proof -
  have "distinct (map se_tokenHash (ad_sessions paperDb))" by code_simp
  from refresh_once [OF paper_trade this] paper_trade show ?thesis by auto
qed

definition spent :: "string \<Rightarrow> AuthDb \<Rightarrow> AuthDb" where
  "spent code db = fst (settleCode paperEnv ''u'' [1] code False db)"

lemma paper_code:
  assumes "settleCode paperEnv ''u'' [1] code False c = (d, eff, Inr g)"
  shows "authStep c [Passed ''u'' g] d"
  using code_settled [OF assms] by simp

lemma paper_codes:
  "authReach paperDb ([] @ Passed ''u'' (GivenBackup ''23456789ab'') # [] @ Passed ''u'' (GivenBackup ''3456789abc'') # [])
     (spent ''3456789abc'' (spent ''23456789ab'' paperDb))"
proof -
  let ?first = "spent ''23456789ab'' paperDb"
  have "snd (snd (settleCode paperEnv ''u'' [1] ''23456789ab'' False paperDb)) = Inr (GivenBackup ''23456789ab'')"
    "snd (snd (settleCode paperEnv ''u'' [1] ''3456789abc'' False ?first)) = Inr (GivenBackup ''3456789abc'')" by code_simp+
  then have s: "authStep paperDb [Passed ''u'' (GivenBackup ''23456789ab'')] ?first"
    "authStep ?first [Passed ''u'' (GivenBackup ''3456789abc'')] (spent ''3456789abc'' ?first)"
    by (auto simp: spent_def intro!: paper_code [where eff = "fst (snd (settleCode paperEnv ''u'' [1] _ False _))"] prod_eqI)
  have a: "authReach paperDb [Passed ''u'' (GivenBackup ''23456789ab'')] ?first"
    by (rule one_step [OF s(1)]) (simp add: freshHash_def, code_simp+)
  have "linksKept (ad_setups ?first) {} (ad_setups (spent ''3456789abc'' ?first))" "linksKept (ad_alarms ?first) {} (ad_alarms (spent ''3456789abc'' ?first))"
    by code_simp+
  then show ?thesis using authReach.more [OF a s(2)] by (simp add: freshHash_def)
qed

theorem codes_once_witness: "later (GivenBackup ''23456789ab'') (GivenBackup ''3456789abc'')"
  using codes_once [OF paper_codes refl] by simp

definition alarmed :: AuthDb where
  "alarmed = fst (projr (notMe paperEnv paperDb paperDb ''alarm'' 3 ''x''))"

lemma paper_alarm: "notMe paperEnv paperDb paperDb ''alarm'' 3 ''x'' = Inr (alarmed, [Enqueued ''PASSWORD_SETUP'' ''u''], ''u'')"
proof -
  have "\<not> isl (notMe paperEnv paperDb paperDb ''alarm'' 3 ''x'')"
    "snd (projr (notMe paperEnv paperDb paperDb ''alarm'' 3 ''x'')) = ([Enqueued ''PASSWORD_SETUP'' ''u''], ''u'')" by code_simp+
  then show ?thesis by (metis alarmed_def prod.collapse sum.collapse(2))
qed

theorem links_once_witness:
  "\<exists>es. authReach paperDb es alarmed \<and> alarmsUsed es = [2] \<and> distinct (setupsUsed es) \<and> distinct (alarmsUsed es)"
proof -
  have "linkOf paperEnv (ad_alarms paperDb) ''alarm'' = Some (newLink 2 ''u'' ''alarm'' 2000000)" by code_simp
  from alarm_raised [OF paper_alarm this] have s: "authStep paperDb [AlarmUsed 2] alarmed" by (simp add: newLink_def)
  have r: "authReach paperDb [AlarmUsed 2] alarmed" by (rule one_step [OF s]) (simp add: freshHash_def, code_simp+)
  have "distinct (map ol_id (ad_setups paperDb))" "distinct (map ol_id (ad_alarms paperDb))" by code_simp+
  from links_once [OF r this] r show ?thesis by (auto intro!: exI [of _ "[AlarmUsed 2]"])
qed

theorem password_change_cuts_witness: "noSession ''u'' alarmed \<and> gd_up (ad_guards alarmed)
    \<and> validate (paperEnv\<lparr>au_now := 1500000\<rparr>) alarmed
        \<lparr>cl_sub = ''u'', cl_role = EMPLOYEE, cl_sid = ''s'', cl_mfa = False, cl_employeeId = None, cl_ent = None\<rparr> 900
      = Inl (Unauthorized ''SESSION_CLOSED'')"
proof -
  have d: "passwordDoor paperEnv 3 ''u'' alarmed" by (rule by_alarm [OF paper_alarm])
  have up: "gd_up (ad_guards alarmed)" "\<forall>s \<in> set (ad_sessions alarmed). se_userId s = ''u''"
    "900 \<le> au_now paperEnv div 1000" "1500000 < au_now paperEnv + keepMs paperEnv" by code_simp+
  show ?thesis using password_change_cuts [OF d] up by (simp add: noSession_def)
qed



theorem email_locked_witness:
  "let ms = [(0, ''an@kiosk.vn'', None, ''1.2.3.4''), (1000, '' AN@kiosk.vn '', Some ''u'', ''5.6.7.8'')];
       b = paperDb\<lparr>ad_guards := missAll paperEnv ms openGuards\<rparr>
   in \<exists>why \<in> {''RATE_LIMITED'', ''AUTH_LOCKED''}. signIn (paperEnv\<lparr>au_now := 800000\<rparr>) b paperDb ''An@Kiosk.vn'' ''secret'' ''9.9.9.9'' [] ''s2'' ''j9''
        = (paperDb, [], Inl (TooManyRequests why))"
proof -
  let ?ms = "[(0, ''an@kiosk.vn'', None, ''1.2.3.4''), (1000, '' AN@kiosk.vn '', Some ''u'', ''5.6.7.8'')]"
  have "normalEmail ''an@kiosk.vn'' = ''an@kiosk.vn''" "normalEmail '' AN@kiosk.vn '' = ''an@kiosk.vn''"
    "normalEmail ''An@Kiosk.vn'' = ''an@kiosk.vn''" "windowMs paperEnv = 900000" "au_loginLockAfter paperEnv = 2" by code_simp+
  then show ?thesis unfolding Let_def
    by (intro email_locked [where ms = ?ms and g = openGuards and key = "''an@kiosk.vn''"]) (simp_all add: openGuards_def unexpired_def)
qed

theorem guesses_slowed_witness:
  "letThrough paperEnv ''u'' [0, 1000, 2000, 3000, 901000, 902000] paperDb = [0, 1000, 901000, 902000]
     \<and> [0, 1000, 901000, 902000] ! 0 + 15 * 60000 \<le> ([0, 1000, 901000, 902000] :: int list) ! 2"
proof -
  let ?l = "letThrough paperEnv ''u'' [0, 1000, 2000, 3000, 901000, 902000] paperDb"
  have l: "?l = [0, 1000, 901000, 902000]" by code_simp
  have m: "\<exists>m. mfaOf paperDb ''u'' = Some m" by (simp add: paperDb_def mfaOf_def firstWhere_def blankMfa_def)
  have "distinct (map mf_userId (ad_mfa paperDb))" "au_mfaLockAfter paperEnv = 2" "au_mfaLockMinutes paperEnv = 15" by code_simp+
  with m guesses_slowed [of "[0, 1000, 2000, 3000, 901000, 902000]" paperDb "''u''" _ paperEnv 0] l show ?thesis by auto
qed

end
