(* ===== verification/Assets.thy ===== *)
theory Assets
  imports Scope
begin

section \<open>Company assets\<close>

text \<open>
  \<open>backend/src/modules/assets/assets.service.ts\<close>: the register and the hand-overs. The row of an asset says who
  holds it, the transfers say how it came to that; a hand-over writes both. Reads for screens and exports are left out.
\<close>

datatype AssetState = IN_STOCK | ISSUED | RETURNED | RETIRED | LOST

datatype AssetCondition = AC_NEW | AC_GOOD | AC_WORN | AC_DAMAGED

record Asset =
  as_id :: string
  as_code :: string
  as_name :: string
  as_kind :: string
  as_serialNo :: "string option"
  as_note :: "string option"
  as_state :: AssetState
  as_holderId :: "int option"

record AssetTransfer =
  tr_assetId :: string
  tr_employeeId :: int
  tr_issued :: bool
  tr_condition :: AssetCondition
  tr_note :: "string option"
  tr_byUserId :: string

record AssetsDb =
  asd_assets :: "Asset list"
  asd_transfers :: "AssetTransfer list"
  asd_people :: "Person list"

definition assetNamed :: "AssetsDb \<Rightarrow> string \<Rightarrow> Asset option" where
  "assetNamed db i = firstWhere as_id i (asd_assets db)"

definition reachesHolder :: "Viewer \<Rightarrow> AssetsDb \<Rightarrow> int \<Rightarrow> bool" where
  "reachesHolder v db e = reaches (asd_people db) v (visibleEmployeeIds (asd_people db) v) e"

definition requireAsset :: "Viewer \<Rightarrow> AssetsDb \<Rightarrow> string \<Rightarrow> Asset result" where
  "requireAsset v db i =
     (case assetNamed db i of
        None \<Rightarrow> Inl (NotFound ''ASSET_NOT_FOUND'')
      | Some a \<Rightarrow>
          (case as_holderId a of
             None \<Rightarrow> Inr a
           | Some e \<Rightarrow> if reachesHolder v db e then Inr a else Inl (NotFound ''ASSET_NOT_FOUND'')))"

record CreateAsset =
  ca_code :: string
  ca_name :: string
  ca_kind :: string
  ca_serialNo :: "string option"

definition createAsset :: "Viewer \<Rightarrow> AssetsDb \<Rightarrow> string \<Rightarrow> CreateAsset \<Rightarrow> (AssetsDb \<times> effect list) result" where
  "createAsset v db i body =
     bindR (refuse (ca_code body \<in> as_code ` set (asd_assets db)) (Conflict ''ASSET_CODE_TAKEN'')) (\<lambda>_.
       Inr (db\<lparr>asd_assets := asd_assets db @ [\<lparr>as_id = i, as_code = ca_code body, as_name = ca_name body, as_kind = ca_kind body,
                as_serialNo = ca_serialNo body, as_note = None, as_state = IN_STOCK, as_holderId = None\<rparr>]\<rparr>,
            [Audited (v_userId v) ''ASSET_CREATE'' (ca_code body)]))"

text \<open>An absent field of the body is left as it is; a nullable one may be set to null.\<close>

record UpdateAsset =
  ua_name :: "string option"
  ua_kind :: "string option"
  ua_serialNo :: "string option option"
  ua_note :: "string option option"

definition described :: "UpdateAsset \<Rightarrow> Asset \<Rightarrow> Asset" where
  "described body a =
     a\<lparr>as_name := orElse (ua_name body) (as_name a), as_kind := orElse (ua_kind body) (as_kind a),
       as_serialNo := orElse (ua_serialNo body) (as_serialNo a), as_note := orElse (ua_note body) (as_note a)\<rparr>"

definition updateAsset :: "Viewer \<Rightarrow> AssetsDb \<Rightarrow> AssetsDb \<Rightarrow> string \<Rightarrow> UpdateAsset \<Rightarrow> (AssetsDb \<times> effect list) result" where
  "updateAsset v db0 db i body =
     bindR (requireAsset v db0 i) (\<lambda>held.
     bindR (refuse (assetNamed db i = None) (NotFound ''ASSET_NOT_FOUND'')) (\<lambda>_.
       Inr (db\<lparr>asd_assets := updateMany (\<lambda>a. as_id a = i) (described body) (asd_assets db)\<rparr>,
            [Audited (v_userId v) ''ASSET_UPDATE'' (as_code held)])))"

record HandOver =
  ho_employeeId :: int
  ho_issued :: bool
  ho_condition :: "AssetCondition option"
  ho_note :: "string option"

definition mayMove :: "HandOver \<Rightarrow> string \<Rightarrow> Asset \<Rightarrow> bool" where
  "mayMove body i a \<longleftrightarrow> as_id a = i
     \<and> (if ho_issued body then as_state a \<noteq> ISSUED else as_state a = ISSUED \<and> as_holderId a = Some (ho_employeeId body))"

definition movedTo :: "HandOver \<Rightarrow> Asset \<Rightarrow> Asset" where
  "movedTo body a =
     a\<lparr>as_state := (if ho_issued body then ISSUED else RETURNED),
       as_holderId := (if ho_issued body then Some (ho_employeeId body) else None)\<rparr>"

definition transferOf :: "Viewer \<Rightarrow> string \<Rightarrow> HandOver \<Rightarrow> AssetTransfer" where
  "transferOf v i body =
     \<lparr>tr_assetId = i, tr_employeeId = ho_employeeId body, tr_issued = ho_issued body,
      tr_condition = orElse (ho_condition body) AC_GOOD, tr_note = ho_note body, tr_byUserId = v_userId v\<rparr>"

text \<open>The transaction: the claim, then the transfer, whose person must still be on file.\<close>

definition commitHandOver :: "Viewer \<Rightarrow> AssetsDb \<Rightarrow> string \<Rightarrow> HandOver \<Rightarrow> AssetsDb result" where
  "commitHandOver v db i body =
     (let (claimed, rows) = claimWhere (mayMove body i) (movedTo body) (asd_assets db)
      in bindR (refuse (claimed = 0) (Conflict (if ho_issued body then ''ASSET_ALREADY_ISSUED'' else ''ASSET_NOT_ISSUED''))) (\<lambda>_.
         bindR (refuse (ho_employeeId body \<notin> p_id ` set (asd_people db)) (NotFound ''EMPLOYEE_NOT_FOUND'')) (\<lambda>_.
           Inr (db\<lparr>asd_assets := rows, asd_transfers := asd_transfers db @ [transferOf v i body]\<rparr>))))"

definition handOver :: "Viewer \<Rightarrow> AssetsDb \<Rightarrow> AssetsDb \<Rightarrow> string \<Rightarrow> HandOver \<Rightarrow> (AssetsDb \<times> effect list) result" where
  "handOver v db0 db i body =
     bindR (requireAsset v db0 i) (\<lambda>asset.
     bindR (refuse (\<not> reachesHolder v db0 (ho_employeeId body)) (NotFound ''EMPLOYEE_NOT_FOUND'')) (\<lambda>_.
     bindR (refuse (ho_issued body \<and> as_state asset = ISSUED) (Conflict ''ASSET_ALREADY_ISSUED'')) (\<lambda>_.
     bindR (refuse (\<not> ho_issued body \<and> as_state asset \<noteq> ISSUED) (Conflict ''ASSET_NOT_ISSUED'')) (\<lambda>_.
     bindR (refuse (\<not> ho_issued body \<and> as_holderId asset \<noteq> Some (ho_employeeId body)) (Conflict ''ASSET_HELD_BY_SOMEBODY_ELSE'')) (\<lambda>_.
     bindR (commitHandOver v db i body) (\<lambda>db1.
       Inr (db1, [Audited (v_userId v) (if ho_issued body then ''ASSET_ISSUE'' else ''ASSET_RETURN'') (as_code asset)])))))))"

definition heldByPerson :: "Viewer \<Rightarrow> AssetsDb \<Rightarrow> int \<Rightarrow> Asset list result" where
  "heldByPerson v db e =
     bindR (refuse (\<not> reachesHolder v db e) (NotFound ''EMPLOYEE_NOT_FOUND'')) (\<lambda>_.
       Inr (filter (\<lambda>a. as_holderId a = Some e \<and> as_state a = ISSUED) (asd_assets db)))"

subsection \<open>The row is the sum of its history\<close>

text \<open>Who holds an asset after a history that started with \<open>holder\<close>; none when the history is no possible one.\<close>

fun heldAfter :: "int option \<Rightarrow> AssetTransfer list \<Rightarrow> int option option" where
  "heldAfter holder [] = Some holder"
| "heldAfter holder (t # ts) =
     (if tr_issued t then (if holder = None then heldAfter (Some (tr_employeeId t)) ts else None)
      else if holder = Some (tr_employeeId t) then heldAfter None ts else None)"

definition historyOf :: "AssetsDb \<Rightarrow> string \<Rightarrow> AssetTransfer list" where
  "historyOf db i = filter (\<lambda>t. tr_assetId t = i) (asd_transfers db)"

text \<open>A step: any handler, having read any state; ids are new; people come and go as long as nobody holding or having
  held anything is taken off, which nothing in the code does.\<close>

inductive assetStep :: "AssetsDb \<Rightarrow> AssetsDb \<Rightarrow> bool" where
  created: "createAsset v c i body = Inr (d, eff) \<Longrightarrow> i \<notin> as_id ` set (asd_assets c) \<Longrightarrow> i \<notin> tr_assetId ` set (asd_transfers c)
    \<Longrightarrow> assetStep c d"
| described: "updateAsset v b c i body = Inr (d, eff) \<Longrightarrow> assetStep c d"
| handed: "handOver v b c i body = Inr (d, eff) \<Longrightarrow> assetStep c d"
| staffed: "assetStep c (c\<lparr>asd_people := people\<rparr>)"

inductive assetReach :: "AssetsDb \<Rightarrow> AssetsDb \<Rightarrow> bool" where
  start: "assetReach a a"
| more: "assetReach a c \<Longrightarrow> assetStep c d \<Longrightarrow> assetReach a d"

definition assetOk :: "AssetsDb \<Rightarrow> Asset \<Rightarrow> bool" where
  "assetOk db a \<longleftrightarrow> heldAfter None (historyOf db (as_id a)) = Some (as_holderId a) \<and> (as_holderId a \<noteq> None \<longleftrightarrow> as_state a = ISSUED)"

definition registerOk :: "AssetsDb \<Rightarrow> bool" where
  "registerOk db \<longleftrightarrow> distinct (map as_id (asd_assets db)) \<and> (\<forall>a \<in> set (asd_assets db). assetOk db a)"

lemma heldAfter_append: "heldAfter h (xs @ ys) = Option.bind (heldAfter h xs) (\<lambda>h'. heldAfter h' ys)"
  by (induction h xs rule: heldAfter.induct) simp_all

lemma historyOf_moved [simp]:
  "historyOf (db\<lparr>asd_assets := rows, asd_transfers := asd_transfers db @ [transferOf v i body]\<rparr>) j
     = historyOf db j @ (if j = i then [transferOf v i body] else [])"
  by (simp add: historyOf_def transferOf_def)

lemma transferOf_simps [simp]:
  "tr_issued (transferOf v i body) = ho_issued body" "tr_employeeId (transferOf v i body) = ho_employeeId body"
  "tr_assetId (transferOf v i body) = i"
  by (simp_all add: transferOf_def)

lemma historyOf_new: "i \<notin> tr_assetId ` set (asd_transfers db) \<Longrightarrow> historyOf db i = []"
  by (auto simp: historyOf_def filter_empty_conv)

lemma historyOf_rows [simp]: "historyOf (db\<lparr>asd_assets := rows\<rparr>) j = historyOf db j"
  by (simp add: historyOf_def)

lemma commitHandOver_Inr:
  assumes "commitHandOver v db i body = Inr d"
  shows "\<exists>a \<in> set (asd_assets db). mayMove body i a"
    "d = db\<lparr>asd_assets := updateMany (mayMove body i) (movedTo body) (asd_assets db), asd_transfers := asd_transfers db @ [transferOf v i body]\<rparr>"
  using assms by (auto simp: commitHandOver_def claimWhere_def filter_empty_conv)

lemma commitHandOver_ok:
  assumes "registerOk db" "commitHandOver v db i body = Inr d"
  shows "registerOk d"
proof -
  note d = commitHandOver_Inr [OF assms(2)]
  from d(1) obtain a where a: "a \<in> set (asd_assets db)" "mayMove body i a" by blast
  have keys: "map as_id (updateMany (mayMove body i) (movedTo body) (asd_assets db)) = map as_id (asd_assets db)"
    by (simp add: updateMany_keys movedTo_def)
  have one: "b = a" if "b \<in> set (asd_assets db)" "as_id b = i" for b
    using assms(1) a that unfolding registerOk_def mayMove_def by (metis distinct_map inj_on_eq_iff)
  have "assetOk d (if mayMove body i b then movedTo body b else b)" if b: "b \<in> set (asd_assets db)" for b
  proof (cases "as_id b = i")
    case True
    then have "b = a" by (rule one [OF b])
    with assms(1) a show ?thesis unfolding d(2)
      by (auto simp: registerOk_def assetOk_def heldAfter_append mayMove_def movedTo_def)
  next
    case False
    with assms(1) b show ?thesis unfolding d(2) by (auto simp: registerOk_def assetOk_def mayMove_def)
  qed
  with assms(1) show ?thesis unfolding registerOk_def d(2) by (simp add: keys updateMany_bounded)
qed

lemma assetStep_ok: "assetStep c d \<Longrightarrow> registerOk c \<Longrightarrow> registerOk d"
proof (induction rule: assetStep.induct)
  case (created v c i body d eff)
  then show ?case
    by (auto simp: createAsset_def bindR_eq_Inr registerOk_def assetOk_def historyOf_new)
next
  case (described v b c i body d eff)
  then have "d = c\<lparr>asd_assets := updateMany (\<lambda>a. as_id a = i) (Assets.described body) (asd_assets c)\<rparr>"
    by (auto simp: updateAsset_def bindR_eq_Inr)
  with described.prems show ?case
    by (auto simp: registerOk_def updateMany_keys updateMany_bounded Assets.described_def assetOk_def)
next
  case (handed v b c i body d eff)
  then show ?case by (auto simp: handOver_def bindR_eq_Inr intro: commitHandOver_ok)
next
  case (staffed c people)
  then show ?case by (simp add: registerOk_def assetOk_def historyOf_def)
qed

text \<open>C27: the register is the sum of the hand-overs. Whatever desks hand out and take back at one moment, an asset is
  held by at most one person, its transfers are issues and returns in turn, every return by who it was issued to, and its
  row says ISSUED and names that person exactly while the last transfer is an issue.\<close>

theorem assets_follow_history:
  assumes "assetReach a db" "registerOk a" "x \<in> set (asd_assets db)"
  shows "heldAfter None (historyOf db (as_id x)) = Some (as_holderId x) \<and> (as_holderId x \<noteq> None \<longleftrightarrow> as_state x = ISSUED)"
proof -
  have "assetReach a db \<Longrightarrow> registerOk a \<Longrightarrow> registerOk db" by (induction rule: assetReach.induct) (auto intro: assetStep_ok)
  with assms show ?thesis by (simp add: registerOk_def assetOk_def)
qed


definition deskViewer :: Viewer where
  "deskViewer = \<lparr>v_userId = ''desk'', v_role = HR, v_employeeId = None, v_entityIds = None\<rparr>"

definition storeDb :: AssetsDb where
  "storeDb = \<lparr>asd_assets = [\<lparr>as_id = ''x'', as_code = ''LT01'', as_name = ''Laptop'', as_kind = ''LAPTOP'', as_serialNo = None, as_note = None,
      as_state = IN_STOCK, as_holderId = None\<rparr>], asd_transfers = [],
     asd_people = [\<lparr>p_id = 1, p_managerId = None, p_legalEntityId = ''e''\<rparr>, \<lparr>p_id = 2, p_managerId = None, p_legalEntityId = ''e''\<rparr>]\<rparr>"

definition handedTo :: "int \<Rightarrow> HandOver" where
  "handedTo e = \<lparr>ho_employeeId = e, ho_issued = True, ho_condition = None, ho_note = None\<rparr>"

text \<open>Two desks hand out one laptop, both having read it in stock: the second is refused.\<close>

theorem assets_follow_history_witness:
  "let d = fst (projr (handOver deskViewer storeDb storeDb ''x'' (handedTo 1)))
   in heldAfter None (historyOf d ''x'') = Some (Some 1) \<and> handOver deskViewer storeDb d ''x'' (handedTo 2) = Inl (Conflict ''ASSET_ALREADY_ISSUED'')"
proof -
  let ?r = "handOver deskViewer storeDb storeDb ''x'' (handedTo 1)"
  have "\<not> isl ?r" by code_simp
  then have s: "assetStep storeDb (fst (projr ?r))"
    using handed [where v = deskViewer and b = storeDb and c = storeDb and i = "''x''" and body = "handedTo 1"]
    by (metis prod.collapse sum.collapse(2))
  have "registerOk storeDb" "\<exists>x \<in> set (asd_assets (fst (projr ?r))). as_id x = ''x'' \<and> as_holderId x = Some 1"
    "handOver deskViewer storeDb (fst (projr ?r)) ''x'' (handedTo 2) = Inl (Conflict ''ASSET_ALREADY_ISSUED'')" by code_simp+
  with assets_follow_history [OF assetReach.more [OF assetReach.start s]] show ?thesis by (metis (no_types, lifting))
qed

end
