(* ===== verification/Shifts.thy ===== *)
theory Shifts
  imports Leave Money
begin

section \<open>Shifts and the roster\<close>

text \<open>
  \<open>backend/src/modules/shifts/shifts.service.ts\<close>: the shifts, who is put on which from what day, and the month ahead
  a person reads. The timesheet build reads the same assignments (theory Timesheet), so what the two say of one day is
  compared at the end.
\<close>

record Shift =
  sh_id :: string
  sh_name :: string
  sh_startTime :: clock
  sh_endTime :: clock
  sh_graceMinutes :: int
  sh_active :: bool

record Assignment =
  asg_id :: string
  asg_shiftId :: string
  asg_employeeId :: int
  asg_validFrom :: day
  asg_validTo :: "day option"

record ShiftsDb =
  sd_shifts :: "Shift list"
  sd_assignments :: "Assignment list"
  sd_staff :: "Employee list"
  sd_holidays :: "Holiday list"
  sd_requests :: "Request list"

definition shiftNamed :: "ShiftsDb \<Rightarrow> string \<Rightarrow> Shift option" where
  "shiftNamed db i = firstWhere sh_id i (sd_shifts db)"

definition shiftPeople :: "ShiftsDb \<Rightarrow> Person list" where
  "shiftPeople db = map personOf (sd_staff db)"

definition reachesShift :: "Viewer \<Rightarrow> ShiftsDb \<Rightarrow> int \<Rightarrow> bool" where
  "reachesShift v db e = reaches (shiftPeople db) v (visibleEmployeeIds (shiftPeople db) v) e"

definition getShift :: "ShiftsDb \<Rightarrow> string \<Rightarrow> Shift result" where
  "getShift db i = found (shiftNamed db i) (NotFound ''SHIFT_NOT_FOUND'')"

subsection \<open>The month ahead\<close>

definition SATURDAY :: int where "SATURDAY = 6"
definition SUNDAY :: int where "SUNDAY = 0"

record PlannedDay =
  pd_date :: day
  pd_shift :: "Shift option"
  pd_holiday :: "Holiday option"
  pd_weekend :: bool
  pd_away :: "RequestKind option"

definition whose :: "Viewer \<Rightarrow> ShiftsDb \<Rightarrow> int option \<Rightarrow> int result" where
  "whose v db asked =
     (case asked of
        None \<Rightarrow> found (v_employeeId v) (Forbidden ''NO_EMPLOYEE_RECORD'')
      | Some e \<Rightarrow> bindR (refuse (\<not> reachesShift v db e) (NotFound ''EMPLOYEE_NOT_FOUND'')) (\<lambda>_. Inr e))"

definition holdsOn :: "day \<Rightarrow> Assignment \<Rightarrow> bool" where
  "holdsOn d a \<longleftrightarrow> asg_validFrom a \<le> d \<and> (case asg_validTo a of None \<Rightarrow> True | Some u \<Rightarrow> d \<le> u)"

definition ownAssignments :: "ShiftsDb \<Rightarrow> int \<Rightarrow> day \<Rightarrow> day \<Rightarrow> Assignment list" where
  "ownAssignments db e from to =
     sort_key asg_validFrom
       (filter (\<lambda>a. asg_employeeId a = e \<and> asg_validFrom a < to
                  \<and> (case asg_validTo a of None \<Rightarrow> True | Some u \<Rightarrow> from \<le> u)) (sd_assignments db))"

definition awayRequests :: "ShiftsDb \<Rightarrow> int \<Rightarrow> day \<Rightarrow> day \<Rightarrow> Request list" where
  "awayRequests db e from to =
     filter (\<lambda>r. rq_employeeId r = e \<and> rq_kind r \<in> {RK_LEAVE, RK_BUSINESS_TRIP, RK_REMOTE_WORK} \<and> rq_state r = RS_APPROVED
               \<and> \<not> rq_halfDay r \<and> rq_fromDate r < to \<and> from \<le> rq_toDate r) (sd_requests db)"

definition lastOf :: "'a list \<Rightarrow> 'a option" where
  "lastOf xs = (if xs = [] then None else Some (last xs))"

definition plannedDay :: "ShiftsDb \<Rightarrow> Assignment list \<Rightarrow> Request list \<Rightarrow> day \<Rightarrow> PlannedDay" where
  "plannedDay db assignments away d =
     \<lparr>pd_date = d,
      pd_shift = Option.bind (lastOf (filter (holdsOn d) assignments)) (\<lambda>a. shiftNamed db (asg_shiftId a)),
      pd_holiday = lastOf (filter (\<lambda>h. hol_date h = d) (sd_holidays db)),
      pd_weekend = (getUTCDay d \<in> {SATURDAY, SUNDAY}),
      pd_away = map_option rq_kind (find (\<lambda>r. rq_fromDate r \<le> d \<and> d \<le> rq_toDate r) away)\<rparr>"

definition roster :: "Viewer \<Rightarrow> ShiftsDb \<Rightarrow> int \<Rightarrow> int \<Rightarrow> int option \<Rightarrow> PlannedDay list result" where
  "roster v db y m asked =
     bindR (whose v db asked) (\<lambda>e.
       let from = monthStart y m; to = monthStart y (m + 1)
       in Inr (map (plannedDay db (ownAssignments db e from to) (awayRequests db e from to)) (everyDay from (to - 1))))"

subsection \<open>Shifts\<close>

definition refuseOvernight :: "clock \<Rightarrow> clock \<Rightarrow> unit result" where
  "refuseOvernight start ende = refuse (clockToMinutes ende \<le> clockToMinutes start) (BadRequest ''SHIFT_CROSSES_MIDNIGHT'')"

record ShiftBody =
  sfb_name :: "string option"
  sfb_startTime :: "clock option"
  sfb_endTime :: "clock option"
  sfb_graceMinutes :: "int option"
  sfb_active :: "bool option"

definition createShift :: "ShiftsDb \<Rightarrow> string \<Rightarrow> string \<Rightarrow> clock \<Rightarrow> clock \<Rightarrow> int option \<Rightarrow> (ShiftsDb \<times> Shift) result" where
  "createShift db i name start ende grace =
     bindR (refuseOvernight start ende) (\<lambda>_.
     bindR (refuse (name \<in> sh_name ` set (sd_shifts db)) (Conflict ''SHIFT_NAME_TAKEN'')) (\<lambda>_.
       let made = \<lparr>sh_id = i, sh_name = name, sh_startTime = start, sh_endTime = ende, sh_graceMinutes = orElse grace 0, sh_active = True\<rparr>
       in Inr (db\<lparr>sd_shifts := sd_shifts db @ [made]\<rparr>, made)))"

definition reshaped :: "ShiftBody \<Rightarrow> Shift \<Rightarrow> Shift" where
  "reshaped body s =
     s\<lparr>sh_name := orElse (sfb_name body) (sh_name s), sh_startTime := orElse (sfb_startTime body) (sh_startTime s),
       sh_endTime := orElse (sfb_endTime body) (sh_endTime s), sh_graceMinutes := orElse (sfb_graceMinutes body) (sh_graceMinutes s),
       sh_active := orElse (sfb_active body) (sh_active s)\<rparr>"

text \<open>\<open>tellChanged\<close>: a span over before today tells nobody.\<close>

definition tellChanged :: "day \<Rightarrow> Assignment list \<Rightarrow> effect list" where
  "tellChanged today spans =
     map (\<lambda>a. Noticed (asg_employeeId a) ''SHIFT_CHANGED'')
       (filter (\<lambda>a. case asg_validTo a of None \<Rightarrow> True | Some u \<Rightarrow> today \<le> u) spans)"

definition updateShift :: "day \<Rightarrow> ShiftsDb \<Rightarrow> ShiftsDb \<Rightarrow> string \<Rightarrow> ShiftBody \<Rightarrow> (ShiftsDb \<times> effect list) result" where
  "updateShift today db0 db i body =
     bindR (getShift db0 i) (\<lambda>held.
     bindR (if sfb_startTime body \<noteq> None \<or> sfb_endTime body \<noteq> None
            then refuseOvernight (orElse (sfb_startTime body) (sh_startTime held)) (orElse (sfb_endTime body) (sh_endTime held)) else Inr ()) (\<lambda>_.
     bindR (found (shiftNamed db i) (Unhandled ''P2025'')) (\<lambda>now.
     bindR (refuse (\<exists>s \<in> set (sd_shifts db). sh_id s \<noteq> i \<and> sfb_name body = Some (sh_name s)) (Conflict ''SHIFT_NAME_TAKEN'')) (\<lambda>_.
       let updated = reshaped body now
       in Inr (db\<lparr>sd_shifts := updateMany (\<lambda>s. sh_id s = i) (reshaped body) (sd_shifts db)\<rparr>,
               if sh_startTime updated \<noteq> sh_startTime held \<or> sh_endTime updated \<noteq> sh_endTime held
                  \<or> sh_graceMinutes updated \<noteq> sh_graceMinutes held
               then tellChanged today (filter (\<lambda>a. asg_shiftId a = i) (sd_assignments db)) else [])))))"

definition deactivateShift :: "ShiftsDb \<Rightarrow> string \<Rightarrow> ShiftsDb result" where
  "deactivateShift db i =
     bindR (getShift db i) (\<lambda>_. Inr (db\<lparr>sd_shifts := updateMany (\<lambda>s. sh_id s = i) (\<lambda>s. s\<lparr>sh_active := False\<rparr>) (sd_shifts db)\<rparr>))"

subsection \<open>Putting people on shifts\<close>

text \<open>The table keeps one start of a person on a day.\<close>

definition startTaken :: "ShiftsDb \<Rightarrow> int \<Rightarrow> day \<Rightarrow> bool" where
  "startTaken db e from \<longleftrightarrow> (\<exists>a \<in> set (sd_assignments db). asg_employeeId a = e \<and> asg_validFrom a = from)"

definition assignShift ::
  "Viewer \<Rightarrow> day \<Rightarrow> ShiftsDb \<Rightarrow> ShiftsDb \<Rightarrow> string \<Rightarrow> string \<Rightarrow> int \<Rightarrow> day \<Rightarrow> day option \<Rightarrow> (ShiftsDb \<times> effect list) result" where
  "assignShift v today db0 db newId i e from to =
     bindR (getShift db0 i) (\<lambda>_.
     bindR (refuse (\<not> reachesShift v db0 e) (NotFound ''EMPLOYEE_NOT_FOUND'')) (\<lambda>_.
     bindR (refuse (startTaken db e from) (Conflict ''SHIFT_ALREADY_ASSIGNED'')) (\<lambda>_.
     bindR (refuse (e \<notin> em_id ` set (sd_staff db) \<or> shiftNamed db i = None) (NotFound ''EMPLOYEE_NOT_FOUND'')) (\<lambda>_.
       let made = \<lparr>asg_id = newId, asg_shiftId = i, asg_employeeId = e, asg_validFrom = from, asg_validTo = to\<rparr>
       in Inr (db\<lparr>sd_assignments := sd_assignments db @ [made]\<rparr>, tellChanged today [made])))))"

record ShiftBatch =
  sbt_applied :: bool
  sbt_assigned :: "int list"
  sbt_skipped :: "(int \<times> string) list"

text \<open>The rows of \<open>createManyAndReturn\<close> with \<open>skipDuplicates\<close>: a start that is taken is passed over. Ids are drawn by the database.\<close>

fun putStarts :: "(int \<Rightarrow> string) \<Rightarrow> string \<Rightarrow> day \<Rightarrow> day option \<Rightarrow> int list \<Rightarrow> Assignment list \<Rightarrow> Assignment list" where
  "putStarts newId i from to [] rows = rows"
| "putStarts newId i from to (e # es) rows =
     putStarts newId i from to es
       (if \<exists>a \<in> set rows. asg_employeeId a = e \<and> asg_validFrom a = from then rows
        else rows @ [\<lparr>asg_id = newId e, asg_shiftId = i, asg_employeeId = e, asg_validFrom = from, asg_validTo = to\<rparr>])"

definition assignManyTo ::
  "string \<Rightarrow> day \<Rightarrow> ShiftsDb \<Rightarrow> ShiftsDb \<Rightarrow> (int \<Rightarrow> string) \<Rightarrow> string \<Rightarrow> int list \<Rightarrow> (int \<times> string) list \<Rightarrow> day \<Rightarrow> day option \<Rightarrow> bool
    \<Rightarrow> (ShiftsDb \<times> effect list \<times> ShiftBatch) result" where
  "assignManyTo actor today db0 db newId i ids missing from to apply' =
     bindR (getShift db0 i) (\<lambda>_.
       let people = filter (\<lambda>e. em_id e \<in> set ids) (sd_staff db0);
           passed = filter (\<lambda>e. \<not> em_active e \<or> startTaken db0 (em_id e) from) people;
           rows = map em_id (filter (\<lambda>e. em_active e \<and> \<not> startTaken db0 (em_id e) from) people);
           skipped = missing @ map (\<lambda>e. (em_id e, if em_active e then ''ALREADY_ON_SHIFT'' else ''EMPLOYEE_HAS_LEFT'')) passed
       in if \<not> apply' \<or> rows = [] then Inr (db, [], \<lparr>sbt_applied = False, sbt_assigned = rows, sbt_skipped = skipped\<rparr>)
          else
            let done' = filter (\<lambda>e. \<not> startTaken db e from) rows;
                raced = filter (\<lambda>e. startTaken db e from) rows;
                made = putStarts newId i from to rows (sd_assignments db)
            in Inr (db\<lparr>sd_assignments := made\<rparr>,
                    tellChanged today (map (\<lambda>e. \<lparr>asg_id = newId e, asg_shiftId = i, asg_employeeId = e, asg_validFrom = from, asg_validTo = to\<rparr>) done')
                      @ map (\<lambda>e. Audited actor ''SHIFT_ASSIGN'' (showNat (nat e))) done',
                    \<lparr>sbt_applied = True, sbt_assigned = done', sbt_skipped = skipped @ map (\<lambda>e. (e, ''ALREADY_ON_SHIFT'')) raced\<rparr>))"

definition assignmentOf :: "Viewer \<Rightarrow> ShiftsDb \<Rightarrow> string \<Rightarrow> string \<Rightarrow> Assignment option" where
  "assignmentOf v db i assignmentId =
     find (\<lambda>a. asg_id a = assignmentId \<and> asg_shiftId a = i
             \<and> (case find (\<lambda>p. p_id p = asg_employeeId a) (shiftPeople db) of
                  None \<Rightarrow> False | Some p \<Rightarrow> ownedWhere v (visibleEmployeeIds (shiftPeople db) v) p)) (sd_assignments db)"

text \<open>An assignment begun ends yesterday, one still ahead goes.\<close>

definition endOn :: "day \<Rightarrow> string \<Rightarrow> Assignment list \<Rightarrow> Assignment list" where
  "endOn today assignmentId rows =
     deleteMany (\<lambda>a. asg_id a = assignmentId \<and> today \<le> asg_validFrom a)
       (updateMany (\<lambda>a. asg_id a = assignmentId \<and> asg_validFrom a < today
                      \<and> (case asg_validTo a of None \<Rightarrow> True | Some u \<Rightarrow> today - 1 < u)) (\<lambda>a. a\<lparr>asg_validTo := Some (today - 1)\<rparr>) rows)"

definition unassign :: "Viewer \<Rightarrow> day \<Rightarrow> ShiftsDb \<Rightarrow> ShiftsDb \<Rightarrow> string \<Rightarrow> string \<Rightarrow> (ShiftsDb \<times> effect list) result" where
  "unassign v today db0 db i assignmentId =
     bindR (found (assignmentOf v db0 i assignmentId) (NotFound ''ASSIGNMENT_NOT_FOUND'')) (\<lambda>a.
       Inr (db\<lparr>sd_assignments := endOn today assignmentId (sd_assignments db)\<rparr>, tellChanged today [a]))"


subsection \<open>A planned day and the built one\<close>

text \<open>The assignments as the timesheet reads them, with the clock of their shift.\<close>

definition clocked :: "Assignment \<Rightarrow> Shift \<Rightarrow> ShiftAssignment" where
  "clocked a s =
     \<lparr>sa_id = asg_id a, sa_employeeId = asg_employeeId a, sa_shiftId = sh_id s, sa_validFrom = asg_validFrom a,
      sa_validTo = asg_validTo a, sa_startTime = sh_startTime s, sa_endTime = sh_endTime s, sa_graceMinutes = sh_graceMinutes s\<rparr>"

definition clockedAssignments :: "ShiftsDb \<Rightarrow> ShiftAssignment list" where
  "clockedAssignments db = List.map_filter (\<lambda>a. map_option (clocked a) (shiftNamed db (asg_shiftId a))) (sd_assignments db)"

definition clockOfShift :: "Shift \<Rightarrow> ShiftClock" where
  "clockOfShift s =
     \<lparr>sc_shiftId = sh_id s, sc_startMinutes = clockToMinutes (sh_startTime s), sc_endMinutes = clockToMinutes (sh_endTime s),
      sc_graceMinutes = sh_graceMinutes s\<rparr>"

text \<open>The keys of the tables: one start of a person on a day, and every assignment names a shift on file.\<close>

definition shiftsOk :: "ShiftsDb \<Rightarrow> bool" where
  "shiftsOk db \<longleftrightarrow> distinct (map (\<lambda>a. (asg_employeeId a, asg_validFrom a)) (sd_assignments db))
     \<and> (\<forall>a \<in> set (sd_assignments db). shiftNamed db (asg_shiftId a) \<noteq> None)"

text \<open>The assignment in force on a day, the latest begun.\<close>

definition inForceOn :: "Assignment list \<Rightarrow> int \<Rightarrow> day \<Rightarrow> Assignment \<Rightarrow> bool" where
  "inForceOn rows e d a \<longleftrightarrow> a \<in> set rows \<and> asg_employeeId a = e \<and> holdsOn d a
     \<and> (\<forall>b \<in> set rows. asg_employeeId b = e \<and> holdsOn d b \<longrightarrow> asg_validFrom b \<le> asg_validFrom a)"

lemma last_sorted: "sorted (map k xs) \<Longrightarrow> xs \<noteq> [] \<Longrightarrow> last xs \<in> set xs \<and> (\<forall>x \<in> set xs. k x \<le> k (last xs))"
  by (induction xs) auto

lemma inForceOn_unique:
  assumes "distinct (map (\<lambda>a. (asg_employeeId a, asg_validFrom a)) rows)" "inForceOn rows e d a" "inForceOn rows e d b"
  shows "a = b"
proof -
  have "asg_validFrom a \<le> asg_validFrom b" "asg_validFrom b \<le> asg_validFrom a" "asg_employeeId a = asg_employeeId b"
    using assms(2,3) by (simp_all add: inForceOn_def)
  moreover have "a \<in> set rows" "b \<in> set rows" using assms(2,3) by (simp_all add: inForceOn_def)
  ultimately show ?thesis using assms(1) unfolding distinct_map by (auto dest: inj_onD)
qed

lemma lastOf_holding:
  assumes "from \<le> d" "d < to"
  shows "case lastOf (filter (holdsOn d) (ownAssignments db e from to)) of
      None \<Rightarrow> \<not> (\<exists>a. inForceOn (sd_assignments db) e d a) | Some a \<Rightarrow> inForceOn (sd_assignments db) e d a"
proof -
  let ?h = "filter (holdsOn d) (ownAssignments db e from to)"
  have set: "set ?h = {a \<in> set (sd_assignments db). asg_employeeId a = e \<and> holdsOn d a}"
    using assms by (auto simp: ownAssignments_def holdsOn_def split: option.splits)
  have "sorted (map asg_validFrom ?h)" by (simp add: ownAssignments_def sorted_filter)
  with last_sorted [of asg_validFrom ?h] show ?thesis
    unfolding lastOf_def using set by (auto simp: inForceOn_def filter_empty_conv)
qed

lemma foldl_put: "foldl (\<lambda>m r. m(k r \<mapsto> v r)) m0 rows e = (case lastOf (filter (\<lambda>r. k r = e) rows) of None \<Rightarrow> m0 e | Some r \<Rightarrow> Some (v r))"
  by (induction rows arbitrary: m0) (auto simp: lastOf_def filter_empty_conv)


lemma clocked_simps [simp]:
  "sa_employeeId (clocked a s) = asg_employeeId a" "sa_validFrom (clocked a s) = asg_validFrom a" "sa_validTo (clocked a s) = asg_validTo a"
  "shiftClockOf (clocked a s) = clockOfShift s"
  by (simp_all add: clocked_def shiftClockOf_def clockOfShift_def)

lemma clocked_mem: "r \<in> set (clockedAssignments db) \<longleftrightarrow> (\<exists>a \<in> set (sd_assignments db). \<exists>s. shiftNamed db (asg_shiftId a) = Some s \<and> r = clocked a s)"
  by (force simp: clockedAssignments_def map_filter_def)

lemma clocked_in: "a \<in> set (sd_assignments db) \<Longrightarrow> shiftNamed db (asg_shiftId a) = Some s \<Longrightarrow> clocked a s \<in> set (clockedAssignments db)"
  using clocked_mem by blast

lemma shiftsOn_inForce:
  assumes "shiftsOk db"
  shows "case shiftsOn (clockedAssignments db) d only e of
      None \<Rightarrow> (only = None \<or> only = Some e) \<longrightarrow> \<not> (\<exists>a. inForceOn (sd_assignments db) e d a)
    | Some c \<Rightarrow> \<exists>a s. inForceOn (sd_assignments db) e d a \<and> shiftNamed db (asg_shiftId a) = Some s \<and> c = clockOfShift s"
proof -
  let ?rows = "sort_key (\<lambda>r. (sa_validFrom r, sa_id r))
    (filter (\<lambda>r. sa_validFrom r \<le> d \<and> (case sa_validTo r of None \<Rightarrow> True | Some u \<Rightarrow> d \<le> u)
       \<and> (case only of None \<Rightarrow> True | Some e \<Rightarrow> sa_employeeId r = e)) (clockedAssignments db))"
  let ?own = "filter (\<lambda>r. sa_employeeId r = e) ?rows"
  have on: "shiftsOn (clockedAssignments db) d only e = (case lastOf ?own of None \<Rightarrow> None | Some r \<Rightarrow> Some (shiftClockOf r))"
    by (simp add: shiftsOn_def foldl_put)
  have set: "set ?own = {r \<in> set (clockedAssignments db). sa_employeeId r = e \<and> sa_validFrom r \<le> d
      \<and> (case sa_validTo r of None \<Rightarrow> True | Some u \<Rightarrow> d \<le> u) \<and> (case only of None \<Rightarrow> True | Some e \<Rightarrow> sa_employeeId r = e)}" by auto
  show ?thesis
  proof (cases "?own = []")
    case True
    then have none: "shiftsOn (clockedAssignments db) d only e = None" unfolding on by (simp add: lastOf_def)
    have "\<not> inForceOn (sd_assignments db) e d a" if "only = None \<or> only = Some e" for a
    proof
      assume a: "inForceOn (sd_assignments db) e d a"
      then obtain s where "shiftNamed db (asg_shiftId a) = Some s" using assms by (auto simp: shiftsOk_def inForceOn_def)
      with a that have "clocked a s \<in> set ?own"
        unfolding set by (auto simp: inForceOn_def holdsOn_def intro: clocked_in)
      with True show False by simp
    qed
    with none show ?thesis by simp
  next
    case False
    have "sorted (map (\<lambda>r. (sa_validFrom r, sa_id r)) ?own)" by (simp add: sorted_filter)
    from last_sorted [OF this False] have l: "last ?own \<in> set ?own" "\<forall>r \<in> set ?own. sa_validFrom r \<le> sa_validFrom (last ?own)"
      by (auto simp: less_eq_prod_def)
    from l(1) obtain a s where a: "a \<in> set (sd_assignments db)" "shiftNamed db (asg_shiftId a) = Some s"
      "last ?own = clocked a s"
      "asg_employeeId a = e" "holdsOn d a" unfolding set by (auto simp: clocked_mem holdsOn_def)
    have "asg_validFrom b \<le> asg_validFrom a" if b: "b \<in> set (sd_assignments db)" "asg_employeeId b = e" "holdsOn d b" for b
    proof -
      obtain s' where "shiftNamed db (asg_shiftId b) = Some s'" using assms b(1) by (auto simp: shiftsOk_def)
      moreover have "case only of None \<Rightarrow> True | Some e' \<Rightarrow> e = e'" using l(1) a(3,4) by (auto split: option.splits)
      ultimately have "clocked b s' \<in> set ?own"
        using b unfolding set by (cases only) (auto simp: holdsOn_def intro: clocked_in)
      with l(2) have "sa_validFrom (clocked b s') \<le> sa_validFrom (last ?own)" by blast
      with a(3) show ?thesis by simp
    qed
    with a have "inForceOn (sd_assignments db) e d a" by (simp add: inForceOn_def)
    moreover have "shiftsOn (clockedAssignments db) d only e = Some (clockOfShift s)"
      unfolding on lastOf_def using False a(3) by simp
    ultimately show ?thesis using a(2) by auto
  qed
qed


lemma shiftsOn_at:
  assumes "shiftsOk db" "inForceOn (sd_assignments db) e d b"
  shows "shiftsOn (clockedAssignments db) d None e = map_option clockOfShift (shiftNamed db (asg_shiftId b))"
proof -
  obtain a s where a: "inForceOn (sd_assignments db) e d a" "shiftNamed db (asg_shiftId a) = Some s"
    "shiftsOn (clockedAssignments db) d None e = Some (clockOfShift s)"
    using shiftsOn_inForce [OF assms(1), where d = d and only = None and e = e] assms(2) by (auto split: option.splits)
  have "a = b" using assms a(1) by (intro inForceOn_unique) (simp_all add: shiftsOk_def)
  with a show ?thesis by simp
qed

lemma shiftsOn_none: "shiftsOk db \<Longrightarrow> \<not> (\<exists>a. inForceOn (sd_assignments db) e d a) \<Longrightarrow> shiftsOn (clockedAssignments db) d None e = None"
  using shiftsOn_inForce [where db = db and d = d and only = None and e = e] by (auto split: option.splits)

lemma monthStart_days: "roster v db y m asked = Inr days \<Longrightarrow> pd \<in> set days \<Longrightarrow>
    \<exists>e. whose v db asked = Inr e \<and> monthStart y m \<le> pd_date pd \<and> pd_date pd < monthStart y (m + 1)
      \<and> pd = plannedDay db (ownAssignments db e (monthStart y m) (monthStart y (m + 1)))
               (awayRequests db e (monthStart y m) (monthStart y (m + 1))) (pd_date pd)"
  by (auto simp: roster_def bindR_eq_Inr everyDay_upto plannedDay_def Let_def)

lemma planned_shift:
  assumes "shiftsOk db" "from \<le> d" "d < to"
  shows "map_option clockOfShift (pd_shift (plannedDay db (ownAssignments db e from to) away d)) = shiftsOn (clockedAssignments db) d None e"
proof (cases "lastOf (filter (holdsOn d) (ownAssignments db e from to))")
  case None
  then have "\<not> (\<exists>a. inForceOn (sd_assignments db) e d a)" using lastOf_holding [OF assms(2,3), where db = db and e = e] by simp
  with None show ?thesis by (simp add: plannedDay_def shiftsOn_none [OF assms(1)])
next
  case (Some a)
  then have "inForceOn (sd_assignments db) e d a" using lastOf_holding [OF assms(2,3), where db = db and e = e] by simp
  from shiftsOn_at [OF assms(1) this] Some show ?thesis by (simp add: plannedDay_def)
qed

lemma planned_away:
  assumes "from \<le> d" "d < to" "length (halvesOf (approvedOn (sd_requests db) d None) (em_id person)) \<noteq> 2"
  shows "pd_away (plannedDay db rows (awayRequests db (em_id person) from to) d) \<noteq> None
    \<longleftrightarrow> (let f = factsOf hs (approvedOn (sd_requests db) d None) d person in df_leave f \<or> df_offSite f)"
proof -
  have "find (\<lambda>r. rq_fromDate r \<le> d \<and> d \<le> rq_toDate r) (awayRequests db (em_id person) from to) \<noteq> None
      \<longleftrightarrow> (\<exists>r \<in> set (approvedOn (sd_requests db) d None). rq_employeeId r = em_id person \<and> \<not> rq_halfDay r)"
    using assms(1,2) by (auto simp: find_None_iff awayRequests_def approvedOn_def)
  also have "\<dots> \<longleftrightarrow> (let f = factsOf hs (approvedOn (sd_requests db) d None) d person in df_leave f \<or> df_offSite f)"
    using assms(3) by (auto simp: factsOf_def Let_def)
  finally show ?thesis by (simp add: plannedDay_def)
qed


text \<open>The rest the two tell apart: the roster shows a holiday of any entity, the build counts the company's and the
  person's own, so somebody of one entity reads a day off that is measured as a working day.\<close>

lemma roster_shows_others_holiday:
  assumes "sd_holidays db = [\<lparr>hol_date = d, hol_entity = Some other, hol_paid = True\<rparr>]" "other \<noteq> own" "getUTCDay d \<notin> {6, 0}"
  shows "pd_holiday (plannedDay db rows away d) \<noteq> None" "calendarOn d (filter (\<lambda>h. hol_date h = d) (sd_holidays db)) (Some own) = WORKDAY"
  using assms by (simp_all add: plannedDay_def lastOf_def calendarOn_def)

subsection \<open>Days gone stay as they were measured\<close>

definition ended :: "day \<Rightarrow> string \<Rightarrow> Assignment \<Rightarrow> Assignment" where
  "ended today i a =
     (if asg_id a = i \<and> asg_validFrom a < today \<and> (case asg_validTo a of None \<Rightarrow> True | Some u \<Rightarrow> today - 1 < u)
      then a\<lparr>asg_validTo := Some (today - 1)\<rparr> else a)"

lemma ended_simps [simp]:
  "asg_id (ended today i a) = asg_id a" "asg_employeeId (ended today i a) = asg_employeeId a"
  "asg_validFrom (ended today i a) = asg_validFrom a" "asg_shiftId (ended today i a) = asg_shiftId a"
  by (simp_all add: ended_def)

lemma endOn_eq: "endOn today i rows = filter (\<lambda>a. \<not> (asg_id a = i \<and> today \<le> asg_validFrom a)) (map (ended today i) rows)"
  by (simp add: endOn_def deleteMany_def updateMany_def ended_def [abs_def])

lemma holdsOn_ended: "d < today \<Longrightarrow> holdsOn d (ended today i a) = holdsOn d a"
  by (auto simp: holdsOn_def ended_def split: option.splits)

lemma inForceOn_endOn:
  assumes "d < today"
  shows "inForceOn (endOn today i rows) e d a' \<longleftrightarrow> (\<exists>a. a' = ended today i a \<and> inForceOn rows e d a)"
proof -
  have early: "\<not> today \<le> asg_validFrom a" if "holdsOn d a" for a using assms that by (auto simp: holdsOn_def)
  have set: "{a \<in> set (endOn today i rows). asg_employeeId a = e \<and> holdsOn d a}
      = ended today i ` {a \<in> set rows. asg_employeeId a = e \<and> holdsOn d a}"
    using early by (auto simp: endOn_eq holdsOn_ended [OF assms])
  have force: "inForceOn rs e d x \<longleftrightarrow> x \<in> {a \<in> set rs. asg_employeeId a = e \<and> holdsOn d a}
      \<and> (\<forall>b \<in> {a \<in> set rs. asg_employeeId a = e \<and> holdsOn d a}. asg_validFrom b \<le> asg_validFrom x)" for rs x
    by (auto simp: inForceOn_def)
  show ?thesis unfolding force set by auto
qed

lemma shiftsOk_endOn:
  assumes "shiftsOk db"
  shows "shiftsOk (db\<lparr>sd_assignments := endOn today i (sd_assignments db)\<rparr>)"
proof -
  have "distinct (map ((\<lambda>a. (asg_employeeId a, asg_validFrom a)) \<circ> ended today i) (sd_assignments db))"
    using assms by (simp add: shiftsOk_def comp_def)
  then have "distinct (map (\<lambda>a. (asg_employeeId a, asg_validFrom a)) (endOn today i (sd_assignments db)))"
    unfolding endOn_eq by (intro distinct_map_filter) simp
  with assms show ?thesis by (auto simp: shiftsOk_def endOn_eq shiftNamed_def)
qed

text \<open>C29: taking somebody off a shift rewrites no day that is gone: on every day before today the build finds for
  everybody the shift it found before, so a rebuild of that day measures the same, and from today on the assignment taken
  back holds on no day.\<close>

theorem unassign_keeps_past:
  assumes "unassign v today db0 db i aid = Inr (db', eff)" "shiftsOk db"
  shows "(\<forall>d < today. \<forall>e. shiftsOn (clockedAssignments db') d None e = shiftsOn (clockedAssignments db) d None e)
     \<and> (\<forall>d \<ge> today. \<forall>a \<in> set (sd_assignments db'). asg_id a = aid \<longrightarrow> \<not> holdsOn d a)"
proof -
  have db': "db' = db\<lparr>sd_assignments := endOn today aid (sd_assignments db)\<rparr>" using assms(1) by (auto simp: unassign_def)
  have ok: "shiftsOk db'" unfolding db' by (rule shiftsOk_endOn [OF assms(2)])
  have named: "shiftNamed db' = shiftNamed db" by (simp add: db' shiftNamed_def fun_eq_iff)
  have "shiftsOn (clockedAssignments db') d None e = shiftsOn (clockedAssignments db) d None e" if d: "d < today" for d e
  proof (cases "\<exists>a. inForceOn (sd_assignments db) e d a")
    case True
    then obtain a where a: "inForceOn (sd_assignments db) e d a" by blast
    then have a': "inForceOn (sd_assignments db') e d (ended today aid a)" using inForceOn_endOn [OF d] by (auto simp: db')
    show ?thesis unfolding shiftsOn_at [OF ok a'] shiftsOn_at [OF assms(2) a] by (simp add: named)
  next
    case False
    then have "\<not> (\<exists>a. inForceOn (sd_assignments db') e d a)" using inForceOn_endOn [OF d] by (auto simp: db')
    with False show ?thesis by (simp add: shiftsOn_none [OF ok] shiftsOn_none [OF assms(2)])
  qed
  moreover have "\<not> holdsOn d a" if "today \<le> d" "a \<in> set (sd_assignments db')" "asg_id a = aid" for d a
  proof -
    from that(2,3) obtain b where b: "a = ended today aid b" "asg_id b = aid" "asg_validFrom b < today"
      by (auto simp: db' endOn_eq not_le) (metis ended_simps(1,3) not_le)
    show ?thesis unfolding b(1) using that(1) b(2,3) by (cases "asg_validTo b") (auto simp: holdsOn_def ended_def)
  qed
  ultimately show ?thesis by blast
qed


definition morningShift :: Shift where
  "morningShift = \<lparr>sh_id = ''m'', sh_name = ''Morning'', sh_startTime = (8, 0), sh_endTime = (17, 0), sh_graceMinutes = 5, sh_active = True\<rparr>"

definition shiftWorker :: Employee where
  "shiftWorker = \<lparr>em_id = 7, em_legalEntityId = ''e'', em_managerId = None, em_active = True, em_hireDate = None, em_leaveDate = None,
     em_departmentId = None, em_bankName = None, em_bankAccount = None\<rparr>"

definition shiftBoss :: Viewer where
  "shiftBoss = \<lparr>v_userId = ''hr'', v_role = HR, v_employeeId = Some 7, v_entityIds = None\<rparr>"

definition smallRoster :: ShiftsDb where
  "smallRoster = \<lparr>sd_shifts = [morningShift], sd_assignments = [\<lparr>asg_id = ''a'', asg_shiftId = ''m'', asg_employeeId = 7, asg_validFrom = 19000,
     asg_validTo = None\<rparr>], sd_staff = [shiftWorker], sd_holidays = [], sd_requests = []\<rparr>"


theorem unassign_keeps_past_witness:
  "let db' = fst (projr (unassign shiftBoss 20000 smallRoster smallRoster ''m'' ''a''))
   in shiftsOn (clockedAssignments db') 19999 None 7 = Some (clockOfShift morningShift)
     \<and> shiftsOn (clockedAssignments db') 20000 None 7 = None"
proof -
  let ?r = "unassign shiftBoss 20000 smallRoster smallRoster ''m'' ''a''"
  have r: "\<not> isl ?r" "shiftsOk smallRoster" "shiftsOn (clockedAssignments smallRoster) 19999 None 7 = Some (clockOfShift morningShift)"
    "shiftsOn (clockedAssignments (fst (projr ?r))) 20000 None 7 = None" by code_simp+
  then have "?r = Inr (fst (projr ?r), snd (projr ?r))" by (metis prod.collapse sum.collapse(2))
  from unassign_keeps_past [OF this r(2)] r(3,4) show ?thesis by simp
qed

end
