(* ===== verification/Compensation.thy ===== *)
theory Compensation
  imports Payslips Leave "HOL-Library.Signed_Division"
begin

section \<open>Pay records, allowances and dependants\<close>

text \<open>
  \<open>backend/src/modules/compensation/compensation.service.ts\<close>. A pay record is dated and never overwritten: a raise is
  one more row, with a copy of the allowances. The rows are those payroll reads (theory Payslips, \<open>payOf\<close> and
  \<open>dependentsOf\<close>); the queues, exports and names for screens are left out.
\<close>

datatype PayReason = HIRE | PROMOTION | ANNUAL_REVIEW | ADJUSTMENT | TRANSFER | OTHER_REASON

record PayRecord = CompensationRecord +
  pr_reason :: PayReason
  pr_note :: "string option"
  pr_createdById :: "string option"

record AllowanceType =
  at_id :: string
  at_code :: string
  at_name :: string
  at_taxable :: bool
  at_insurable :: bool
  at_taxFreeCap :: "dong option"
  at_d02Column :: "int option"
  at_active :: bool

record PayAllowance =
  pa_recordId :: string
  pa_typeId :: string
  pa_code :: string
  pa_label :: string
  pa_amount :: dong
  pa_taxable :: bool
  pa_insurable :: bool
  pa_taxFreeCap :: "dong option"
  pa_d02Column :: "int option"

record DependentRow = Dependent +
  dp_id :: string
  dp_fullName :: string
  dp_askedById :: "string option"
  dp_decidedById :: "string option"
  dp_decidedAt :: "instant option"
  dp_decisionNote :: "string option"

record CompDb =
  co_types :: "AllowanceType list"
  co_records :: "PayRecord list"
  co_allowances :: "PayAllowance list"
  co_dependents :: "DependentRow list"
  co_staff :: "Employee list"
  co_departments :: "string edges"

definition PAY_WRITERS :: "Role set" where "PAY_WRITERS = {ADMIN, HR}"
definition DEPENDENT_DESKS :: "Role set" where "DEPENDENT_DESKS = {ADMIN, PAYROLL}"

definition mayWritePay :: "Viewer \<Rightarrow> unit result" where
  "mayWritePay v = refuse (v_role v \<notin> PAY_WRITERS) (Forbidden ''PAY_WRITE_DENIED'')"

definition mayReadPay :: "Viewer \<Rightarrow> CompDb \<Rightarrow> int \<Rightarrow> unit result" where
  "mayReadPay v db e =
     refuse (\<not> reaches (map personOf (co_staff db)) v (deskOrSelfEmployeeIds v) e) (NotFound ''EMPLOYEE_NOT_FOUND'')"

subsection \<open>Allowance types\<close>

record AllowanceTypeBody =
  ab_code :: "string option"
  ab_name :: "string option"
  ab_taxable :: "bool option"
  ab_insurable :: "bool option"
  ab_taxFreeCap :: "dong option option"
  ab_d02Column :: "int option option"
  ab_active :: "bool option"

definition createAllowanceType :: "Viewer \<Rightarrow> CompDb \<Rightarrow> string \<Rightarrow> string \<Rightarrow> string \<Rightarrow> AllowanceTypeBody \<Rightarrow> (CompDb \<times> effect list) result" where
  "createAllowanceType v db i code name body =
     bindR (refuse (code \<in> at_code ` set (co_types db)) (Conflict ''ALLOWANCE_CODE_TAKEN'')) (\<lambda>_.
       Inr (db\<lparr>co_types := co_types db @ [\<lparr>at_id = i, at_code = code, at_name = name, at_taxable = orElse (ab_taxable body) True,
              at_insurable = orElse (ab_insurable body) False, at_taxFreeCap = orElse (ab_taxFreeCap body) None,
              at_d02Column = orElse (ab_d02Column body) None, at_active = True\<rparr>]\<rparr>,
            [Audited (v_userId v) ''ALLOWANCE_TYPE_CREATE'' i]))"

definition retyped :: "AllowanceTypeBody \<Rightarrow> AllowanceType \<Rightarrow> AllowanceType" where
  "retyped body t =
     t\<lparr>at_code := orElse (ab_code body) (at_code t), at_name := orElse (ab_name body) (at_name t),
       at_taxable := orElse (ab_taxable body) (at_taxable t), at_insurable := orElse (ab_insurable body) (at_insurable t),
       at_taxFreeCap := orElse (ab_taxFreeCap body) (at_taxFreeCap t), at_d02Column := orElse (ab_d02Column body) (at_d02Column t),
       at_active := orElse (ab_active body) (at_active t)\<rparr>"

definition updateAllowanceType :: "Viewer \<Rightarrow> CompDb \<Rightarrow> string \<Rightarrow> AllowanceTypeBody \<Rightarrow> (CompDb \<times> effect list) result" where
  "updateAllowanceType v db i body =
     bindR (found (firstWhere at_id i (co_types db)) (NotFound ''ALLOWANCE_TYPE_NOT_FOUND'')) (\<lambda>_.
     bindR (refuse (\<exists>t \<in> set (co_types db). at_id t \<noteq> i \<and> ab_code body = Some (at_code t)) (Conflict ''ALLOWANCE_CODE_TAKEN'')) (\<lambda>_.
       Inr (db\<lparr>co_types := updateMany (\<lambda>t. at_id t = i) (retyped body) (co_types db)\<rparr>,
            [Audited (v_userId v) ''ALLOWANCE_TYPE_UPDATE'' i])))"

text \<open>\<open>allowanceRows\<close>: each amount beside a copy of its type's rules, for the record \<open>recordId\<close>.\<close>

fun copyTypes :: "AllowanceType list \<Rightarrow> string \<Rightarrow> (string \<times> dong) list \<Rightarrow> (PayAllowance list) result" where
  "copyTypes types recordId [] = Inr []"
| "copyTypes types recordId ((i, amount) # ws) =
     bindR (found (find (\<lambda>t. at_id t = i \<and> at_active t) types) (NotFound ''ALLOWANCE_TYPE_NOT_FOUND'')) (\<lambda>t.
     bindR (copyTypes types recordId ws) (\<lambda>rows.
       Inr (\<lparr>pa_recordId = recordId, pa_typeId = at_id t, pa_code = at_code t, pa_label = at_name t, pa_amount = amount,
             pa_taxable = at_taxable t, pa_insurable = at_insurable t, pa_taxFreeCap = at_taxFreeCap t, pa_d02Column = at_d02Column t\<rparr> # rows)))"

definition allowanceRows :: "CompDb \<Rightarrow> string \<Rightarrow> (string \<times> dong) list \<Rightarrow> (PayAllowance list) result" where
  "allowanceRows db recordId wanted =
     bindR (refuse (\<not> distinct (map fst wanted)) (BadRequest ''ALLOWANCE_TYPE_REPEATED'')) (\<lambda>_. copyTypes (co_types db) recordId wanted)"

subsection \<open>Pay records\<close>

definition recordsOf :: "CompDb \<Rightarrow> int \<Rightarrow> PayRecord list" where
  "recordsOf db e = filter (\<lambda>r. cr_employeeId r = e) (co_records db)"

text \<open>\<open>ORDER BY effectiveFrom DESC LIMIT 1\<close>.\<close>

definition latest :: "PayRecord list \<Rightarrow> PayRecord option" where
  "latest rs = newest (\<lambda>a b. cr_effectiveFrom a > cr_effectiveFrom b) rs"

definition atDate :: "CompDb \<Rightarrow> int \<Rightarrow> day \<Rightarrow> PayRecord option" where
  "atDate db e on = latest (filter (\<lambda>r. cr_effectiveFrom r \<le> on) (recordsOf db e))"

definition dateTaken :: "CompDb \<Rightarrow> int \<Rightarrow> day \<Rightarrow> bool" where
  "dateTaken db e on \<longleftrightarrow> (\<exists>r \<in> set (recordsOf db e). cr_effectiveFrom r = on)"

record CreateCompensation =
  cc_employeeId :: int
  cc_effectiveFrom :: day
  cc_baseSalary :: dong
  cc_insuranceSalary :: dong
  cc_reason :: PayReason
  cc_note :: "string option"
  cc_allowances :: "(string \<times> dong) list"

definition createPay :: "Viewer \<Rightarrow> CompDb \<Rightarrow> CompDb \<Rightarrow> string \<Rightarrow> CreateCompensation \<Rightarrow> (CompDb \<times> effect list) result" where
  "createPay v db0 db i body =
     bindR (mayWritePay v) (\<lambda>_.
     bindR (refuseOwn v [cc_employeeId body]) (\<lambda>_.
     bindR (mayReadPay v db0 (cc_employeeId body)) (\<lambda>_.
     bindR (allowanceRows db0 i (cc_allowances body)) (\<lambda>rows.
     bindR (refuse (cc_employeeId body \<notin> em_id ` set (co_staff db)) (NotFound ''EMPLOYEE_NOT_FOUND'')) (\<lambda>_.
     bindR (refuse (dateTaken db (cc_employeeId body) (cc_effectiveFrom body)) (Conflict ''PAY_DATE_TAKEN'')) (\<lambda>_.
       Inr (db\<lparr>co_records := co_records db @ [\<lparr>cr_id = i, cr_employeeId = cc_employeeId body, cr_effectiveFrom = cc_effectiveFrom body,
                cr_baseSalary = cc_baseSalary body, cr_insuranceSalary = cc_insuranceSalary body, pr_reason = cc_reason body,
                pr_note = cc_note body, pr_createdById = Some (v_userId v)\<rparr>],
              co_allowances := co_allowances db @ rows\<rparr>,
            [Audited (v_userId v) ''PAY_CREATE'' (showNat (nat (cc_employeeId body)))])))))))"

definition hireRecord :: "string \<Rightarrow> string \<Rightarrow> int \<Rightarrow> day \<Rightarrow> dong \<Rightarrow> dong \<Rightarrow> PayRecord" where
  "hireRecord i actor e from base insurance =
     \<lparr>cr_id = i, cr_employeeId = e, cr_effectiveFrom = from, cr_baseSalary = base, cr_insuranceSalary = insurance,
      pr_reason = HIRE, pr_note = None, pr_createdById = Some actor\<rparr>"

text \<open>\<open>stageFirst\<close>, inside the caller's transaction with the person's row locked.\<close>

definition stageFirst ::
  "Viewer \<Rightarrow> CompDb \<Rightarrow> string \<Rightarrow> int \<Rightarrow> day \<Rightarrow> dong \<Rightarrow> dong \<Rightarrow> (CompDb \<times> string \<times> effect list) result" where
  "stageFirst v db i e from base insurance =
     bindR (mayWritePay v) (\<lambda>_.
     bindR (refuseOwn v [e]) (\<lambda>_.
       case latest (recordsOf db e) of
         Some held \<Rightarrow> Inr (db, cr_id held, [])
       | None \<Rightarrow> Inr (db\<lparr>co_records := co_records db @ [hireRecord i (v_userId v) e from base insurance]\<rparr>, i,
                     [Audited (v_userId v) ''PAY_CREATE'' (showNat (nat e))])))"

text \<open>\<open>seedFirst\<close>: one statement over the lines of an import, each of a person found by code; a person who has a record
  before the statement is passed over, and of two lines of one person and day the first is kept.\<close>

record FirstPay =
  fp_employeeId :: int
  fp_from :: "day option"
  fp_base :: dong
  fp_insurance :: dong

definition seedDay :: "CompDb \<Rightarrow> day \<Rightarrow> FirstPay \<Rightarrow> day" where
  "seedDay db fallback row =
     (case fp_from row of
        Some d \<Rightarrow> d
      | None \<Rightarrow> (case firstWhere em_id (fp_employeeId row) (co_staff db) of
                  None \<Rightarrow> fallback | Some e \<Rightarrow> orElse (em_hireDate e) fallback))"

fun seedRows :: "CompDb \<Rightarrow> (int \<Rightarrow> string) \<Rightarrow> string \<Rightarrow> day \<Rightarrow> FirstPay list \<Rightarrow> PayRecord list \<Rightarrow> PayRecord list" where
  "seedRows db newId actor fallback [] made = made"
| "seedRows db newId actor fallback (row # rows) made =
     (let e = fp_employeeId row; d = seedDay db fallback row in
      seedRows db newId actor fallback rows
        (if e \<notin> em_id ` set (co_staff db) \<or> recordsOf db e \<noteq> [] \<or> (\<exists>r \<in> set made. cr_employeeId r = e \<and> cr_effectiveFrom r = d)
         then made else made @ [hireRecord (newId (int (length made))) actor e d (fp_base row) (fp_insurance row)]))"

definition seedFirst :: "string \<Rightarrow> CompDb \<Rightarrow> (int \<Rightarrow> string) \<Rightarrow> FirstPay list \<Rightarrow> day \<Rightarrow> CompDb \<times> effect list" where
  "seedFirst actor db newId rows fallback =
     (let made = seedRows db newId actor fallback rows []
      in (db\<lparr>co_records := co_records db @ made\<rparr>, map (\<lambda>r. Audited actor ''PAY_CREATE'' (showNat (nat (cr_employeeId r)))) made))"


subsection \<open>A raise of many\<close>

record BulkRaise =
  br_departmentId :: "string option"
  br_employeeIds :: "int list option"
  br_effectiveFrom :: day
  br_percentBp :: "int option"
  br_amount :: "int option"
  br_raiseInsurance :: bool
  br_reason :: PayReason
  br_note :: "string option"

record RaisePreview =
  rp_employeeId :: int
  rp_currentBase :: dong
  rp_nextBase :: dong
  rp_currentInsurance :: dong
  rp_nextInsurance :: dong

definition raised :: "BulkRaise \<Rightarrow> dong \<Rightarrow> dong" where
  "raised body from =
     (case br_percentBp body of None \<Rightarrow> from + orElse (br_amount body) 0 | Some bp \<Rightarrow> from + (from * bp) sdiv 10000)"

text \<open>Who a raise is of, in the order of their ids; the plan shows them in the order of their codes.\<close>

definition raiseStaff :: "Viewer \<Rightarrow> CompDb \<Rightarrow> BulkRaise \<Rightarrow> Employee list" where
  "raiseStaff v db body =
     filter (\<lambda>e. em_active e \<and> em_id e \<noteq> orElse (v_employeeId v) 0
               \<and> peopleWhere v (deskOrSelfEmployeeIds v) (personOf e)
               \<and> (case br_departmentId body of None \<Rightarrow> True
                  | Some d \<Rightarrow> em_departmentId e \<in> Some ` set (departmentSubtree (co_departments db) d))
               \<and> (case br_employeeIds body of None \<Rightarrow> True | Some ids \<Rightarrow> em_id e \<in> set ids)
               \<and> atDate db (em_id e) (br_effectiveFrom body) \<noteq> None) (co_staff db)"

definition previewOf :: "CompDb \<Rightarrow> BulkRaise \<Rightarrow> int \<Rightarrow> RaisePreview" where
  "previewOf db body e =
     (let held = the (atDate db e (br_effectiveFrom body))
      in \<lparr>rp_employeeId = e, rp_currentBase = cr_baseSalary held, rp_nextBase = raised body (cr_baseSalary held),
          rp_currentInsurance = cr_insuranceSalary held,
          rp_nextInsurance = (if br_raiseInsurance body then raised body (cr_insuranceSalary held) else cr_insuranceSalary held)\<rparr>)"

definition previewRaise :: "Viewer \<Rightarrow> CompDb \<Rightarrow> BulkRaise \<Rightarrow> (RaisePreview list \<times> int list) result" where
  "previewRaise v db body =
     bindR (refuse ((br_percentBp body = None) = (br_amount body = None)) (BadRequest ''VALIDATION_FAILED'')) (\<lambda>_.
     bindR (mayWritePay v) (\<lambda>_.
     bindR (refuseOwn v []) (\<lambda>_.
       let ids = map em_id (raiseStaff v db body); taken = (\<lambda>e. dateTaken db e (br_effectiveFrom body))
       in Inr (map (previewOf db body) (filter (\<lambda>e. \<not> taken e) ids), filter taken ids))))"

text \<open>The statement that copies the allowances of the record before, for the people whose record landed.\<close>

definition recordBefore :: "CompDb \<Rightarrow> int \<Rightarrow> day \<Rightarrow> PayRecord option" where
  "recordBefore db e on = latest (filter (\<lambda>r. cr_effectiveFrom r < on) (recordsOf db e))"

definition carriedAllowances :: "CompDb \<Rightarrow> int \<Rightarrow> day \<Rightarrow> string \<Rightarrow> PayAllowance list" where
  "carriedAllowances db e on newRecord =
     (case recordBefore db e on of
        None \<Rightarrow> []
      | Some prev \<Rightarrow> map (\<lambda>a. a\<lparr>pa_recordId := newRecord\<rparr>) (filter (\<lambda>a. pa_recordId a = cr_id prev) (co_allowances db)))"

definition raiseRecord :: "Viewer \<Rightarrow> BulkRaise \<Rightarrow> (int \<Rightarrow> string) \<Rightarrow> RaisePreview \<Rightarrow> PayRecord" where
  "raiseRecord v body newId p =
     \<lparr>cr_id = newId (rp_employeeId p), cr_employeeId = rp_employeeId p, cr_effectiveFrom = br_effectiveFrom body,
      cr_baseSalary = rp_nextBase p, cr_insuranceSalary = rp_nextInsurance p, pr_reason = br_reason body, pr_note = br_note body,
      pr_createdById = Some (v_userId v)\<rparr>"

definition commitRaise :: "Viewer \<Rightarrow> CompDb \<Rightarrow> BulkRaise \<Rightarrow> (int \<Rightarrow> string) \<Rightarrow> RaisePreview list \<Rightarrow> CompDb \<times> RaisePreview list" where
  "commitRaise v db body newId rows =
     (let on = br_effectiveFrom body;
          fresh = filter (\<lambda>p. \<not> dateTaken db (rp_employeeId p) on) rows
      in (db\<lparr>co_records := co_records db @ map (raiseRecord v body newId) fresh,
             co_allowances := co_allowances db
               @ concat (map (\<lambda>p. carriedAllowances db (rp_employeeId p) on (newId (rp_employeeId p))) fresh)\<rparr>, fresh))"

definition applyRaise ::
  "Viewer \<Rightarrow> CompDb \<Rightarrow> CompDb \<Rightarrow> BulkRaise \<Rightarrow> (int \<Rightarrow> string) \<Rightarrow> (CompDb \<times> effect list \<times> int list \<times> int list) result" where
  "applyRaise v db0 db body newId =
     bindR (previewRaise v db0 body) (\<lambda>(rows, skipped).
       let (db1, fresh) = commitRaise v db body newId rows; landed = map rp_employeeId fresh
       in Inr (db1, [Audited (v_userId v) ''PAY_BULK_RAISE'' (orElse (br_departmentId body) ''selection'')], landed,
               skipped @ filter (\<lambda>e. e \<notin> set landed) (map rp_employeeId rows)))"

subsection \<open>Dependants\<close>

definition countActive :: "CompDb \<Rightarrow> int \<Rightarrow> day \<Rightarrow> int" where
  "countActive db e monthEnd =
     countWhere (\<lambda>d. dn_employeeId d = e \<and> dn_state d = DP_ACTIVE \<and> dn_fromMonth d \<le> monthEnd
                   \<and> (case dn_toMonth d of None \<Rightarrow> True | Some t \<Rightarrow> t \<ge> monthEnd)) (co_dependents db)"

record CreateDependent =
  cd_employeeId :: "int option"
  cd_fullName :: string
  cd_fromMonth :: day
  cd_toMonth :: "day option"

definition addDependent :: "Viewer \<Rightarrow> CompDb \<Rightarrow> CompDb \<Rightarrow> string \<Rightarrow> CreateDependent \<Rightarrow> (CompDb \<times> effect list) result" where
  "addDependent v db0 db i body =
     bindR (found (case cd_employeeId body of Some e \<Rightarrow> Some e | None \<Rightarrow> v_employeeId v) (NotFound ''EMPLOYEE_NOT_FOUND'')) (\<lambda>e.
     bindR (mayReadPay v db0 e) (\<lambda>_.
     bindR (refuse (e \<notin> em_id ` set (co_staff db)) (NotFound ''EMPLOYEE_NOT_FOUND'')) (\<lambda>_.
       Inr (db\<lparr>co_dependents := co_dependents db @ [\<lparr>dn_employeeId = e, dn_fromMonth = cd_fromMonth body, dn_toMonth = cd_toMonth body,
                dn_state = DP_PENDING, dp_id = i, dp_fullName = cd_fullName body, dp_askedById = Some (v_userId v),
                dp_decidedById = None, dp_decidedAt = None, dp_decisionNote = None\<rparr>]\<rparr>, [ItemOpened ''DEPENDENTS'' i]))))"

definition dependentNamed :: "CompDb \<Rightarrow> string \<Rightarrow> DependentRow option" where
  "dependentNamed db i = firstWhere dp_id i (co_dependents db)"

record DependentAnswer =
  da_approve :: bool
  da_note :: "string option"
  da_by :: string
  da_at :: instant

definition answeredDependent :: "DependentAnswer \<Rightarrow> DependentRow \<Rightarrow> DependentRow" where
  "answeredDependent a d =
     d\<lparr>dn_state := (if da_approve a then DP_ACTIVE else DP_REJECTED), dp_decidedById := Some (da_by a), dp_decidedAt := Some (da_at a),
       dp_decisionNote := da_note a\<rparr>"

definition waitingDependent :: "DependentRow \<Rightarrow> bool" where
  "waitingDependent d \<longleftrightarrow> dn_state d = DP_PENDING"

interpretation dependentOnce: settled_once dp_id waitingDependent answeredDependent
  by unfold_locales (simp_all add: answeredDependent_def waitingDependent_def)

definition decideDependent :: "instant \<Rightarrow> Viewer \<Rightarrow> CompDb \<Rightarrow> CompDb \<Rightarrow> string \<Rightarrow> bool \<Rightarrow> string option \<Rightarrow> (CompDb \<times> effect list) result" where
  "decideDependent now v db0 db i approve note' =
     bindR (refuse (v_role v \<notin> DEPENDENT_DESKS) (Forbidden ''PAY_WRITE_DENIED'')) (\<lambda>_.
     bindR (found (dependentNamed db0 i) (NotFound ''DEPENDENT_NOT_FOUND'')) (\<lambda>held.
     bindR (refuse (\<not> reaches (map personOf (co_staff db0)) v (deskOrSelfEmployeeIds v) (dn_employeeId held)) (NotFound ''DEPENDENT_NOT_FOUND'')) (\<lambda>_.
     bindR (refuse (dp_askedById held = Some (v_userId v)) (Forbidden ''SELF_DECISION'')) (\<lambda>_.
     bindR (refuseOwn v [dn_employeeId held]) (\<lambda>_.
       let (claimed, rows) = claimWhere (\<lambda>d. dp_id d = i \<and> waitingDependent d)
             (answeredDependent \<lparr>da_approve = approve, da_note = note', da_by = v_userId v, da_at = now\<rparr>) (co_dependents db)
       in bindR (refuse (claimed = 0) (Conflict ''REQUEST_ALREADY_DECIDED'')) (\<lambda>_.
            Inr (db\<lparr>co_dependents := rows\<rparr>,
              [Audited (v_userId v) (if approve then ''DEPENDENT_APPROVE'' else ''DEPENDENT_REJECT'') (showNat (nat (dn_employeeId held))),
               ItemClosed ''DEPENDENTS'' i (if approve then ''APPROVED'' else ''REJECTED''), Noticed (dn_employeeId held) ''REQUEST_DECIDED''])))))))"


subsection \<open>Pay once written is not rewritten\<close>

definition payKey :: "PayRecord \<Rightarrow> int \<times> day" where
  "payKey r = (cr_employeeId r, cr_effectiveFrom r)"

text \<open>The keys of the tables.\<close>

definition compOk :: "CompDb \<Rightarrow> bool" where
  "compOk db \<longleftrightarrow> distinct (map payKey (co_records db)) \<and> (\<forall>a \<in> set (co_allowances db). pa_recordId a \<in> cr_id ` set (co_records db))"

definition freshIds :: "CompDb \<Rightarrow> (int \<Rightarrow> string) \<Rightarrow> bool" where
  "freshIds db newId \<longleftrightarrow> inj newId \<and> range newId \<inter> cr_id ` set (co_records db) = {}"

inductive compStep :: "CompDb \<Rightarrow> CompDb \<Rightarrow> bool" where
  paid: "createPay v b c i body = Inr (d, eff) \<Longrightarrow> i \<notin> cr_id ` set (co_records c) \<Longrightarrow> compStep c d"
| staged: "stageFirst v c i e from base insurance = Inr (d, j, eff) \<Longrightarrow> i \<notin> cr_id ` set (co_records c) \<Longrightarrow> compStep c d"
| seeded: "seedFirst actor c newId rows fallback = (d, eff) \<Longrightarrow> freshIds c newId \<Longrightarrow> compStep c d"
| raised_many: "applyRaise v b c body newId = Inr (d, eff, landed, skipped) \<Longrightarrow> freshIds c newId \<Longrightarrow> distinct (map em_id (co_staff b))
    \<Longrightarrow> compStep c d"
| elsewhere: "co_records d = co_records c \<Longrightarrow> co_allowances d = co_allowances c \<Longrightarrow> compStep c d"

inductive compReach :: "CompDb \<Rightarrow> CompDb \<Rightarrow> bool" where
  start: "compReach a a"
| more: "compReach a c \<Longrightarrow> compStep c d \<Longrightarrow> compReach a d"

text \<open>Rows are only added, with new ids, and so are the allowances, to the new rows alone.\<close>

definition appends :: "CompDb \<Rightarrow> CompDb \<Rightarrow> PayRecord list \<Rightarrow> bool" where
  "appends c d new \<longleftrightarrow> co_records d = co_records c @ new \<and> cr_id ` set new \<inter> cr_id ` set (co_records c) = {}
     \<and> (\<exists>rows. co_allowances d = co_allowances c @ rows \<and> pa_recordId ` set rows \<subseteq> cr_id ` set new)"

lemma appends_trans:
  assumes "appends a c new" "appends c d new'"
  shows "appends a d (new @ new')"
proof -
  from assms obtain rows rows' where r: "co_allowances c = co_allowances a @ rows" "pa_recordId ` set rows \<subseteq> cr_id ` set new"
    "co_allowances d = co_allowances c @ rows'" "pa_recordId ` set rows' \<subseteq> cr_id ` set new'" by (auto simp: appends_def)
  have "co_allowances d = co_allowances a @ rows @ rows'" "pa_recordId ` set (rows @ rows') \<subseteq> cr_id ` set (new @ new')"
    using r by auto
  moreover have "co_records d = co_records a @ new @ new'" "cr_id ` set (new @ new') \<inter> cr_id ` set (co_records a) = {}"
    using assms by (auto simp: appends_def)
  ultimately show ?thesis unfolding appends_def by blast
qed

lemma compOk_appends:
  assumes "compOk c" "appends c d new" "distinct (map payKey new)" "payKey ` set new \<inter> payKey ` set (co_records c) = {}"
  shows "compOk d"
  using assms by (auto simp: compOk_def appends_def image_Un dest: subsetD [OF _ imageI])

lemma dateTaken_key: "dateTaken db e on \<longleftrightarrow> (e, on) \<in> payKey ` set (co_records db)"
  by (force simp: dateTaken_def recordsOf_def payKey_def)

lemma copyTypes_record: "copyTypes types recordId ws = Inr rows \<Longrightarrow> \<forall>x \<in> set rows. pa_recordId x = recordId"
  by (induction types recordId ws arbitrary: rows rule: copyTypes.induct) (auto simp: bindR_eq_Inr)

lemma seedRows_ok:
  assumes "inj newId"
  shows "distinct (map payKey made) \<Longrightarrow> payKey ` set made \<inter> payKey ` set (co_records db) = {} \<Longrightarrow> cr_id ` set made \<subseteq> range newId \<Longrightarrow>
    distinct (map payKey (seedRows db newId actor fallback rows made))
    \<and> payKey ` set (seedRows db newId actor fallback rows made) \<inter> payKey ` set (co_records db) = {}
    \<and> cr_id ` set (seedRows db newId actor fallback rows made) \<subseteq> range newId"
proof (induction rows arbitrary: made)
  case (Cons row rows)
  let ?e = "fp_employeeId row" let ?d = "seedDay db fallback row"
  let ?skip = "?e \<notin> em_id ` set (co_staff db) \<or> recordsOf db ?e \<noteq> [] \<or> (\<exists>r \<in> set made. cr_employeeId r = ?e \<and> cr_effectiveFrom r = ?d)"
  show ?case
  proof (cases ?skip)
    case True
    with Cons show ?thesis by (simp add: Let_def)
  next
    case False
    then have k: "(?e, ?d) \<notin> payKey ` set made" "(?e, ?d) \<notin> payKey ` set (co_records db)"
      by (auto simp: payKey_def recordsOf_def filter_empty_conv)
    let ?made = "made @ [hireRecord (newId (int (length made))) actor ?e ?d (fp_base row) (fp_insurance row)]"
    have eq: "seedRows db newId actor fallback (row # rows) made = seedRows db newId actor fallback rows ?made"
      by (simp only: seedRows.simps Let_def False if_False)
    have new: "payKey (last ?made) = (?e, ?d)" "cr_id (last ?made) \<in> range newId" by (simp_all add: payKey_def hireRecord_def)
    show ?thesis unfolding eq
      by (rule Cons.IH) (use k new Cons.prems in auto)
  qed
qed simp

lemma carried_record: "x \<in> set (carriedAllowances db e on i) \<Longrightarrow> pa_recordId x = i"
  by (auto simp: carriedAllowances_def split: option.splits)

lemma previewOf_who [simp]: "rp_employeeId (previewOf db body e) = e"
  by (simp add: previewOf_def Let_def)

lemma previewRaise_Inr:
  "previewRaise v db body = Inr (rows, skipped) \<Longrightarrow>
     v_role v \<in> PAY_WRITERS
     \<and> rows = map (previewOf db body) (filter (\<lambda>e. \<not> dateTaken db e (br_effectiveFrom body)) (map em_id (raiseStaff v db body)))
     \<and> skipped = filter (\<lambda>e. dateTaken db e (br_effectiveFrom body)) (map em_id (raiseStaff v db body))"
  by (auto simp: previewRaise_def bindR_eq_Inr Let_def mayWritePay_def)

lemma commitRaise_plans:
  "commitRaise v db body newId (map (previewOf b body) es) =
     (let new = filter (\<lambda>e. \<not> dateTaken db e (br_effectiveFrom body)) es in
      (db\<lparr>co_records := co_records db @ map (raiseRecord v body newId \<circ> previewOf b body) new,
          co_allowances := co_allowances db @ concat (map (\<lambda>e. carriedAllowances db e (br_effectiveFrom body) (newId e)) new)\<rparr>,
       map (previewOf b body) new))"
  by (simp add: commitRaise_def Let_def filter_map comp_def)

lemma applyRaise_Inr:
  assumes "applyRaise v b c body newId = Inr (d, eff, landed, skipped)"
  obtains rows where "rows = filter (\<lambda>e. \<not> dateTaken b e (br_effectiveFrom body)) (map em_id (raiseStaff v b body))"
    "landed = filter (\<lambda>e. \<not> dateTaken c e (br_effectiveFrom body)) rows"
    "co_records d = co_records c @ map (raiseRecord v body newId \<circ> previewOf b body) landed"
    "co_allowances d = co_allowances c @ concat (map (\<lambda>e. carriedAllowances c e (br_effectiveFrom body) (newId e)) landed)"
    "skipped = filter (\<lambda>e. dateTaken b e (br_effectiveFrom body)) (map em_id (raiseStaff v b body)) @ filter (\<lambda>e. e \<notin> set landed) rows"
proof -
  from assms obtain plan old where p: "previewRaise v b body = Inr (plan, old)"
    by (auto simp: applyRaise_def bindR_eq_Inr)
  define rows where "rows = filter (\<lambda>e. \<not> dateTaken b e (br_effectiveFrom body)) (map em_id (raiseStaff v b body))"
  have plan: "plan = map (previewOf b body) rows" and old: "old = filter (\<lambda>e. dateTaken b e (br_effectiveFrom body)) (map em_id (raiseStaff v b body))"
    using previewRaise_Inr [OF p] by (simp_all add: rows_def)
  have ids: "map rp_employeeId (map (previewOf b body) es) = es" for es by (simp add: comp_def)
  note eq = assms [unfolded applyRaise_def p bindR_def sum.case prod.case Let_def plan commitRaise_plans ids]
  show thesis by (rule that [OF rows_def]) (use eq in \<open>auto simp: old\<close>)
qed


lemma latest_None: "latest rs = None \<longleftrightarrow> rs = []"
  by (cases rs) (auto simp: latest_def split: option.splits)

lemma raiseStaff_distinct: "distinct (map em_id (co_staff b)) \<Longrightarrow> distinct (map em_id (raiseStaff v b body))"
  by (simp add: raiseStaff_def distinct_map_filter)

lemma compStep_appends:
  assumes "compStep c d"
  shows "\<exists>new. appends c d new \<and> distinct (map payKey new) \<and> payKey ` set new \<inter> payKey ` set (co_records c) = {}"
  using assms
proof cases
  case (paid v b i body eff)
  then obtain rows r where r: "co_records d = co_records c @ [r]" "cr_id r = i" "payKey r = (cc_employeeId body, cc_effectiveFrom body)"
    "co_allowances d = co_allowances c @ rows" "copyTypes (co_types b) i (cc_allowances body) = Inr rows"
    "\<not> dateTaken c (cc_employeeId body) (cc_effectiveFrom body)"
    by (auto simp: createPay_def bindR_eq_Inr allowanceRows_def payKey_def)
  have "appends c d [r]" unfolding appends_def using r copyTypes_record [OF r(5)] paid(2) by auto
  with r show ?thesis by (intro exI [of _ "[r]"]) (simp add: dateTaken_key)
next
  case (staged v i e "from" base insurance j eff)
  show ?thesis
  proof (cases "latest (recordsOf c e)")
    case None
    then have "\<forall>r \<in> set (co_records c). cr_employeeId r \<noteq> e" by (simp add: latest_None recordsOf_def filter_empty_conv)
    with None staged have "appends c d [hireRecord i (v_userId v) e from base insurance]"
      "payKey (hireRecord i (v_userId v) e from base insurance) \<notin> payKey ` set (co_records c)"
      by (auto simp: stageFirst_def bindR_eq_Inr appends_def hireRecord_def payKey_def)
    then show ?thesis by (intro exI [of _ "[hireRecord i (v_userId v) e from base insurance]"]) simp
  next
    case (Some r)
    with staged have "appends c d []" by (auto simp: stageFirst_def bindR_eq_Inr appends_def)
    then show ?thesis by (intro exI [of _ "[]"]) simp
  qed
next
  case (seeded actor newId rows fallback eff)
  let ?new = "seedRows c newId actor fallback rows []"
  have new: "co_records d = co_records c @ ?new" "co_allowances d = co_allowances c"
    using seeded(1) by (auto simp: seedFirst_def Let_def)
  have k: "distinct (map payKey ?new) \<and> payKey ` set ?new \<inter> payKey ` set (co_records c) = {} \<and> cr_id ` set ?new \<subseteq> range newId"
    by (rule seedRows_ok) (use seeded(2) in \<open>simp_all add: freshIds_def\<close>)
  then have "cr_id ` set ?new \<inter> cr_id ` set (co_records c) = {}" using seeded(2) unfolding freshIds_def by blast
  with new have "appends c d ?new" by (simp add: appends_def)
  with k show ?thesis by blast
next
  case (raised_many v b body newId eff landed skipped)
  obtain rows where r:
    "rows = filter (\<lambda>e. \<not> dateTaken b e (br_effectiveFrom body)) (map em_id (raiseStaff v b body))"
    "landed = filter (\<lambda>e. \<not> dateTaken c e (br_effectiveFrom body)) rows"
    "co_records d = co_records c @ map (raiseRecord v body newId \<circ> previewOf b body) landed"
    "co_allowances d = co_allowances c @ concat (map (\<lambda>e. carriedAllowances c e (br_effectiveFrom body) (newId e)) landed)"
    by (rule applyRaise_Inr [OF raised_many(1)])
  let ?new = "map (raiseRecord v body newId \<circ> previewOf b body) landed"
  have land: "distinct landed" using raiseStaff_distinct [OF raised_many(3)] by (simp add: r)
  have key: "map payKey ?new = map (\<lambda>e. (e, br_effectiveFrom body)) landed" "cr_id ` set ?new = newId ` set landed"
    by (simp_all add: raiseRecord_def payKey_def comp_def image_image)
  have dk: "distinct (map payKey ?new)" unfolding key(1) using land by (simp add: distinct_map inj_on_def)
  have out: "payKey ` set ?new \<inter> payKey ` set (co_records c) = {}"
    unfolding set_map [symmetric] key(1) by (auto simp: r(2) dateTaken_key)
  have "pa_recordId ` set (concat (map (\<lambda>e. carriedAllowances c e (br_effectiveFrom body) (newId e)) landed)) \<subseteq> cr_id ` set ?new"
    unfolding key(2) by (auto dest: carried_record)
  moreover have "cr_id ` set ?new \<inter> cr_id ` set (co_records c) = {}" unfolding key(2) using raised_many(2) by (auto simp: freshIds_def)
  ultimately have "appends c d ?new" using r unfolding appends_def by blast
  with dk out show ?thesis by blast
next
  case elsewhere
  then show ?thesis by (intro exI [of _ "[]"]) (simp add: appends_def)
qed

lemma compReach_appends:
  assumes "compReach a d" "compOk a"
  shows "compOk d \<and> (\<exists>new. appends a d new)"
  using assms
proof (induction rule: compReach.induct)
  case (start a)
  then show ?case by (intro conjI exI [of _ "[]"]) (simp_all add: appends_def)
next
  case (more a c d)
  then obtain old where old: "compOk c" "appends a c old" by blast
  from compStep_appends [OF more.hyps(2)] obtain new where new: "appends c d new" "distinct (map payKey new)"
    "payKey ` set new \<inter> payKey ` set (co_records c) = {}" by blast
  from compOk_appends [OF old(1) new] appends_trans [OF old(2) new(1)] show ?case by blast
qed

text \<open>The rows payroll reads.\<close>

lemma atDate_appends:
  assumes "appends a d new" "\<forall>r \<in> set new. cr_employeeId r = e \<longrightarrow> on < cr_effectiveFrom r"
  shows "atDate d e on = atDate a e on"
proof -
  have "filter (\<lambda>r. cr_effectiveFrom r \<le> on) (filter (\<lambda>r. cr_employeeId r = e) new) = []"
    using assms(2) by (auto simp: filter_empty_conv)
  with assms(1) show ?thesis by (simp add: atDate_def recordsOf_def appends_def)
qed

lemma newest_map: "newest (\<lambda>a b. later (f a) (f b)) rs = x \<Longrightarrow> newest later (map f rs) = map_option f x"
  by (induction rs arbitrary: x) (auto split: option.splits)

definition booksPay :: "CompDb \<Rightarrow> CompensationRecord list" where
  "booksPay db = map CompensationRecord.truncate (co_records db)"

lemma truncate_fields [simp]:
  "cr_employeeId (CompensationRecord.truncate r) = cr_employeeId r"
  "cr_effectiveFrom (CompensationRecord.truncate r) = cr_effectiveFrom r"
  by (simp_all add: CompensationRecord.truncate_def)

lemma payOf_atDate:
  assumes "pb_compensation pb = booksPay db"
  shows "payOf pb e on = map_option CompensationRecord.truncate (atDate db e on)"
proof -
  have "filter (\<lambda>c. cr_employeeId c = e \<and> cr_effectiveFrom c \<le> on) (booksPay db)
      = map CompensationRecord.truncate (filter (\<lambda>r. cr_effectiveFrom r \<le> on) (recordsOf db e))"
    by (simp add: booksPay_def recordsOf_def filter_map comp_def conj_commute)
  then show ?thesis unfolding payOf_def assms atDate_def latest_def
    by (simp add: newest_map [where later = "\<lambda>a b. cr_effectiveFrom a > cr_effectiveFrom b" and f = CompensationRecord.truncate])
qed


text \<open>C6: pay once written is never rewritten. Whatever the desks of the pay do, one record by one, a first record of a
  hire, the first records of an import or a raise of many, with each request reading before it commits, the table only
  grows: no person gets two records of one day, the allowances of every record that was there stay as they were, and what
  payroll reads as the pay of a person on a day is unchanged for every day before the first new record of that person.\<close>

theorem pay_appended:
  assumes "compReach a d" "compOk a"
  shows "distinct (map payKey (co_records d))
    \<and> (\<exists>new. co_records d = co_records a @ new
         \<and> (\<forall>r \<in> set (co_records a). filter (\<lambda>x. pa_recordId x = cr_id r) (co_allowances d)
              = filter (\<lambda>x. pa_recordId x = cr_id r) (co_allowances a))
         \<and> (\<forall>pb pb' e on. pb_compensation pb = booksPay a \<longrightarrow> pb_compensation pb' = booksPay d
              \<longrightarrow> (\<forall>r \<in> set new. cr_employeeId r = e \<longrightarrow> on < cr_effectiveFrom r) \<longrightarrow> payOf pb' e on = payOf pb e on))"
proof -
  from compReach_appends [OF assms] obtain new where ok: "compOk d" and new: "appends a d new" by blast
  then obtain rows where r: "co_records d = co_records a @ new" "co_allowances d = co_allowances a @ rows"
    "cr_id ` set new \<inter> cr_id ` set (co_records a) = {}" "pa_recordId ` set rows \<subseteq> cr_id ` set new"
    by (auto simp: appends_def)
  have "filter (\<lambda>x. pa_recordId x = cr_id s) rows = []" if "s \<in> set (co_records a)" for s
    using r(3,4) that by (fastforce simp: filter_empty_conv)
  with ok r(1,2) atDate_appends [OF new] show ?thesis by (auto simp: compOk_def payOf_atDate)
qed

subsection \<open>A raise lands where it was planned\<close>

lemma newest_snoc: "\<forall>x \<in> set rs. later r x \<Longrightarrow> newest later (rs @ [r]) = Some r"
  by (induction rs) auto

lemma filter_single: "distinct xs \<Longrightarrow> x \<in> set xs \<Longrightarrow> filter (\<lambda>y. y = x) xs = [x]"
  by (induction xs) (auto simp: filter_empty_conv)

lemma filter_concat_single:
  "distinct xs \<Longrightarrow> x \<in> set xs \<Longrightarrow> (\<And>y. filter P (f y) = (if y = x then f y else [])) \<Longrightarrow> filter P (concat (map f xs)) = f x"
proof (induction xs)
  case (Cons y xs)
  have "x \<notin> set xs \<Longrightarrow> filter P (concat (map f xs)) = []" using Cons.prems(3) by (auto simp: filter_concat concat_eq_Nil_conv)
  with Cons show ?case by auto
qed simp

lemma raise_records:
  assumes "co_records d = co_records c @ map (raiseRecord v body newId \<circ> previewOf b body) landed" "distinct landed"
  shows "recordsOf d e = recordsOf c e @ (if e \<in> set landed then [raiseRecord v body newId (previewOf b body e)] else [])"
proof -
  have "filter (\<lambda>r. cr_employeeId r = e) (map (raiseRecord v body newId \<circ> previewOf b body) landed)
      = map (raiseRecord v body newId \<circ> previewOf b body) (filter (\<lambda>x. x = e) landed)"
    by (simp add: filter_map comp_def raiseRecord_def)
  moreover have "filter (\<lambda>x. x = e) landed = (if e \<in> set landed then [e] else [])"
    using filter_single [OF assms(2)] by (auto simp: filter_empty_conv)
  ultimately show ?thesis using assms(1) by (simp add: recordsOf_def)
qed

lemma atDate_snoc:
  assumes "recordsOf d e = recordsOf c e @ [r]" "\<not> dateTaken c e (cr_effectiveFrom r)"
  shows "atDate d e (cr_effectiveFrom r) = Some r"
  unfolding atDate_def latest_def assms(1)
  by (simp, rule newest_snoc) (use assms(2) in \<open>auto simp: dateTaken_def less_le\<close>)


lemma raise_lands:
  assumes "applyRaise v b c body newId = Inr (d, eff, landed, skipped)" "freshIds c newId" "compOk c"
    "distinct (map em_id (co_staff b))"
  defines "on \<equiv> br_effectiveFrom body"
  shows "set landed \<union> set skipped = em_id ` set (raiseStaff v b body)" "set landed \<inter> set skipped = {}"
    "\<forall>e. v_employeeId v = Some e \<longrightarrow> 0 < e \<longrightarrow> e \<notin> set landed"
    "\<forall>e \<in> set landed. \<exists>held r. atDate b e on = Some held \<and> atDate d e on = Some r
        \<and> cr_baseSalary r = raised body (cr_baseSalary held)
        \<and> cr_insuranceSalary r = (if br_raiseInsurance body then raised body (cr_insuranceSalary held) else cr_insuranceSalary held)
        \<and> filter (\<lambda>x. pa_recordId x = cr_id r) (co_allowances d) = carriedAllowances c e on (cr_id r)"
    "\<forall>e. e \<notin> set landed \<longrightarrow> recordsOf d e = recordsOf c e"
proof -
  obtain rows where r: "rows = filter (\<lambda>e. \<not> dateTaken b e on) (map em_id (raiseStaff v b body))"
    "landed = filter (\<lambda>e. \<not> dateTaken c e on) rows"
    "co_records d = co_records c @ map (raiseRecord v body newId \<circ> previewOf b body) landed"
    "co_allowances d = co_allowances c @ concat (map (\<lambda>e. carriedAllowances c e on (newId e)) landed)"
    "skipped = filter (\<lambda>e. dateTaken b e on) (map em_id (raiseStaff v b body)) @ filter (\<lambda>e. e \<notin> set landed) rows"
    unfolding on_def by (rule applyRaise_Inr [OF assms(1)])
  have land: "distinct landed" using raiseStaff_distinct [OF assms(4)] by (simp add: r(1,2))
  show "set landed \<union> set skipped = em_id ` set (raiseStaff v b body)" "set landed \<inter> set skipped = {}"
    by (auto simp: r(1,2,5))
  show "\<forall>e. v_employeeId v = Some e \<longrightarrow> 0 < e \<longrightarrow> e \<notin> set landed" by (auto simp: r(1,2) raiseStaff_def)
  note recs = raise_records [OF r(3) land]
  show "\<forall>e. e \<notin> set landed \<longrightarrow> recordsOf d e = recordsOf c e" by (simp add: recs)
  show "\<forall>e \<in> set landed. \<exists>held r. atDate b e on = Some held \<and> atDate d e on = Some r
        \<and> cr_baseSalary r = raised body (cr_baseSalary held)
        \<and> cr_insuranceSalary r = (if br_raiseInsurance body then raised body (cr_insuranceSalary held) else cr_insuranceSalary held)
        \<and> filter (\<lambda>x. pa_recordId x = cr_id r) (co_allowances d) = carriedAllowances c e on (cr_id r)"
  proof
    fix e assume e: "e \<in> set landed"
    then obtain held where held: "atDate b e on = Some held" by (auto simp: r(1,2) raiseStaff_def on_def)
    let ?r = "raiseRecord v body newId (previewOf b body e)"
    have f: "cr_effectiveFrom ?r = on" "cr_id ?r = newId e" "cr_baseSalary ?r = raised body (cr_baseSalary held)"
      "cr_insuranceSalary ?r = (if br_raiseInsurance body then raised body (cr_insuranceSalary held) else cr_insuranceSalary held)"
      using held by (simp_all add: raiseRecord_def previewOf_def on_def Let_def)
    have "recordsOf d e = recordsOf c e @ [?r]" using e by (simp add: recs)
    from atDate_snoc [OF this] e have now: "atDate d e on = Some ?r" by (simp add: f r(2))
    have "newId e \<notin> cr_id ` set (co_records c)" using assms(2) by (auto simp: freshIds_def)
    then have old: "filter (\<lambda>x. pa_recordId x = newId e) (co_allowances c) = []"
      using assms(3) unfolding compOk_def filter_empty_conv by metis
    have ids: "newId x = newId y \<longleftrightarrow> x = y" for x y using assms(2) by (auto simp: freshIds_def inj_eq)
    have "filter (\<lambda>x. pa_recordId x = newId e) (carriedAllowances c y on (newId y))
        = (if y = e then carriedAllowances c y on (newId y) else [])" for y
      by (auto simp: filter_id_conv filter_empty_conv ids dest!: carried_record)
    then have "filter (\<lambda>x. pa_recordId x = newId e) (concat (map (\<lambda>e. carriedAllowances c e on (newId e)) landed))
        = carriedAllowances c e on (newId e)"
      by (rule filter_concat_single [OF land e])
    with old have "filter (\<lambda>x. pa_recordId x = cr_id ?r) (co_allowances d) = carriedAllowances c e on (cr_id ?r)"
      by (simp add: r(4) f)
    with held now f show "\<exists>held r. atDate b e on = Some held \<and> atDate d e on = Some r
        \<and> cr_baseSalary r = raised body (cr_baseSalary held)
        \<and> cr_insuranceSalary r = (if br_raiseInsurance body then raised body (cr_insuranceSalary held) else cr_insuranceSalary held)
        \<and> filter (\<lambda>x. pa_recordId x = cr_id r) (co_allowances d) = carriedAllowances c e on (cr_id r)" by blast
  qed
qed

text \<open>C24: a raise of many lands exactly as it was shown. Everyone named in the plan either lands or is handed back as
  skipped, never both; who lands has from the day of the raise the salary of the record in force that day raised by the
  step (the insured salary too when the desk asked for it) and the allowances of the record before, and nobody else's
  records change; the person who presses is never among them.\<close>

theorem raise_exact:
  assumes "applyRaise v b c body newId = Inr (d, eff, landed, skipped)" "freshIds c newId" "compOk c"
    "distinct (map em_id (co_staff b))"
  shows "set landed \<union> set skipped = em_id ` set (raiseStaff v b body) \<and> set landed \<inter> set skipped = {}
    \<and> (\<forall>e. v_employeeId v = Some e \<longrightarrow> 0 < e \<longrightarrow> e \<notin> set landed)
    \<and> (\<forall>e \<in> set landed. \<exists>held r. atDate b e (br_effectiveFrom body) = Some held \<and> atDate d e (br_effectiveFrom body) = Some r
        \<and> cr_baseSalary r = raised body (cr_baseSalary held)
        \<and> cr_insuranceSalary r = (if br_raiseInsurance body then raised body (cr_insuranceSalary held) else cr_insuranceSalary held)
        \<and> filter (\<lambda>x. pa_recordId x = cr_id r) (co_allowances d) = carriedAllowances c e (br_effectiveFrom body) (cr_id r))
    \<and> (\<forall>e. e \<notin> set landed \<longrightarrow> recordsOf d e = recordsOf c e)"
  by (intro conjI raise_lands [OF assms])

subsection \<open>A dependant is decided once\<close>

lemma answered_fields [simp]:
  "dp_id (answeredDependent a x) = dp_id x" "dn_employeeId (answeredDependent a x) = dn_employeeId x"
  "dn_fromMonth (answeredDependent a x) = dn_fromMonth x" "dn_toMonth (answeredDependent a x) = dn_toMonth x"
  "dn_state (answeredDependent a x) = (if da_approve a then DP_ACTIVE else DP_REJECTED)"
  by (simp_all add: answeredDependent_def)

lemma decideDependent_Inr:
  assumes "decideDependent now v b c i approve why = Inr (d, eff)"
  obtains held where "dependentNamed b i = Some held" "v_role v \<in> DEPENDENT_DESKS" "dp_askedById held \<noteq> Some (v_userId v)"
    "v_employeeId v \<noteq> Some (dn_employeeId held)"
    "fst (dependentOnce.press i \<lparr>da_approve = approve, da_note = why, da_by = v_userId v, da_at = now\<rparr> (co_dependents c)) \<noteq> 0"
    "co_dependents d = snd (dependentOnce.press i \<lparr>da_approve = approve, da_note = why, da_by = v_userId v, da_at = now\<rparr> (co_dependents c))"
proof -
  obtain n rows where p: "dependentOnce.press i \<lparr>da_approve = approve, da_note = why, da_by = v_userId v, da_at = now\<rparr> (co_dependents c)
      = (n, rows)" by fastforce
  from assms obtain held where "dependentNamed b i = Some held" "v_role v \<in> DEPENDENT_DESKS" "dp_askedById held \<noteq> Some (v_userId v)"
    "\<forall>e. v_employeeId v = Some e \<longrightarrow> e \<noteq> dn_employeeId held" "n \<noteq> 0" "co_dependents d = rows"
    by (auto simp: decideDependent_def bindR_eq_Inr p)
  then show thesis by (intro that [of held]) (auto simp: p)
qed

definition countsOn :: "day \<Rightarrow> DependentRow \<Rightarrow> bool" where
  "countsOn m x \<longleftrightarrow> dn_fromMonth x \<le> m \<and> (case dn_toMonth x of None \<Rightarrow> True | Some t \<Rightarrow> t \<ge> m)"

lemma countActive_alt: "countActive db e m = countWhere (\<lambda>x. dn_employeeId x = e \<and> dn_state x = DP_ACTIVE \<and> countsOn m x) (co_dependents db)"
  by (simp add: countActive_def countsOn_def)

lemma count_press:
  assumes "distinct (map dp_id rows)" "firstWhere dp_id i rows = Some row" "waitingDependent row"
  shows "countWhere (\<lambda>x. dn_employeeId x = e \<and> dn_state x = DP_ACTIVE \<and> countsOn m x) (snd (dependentOnce.press i a rows))
    = countWhere (\<lambda>x. dn_employeeId x = e \<and> dn_state x = DP_ACTIVE \<and> countsOn m x) rows
      + (if da_approve a \<and> dn_employeeId row = e \<and> countsOn m row then 1 else 0)"
  using assms
proof (induction rows)
  case (Cons x rows)
  have keep: "dp_id x = i \<Longrightarrow> updateMany (\<lambda>d. dp_id d = i \<and> waitingDependent d) (answeredDependent a) rows = rows"
    using Cons.prems(1) unfolding updateMany_def by (intro map_idI) (auto simp: image_iff)
  have c: "countsOn m (answeredDependent a x) = countsOn m x" by (simp add: countsOn_def)
  from Cons keep c show ?case
    by (cases "dp_id x = i") (auto simp: claimWhere_def firstWhere_def waitingDependent_def countWhere_def)
qed (simp add: firstWhere_def)


lemma dependent_decided:
  assumes "decideDependent now v b c i approve why = Inr (d, eff)" "distinct (map dp_id (co_dependents c))"
  shows "\<exists>held row. dependentNamed b i = Some held \<and> v_role v \<in> {ADMIN, PAYROLL} \<and> dp_askedById held \<noteq> Some (v_userId v)
      \<and> v_employeeId v \<noteq> Some (dn_employeeId held)
      \<and> dependentNamed c i = Some row \<and> dn_state row = DP_PENDING
      \<and> (\<exists>after. dependentNamed d i = Some after \<and> dn_state after = (if approve then DP_ACTIVE else DP_REJECTED)
            \<and> dn_employeeId after = dn_employeeId row \<and> dn_fromMonth after = dn_fromMonth row \<and> dn_toMonth after = dn_toMonth row)
      \<and> (\<forall>e m. countActive d e m = countActive c e m + (if approve \<and> dn_employeeId row = e \<and> countsOn m row then 1 else 0))"
    and "\<forall>j. j \<noteq> i \<longrightarrow> dependentNamed d j = dependentNamed c j"
    and "\<forall>now' v' b' approve' why'. \<exists>err. decideDependent now' v' b' d i approve' why' = Inl err"
proof -
  let ?a = "\<lparr>da_approve = approve, da_note = why, da_by = v_userId v, da_at = now\<rparr>"
  obtain held where h: "dependentNamed b i = Some held" "v_role v \<in> DEPENDENT_DESKS" "dp_askedById held \<noteq> Some (v_userId v)"
    "v_employeeId v \<noteq> Some (dn_employeeId held)" "fst (dependentOnce.press i ?a (co_dependents c)) \<noteq> 0"
    and d: "co_dependents d = snd (dependentOnce.press i ?a (co_dependents c))"
    by (rule decideDependent_Inr [OF assms(1)])
  from h(5) obtain row where row: "dependentNamed c i = Some row" "waitingDependent row"
    by (auto simp: dependentNamed_def dependentOnce.press_waits [OF assms(2)] split: if_splits)
  have after: "dependentNamed d i = Some (answeredDependent ?a row)"
    using row by (simp add: dependentNamed_def d dependentOnce.press_row)
  have "countActive d e m = countActive c e m + (if approve \<and> dn_employeeId row = e \<and> countsOn m row then 1 else 0)" for e m
    using count_press [OF assms(2), of i row e m ?a] row by (simp add: countActive_alt d dependentNamed_def)
  with h row after show "\<exists>held row. dependentNamed b i = Some held \<and> v_role v \<in> {ADMIN, PAYROLL} \<and> dp_askedById held \<noteq> Some (v_userId v)
      \<and> v_employeeId v \<noteq> Some (dn_employeeId held)
      \<and> dependentNamed c i = Some row \<and> dn_state row = DP_PENDING
      \<and> (\<exists>after. dependentNamed d i = Some after \<and> dn_state after = (if approve then DP_ACTIVE else DP_REJECTED)
            \<and> dn_employeeId after = dn_employeeId row \<and> dn_fromMonth after = dn_fromMonth row \<and> dn_toMonth after = dn_toMonth row)
      \<and> (\<forall>e m. countActive d e m = countActive c e m + (if approve \<and> dn_employeeId row = e \<and> countsOn m row then 1 else 0))"
    by (auto simp: DEPENDENT_DESKS_def waitingDependent_def)
  show "\<forall>j. j \<noteq> i \<longrightarrow> dependentNamed d j = dependentNamed c j"
    by (simp add: dependentNamed_def d dependentOnce.press_other)
  have again: "fst (dependentOnce.press i a (co_dependents d)) = 0" for a by (simp only: d dependentOnce.press_again)
  show "\<forall>now' v' b' approve' why'. \<exists>err. decideDependent now' v' b' d i approve' why' = Inl err"
  proof (intro allI)
    fix now' v' b' approve' why'
    show "\<exists>err. decideDependent now' v' b' d i approve' why' = Inl err"
    proof (cases "decideDependent now' v' b' d i approve' why'")
      case (Inr x)
      then obtain d' eff' where "decideDependent now' v' b' d i approve' why' = Inr (d', eff')" by (cases x) auto
      then show ?thesis by (rule decideDependent_Inr) (simp add: again)
    qed simp
  qed
qed

text \<open>C28: a dependant is decided once and by nobody with a stake in it. An answer comes from an administrator or the pay
  desk, neither the one who asked nor the person whose dependant it is; it falls on a row that still waited when it was
  written, whatever the desk read before, and stays: every later answer, by anyone and from any reading, is refused. Only
  that row changes, and the count payroll takes of a month grows by one exactly when the answer is yes, the person is the
  row's and the month lies in the row's months.\<close>

theorem dependent_once:
  assumes "decideDependent now v b c i approve why = Inr (d, eff)" "distinct (map dp_id (co_dependents c))"
  shows "(\<exists>held row. dependentNamed b i = Some held \<and> v_role v \<in> {ADMIN, PAYROLL} \<and> dp_askedById held \<noteq> Some (v_userId v)
      \<and> v_employeeId v \<noteq> Some (dn_employeeId held)
      \<and> dependentNamed c i = Some row \<and> dn_state row = DP_PENDING
      \<and> (\<exists>after. dependentNamed d i = Some after \<and> dn_state after = (if approve then DP_ACTIVE else DP_REJECTED)
            \<and> dn_employeeId after = dn_employeeId row \<and> dn_fromMonth after = dn_fromMonth row \<and> dn_toMonth after = dn_toMonth row)
      \<and> (\<forall>e m. countActive d e m = countActive c e m + (if approve \<and> dn_employeeId row = e \<and> countsOn m row then 1 else 0)))
    \<and> (\<forall>j. j \<noteq> i \<longrightarrow> dependentNamed d j = dependentNamed c j)
    \<and> (\<forall>now' v' b' approve' why'. \<exists>err. decideDependent now' v' b' d i approve' why' = Inl err)"
  by (intro conjI dependent_decided [OF assms])

subsection \<open>Concrete runs\<close>

definition payDesk :: Viewer where
  "payDesk = \<lparr>v_userId = ''desk'', v_role = ADMIN, v_employeeId = None, v_entityIds = None\<rparr>"

definition paidWorker :: "int \<Rightarrow> Employee" where
  "paidWorker e =
     \<lparr>em_id = e, em_legalEntityId = ''A'', em_managerId = None, em_active = True, em_hireDate = None,
      em_leaveDate = None, em_departmentId = None, em_bankName = None, em_bankAccount = None\<rparr>"

definition payDb :: CompDb where
  "payDb =
     \<lparr>co_types = [], co_records = [hireRecord ''c1'' ''hr'' 1 0 10000000 8000000, hireRecord ''c2'' ''hr'' 2 0 20000000 9000000],
      co_allowances = [\<lparr>pa_recordId = ''c1'', pa_typeId = ''m'', pa_code = ''MEAL'', pa_label = ''Meal'', pa_amount = 500000,
        pa_taxable = False, pa_insurable = False, pa_taxFreeCap = None, pa_d02Column = None\<rparr>],
      co_dependents = [\<lparr>dn_employeeId = 1, dn_fromMonth = 0, dn_toMonth = None, dn_state = DP_PENDING, dp_id = ''d'', dp_fullName = ''Child'',
        dp_askedById = Some ''one'', dp_decidedById = None, dp_decidedAt = None, dp_decisionNote = None\<rparr>],
      co_staff = [paidWorker 1, paidWorker 2], co_departments = []\<rparr>"

definition tenPercent :: BulkRaise where
  "tenPercent = \<lparr>br_departmentId = None, br_employeeIds = Some [1], br_effectiveFrom = 31, br_percentBp = Some 1000, br_amount = None,
     br_raiseInsurance = False, br_reason = ANNUAL_REVIEW, br_note = None\<rparr>"

definition newIds :: "int \<Rightarrow> string" where
  "newIds e = ''r'' @ replicate (nat (if e < 0 then - 2 * e - 1 else 2 * e)) CHR ''n''"

lemma newIds_fresh: "freshIds payDb newIds"
proof -
  have "e = e'" if "newIds e = newIds e'" for e e'
  proof -
    from that have "length (newIds e) = length (newIds e')" by simp
    then have "nat (if e < 0 then - 2 * e - 1 else 2 * e) = nat (if e' < 0 then - 2 * e' - 1 else 2 * e')" by (simp add: newIds_def)
    then have "(if e < 0 then - 2 * e - 1 else 2 * e) = (if e' < 0 then - 2 * e' - 1 else 2 * e')"
      by (rule eq_nat_nat_iff [THEN iffD1, rotated 2]) auto
    then show ?thesis by presburger
  qed
  then have inj: "inj newIds" by (rule injI)
  have ne: "newIds e \<noteq> ''c1''" "newIds e \<noteq> ''c2''" for e by (simp_all only: newIds_def) simp_all
  have ids: "set (map cr_id (co_records payDb)) = set [''c1'', ''c2'']" by (simp add: payDb_def hireRecord_def)
  have "x \<notin> range newIds" if "x \<in> set [''c1'', ''c2'']" for x
  proof
    assume "x \<in> range newIds"
    then obtain e where "x = newIds e" by (rule rangeE)
    with that ne [of e] show False by simp
  qed
  then have "range newIds \<inter> cr_id ` set (co_records payDb) = {}" unfolding set_map [symmetric] ids by blast
  with inj show ?thesis unfolding freshIds_def by (rule conjI)
qed

lemma payDb_ok: "compOk payDb" "distinct (map em_id (co_staff payDb))" "distinct (map dp_id (co_dependents payDb))"
  by (simp_all add: compOk_def payDb_def payKey_def hireRecord_def paidWorker_def)

definition raisedPay :: CompDb where
  "raisedPay = fst (projr (applyRaise payDesk payDb payDb tenPercent newIds))"

lemma raisedPay_run: "\<exists>eff. applyRaise payDesk payDb payDb tenPercent newIds = Inr (raisedPay, eff, [1], [])"
proof -
  have "map_sum id (\<lambda>(d, eff, l, s). (l, s)) (applyRaise payDesk payDb payDb tenPercent newIds) = Inr ([1], [])" by code_simp
  then show ?thesis
    by (cases "applyRaise payDesk payDb payDb tenPercent newIds") (auto simp: raisedPay_def)
qed

theorem raise_exact_witness:
  "\<exists>r. atDate raisedPay 1 31 = Some r \<and> cr_baseSalary r = 11000000 \<and> cr_insuranceSalary r = 8000000
     \<and> map pa_amount (filter (\<lambda>x. pa_recordId x = cr_id r) (co_allowances raisedPay)) = [500000] \<and> recordsOf raisedPay 2 = recordsOf payDb 2"
proof -
  from raisedPay_run obtain eff where "applyRaise payDesk payDb payDb tenPercent newIds = Inr (raisedPay, eff, [1], [])" by blast
  note exact = raise_exact [OF this newIds_fresh payDb_ok(1,2)]
  from exact obtain held r where r: "atDate payDb 1 31 = Some held" "atDate raisedPay 1 31 = Some r"
    "cr_baseSalary r = raised tenPercent (cr_baseSalary held)" "cr_insuranceSalary r = cr_insuranceSalary held"
    "filter (\<lambda>x. pa_recordId x = cr_id r) (co_allowances raisedPay) = carriedAllowances payDb 1 31 (cr_id r)"
    by (auto simp: tenPercent_def)
  have "map_option (\<lambda>r. (cr_baseSalary r, cr_insuranceSalary r)) (atDate payDb 1 31) = Some (10000000, 8000000)"
    "raised tenPercent 10000000 = 11000000" by code_simp+
  moreover have "map pa_amount (carriedAllowances payDb 1 31 i) = [500000]" for i
    by (simp add: carriedAllowances_def recordBefore_def recordsOf_def payDb_def hireRecord_def latest_def)
  moreover have "recordsOf raisedPay 2 = recordsOf payDb 2" using exact by simp
  ultimately show ?thesis using r by simp
qed

definition booksOf :: "CompDb \<Rightarrow> PayBooks" where
  "booksOf db = sampleBooks\<lparr>pb_compensation := booksPay db\<rparr>"

theorem pay_appended_witness:
  "length (co_records raisedPay) = 3 \<and> payOf (booksOf raisedPay) 1 30 = payOf (booksOf payDb) 1 30
     \<and> payOf (booksOf raisedPay) 1 31 \<noteq> payOf (booksOf payDb) 1 31"
proof -
  from raisedPay_run obtain eff where run: "applyRaise payDesk payDb payDb tenPercent newIds = Inr (raisedPay, eff, [1], [])" by blast
  then have "compStep payDb raisedPay" by (rule compStep.raised_many) (rule newIds_fresh payDb_ok)+
  then have "compReach payDb raisedPay" by (rule compReach.more [OF compReach.start])
  from pay_appended [OF this payDb_ok(1)] obtain new where new: "co_records raisedPay = co_records payDb @ new"
    "\<forall>pb pb' e on. pb_compensation pb = booksPay payDb \<longrightarrow> pb_compensation pb' = booksPay raisedPay
       \<longrightarrow> (\<forall>r \<in> set new. cr_employeeId r = e \<longrightarrow> on < cr_effectiveFrom r) \<longrightarrow> payOf pb' e on = payOf pb e on" by blast
  have "map cr_effectiveFrom (co_records raisedPay) = [0, 0, 31]" "map cr_effectiveFrom (co_records payDb) = [0, 0]" by code_simp+
  with new(1) have at_31: "map cr_effectiveFrom new = [31]" "length (co_records raisedPay) = 3" by auto
  then have "\<forall>r \<in> set new. cr_employeeId r = 1 \<longrightarrow> 30 < cr_effectiveFrom r" by auto
  with new(2) have "payOf (booksOf raisedPay) 1 30 = payOf (booksOf payDb) 1 30" by (simp add: booksOf_def)
  moreover have "map_option cr_baseSalary (payOf (booksOf raisedPay) 1 31) = Some 11000000"
    "map_option cr_baseSalary (payOf (booksOf payDb) 1 31) = Some 10000000" by code_simp+
  then have "payOf (booksOf raisedPay) 1 31 \<noteq> payOf (booksOf payDb) 1 31" by auto
  ultimately show ?thesis using at_31(2) by blast
qed

theorem dependent_once_witness:
  "\<exists>d. (\<exists>eff. decideDependent 5 payDesk payDb payDb ''d'' True None = Inr (d, eff))
     \<and> countActive payDb 1 31 = 0 \<and> countActive d 1 31 = 1
     \<and> (\<exists>err. decideDependent 6 payDesk payDb d ''d'' False None = Inl err)"
proof -
  let ?r = "decideDependent 5 payDesk payDb payDb ''d'' True None"
  have "\<not> isl ?r" by code_simp
  then obtain d eff where d: "?r = Inr (d, eff)" by (cases ?r) auto
  have row: "map_option (\<lambda>x. (dn_employeeId x, dn_fromMonth x, dn_toMonth x)) (dependentNamed payDb ''d'') = Some (1, 0, None)"
    "countActive payDb 1 31 = 0" by code_simp+
  from dependent_once [OF d payDb_ok(3)] row d show ?thesis by (auto simp: countsOn_def)
qed

end
