(* ===== verification/Devices.thy ===== *)
theory Devices
  imports Calendar
begin

section \<open>The fleet of kiosks\<close>

text \<open>
  \<open>backend/src/modules/devices/devices.service.ts\<close>: how a machine asks to be let in, how a person approves it by the
  code on its screen, how it collects and renews its ticket, and what a heartbeat writes. SHA-256 is an argument. The row
  leaves out the health readings, which nothing but a screen reads; lists and counts
  are left out.
\<close>

subsection \<open>Rows\<close>

datatype DeviceStatus = PENDING_DEVICE | APPROVED_DEVICE | REVOKED_DEVICE

record Device =
  dv_id :: string
  dv_name :: "string option"
  dv_location :: "string option"
  dv_status :: DeviceStatus
  dv_tokenHash :: "string option"
  dv_prevTokenHash :: "string option"
  dv_tokenIssuedAt :: "instant option"
  dv_tokenExpiresAt :: "instant option"
  dv_claimHash :: "string option"
  dv_claimFailures :: nat
  dv_revokedAt :: "instant option"
  dv_readmittedAt :: "instant option"
  dv_fwVersion :: "string option"
  dv_modelVersion :: "string option"
  dv_embeddingVersion :: "string option"
  dv_lastSeenAt :: "instant option"
  dv_online :: bool
  dv_bootedAt :: "instant option"
  dv_fwOnTrial :: "bool option"
  dv_clockSkewMs :: "int option"
  dv_otaReleaseId :: "string option"
  dv_otaOfferedAt :: "instant option"
  dv_otaNextReleaseId :: "string option"
  dv_otaPressedAt :: "instant option"
  dv_otaPressedById :: "string option"
  dv_approvedAt :: "instant option"

text \<open>A row as \<open>create\<close> leaves it, its columns at their defaults.\<close>

definition blankDevice :: "string \<Rightarrow> Device" where
  "blankDevice i =
     \<lparr>dv_id = i, dv_name = None, dv_location = None, dv_status = PENDING_DEVICE, dv_tokenHash = None, dv_prevTokenHash = None,
      dv_tokenIssuedAt = None, dv_tokenExpiresAt = None, dv_claimHash = None, dv_claimFailures = 0, dv_revokedAt = None,
      dv_readmittedAt = None, dv_fwVersion = None, dv_modelVersion = None, dv_embeddingVersion = None, dv_lastSeenAt = None,
      dv_online = False, dv_bootedAt = None, dv_fwOnTrial = None, dv_clockSkewMs = None, dv_otaReleaseId = None,
      dv_otaOfferedAt = None, dv_otaNextReleaseId = None, dv_otaPressedAt = None, dv_otaPressedById = None, dv_approvedAt = None\<rparr>"

text \<open>The table, and the numbers the punches and events of each kiosk carry.\<close>

record DevicesDb =
  dvs_devices :: "Device list"
  dvs_numbers :: "(string \<times> int) list"

record DevicesEnv =
  dvc_bootstrap :: string
  dvc_attempts :: nat
  dvc_pollS :: int
  dvc_ttlDays :: int
  dvc_digest :: "string \<Rightarrow> string"

datatype KioskEffect =
    KioskNoted string string
  | KioskChanged string DeviceStatus
  | PendingAlert string
  | DecidedAlert string DeviceStatus string
  | SessionClosed string
  | KioskBeat string

definition deviceNamed :: "DevicesDb \<Rightarrow> string \<Rightarrow> Device option" where
  "deviceNamed db i = firstWhere dv_id i (dvs_devices db)"

lemma firstWhere_one: "firstWhere key k [x] = (if key x = k then Some x else None)"
  by (simp add: firstWhere_def)

definition putDevice :: "string \<Rightarrow> (Device \<Rightarrow> Device) \<Rightarrow> DevicesDb \<Rightarrow> DevicesDb result" where
  "putDevice i f db =
     (case deviceNamed db i of
        None \<Rightarrow> Inl (Unhandled ''P2025'')
      | Some _ \<Rightarrow> Inr (db\<lparr>dvs_devices := updateMany (\<lambda>d. dv_id d = i) f (dvs_devices db)\<rparr>))"

definition noTicket :: "Device \<Rightarrow> Device" where
  "noTicket d = d\<lparr>dv_tokenHash := None, dv_prevTokenHash := None, dv_tokenIssuedAt := None, dv_tokenExpiresAt := None\<rparr>"

subsection \<open>Asking to be let in\<close>

record RegisterDevice =
  rgd_deviceId :: string
  rgd_bootstrap :: string
  rgd_fwVersion :: "string option"
  rgd_claimCode :: string

record Registration =
  reg_accepted :: bool
  reg_deviceId :: string
  reg_pollS :: "int option"
  reg_token :: "string option"
  reg_days :: "int option"
  reg_claimRenew :: bool
  reg_highestBoot :: "int option"

text \<open>The shape the contract gives a device id, \<open>[A-Za-z0-9_-]{4,32}\<close>.\<close>

definition idOk :: "string \<Rightarrow> bool" where
  "idOk i \<longleftrightarrow> 4 \<le> length i \<and> length i \<le> 32
     \<and> (\<forall>c \<in> set i. let n = of_char c :: nat in 48 \<le> n \<and> n \<le> 57 \<or> 65 \<le> n \<and> n \<le> 90 \<or> 97 \<le> n \<and> n \<le> 122 \<or> n = 95 \<or> n = 45)"

definition asciiLower :: "string \<Rightarrow> string" where
  "asciiLower t = map (\<lambda>c. let n = of_char c :: nat in if 65 \<le> n \<and> n \<le> 90 then char_of (n + 32) else c) t"

definition isServiceName :: "string \<Rightarrow> bool" where
  "isServiceName i \<longleftrightarrow> take 4 (asciiLower i) = ''svc-''"

definition claimFingerprint :: "DevicesEnv \<Rightarrow> string \<Rightarrow> string \<Rightarrow> string" where
  "claimFingerprint env i code = dvc_digest env (i @ '':'' @ code)"

definition sameSecret :: "DevicesEnv \<Rightarrow> string \<Rightarrow> string \<Rightarrow> bool" where
  "sameSecret env given held \<longleftrightarrow> dvc_digest env given = dvc_digest env held"

definition waitingReg :: "DevicesEnv \<Rightarrow> string \<Rightarrow> Registration" where
  "waitingReg env i =
     \<lparr>reg_accepted = True, reg_deviceId = i, reg_pollS = Some (dvc_pollS env), reg_token = None, reg_days = None,
      reg_claimRenew = False, reg_highestBoot = None\<rparr>"

definition handedReg :: "DevicesEnv \<Rightarrow> string \<Rightarrow> string \<Rightarrow> Registration" where
  "handedReg env i token =
     \<lparr>reg_accepted = False, reg_deviceId = i, reg_pollS = None, reg_token = Some token, reg_days = Some (dvc_ttlDays env),
      reg_claimRenew = False, reg_highestBoot = None\<rparr>"

definition highestBoot :: "DevicesDb \<Rightarrow> string \<Rightarrow> int" where
  "highestBoot db i = foldr max (map (\<lambda>p. snd p div 4294967296) (filter (\<lambda>p. fst p = i) (dvs_numbers db))) 0"

text \<open>\<open>issue\<close>: the token and its times are the signing library's.\<close>

definition issueTicket ::
  "DevicesEnv \<Rightarrow> DevicesDb \<Rightarrow> string \<Rightarrow> string option \<Rightarrow> string \<Rightarrow> instant \<times> instant \<Rightarrow> (DevicesDb \<times> KioskEffect list \<times> Registration) result" where
  "issueTicket env db i fw token span =
     bindR (putDevice i (\<lambda>d. d\<lparr>dv_tokenHash := Some (dvc_digest env token), dv_prevTokenHash := None, dv_tokenIssuedAt := Some (fst span),
              dv_tokenExpiresAt := Some (snd span), dv_claimHash := None,
              dv_fwVersion := (case fw of None \<Rightarrow> dv_fwVersion d | Some v \<Rightarrow> if v = '''' then dv_fwVersion d else Some v)\<rparr>) db) (\<lambda>db1.
       Inr (db1, [SessionClosed i, KioskNoted ''DEVICE_TOKEN_ISSUE'' i],
            (handedReg env i token)\<lparr>reg_highestBoot := Some (highestBoot db1 i)\<rparr>))"

definition holdClaim :: "DevicesEnv \<Rightarrow> DevicesDb \<Rightarrow> Device \<Rightarrow> string \<Rightarrow> (DevicesDb \<times> KioskEffect list \<times> Registration) result" where
  "holdClaim env db device claim' =
     (let waiting = waitingReg env (dv_id device) in
      if dv_claimHash device = Some claim'
      then Inr (db, [], if dv_claimFailures device \<ge> dvc_attempts env then waiting\<lparr>reg_claimRenew := True\<rparr> else waiting)
      else bindR (putDevice (dv_id device) (\<lambda>d. d\<lparr>dv_claimHash := Some claim', dv_claimFailures := 0\<rparr>) db) (\<lambda>db1. Inr (db1, [], waiting)))"

definition backToPending :: "string \<Rightarrow> Device \<Rightarrow> Device" where
  "backToPending claim' d =
     (noTicket d)\<lparr>dv_status := PENDING_DEVICE, dv_approvedAt := None, dv_claimHash := Some claim', dv_claimFailures := 0\<rparr>"

definition register ::
  "DevicesEnv \<Rightarrow> DevicesDb \<Rightarrow> DevicesDb \<Rightarrow> RegisterDevice \<Rightarrow> string \<Rightarrow> instant \<times> instant \<Rightarrow> (DevicesDb \<times> KioskEffect list \<times> Registration) result" where
  "register env db0 db body token span =
     (let i = rgd_deviceId body; claim' = claimFingerprint env i (rgd_claimCode body); waiting = waitingReg env i in
     bindR (refuse (\<not> sameSecret env (rgd_bootstrap body) (dvc_bootstrap env)) (Unauthorized ''DEVICE_BOOTSTRAP_REJECTED'')) (\<lambda>_.
     bindR (refuse (\<not> idOk i) (BadRequest ''DEVICE_ID_MALFORMED'')) (\<lambda>_.
     bindR (refuse (isServiceName i) (BadRequest ''DEVICE_ID_RESERVED'')) (\<lambda>_.
       case deviceNamed db0 i of
         None \<Rightarrow>
           bindR (refuse (deviceNamed db i \<noteq> None) (Unhandled ''P2002'')) (\<lambda>_.
             Inr (db\<lparr>dvs_devices := dvs_devices db @ [(blankDevice i)\<lparr>dv_fwVersion := rgd_fwVersion body, dv_claimHash := Some claim'\<rparr>]\<rparr>,
                  [KioskNoted ''DEVICE_REGISTER'' i, KioskChanged i PENDING_DEVICE, PendingAlert i], waiting))
       | Some held \<Rightarrow>
           if dv_status held = APPROVED_DEVICE \<and> dv_tokenHash held \<noteq> None then
             bindR (putDevice i (\<lambda>d. (backToPending claim' d)\<lparr>dv_online := False\<rparr>) db) (\<lambda>db1.
               Inr (db1, [SessionClosed i, KioskNoted ''DEVICE_RESET'' i, KioskChanged i PENDING_DEVICE, PendingAlert i], waiting))
           else if dv_status held = APPROVED_DEVICE then
             (if (case dv_claimHash held of None \<Rightarrow> False | Some h \<Rightarrow> sameSecret env claim' h)
              then issueTicket env db i (rgd_fwVersion body) token span else Inr (db, [], waiting))
           else if dv_status held = REVOKED_DEVICE then
             bindR (putDevice i (backToPending claim') db) (\<lambda>db1.
               Inr (db1, [KioskNoted ''DEVICE_REGISTER'' i, KioskChanged i PENDING_DEVICE, PendingAlert i], waiting))
           else holdClaim env db held claim'))))"

subsection \<open>Renewing the ticket\<close>

definition renew ::
  "DevicesEnv \<Rightarrow> DevicesDb \<Rightarrow> DevicesDb \<Rightarrow> string \<Rightarrow> string \<Rightarrow> string \<Rightarrow> instant \<times> instant \<Rightarrow> (DevicesDb \<times> KioskEffect list \<times> Registration) result" where
  "renew env db0 db i presented token span =
     (let shown = dvc_digest env presented in
     bindR (found (deviceNamed db0 i) (Unauthorized ''DEVICE_TOKEN_REJECTED'')) (\<lambda>held.
     bindR (refuse (dv_tokenHash held \<noteq> Some shown \<and> dv_prevTokenHash held \<noteq> Some shown) (Unauthorized ''DEVICE_TOKEN_REJECTED'')) (\<lambda>_.
       let current = (dv_tokenHash held = Some shown);
           (moved, rows) = claimWhere (\<lambda>d. dv_id d = i \<and> dv_status d = APPROVED_DEVICE \<and> dv_tokenHash d = dv_tokenHash held)
             (\<lambda>d. d\<lparr>dv_tokenHash := Some (dvc_digest env token), dv_prevTokenHash := (if current then dv_tokenHash held else dv_prevTokenHash held),
                    dv_tokenIssuedAt := Some (fst span), dv_tokenExpiresAt := Some (snd span)\<rparr>) (dvs_devices db)
       in bindR (refuse (moved = 0) (Unauthorized ''DEVICE_TOKEN_REJECTED'')) (\<lambda>_.
            Inr (db\<lparr>dvs_devices := rows\<rparr>, [KioskNoted ''DEVICE_TOKEN_ISSUE'' i], handedReg env i token)))))"

subsection \<open>What a person does\<close>

record ApproveDevice =
  apd_claimCode :: string
  apd_name :: "string option"
  apd_location :: "string option"

definition renamedDevice :: "string option \<Rightarrow> string option \<Rightarrow> Device \<Rightarrow> Device" where
  "renamedDevice name loc d =
     d\<lparr>dv_name := (case name of None \<Rightarrow> dv_name d | Some _ \<Rightarrow> name), dv_location := (case loc of None \<Rightarrow> dv_location d | Some _ \<Rightarrow> loc)\<rparr>"

definition updateDevice :: "DevicesDb \<Rightarrow> DevicesDb \<Rightarrow> string \<Rightarrow> string option \<Rightarrow> string option \<Rightarrow> DevicesDb result" where
  "updateDevice db0 db i name loc =
     bindR (found (deviceNamed db0 i) (NotFound ''DEVICE_NOT_FOUND'')) (\<lambda>_. putDevice i (renamedDevice name loc) db)"

text \<open>A wrong code is counted before it is refused, so the tables change beside an error.\<close>

definition approve ::
  "DevicesEnv \<Rightarrow> instant \<Rightarrow> DevicesDb \<Rightarrow> DevicesDb \<Rightarrow> string \<Rightarrow> ApproveDevice \<Rightarrow> string \<Rightarrow> DevicesDb \<times> (KioskEffect list) result" where
  "approve env now db0 db i body actor =
     (case deviceNamed db0 i of
        None \<Rightarrow> (db, Inl (NotFound ''DEVICE_NOT_FOUND''))
      | Some held \<Rightarrow>
          (case dv_claimHash held of
             None \<Rightarrow> (db, Inl (Conflict ''DEVICE_CLAIM_MISSING''))
           | Some h \<Rightarrow>
               if dv_claimFailures held \<ge> dvc_attempts env then (db, Inl (Conflict ''DEVICE_CLAIM_LOCKED''))
               else if \<not> sameSecret env (claimFingerprint env i (apd_claimCode body)) h
               then (case putDevice i (\<lambda>d. d\<lparr>dv_claimFailures := dv_claimFailures d + 1\<rparr>) db of
                       Inl e \<Rightarrow> (db, Inl e) | Inr db1 \<Rightarrow> (db1, Inl (BadRequest ''DEVICE_CLAIM_MISMATCH'')))
               else (let closesSpan = (dv_revokedAt held \<noteq> None \<and> dv_readmittedAt held = None) in
                     case putDevice i (\<lambda>d. (renamedDevice (apd_name body) (apd_location body) d)\<lparr>dv_status := APPROVED_DEVICE, dv_approvedAt := Some now,
                            dv_readmittedAt := (if closesSpan then Some now else dv_readmittedAt d), dv_claimFailures := 0\<rparr>) db of
                       Inl e \<Rightarrow> (db, Inl e)
                     | Inr db1 \<Rightarrow> (db1, Inr [KioskNoted ''DEVICE_APPROVE'' i, DecidedAlert i APPROVED_DEVICE actor]))))"

definition revokeDevice :: "instant \<Rightarrow> DevicesDb \<Rightarrow> DevicesDb \<Rightarrow> string \<Rightarrow> string \<Rightarrow> (DevicesDb \<times> KioskEffect list) result" where
  "revokeDevice now db0 db i actor =
     bindR (found (deviceNamed db0 i) (NotFound ''DEVICE_NOT_FOUND'')) (\<lambda>_.
     bindR (putDevice i (\<lambda>d. (noTicket d)\<lparr>dv_status := REVOKED_DEVICE, dv_online := False, dv_revokedAt := Some now, dv_readmittedAt := None\<rparr>) db) (\<lambda>db1.
       Inr (db1, [SessionClosed i, KioskNoted ''DEVICE_REVOKE'' i, KioskChanged i REVOKED_DEVICE, DecidedAlert i REVOKED_DEVICE actor])))"

subsection \<open>What a kiosk says\<close>

record Heartbeat =
  hb_fwVersion :: string
  hb_modelVersion :: string
  hb_embeddingVersion :: "string option"
  hb_onTrial :: "bool option"
  hb_ts :: instant
  hb_uptimeSeconds :: int

definition BELIEVABLE_MS :: instant where "BELIEVABLE_MS = 1577836800000"

text \<open>\<open>upsert\<close>: a kiosk without a row gets one.\<close>

definition seenAlive :: "string \<Rightarrow> instant \<Rightarrow> DevicesDb \<Rightarrow> DevicesDb" where
  "seenAlive i now db =
     (case deviceNamed db i of
        None \<Rightarrow> db\<lparr>dvs_devices := dvs_devices db @ [(blankDevice i)\<lparr>dv_lastSeenAt := Some now, dv_online := True\<rparr>]\<rparr>
      | Some _ \<Rightarrow> db\<lparr>dvs_devices := updateMany (\<lambda>d. dv_id d = i) (\<lambda>d. d\<lparr>dv_lastSeenAt := Some now, dv_online := True\<rparr>) (dvs_devices db)\<rparr>)"

definition beaten :: "Heartbeat \<Rightarrow> Device \<Rightarrow> Device" where
  "beaten beat d =
     d\<lparr>dv_fwVersion := Some (hb_fwVersion beat), dv_modelVersion := Some (hb_modelVersion beat), dv_fwOnTrial := hb_onTrial beat,
       dv_embeddingVersion := (case hb_embeddingVersion beat of
           None \<Rightarrow> dv_embeddingVersion d | Some v \<Rightarrow> if v = '''' then dv_embeddingVersion d else Some v)\<rparr>"

definition applyHeartbeat :: "DevicesDb \<Rightarrow> string \<Rightarrow> Heartbeat \<Rightarrow> instant \<Rightarrow> bool \<Rightarrow> (DevicesDb \<times> KioskEffect list) result" where
  "applyHeartbeat db i beat now live =
     (if \<not> live then bindR (putDevice i (beaten beat) db) (\<lambda>db1. Inr (db1, []))
      else bindR (putDevice i (\<lambda>d. (beaten beat d)\<lparr>dv_clockSkewMs := (if hb_ts beat \<ge> BELIEVABLE_MS then Some (hb_ts beat - now) else dv_clockSkewMs d),
                     dv_bootedAt := Some (now - hb_uptimeSeconds beat * 1000), dv_lastSeenAt := Some now, dv_online := True\<rparr>)
                   (seenAlive i now db)) (\<lambda>db1. Inr (db1, [KioskBeat i])))"

definition setOnline :: "DevicesDb \<Rightarrow> string \<Rightarrow> bool \<Rightarrow> instant \<Rightarrow> bool \<Rightarrow> DevicesDb result" where
  "setOnline db i online now live =
     putDevice i (\<lambda>d. d\<lparr>dv_online := online, dv_lastSeenAt := (if live then Some now else dv_lastSeenAt d)\<rparr>)
       (if live then seenAlive i now db else db)"

end
