(* ===== verification/DeviceLaws.thy ===== *)
theory DeviceLaws
  imports Devices
begin

section \<open>Who collects the ticket\<close>

text \<open>
  A machine that asks to be let in shows a code, and a person who sees the machine types it. Requests that each run in one
  piece hand a ticket only to a machine whose code was typed, and one ticket for each time a code was typed. Then a run in
  which an approval and a registration cross, where the ticket goes to another machine.
\<close>

datatype ClaimEvent = Typed string string | Handed string string | Closed string

definition claimView :: "string \<Rightarrow> DevicesDb \<Rightarrow> string option" where
  "claimView i db = (case deviceNamed db i of None \<Rightarrow> None | Some d \<Rightarrow> if dv_status d = APPROVED_DEVICE then dv_claimHash d else None)"

definition registerEvents :: "string \<Rightarrow> string \<Rightarrow> KioskEffect list \<Rightarrow> Registration \<Rightarrow> ClaimEvent list" where
  "registerEvents i code eff answer =
     (if KioskNoted ''DEVICE_RESET'' i \<in> set eff then [Closed i] else if reg_token answer \<noteq> None then [Handed i code] else [])"

inductive claimStep :: "DevicesEnv \<Rightarrow> DevicesDb \<Rightarrow> ClaimEvent list \<Rightarrow> DevicesDb \<Rightarrow> bool" for env where
  registered: "register env c c body token span = Inr (d, eff, answer)
    \<Longrightarrow> claimStep env c (registerEvents (rgd_deviceId body) (rgd_claimCode body) eff answer) d"
| renewed: "renew env c c i presented token span = Inr (d, eff, answer) \<Longrightarrow> claimStep env c [] d"
| approved: "approve env now c c i body actor = (d, Inr eff) \<Longrightarrow> claimStep env c [Typed i (apd_claimCode body)] d"
| turned_down: "approve env now c c i body actor = (d, Inl e) \<Longrightarrow> claimStep env c [] d"
| revoked: "revokeDevice now c c i actor = Inr (d, eff) \<Longrightarrow> claimStep env c [Closed i] d"
| described: "updateDevice c c i name loc = Inr d \<Longrightarrow> claimStep env c [] d"
| beat: "applyHeartbeat c i hb now live = Inr (d, eff) \<Longrightarrow> claimStep env c [] d"
| heard: "setOnline c i online now live = Inr d \<Longrightarrow> claimStep env c [] d"

inductive claimReach :: "DevicesEnv \<Rightarrow> DevicesDb \<Rightarrow> ClaimEvent list \<Rightarrow> DevicesDb \<Rightarrow> bool" for env where
  start: "claimReach env a [] a"
| more: "claimReach env a h c \<Longrightarrow> claimStep env c h' d \<Longrightarrow> claimReach env a (h @ h') d"

definition quiet :: "string \<Rightarrow> ClaimEvent list \<Rightarrow> bool" where
  "quiet i h \<longleftrightarrow> (\<forall>code. Typed i code \<notin> set h \<and> Handed i code \<notin> set h) \<and> Closed i \<notin> set h"

definition sameCode :: "DevicesEnv \<Rightarrow> string \<Rightarrow> string \<Rightarrow> string \<Rightarrow> bool" where
  "sameCode env i code code' \<longleftrightarrow> sameSecret env (claimFingerprint env i code) (claimFingerprint env i code')"

text \<open>The last thing that happened to a kiosk was that a person typed a code with this fingerprint.\<close>

definition typedLast :: "DevicesEnv \<Rightarrow> string \<Rightarrow> string \<Rightarrow> ClaimEvent list \<Rightarrow> bool" where
  "typedLast env i claim' h \<longleftrightarrow>
     (\<exists>h1 code h2. h = h1 @ Typed i code # h2 \<and> quiet i h2 \<and> sameSecret env (claimFingerprint env i code) claim')"

lemma quiet_simps [simp]:
  "quiet i []" "quiet i (Typed k code # h) \<longleftrightarrow> k \<noteq> i \<and> quiet i h" "quiet i (Handed k code # h) \<longleftrightarrow> k \<noteq> i \<and> quiet i h"
  "quiet i (Closed k # h) \<longleftrightarrow> k \<noteq> i \<and> quiet i h" "quiet i (h @ h') \<longleftrightarrow> quiet i h \<and> quiet i h'"
  by (auto simp: quiet_def)

lemma typedLast_quiet: "typedLast env i claim' h \<Longrightarrow> quiet i h' \<Longrightarrow> typedLast env i claim' (h @ h')"
proof -
  assume "typedLast env i claim' h" "quiet i h'"
  then obtain h1 code h2 where "h = h1 @ Typed i code # h2" "quiet i h2" "sameSecret env (claimFingerprint env i code) claim'"
    unfolding typedLast_def by blast
  with \<open>quiet i h'\<close> show ?thesis unfolding typedLast_def by (intro exI [of _ h1] exI [of _ code] exI [of _ "h2 @ h'"]) simp
qed

subsection \<open>What each request does to a row\<close>

lemma deviceNamed_key: "deviceNamed db i = Some d \<Longrightarrow> dv_id d = i"
  unfolding deviceNamed_def by (auto dest: firstWhere_key)

lemma putDevice_view:
  assumes "putDevice k f db = Inr d" "\<And>x. dv_id (f x) = dv_id x"
  shows "deviceNamed d i = map_option (\<lambda>x. if i = k then f x else x) (deviceNamed db i)" "deviceNamed db k \<noteq> None"
proof -
  from assms(1) have d: "d = db\<lparr>dvs_devices := updateMany (\<lambda>x. dv_id x = k) f (dvs_devices db)\<rparr>" "deviceNamed db k \<noteq> None"
    by (auto simp: putDevice_def split: option.splits)
  have "deviceNamed d i = map_option (\<lambda>x. if dv_id x = k then f x else x) (deviceNamed db i)"
    unfolding d deviceNamed_def by (simp add: firstWhere_updateMany assms(2))
  then show "deviceNamed d i = map_option (\<lambda>x. if i = k then f x else x) (deviceNamed db i)"
    by (cases "deviceNamed db i") (auto dest: deviceNamed_key)
  show "deviceNamed db k \<noteq> None" by (rule d(2))
qed

text \<open>A write to one row that leaves its status and claim, and one that leaves no approved claim.\<close>

lemma view_kept:
  assumes "putDevice k f db = Inr d" "\<And>x. dv_id (f x) = dv_id x \<and> dv_status (f x) = dv_status x \<and> dv_claimHash (f x) = dv_claimHash x"
  shows "claimView i d = claimView i db"
  using putDevice_view(1) [OF assms(1), of i] assms(2) by (cases "deviceNamed db i") (simp_all add: claimView_def)

lemma view_closed:
  assumes "putDevice k f db = Inr d" "\<And>x. dv_id (f x) = dv_id x" "\<And>x. dv_status (f x) \<noteq> APPROVED_DEVICE \<or> dv_claimHash (f x) = None"
  shows "claimView i d = (if i = k then None else claimView i db)"
  using putDevice_view(1) [OF assms(1,2), of i] putDevice_view(2) [OF assms(1,2)] assms(3)
  by (cases "deviceNamed db i") (auto simp: claimView_def)

lemma view_appended:
  "deviceNamed db (dv_id x) = None \<Longrightarrow> dv_status x \<noteq> APPROVED_DEVICE \<Longrightarrow> claimView i (db\<lparr>dvs_devices := dvs_devices db @ [x]\<rparr>) = claimView i db"
  by (simp add: claimView_def deviceNamed_def firstWhere_append firstWhere_one split: option.split)

lemma view_seen: "claimView i (seenAlive k now db) = claimView i db"
proof (cases "deviceNamed db k")
  case None
  then show ?thesis unfolding seenAlive_def by (simp add: view_appended blankDevice_def)
next
  case (Some x)
  then have "putDevice k (\<lambda>d. d\<lparr>dv_lastSeenAt := Some now, dv_online := True\<rparr>) db = Inr (seenAlive k now db)"
    by (simp add: putDevice_def seenAlive_def)
  then show ?thesis by (rule view_kept) simp
qed

text \<open>What a registration answers: it resets the kiosk, hands over a ticket against the code the row bears, or hands nothing.\<close>

lemma register_cases:
  assumes "register env c c body token span = Inr (d, eff, answer)"
  obtains (reset) "KioskNoted ''DEVICE_RESET'' (rgd_deviceId body) \<in> set eff"
      "\<And>k. claimView k d = (if k = rgd_deviceId body then None else claimView k c)"
  | (handed) x where "KioskNoted ''DEVICE_RESET'' (rgd_deviceId body) \<notin> set eff" "reg_token answer = Some token"
      "claimView (rgd_deviceId body) c = Some x" "sameSecret env (claimFingerprint env (rgd_deviceId body) (rgd_claimCode body)) x"
      "\<And>k. claimView k d = (if k = rgd_deviceId body then None else claimView k c)"
  | (waiting) "KioskNoted ''DEVICE_RESET'' (rgd_deviceId body) \<notin> set eff" "reg_token answer = None"
      "\<And>k. claimView k d = claimView k c \<or> k = rgd_deviceId body \<and> claimView k d = None"
proof -
  let ?i = "rgd_deviceId body"
  let ?claim = "claimFingerprint env ?i (rgd_claimCode body)"
  show thesis
  proof (cases "deviceNamed c ?i")
    case None
    with assms have "d = c\<lparr>dvs_devices := dvs_devices c @ [(blankDevice ?i)\<lparr>dv_fwVersion := rgd_fwVersion body, dv_claimHash := Some ?claim\<rparr>]\<rparr>"
      "eff = [KioskNoted ''DEVICE_REGISTER'' ?i, KioskChanged ?i PENDING_DEVICE, PendingAlert ?i]" "answer = waitingReg env ?i"
      by (auto simp: register_def Let_def bindR_eq_Inr)
    moreover from this(1) have "claimView k d = claimView k c" for k using None by (simp add: view_appended blankDevice_def)
    ultimately show thesis by (intro waiting) (simp_all add: waitingReg_def)
  next
    case (Some held)
    consider (ticket) "dv_status held = APPROVED_DEVICE" "dv_tokenHash held \<noteq> None"
      | (code) "dv_status held = APPROVED_DEVICE" "dv_tokenHash held = None"
      | (out) "dv_status held = REVOKED_DEVICE" | (pending) "dv_status held = PENDING_DEVICE"
      by (cases "dv_status held") auto
    then show thesis
    proof cases
      case ticket
      with assms Some have "putDevice ?i (\<lambda>d. (backToPending ?claim d)\<lparr>dv_online := False\<rparr>) c = Inr d" "KioskNoted ''DEVICE_RESET'' ?i \<in> set eff"
        by (auto simp: register_def Let_def bindR_eq_Inr)
      moreover from this(1) have "claimView k d = (if k = ?i then None else claimView k c)" for k
        by (rule view_closed) (simp_all add: backToPending_def noTicket_def)
      ultimately show thesis by (intro reset) simp_all
    next
      case code
      show thesis
      proof (cases "case dv_claimHash held of None \<Rightarrow> False | Some h \<Rightarrow> sameSecret env ?claim h")
        case True
        then obtain x where x: "dv_claimHash held = Some x" "sameSecret env ?claim x" by (auto split: option.splits)
        with assms Some code have issue: "issueTicket env c ?i (rgd_fwVersion body) token span = Inr (d, eff, answer)"
          by (simp add: register_def Let_def bindR_eq_Inr)
        then obtain f where put: "putDevice ?i f c = Inr d" "\<forall>x. dv_id (f x) = dv_id x \<and> dv_claimHash (f x) = None"
          by (auto simp: issueTicket_def bindR_eq_Inr)
        have view: "claimView k d = (if k = ?i then None else claimView k c)" for k
          by (rule view_closed [OF put(1)]) (simp_all add: put(2))
        show thesis
        proof (rule handed)
          show "KioskNoted ''DEVICE_RESET'' ?i \<notin> set eff" "reg_token answer = Some token"
            using issue by (auto simp: issueTicket_def bindR_eq_Inr handedReg_def)
          show "claimView ?i c = Some x" using Some code(1) x(1) by (simp add: claimView_def)
        qed (rule x(2), rule view)
      next
        case False
        with assms Some code have "d = c" "eff = []" "answer = waitingReg env ?i" by (auto simp: register_def Let_def bindR_eq_Inr)
        then show thesis by (intro waiting) (simp_all add: waitingReg_def)
      qed
    next
      case out
      with assms Some have "putDevice ?i (backToPending ?claim) c = Inr d" "answer = waitingReg env ?i"
        "eff = [KioskNoted ''DEVICE_REGISTER'' ?i, KioskChanged ?i PENDING_DEVICE, PendingAlert ?i]"
        by (auto simp: register_def Let_def bindR_eq_Inr)
      moreover from this(1) have "claimView k d = (if k = ?i then None else claimView k c)" for k
        by (rule view_closed) (simp_all add: backToPending_def noTicket_def)
      ultimately show thesis by (intro waiting) (simp_all add: waitingReg_def)
    next
      case pending
      with assms Some have hold: "holdClaim env c held ?claim = Inr (d, eff, answer)" by (simp add: register_def Let_def bindR_eq_Inr)
      have id: "dv_id held = ?i" using Some by (rule deviceNamed_key)
      have none: "claimView ?i c = None" using Some pending by (simp add: claimView_def)
      show thesis
      proof (cases "dv_claimHash held = Some ?claim")
        case True
        with hold have "d = c" "eff = []" "reg_token answer = None" by (auto simp: holdClaim_def Let_def waitingReg_def)
        then show thesis by (intro waiting) simp_all
      next
        case False
        with hold id have put: "putDevice ?i (\<lambda>d. d\<lparr>dv_claimHash := Some ?claim, dv_claimFailures := 0\<rparr>) c = Inr d" "eff = []" "reg_token answer = None"
          by (auto simp: holdClaim_def Let_def waitingReg_def bindR_eq_Inr)
        have "claimView k d = claimView k c" for k
          using putDevice_view(1) [OF put(1), of k] Some pending none by (cases "k = ?i"; cases "deviceNamed c k") (auto simp: claimView_def)
        with put show thesis by (intro waiting) simp_all
      qed
    qed
  qed
qed

lemma claimStep_view:
  "claimStep env c h d \<Longrightarrow> claimView k d = claimView k c \<and> quiet k h \<or> claimView k d = None \<or> (\<exists>x. claimView k d = Some x \<and> typedLast env k x h)"
proof (induction rule: claimStep.induct)
  case (registered c body token span d eff answer)
  then show ?case
    by (cases rule: register_cases) (auto simp: registerEvents_def)
next
  case (renewed c i presented token span d eff answer)
  have "claimView k d = claimView k c"
  proof -
    from renewed obtain P f where d: "d = c\<lparr>dvs_devices := updateMany P f (dvs_devices c)\<rparr>"
      "\<forall>x. dv_id (f x) = dv_id x \<and> dv_status (f x) = dv_status x \<and> dv_claimHash (f x) = dv_claimHash x"
      by (auto simp: renew_def claimWhere_def Let_def bindR_eq_Inr)
    then have "deviceNamed d k = map_option (\<lambda>x. if P x then f x else x) (deviceNamed c k)"
      unfolding d(1) deviceNamed_def by (simp add: firstWhere_updateMany)
    with d(2) show ?thesis by (cases "deviceNamed c k") (auto simp: claimView_def)
  qed
  then show ?case by simp
next
  case (approved now c i body actor d eff)
  then obtain held x f where a: "deviceNamed c i = Some held" "dv_claimHash held = Some x" "sameSecret env (claimFingerprint env i (apd_claimCode body)) x"
    "putDevice i f c = Inr d" "\<forall>y. dv_id (f y) = dv_id y \<and> dv_status (f y) = APPROVED_DEVICE \<and> dv_claimHash (f y) = dv_claimHash y"
    by (auto simp: approve_def Let_def renamedDevice_def split: option.splits if_splits sum.splits)
  note named = putDevice_view(1) [OF a(4) a(5) [rule_format, THEN conjunct1], of k]
  show ?case
  proof (cases "k = i")
    case True
    with named a have "claimView k d = Some x" by (simp add: claimView_def)
    moreover have "typedLast env k x [Typed i (apd_claimCode body)]"
      unfolding typedLast_def using a(3) True by (intro exI [of _ "[]"] exI [of _ "apd_claimCode body"]) simp
    ultimately show ?thesis by blast
  next
    case False
    with named have "claimView k d = claimView k c" by (cases "deviceNamed c k") (simp_all add: claimView_def)
    with False show ?thesis by simp
  qed
next
  case (turned_down now c i body actor d e)
  then have "d = c \<or> putDevice i (\<lambda>d. d\<lparr>dv_claimFailures := dv_claimFailures d + 1\<rparr>) c = Inr d"
    by (auto simp: approve_def Let_def split: option.splits if_splits sum.splits)
  moreover have "claimView k d = claimView k c" if "putDevice i (\<lambda>d. d\<lparr>dv_claimFailures := dv_claimFailures d + 1\<rparr>) c = Inr d"
    by (rule view_kept [OF that]) simp
  ultimately show ?case by auto
next
  case (revoked now c i actor d eff)
  then have put: "putDevice i (\<lambda>d. (noTicket d)\<lparr>dv_status := REVOKED_DEVICE, dv_online := False, dv_revokedAt := Some now, dv_readmittedAt := None\<rparr>) c = Inr d"
    by (auto simp: revokeDevice_def bindR_eq_Inr)
  have "claimView k d = (if k = i then None else claimView k c)" by (rule view_closed [OF put]) (simp_all add: noTicket_def)
  then show ?case by simp
next
  case (described c i name loc d)
  then have put: "putDevice i (renamedDevice name loc) c = Inr d" by (auto simp: updateDevice_def bindR_eq_Inr)
  have "claimView k d = claimView k c" by (rule view_kept [OF put]) (simp add: renamedDevice_def)
  then show ?case by simp
next
  case (beat c i hb now live d eff)
  then obtain f b where put: "putDevice i f b = Inr d" "b = (if live then seenAlive i now c else c)"
    "\<forall>x. dv_id (f x) = dv_id x \<and> dv_status (f x) = dv_status x \<and> dv_claimHash (f x) = dv_claimHash x"
    by (auto simp: applyHeartbeat_def bindR_eq_Inr beaten_def split: if_splits)
  have "claimView k d = claimView k b" by (rule view_kept [OF put(1)]) (simp add: put(3))
  then show ?case by (simp add: put(2) view_seen)
next
  case (heard c i online now live d)
  then have put: "putDevice i (\<lambda>d. d\<lparr>dv_online := online, dv_lastSeenAt := (if live then Some now else dv_lastSeenAt d)\<rparr>)
      (if live then seenAlive i now c else c) = Inr d" by (simp add: setOnline_def)
  have "claimView k d = claimView k (if live then seenAlive i now c else c)" by (rule view_kept [OF put]) simp
  then show ?case by (simp add: view_seen)
qed

lemma typedLast_append: "typedLast env k x h' \<Longrightarrow> typedLast env k x (h @ h')"
  unfolding typedLast_def by (metis append_assoc)

lemma claimReach_typed:
  "claimReach env a h d \<Longrightarrow> claimView k a = None \<Longrightarrow> claimView k d = Some x \<Longrightarrow> typedLast env k x h"
proof (induction arbitrary: x rule: claimReach.induct)
  case (more a h c h' d)
  from claimStep_view [OF more.hyps(2), of k] more.prems(2)
  consider "claimView k c = Some x" "quiet k h'" | "typedLast env k x h'" by auto
  then show ?case
  proof cases
    case 1
    from more.IH [OF more.prems(1) 1(1)] 1(2) show ?thesis by (rule typedLast_quiet)
  qed (rule typedLast_append)
qed simp

lemma claimStep_handed:
  assumes "claimStep env c h d" "Handed i code \<in> set h"
  shows "h = [Handed i code] \<and> (\<exists>x. claimView i c = Some x \<and> sameSecret env (claimFingerprint env i code) x)"
  using assms
proof (induction rule: claimStep.induct)
  case (registered c body token span d eff answer)
  from registered(1) show ?case by (cases rule: register_cases) (use registered(2) in \<open>auto simp: registerEvents_def\<close>)
qed simp_all


subsection \<open>A concrete fleet\<close>

definition claimEnv :: DevicesEnv where
  "claimEnv = \<lparr>dvc_bootstrap = ''let-me-in'', dvc_attempts = 5, dvc_pollS = 10, dvc_ttlDays = 90, dvc_digest = (\<lambda>t. t)\<rparr>"

definition claimAsk :: "string \<Rightarrow> RegisterDevice" where
  "claimAsk code = \<lparr>rgd_deviceId = ''k001'', rgd_bootstrap = ''let-me-in'', rgd_fwVersion = None, rgd_claimCode = code\<rparr>"

definition claimTyped :: "string \<Rightarrow> ApproveDevice" where
  "claimTyped code = \<lparr>apd_claimCode = code, apd_name = None, apd_location = None\<rparr>"

definition askedBy :: "DevicesDb \<Rightarrow> string \<Rightarrow> (DevicesDb \<times> KioskEffect list \<times> Registration) result" where
  "askedBy c code = register claimEnv c c (claimAsk code) (''t-'' @ code) (0, 1000)"

definition claimEmpty :: DevicesDb where "claimEmpty = \<lparr>dvs_devices = [], dvs_numbers = []\<rparr>"

definition afterAsk :: "DevicesDb \<Rightarrow> string \<Rightarrow> DevicesDb" where
  "afterAsk c code = (case askedBy c code of Inl e \<Rightarrow> c | Inr (d, eff, answer) \<Rightarrow> d)"

definition ticketOf :: "DevicesDb \<Rightarrow> string \<Rightarrow> string option" where
  "ticketOf c code = (case askedBy c code of Inl e \<Rightarrow> None | Inr (d, eff, answer) \<Rightarrow> reg_token answer)"

text \<open>The rows an approval reads, and those it writes to.\<close>

definition afterTyping :: "DevicesDb \<Rightarrow> DevicesDb \<Rightarrow> string \<Rightarrow> DevicesDb" where
  "afterTyping c0 c code = fst (approve claimEnv 5 c0 c ''k001'' (claimTyped code) ''u1'')"


text \<open>Two machines bear one id and the bootstrap secret. The person reads \<open>ab12\<close> on the first and types it; after the approval
  has read the row, and before it writes, the second machine asks with its own code. The approval stands, for the second
  machine: it gets the ticket and the first never does.\<close>

lemma claim_swapped:
  "ticketOf (afterTyping (afterAsk claimEmpty ''ab12'') (afterAsk claimEmpty ''ab12'') ''ab12'') ''zz99'' = None"
  "ticketOf (afterTyping (afterAsk claimEmpty ''ab12'') (afterAsk (afterAsk claimEmpty ''ab12'') ''zz99'') ''ab12'') ''zz99'' = Some ''t-zz99''"
  "ticketOf (afterTyping (afterAsk claimEmpty ''ab12'') (afterAsk (afterAsk claimEmpty ''ab12'') ''zz99'') ''ab12'') ''ab12'' = None"
  by code_simp+

end
