(* ===== verification/Commands.thy ===== *)
theory Commands
  imports Devices
begin

section \<open>Commands to a kiosk\<close>

text \<open>
  \<open>backend/src/modules/devices/commands.service.ts\<close> with the schema it checks a command against
  (\<open>backend/src/common/generated/device_cmd.ts\<close>): a command is written, published, then closed by the kiosk's answer. The
  command's id and the broker are arguments; the audit entry is an effect that changes nothing here; the page of commands
  is left out but for the state each is read with.
\<close>

datatype CommandState = QUEUED | SENT_COMMAND | DONE | REJECTED_COMMAND | EXPIRED_COMMAND

datatype Setting = SetNumber int | SetText string

record CommandAsk =
  cas_action :: string
  cas_openMs :: "int option"
  cas_activeSlot :: "int option"
  cas_config :: "((string \<times> Setting) list) option"

record DeviceCommand =
  cm_cmdId :: string
  cm_device :: string
  cm_ask :: CommandAsk
  cm_issuedBy :: string
  cm_expiresAt :: "instant option"
  cm_state :: CommandState
  cm_note :: "string option"
  cm_createdAt :: instant

subsection \<open>What may be asked\<close>

text \<open>The schema's settings with the range of each number.\<close>

definition SETTING_RANGES :: "(string \<times> int \<times> int) list" where
  "SETTING_RANGES = [(''brightness'', 1, 100), (''volume'', 0, 100), (''dedupWindowMinutes'', 1, 720), (''faceMinPx'', 16, 480), (''wakeDistanceCm'', 4, 130)]"

definition CONFIG_FIELDS :: "string list" where
  "CONFIG_FIELDS = [''brightness'', ''volume'', ''lang'', ''dedupWindowMinutes'', ''faceMinPx'', ''wakeDistanceCm'']"

definition ACTIONS :: "string list" where
  "ACTIONS = [''OPEN_DOOR'', ''REBOOT'', ''SET_CONFIG'', ''SYNC_TIME'', ''RELOAD_FACEDB'', ''ROTATE_TOKEN'', ''CLEAR_LOGS'', ''SET_ACTIVE_SLOT'', ''DIAGNOSTICS'']"

definition completeAsk :: "CommandAsk \<Rightarrow> bool" where
  "completeAsk ask \<longleftrightarrow>
     (case cas_config ask of None \<Rightarrow> True | Some config \<Rightarrow> list_all (\<lambda>(key, v). key \<in> set CONFIG_FIELDS) config)
     \<and> (if cas_action ask = ''SET_CONFIG'' then (case cas_config ask of None \<Rightarrow> False | Some config \<Rightarrow> config \<noteq> [])
        else cas_action ask \<noteq> ''SET_ACTIVE_SLOT'' \<or> cas_activeSlot ask \<noteq> None)"

text \<open>A key the schema does not know is dropped by it, so it refuses nothing.\<close>

definition settingOk :: "string \<times> Setting \<Rightarrow> bool" where
  "settingOk = (\<lambda>(key, v).
     if key = ''lang'' then v = SetText ''vi'' \<or> v = SetText ''en''
     else (case map_of SETTING_RANGES key of
             None \<Rightarrow> True
           | Some (low, high) \<Rightarrow> (case v of SetNumber n \<Rightarrow> low \<le> n \<and> n \<le> high | SetText t \<Rightarrow> False)))"

definition schemaOk :: "CommandAsk \<Rightarrow> instant \<Rightarrow> instant \<Rightarrow> string \<Rightarrow> bool" where
  "schemaOk ask ts expiresAt issuedBy \<longleftrightarrow>
     0 \<le> ts \<and> 0 \<le> expiresAt \<and> cas_action ask \<in> set ACTIONS \<and> length issuedBy \<le> 64
     \<and> (case cas_openMs ask of None \<Rightarrow> True | Some n \<Rightarrow> 100 \<le> n \<and> n \<le> 30000)
     \<and> (case cas_activeSlot ask of None \<Rightarrow> True | Some n \<Rightarrow> n = 0 \<or> n = 1)
     \<and> (case cas_config ask of None \<Rightarrow> True | Some config \<Rightarrow> list_all settingOk config)"

subsection \<open>The life of a command\<close>

text \<open>The first half of \<open>send\<close>: the row is there before the broker hears of it.\<close>

definition queueCommand ::
  "DevicesDb \<Rightarrow> int \<Rightarrow> instant \<Rightarrow> string \<Rightarrow> string \<Rightarrow> CommandAsk \<Rightarrow> string \<Rightarrow> DeviceCommand list \<Rightarrow> (DeviceCommand list \<times> DeviceCommand) result" where
  "queueCommand devices ttlS ts viewer i ask cmdId rows =
     bindR (found (deviceNamed devices i) (NotFound ''DEVICE_NOT_FOUND'')) (\<lambda>device.
     bindR (refuse (dv_status device \<noteq> APPROVED_DEVICE) (Conflict ''DEVICE_NOT_APPROVED'')) (\<lambda>_.
     bindR (refuse (\<not> dv_online device) (Conflict ''DEVICE_OFFLINE'')) (\<lambda>_.
     bindR (refuse (\<not> completeAsk ask) (BadRequest ''COMMAND_INVALID'')) (\<lambda>_.
     bindR (refuse (\<not> schemaOk ask ts (ts + ttlS * 1000) viewer) (BadRequest ''COMMAND_INVALID'')) (\<lambda>_.
     bindR (refuse (cmdId \<in> cm_cmdId ` set rows) (Unhandled ''P2002'')) (\<lambda>_.
       let row = \<lparr>cm_cmdId = cmdId, cm_device = i, cm_ask = ask, cm_issuedBy = viewer, cm_expiresAt = Some (ts + ttlS * 1000), cm_state = QUEUED,
                  cm_note = None, cm_createdAt = ts\<rparr>
       in Inr (rows @ [row], row)))))))"

text \<open>The second half, when the broker was not reached.\<close>

definition notSent :: "string \<Rightarrow> string \<Rightarrow> DeviceCommand list \<Rightarrow> DeviceCommand list" where
  "notSent cmdId error rows = updateMany (\<lambda>c. cm_cmdId c = cmdId) (\<lambda>c. c\<lparr>cm_state := REJECTED_COMMAND, cm_note := Some (''not sent: '' @ error)\<rparr>) rows"

text \<open>And when it was: an answer may have come first.\<close>

definition commandSent :: "string \<Rightarrow> DeviceCommand list \<Rightarrow> DeviceCommand list" where
  "commandSent cmdId rows = updateMany (\<lambda>c. cm_cmdId c = cmdId \<and> cm_state c = QUEUED) (\<lambda>c. c\<lparr>cm_state := SENT_COMMAND\<rparr>) rows"

definition sendCommand ::
  "DevicesDb \<Rightarrow> int \<Rightarrow> instant \<Rightarrow> string \<Rightarrow> string \<Rightarrow> CommandAsk \<Rightarrow> string \<Rightarrow> string option \<Rightarrow> DeviceCommand list
     \<Rightarrow> DeviceCommand list \<times> (string result)" where
  "sendCommand devices ttlS ts viewer i ask cmdId failure rows =
     (case queueCommand devices ttlS ts viewer i ask cmdId rows of
        Inl e \<Rightarrow> (rows, Inl e)
      | Inr (queued, row) \<Rightarrow>
          (case failure of
             Some error \<Rightarrow> (notSent cmdId error queued, Inl (Conflict ''COMMAND_NOT_SENT''))
           | None \<Rightarrow> (commandSent cmdId queued, Inr cmdId)))"

definition answerState :: "string \<Rightarrow> CommandState option" where
  "answerState kind = (if kind = ''COMMAND_DONE'' then Some DONE else if kind = ''COMMAND_REJECTED'' then Some REJECTED_COMMAND else None)"

definition openCommand :: "CommandState \<Rightarrow> bool" where
  "openCommand s \<longleftrightarrow> s = QUEUED \<or> s = SENT_COMMAND"

definition onAnswer :: "string \<Rightarrow> string \<Rightarrow> string option \<Rightarrow> string option \<Rightarrow> DeviceCommand list \<Rightarrow> DeviceCommand list" where
  "onAnswer device kind cmdId message rows =
     (case (answerState kind, cmdId) of
        (Some s, Some k) \<Rightarrow>
          if k = '''' then rows
          else updateMany (\<lambda>c. cm_cmdId c = k \<and> cm_device c = device \<and> openCommand (cm_state c)) (\<lambda>c. c\<lparr>cm_state := s, cm_note := message\<rparr>) rows
      | _ \<Rightarrow> rows)"

definition readState :: "instant \<Rightarrow> DeviceCommand \<Rightarrow> CommandState" where
  "readState now c =
     (if openCommand (cm_state c) \<and> (case cm_expiresAt c of None \<Rightarrow> False | Some t \<Rightarrow> t < now) then EXPIRED_COMMAND else cm_state c)"

subsection \<open>Closed once\<close>

datatype CommandEvent = CommandQueued string | CommandHeard string | CommandFailed string | CommandAnswered string

inductive commandStep :: "DeviceCommand list \<Rightarrow> CommandEvent list \<Rightarrow> DeviceCommand list \<Rightarrow> bool" where
  queued: "queueCommand devices ttlS ts viewer i ask cmdId rows = Inr (rows', row) \<Longrightarrow> commandStep rows [CommandQueued cmdId] rows'"
| heard: "commandStep rows [CommandHeard cmdId] (commandSent cmdId rows)"
| failed: "commandStep rows [CommandFailed cmdId] (notSent cmdId error rows)"
| answered: "commandStep rows (case cmdId of None \<Rightarrow> [] | Some k \<Rightarrow> [CommandAnswered k]) (onAnswer device kind cmdId message rows)"

inductive commandReach :: "DeviceCommand list \<Rightarrow> CommandEvent list \<Rightarrow> DeviceCommand list \<Rightarrow> bool" where
  start: "commandReach a [] a"
| more: "commandReach a h c \<Longrightarrow> commandStep c h' d \<Longrightarrow> commandReach a (h @ h') d"

definition commandRow :: "string \<Rightarrow> DeviceCommand list \<Rightarrow> DeviceCommand option" where
  "commandRow k rows = firstWhere cm_cmdId k rows"

text \<open>What a command row may become: what was asked never changes, and an open command goes forward.\<close>

definition commandOnward :: "DeviceCommand \<Rightarrow> DeviceCommand \<Rightarrow> bool" where
  "commandOnward x y \<longleftrightarrow>
     cm_cmdId y = cm_cmdId x \<and> cm_device y = cm_device x \<and> cm_ask y = cm_ask x \<and> cm_issuedBy y = cm_issuedBy x \<and> cm_expiresAt y = cm_expiresAt x
     \<and> (cm_state y = cm_state x \<and> cm_note y = cm_note x
        \<or> cm_state x = QUEUED \<and> cm_state y = SENT_COMMAND \<and> cm_note y = cm_note x
        \<or> openCommand (cm_state x) \<and> (cm_state y = DONE \<or> cm_state y = REJECTED_COMMAND))"

lemma commandOnward_refl: "commandOnward x x"
  by (simp add: commandOnward_def)

lemma commandOnward_trans: "commandOnward x y \<Longrightarrow> commandOnward y z \<Longrightarrow> commandOnward x z"
  unfolding commandOnward_def openCommand_def by (elim conjE disjE) simp_all

lemma commandRow_update:
  "(\<And>c. cm_cmdId (f c) = cm_cmdId c) \<Longrightarrow> commandRow k (updateMany P f rows) = map_option (\<lambda>c. if P c then f c else c) (commandRow k rows)"
  by (simp add: commandRow_def firstWhere_updateMany)

lemma commandRow_key: "commandRow k rows = Some c \<Longrightarrow> cm_cmdId c = k"
  unfolding commandRow_def by (auto dest: firstWhere_key)

lemma commandStep_onward:
  assumes "commandStep c h d" "commandRow k c = Some x" "CommandFailed k \<notin> set h"
  shows "\<exists>y. commandRow k d = Some y \<and> commandOnward x y"
  using assms
proof (induction rule: commandStep.induct)
  case (queued devices ttlS ts viewer i ask cmdId rows rows' row)
  then show ?case by (auto simp: queueCommand_def bindR_eq_Inr Let_def commandRow_def firstWhere_append commandOnward_refl)
next
  case (heard rows cmdId)
  then show ?case by (simp add: commandSent_def commandRow_update commandOnward_def)
next
  case (failed rows cmdId error)
  then have "cm_cmdId x \<noteq> cmdId" by (auto dest: commandRow_key)
  with failed show ?case by (simp add: notSent_def commandRow_update commandOnward_refl)
next
  case (answered rows cmdId device kind message)
  show ?case
  proof (cases "answerState kind")
    case (Some s)
    then have "s = DONE \<or> s = REJECTED_COMMAND" by (auto simp: answerState_def split: if_splits)
    with answered Some show ?thesis
      by (cases cmdId) (simp_all add: onAnswer_def commandRow_update commandOnward_def)
  qed (use answered in \<open>simp add: onAnswer_def commandOnward_refl\<close>)
qed


definition commandSample :: "CommandState \<Rightarrow> string option \<Rightarrow> DeviceCommand" where
  "commandSample s note' =
     \<lparr>cm_cmdId = ''c1'', cm_device = ''k001'', cm_ask = \<lparr>cas_action = ''REBOOT'', cas_openMs = None, cas_activeSlot = None, cas_config = None\<rparr>,
      cm_issuedBy = ''u1'', cm_expiresAt = Some 60000, cm_state = s, cm_note = note', cm_createdAt = 0\<rparr>"


text \<open>A kiosk that heard the command and answered before the broker's failure was reported: its answer is written over.\<close>

lemma answer_overwritten:
  "notSent ''c1'' ''connection closed'' (onAnswer ''k001'' ''COMMAND_DONE'' (Some ''c1'') None [commandSample QUEUED None])
     = [commandSample REJECTED_COMMAND (Some ''not sent: connection closed'')]"
  by code_simp

end
