(* ===== verification/Releases.thy ===== *)
theory Releases
  imports Devices Money "HOL-Library.Word"
begin

section \<open>Releases and the order of updates\<close>

text \<open>
  \<open>backend/src/modules/models/release-rules.ts\<close> and the pure part of \<open>models.service.ts\<close>: which kiosk is behind a
  release, what an uploaded image says of itself, and the search for the shortest order of releases that brings a
  kiosk to the newest firmware and models. The loop of the search is a function with a proved measure.
\<close>

subsection \<open>Releases\<close>

datatype Target = FIRMWARE | MODELS

datatype RolloutState = DRAFT | ROLLING | PAUSED | COMPLETED

text \<open>A row less its \<open>rolloutState\<close>, which theory Rollout keeps beside it, as nothing here reads it.\<close>

record Release =
  rel_id :: string
  rel_target :: Target
  rel_version :: string
  rel_path :: "string option"
  rel_sha256 :: string
  rel_sizeBytes :: int
  rel_minFwVersion :: "string option"
  rel_runId :: "string option"
  rel_embeddingVersion :: "string option"
  rel_requiresModels :: "string option"
  rel_notes :: "(string \<times> string) option"
  rel_createdAt :: instant

text \<open>\<open>/^(\d+)\.(\d+)\.(\d+)$/\<close>; the digits are read into whole numbers.\<close>

definition decimalPart :: "string \<Rightarrow> int option" where
  "decimalPart t = (if t = '''' then None else readDigits t 0)"

definition semver :: "string option \<Rightarrow> (int \<times> int \<times> int) option" where
  "semver version =
     (case version of
        None \<Rightarrow> None
      | Some v \<Rightarrow> (case map decimalPart (splitOn (CHR ''.'') v) of
                   [Some a, Some b, Some c] \<Rightarrow> Some (a, b, c) | _ \<Rightarrow> None))"

definition versionLess :: "int \<times> int \<times> int \<Rightarrow> int \<times> int \<times> int \<Rightarrow> bool" where
  "versionLess = (\<lambda>(a, b, c) (a', b', c'). if a \<noteq> a' then a < a' else if b \<noteq> b' then b < b' else if c \<noteq> c' then c < c' else False)"

text \<open>What a kiosk runs: its firmware and its models, as it reported them.\<close>

record Runs =
  run_fw :: "string option"
  run_models :: "string option"

definition behindRelease :: "Runs \<Rightarrow> Release \<Rightarrow> bool" where
  "behindRelease r rel =
     (if rel_target rel = MODELS then run_models r \<noteq> Some (rel_version rel)
      else case (semver (run_fw r), semver (Some (rel_version rel))) of
             (Some mine, Some theirs) \<Rightarrow> versionLess mine theirs | _ \<Rightarrow> True)"

definition atLeast :: "string option \<Rightarrow> string \<Rightarrow> bool" where
  "atLeast version wanted =
     (case (semver version, semver (Some wanted)) of
        (Some mine, Some theirs) \<Rightarrow> \<not> versionLess mine theirs | _ \<Rightarrow> False)"

definition changesRecognition :: "Device \<Rightarrow> Release \<Rightarrow> bool" where
  "changesRecognition d rel \<longleftrightarrow>
     rel_target rel = MODELS \<and> (rel_embeddingVersion rel = None \<or> rel_embeddingVersion rel \<noteq> dv_embeddingVersion d)"

definition runsOf :: "Device \<Rightarrow> Runs" where
  "runsOf d = \<lparr>run_fw = dv_fwVersion d, run_models = dv_modelVersion d\<rparr>"

definition runsRelease :: "Device \<Rightarrow> Release \<Rightarrow> bool" where
  "runsRelease d rel \<longleftrightarrow> (if rel_target rel = MODELS then dv_modelVersion d else dv_fwVersion d) = Some (rel_version rel)"

subsection \<open>What an image says of itself\<close>

type_synonym bytes = "8 word list"

definition APP_IMAGE_MAGIC :: "8 word" where "APP_IMAGE_MAGIC = 0xE9"
definition APP_DESC_OFFSET :: nat where "APP_DESC_OFFSET = 32"
definition APP_DESC_MAGIC :: nat where "APP_DESC_MAGIC = 2882360370"
definition APP_VERSION_OFFSET :: nat where "APP_VERSION_OFFSET = 48"
definition APP_VERSION_BYTES :: nat where "APP_VERSION_BYTES = 32"
definition APP_HEAD_BYTES :: nat where "APP_HEAD_BYTES = APP_VERSION_OFFSET + APP_VERSION_BYTES"
definition MODELS_MAGIC :: nat where "MODELS_MAGIC = 1397507149"
definition MODELS_COUNT_OFFSET :: nat where "MODELS_COUNT_OFFSET = 8"
definition MODELS_ENTRY_OFFSET :: nat where "MODELS_ENTRY_OFFSET = 16"
definition MODELS_ENTRY_BYTES :: nat where "MODELS_ENTRY_BYTES = 64"
definition MODELS_ENTRY_CAP :: nat where "MODELS_ENTRY_CAP = 3"
definition MODELS_NAME_BYTES :: nat where "MODELS_NAME_BYTES = 16"
definition MODELS_SHA_OFFSET :: nat where "MODELS_SHA_OFFSET = 24"
definition MODELS_HEAD_BYTES :: nat where "MODELS_HEAD_BYTES = 256"
definition RECOGNITION_ENTRY :: string where "RECOGNITION_ENTRY = ''recog''"
definition EMBEDDING_SHA_BYTES :: nat where "EMBEDDING_SHA_BYTES = 8"
definition HEAD_BYTES :: nat where "HEAD_BYTES = max APP_HEAD_BYTES MODELS_HEAD_BYTES"

definition readUInt32LE :: "bytes \<Rightarrow> nat \<Rightarrow> nat" where
  "readUInt32LE b k = unat (b ! k) + 256 * unat (b ! (k + 1)) + 65536 * unat (b ! (k + 2)) + 16777216 * unat (b ! (k + 3))"

definition subarray :: "nat \<Rightarrow> nat \<Rightarrow> bytes \<Rightarrow> bytes" where
  "subarray from to b = drop from (take to b)"

text \<open>A text in a field of fixed width: the bytes before the first zero, each taken as one character.\<close>

definition cText :: "bytes \<Rightarrow> string" where
  "cText raw = map (\<lambda>b. char_of (unat b)) (takeWhile (\<lambda>b. b \<noteq> 0) raw)"

definition hexDigit :: "nat \<Rightarrow> char" where
  "hexDigit n = ''0123456789abcdef'' ! n"

definition hexOf :: "bytes \<Rightarrow> string" where
  "hexOf bs = concat (map (\<lambda>b. [hexDigit (unat b div 16), hexDigit (unat b mod 16)]) bs)"

fun entryLoop :: "bytes \<Rightarrow> nat list \<Rightarrow> string option" where
  "entryLoop head [] = None"
| "entryLoop head (k # ks) =
     (let entry = subarray (MODELS_ENTRY_OFFSET + k * MODELS_ENTRY_BYTES) (MODELS_ENTRY_OFFSET + (k + 1) * MODELS_ENTRY_BYTES) head
      in if cText (subarray 0 MODELS_NAME_BYTES entry) = RECOGNITION_ENTRY
         then Some (''recog-'' @ hexOf (subarray MODELS_SHA_OFFSET (MODELS_SHA_OFFSET + EMBEDDING_SHA_BYTES) entry))
         else entryLoop head ks)"

definition embeddingOf :: "bytes \<Rightarrow> string option" where
  "embeddingOf head =
     (if length head < MODELS_HEAD_BYTES \<or> readUInt32LE head 0 \<noteq> MODELS_MAGIC then None
      else entryLoop head [0..<min (readUInt32LE head MODELS_COUNT_OFFSET) MODELS_ENTRY_CAP])"

definition checkAppImage :: "bytes \<Rightarrow> string \<Rightarrow> unit result" where
  "checkAppImage head version =
     bindR (refuse (length head < APP_HEAD_BYTES \<or> head ! 0 \<noteq> APP_IMAGE_MAGIC \<or> readUInt32LE head APP_DESC_OFFSET \<noteq> APP_DESC_MAGIC)
              (BadRequest ''RELEASE_NOT_APP_IMAGE'')) (\<lambda>_.
       refuse (cText (subarray APP_VERSION_OFFSET (APP_VERSION_OFFSET + APP_VERSION_BYTES) head) \<noteq> version)
         (BadRequest ''RELEASE_VERSION_MISMATCH''))"

subsection \<open>Storing a body\<close>

text \<open>\<open>store\<close>: the body comes in chunks; what is hashed and written, the size, and the chunks kept for the head.\<close>

record Stored =
  st_kept :: bytes
  st_size :: nat
  st_head :: bytes

fun storeLoop :: "nat \<Rightarrow> bytes list \<Rightarrow> Stored \<Rightarrow> Stored" where
  "storeLoop ceiling [] s = s"
| "storeLoop ceiling (chunk # chunks) s =
     (let size = st_size s + length chunk in
      if size > ceiling * 2 then s\<lparr>st_size := size\<rparr>
      else if size > ceiling then storeLoop ceiling chunks (s\<lparr>st_size := size\<rparr>)
      else storeLoop ceiling chunks
             \<lparr>st_kept = st_kept s @ chunk, st_size = size,
              st_head = (if size - length chunk < HEAD_BYTES then st_head s @ chunk else st_head s)\<rparr>)"

definition store :: "nat \<Rightarrow> bytes list \<Rightarrow> (bytes \<times> nat \<times> bytes) result" where
  "store ceiling body =
     (let s = storeLoop ceiling body \<lparr>st_kept = [], st_size = 0, st_head = []\<rparr> in
      bindR (refuse (st_size s > ceiling) (BadRequest ''RELEASE_TOO_BIG'')) (\<lambda>_.
      bindR (refuse (st_size s = 0) (BadRequest ''RELEASE_EMPTY'')) (\<lambda>_.
        Inr (st_kept s, st_size s, take HEAD_BYTES (st_head s)))))"

subsection \<open>The moves of a kiosk\<close>

text \<open>What the search reads of the releases: those that can be installed, and when each models version was published.\<close>

record Moves =
  mv_firmware :: "Release list"
  mv_models :: "Release list"
  mv_goals :: "Release list"
  mv_modelsAt :: "(string \<times> instant) list"

text \<open>A \<open>Map\<close> built from pairs keeps the last of a key.\<close>

definition timeOf :: "Moves \<Rightarrow> string option \<Rightarrow> instant option" where
  "timeOf mv version = (case version of None \<Rightarrow> None | Some v \<Rightarrow> map_of (rev (mv_modelsAt mv)) v)"

definition firstOf :: "'a list \<Rightarrow> 'a list" where
  "firstOf xs = (case xs of [] \<Rightarrow> [] | x # _ \<Rightarrow> [x])"

definition movesOver :: "Release list \<Rightarrow> instant option \<Rightarrow> Moves" where
  "movesOver releases asOf =
     (let steps = filter (\<lambda>r. rel_path r \<noteq> None \<and> (case asOf of None \<Rightarrow> True | Some t \<Rightarrow> rel_createdAt r \<le> t)) releases;
          firmware = filter (\<lambda>r. rel_target r = FIRMWARE) steps; models = filter (\<lambda>r. rel_target r = MODELS) steps
      in \<lparr>mv_firmware = firmware, mv_models = models, mv_goals = firstOf firmware @ firstOf models,
          mv_modelsAt = map (\<lambda>r. (rel_version r, rel_createdAt r)) (filter (\<lambda>r. rel_target r = MODELS) releases)\<rparr>)"

definition arrived :: "Moves \<Rightarrow> Runs \<Rightarrow> bool" where
  "arrived mv r \<longleftrightarrow> (\<forall>goal \<in> set (mv_goals mv). \<not> behindRelease r goal)"

definition firmwareFits :: "Moves \<Rightarrow> Runs \<Rightarrow> Release \<Rightarrow> bool" where
  "firmwareFits mv r rel \<longleftrightarrow>
     behindRelease r rel
     \<and> (case rel_requiresModels rel of
          None \<Rightarrow> True
        | Some need \<Rightarrow> (case (timeOf mv (run_models r), timeOf mv (Some need)) of (Some mine, Some wanted) \<Rightarrow> mine \<ge> wanted | _ \<Rightarrow> False))"

definition modelsFit :: "Moves \<Rightarrow> Runs \<Rightarrow> Release \<Rightarrow> bool" where
  "modelsFit mv r rel \<longleftrightarrow>
     Some (rel_version rel) \<noteq> run_models r
     \<and> (case timeOf mv (run_models r) of None \<Rightarrow> True | Some mine \<Rightarrow> rel_createdAt rel > mine)
     \<and> (case rel_minFwVersion rel of None \<Rightarrow> True | Some fw \<Rightarrow> atLeast (run_fw r) fw)"

definition movesFrom :: "Moves \<Rightarrow> Runs \<Rightarrow> Release list" where
  "movesFrom mv r = filter (firmwareFits mv r) (mv_firmware mv) @ filter (modelsFit mv r) (mv_models mv)"

definition installed :: "Runs \<Rightarrow> Release \<Rightarrow> Runs" where
  "installed r step = (if rel_target step = FIRMWARE then r\<lparr>run_fw := Some (rel_version step)\<rparr> else r\<lparr>run_models := Some (rel_version step)\<rparr>)"

definition keyOf :: "Runs \<Rightarrow> string" where
  "keyOf r = orElse (run_fw r) '''' @ ''|'' @ orElse (run_models r) ''''"

subsection \<open>The search\<close>

type_synonym frontier = "(Runs \<times> Release list) list"

text \<open>The two loops over one level: every kiosk state of it with every move, the first that arrives returned.\<close>

definition stepsOf :: "Moves \<Rightarrow> frontier \<Rightarrow> frontier" where
  "stepsOf mv frontier = concat (map (\<lambda>(r, path). map (\<lambda>step. (installed r step, path @ [step])) (movesFrom mv r)) frontier)"

fun scanLevel :: "Moves \<Rightarrow> frontier \<Rightarrow> string set \<Rightarrow> frontier \<Rightarrow> Release list + string set \<times> frontier" where
  "scanLevel mv [] seen deeper = Inr (seen, deeper)"
| "scanLevel mv ((after, longer) # rest) seen deeper =
     (if arrived mv after then Inl longer
      else if keyOf after \<in> seen then scanLevel mv rest seen deeper
      else scanLevel mv rest (insert (keyOf after) seen) (deeper @ [(after, longer)]))"

text \<open>The keys a search can ever meet from a level, which bound it.\<close>

definition versions :: "Moves \<Rightarrow> string option set" where
  "versions mv = (Some \<circ> rel_version) ` (set (mv_firmware mv) \<union> set (mv_models mv))"

definition reachKeys :: "Moves \<Rightarrow> frontier \<Rightarrow> string set" where
  "reachKeys mv frontier =
     (\<lambda>(f, m). keyOf \<lparr>run_fw = f, run_models = m\<rparr>)
       ` (((run_fw \<circ> fst) ` set frontier \<union> versions mv) \<times> ((run_models \<circ> fst) ` set frontier \<union> versions mv))"

lemma movesFrom_in: "step \<in> set (movesFrom mv r) \<Longrightarrow> Some (rel_version step) \<in> versions mv"
  by (auto simp: movesFrom_def versions_def)

lemma scanLevel_new:
  "scanLevel mv xs seen deeper = Inr (seen', deeper') \<Longrightarrow>
     \<exists>new. deeper' = deeper @ new \<and> set new \<subseteq> set xs \<and> seen' = seen \<union> (keyOf \<circ> fst) ` set new
       \<and> (keyOf \<circ> fst) ` set new \<inter> seen = {}"
proof (induction mv xs seen deeper rule: scanLevel.induct)
  case (2 mv after longer rest seen deeper)
  from 2(3) have not: "\<not> arrived mv after" by (auto split: if_splits)
  show ?case
  proof (cases "keyOf after \<in> seen")
    case True
    with 2(3) not have "scanLevel mv rest seen deeper = Inr (seen', deeper')" by simp
    with 2(1) [OF not True] show ?thesis by fastforce
  next
    case False
    with 2(3) not have "scanLevel mv rest (insert (keyOf after) seen) (deeper @ [(after, longer)]) = Inr (seen', deeper')" by simp
    with 2(2) [OF not False] obtain new where
      "deeper' = (deeper @ [(after, longer)]) @ new" "set new \<subseteq> set rest"
      "seen' = insert (keyOf after) seen \<union> (keyOf \<circ> fst) ` set new" "(keyOf \<circ> fst) ` set new \<inter> insert (keyOf after) seen = {}" by blast
    with False show ?thesis by (intro exI [of _ "(after, longer) # new"]) auto
  qed
qed simp

lemma reachKeys_finite [simp]: "finite (reachKeys mv frontier)"
  by (simp add: reachKeys_def versions_def)

lemma stepsOf_in:
  assumes "x \<in> set (stepsOf mv frontier)"
  shows "run_fw (fst x) \<in> (run_fw \<circ> fst) ` set frontier \<union> versions mv" "run_models (fst x) \<in> (run_models \<circ> fst) ` set frontier \<union> versions mv"
  using assms by (force simp: stepsOf_def installed_def dest: movesFrom_in)+

lemma reachKeys_shrinks:
  assumes "set new \<subseteq> set (stepsOf mv frontier)"
  shows "reachKeys mv new \<subseteq> reachKeys mv frontier" "(keyOf \<circ> fst) ` set new \<subseteq> reachKeys mv frontier"
proof -
  have f: "(run_fw \<circ> fst) ` set new \<subseteq> (run_fw \<circ> fst) ` set frontier \<union> versions mv"
    and m: "(run_models \<circ> fst) ` set new \<subseteq> (run_models \<circ> fst) ` set frontier \<union> versions mv"
    using assms stepsOf_in by fastforce+
  then show "reachKeys mv new \<subseteq> reachKeys mv frontier" unfolding reachKeys_def by (intro image_mono Sigma_mono) auto
  show "(keyOf \<circ> fst) ` set new \<subseteq> reachKeys mv frontier"
  proof
    fix k assume "k \<in> (keyOf \<circ> fst) ` set new"
    then obtain x where x: "x \<in> set new" "k = keyOf (fst x)" by auto
    with assms stepsOf_in [of x mv frontier] show "k \<in> reachKeys mv frontier"
      unfolding reachKeys_def by (intro image_eqI [of _ _ "(run_fw (fst x), run_models (fst x))"]) (auto simp: mem_Times_iff keyOf_def)
  qed
qed

function search :: "Moves \<Rightarrow> frontier \<Rightarrow> string set \<Rightarrow> Release list option" where
  "search mv frontier seen =
     (if frontier = [] then None
      else case scanLevel mv (stepsOf mv frontier) seen [] of
             Inl path \<Rightarrow> Some path
           | Inr (seen', deeper) \<Rightarrow> search mv deeper seen')"
  by pat_completeness auto

termination
proof (relation "measures [\<lambda>(mv, frontier, seen). card (reachKeys mv frontier - seen), \<lambda>(mv, frontier, seen). length (firstOf frontier)]")
  fix mv frontier seen x seen' deeper
  assume frontier: "frontier \<noteq> []" and scan: "scanLevel mv (stepsOf mv frontier) seen [] = Inr x" "(seen', deeper) = x"
  from scan have "scanLevel mv (stepsOf mv frontier) seen [] = Inr (seen', deeper)" by simp
  from scanLevel_new [OF this] have new: "set deeper \<subseteq> set (stepsOf mv frontier)" "seen' = seen \<union> (keyOf \<circ> fst) ` set deeper"
    "(keyOf \<circ> fst) ` set deeper \<inter> seen = {}" by auto
  have sub: "reachKeys mv deeper - seen' \<subseteq> reachKeys mv frontier - seen"
    using reachKeys_shrinks(1) [OF new(1)] new(2) by blast
  show "((mv, deeper, seen'), (mv, frontier, seen))
      \<in> measures [\<lambda>(mv, frontier, seen). card (reachKeys mv frontier - seen), \<lambda>(mv, frontier, seen). length (firstOf frontier)]"
  proof (cases "deeper = []")
    case True
    from sub have "card (reachKeys mv deeper - seen') \<le> card (reachKeys mv frontier - seen)" by (simp add: card_mono)
    with True frontier show ?thesis by (cases frontier) (auto simp: firstOf_def le_less)
  next
    case False
    then obtain k where "k \<in> (keyOf \<circ> fst) ` set deeper" by (cases deeper) auto
    with new(3) reachKeys_shrinks(2) [OF new(1)] new(2) sub
    have "reachKeys mv deeper - seen' \<subset> reachKeys mv frontier - seen" by blast
    then have "card (reachKeys mv deeper - seen') < card (reachKeys mv frontier - seen)" by (simp add: psubset_card_mono)
    then show ?thesis by simp
  qed
qed simp

declare search.simps [simp del]

text \<open>\<open>route\<close>: \<open>None\<close> when the kiosk runs both goals.\<close>

definition route :: "Device \<Rightarrow> Release list \<Rightarrow> instant option \<Rightarrow> (Release list option) result" where
  "route d releases asOf =
     (let mv = movesOver releases asOf; start = runsOf d in
      if arrived mv start then Inr None
      else bindR (refuse (dv_fwOnTrial d = Some True) (Conflict ''OTA_IN_PROGRESS'')) (\<lambda>_.
             case search mv [(start, [])] {keyOf start} of
               None \<Rightarrow> Inl (Conflict ''RELEASE_UNREACHABLE'')
             | Some path \<Rightarrow> Inr (Some path)))"

end
