(* ===== verification/Routes.thy ===== *)
theory Routes
  imports Releases
begin

section \<open>The search finds the shortest order\<close>

text \<open>
  The search of theory Releases against its reference: all orders of moves of one length, in the order the code tries
  them. What the search returns is the first that arrives among the shortest, and it gives up only when none arrives.
\<close>

subsection \<open>Orders of moves\<close>

fun journeys :: "Moves \<Rightarrow> Runs \<Rightarrow> nat \<Rightarrow> frontier" where
  "journeys mv r 0 = [(r, [])]"
| "journeys mv r (Suc n) = stepsOf mv (journeys mv r n)"

definition firstArrival :: "Moves \<Rightarrow> frontier \<Rightarrow> (Runs \<times> Release list) option" where
  "firstArrival mv xs = find (arrived mv \<circ> fst) xs"

text \<open>An order in which every step can be installed when its turn comes.\<close>

fun follows :: "Moves \<Rightarrow> Runs \<Rightarrow> Release list \<Rightarrow> bool" where
  "follows mv r [] = True"
| "follows mv r (s # path) = (s \<in> set (movesFrom mv r) \<and> follows mv (installed r s) path)"

lemma follows_snoc: "follows mv r (path @ [s]) \<longleftrightarrow> follows mv r path \<and> s \<in> set (movesFrom mv (foldl installed r path))"
  by (induction path arbitrary: r) auto

lemma stepsOf_mem:
  "x \<in> set (stepsOf mv frontier) \<longleftrightarrow>
     (\<exists>r path s. (r, path) \<in> set frontier \<and> s \<in> set (movesFrom mv r) \<and> x = (installed r s, path @ [s]))"
  by (auto simp: stepsOf_def)

lemma journeys_mem: "(e, path) \<in> set (journeys mv r n) \<longleftrightarrow> length path = n \<and> follows mv r path \<and> e = foldl installed r path"
proof (induction n arbitrary: e path)
  case (Suc n)
  show ?case
  proof
    assume "(e, path) \<in> set (journeys mv r (Suc n))"
    then obtain r' p s where "(r', p) \<in> set (journeys mv r n)" "s \<in> set (movesFrom mv r')" "e = installed r' s" "path = p @ [s]"
      by (auto simp: stepsOf_mem)
    with Suc show "length path = Suc n \<and> follows mv r path \<and> e = foldl installed r path" by (auto simp: follows_snoc)
  next
    assume a: "length path = Suc n \<and> follows mv r path \<and> e = foldl installed r path"
    then obtain p s where p: "path = p @ [s]" by (cases path rule: rev_cases) auto
    with a Suc have "(foldl installed r p, p) \<in> set (journeys mv r n)" by (auto simp: follows_snoc)
    with a p show "(e, path) \<in> set (journeys mv r (Suc n))" by (auto simp: stepsOf_mem follows_snoc)
  qed
qed auto

definition reached :: "Moves \<Rightarrow> Runs \<Rightarrow> nat \<Rightarrow> Runs set" where
  "reached mv r n = fst ` set (journeys mv r n)"

lemma reached_alt: "reached mv r n = {foldl installed r path | path. length path = n \<and> follows mv r path}"
  unfolding reached_def by (auto simp: journeys_mem) (metis fst_conv image_eqI journeys_mem)

lemma follows_append: "follows mv r (p @ q) \<longleftrightarrow> follows mv r p \<and> follows mv (foldl installed r p) q"
  by (induction p arbitrary: r) auto

lemma reached_add: "e \<in> reached mv r (m + n) \<longleftrightarrow> (\<exists>r' \<in> reached mv r m. e \<in> reached mv r' n)"
proof
  assume "e \<in> reached mv r (m + n)"
  then obtain path where p: "e = foldl installed r path" "length path = m + n" "follows mv r path" by (auto simp: reached_alt)
  then have "path = take m path @ drop m path" "length (take m path) = m" "length (drop m path) = n" by simp_all
  with p show "\<exists>r' \<in> reached mv r m. e \<in> reached mv r' n"
    by (metis (mono_tags, lifting) CollectI foldl_append follows_append reached_alt)
next
  assume "\<exists>r' \<in> reached mv r m. e \<in> reached mv r' n"
  then obtain p q where "length p = m" "follows mv r p" "length q = n" "follows mv (foldl installed r p) q"
    "e = foldl installed (foldl installed r p) q" by (auto simp: reached_alt)
  then show "e \<in> reached mv r (m + n)" unfolding reached_alt by (intro CollectI exI [of _ "p @ q"]) (simp add: follows_append)
qed

lemma reached_Suc: "reached mv r (Suc n) = {installed r' s | r' s. r' \<in> reached mv r n \<and> s \<in> set (movesFrom mv r')}"
  by (force simp: reached_def stepsOf_def)

subsection \<open>One level of the search\<close>

lemma find_concat_map:
  "find P (concat (map f xs)) = (case find (\<lambda>x. \<exists>y \<in> set (f x). P y) xs of None \<Rightarrow> None | Some x \<Rightarrow> find P (f x))"
proof (induction xs)
  case (Cons x xs)
  show ?case
  proof (cases "\<exists>y \<in> set (f x). P y")
    case True
    then obtain y where "find P (f x) = Some y" by (cases "find P (f x)") (auto simp: find_None_iff)
    with True show ?thesis by (simp add: find_append)
  next
    case False
    then have "find P (f x) = None" by (auto simp: find_None_iff)
    with False Cons show ?thesis by (auto simp: find_append)
  qed
qed simp

lemma find_stepsOf:
  assumes "find ((\<lambda>r. \<exists>s \<in> set (movesFrom mv r). Q (installed r s)) \<circ> fst) xs
    = find ((\<lambda>r. \<exists>s \<in> set (movesFrom mv r). Q (installed r s)) \<circ> fst) ys"
  shows "find (Q \<circ> fst) (stepsOf mv xs) = find (Q \<circ> fst) (stepsOf mv ys)"
proof -
  have "(\<lambda>x. \<exists>y \<in> set (case x of (r, path) \<Rightarrow> map (\<lambda>s. (installed r s, path @ [s])) (movesFrom mv r)). (Q \<circ> fst) y)
      = (\<lambda>r. \<exists>s \<in> set (movesFrom mv r). Q (installed r s)) \<circ> fst"
    by (auto simp: fun_eq_iff)
  with assms show ?thesis unfolding stepsOf_def find_concat_map by simp
qed

lemma scanLevel_arrives:
  "case firstArrival mv xs of
     Some x \<Rightarrow> scanLevel mv xs seen deeper = Inl (snd x)
   | None \<Rightarrow> \<exists>y. scanLevel mv xs seen deeper = Inr y"
  by (induction mv xs seen deeper rule: scanLevel.induct) (auto simp: firstArrival_def split: option.splits)

lemma scanLevel_finds:
  assumes "scanLevel mv xs seen deeper = Inr (seen', deeper @ new)"
    and "\<forall>x \<in> set xs. keyOf (fst x) \<in> seen \<longrightarrow> \<not> Q (fst x)" and "inj_on keyOf (fst ` set xs)"
  shows "find (Q \<circ> fst) new = find (Q \<circ> fst) xs"
  using assms
proof (induction mv xs seen deeper arbitrary: new rule: scanLevel.induct)
  case (2 mv after longer rest seen deeper)
  from 2(3) have not: "\<not> arrived mv after" by (auto split: if_splits)
  show ?case
  proof (cases "keyOf after \<in> seen")
    case True
    with 2 not show ?thesis by (auto simp: inj_on_def)
  next
    case False
    with 2(3) not have scan: "scanLevel mv rest (insert (keyOf after) seen) (deeper @ [(after, longer)]) = Inr (seen', deeper @ new)" by simp
    from scanLevel_new [OF scan] obtain more where new: "new = (after, longer) # more" by auto
    show ?thesis
    proof (cases "Q after")
      case True
      then show ?thesis by (simp add: new)
    next
      case nQ: False
      have "find (Q \<circ> fst) more = find (Q \<circ> fst) rest"
      proof (rule 2(2) [OF not False])
        show "scanLevel mv rest (insert (keyOf after) seen) (deeper @ [(after, longer)]) = Inr (seen', (deeper @ [(after, longer)]) @ more)"
          using scan by (simp add: new)
        show "\<forall>x \<in> set rest. keyOf (fst x) \<in> insert (keyOf after) seen \<longrightarrow> \<not> Q (fst x)"
          using 2(4,5) nQ by (auto simp: inj_on_def)
        show "inj_on keyOf (fst ` set rest)" using 2(5) by (auto simp: inj_on_def)
      qed
      with nQ show ?thesis by (simp add: new comp_def)
    qed
  qed
qed simp

subsection \<open>The search as a whole\<close>

definition apart :: "Moves \<Rightarrow> Runs \<Rightarrow> bool" where
  "apart mv r \<longleftrightarrow> inj_on keyOf (\<Union>n. reached mv r n)"

definition searchOk :: "Moves \<Rightarrow> Runs \<Rightarrow> nat \<Rightarrow> frontier \<Rightarrow> string set \<Rightarrow> bool" where
  "searchOk mv r n frontier seen \<longleftrightarrow>
     (\<forall>Q. (\<forall>j < n. \<forall>e \<in> reached mv r j. \<not> Q e) \<longrightarrow> find (Q \<circ> fst) frontier = find (Q \<circ> fst) (journeys mv r n))
     \<and> seen \<subseteq> keyOf ` (\<Union>j \<le> n. reached mv r j) \<and> fst ` set frontier \<subseteq> reached mv r n
     \<and> (\<forall>j \<le> n. \<forall>e \<in> reached mv r j. \<not> arrived mv e)"

lemma searchOkD:
  assumes "searchOk mv r n frontier seen"
  shows "(\<And>j e. j < n \<Longrightarrow> e \<in> reached mv r j \<Longrightarrow> \<not> Q e) \<Longrightarrow> find (Q \<circ> fst) frontier = find (Q \<circ> fst) (journeys mv r n)"
    "seen \<subseteq> keyOf ` (\<Union>j \<le> n. reached mv r j)" "fst ` set frontier \<subseteq> reached mv r n"
    "\<forall>j \<le> n. \<forall>e \<in> reached mv r j. \<not> arrived mv e"
proof -
  show "find (Q \<circ> fst) frontier = find (Q \<circ> fst) (journeys mv r n)" if "\<And>j e. j < n \<Longrightarrow> e \<in> reached mv r j \<Longrightarrow> \<not> Q e"
    using assms [unfolded searchOk_def, THEN conjunct1, rule_format, of Q] that by presburger
qed (use assms in \<open>simp_all add: searchOk_def\<close>)

lemma firstArrival_none: "firstArrival mv (journeys mv r n) = None \<longleftrightarrow> (\<forall>e \<in> reached mv r n. \<not> arrived mv e)"
  by (auto simp: firstArrival_def find_None_iff reached_def)

lemma searchOk_steps:
  assumes "searchOk mv r n frontier seen" "\<forall>j \<le> n. \<forall>e \<in> reached mv r j. \<not> Q e"
  shows "find (Q \<circ> fst) (stepsOf mv frontier) = find (Q \<circ> fst) (journeys mv r (Suc n))"
proof -
  have "find ((\<lambda>e. \<exists>s \<in> set (movesFrom mv e). Q (installed e s)) \<circ> fst) frontier
      = find ((\<lambda>e. \<exists>s \<in> set (movesFrom mv e). Q (installed e s)) \<circ> fst) (journeys mv r n)"
  proof -
    have "\<not> (\<exists>s \<in> set (movesFrom mv e). Q (installed e s))" if "j < n" "e \<in> reached mv r j" for j e
    proof
      assume "\<exists>s \<in> set (movesFrom mv e). Q (installed e s)"
      with that obtain s where "installed e s \<in> reached mv r (Suc j)" "Q (installed e s)" unfolding reached_Suc by blast
      with assms(2) \<open>j < n\<close> show False by (meson Suc_leI)
    qed
    then show ?thesis by (rule searchOkD(1) [OF assms(1)])
  qed
  from find_stepsOf [OF this] show ?thesis by simp
qed

lemma searchOk_next:
  assumes ok: "searchOk mv r n frontier seen" and apart: "apart mv r"
    and scan: "scanLevel mv (stepsOf mv frontier) seen [] = Inr (seen', deeper)"
  shows "searchOk mv r (Suc n) deeper seen'"
proof -
  have steps: "fst ` set (stepsOf mv frontier) \<subseteq> reached mv r (Suc n)"
  proof
    fix e assume "e \<in> fst ` set (stepsOf mv frontier)"
    then obtain r' path s where "(r', path) \<in> set frontier" "s \<in> set (movesFrom mv r')" "e = installed r' s" by (auto simp: stepsOf_mem)
    moreover from this(1) searchOkD(3) [OF ok] have "r' \<in> reached mv r n" by (metis fst_conv image_eqI subsetD)
    ultimately show "e \<in> reached mv r (Suc n)" unfolding reached_Suc by blast
  qed
  from scanLevel_new [OF scan] have new: "set deeper \<subseteq> set (stepsOf mv frontier)" "seen' = seen \<union> (keyOf \<circ> fst) ` set deeper" by auto
  have none: "firstArrival mv (stepsOf mv frontier) = None"
    using scanLevel_arrives [of mv "stepsOf mv frontier" seen "[]"] scan by (auto split: option.splits)
  note past = searchOkD(4) [OF ok]
  have "firstArrival mv (journeys mv r (Suc n)) = None"
    using none searchOk_steps [OF ok past] by (simp add: firstArrival_def)
  then have here: "\<forall>e \<in> reached mv r (Suc n). \<not> arrived mv e" by (simp add: firstArrival_none del: journeys.simps)
  have finds: "find (Q \<circ> fst) deeper = find (Q \<circ> fst) (journeys mv r (Suc n))"
    if Q: "\<forall>j < Suc n. \<forall>e \<in> reached mv r j. \<not> Q e" for Q
  proof -
    have inj: "inj_on keyOf (fst ` set (stepsOf mv frontier))"
      by (rule inj_on_subset [OF apart [unfolded apart_def]]) (use steps in blast)
    have old: "\<not> Q (fst x)" if x: "x \<in> set (stepsOf mv frontier)" "keyOf (fst x) \<in> seen" for x
    proof -
      from x(2) searchOkD(2) [OF ok] obtain j e where e: "j \<le> n" "e \<in> reached mv r j" "keyOf (fst x) = keyOf e" by blast
      moreover have "fst x \<in> reached mv r (Suc n)" using steps x(1) by auto
      ultimately have "fst x = e" using apart unfolding apart_def inj_on_def by blast
      with e Q show ?thesis by (metis less_Suc_eq_le)
    qed
    have "find (Q \<circ> fst) deeper = find (Q \<circ> fst) (stepsOf mv frontier)"
      by (rule scanLevel_finds [where deeper = "[]"]) (use scan old inj in auto)
    also have "\<dots> = find (Q \<circ> fst) (journeys mv r (Suc n))"
      by (rule searchOk_steps [OF ok Q [unfolded less_Suc_eq_le]])
    finally show ?thesis .
  qed
  have keys: "seen' \<subseteq> keyOf ` (\<Union>j \<le> Suc n. reached mv r j)"
  proof -
    have "(keyOf \<circ> fst) ` set deeper \<subseteq> keyOf ` reached mv r (Suc n)" using new(1) steps by auto
    moreover note searchOkD(2) [OF ok]
    ultimately show ?thesis unfolding new(2) atMost_Suc UN_insert image_Un by (intro Un_least) blast+
  qed
  have "fst ` set deeper \<subseteq> reached mv r (Suc n)" using new(1) steps by auto
  moreover have "\<forall>j \<le> Suc n. \<forall>e \<in> reached mv r j. \<not> arrived mv e" using past here by (auto simp: le_Suc_eq)
  ultimately show ?thesis using finds keys by (simp only: searchOk_def) simp
qed

lemma search_exact:
  assumes "searchOk mv r n frontier seen" "apart mv r"
  shows "case search mv frontier seen of
      None \<Rightarrow> \<forall>j. \<forall>e \<in> reached mv r j. \<not> arrived mv e
    | Some path \<Rightarrow> \<exists>m e. firstArrival mv (journeys mv r m) = Some (e, path) \<and> (\<forall>j < m. \<forall>e \<in> reached mv r j. \<not> arrived mv e)"
  using assms
proof (induction mv frontier seen arbitrary: n rule: search.induct)
  case (1 mv frontier seen)
  note past = searchOkD(4) [OF 1(2)]
  show ?case
  proof (cases "frontier = []")
    case True
    have "\<not> arrived mv e" if "e \<in> reached mv r j" for j e
    proof
      assume "arrived mv e"
      with that have ex: "\<exists>j. \<exists>e \<in> reached mv r j. arrived mv e" by blast
      define N where "N = (LEAST j. \<exists>e \<in> reached mv r j. arrived mv e)"
      from LeastI_ex [OF ex] obtain g where g: "g \<in> reached mv r N" "arrived mv g" by (auto simp: N_def)
      have least: "\<And>j e. e \<in> reached mv r j \<Longrightarrow> arrived mv e \<Longrightarrow> N \<le> j" unfolding N_def by (rule Least_le) blast
      from g past have "n < N" by (meson not_le_imp_less)
      let ?Q = "\<lambda>r'. \<exists>e \<in> reached mv r' (N - n). arrived mv e"
      have "\<forall>j < n. \<forall>e \<in> reached mv r j. \<not> ?Q e"
      proof (intro allI impI ballI notI)
        fix j e assume "j < n" "e \<in> reached mv r j" "?Q e"
        then obtain h where "h \<in> reached mv r (j + (N - n))" "arrived mv h" using reached_add by blast
        with least have "N \<le> j + (N - n)" by blast
        with \<open>j < n\<close> \<open>n < N\<close> show False by simp
      qed
      then have "find (?Q \<circ> fst) frontier = find (?Q \<circ> fst) (journeys mv r n)" by (intro searchOkD(1) [OF 1(2)]) blast
      then have "find (?Q \<circ> fst) (journeys mv r n) = None" by (simp add: True)
      then have no: "\<forall>r' \<in> reached mv r n. \<not> ?Q r'" unfolding find_None_iff comp_def reached_def by blast
      from g \<open>n < N\<close> have "g \<in> reached mv r (n + (N - n))" by simp
      with no g(2) show False unfolding reached_add by blast
    qed
    with True show ?thesis by (simp add: search.simps)
  next
    case False
    show ?thesis
    proof (cases "firstArrival mv (stepsOf mv frontier)")
      case None
      with scanLevel_arrives [of mv "stepsOf mv frontier" seen "[]"] obtain seen' deeper where
        scan: "scanLevel mv (stepsOf mv frontier) seen [] = Inr (seen', deeper)" by auto
      from 1(1) [OF False scan refl searchOk_next [OF 1(2,3) scan] 1(3)] show ?thesis
        using False scan by (subst (1) search.simps) simp
    next
      case (Some x)
      with scanLevel_arrives [of mv "stepsOf mv frontier" seen "[]"] have scan: "scanLevel mv (stepsOf mv frontier) seen [] = Inl (snd x)" by simp
      have "firstArrival mv (journeys mv r (Suc n)) = Some x"
        using Some searchOk_steps [OF 1(2) past] by (simp add: firstArrival_def)
      with past False scan show ?thesis
        by (subst search.simps) (auto simp: less_Suc_eq_le simp del: journeys.simps intro!: exI [of _ "Suc n"] exI [of _ "fst x"])
    qed
  qed
qed

subsection \<open>Versions that cannot be mistaken\<close>

text \<open>The text key of a state joins the two versions with a bar; versions without one, and not empty, never share a key.\<close>

definition plainVersion :: "string option \<Rightarrow> bool" where
  "plainVersion v \<longleftrightarrow> (case v of None \<Rightarrow> True | Some t \<Rightarrow> t \<noteq> '''' \<and> CHR ''|'' \<notin> set t)"

definition plainRuns :: "Runs \<Rightarrow> bool" where
  "plainRuns r \<longleftrightarrow> plainVersion (run_fw r) \<and> plainVersion (run_models r)"

definition plainReleases :: "Release list \<Rightarrow> bool" where
  "plainReleases rs \<longleftrightarrow> (\<forall>r \<in> set rs. plainVersion (Some (rel_version r)))"

lemma bar_split: "c \<notin> set a \<Longrightarrow> c \<notin> set a' \<Longrightarrow> a @ c # b = a' @ c # b' \<longleftrightarrow> a = a' \<and> b = b'"
  by (induction a arbitrary: a') (case_tac a'; auto)+

lemma orElse_plain:
  "plainVersion v \<Longrightarrow> CHR ''|'' \<notin> set (orElse v '''')"
  "plainVersion v \<Longrightarrow> plainVersion w \<Longrightarrow> orElse v '''' = orElse w '''' \<longleftrightarrow> v = w"
  by (cases v; cases w; auto simp: plainVersion_def)+

lemma keyOf_plain: "plainRuns r \<Longrightarrow> plainRuns r' \<Longrightarrow> keyOf r = keyOf r' \<longleftrightarrow> r = r'"
  by (auto simp: plainRuns_def keyOf_def bar_split orElse_plain)

lemma reached_plain:
  assumes "plainRuns r" "\<forall>v \<in> versions mv. plainVersion v"
  shows "e \<in> reached mv r n \<Longrightarrow> plainRuns e"
proof (induction n arbitrary: e)
  case 0
  with assms(1) show ?case by (simp add: reached_def)
next
  case (Suc n)
  then obtain r' s where e: "e = installed r' s" "plainRuns r'" "s \<in> set (movesFrom mv r')" by (auto simp: reached_Suc)
  with movesFrom_in [OF e(3)] assms(2) show ?case by (auto simp: installed_def plainRuns_def)
qed

lemma plain_apart: "plainRuns r \<Longrightarrow> \<forall>v \<in> versions mv. plainVersion v \<Longrightarrow> apart mv r"
  unfolding apart_def inj_on_def using reached_plain keyOf_plain by (metis UN_E)

lemma versions_movesOver: "plainReleases rs \<Longrightarrow> \<forall>v \<in> versions (movesOver rs asOf). plainVersion v"
  by (auto simp: versions_def movesOver_def Let_def plainReleases_def)

subsection \<open>What the route is\<close>

lemma searchOk_start: "\<not> arrived mv r \<Longrightarrow> searchOk mv r 0 [(r, [])] {keyOf r}"
  by (simp add: searchOk_def reached_def)

lemma search_start:
  assumes "\<not> arrived mv r" "apart mv r"
  shows "search mv [(r, [])] {keyOf r} = Some path \<longleftrightarrow>
      (\<exists>m e. firstArrival mv (journeys mv r m) = Some (e, path) \<and> (\<forall>j < m. firstArrival mv (journeys mv r j) = None))"
    and "search mv [(r, [])] {keyOf r} = None \<longleftrightarrow> (\<forall>m. firstArrival mv (journeys mv r m) = None)"
proof -
  note exact = search_exact [OF searchOk_start [OF assms(1)] assms(2)]
  show none: "search mv [(r, [])] {keyOf r} = None \<longleftrightarrow> (\<forall>m. firstArrival mv (journeys mv r m) = None)"
  proof (cases "search mv [(r, [])] {keyOf r}")
    case None
    with exact show ?thesis by (simp add: firstArrival_none)
  next
    case (Some p)
    with exact show ?thesis by (auto simp del: journeys.simps)
  qed
  show "search mv [(r, [])] {keyOf r} = Some path \<longleftrightarrow>
      (\<exists>m e. firstArrival mv (journeys mv r m) = Some (e, path) \<and> (\<forall>j < m. firstArrival mv (journeys mv r j) = None))"
  proof (cases "search mv [(r, [])] {keyOf r}")
    case None
    with none show ?thesis by auto
  next
    case (Some p)
    with exact obtain m e where m: "firstArrival mv (journeys mv r m) = Some (e, p)" "\<forall>j < m. firstArrival mv (journeys mv r j) = None"
      by (auto simp: firstArrival_none)
    have "m' = m" if "firstArrival mv (journeys mv r m') = Some x" "\<forall>j < m'. firstArrival mv (journeys mv r j) = None" for m' x
      using m that by (metis linorder_neqE_nat option.distinct(1))
    with Some m show ?thesis by (metis option.inject prod.inject)
  qed
qed

lemma firstArrival_Some:
  assumes "firstArrival mv (journeys mv r m) = Some (e, path)"
  shows "length path = m" "follows mv r path" "e = foldl installed r path" "arrived mv e"
proof -
  from assms have "(e, path) \<in> set (journeys mv r m)" "arrived mv e"
    using find_mem [OF assms [unfolded firstArrival_def]] by simp_all
  then show "length path = m" "follows mv r path" "e = foldl installed r path" "arrived mv e" by (simp_all add: journeys_mem)
qed

lemma firstArrival_None: "firstArrival mv (journeys mv r m) = None \<Longrightarrow> length path = m \<Longrightarrow> follows mv r path \<Longrightarrow> \<not> arrived mv (foldl installed r path)"
  by (auto simp: firstArrival_none reached_alt)

lemma route_cases:
  assumes "plainRuns (runsOf d)" "plainReleases releases"
    and mv_def: "mv = movesOver releases asOf" and start_def: "start = runsOf d"
  shows "(route d releases asOf = Inr None \<longleftrightarrow> arrived mv start)
    \<and> (route d releases asOf = Inl (Conflict ''OTA_IN_PROGRESS'') \<longleftrightarrow> \<not> arrived mv start \<and> dv_fwOnTrial d = Some True)
    \<and> (\<forall>path. route d releases asOf = Inr (Some path) \<longrightarrow>
          follows mv start path \<and> arrived mv (foldl installed start path)
          \<and> (\<forall>other. follows mv start other \<and> arrived mv (foldl installed start other) \<longrightarrow> length path \<le> length other))
    \<and> (route d releases asOf = Inl (Conflict ''RELEASE_UNREACHABLE'') \<longleftrightarrow>
          dv_fwOnTrial d \<noteq> Some True \<and> (\<nexists>path. follows mv start path \<and> arrived mv (foldl installed start path)))"
proof (cases "arrived mv start")
  case True
  then have "follows mv start [] \<and> arrived mv (foldl installed start [])" by simp
  moreover from True have "route d releases asOf = Inr None" by (simp add: route_def mv_def start_def)
  ultimately show ?thesis using True by (metis sum.distinct(1) sum.inject(2) option.distinct(1))
next
  case False
  have apart: "apart mv start" unfolding mv_def start_def by (rule plain_apart [OF assms(1) versions_movesOver [OF assms(2)]])
  note s = search_start [OF False apart]
  have r: "route d releases asOf = (if dv_fwOnTrial d = Some True then Inl (Conflict ''OTA_IN_PROGRESS'')
      else case search mv [(start, [])] {keyOf start} of None \<Rightarrow> Inl (Conflict ''RELEASE_UNREACHABLE'') | Some path \<Rightarrow> Inr (Some path))"
    using False by (simp add: route_def mv_def start_def Let_def)
  show ?thesis
  proof (cases "search mv [(start, [])] {keyOf start}")
    case None
    with s(2) have "\<nexists>path. follows mv start path \<and> arrived mv (foldl installed start path)" using firstArrival_None by blast
    with False None r show ?thesis by simp
  next
    case (Some p)
    with s(1) obtain m e where m: "firstArrival mv (journeys mv start m) = Some (e, p)" "\<forall>j < m. firstArrival mv (journeys mv start j) = None"
      by blast
    note p = firstArrival_Some [OF m(1)]
    have "length p \<le> length other" if "follows mv start other" "arrived mv (foldl installed start other)" for other
    proof (rule ccontr)
      assume "\<not> length p \<le> length other"
      with m(2) p(1) have "firstArrival mv (journeys mv start (length other)) = None" by simp
      from firstArrival_None [OF this refl that(1)] that(2) show False by simp
    qed
    with False Some r p show ?thesis by auto
  qed
qed

text \<open>C7: an update press goes the shortest way there is. For a kiosk and releases whose versions are plain, \<open>route\<close> says
  there is nothing to do exactly when the kiosk runs the newest firmware and models on offer; it refuses a kiosk whose
  firmware is on trial; else it returns an order in which every step can be installed when its turn comes and which ends
  on the newest of both, and no order that does is shorter; and it gives up only when there is no such order. The loop
  always ends.\<close>

theorem route_shortest:
  assumes "plainRuns (runsOf d)" "plainReleases releases"
  shows "let mv = movesOver releases asOf; start = runsOf d in
    (route d releases asOf = Inr None \<longleftrightarrow> arrived mv start)
    \<and> (route d releases asOf = Inl (Conflict ''OTA_IN_PROGRESS'') \<longleftrightarrow> \<not> arrived mv start \<and> dv_fwOnTrial d = Some True)
    \<and> (\<forall>path. route d releases asOf = Inr (Some path) \<longrightarrow>
          follows mv start path \<and> arrived mv (foldl installed start path)
          \<and> (\<forall>other. follows mv start other \<and> arrived mv (foldl installed start other) \<longrightarrow> length path \<le> length other))
    \<and> (route d releases asOf = Inl (Conflict ''RELEASE_UNREACHABLE'') \<longleftrightarrow>
          dv_fwOnTrial d \<noteq> Some True \<and> (\<nexists>path. follows mv start path \<and> arrived mv (foldl installed start path)))"
  unfolding Let_def by (rule route_cases [OF assms refl refl])

subsection \<open>The rest of a route is the route of the rest\<close>

lemma stepsOf_append: "stepsOf mv (xs @ ys) = stepsOf mv xs @ stepsOf mv ys"
  by (simp add: stepsOf_def)

lemma stepsOf_concat: "stepsOf mv (concat xss) = concat (map (stepsOf mv) xss)"
  by (induction xss) (simp_all add: stepsOf_append, simp add: stepsOf_def)

lemma stepsOf_prefix: "stepsOf mv (map (\<lambda>(e, p). (e, s # p)) xs) = map (\<lambda>(e, p). (e, s # p)) (stepsOf mv xs)"
  by (induction xs) (auto simp: stepsOf_def)

lemma journeys_first:
  "journeys mv r (Suc n) = concat (map (\<lambda>s. map (\<lambda>(e, p). (e, s # p)) (journeys mv (installed r s) n)) (movesFrom mv r))"
proof (induction n)
  case 0
  show ?case by (simp add: stepsOf_def)
next
  case (Suc n)
  have "journeys mv r (Suc (Suc n)) = stepsOf mv (journeys mv r (Suc n))" by simp
  also have "\<dots> = concat (map (stepsOf mv) (map (\<lambda>s. map (\<lambda>(e, p). (e, s # p)) (journeys mv (installed r s) n)) (movesFrom mv r)))"
    unfolding Suc by (rule stepsOf_concat)
  also have "\<dots> = concat (map (\<lambda>s. map (\<lambda>(e, p). (e, s # p)) (journeys mv (installed r s) (Suc n))) (movesFrom mv r))"
    by (simp add: comp_def stepsOf_prefix)
  finally show ?case .
qed

lemma find_prefix: "find (arrived mv \<circ> fst) (map (\<lambda>(e, p). (e, s # p)) xs) = map_option (\<lambda>(e, p). (e, s # p)) (find (arrived mv \<circ> fst) xs)"
  by (induction xs) auto

lemma firstArrival_rest:
  assumes "firstArrival mv (journeys mv r (Suc n)) = Some (e, s # path)" "\<forall>j \<le> n. firstArrival mv (journeys mv r j) = None"
  shows "s \<in> set (movesFrom mv r)" "firstArrival mv (journeys mv (installed r s) n) = Some (e, path)"
    "\<forall>j < n. firstArrival mv (journeys mv (installed r s) j) = None"
proof -
  let ?f = "\<lambda>s. map (\<lambda>(e, p). (e, s # p)) (journeys mv (installed r s) n)"
  from firstArrival_Some [OF assms(1)] show s: "s \<in> set (movesFrom mv r)" by simp
  from assms(1) obtain t where t: "find (arrived mv \<circ> fst) (?f t) = Some (e, s # path)"
    unfolding firstArrival_def journeys_first find_concat_map by (auto split: option.splits)
  then show "firstArrival mv (journeys mv (installed r s) n) = Some (e, path)"
    unfolding find_prefix by (auto simp: firstArrival_def)
  show "\<forall>j < n. firstArrival mv (journeys mv (installed r s) j) = None"
  proof (intro allI impI)
    fix j assume "j < n"
    with assms(2) have "firstArrival mv (journeys mv r (Suc j)) = None" by (simp del: journeys.simps)
    then have none: "\<forall>q. length q = Suc j \<longrightarrow> follows mv r q \<longrightarrow> \<not> arrived mv (foldl installed r q)" using firstArrival_None by blast
    have "\<not> arrived mv (foldl installed (installed r s) q)" if "length q = j" "follows mv (installed r s) q" for q
      using none [rule_format, of "s # q"] that s by simp
    then show "firstArrival mv (journeys mv (installed r s) j) = None" by (auto simp: firstArrival_none reached_alt)
  qed
qed

text \<open>An update press is carried on without changing its mind. When a kiosk has installed the first step of its route, the
  route found again from what it runs now is exactly the rest, and there is none once the last step is in.\<close>

lemma route_rest:
  assumes "route d releases asOf = Inr (Some (s # path))" "plainRuns (runsOf d)" "plainReleases releases"
    "runsOf d' = installed (runsOf d) s" "dv_fwOnTrial d' \<noteq> Some True"
  shows "route d' releases asOf = Inr (if path = [] then None else Some path)"
proof -
  let ?mv = "movesOver releases asOf" and ?r = "runsOf d"
  have versions: "\<forall>v \<in> versions ?mv. plainVersion v" by (rule versions_movesOver [OF assms(3)])
  from assms(1) have not: "\<not> arrived ?mv ?r" and found: "search ?mv [(?r, [])] {keyOf ?r} = Some (s # path)"
    by (auto simp: route_def Let_def bindR_eq_Inr split: if_splits option.splits)
  from search_start(1) [OF not plain_apart [OF assms(2) versions]] found obtain m e where
    m: "firstArrival ?mv (journeys ?mv ?r m) = Some (e, s # path)" "\<forall>j < m. firstArrival ?mv (journeys ?mv ?r j) = None" by blast
  from firstArrival_Some(1) [OF m(1)] obtain n where n: "m = Suc n" "length path = n" by (cases m) auto
  from m(2) have "\<forall>j \<le> n. firstArrival ?mv (journeys ?mv ?r j) = None" by (simp add: n less_Suc_eq_le)
  note rest = firstArrival_rest [OF m(1) [unfolded n(1)] this]
  show ?thesis
  proof (cases path)
    case Nil
    with rest(2) n have "arrived ?mv (installed ?r s)" by (auto simp: firstArrival_def split: if_splits)
    with Nil assms(4) show ?thesis by (simp add: route_def)
  next
    case (Cons t q)
    with n(2) have "0 < n" by auto
    from rest(3) [rule_format, OF this] have going: "\<not> arrived ?mv (installed ?r s)" by (simp add: firstArrival_def split: if_splits)
    have "plainRuns (installed ?r s)"
      by (rule reached_plain [OF assms(2) versions, where n = 1]) (use rest(1) in \<open>auto simp: reached_alt intro!: exI [of _ "[s]"]\<close>)
    from search_start(1) [OF going plain_apart [OF this versions]] rest(2,3)
    have "search ?mv [(installed ?r s, [])] {keyOf (installed ?r s)} = Some path" by blast
    with going Cons assms(4,5) show ?thesis by (simp add: route_def Let_def)
  qed
qed

subsection \<open>A concrete register\<close>

definition sampleRelease :: "string \<Rightarrow> Target \<Rightarrow> string \<Rightarrow> string option \<Rightarrow> string option \<Rightarrow> instant \<Rightarrow> Release" where
  "sampleRelease i target version minFw needs now =
     \<lparr>rel_id = i, rel_target = target, rel_version = version, rel_path = Some (i @ ''.bin''), rel_sha256 = '''', rel_sizeBytes = 1,
      rel_minFwVersion = minFw, rel_runId = None, rel_embeddingVersion = (if target = MODELS then Some ''recog-1'' else None),
      rel_requiresModels = needs, rel_notes = None, rel_createdAt = now\<rparr>"

text \<open>The newest firmware needs the newest models, which need a firmware in between.\<close>

definition sampleRegister :: "Release list" where
  "sampleRegister =
     [sampleRelease ''f3'' FIRMWARE ''1.1.0'' None (Some ''img-b'') 40, sampleRelease ''m2'' MODELS ''img-b'' (Some ''1.0.5'') None 30,
      sampleRelease ''f2'' FIRMWARE ''1.0.5'' None None 20, sampleRelease ''m1'' MODELS ''img-a'' (Some ''1.0.0'') None 10]"

definition sampleDevice :: Device where
  "sampleDevice = (blankDevice ''k001'')\<lparr>dv_status := APPROVED_DEVICE, dv_online := True, dv_fwVersion := Some ''1.0.0'', dv_modelVersion := Some ''img-a''\<rparr>"

lemma sample_plain: "plainRuns (runsOf sampleDevice)" "plainReleases sampleRegister"
  by (simp_all add: plainRuns_def runsOf_def sampleDevice_def plainReleases_def sampleRegister_def sampleRelease_def plainVersion_def)

lemma sample_route: "map_sum id (map_option (map rel_version)) (route sampleDevice sampleRegister None) = Inr (Some [''1.0.5'', ''img-b'', ''1.1.0''])"
  by code_simp

theorem route_shortest_witness:
  "\<exists>path. map rel_version path = [''1.0.5'', ''img-b'', ''1.1.0'']
     \<and> follows (movesOver sampleRegister None) (runsOf sampleDevice) path
     \<and> arrived (movesOver sampleRegister None) (foldl installed (runsOf sampleDevice) path)"
proof -
  from sample_route obtain path where path: "route sampleDevice sampleRegister None = Inr (Some path)" "map rel_version path = [''1.0.5'', ''img-b'', ''1.1.0'']"
    by (cases "route sampleDevice sampleRegister None") auto
  with route_shortest [OF sample_plain, of None] have "follows (movesOver sampleRegister None) (runsOf sampleDevice) path
    \<and> arrived (movesOver sampleRegister None) (foldl installed (runsOf sampleDevice) path)" unfolding Let_def by blast
  with path(2) show ?thesis by (intro exI [of _ path]) simp
qed

end
