(* ===== verification/Rollout.thy ===== *)
theory Rollout
  imports Routes
begin

section \<open>Offering releases to kiosks\<close>

text \<open>
  \<open>backend/src/modules/models/models.service.ts\<close>, the part that keeps state: the register of releases, the offers to
  the kiosks and how each went, and an update press that is carried on over several releases. A kiosk has one offer
  slot, its column \<open>otaOfferedAt\<close>; an offer takes it by a write conditioned on what was read. The files are named, their
  content is not kept; SHA-256, HMAC and the broker are arguments, and a request reads the clock once.
\<close>

record OtaReport =
  otr_device :: string
  otr_type :: string
  otr_cmdId :: "string option"
  otr_message :: "string option"
  otr_receivedAt :: instant

record RolloutDb =
  ro_devices :: "Device list"
  ro_releases :: "Release list"
  ro_rollout :: "string \<rightharpoonup> RolloutState"
  ro_reports :: "OtaReport list"

record RolloutEnv =
  roe_busyMs :: int
  roe_linkMs :: int
  roe_maxBytes :: nat
  roe_sha :: "bytes \<Rightarrow> string"
  roe_hmac :: "string \<Rightarrow> string"

datatype RolloutEffect =
    ReleaseNoted string string
  | ReleasesChanged
  | ReleaseFileKept string
  | ReleaseFileGone string
  | ReleaseAnnounced string
  | OfferSent string string instant
  | PressFinished string string string string

definition rolloutKiosk :: "RolloutDb \<Rightarrow> string \<Rightarrow> Device option" where
  "rolloutKiosk db i = firstWhere dv_id i (ro_devices db)"

definition releaseOf :: "RolloutDb \<Rightarrow> string \<Rightarrow> Release option" where
  "releaseOf db i = firstWhere rel_id i (ro_releases db)"

definition releaseNamed :: "RolloutDb \<Rightarrow> Target \<Rightarrow> string \<Rightarrow> Release option" where
  "releaseNamed db target version = find (\<lambda>r. rel_target r = target \<and> rel_version r = version) (ro_releases db)"

text \<open>\<open>orderBy: { createdAt: "desc" }\<close>; of two made in one millisecond the one stored first comes first.\<close>

definition newestFirst :: "Release list \<Rightarrow> Release list" where
  "newestFirst rs = sort_key (\<lambda>r. - rel_createdAt r) rs"

subsection \<open>The register\<close>

definition hexLower :: "char \<Rightarrow> bool" where
  "hexLower c \<longleftrightarrow> c \<in> set ''0123456789abcdef''"

definition versionShaped :: "Target \<Rightarrow> string \<Rightarrow> bool" where
  "versionShaped target v \<longleftrightarrow>
     (case target of
        FIRMWARE \<Rightarrow> semver (Some v) \<noteq> None
      | MODELS \<Rightarrow> take 4 v = ''img-'' \<and> length v = 12 \<and> list_all hexLower (drop 4 v))"

definition publishedAlready :: "RolloutDb \<Rightarrow> Target \<Rightarrow> string \<Rightarrow> bool" where
  "publishedAlready db target version \<longleftrightarrow> releaseNamed db target version \<noteq> None"

record ReleaseDetails =
  rd_target :: Target
  rd_version :: string
  rd_notesVi :: string
  rd_notesEn :: string
  rd_requiresModels :: "string option"

definition describe :: "RolloutDb \<Rightarrow> RolloutDb \<Rightarrow> ReleaseDetails \<Rightarrow> (RolloutDb \<times> RolloutEffect list) result" where
  "describe db0 db details =
     bindR (found (releaseNamed db0 (rd_target details) (rd_version details)) (NotFound ''RELEASE_NOT_FOUND'')) (\<lambda>held.
     bindR (case rd_requiresModels details of
              None \<Rightarrow> Inr ()
            | Some need \<Rightarrow>
                bindR (refuse (rd_target details \<noteq> FIRMWARE) (BadRequest ''RELEASE_REQUIRES_INVALID'')) (\<lambda>_.
                bindR (found (releaseNamed db0 MODELS need) (BadRequest ''RELEASE_REQUIRES_INVALID'')) (\<lambda>needed.
                  refuse (case rel_minFwVersion needed of None \<Rightarrow> False | Some fw \<Rightarrow> fw \<noteq> '''' \<and> atLeast (Some fw) (rd_version details))
                    (Conflict ''RELEASE_LOCKSTEP'')))) (\<lambda>_.
       Inr (db\<lparr>ro_releases := updateMany (\<lambda>r. rel_id r = rel_id held)
                (\<lambda>r. r\<lparr>rel_notes := Some (rd_notesVi details, rd_notesEn details), rel_requiresModels := rd_requiresModels details\<rparr>) (ro_releases db)\<rparr>,
            [ReleaseNoted ''RELEASE_NOTES'' (rel_id held), ReleasesChanged])))"

record PublishFacts =
  pf_target :: Target
  pf_version :: string
  pf_minFwVersion :: "string option"
  pf_runId :: "string option"

definition firmwareRuns :: "RolloutDb \<Rightarrow> string \<Rightarrow> bool" where
  "firmwareRuns db minFw \<longleftrightarrow>
     (\<exists>r \<in> set (ro_releases db). rel_target r = FIRMWARE \<and> rel_path r \<noteq> None \<and> atLeast (Some (rel_version r)) minFw)"

definition KEEP_FILES :: nat where "KEEP_FILES = 5"

definition pruneFiles :: "Target \<Rightarrow> RolloutDb \<Rightarrow> RolloutDb \<times> RolloutEffect list" where
  "pruneFiles target db =
     (let older = drop KEEP_FILES (newestFirst (filter (\<lambda>r. rel_target r = target \<and> rel_path r \<noteq> None) (ro_releases db)))
      in (db\<lparr>ro_releases := updateMany (\<lambda>r. rel_id r \<in> rel_id ` set older) (\<lambda>r. r\<lparr>rel_path := None\<rparr>) (ro_releases db)\<rparr>,
          map (\<lambda>r. ReleaseFileGone (orElse (rel_path r) '''')) older))"

definition missingText :: "string option \<Rightarrow> bool" where
  "missingText t \<longleftrightarrow> t = None \<or> t = Some ''''"

text \<open>What is checked of the head of a stored body, and the recognition model it names.\<close>

definition imageFacts :: "PublishFacts \<Rightarrow> bytes \<Rightarrow> (string option) result" where
  "imageFacts facts head =
     (case pf_target facts of
        FIRMWARE \<Rightarrow> bindR (checkAppImage head (pf_version facts)) (\<lambda>_. Inr None)
      | MODELS \<Rightarrow> (case embeddingOf head of None \<Rightarrow> Inl (BadRequest ''RELEASE_NOT_MODELS_IMAGE'') | Some e \<Rightarrow> Inr (Some e)))"

definition newRelease :: "RolloutEnv \<Rightarrow> instant \<Rightarrow> PublishFacts \<Rightarrow> string \<Rightarrow> bytes \<Rightarrow> nat \<Rightarrow> string option \<Rightarrow> Release" where
  "newRelease env now facts i kept sz embedding =
     \<lparr>rel_id = i, rel_target = pf_target facts, rel_version = pf_version facts, rel_path = Some (i @ ''.bin''), rel_sha256 = roe_sha env kept,
      rel_sizeBytes = int sz, rel_minFwVersion = pf_minFwVersion facts, rel_runId = pf_runId facts, rel_embeddingVersion = embedding,
      rel_requiresModels = None, rel_notes = None, rel_createdAt = now\<rparr>"

definition publish ::
  "RolloutEnv \<Rightarrow> instant \<Rightarrow> RolloutDb \<Rightarrow> RolloutDb \<Rightarrow> PublishFacts \<Rightarrow> bytes list \<Rightarrow> string \<Rightarrow> (RolloutDb \<times> RolloutEffect list \<times> bool) result" where
  "publish env now db0 db facts body i =
     bindR (refuse (\<not> versionShaped (pf_target facts) (pf_version facts)) (BadRequest ''RELEASE_VERSION_INVALID'')) (\<lambda>_.
     bindR (refuse (pf_target facts = MODELS \<and> missingText (pf_minFwVersion facts)) (BadRequest ''RELEASE_MIN_FW_REQUIRED'')) (\<lambda>_.
     bindR (refuse (pf_target facts = MODELS \<and> \<not> firmwareRuns db0 (orElse (pf_minFwVersion facts) '''')) (Conflict ''RELEASE_FIRMWARE_MISSING'')) (\<lambda>_.
       if publishedAlready db0 (pf_target facts) (pf_version facts) then Inr (db, [], True)
       else
         bindR (store (roe_maxBytes env) body) (\<lambda>(kept, sz, head).
         bindR (imageFacts facts head) (\<lambda>embedding.
           if publishedAlready db (pf_target facts) (pf_version facts) then Inr (db, [ReleaseFileGone (i @ ''.bin'')], True)
           else (let row = newRelease env now facts i kept sz embedding;
                     (db1, gone) = pruneFiles (pf_target facts) (db\<lparr>ro_releases := ro_releases db @ [row]\<rparr>)
                 in Inr (db1, [ReleaseFileKept (i @ ''.bin''), ReleaseNoted ''RELEASE_PUBLISH'' i] @ gone @ [ReleasesChanged, ReleaseAnnounced i], False)))))))"

subsection \<open>The link to a file\<close>

definition signatureText :: "RolloutEnv \<Rightarrow> string \<Rightarrow> string \<Rightarrow> nat \<Rightarrow> string" where
  "signatureText env releaseId deviceId expiresS = roe_hmac env (releaseId @ ''.'' @ deviceId @ ''.'' @ showNat expiresS)"

definition hexSig :: "string \<Rightarrow> bool" where
  "hexSig t \<longleftrightarrow> length t = 64 \<and> list_all hexLower t"

definition imageFile :: "RolloutEnv \<Rightarrow> instant \<Rightarrow> RolloutDb \<Rightarrow> string \<Rightarrow> string \<Rightarrow> nat \<Rightarrow> string \<Rightarrow> (string \<times> int) result" where
  "imageFile env now db releaseId deviceId expiresS sig =
     bindR (refuse (\<not> hexSig sig \<or> sig \<noteq> signatureText env releaseId deviceId expiresS \<or> int expiresS * 1000 < now)
              (Forbidden ''RELEASE_LINK_REJECTED'')) (\<lambda>_.
     bindR (refuse (map_option dv_status (rolloutKiosk db deviceId) \<noteq> Some APPROVED_DEVICE) (Forbidden ''RELEASE_LINK_REJECTED'')) (\<lambda>_.
       case releaseOf db releaseId of
         None \<Rightarrow> Inl (Gone ''RELEASE_GONE'')
       | Some r \<Rightarrow> (case rel_path r of None \<Rightarrow> Inl (Gone ''RELEASE_GONE'') | Some p \<Rightarrow> Inr (p, rel_sizeBytes r))))"

subsection \<open>How an offer went\<close>

definition OTA_FAILED :: string where "OTA_FAILED = ''OTA_FAILED''"
definition OTA_ROLLED_BACK :: string where "OTA_ROLLED_BACK = ''OTA_ROLLED_BACK''"
definition OTA_REPORTS :: "string list" where "OTA_REPORTS = [OTA_ROLLED_BACK, OTA_FAILED]"

definition reportOn :: "OtaReport list \<Rightarrow> string \<Rightarrow> string \<Rightarrow> instant \<Rightarrow> OtaReport option" where
  "reportOn reports kind releaseId offeredAt =
     (let heard = sort_key (\<lambda>o'. - otr_receivedAt o')
            (filter (\<lambda>o'. otr_type o' = kind \<and> otr_receivedAt o' \<ge> offeredAt \<and> (otr_cmdId o' = None \<or> otr_cmdId o' = Some releaseId)) reports)
      in case find (\<lambda>o'. otr_cmdId o' = Some releaseId) heard of
           Some o' \<Rightarrow> Some o' | None \<Rightarrow> (case heard of [] \<Rightarrow> None | o' # _ \<Rightarrow> Some o'))"

datatype OfferState = WAITING | INSTALLED | TRIAL | ROLLED_BACK | FAILED_OFFER | INTERRUPTED | EXPIRED_OFFER

record OfferStatus =
  ofs_state :: OfferState
  ofs_reason :: "string option"
  ofs_busyUntil :: "instant option"

definition offerState :: "RolloutEnv \<Rightarrow> instant \<Rightarrow> Device \<Rightarrow> instant \<Rightarrow> Release \<Rightarrow> OtaReport list \<Rightarrow> OfferStatus" where
  "offerState env now d offeredAt rel reports =
     (if runsRelease d rel
      then \<lparr>ofs_state = (if rel_target rel = FIRMWARE \<and> dv_fwOnTrial d = Some True then TRIAL else INSTALLED), ofs_reason = None, ofs_busyUntil = None\<rparr>
      else case reportOn reports OTA_ROLLED_BACK (rel_id rel) offeredAt of
        Some o' \<Rightarrow> \<lparr>ofs_state = ROLLED_BACK, ofs_reason = otr_message o', ofs_busyUntil = None\<rparr>
      | None \<Rightarrow>
          (case reportOn reports OTA_FAILED (rel_id rel) offeredAt of
             Some o' \<Rightarrow> \<lparr>ofs_state = FAILED_OFFER, ofs_reason = otr_message o', ofs_busyUntil = None\<rparr>
           | None \<Rightarrow>
               if (case dv_bootedAt d of None \<Rightarrow> False | Some b \<Rightarrow> b > offeredAt)
               then \<lparr>ofs_state = INTERRUPTED, ofs_reason = None, ofs_busyUntil = None\<rparr>
               else if now - offeredAt > roe_linkMs env
               then \<lparr>ofs_state = EXPIRED_OFFER, ofs_reason = None, ofs_busyUntil = None\<rparr>
               else \<lparr>ofs_state = WAITING, ofs_reason = None,
                     ofs_busyUntil = (if offeredAt + roe_busyMs env > now then Some (offeredAt + roe_busyMs env) else None)\<rparr>))"

definition statusOf :: "RolloutEnv \<Rightarrow> instant \<Rightarrow> RolloutDb \<Rightarrow> string \<Rightarrow> (OfferStatus option) result" where
  "statusOf env now db i =
     bindR (found (rolloutKiosk db i) (NotFound ''DEVICE_NOT_FOUND'')) (\<lambda>d.
       case (dv_otaReleaseId d, dv_otaOfferedAt d) of
         (Some releaseId, Some offeredAt) \<Rightarrow>
           (case releaseOf db releaseId of
              None \<Rightarrow> Inr None
            | Some rel \<Rightarrow>
                Inr (Some (offerState env now d offeredAt rel
                  (if runsRelease d rel then []
                   else filter (\<lambda>o'. otr_device o' = i \<and> otr_type o' \<in> set OTA_REPORTS \<and> otr_receivedAt o' \<ge> offeredAt
                          \<and> (otr_cmdId o' = None \<or> otr_cmdId o' = Some (rel_id rel))) (ro_reports db)))))
       | _ \<Rightarrow> Inr None)"

definition busyUntil :: "OfferStatus option \<Rightarrow> instant option" where
  "busyUntil s = (case s of None \<Rightarrow> None | Some x \<Rightarrow> ofs_busyUntil x)"

text \<open>The kiosks inside the busy window of an offer, or between two steps of one press.\<close>

definition installingNow :: "RolloutEnv \<Rightarrow> instant \<Rightarrow> RolloutDb \<Rightarrow> Device \<Rightarrow> bool" where
  "installingNow env now db d \<longleftrightarrow>
     dv_status d = APPROVED_DEVICE
     \<and> (case dv_otaReleaseId d of
          None \<Rightarrow> False
        | Some releaseId \<Rightarrow>
            ((case dv_otaOfferedAt d of None \<Rightarrow> False | Some t \<Rightarrow> t > now - roe_busyMs env) \<or> dv_otaNextReleaseId d \<noteq> None)
            \<and> (case releaseOf db releaseId of
                 None \<Rightarrow> False
               | Some rel \<Rightarrow>
                   let offer = offerState env now d (orElse (dv_otaOfferedAt d) 0) rel
                         (filter (\<lambda>o'. otr_device o' = dv_id d \<and> otr_type o' \<in> set OTA_REPORTS \<and> otr_receivedAt o' > now - roe_busyMs env) (ro_reports db))
                   in ofs_busyUntil offer \<noteq> None \<or> dv_otaNextReleaseId d \<noteq> None \<and> ofs_state offer \<in> {TRIAL, INSTALLED}))"

definition installing :: "RolloutEnv \<Rightarrow> instant \<Rightarrow> RolloutDb \<Rightarrow> string list" where
  "installing env now db = map dv_id (filter (installingNow env now db) (ro_devices db))"

subsection \<open>The offer slot\<close>

text \<open>\<open>send\<close>'s first write: conditioned on the offer read with the kiosk.\<close>

definition takeSlot :: "instant \<Rightarrow> Release \<Rightarrow> Device \<Rightarrow> string option \<Rightarrow> Release option \<Rightarrow> instant option \<Rightarrow> RolloutDb \<Rightarrow> nat \<times> RolloutDb" where
  "takeSlot now rel d actor next' pressedAt db =
     (let (taken, rows) = claimWhere
            (\<lambda>x. dv_id x = dv_id d \<and> dv_status x = APPROVED_DEVICE \<and> dv_online x \<and> dv_otaOfferedAt x = dv_otaOfferedAt d)
            (\<lambda>x. x\<lparr>dv_otaReleaseId := Some (rel_id rel), dv_otaOfferedAt := Some now, dv_otaNextReleaseId := map_option rel_id next',
                   dv_otaPressedAt := pressedAt, dv_otaPressedById := (if pressedAt = None then None else actor)\<rparr>) (ro_devices db)
      in (taken, db\<lparr>ro_devices := rows\<rparr>))"

text \<open>What takes it back when the broker was not reached.\<close>

definition undoSlot :: "instant \<Rightarrow> Device \<Rightarrow> RolloutDb \<Rightarrow> RolloutDb" where
  "undoSlot now d db =
     db\<lparr>ro_devices := updateMany (\<lambda>x. dv_id x = dv_id d \<and> dv_otaOfferedAt x = Some now)
          (\<lambda>x. x\<lparr>dv_otaReleaseId := dv_otaReleaseId d, dv_otaOfferedAt := dv_otaOfferedAt d, dv_otaNextReleaseId := dv_otaNextReleaseId d,
                 dv_otaPressedAt := dv_otaPressedAt d, dv_otaPressedById := dv_otaPressedById d\<rparr>) (ro_devices db)\<rparr>"

text \<open>\<open>sent\<close> says whether the broker took the message.\<close>

definition sendOffer ::
  "instant \<Rightarrow> Release \<Rightarrow> Device \<Rightarrow> string option \<Rightarrow> Release option \<Rightarrow> instant option \<Rightarrow> bool \<Rightarrow> RolloutDb
     \<Rightarrow> RolloutDb \<times> RolloutEffect list \<times> (instant option) result" where
  "sendOffer now rel d actor next' pressedAt sent db =
     (let (taken, db1) = takeSlot now rel d actor next' pressedAt db in
      if taken = 0 then (db, [], Inr None)
      else if \<not> sent then (undoSlot now d db1, [], Inl (Unhandled ''MQTT''))
      else (db1\<lparr>ro_rollout := (ro_rollout db1)(rel_id rel \<mapsto> ROLLING)\<rparr>,
            [OfferSent (dv_id d) (rel_id rel) now, ReleaseNoted ''RELEASE_OFFER'' (dv_id d)], Inr (Some now)))"

definition isOnline :: "RolloutDb \<Rightarrow> string \<Rightarrow> bool" where
  "isOnline db i = (case rolloutKiosk db i of None \<Rightarrow> False | Some d \<Rightarrow> dv_online d)"

definition offerable :: "RolloutDb \<Rightarrow> string \<Rightarrow> Release result" where
  "offerable db i =
     bindR (found (releaseOf db i) (NotFound ''RELEASE_NOT_FOUND'')) (\<lambda>rel.
     bindR (refuse (rel_path rel = None) (Gone ''RELEASE_GONE'')) (\<lambda>_. Inr rel))"

text \<open>What follows a send that one person waits for.\<close>

definition answeredSend :: "string \<Rightarrow> RolloutDb \<times> RolloutEffect list \<times> (instant option) result \<Rightarrow> RolloutDb \<times> RolloutEffect list \<times> instant result" where
  "answeredSend i = (\<lambda>(db, eff, r). (db, eff,
     bindR r (\<lambda>offeredAt. case offeredAt of
       Some t \<Rightarrow> Inr t
     | None \<Rightarrow> Inl (Conflict (if isOnline db i then ''OTA_IN_PROGRESS'' else ''DEVICE_OFFLINE'')))))"

definition offerOne ::
  "RolloutEnv \<Rightarrow> instant \<Rightarrow> RolloutDb \<Rightarrow> RolloutDb \<Rightarrow> string \<Rightarrow> string \<Rightarrow> string \<Rightarrow> bool \<Rightarrow> bool \<Rightarrow> RolloutDb \<times> RolloutEffect list \<times> instant result" where
  "offerOne env now db0 db releaseId i actor recapture sent =
     (case bindR (offerable db0 releaseId) (\<lambda>rel.
           bindR (found (rolloutKiosk db0 i) (NotFound ''DEVICE_NOT_FOUND'')) (\<lambda>d.
           bindR (refuse (dv_status d \<noteq> APPROVED_DEVICE) (Conflict ''DEVICE_NOT_APPROVED'')) (\<lambda>_.
           bindR (refuse (runsRelease d rel) (Conflict ''RELEASE_ALREADY_RUNNING'')) (\<lambda>_.
           bindR (refuse (\<not> recapture \<and> changesRecognition d rel) (Conflict ''RELEASE_CHANGES_RECOGNITION'')) (\<lambda>_.
           bindR (statusOf env now db0 i) (\<lambda>st.
           bindR (refuse (busyUntil st \<noteq> None) (Conflict ''OTA_IN_PROGRESS'')) (\<lambda>_.
           bindR (refuse (\<not> dv_online d) (Conflict ''DEVICE_OFFLINE'')) (\<lambda>_. Inr (rel, d))))))))) of
        Inl e \<Rightarrow> (db, [], Inl e)
      | Inr (rel, d) \<Rightarrow> answeredSend i (sendOffer now rel d (Some actor) None (Some now) sent db))"

definition publishedReleases :: "RolloutDb \<Rightarrow> Release list" where
  "publishedReleases db = newestFirst (ro_releases db)"

definition update ::
  "RolloutEnv \<Rightarrow> instant \<Rightarrow> RolloutDb \<Rightarrow> RolloutDb \<Rightarrow> string \<Rightarrow> string \<Rightarrow> bool \<Rightarrow> bool \<Rightarrow> RolloutDb \<times> RolloutEffect list \<times> instant result" where
  "update env now db0 db i actor recapture sent =
     (case bindR (found (rolloutKiosk db0 i) (NotFound ''DEVICE_NOT_FOUND'')) (\<lambda>d.
           bindR (refuse (dv_status d \<noteq> APPROVED_DEVICE) (Conflict ''DEVICE_NOT_APPROVED'')) (\<lambda>_.
           bindR (route d (publishedReleases db0) None) (\<lambda>way.
           bindR (found way (Conflict ''RELEASE_ALREADY_RUNNING'')) (\<lambda>path.
           bindR (refuse (\<not> recapture \<and> list_ex (changesRecognition d) path) (Conflict ''RELEASE_CHANGES_RECOGNITION'')) (\<lambda>_.
           bindR (statusOf env now db0 i) (\<lambda>st.
           bindR (refuse (busyUntil st \<noteq> None) (Conflict ''OTA_IN_PROGRESS'')) (\<lambda>_.
           bindR (refuse (\<not> dv_online d) (Conflict ''DEVICE_OFFLINE'')) (\<lambda>_. Inr (path, d))))))))) of
        Inl e \<Rightarrow> (db, [], Inl e)
      | Inr (path, d) \<Rightarrow>
          answeredSend i (sendOffer now (hd path) d (Some actor) (case tl path of [] \<Rightarrow> None | n # _ \<Rightarrow> Some n) (Some now) sent db))"

subsection \<open>Offers to the whole fleet\<close>

record Batch =
  bt_offered :: "string list"
  bt_failed :: "string list"
  bt_busy :: "string list"
  bt_offline :: "string list"

text \<open>The loop of \<open>offerAll\<close> and \<open>updateAll\<close> over the planned kiosks, each with its step and the one after; \<open>clock\<close> gives the
  instant of each send and \<open>sent\<close> whether the broker took it.\<close>

fun offerLoop ::
  "(string \<Rightarrow> instant) \<Rightarrow> (string \<Rightarrow> bool) \<Rightarrow> string \<Rightarrow> instant \<Rightarrow> string list \<Rightarrow> (Device \<times> Release \<times> Release option) list
     \<Rightarrow> RolloutDb \<Rightarrow> RolloutEffect list \<Rightarrow> Batch \<Rightarrow> RolloutDb \<times> RolloutEffect list \<times> Batch" where
  "offerLoop clock sent actor pressedAt busy [] db eff out = (db, eff, out)"
| "offerLoop clock sent actor pressedAt busy ((d, rel, next') # rest) db eff out =
     (let i = dv_id d in
      if i \<in> set busy then offerLoop clock sent actor pressedAt busy rest db eff (out\<lparr>bt_busy := bt_busy out @ [i]\<rparr>)
      else if \<not> dv_online d then offerLoop clock sent actor pressedAt busy rest db eff (out\<lparr>bt_offline := bt_offline out @ [i]\<rparr>)
      else (let (db1, eff1, r) = sendOffer (clock i) rel d (Some actor) next' (Some pressedAt) (sent i) db in
            offerLoop clock sent actor pressedAt busy rest db1 (eff @ eff1)
              (case r of
                 Inl _ \<Rightarrow> out\<lparr>bt_failed := bt_failed out @ [i]\<rparr>
               | Inr (Some _) \<Rightarrow> out\<lparr>bt_offered := bt_offered out @ [i]\<rparr>
               | Inr None \<Rightarrow> if isOnline db1 i then out\<lparr>bt_busy := bt_busy out @ [i]\<rparr> else out\<lparr>bt_offline := bt_offline out @ [i]\<rparr>)))"

text \<open>The kiosks in the order of the table; the source reads them by id.\<close>

definition fleetOf :: "RolloutDb \<Rightarrow> Device list" where
  "fleetOf db = filter (\<lambda>d. dv_status d = APPROVED_DEVICE) (ro_devices db)"

definition emptyBatch :: Batch where
  "emptyBatch = \<lparr>bt_offered = [], bt_failed = [], bt_busy = [], bt_offline = []\<rparr>"

definition offerAll ::
  "RolloutEnv \<Rightarrow> instant \<Rightarrow> (string \<Rightarrow> instant) \<Rightarrow> (string \<Rightarrow> bool) \<Rightarrow> RolloutDb \<Rightarrow> RolloutDb \<Rightarrow> string \<Rightarrow> string \<Rightarrow> bool
     \<Rightarrow> (RolloutDb \<times> RolloutEffect list \<times> Batch) result" where
  "offerAll env now clock sent db0 db releaseId actor recapture =
     bindR (offerable db0 releaseId) (\<lambda>rel.
       let older = filter (\<lambda>d. behindRelease (runsOf d) rel) (fleetOf db0); busy = installing env now db0
       in bindR (refuse (\<not> recapture \<and> list_ex (\<lambda>d. dv_id d \<notin> set busy \<and> dv_online d \<and> changesRecognition d rel) older)
                   (Conflict ''RELEASE_CHANGES_RECOGNITION'')) (\<lambda>_.
            Inr (offerLoop clock sent actor now busy (map (\<lambda>d. (d, rel, None)) older) db [] emptyBatch)))"

text \<open>The kiosks with a way to go, and those without: on trial they are busy, with no way failed.\<close>

fun planAll :: "Release list \<Rightarrow> Device list \<Rightarrow> (Device \<times> Release list) list \<times> Batch" where
  "planAll releases [] = ([], emptyBatch)"
| "planAll releases (d # ds) =
     (let (planned, out) = planAll releases ds in
      case route d releases None of
        Inr (Some path) \<Rightarrow> ((d, path) # planned, out)
      | Inr None \<Rightarrow> (planned, out)
      | Inl e \<Rightarrow> (planned, if e = Conflict ''OTA_IN_PROGRESS'' then out\<lparr>bt_busy := dv_id d # bt_busy out\<rparr>
                          else out\<lparr>bt_failed := dv_id d # bt_failed out\<rparr>))"

definition updateAll ::
  "RolloutEnv \<Rightarrow> instant \<Rightarrow> (string \<Rightarrow> instant) \<Rightarrow> (string \<Rightarrow> bool) \<Rightarrow> RolloutDb \<Rightarrow> RolloutDb \<Rightarrow> string \<Rightarrow> bool
     \<Rightarrow> (RolloutDb \<times> RolloutEffect list \<times> Batch) result" where
  "updateAll env now clock sent db0 db actor recapture =
     (let (planned, out) = planAll (publishedReleases db0) (fleetOf db0); busy = installing env now db0
      in bindR (refuse (\<not> recapture \<and> list_ex (\<lambda>(d, path). dv_id d \<notin> set busy \<and> dv_online d \<and> list_ex (changesRecognition d) path) planned)
                  (Conflict ''RELEASE_CHANGES_RECOGNITION'')) (\<lambda>_.
           Inr (offerLoop clock sent actor now busy
                  (map (\<lambda>(d, path). (d, hd path, case tl path of [] \<Rightarrow> None | n # _ \<Rightarrow> Some n)) planned) db [] out)))"

subsection \<open>A press carried on\<close>

definition clearPress :: "string \<Rightarrow> instant \<Rightarrow> RolloutDb \<Rightarrow> nat \<times> RolloutDb" where
  "clearPress i pressedAt db =
     (let (cleared, rows) = claimWhere (\<lambda>x. dv_id x = i \<and> dv_otaPressedAt x = Some pressedAt)
            (\<lambda>x. x\<lparr>dv_otaNextReleaseId := None, dv_otaPressedAt := None, dv_otaPressedById := None\<rparr>) (ro_devices db)
      in (cleared, db\<lparr>ro_devices := rows\<rparr>))"

text \<open>After the press is cleared: the rest of the route is found again and its first step sent, or the press is done.\<close>

definition carryOn :: "instant \<Rightarrow> Device \<Rightarrow> instant \<Rightarrow> bool \<Rightarrow> RolloutDb \<Rightarrow> RolloutDb \<times> RolloutEffect list \<times> unit result" where
  "carryOn now d pressedAt sent db =
     (case route d (publishedReleases db) (Some pressedAt) of
        Inl e \<Rightarrow> (db, [], Inl e)
      | Inr None \<Rightarrow>
          (db, (case dv_otaPressedById d of None \<Rightarrow> [] | Some actor \<Rightarrow> [PressFinished (dv_id d) actor (orElse (dv_fwVersion d) '''') (orElse (dv_modelVersion d) '''')]), Inr ())
      | Inr (Some path) \<Rightarrow>
          if Some (rel_id (hd path)) \<noteq> dv_otaNextReleaseId d \<and> changesRecognition d (hd path) then (db, [], Inr ())
          else (let (db1, eff, r) = sendOffer now (hd path) (d\<lparr>dv_otaNextReleaseId := None, dv_otaPressedAt := None, dv_otaPressedById := None\<rparr>)
                       (dv_otaPressedById d) (case tl path of [] \<Rightarrow> None | n # _ \<Rightarrow> Some n) (Some pressedAt) sent db
                in (db1, eff, bindR r (\<lambda>_. Inr ()))))"

definition followUp :: "RolloutEnv \<Rightarrow> instant \<Rightarrow> RolloutDb \<Rightarrow> RolloutDb \<Rightarrow> string \<Rightarrow> bool \<Rightarrow> RolloutDb \<times> RolloutEffect list \<times> unit result" where
  "followUp env now db0 db i sent =
     (case rolloutKiosk db0 i of
        None \<Rightarrow> (db, [], Inr ())
      | Some d \<Rightarrow>
          (case dv_otaPressedAt d of
             None \<Rightarrow> (db, [], Inr ())
           | Some pressedAt \<Rightarrow>
               (case statusOf env now db0 i of
                  Inl e \<Rightarrow> (db, [], Inl e)
                | Inr st \<Rightarrow>
                    let state = map_option ofs_state st in
                    if state = Some WAITING \<or> state = Some TRIAL then (db, [], Inr ())
                    else (let (cleared, db1) = clearPress i pressedAt db in
                          if cleared = 0 \<or> state \<noteq> Some INSTALLED then (db1, [], Inr ())
                          else carryOn now d pressedAt sent db1))))"

end
