(* ===== verification/RolloutLaws.thy ===== *)
theory RolloutLaws
  imports Rollout
begin

section \<open>What the register and the offers keep\<close>

text \<open>
  The register of releases as a type: what every row of it is, over every interleaving of the publisher's requests.
  The offer slot as a register that is compared and swapped. A press of update, carried on to its end.
\<close>

subsection \<open>The register is well formed\<close>

definition releaseOk :: "Release \<Rightarrow> bool" where
  "releaseOk r \<longleftrightarrow>
     versionShaped (rel_target r) (rel_version r)
     \<and> (if rel_target r = MODELS then \<not> missingText (rel_minFwVersion r) \<and> rel_embeddingVersion r \<noteq> None \<and> rel_requiresModels r = None
        else rel_embeddingVersion r = None)"

definition naming :: "Release \<Rightarrow> Target \<times> string" where
  "naming r = (rel_target r, rel_version r)"

definition kept :: "Target \<Rightarrow> Release list \<Rightarrow> Release list" where
  "kept target rs = filter (\<lambda>r. rel_target r = target \<and> rel_path r \<noteq> None) rs"

text \<open>Neither of a firmware and the models it needs waits for the other.\<close>

definition unlocked :: "Release list \<Rightarrow> bool" where
  "unlocked rs \<longleftrightarrow>
     (\<forall>f \<in> set rs. \<forall>m \<in> set rs. rel_requiresModels f = Some (rel_version m) \<and> rel_target m = MODELS
        \<longrightarrow> \<not> atLeast (rel_minFwVersion m) (rel_version f))"

definition needsMet :: "Release list \<Rightarrow> bool" where
  "needsMet rs \<longleftrightarrow>
     (\<forall>f \<in> set rs. \<forall>need. rel_requiresModels f = Some need \<longrightarrow> (\<exists>m \<in> set rs. rel_target m = MODELS \<and> rel_version m = need))"

definition registerTyped :: "Release list \<Rightarrow> bool" where
  "registerTyped rs \<longleftrightarrow>
     (\<forall>r \<in> set rs. releaseOk r) \<and> distinct (map naming rs) \<and> distinct (map rel_id rs)
     \<and> (\<forall>target. length (kept target rs) \<le> KEEP_FILES) \<and> needsMet rs \<and> unlocked rs"

text \<open>What no request changes of a row.\<close>

definition lasting :: "Release \<Rightarrow> string \<times> Target \<times> string \<times> string option" where
  "lasting r = (rel_id r, rel_target r, rel_version r, rel_minFwVersion r)"

inductive registerReach :: "RolloutDb \<Rightarrow> RolloutDb \<Rightarrow> bool" where
  start: "registerReach a a"
| published: "registerReach a b \<Longrightarrow> registerReach b c \<Longrightarrow> publish env now b c facts body i = Inr (d, eff, old)
    \<Longrightarrow> i \<notin> rel_id ` set (ro_releases c) \<Longrightarrow> registerReach a d"
| described: "registerReach a b \<Longrightarrow> registerReach b c \<Longrightarrow> describe b c details = Inr (d, eff) \<Longrightarrow> registerReach a d"
| elsewhere: "registerReach a c \<Longrightarrow> ro_releases d = ro_releases c \<Longrightarrow> registerReach a d"

definition olderFiles :: "Target \<Rightarrow> Release list \<Rightarrow> Release list" where
  "olderFiles target rs = drop KEEP_FILES (newestFirst (kept target rs))"

definition pruned :: "Target \<Rightarrow> Release list \<Rightarrow> Release list" where
  "pruned target rs = updateMany (\<lambda>r. rel_id r \<in> rel_id ` set (olderFiles target rs)) (\<lambda>r. r\<lparr>rel_path := None\<rparr>) rs"

lemma pruneFiles_fst: "fst (pruneFiles target db) = db\<lparr>ro_releases := pruned target (ro_releases db)\<rparr>"
  by (simp only: pruneFiles_def kept_def pruned_def olderFiles_def Let_def fst_conv)

lemma pathless_fields [simp]:
  "lasting (r\<lparr>rel_path := p\<rparr>) = lasting r" "naming (r\<lparr>rel_path := p\<rparr>) = naming r" "releaseOk (r\<lparr>rel_path := p\<rparr>) = releaseOk r"
  by (simp_all add: lasting_def naming_def releaseOk_def)

lemma kept_pruned:
  fixes target :: Target
  assumes "distinct (map rel_id rs)"
  defines "older \<equiv> olderFiles target rs" and "rows \<equiv> pruned target rs"
  shows "length (kept target rows) \<le> KEEP_FILES" "t \<noteq> target \<Longrightarrow> length (kept t rows) = length (kept t rs)"
proof -
  have sorted: "set (newestFirst (kept target rs)) = set (kept target rs)" by (simp add: newestFirst_def)
  have keep: "kept t rows = filter (\<lambda>r. rel_id r \<notin> rel_id ` set older) (kept t rs)" for t
    unfolding rows_def kept_def pruned_def older_def [symmetric] by (induction rs) auto
  have ids: "distinct (map rel_id (kept target rs))" using assms(1) by (simp add: kept_def distinct_map_filter)
  have "rel_id ` set (kept target rows) \<subseteq> rel_id ` set (take KEEP_FILES (newestFirst (kept target rs)))"
  proof
    fix k assume "k \<in> rel_id ` set (kept target rows)"
    then obtain r where r: "r \<in> set (kept target rs)" "rel_id r \<notin> rel_id ` set older" "k = rel_id r" unfolding keep by auto
    then have "r \<in> set (take KEEP_FILES (newestFirst (kept target rs)) @ older)" using sorted by (simp only: older_def olderFiles_def append_take_drop_id)
    with r(2,3) show "k \<in> rel_id ` set (take KEEP_FILES (newestFirst (kept target rs)))" by auto
  qed
  then have "card (rel_id ` set (kept target rows)) \<le> card (set (map rel_id (take KEEP_FILES (newestFirst (kept target rs)))))"
    by (intro card_mono) auto
  also have "\<dots> \<le> length (map rel_id (take KEEP_FILES (newestFirst (kept target rs))))" by (rule card_length)
  also have "\<dots> \<le> KEEP_FILES" by simp
  finally have "card (rel_id ` set (kept target rows)) \<le> KEEP_FILES" .
  moreover have "distinct (map rel_id (kept target rows))" unfolding keep by (rule distinct_map_filter [OF ids])
  then have "length (kept target rows) = card (rel_id ` set (kept target rows))" by (metis distinct_card length_map set_map)
  ultimately show "length (kept target rows) \<le> KEEP_FILES" by simp
  assume t: "t \<noteq> target"
  have "rel_id r \<notin> rel_id ` set older" if "r \<in> set (kept t rs)" for r
  proof
    assume "rel_id r \<in> rel_id ` set older"
    then obtain s where "s \<in> set older" "rel_id s = rel_id r" by auto
    moreover from this(1) have "s \<in> set (kept target rs)" using sorted unfolding older_def olderFiles_def by (metis in_set_dropD)
    ultimately show False using that t assms(1) by (auto simp: kept_def dest: inj_onD [OF distinct_map [THEN iffD1, THEN conjunct2]])
  qed
  then show "length (kept t rows) = length (kept t rs)" unfolding keep by (simp add: filter_id_conv)
qed

lemma lasting_mem:
  assumes "map (\<lambda>r. (lasting r, rel_requiresModels r)) rs = map (\<lambda>r. (lasting r, rel_requiresModels r)) rs'" "x \<in> set rs"
  shows "\<exists>y \<in> set rs'. rel_target y = rel_target x \<and> rel_version y = rel_version x \<and> rel_minFwVersion y = rel_minFwVersion x
    \<and> rel_requiresModels y = rel_requiresModels x"
proof -
  have "(lasting x, rel_requiresModels x) \<in> set (map (\<lambda>r. (lasting r, rel_requiresModels r)) rs)" using assms(2) by simp
  then have "(lasting x, rel_requiresModels x) \<in> set (map (\<lambda>r. (lasting r, rel_requiresModels r)) rs')" unfolding assms(1) .
  then show ?thesis by (auto simp: lasting_def)
qed

lemma lasting_needs:
  assumes "map (\<lambda>r. (lasting r, rel_requiresModels r)) rs = map (\<lambda>r. (lasting r, rel_requiresModels r)) rs'"
  shows "needsMet rs \<Longrightarrow> needsMet rs'" "unlocked rs \<Longrightarrow> unlocked rs'"
proof -
  note to = lasting_mem [OF assms] and back' = lasting_mem [OF assms [symmetric]]
  show "needsMet rs'" if "needsMet rs" unfolding needsMet_def
  proof (intro ballI allI impI)
    fix f need assume "f \<in> set rs'" "rel_requiresModels f = Some need"
    with back' [of f] that obtain m where "m \<in> set rs" "rel_target m = MODELS" "rel_version m = need" unfolding needsMet_def by metis
    with to [of m] show "\<exists>m \<in> set rs'. rel_target m = MODELS \<and> rel_version m = need" by metis
  qed
  show "unlocked rs'" if "unlocked rs" unfolding unlocked_def
  proof (intro ballI impI)
    fix f m assume a: "f \<in> set rs'" "m \<in> set rs'" "rel_requiresModels f = Some (rel_version m) \<and> rel_target m = MODELS"
    from back' [OF a(1)] back' [OF a(2)] a(3) that show "\<not> atLeast (rel_minFwVersion m) (rel_version f)" unfolding unlocked_def by metis
  qed
qed

lemma publish_cases:
  assumes "publish env now b c facts body i = Inr (d, eff, old)"
  obtains (same) "d = c"
  | (added) row where "rel_id row = i" "releaseOk row" "rel_requiresModels row = None" "naming row \<notin> naming ` set (ro_releases c)"
      "d = fst (pruneFiles (rel_target row) (c\<lparr>ro_releases := ro_releases c @ [row]\<rparr>))"
proof (cases "publishedAlready b (pf_target facts) (pf_version facts) \<or> publishedAlready c (pf_target facts) (pf_version facts)")
  case True
  with assms same show thesis by (auto simp: publish_def bindR_eq_Inr split: if_splits)
next
  case False
  with assms obtain keeps n head embedding where f: "versionShaped (pf_target facts) (pf_version facts)"
    "pf_target facts = MODELS \<Longrightarrow> \<not> missingText (pf_minFwVersion facts)" "imageFacts facts head = Inr embedding"
    "d = fst (pruneFiles (pf_target facts) (c\<lparr>ro_releases := ro_releases c @ [newRelease env now facts i keeps n embedding]\<rparr>))"
    by (auto simp: publish_def bindR_eq_Inr Let_def split_beta split: if_splits)
  let ?row = "newRelease env now facts i keeps n embedding"
  have row: "rel_id ?row = i" "rel_target ?row = pf_target facts" "rel_version ?row = pf_version facts" "rel_requiresModels ?row = None"
    "rel_minFwVersion ?row = pf_minFwVersion facts" "rel_embeddingVersion ?row = embedding" by (simp_all add: newRelease_def)
  have "(pf_target facts = MODELS) = (embedding \<noteq> None)"
    using f(3) by (cases "pf_target facts"; cases "embeddingOf head") (auto simp: imageFacts_def bindR_eq_Inr)
  with f(1,2) row have "releaseOk ?row" by (auto simp: releaseOk_def)
  moreover have "naming ?row \<notin> naming ` set (ro_releases c)"
    using False row by (auto simp: publishedAlready_def releaseNamed_def find_None_iff naming_def)
  ultimately show thesis using added [of ?row] row f(4) by simp
qed

definition detailed :: "ReleaseDetails \<Rightarrow> Release \<Rightarrow> Release" where
  "detailed details r = r\<lparr>rel_notes := Some (rd_notesVi details, rd_notesEn details), rel_requiresModels := rd_requiresModels details\<rparr>"

lemma detailed_simps [simp]:
  "lasting (detailed details r) = lasting r" "naming (detailed details r) = naming r" "rel_id (detailed details r) = rel_id r"
  "rel_target (detailed details r) = rel_target r" "rel_version (detailed details r) = rel_version r" "rel_path (detailed details r) = rel_path r"
  "rel_minFwVersion (detailed details r) = rel_minFwVersion r" "rel_requiresModels (detailed details r) = rd_requiresModels details"
  "rel_embeddingVersion (detailed details r) = rel_embeddingVersion r"
  by (simp_all add: detailed_def lasting_def naming_def)

lemma describe_cases:
  assumes "describe b c details = Inr (d, eff)"
  obtains held where "held \<in> set (ro_releases b)" "rel_target held = rd_target details" "rel_version held = rd_version details"
    "ro_releases d = updateMany (\<lambda>r. rel_id r = rel_id held) (detailed details) (ro_releases c)"
    "\<forall>need. rd_requiresModels details = Some need \<longrightarrow> rd_target details = FIRMWARE
       \<and> (\<exists>m \<in> set (ro_releases b). rel_target m = MODELS \<and> rel_version m = need
            \<and> (\<forall>fw. rel_minFwVersion m = Some fw \<longrightarrow> fw \<noteq> '''' \<longrightarrow> \<not> atLeast (Some fw) (rd_version details)))"
proof -
  from assms obtain held where held: "releaseNamed b (rd_target details) (rd_version details) = Some held"
    "ro_releases d = updateMany (\<lambda>r. rel_id r = rel_id held) (detailed details) (ro_releases c)"
    by (auto simp: describe_def bindR_eq_Inr detailed_def [abs_def])
  have "rd_target details = FIRMWARE \<and> (\<exists>m \<in> set (ro_releases b). rel_target m = MODELS \<and> rel_version m = need
            \<and> (\<forall>fw. rel_minFwVersion m = Some fw \<longrightarrow> fw \<noteq> '''' \<longrightarrow> \<not> atLeast (Some fw) (rd_version details)))"
    if "rd_requiresModels details = Some need" for need
  proof -
    from assms that held(1) obtain m where "rd_target details = FIRMWARE" "releaseNamed b MODELS need = Some m"
      "\<not> (case rel_minFwVersion m of None \<Rightarrow> False | Some fw \<Rightarrow> fw \<noteq> '''' \<and> atLeast (Some fw) (rd_version details))"
      by (auto simp: describe_def bindR_eq_Inr)
    then show ?thesis using find_mem by (fastforce simp: releaseNamed_def)
  qed
  with held that [of held] find_mem [OF held(1) [unfolded releaseNamed_def]] show thesis by auto
qed

lemma lasting_pruned [simp]: "lasting ` set (pruned t rs) = lasting ` set rs"
proof -
  have "map lasting (pruned t rs) = map lasting rs" by (simp add: pruned_def updateMany_def)
  then show ?thesis by (metis set_map)
qed

lemma reach_lasting: "registerReach b c \<Longrightarrow> lasting ` set (ro_releases b) \<subseteq> lasting ` set (ro_releases c)"
proof (induction rule: registerReach.induct)
  case (published a b c env now facts body i d eff old)
  from published(3) have "lasting ` set (ro_releases c) \<subseteq> lasting ` set (ro_releases d)"
  proof (cases rule: publish_cases)
    case (added row)
    then show ?thesis by (auto simp: pruneFiles_fst lasting_pruned)
  qed simp
  with published.IH show ?case by blast
next
  case (described a b c details d eff)
  from described(3) have "lasting ` set (ro_releases c) \<subseteq> lasting ` set (ro_releases d)"
  proof (rule describe_cases)
    fix held
    assume d: "ro_releases d = updateMany (\<lambda>r. rel_id r = rel_id held) (detailed details) (ro_releases c)"
    have "map lasting (ro_releases d) = map lasting (ro_releases c)" by (simp add: d updateMany_def)
    then show ?thesis by (metis order_refl set_map)
  qed
  with described.IH show ?case by blast
qed auto

lemma registerTyped_pruned:
  assumes "registerTyped rs" "releaseOk row" "rel_requiresModels row = None" "naming row \<notin> naming ` set rs" "rel_id row \<notin> rel_id ` set rs"
  shows "registerTyped (pruned (rel_target row) (rs @ [row]))"
proof -
  let ?rows = "pruned (rel_target row) (rs @ [row])"
  have new: "rel_requiresModels f = Some need \<Longrightarrow> f \<in> set (rs @ [row]) \<Longrightarrow> f \<in> set rs" for f need using assms(3) by auto
  have ids: "distinct (map rel_id (rs @ [row]))" using assms(1,5) by (auto simp: registerTyped_def)
  note few = kept_pruned [OF ids, where target = "rel_target row"]
  have "length (kept t ?rows) \<le> KEEP_FILES" for t
  proof (cases "t = rel_target row")
    case False
    then have "kept t (rs @ [row]) = kept t rs" by (simp add: kept_def)
    with few(2) [OF False] assms(1) show ?thesis by (simp add: registerTyped_def)
  qed (use few(1) in simp)
  moreover have "needsMet (rs @ [row])" using assms(1) new by (fastforce simp: registerTyped_def needsMet_def)
  moreover have "unlocked (rs @ [row])"
    unfolding unlocked_def
  proof (intro ballI impI)
    fix f m assume a: "f \<in> set (rs @ [row])" "m \<in> set (rs @ [row])" "rel_requiresModels f = Some (rel_version m) \<and> rel_target m = MODELS"
    with new have f: "f \<in> set rs" by blast
    with a(3) assms(1) obtain m' where "m' \<in> set rs" "naming m' = naming m" unfolding registerTyped_def needsMet_def naming_def by metis
    with a(2) assms(4) have "m \<in> set rs" by (auto simp: image_iff)
    with f a(3) assms(1) show "\<not> atLeast (rel_minFwVersion m) (rel_version f)" unfolding registerTyped_def unlocked_def by blast
  qed
  moreover have "map (\<lambda>r. (lasting r, rel_requiresModels r)) (rs @ [row]) = map (\<lambda>r. (lasting r, rel_requiresModels r)) ?rows"
    by (simp add: pruned_def updateMany_def)
  ultimately have "needsMet ?rows" "unlocked ?rows" "\<And>t. length (kept t ?rows) \<le> KEEP_FILES" using lasting_needs by blast+
  moreover have "map naming ?rows = map naming (rs @ [row])" "map rel_id ?rows = map rel_id (rs @ [row])"
    by (simp_all add: pruned_def updateMany_def)
  moreover have "\<forall>r \<in> set ?rows. releaseOk r" using assms(1,2) by (auto simp: pruned_def updateMany_set registerTyped_def)
  moreover have "distinct (map naming (rs @ [row]))" using assms(1,4) by (auto simp: registerTyped_def)
  ultimately show ?thesis using ids unfolding registerTyped_def by presburger
qed

lemma naming_unique: "distinct (map naming rs) \<Longrightarrow> x \<in> set rs \<Longrightarrow> y \<in> set rs \<Longrightarrow> rel_target x = rel_target y \<Longrightarrow> rel_version x = rel_version y \<Longrightarrow> x = y"
  by (auto simp: distinct_map inj_on_def naming_def)

lemma registerTyped_detailed:
  assumes typed: "registerTyped rs" and r0: "r0 \<in> set rs" "rel_id r0 = k" "rel_target r0 = rd_target details" "rel_version r0 = rd_version details"
    and need: "\<And>need. rd_requiresModels details = Some need \<Longrightarrow> rd_target details = FIRMWARE
      \<and> (\<exists>m \<in> set rs. rel_target m = MODELS \<and> rel_version m = need
           \<and> (\<forall>fw. rel_minFwVersion m = Some fw \<longrightarrow> fw \<noteq> '''' \<longrightarrow> \<not> atLeast (Some fw) (rd_version details)))"
  shows "registerTyped (updateMany (\<lambda>r. rel_id r = k) (detailed details) rs)"
proof -
  let ?rows = "updateMany (\<lambda>r. rel_id r = k) (detailed details) rs"
  have only: "r \<in> set rs \<Longrightarrow> rel_id r = k \<Longrightarrow> r = r0" for r
    using typed r0(1,2) by (auto simp: registerTyped_def distinct_map inj_on_def)
  have iff: "r \<in> set rs \<Longrightarrow> rel_id r = k \<longleftrightarrow> r = r0" for r using only r0(2) by blast
  have mem: "x \<in> set ?rows \<longleftrightarrow> (x \<in> set rs \<and> x \<noteq> r0) \<or> x = detailed details r0" for x
  proof -
    have "x \<in> set ?rows \<longleftrightarrow> (\<exists>r \<in> set rs. x = (if rel_id r = k then detailed details r else r))"
      by (simp only: updateMany_set image_iff)
    also have "\<dots> \<longleftrightarrow> (\<exists>r \<in> set rs. x = (if r = r0 then detailed details r else r))"
      by (rule bex_cong [OF refl]) (simp only: iff)
    also have "\<dots> \<longleftrightarrow> (x \<in> set rs \<and> x \<noteq> r0) \<or> x = detailed details r0"
    proof
      assume "\<exists>r \<in> set rs. x = (if r = r0 then detailed details r else r)"
      then obtain r where "r \<in> set rs" "x = (if r = r0 then detailed details r else r)" by blast
      then show "(x \<in> set rs \<and> x \<noteq> r0) \<or> x = detailed details r0" by (cases "r = r0") simp_all
    next
      assume "(x \<in> set rs \<and> x \<noteq> r0) \<or> x = detailed details r0"
      then show "\<exists>r \<in> set rs. x = (if r = r0 then detailed details r else r)"
        by (elim disjE) (rule bexI [of _ x], simp, simp, rule bexI [of _ r0], simp, rule r0(1))
    qed
    finally show ?thesis .
  qed
  have ok: "releaseOk x" if "x \<in> set ?rows" for x
  proof (cases "x = detailed details r0")
    case True
    have "releaseOk r0" using typed r0(1) by (simp add: registerTyped_def)
    moreover have "rd_requiresModels details = None \<or> rel_target r0 = FIRMWARE" using need r0(3) by (cases "rd_requiresModels details") auto
    ultimately show ?thesis by (auto simp: True releaseOk_def)
  next
    case False
    with that mem typed show ?thesis by (auto simp: registerTyped_def)
  qed
  have inrow: "\<exists>y \<in> set ?rows. rel_target y = rel_target m \<and> rel_version y = rel_version m" if "m \<in> set rs" for m
  proof (cases "m = r0")
    case True
    then show ?thesis by (intro bexI [of _ "detailed details r0"]) (simp_all add: mem)
  next
    case False
    with that show ?thesis by (intro bexI [of _ m]) (simp_all add: mem)
  qed
  have "needsMet ?rows" unfolding needsMet_def
  proof (intro ballI allI impI)
    fix f wanted assume f: "f \<in> set ?rows" "rel_requiresModels f = Some wanted"
    have "\<exists>m \<in> set rs. rel_target m = MODELS \<and> rel_version m = wanted"
    proof (cases "f = detailed details r0")
      case True
      with f(2) need show ?thesis by auto
    next
      case False
      with f mem typed show ?thesis by (auto simp: registerTyped_def needsMet_def)
    qed
    with inrow show "\<exists>m \<in> set ?rows. rel_target m = MODELS \<and> rel_version m = wanted" by metis
  qed
  moreover have "unlocked ?rows" unfolding unlocked_def
  proof (intro ballI impI)
    fix f m assume a: "f \<in> set ?rows" "m \<in> set ?rows" "rel_requiresModels f = Some (rel_version m) \<and> rel_target m = MODELS"
    obtain m0 where m0: "m0 \<in> set rs" "rel_target m0 = MODELS" "rel_version m0 = rel_version m" "rel_minFwVersion m0 = rel_minFwVersion m"
      using a(2,3) mem [of m] r0(1) by (cases "m = detailed details r0") auto
    show "\<not> atLeast (rel_minFwVersion m) (rel_version f)"
    proof (cases "f = detailed details r0")
      case True
      with a(3) need obtain m1 where m1: "m1 \<in> set rs" "rel_target m1 = MODELS" "rel_version m1 = rel_version m"
        "\<forall>fw. rel_minFwVersion m1 = Some fw \<longrightarrow> fw \<noteq> '''' \<longrightarrow> \<not> atLeast (Some fw) (rd_version details)" by auto
      from typed have "distinct (map naming rs)" by (simp add: registerTyped_def)
      from naming_unique [OF this m0(1) m1(1)] m0 m1 have same: "m0 = m1" by simp
      have "releaseOk m0" using typed m0(1) by (simp add: registerTyped_def)
      with m0(2) obtain fw where "rel_minFwVersion m0 = Some fw" "fw \<noteq> ''''" by (auto simp: releaseOk_def missingText_def)
      with m1(4) same m0(4) True r0(4) show ?thesis by auto
    next
      case False
      with a(1) mem have "f \<in> set rs" by auto
      with typed m0 a(3) show ?thesis unfolding registerTyped_def unlocked_def by metis
    qed
  qed
  moreover have "map naming ?rows = map naming rs" "map rel_id ?rows = map rel_id rs" by (simp_all add: updateMany_def)
  moreover have "length (kept t ?rows) = length (kept t rs)" for t unfolding kept_def by (induction rs) auto
  ultimately show ?thesis using ok typed unfolding registerTyped_def by (intro conjI ballI allI) simp_all
qed

lemma lasting_in:
  assumes "registerReach b c" "x \<in> set (ro_releases b)"
  shows "\<exists>y \<in> set (ro_releases c). rel_id y = rel_id x \<and> rel_target y = rel_target x \<and> rel_version y = rel_version x \<and> rel_minFwVersion y = rel_minFwVersion x"
proof -
  from reach_lasting [OF assms(1)] assms(2) have "lasting x \<in> lasting ` set (ro_releases c)" by blast
  then show ?thesis by (auto simp: lasting_def)
qed

lemma splitOn_keeps: "x \<in> set t \<Longrightarrow> x \<noteq> c \<Longrightarrow> \<exists>part \<in> set (splitOn c t). x \<in> set part"
proof (induction t)
  case (Cons y t)
  have parts: "set (splitOn c t) = insert (hd (splitOn c t)) (set (tl (splitOn c t)))" by (cases "splitOn c t") auto
  show ?case
  proof (cases "y = c")
    case True
    with Cons show ?thesis by auto
  next
    case False
    with Cons parts show ?thesis by (cases "x = y") auto
  qed
qed simp

lemma readDigits_other: "x \<in> set t \<Longrightarrow> digitVal x = None \<Longrightarrow> readDigits t acc = None"
  by (induction t acc rule: readDigits.induct) (auto split: option.splits)

lemma decimalPart_bar: "CHR ''|'' \<in> set t \<Longrightarrow> decimalPart t = None"
  by (auto simp: decimalPart_def digitVal_def intro!: readDigits_other)


definition typedSample :: RolloutDb where
  "typedSample = \<lparr>ro_devices = [],
     ro_releases = [sampleRelease ''m1'' MODELS ''img-0123abcd'' (Some ''1.0.0'') None 20, sampleRelease ''f1'' FIRMWARE ''1.1.0'' None None 10],
     ro_rollout = Map.empty, ro_reports = []\<rparr>"

lemma typedSample_typed: "registerTyped (ro_releases typedSample)"
proof -
  have "list_all releaseOk (ro_releases typedSample)" "distinct (map naming (ro_releases typedSample))"
    "distinct (map rel_id (ro_releases typedSample))" by code_simp+
  moreover have "kept t (ro_releases typedSample) = filter (\<lambda>r. rel_target r = t) (ro_releases typedSample)" for t
    by (simp add: kept_def typedSample_def sampleRelease_def)
  then have "length (kept t (ro_releases typedSample)) \<le> KEEP_FILES" for t
    by (cases t) (simp_all add: typedSample_def sampleRelease_def KEEP_FILES_def)
  moreover have "needsMet (ro_releases typedSample)" "unlocked (ro_releases typedSample)"
    by (simp_all add: needsMet_def unlocked_def typedSample_def sampleRelease_def)
  ultimately show ?thesis by (simp add: registerTyped_def list_all_iff)
qed


end
