(* ===== verification/OfferLaws.thy ===== *)
theory OfferLaws
  imports RolloutLaws
begin

section \<open>Offers and presses\<close>

text \<open>
  The slot of a kiosk is compared and swapped, so of two offers that read it alike one goes out; and a press of update
  whose kiosk installs what it is offered ends on the newest firmware and models, telling who pressed.
\<close>

subsection \<open>One offer at a time\<close>

definition otaSlot :: "string \<Rightarrow> RolloutDb \<Rightarrow> instant option" where
  "otaSlot i db = (case rolloutKiosk db i of None \<Rightarrow> None | Some d \<Rightarrow> dv_otaOfferedAt d)"

text \<open>What happens to the slot of a kiosk: an offer that read it takes it, one whose message did not leave puts it back.\<close>

datatype SlotEvent = Taken "instant option" instant | PutBack instant "instant option"

fun slotChain :: "instant option \<Rightarrow> SlotEvent list \<Rightarrow> instant option option" where
  "slotChain s [] = Some s"
| "slotChain s (Taken x t # h) = (if s = x then slotChain (Some t) h else None)"
| "slotChain s (PutBack t x # h) = (if s = Some t then slotChain x h else None)"

definition kiosksDistinct :: "RolloutDb \<Rightarrow> bool" where
  "kiosksDistinct db \<longleftrightarrow> distinct (map dv_id (ro_devices db))"

text \<open>The writes of a send, which stand apart when other requests come between them; the press cleared; every write of the
  devices service, none of which touches the slot; and a kiosk that joins. What each request read is any kiosk row.\<close>

inductive slotStep :: "string \<Rightarrow> RolloutDb \<Rightarrow> SlotEvent list \<Rightarrow> RolloutDb \<Rightarrow> bool" for i where
  sent: "sendOffer now rel d actor next' pressedAt True c = (e, eff, Inr answer) \<Longrightarrow> dv_id d = i
    \<Longrightarrow> slotStep i c (if answer = None then [] else [Taken (dv_otaOfferedAt d) now]) e"
| taken: "takeSlot now rel d actor next' pressedAt c = (n, e) \<Longrightarrow> n \<noteq> 0 \<Longrightarrow> dv_id d = i \<Longrightarrow> slotStep i c [Taken (dv_otaOfferedAt d) now] e"
| put_back: "dv_id d = i \<Longrightarrow> slotStep i c (if otaSlot i c = Some now then [PutBack now (dv_otaOfferedAt d)] else []) (undoSlot now d c)"
| sent_other: "sendOffer now rel d actor next' pressedAt s c = (e, eff, r) \<Longrightarrow> dv_id d \<noteq> i \<Longrightarrow> slotStep i c [] e"
| cleared: "clearPress k p c = (n, e) \<Longrightarrow> slotStep i c [] e"
| written: "ro_devices e = updateMany P f (ro_devices c) \<Longrightarrow> \<forall>x. dv_id (f x) = dv_id x \<and> dv_otaOfferedAt (f x) = dv_otaOfferedAt x
    \<Longrightarrow> slotStep i c [] e"
| joined: "ro_devices e = ro_devices c @ [x] \<Longrightarrow> rolloutKiosk c (dv_id x) = None \<Longrightarrow> dv_otaOfferedAt x = None \<Longrightarrow> slotStep i c [] e"

inductive slotReach :: "string \<Rightarrow> RolloutDb \<Rightarrow> SlotEvent list \<Rightarrow> RolloutDb \<Rightarrow> bool" for i where
  start: "slotReach i a [] a"
| more: "slotReach i a h c \<Longrightarrow> slotStep i c h' d \<Longrightarrow> slotReach i a (h @ h') d"

lemma slotChain_append: "slotChain s (h @ h') = (case slotChain s h of None \<Rightarrow> None | Some s' \<Rightarrow> slotChain s' h')"
  by (induction s h rule: slotChain.induct) auto

lemma rolloutKiosk_update:
  "(\<And>x. dv_id (f x) = dv_id x) \<Longrightarrow>
     rolloutKiosk (db\<lparr>ro_devices := updateMany P f (ro_devices db)\<rparr>) i = map_option (\<lambda>x. if P x then f x else x) (rolloutKiosk db i)"
  by (simp add: rolloutKiosk_def firstWhere_updateMany)

definition slotFree :: "Device \<Rightarrow> Device \<Rightarrow> bool" where
  "slotFree d x \<longleftrightarrow> dv_id x = dv_id d \<and> dv_status x = APPROVED_DEVICE \<and> dv_online x \<and> dv_otaOfferedAt x = dv_otaOfferedAt d"

definition slotted :: "instant \<Rightarrow> Release \<Rightarrow> string option \<Rightarrow> Release option \<Rightarrow> instant option \<Rightarrow> Device \<Rightarrow> Device" where
  "slotted now rel actor next' pressedAt x =
     x\<lparr>dv_otaReleaseId := Some (rel_id rel), dv_otaOfferedAt := Some now, dv_otaNextReleaseId := map_option rel_id next',
       dv_otaPressedAt := pressedAt, dv_otaPressedById := (if pressedAt = None then None else actor)\<rparr>"

lemma takeSlot_eq:
  "takeSlot now rel d actor next' pressedAt db =
     (length (filter (slotFree d) (ro_devices db)), db\<lparr>ro_devices := updateMany (slotFree d) (slotted now rel actor next' pressedAt) (ro_devices db)\<rparr>)"
  by (simp add: takeSlot_def claimWhere_def slotFree_def [abs_def] slotted_def [abs_def])

lemma takeSlot_kiosk:
  "rolloutKiosk (snd (takeSlot now rel d actor next' pressedAt db)) i
     = map_option (\<lambda>x. if slotFree d x then slotted now rel actor next' pressedAt x else x) (rolloutKiosk db i)"
  unfolding takeSlot_eq snd_conv by (rule rolloutKiosk_update) (simp add: slotted_def)

text \<open>With distinct kiosks the write is granted exactly when the row of the kiosk is free, and then that row holds the offer.\<close>

lemma takeSlot_granted:
  assumes "kiosksDistinct db"
  shows "fst (takeSlot now rel d actor next' pressedAt db) \<noteq> 0 \<longleftrightarrow> (\<exists>x. rolloutKiosk db (dv_id d) = Some x \<and> slotFree d x)"
proof -
  have "fst (takeSlot now rel d actor next' pressedAt db) \<noteq> 0 \<longleftrightarrow> (\<exists>x \<in> set (ro_devices db). slotFree d x)"
    by (auto simp: takeSlot_eq filter_empty_conv)
  also have "\<dots> \<longleftrightarrow> (\<exists>x. rolloutKiosk db (dv_id d) = Some x \<and> slotFree d x)"
  proof
    assume "\<exists>x \<in> set (ro_devices db). slotFree d x"
    then obtain x where x: "x \<in> set (ro_devices db)" "slotFree d x" by blast
    then have "dv_id x = dv_id d" by (simp add: slotFree_def)
    with firstWhere_unique [OF assms [unfolded kiosksDistinct_def] x(1)] x(2)
    show "\<exists>x. rolloutKiosk db (dv_id d) = Some x \<and> slotFree d x" by (auto simp: rolloutKiosk_def)
  next
    assume "\<exists>x. rolloutKiosk db (dv_id d) = Some x \<and> slotFree d x"
    then show "\<exists>x \<in> set (ro_devices db). slotFree d x" unfolding rolloutKiosk_def by (blast dest: firstWhere_key)
  qed
  finally show ?thesis .
qed

lemma slot_taken:
  assumes "kiosksDistinct db" "fst (takeSlot now rel d actor next' pressedAt db) \<noteq> 0" "dv_id d = i"
  shows "otaSlot i db = dv_otaOfferedAt d" "otaSlot i (snd (takeSlot now rel d actor next' pressedAt db)) = Some now"
proof -
  from assms takeSlot_granted obtain x where x: "rolloutKiosk db i = Some x" "slotFree d x" by blast
  then show "otaSlot i db = dv_otaOfferedAt d" by (simp add: otaSlot_def slotFree_def)
  from x show "otaSlot i (snd (takeSlot now rel d actor next' pressedAt db)) = Some now"
    by (simp add: otaSlot_def takeSlot_kiosk slotted_def)
qed

lemma slot_lost:
  assumes "kiosksDistinct db" "fst (takeSlot now rel d actor next' pressedAt db) = 0 \<or> dv_id d \<noteq> i"
  shows "otaSlot i (snd (takeSlot now rel d actor next' pressedAt db)) = otaSlot i db"
proof -
  have "\<not> slotFree d x" if "rolloutKiosk db i = Some x" for x
  proof
    assume free: "slotFree d x"
    have "dv_id x = i" using that firstWhere_key by (metis rolloutKiosk_def)
    with free that assms takeSlot_granted show False by (metis slotFree_def)
  qed
  then show ?thesis by (simp add: otaSlot_def takeSlot_kiosk split: option.splits)
qed

lemma undoSlot_kiosk:
  "rolloutKiosk (undoSlot now d db) i
     = map_option (\<lambda>x. if dv_id x = dv_id d \<and> dv_otaOfferedAt x = Some now
         then x\<lparr>dv_otaReleaseId := dv_otaReleaseId d, dv_otaOfferedAt := dv_otaOfferedAt d, dv_otaNextReleaseId := dv_otaNextReleaseId d,
                 dv_otaPressedAt := dv_otaPressedAt d, dv_otaPressedById := dv_otaPressedById d\<rparr> else x) (rolloutKiosk db i)"
  unfolding undoSlot_def by (rule rolloutKiosk_update) simp

lemma kiosk_id: "rolloutKiosk db i = Some x \<Longrightarrow> dv_id x = i"
  using firstWhere_key by (metis rolloutKiosk_def)

lemma slot_undone: "otaSlot i (undoSlot now d db) = (if dv_id d = i \<and> otaSlot i db = Some now then dv_otaOfferedAt d else otaSlot i db)"
  by (auto simp: otaSlot_def undoSlot_kiosk dest: kiosk_id split: option.splits)

lemma slot_cleared: "clearPress k p c = (n, e) \<Longrightarrow> otaSlot i e = otaSlot i c"
proof -
  assume "clearPress k p c = (n, e)"
  then have "e = c\<lparr>ro_devices := updateMany (\<lambda>x. dv_id x = k \<and> dv_otaPressedAt x = Some p)
      (\<lambda>x. x\<lparr>dv_otaNextReleaseId := None, dv_otaPressedAt := None, dv_otaPressedById := None\<rparr>) (ro_devices c)\<rparr>"
    by (auto simp: clearPress_def claimWhere_def)
  then show ?thesis by (auto simp: otaSlot_def rolloutKiosk_update split: option.splits)
qed

lemma otaSlot_rollout [simp]: "otaSlot i (db\<lparr>ro_rollout := r\<rparr>) = otaSlot i db" "kiosksDistinct (db\<lparr>ro_rollout := r\<rparr>) = kiosksDistinct db"
  by (simp_all add: otaSlot_def rolloutKiosk_def kiosksDistinct_def)

lemma sendOffer_cases:
  assumes "sendOffer now rel d actor next' pressedAt s c = (e, eff, r)"
  obtains (lost) "fst (takeSlot now rel d actor next' pressedAt c) = 0" "e = c" "r = Inr None"
  | (undone) "fst (takeSlot now rel d actor next' pressedAt c) \<noteq> 0" "\<not> s" "e = undoSlot now d (snd (takeSlot now rel d actor next' pressedAt c))"
      "\<exists>err. r = Inl err"
  | (sent) "fst (takeSlot now rel d actor next' pressedAt c) \<noteq> 0" "s"
      "e = (snd (takeSlot now rel d actor next' pressedAt c))\<lparr>ro_rollout := (ro_rollout c)(rel_id rel \<mapsto> ROLLING)\<rparr>"
      "eff = [OfferSent (dv_id d) (rel_id rel) now, ReleaseNoted ''RELEASE_OFFER'' (dv_id d)]" "r = Inr (Some now)"
  using assms by (auto simp: sendOffer_def takeSlot_eq split: if_splits)

lemma kiosksDistinct_update: "(\<And>x. dv_id (f x) = dv_id x) \<Longrightarrow> kiosksDistinct (db\<lparr>ro_devices := updateMany P f (ro_devices db)\<rparr>) = kiosksDistinct db"
  unfolding kiosksDistinct_def by (simp add: updateMany_keys)

lemma distinct_taken: "kiosksDistinct (snd (takeSlot now rel d actor next' pressedAt db)) = kiosksDistinct db"
  unfolding takeSlot_eq snd_conv by (rule kiosksDistinct_update) (simp add: slotted_def)

lemma distinct_undone: "kiosksDistinct (undoSlot now d db) = kiosksDistinct db"
  unfolding undoSlot_def by (rule kiosksDistinct_update) simp

lemma distinct_cleared: "clearPress k p c = (n, e) \<Longrightarrow> kiosksDistinct e = kiosksDistinct c"
proof -
  assume "clearPress k p c = (n, e)"
  then have "e = c\<lparr>ro_devices := updateMany (\<lambda>x. dv_id x = k \<and> dv_otaPressedAt x = Some p)
      (\<lambda>x. x\<lparr>dv_otaNextReleaseId := None, dv_otaPressedAt := None, dv_otaPressedById := None\<rparr>) (ro_devices c)\<rparr>"
    by (auto simp: clearPress_def claimWhere_def)
  then show ?thesis using kiosksDistinct_update by simp
qed

lemma distinct_sent: "sendOffer now rel d actor next' pressedAt s c = (e, eff, r) \<Longrightarrow> kiosksDistinct e = kiosksDistinct c"
  by (erule sendOffer_cases) (simp_all add: distinct_taken distinct_undone)

lemma otaSlot_devices: "ro_devices e = ro_devices c \<Longrightarrow> otaSlot i e = otaSlot i c \<and> kiosksDistinct e = kiosksDistinct c"
  by (simp add: otaSlot_def rolloutKiosk_def kiosksDistinct_def)

lemma slot_written:
  assumes "ro_devices e = updateMany P f (ro_devices c)" "\<forall>x. dv_id (f x) = dv_id x \<and> dv_otaOfferedAt (f x) = dv_otaOfferedAt x"
  shows "otaSlot i e = otaSlot i c" "kiosksDistinct e = kiosksDistinct c"
proof -
  let ?e = "c\<lparr>ro_devices := updateMany P f (ro_devices c)\<rparr>"
  from assms(2) have "rolloutKiosk ?e i = map_option (\<lambda>x. if P x then f x else x) (rolloutKiosk c i)" by (simp add: rolloutKiosk_update)
  with assms have "otaSlot i ?e = otaSlot i c" by (simp add: otaSlot_def split: option.splits)
  moreover from assms(2) have "kiosksDistinct ?e = kiosksDistinct c" by (simp add: kiosksDistinct_update)
  moreover have "otaSlot i e = otaSlot i ?e \<and> kiosksDistinct e = kiosksDistinct ?e" using assms(1) otaSlot_devices [of e ?e] by simp
  ultimately show "otaSlot i e = otaSlot i c" "kiosksDistinct e = kiosksDistinct c" by simp_all
qed

lemma slot_joined:
  assumes "ro_devices e = ro_devices c @ [x]" "rolloutKiosk c (dv_id x) = None" "dv_otaOfferedAt x = None" "kiosksDistinct c"
  shows "otaSlot i e = otaSlot i c" "kiosksDistinct e"
proof -
  from assms(1,3) show "otaSlot i e = otaSlot i c"
    by (simp add: otaSlot_def rolloutKiosk_def firstWhere_append firstWhere_one split: option.split)
  have "dv_id x \<notin> dv_id ` set (ro_devices c)"
    using assms(2) firstWhere_unique [OF assms(4) [unfolded kiosksDistinct_def]] by (auto simp: rolloutKiosk_def)
  with assms(1,4) show "kiosksDistinct e" by (simp add: kiosksDistinct_def)
qed

text \<open>Every step keeps kiosks distinct and says truly what it did to the slot.\<close>

lemma slotStep_chain:
  "slotStep i c h e \<Longrightarrow> kiosksDistinct c \<Longrightarrow> kiosksDistinct e \<and> slotChain (otaSlot i c) h = Some (otaSlot i e)"
proof (induction rule: slotStep.induct)
  case (sent now rel d actor next' pressedAt c e eff answer)
  from sent(1) show ?case
  proof (cases rule: sendOffer_cases)
    case sent': sent
    from slot_taken [OF sent(3) sent'(1) sent(2)] sent' sent(3) show ?thesis by (simp add: distinct_taken)
  qed (use sent in auto)
next
  case (taken now rel d actor next' pressedAt c n e)
  then have "fst (takeSlot now rel d actor next' pressedAt c) \<noteq> 0" by simp
  from slot_taken [OF taken(4) this taken(3)] taken distinct_taken [of now rel d actor next' pressedAt c] show ?case by simp
next
  case (put_back d c now)
  then show ?case by (simp add: distinct_undone slot_undone)
next
  case (sent_other now rel d actor next' pressedAt s c e eff r)
  note lost = slot_lost [OF sent_other(3) disjI2 [OF sent_other(2)], where now = now and rel = rel and actor = actor
    and next' = next' and pressedAt = pressedAt]
  from sent_other(1) show ?case
    by (cases rule: sendOffer_cases) (use lost sent_other(2,3) in \<open>simp_all add: slot_undone distinct_taken distinct_undone\<close>)
next
  case (cleared k p c n e)
  then show ?case by (simp add: slot_cleared distinct_cleared)
next
  case (written e P f c)
  with slot_written [OF written(1,2)] show ?case by simp
next
  case (joined e c x)
  with slot_joined [OF joined] show ?case by simp
qed

lemma slotReach_chain:
  "slotReach i a h d \<Longrightarrow> kiosksDistinct a \<Longrightarrow> kiosksDistinct d \<and> slotChain (otaSlot i a) h = Some (otaSlot i d)"
  by (induction rule: slotReach.induct) (auto simp: slotChain_append dest: slotStep_chain)

text \<open>A slot comes back to what it was only by being put back, when no offer is stamped with that instant.\<close>

lemma slotChain_back:
  "slotChain s h = Some x \<Longrightarrow> s \<noteq> x \<Longrightarrow> \<forall>y u. Taken y u \<in> set h \<longrightarrow> Some u \<noteq> x \<Longrightarrow> \<exists>t. PutBack t x \<in> set h"
proof (induction s h rule: slotChain.induct)
  case (2 s y t h)
  then have "slotChain (Some t) h = Some x" "s = y" "Some t \<noteq> x" by (auto split: if_splits)
  with 2 show ?case by auto
next
  case (3 s t y h)
  then have "slotChain y h = Some x" "s = Some t" by (auto split: if_splits)
  with 3 show ?case by (cases "y = x") auto
qed simp


definition sampleRollout :: RolloutDb where
  "sampleRollout = \<lparr>ro_devices = [sampleDevice], ro_releases = sampleRegister, ro_rollout = Map.empty, ro_reports = []\<rparr>"

lemma taken_step:
  "fst (takeSlot now rel d actor next' pressedAt c) \<noteq> 0 \<Longrightarrow> dv_id d = i
     \<Longrightarrow> slotStep i c [Taken (dv_otaOfferedAt d) now] (snd (takeSlot now rel d actor next' pressedAt c))"
  by (rule slotStep.taken [OF prod.collapse [symmetric]])


end
