(* ===== verification/PressLaws.thy ===== *)
theory PressLaws
  imports OfferLaws
begin

section \<open>A press of update, carried on to its end\<close>

text \<open>
  A kiosk that installs what it is offered, and says so by its heartbeat, is carried from one release to the next until it
  runs the newest firmware and models, when the press ends and the one who pressed is told. Then a run in which two
  heartbeats cross, which loses the press.
\<close>

subsection \<open>A kiosk that installs what it is offered\<close>

text \<open>What a kiosk that has installed the release it was offered, and confirmed it, says next.\<close>

definition confirmingBeat :: "Runs \<Rightarrow> Heartbeat" where
  "confirmingBeat r =
     \<lparr>hb_fwVersion = orElse (run_fw r) '''', hb_modelVersion = orElse (run_models r) '''', hb_embeddingVersion = None, hb_onTrial = Some False,
      hb_ts = 0, hb_uptimeSeconds = 60\<rparr>"

definition reportsInstalled :: "string \<Rightarrow> RolloutDb \<Rightarrow> RolloutDb" where
  "reportsInstalled i db =
     (case rolloutKiosk db i of
        None \<Rightarrow> db
      | Some d \<Rightarrow>
          (case Option.bind (dv_otaReleaseId d) (releaseOf db) of
             None \<Rightarrow> db
           | Some rel \<Rightarrow> db\<lparr>ro_devices := updateMany (\<lambda>x. dv_id x = i) (beaten (confirmingBeat (installed (runsOf d) rel))) (ro_devices db)\<rparr>))"

text \<open>The heartbeats at the given times, each with what the server does on it.\<close>

fun beats :: "RolloutEnv \<Rightarrow> string \<Rightarrow> instant list \<Rightarrow> RolloutDb \<Rightarrow> RolloutDb \<times> RolloutEffect list" where
  "beats env i [] db = (db, [])"
| "beats env i (now # later) db =
     (let db1 = reportsInstalled i db; (db2, eff, r) = followUp env now db1 db1 i True; (db3, eff') = beats env i later db2
      in (db3, eff @ eff'))"

definition offersIn :: "RolloutEffect list \<Rightarrow> string list" where
  "offersIn eff = concat (map (\<lambda>e. case e of OfferSent k rid t \<Rightarrow> [rid] | _ \<Rightarrow> []) eff)"

lemma offersIn_append [simp]: "offersIn (e @ e') = offersIn e @ offersIn e'"
  by (simp add: offersIn_def)

lemma offersIn_simps [simp]: "offersIn [] = []" "offersIn (OfferSent k rid t # e) = rid # offersIn e" "offersIn (ReleaseNoted a b # e) = offersIn e"
  "offersIn (PressFinished k a f m # e) = offersIn e"
  by (simp_all add: offersIn_def)

definition nextOf :: "Release list \<Rightarrow> Release option" where
  "nextOf path = (case path of [] \<Rightarrow> None | n # _ \<Rightarrow> Some n)"

text \<open>The register an update press is made on: versions plain, ids distinct, nothing published after the press.\<close>

definition registerAt :: "instant \<Rightarrow> Release list \<Rightarrow> bool" where
  "registerAt p rs \<longleftrightarrow> plainReleases rs \<and> distinct (map rel_id rs) \<and> (\<forall>r \<in> set rs. rel_createdAt r \<le> p)"

text \<open>A kiosk between two steps of a press: offered \<open>s\<close>, which it does not run yet, with \<open>path\<close> still to come.\<close>

definition onWay :: "string \<Rightarrow> instant \<Rightarrow> string \<Rightarrow> Release list \<Rightarrow> Release \<Rightarrow> Release list \<Rightarrow> RolloutDb \<Rightarrow> Device \<Rightarrow> bool" where
  "onWay i p actor rs s path db d \<longleftrightarrow>
     kiosksDistinct db \<and> ro_releases db = rs \<and> rolloutKiosk db i = Some d \<and> dv_status d = APPROVED_DEVICE \<and> dv_online d
     \<and> dv_otaReleaseId d = Some (rel_id s) \<and> dv_otaOfferedAt d \<noteq> None \<and> dv_otaNextReleaseId d = map_option rel_id (nextOf path)
     \<and> dv_otaPressedAt d = Some p \<and> dv_otaPressedById d = Some actor
     \<and> (\<exists>f m. dv_fwVersion d = Some f \<and> dv_modelVersion d = Some m) \<and> plainRuns (runsOf d)
     \<and> route d (newestFirst rs) (Some p) = Inr (Some (s # path))"

lemma newestFirst_set [simp]: "set (newestFirst rs) = set rs"
  by (simp add: newestFirst_def)

lemma plain_newest: "registerAt p rs \<Longrightarrow> plainReleases (newestFirst rs)"
  by (simp add: registerAt_def plainReleases_def)

lemma route_steps:
  assumes "route d (newestFirst rs) asOf = Inr (Some path)" "registerAt p rs" "plainRuns (runsOf d)"
  shows "follows (movesOver (newestFirst rs) asOf) (runsOf d) path"
    "arrived (movesOver (newestFirst rs) asOf) (foldl installed (runsOf d) path)"
  using route_cases [OF assms(3) plain_newest [OF assms(2)] refl refl, of asOf] assms(1) by blast+

lemma moves_on_register: "s \<in> set (movesFrom (movesOver rs asOf) r) \<Longrightarrow> s \<in> set rs"
  by (auto simp: movesFrom_def movesOver_def Let_def)

lemma releaseOf_in: "registerAt p (ro_releases db) \<Longrightarrow> s \<in> set (ro_releases db) \<Longrightarrow> releaseOf db (rel_id s) = Some s"
  by (simp add: registerAt_def releaseOf_def firstWhere_unique)

text \<open>What the kiosk says once it runs the step: its row as before but for what it runs, confirmed.\<close>

lemma reports_row:
  assumes "onWay i p actor rs s path db d" "registerAt p rs" "x = beaten (confirmingBeat (installed (runsOf d) s)) d"
  shows "rolloutKiosk (reportsInstalled i db) i = Some x" "ro_releases (reportsInstalled i db) = rs" "kiosksDistinct (reportsInstalled i db)"
    "runsOf x = installed (runsOf d) s" "dv_fwOnTrial x = Some False" "runsRelease x s"
    "\<exists>f m. dv_fwVersion x = Some f \<and> dv_modelVersion x = Some m"
proof -
  from assms(1) have d: "rolloutKiosk db i = Some d" "dv_otaReleaseId d = Some (rel_id s)" "ro_releases db = rs" "kiosksDistinct db"
    "route d (newestFirst rs) (Some p) = Inr (Some (s # path))" "plainRuns (runsOf d)" by (auto simp: onWay_def)
  from route_steps(1) [OF d(5) assms(2) d(6)] have "s \<in> set rs" by (auto dest: moves_on_register)
  with assms(2) d(3) have rel: "releaseOf db (rel_id s) = Some s" using releaseOf_in by blast
  have eq: "reportsInstalled i db = db\<lparr>ro_devices := updateMany (\<lambda>x. dv_id x = i) (beaten (confirmingBeat (installed (runsOf d) s))) (ro_devices db)\<rparr>"
    by (simp add: reportsInstalled_def d rel)
  have id: "dv_id (beaten b y) = dv_id y" for b y by (simp add: beaten_def)
  from d(1) have "dv_id d = i" by (rule kiosk_id)
  then show "rolloutKiosk (reportsInstalled i db) i = Some x" unfolding eq by (simp add: rolloutKiosk_update id d(1) assms(3))
  show "ro_releases (reportsInstalled i db) = rs" by (simp add: eq d(3))
  show "kiosksDistinct (reportsInstalled i db)" unfolding eq by (simp add: kiosksDistinct_update id d(4))
  from assms(1) obtain f m where "dv_fwVersion d = Some f" "dv_modelVersion d = Some m" by (auto simp: onWay_def)
  then show "runsOf x = installed (runsOf d) s" "dv_fwOnTrial x = Some False" "runsRelease x s"
    "\<exists>f m. dv_fwVersion x = Some f \<and> dv_modelVersion x = Some m"
    by (cases "rel_target s"; simp add: assms(3) beaten_def confirmingBeat_def installed_def runsOf_def runsRelease_def orElse_def)+
qed

text \<open>The press is cleared on a row that bears it.\<close>

lemma clear_granted:
  assumes "rolloutKiosk db i = Some x" "dv_otaPressedAt x = Some p" "clearPress i p db = (n, e)"
  shows "n \<noteq> 0"
    "rolloutKiosk e i = Some (x\<lparr>dv_otaNextReleaseId := None, dv_otaPressedAt := None, dv_otaPressedById := None\<rparr>)"
    "ro_releases e = ro_releases db" "kiosksDistinct e = kiosksDistinct db"
proof -
  from assms(3) have e: "n = length (filter (\<lambda>x. dv_id x = i \<and> dv_otaPressedAt x = Some p) (ro_devices db))"
    "e = db\<lparr>ro_devices := updateMany (\<lambda>x. dv_id x = i \<and> dv_otaPressedAt x = Some p)
      (\<lambda>x. x\<lparr>dv_otaNextReleaseId := None, dv_otaPressedAt := None, dv_otaPressedById := None\<rparr>) (ro_devices db)\<rparr>"
    by (auto simp: clearPress_def claimWhere_def)
  from assms(1) have x: "x \<in> set (ro_devices db)" "dv_id x = i" unfolding rolloutKiosk_def by (auto dest: firstWhere_key)
  with assms(2) show "n \<noteq> 0" by (auto simp: e(1) filter_empty_conv)
  show "rolloutKiosk e i = Some (x\<lparr>dv_otaNextReleaseId := None, dv_otaPressedAt := None, dv_otaPressedById := None\<rparr>)"
    unfolding e(2) using assms(1,2) x(2) by (simp add: rolloutKiosk_update)
  show "ro_releases e = ro_releases db" by (simp add: e(2))
  show "kiosksDistinct e = kiosksDistinct db" by (rule distinct_cleared [OF assms(3)])
qed

text \<open>A send to a kiosk read as it stands, with the broker reached, goes out.\<close>

lemma send_granted:
  assumes "kiosksDistinct db" "rolloutKiosk db i = Some x" "dv_status x = APPROVED_DEVICE" "dv_online x"
    "dv_id d = i" "dv_otaOfferedAt d = dv_otaOfferedAt x"
  shows "\<exists>e. sendOffer now rel d actor next' pressedAt True db
      = (e, [OfferSent i (rel_id rel) now, ReleaseNoted ''RELEASE_OFFER'' i], Inr (Some now))
    \<and> rolloutKiosk e i = Some (slotted now rel actor next' pressedAt x) \<and> ro_releases e = ro_releases db \<and> kiosksDistinct e"
proof -
  have "dv_id x = i" using assms(2) by (rule kiosk_id)
  with assms have free: "slotFree d x" by (simp add: slotFree_def)
  with assms(1,2,5) have "fst (takeSlot now rel d actor next' pressedAt db) \<noteq> 0"
    unfolding takeSlot_granted [OF assms(1)] by blast
  then have n: "length (filter (slotFree d) (ro_devices db)) \<noteq> 0" by (simp add: takeSlot_eq)
  from takeSlot_kiosk [of now rel d actor next' pressedAt db i] assms(2) free
  have k: "rolloutKiosk (snd (takeSlot now rel d actor next' pressedAt db)) i = Some (slotted now rel actor next' pressedAt x)" by simp
  let ?b = "snd (takeSlot now rel d actor next' pressedAt db)"
  show ?thesis
  proof (intro exI conjI)
    show "sendOffer now rel d actor next' pressedAt True db
      = (?b\<lparr>ro_rollout := (ro_rollout ?b)(rel_id rel \<mapsto> ROLLING)\<rparr>, [OfferSent i (rel_id rel) now, ReleaseNoted ''RELEASE_OFFER'' i], Inr (Some now))"
      using n assms(5) by (simp add: sendOffer_def takeSlot_eq)
    show "rolloutKiosk (?b\<lparr>ro_rollout := (ro_rollout ?b)(rel_id rel \<mapsto> ROLLING)\<rparr>) i = Some (slotted now rel actor next' pressedAt x)"
      using k by (simp add: rolloutKiosk_def)
    show "ro_releases (?b\<lparr>ro_rollout := (ro_rollout ?b)(rel_id rel \<mapsto> ROLLING)\<rparr>) = ro_releases db" by (simp add: takeSlot_eq)
    show "kiosksDistinct (?b\<lparr>ro_rollout := (ro_rollout ?b)(rel_id rel \<mapsto> ROLLING)\<rparr>)" using assms(1) distinct_taken by simp
  qed
qed

lemma route_cong: "runsOf y = runsOf x \<Longrightarrow> dv_fwOnTrial y = dv_fwOnTrial x \<Longrightarrow> route y rs asOf = route x rs asOf"
  by (simp add: route_def Let_def cong: if_cong)

lemma status_installed:
  assumes "rolloutKiosk db i = Some x" "dv_otaReleaseId x = Some (rel_id s)" "dv_otaOfferedAt x = Some t" "releaseOf db (rel_id s) = Some s"
    "runsRelease x s" "dv_fwOnTrial x = Some False"
  shows "\<exists>st. statusOf env now db i = Inr (Some st) \<and> ofs_state st = INSTALLED"
  using assms by (simp add: statusOf_def offerState_def)

text \<open>What a heartbeat reads of a kiosk that says it has installed the step; what has become of the tables since does not matter.\<close>

lemma beat_reads:
  assumes "onWay i p actor rs s path db d" "registerAt p rs" "x = beaten (confirmingBeat (installed (runsOf d) s)) d"
  shows "dv_status x = APPROVED_DEVICE" "dv_online x" "dv_otaNextReleaseId x = map_option rel_id (nextOf path)" "dv_otaPressedAt x = Some p"
    "dv_otaPressedById x = Some actor" "dv_id x = i" "dv_otaOfferedAt x = dv_otaOfferedAt d" "plainRuns (runsOf x)"
    "route x (newestFirst rs) (Some p) = Inr (if path = [] then None else Some path)"
    "\<And>e. followUp env now (reportsInstalled i db) e i True
       = (let (n, c) = clearPress i p e in if n = 0 then (c, [], Inr ()) else carryOn now x p True c)"
proof -
  let ?db = "reportsInstalled i db"
  note row = reports_row [OF assms]
  show x: "dv_status x = APPROVED_DEVICE" "dv_online x" "dv_otaNextReleaseId x = map_option rel_id (nextOf path)" "dv_otaPressedAt x = Some p"
    "dv_otaPressedById x = Some actor" "dv_id x = i" "dv_otaOfferedAt x = dv_otaOfferedAt d"
    using assms(1) kiosk_id [OF row(1)] by (simp_all add: onWay_def assms(3) beaten_def)
  from assms(1) obtain t where t: "dv_otaReleaseId x = Some (rel_id s)" "dv_otaOfferedAt x = Some t" by (auto simp: onWay_def assms(3) beaten_def)
  from assms(1) have d: "plainRuns (runsOf d)" "route d (newestFirst rs) (Some p) = Inr (Some (s # path))" by (simp_all add: onWay_def)
  from route_steps(1) [OF d(2) assms(2) d(1)]
  have s: "s \<in> set rs" "s \<in> set (movesFrom (movesOver (newestFirst rs) (Some p)) (runsOf d))" by (auto dest: moves_on_register)
  show "plainRuns (runsOf x)"
    unfolding row(4) by (rule reached_plain [OF d(1) versions_movesOver [OF plain_newest [OF assms(2)]], where n = 1])
      (use s(2) in \<open>auto simp: reached_alt intro!: exI [of _ "[s]"]\<close>)
  show "route x (newestFirst rs) (Some p) = Inr (if path = [] then None else Some path)"
    by (rule route_rest [OF d(2,1) plain_newest [OF assms(2)] row(4)]) (simp add: row(5))
  have rel: "releaseOf ?db (rel_id s) = Some s" using releaseOf_in [of p ?db s] row(2) assms(2) s(1) by simp
  from status_installed [OF row(1) t rel row(6,5)] obtain st where st: "statusOf env now ?db i = Inr (Some st)" "ofs_state st = INSTALLED" by blast
  show "followUp env now ?db e i True = (let (n, c) = clearPress i p e in if n = 0 then (c, [], Inr ()) else carryOn now x p True c)" for e
    by (simp add: followUp_def row(1) x(4) st)
qed

text \<open>One heartbeat: the step is installed; the press ends with the last one, and moves to the next otherwise.\<close>

lemma beat_round:
  assumes "onWay i p actor rs s path db d" "registerAt p rs" "x = beaten (confirmingBeat (installed (runsOf d) s)) d"
  shows "\<exists>e eff. followUp env now (reportsInstalled i db) (reportsInstalled i db) i True = (e, eff, Inr ())
    \<and> (case path of
         [] \<Rightarrow> offersIn eff = [] \<and> last eff = PressFinished i actor (orElse (dv_fwVersion x) '''') (orElse (dv_modelVersion x) '''') \<and> eff \<noteq> []
           \<and> (\<exists>y. rolloutKiosk e i = Some y \<and> runsOf y = runsOf x \<and> dv_otaPressedAt y = None)
       | n # q \<Rightarrow> offersIn eff = [rel_id n] \<and> (\<exists>y. onWay i p actor rs n q e y \<and> runsOf y = runsOf x \<and> dv_otaOfferedAt y = Some now))"
proof -
  let ?db = "reportsInstalled i db"
  note row = reports_row [OF assms]
  note x = beat_reads [OF assms]
  obtain n c where clear: "clearPress i p ?db = (n, c)" by force
  note c = clear_granted [OF row(1) x(4) clear]
  have follow: "followUp env now ?db ?db i True = carryOn now x p True c" using c(1) by (simp add: x(10) clear)
  have pub: "publishedReleases c = newestFirst rs" by (simp add: publishedReleases_def c(3) row(2))
  show ?thesis
  proof (cases path)
    case Nil
    then show ?thesis using follow c(2) x(9) by (simp add: carryOn_def pub x(5,6) runsOf_def)
  next
    case (Cons m q)
    let ?d = "x\<lparr>dv_otaNextReleaseId := None, dv_otaPressedAt := None, dv_otaPressedById := None\<rparr>"
    have "kiosksDistinct c" using c(4) row(3) by simp
    from send_granted [OF this c(2), of ?d now m "Some actor" "nextOf q" "Some p"] x(1,2,6) obtain e where e:
      "sendOffer now m ?d (Some actor) (nextOf q) (Some p) True c
        = (e, [OfferSent i (rel_id m) now, ReleaseNoted ''RELEASE_OFFER'' i], Inr (Some now))"
      "rolloutKiosk e i = Some (slotted now m (Some actor) (nextOf q) (Some p) ?d)" "ro_releases e = ro_releases c" "kiosksDistinct e" by auto
    let ?y = "slotted now m (Some actor) (nextOf q) (Some p) ?d"
    have "nextOf path = Some m" by (simp add: nextOf_def Cons)
    then have "followUp env now ?db ?db i True = (e, [OfferSent i (rel_id m) now, ReleaseNoted ''RELEASE_OFFER'' i], Inr ())"
      using follow x(9) Cons e(1) x(3,5) by (simp add: carryOn_def pub nextOf_def)
    moreover have "onWay i p actor rs m q e ?y"
    proof -
      have runs: "runsOf ?y = runsOf x" "route ?y (newestFirst rs) (Some p) = route x (newestFirst rs) (Some p)"
        by (auto intro!: route_cong simp: runsOf_def slotted_def)
      then show ?thesis using e(2,3,4) c(3) row(2,7) x(1,2,8,9) Cons by (simp add: onWay_def slotted_def)
    qed
    moreover have "runsOf ?y = runsOf x" "dv_otaOfferedAt ?y = Some now" by (simp_all add: runsOf_def slotted_def)
    ultimately show ?thesis by (auto simp: Cons)
  qed
qed

text \<open>The heartbeats after it, one for each release of the route.\<close>

lemma beats_arrive:
  assumes "onWay i p actor rs s path db d" "registerAt p rs" "length clock = Suc (length path)"
  shows "\<exists>e eff y f m. beats env i clock db = (e, eff) \<and> rolloutKiosk e i = Some y \<and> runsOf y = foldl installed (runsOf d) (s # path)
    \<and> dv_otaPressedAt y = None \<and> offersIn eff = map rel_id path \<and> eff \<noteq> [] \<and> last eff = PressFinished i actor f m
    \<and> runsOf y = \<lparr>run_fw = Some f, run_models = Some m\<rparr>"
  using assms
proof (induction path arbitrary: s db d clock)
  case Nil
  from Nil(3) obtain now where clock: "clock = [now]" by (cases clock) auto
  let ?x = "beaten (confirmingBeat (installed (runsOf d) s)) d"
  from beat_round [OF Nil(1,2) refl, of env now] obtain e eff y where
    follow: "followUp env now (reportsInstalled i db) (reportsInstalled i db) i True = (e, eff, Inr ())" and
    e: "offersIn eff = []" "last eff = PressFinished i actor (orElse (dv_fwVersion ?x) '''') (orElse (dv_modelVersion ?x) '''')" "eff \<noteq> []"
      "rolloutKiosk e i = Some y" "runsOf y = runsOf ?x" "dv_otaPressedAt y = None" by auto
  from reports_row(7) [OF Nil(1,2) refl] obtain f m where fm: "dv_fwVersion ?x = Some f" "dv_modelVersion ?x = Some m" by blast
  have "beats env i clock db = (e, eff)" by (simp add: clock follow)
  moreover have "runsOf y = installed (runsOf d) s" using e(5) reports_row(4) [OF Nil(1,2) refl] by simp
  moreover have "runsOf y = \<lparr>run_fw = Some f, run_models = Some m\<rparr>" using e(5) fm by (simp add: runsOf_def)
  ultimately show ?case using e fm by (intro exI [of _ e] exI [of _ eff] exI [of _ y] exI [of _ f] exI [of _ m]) (simp add: orElse_def)
next
  case (Cons n q)
  from Cons.prems(3) obtain now later where clock: "clock = now # later" "length later = Suc (length q)" by (cases clock) auto
  let ?x = "beaten (confirmingBeat (installed (runsOf d) s)) d"
  from beat_round [OF Cons.prems(1,2) refl, of env now] obtain c eff y where
    follow: "followUp env now (reportsInstalled i db) (reportsInstalled i db) i True = (c, eff, Inr ())" and
    c: "offersIn eff = [rel_id n]" "onWay i p actor rs n q c y" "runsOf y = runsOf ?x" by auto
  have runs: "runsOf y = installed (runsOf d) s" using c(3) reports_row(4) [OF Cons.prems(1,2) refl] by simp
  from Cons.IH [OF c(2) Cons.prems(2) clock(2)] obtain e eff' z f m where
    e: "beats env i later c = (e, eff')" "rolloutKiosk e i = Some z" "runsOf z = foldl installed (runsOf y) (n # q)"
      "dv_otaPressedAt z = None" "offersIn eff' = map rel_id q" "eff' \<noteq> []" "last eff' = PressFinished i actor f m"
      "runsOf z = \<lparr>run_fw = Some f, run_models = Some m\<rparr>" by blast
  have "beats env i clock db = (e, eff @ eff')" by (simp add: clock(1) follow e(1))
  moreover have "runsOf z = foldl installed (runsOf d) (s # n # q)" using e(3) runs by simp
  moreover have "offersIn (eff @ eff') = map rel_id (n # q)" by (simp add: c(1) e(5))
  ultimately show ?case using e by (intro exI [of _ e] exI [of _ "eff @ eff'"] exI [of _ z] exI [of _ f] exI [of _ m]) simp
qed

text \<open>The press itself puts the kiosk on its way.\<close>

lemma movesOver_all: "\<forall>r \<in> set rs. rel_createdAt r \<le> p \<Longrightarrow> movesOver rs (Some p) = movesOver rs None"
  by (simp add: movesOver_def cong: filter_cong)

lemma update_starts:
  assumes "update env p db db i actor recapture True = (e, eff, Inr t)" "rolloutKiosk db i = Some d" "registerAt p (ro_releases db)"
    "kiosksDistinct db" "dv_fwVersion d \<noteq> None" "dv_modelVersion d \<noteq> None" "plainRuns (runsOf d)"
  shows "\<exists>s path y. route d (publishedReleases db) None = Inr (Some (s # path)) \<and> offersIn eff = [rel_id s]
    \<and> onWay i p actor (ro_releases db) s path e y \<and> runsOf y = runsOf d"
proof -
  have pub: "publishedReleases db = newestFirst (ro_releases db)" by (simp add: publishedReleases_def)
  from assms(1,2) obtain way where way: "route d (publishedReleases db) None = Inr (Some way)" "dv_status d = APPROVED_DEVICE" "dv_online d"
    and sent: "answeredSend i (sendOffer p (hd way) d (Some actor) (nextOf (tl way)) (Some p) True db) = (e, eff, Inr t)"
    by (auto simp: update_def bindR_eq_Inr nextOf_def split: sum.splits)
  have "\<not> arrived (movesOver (newestFirst (ro_releases db)) None) (runsOf d)"
    using way(1) by (auto simp: pub route_def Let_def split: if_splits)
  with route_steps(2) [OF way(1) [unfolded pub] assms(3,7)] have "way \<noteq> []" by auto
  then obtain s path where sp: "way = s # path" by (cases way) auto
  have id: "dv_id d = i" by (rule kiosk_id [OF assms(2)])
  from send_granted [OF assms(4,2) way(2,3) id refl, of p s "Some actor" "nextOf path" "Some p"] obtain c where
    c: "sendOffer p s d (Some actor) (nextOf path) (Some p) True db = (c, [OfferSent i (rel_id s) p, ReleaseNoted ''RELEASE_OFFER'' i], Inr (Some p))"
      "rolloutKiosk c i = Some (slotted p s (Some actor) (nextOf path) (Some p) d)" "ro_releases c = ro_releases db" "kiosksDistinct c" by blast
  from sent c(1) sp have eff: "e = c" "eff = [OfferSent i (rel_id s) p, ReleaseNoted ''RELEASE_OFFER'' i]" by (auto simp: answeredSend_def)
  let ?y = "slotted p s (Some actor) (nextOf path) (Some p) d"
  have runs: "runsOf ?y = runsOf d" "\<And>rs asOf. route ?y rs asOf = route d rs asOf"
    by (auto intro!: route_cong simp: runsOf_def slotted_def)
  have "movesOver (newestFirst (ro_releases db)) (Some p) = movesOver (newestFirst (ro_releases db)) None"
    using assms(3) by (intro movesOver_all) (simp add: registerAt_def)
  then have "route d (newestFirst (ro_releases db)) (Some p) = Inr (Some (s # path))" using way(1) by (simp add: pub route_def sp)
  moreover from assms(5,6) obtain f m where "dv_fwVersion d = Some f" "dv_modelVersion d = Some m" by blast
  ultimately have "onWay i p actor (ro_releases db) s path e ?y"
    using c way(2,3) assms(7) runs by (simp add: onWay_def eff(1)) (simp add: slotted_def)
  with way(1) sp eff(2) runs(1) show ?thesis by (intro exI [of _ s] exI [of _ path] exI [of _ ?y]) simp
qed


definition rolloutSample :: RolloutEnv where
  "rolloutSample = \<lparr>roe_busyMs = 900000, roe_linkMs = 3600000, roe_maxBytes = 5242880, roe_sha = (\<lambda>_. ''''), roe_hmac = (\<lambda>t. t)\<rparr>"

definition pressSample :: "RolloutDb \<times> RolloutEffect list \<times> instant result" where
  "pressSample = update rolloutSample 100 sampleRollout sampleRollout ''k001'' ''u1'' True True"

lemma sample_way: "map_sum id (map_option (map rel_id)) (route sampleDevice (publishedReleases sampleRollout) None) = Inr (Some [''f2'', ''m2'', ''f3''])"
  by code_simp

lemma sample_kiosk: "rolloutKiosk sampleRollout ''k001'' = Some sampleDevice"
  by (simp add: rolloutKiosk_def firstWhere_def sampleRollout_def sampleDevice_def blankDevice_def)

lemma sample_stands: "kiosksDistinct sampleRollout" "dv_fwVersion sampleDevice \<noteq> None" "dv_modelVersion sampleDevice \<noteq> None"
  by code_simp+

lemma sample_at: "registerAt 100 (ro_releases sampleRollout)"
proof -
  have "distinct (map rel_id sampleRegister)" "list_all (\<lambda>r. rel_createdAt r \<le> 100) sampleRegister" by code_simp+
  with sample_plain(2) show ?thesis by (simp add: registerAt_def sampleRollout_def list_all_iff)
qed

lemma pressSample_sent: "pressSample = (fst pressSample, fst (snd pressSample), Inr 100)"
proof -
  from sample_way obtain way where way: "route sampleDevice (publishedReleases sampleRollout) None = Inr (Some way)"
    by (cases "route sampleDevice (publishedReleases sampleRollout) None") auto
  have d: "dv_status sampleDevice = APPROVED_DEVICE" "dv_online sampleDevice" "dv_id sampleDevice = ''k001''" "dv_otaReleaseId sampleDevice = None"
    by (simp_all add: sampleDevice_def blankDevice_def)
  have "statusOf rolloutSample 100 sampleRollout ''k001'' = Inr None" by (simp add: statusOf_def sample_kiosk d(4))
  then have "pressSample = answeredSend ''k001'' (sendOffer 100 (hd way) sampleDevice (Some ''u1'') (nextOf (tl way)) (Some 100) True sampleRollout)"
    by (simp add: pressSample_def update_def sample_kiosk d(1,2) way busyUntil_def nextOf_def)
  also from send_granted [OF sample_stands(1) sample_kiosk d(1,2,3) refl, of 100 "hd way" "Some ''u1''" "nextOf (tl way)" "Some 100"]
  obtain e where "sendOffer 100 (hd way) sampleDevice (Some ''u1'') (nextOf (tl way)) (Some 100) True sampleRollout
      = (e, [OfferSent ''k001'' (rel_id (hd way)) 100, ReleaseNoted ''RELEASE_OFFER'' ''k001''], Inr (Some 100))" by blast
  finally have "pressSample = answeredSend ''k001'' (e, [OfferSent ''k001'' (rel_id (hd way)) 100, ReleaseNoted ''RELEASE_OFFER'' ''k001''], Inr (Some 100))" .
  from arg_cong [OF this, of "\<lambda>x. snd (snd x)"] have "snd (snd pressSample) = Inr 100" by (simp add: answeredSend_def)
  then show ?thesis by (metis prod.collapse)
qed


subsection \<open>Two heartbeats that cross\<close>

lemma reports_press:
  assumes "rolloutKiosk db i = Some d"
  shows "\<exists>y. rolloutKiosk (reportsInstalled i db) i = Some y \<and> dv_otaPressedAt y = dv_otaPressedAt d"
proof (cases "Option.bind (dv_otaReleaseId d) (releaseOf db)")
  case (Some rel)
  have "dv_id d = i" using assms by (rule kiosk_id)
  with assms Some show ?thesis by (simp add: reportsInstalled_def rolloutKiosk_update beaten_def)
qed (simp add: reportsInstalled_def assms)

lemma beats_idle: "rolloutKiosk db i = Some d \<Longrightarrow> dv_otaPressedAt d = None \<Longrightarrow> snd (beats env i clock db) = []"
proof (induction clock arbitrary: db d)
  case (Cons now later)
  from reports_press [OF Cons.prems(1)] Cons.prems(2) obtain y where
    y: "rolloutKiosk (reportsInstalled i db) i = Some y" "dv_otaPressedAt y = None" by auto
  then have "followUp env now (reportsInstalled i db) (reportsInstalled i db) i True = (reportsInstalled i db, [], Inr ())"
    by (simp add: followUp_def)
  with Cons.IH [OF y] show ?case by (simp split: prod.splits)
qed simp

text \<open>Two heartbeats read the kiosk before either has cleared the press. The first clears it and sends the next release, which
  bears the time of the press again; so the second clears the press of that new offer, and its own send finds the slot taken.
  The press is gone: whatever the kiosk installs after that, nothing more is offered and nobody is told.\<close>

lemma late_beat_drops_press:
  assumes "onWay i p actor rs s (n # q) db d" "registerAt p rs" "dv_otaOfferedAt d \<noteq> Some now"
    "followUp env now (reportsInstalled i db) (reportsInstalled i db) i True = (first, eff, r)"
    "followUp env later (reportsInstalled i db) first i True = (second, eff', r')"
  shows "offersIn eff = [rel_id n]" "eff' = []" "snd (beats env i clock second) = []"
proof -
  let ?x = "beaten (confirmingBeat (installed (runsOf d) s)) d"
  from beat_round [OF assms(1,2) refl, of env now] assms(4) obtain y where
    y: "offersIn eff = [rel_id n]" "onWay i p actor rs n q first y" "dv_otaOfferedAt y = Some now" by auto
  note x = beat_reads [OF assms(1,2) refl]
  from y(2) have row: "rolloutKiosk first i = Some y" "dv_otaPressedAt y = Some p" "ro_releases first = rs" "kiosksDistinct first" by (auto simp: onWay_def)
  obtain k c where clear: "clearPress i p first = (k, c)" by force
  note c = clear_granted [OF row(1,2) clear]
  let ?d = "?x\<lparr>dv_otaNextReleaseId := None, dv_otaPressedAt := None, dv_otaPressedById := None\<rparr>"
  have distinct: "kiosksDistinct c" using c(4) row(4) by simp
  have lost: "fst (takeSlot later n ?d (Some actor) (nextOf q) (Some p) c) = 0"
  proof (rule ccontr)
    assume "fst (takeSlot later n ?d (Some actor) (nextOf q) (Some p) c) \<noteq> 0"
    from slot_taken(1) [OF distinct this, of i] x(6,7) c(2) y(3) assms(3) show False by (simp add: otaSlot_def)
  qed
  then have "length (filter (slotFree ?d) (ro_devices c)) = 0" by (simp only: takeSlot_eq fst_conv)
  then have "sendOffer later n ?d (Some actor) (nextOf q) (Some p) True c = (c, [], Inr None)" by (simp only: sendOffer_def takeSlot_eq prod.case if_True Let_def simp_thms)
  then have "carryOn later ?x p True c = (c, [], Inr ())"
    using x(9) by (simp add: carryOn_def publishedReleases_def c(3) row(3) x(3,5) nextOf_def)
  with x(10) clear c(1) assms(5) have second: "second = c" "eff' = []" by (simp_all)
  show "offersIn eff = [rel_id n]" "eff' = []" by (fact y(1) second(2))+
  show "snd (beats env i clock second) = []" unfolding second(1) by (rule beats_idle [OF c(2)]) simp
qed

end
