(* ===== verification/Spec2Isabelle.thy ===== *)
theory Spec2Isabelle
  imports ClaimLaws RosterLevel SignInLaws Assets Shifts Compensation DeviceLaws Commands PressLaws
begin

text \<open>
  The backend of the face-attendance system under \<open>src/backend\<close>: kiosks at the doors hold the faces the
  server gives them under a consent and send punches, a timesheet is built from them and from the leave and trips the staff file, and a payroll prices the month.
  The model follows the NestJS services under \<open>src/backend/src/modules\<close>; each service method is one HOL
  function with the guards and the order of the source.

  How the code is rendered. A thrown HTTP exception is \<open>Inl\<close> of an \<open>http_error\<close> and an answer is \<open>Inr\<close>
  (Prelude). A table is a list of rows in the order they were made, or a map where only a key matters; a
  conditional \<open>updateMany\<close> is \<open>claimWhere\<close>, which returns the count the code tests. A handler that reads
  outside its transaction takes two states, the one it read and the one it commits on, so that every
  interleaving of requests is a sequence of steps. Dates are day numbers, instants milliseconds, money is
  whole dong in unbounded integers as the code's \<open>bigint\<close>, decimal columns are read back through the same
  text conversions as the code's. The clock, the zone database, the queue and ids are arguments.

  The theories, from the bottom:
    Prelude: errors as values, guarded writes, tables, the locale \<open>settled_once\<close> of a row that is settled
      once, whatever number of writers race on it, and the locale of a codec;
    Money, Calculate: \<open>payroll/money.ts\<close> and \<open>payroll/calculate.ts\<close>, the arithmetic of one payslip, with its
      lines summing to its totals, the progressive tax as the sum over its bands, and the exact rounding;
    Scope: \<open>common/scope\<close>, who sees and reaches whom; the recursive queries against the reflexive
      transitive closure of the manager column, and the walk that refuses a loop of managers;
    Calendar, Records, Timesheet: \<open>timesheet/local-day.ts\<close> and \<open>timesheet.service.ts\<close>, the day rows built from
      punches, corrected by hand, marked by approvals, and the rule that no job overwrites a correction;
    LeaveYear, Leave: \<open>leave-year.service.ts\<close> and \<open>leave.service.ts\<close>, the ledger of days held, taken and
      carried, an inductive step relation over filings, answers, withdrawals and openings, and its invariant;
    Attendance: \<open>attendance.service.ts\<close>, a punch stored once under its key and reviewed once;
    Policy: \<open>policy.service.ts\<close>, which payroll policy is in force;
    Payslips: the pricing part of \<open>payroll.service.ts\<close>, regular runs in chunks, bonuses, final settlements,
      the comparison of payslips and the tax year;
    Payroll, Claims: the tables of periods, runs, payslips, back payments, advances and disputes, and every
      handler that writes them (\<open>payroll.service.ts\<close>, \<open>queue/processors/payroll.processor.ts\<close>,
      \<open>advance.service.ts\<close>, \<open>disputes.service.ts\<close>);
    PayFlow: the step relation \<open>payStep b c d\<close> (a handler that read \<open>b\<close> commits on \<open>c\<close> and leaves \<open>d\<close>) with
      its reachability, the invariant \<open>payOk\<close>, and that a closed month is never written again;
    PayLaws: the abstract machine \<open>lifeStep\<close> of period and run states, the refinement of every handler to it,
      and that a run given to the worker ends;
    PaySettle, PayLock: the money of an advance from its payslip to the lock that settles it, and the lock as
      one exact change of the tables;
    ClaimLaws: a dispute is answered once and paid once;
    Enroll: \<open>enrollment.service.ts\<close> and \<open>consent.service.ts\<close>, the faces, the consents and the numbered messages
      that keep the rosters of the kiosks;
    Kiosk: the part of the firmware that takes those messages (\<open>firmware/main/app_tasks.c\<close>, \<open>svc_facedb\<close>);
    RosterSync, Faces, RosterLevel: the step relation \<open>enrollStep\<close> of the service and what the two halves promise
      together, the numbering, the kiosk that stops at a gap, the replay that brings it level, and faces
      only under a consent;
    Codes, Passwords: \<open>auth/totp.ts\<close>, \<open>password.ts\<close> and \<open>password-policy.ts\<close>, the text of a secret and of a hash
      with their round trips, the step a one-time password belongs to;
    Accounts, Sessions: the rows and guard keys of accounts, \<open>login-lockout.service.ts\<close>, \<open>mfa.service.ts\<close>,
      \<open>auth.service.ts\<close> and what the strategies ask of an access token;
    AuthLaws, SignInLaws: the step relation \<open>authStep\<close> of those services with fresh values, every token, code and
      link good once; what a new password cuts off; the two locks;
    Assets: \<open>assets.service.ts\<close>, the register, whose row always says what the history of hand-overs says;
    Shifts: \<open>shifts.service.ts\<close>, the assignments and the month ahead, against the rule of the day build;
    Compensation: \<open>compensation.service.ts\<close>, the dated pay records that payroll reads, which only grow, the raise
      of many, and the dependants, each decided once;
    Devices, DeviceLaws: \<open>devices.service.ts\<close>, a kiosk let in by the code on its screen, its ticket and its
      heartbeats, and that a ticket goes to the machine whose code was typed;
    Commands: \<open>commands.service.ts\<close>, the life of a command, closed once;
    Releases, Routes: \<open>models/release-rules.ts\<close> and the pure part of \<open>models.service.ts\<close>, versions, what an image
      says of itself, a body stored in chunks, and the search for the way of a kiosk to the newest releases, against the
      shortest of all ways;
    Rollout: \<open>models.service.ts\<close>, the register of releases, the offers, and a press of update carried on;
    RolloutLaws, OfferLaws, PressLaws: the type of the register, one offer at a time, and the press that ends.

  Bounds. The tree walks of Scope stop at the 64 levels of the source, which is part of what is stated about
  them; the loops are structural recursions or functions with a proved measure (the search of routes by the kiosk
  states it has not met), so no fuel is used anywhere else. A run that stops in the middle is \<open>brokenRegular\<close>, with
  the number of chunks it had written.

  Not modelled: the reads that only shape rows for a screen (lists, totals, badges, CSV exports), the audit
  trail and the notices but for the line each handler sends to them, the MQTT transport, the firmware but for its
  roster, the recognition models, the frontend, and the generated and seeded data. SQL is modelled by what it
  selects and writes, and a transaction by one step, as the row locks the code takes make it.
\<close>

end
